(* ===== verification/Py_Prelude.thy ===== *)
theory Py_Prelude
  imports Main "HOL-Library.Char_ord" "HOL-Library.List_Lexorder" "HOL-Library.Product_Lexorder"
    "HOL-Library.AList" "HOL-Library.Sublist"
begin

text \<open>
  Prelude of the development: what the Python sources use of the language and of its standard
  library, once, for every component.

  \<^item> Errors: a Python exception is a value of \<open>exn\<close>, a computation that may raise has type
    \<open>'a result\<close> (\<open>Inl\<close> the exception), \<open>rbind\<close> and \<open>rmap_list\<close> sequence such computations.
  \<^item> Strings: \<open>str\<close> is read as a \<open>string\<close> whose \<open>char\<close>s are the code points below 256
    (Latin-1). The predicates \<open>isdigit\<close>, \<open>isalpha\<close>, \<open>isalnum\<close>, \<open>isspace\<close> and \<open>lower\<close> are the
    Unicode ones on that range: the superscripts two, three and one are digits for \<open>isdigit\<close>
    and are refused by \<open>int()\<close>. Strings are ordered by code point (\<open>List_Lexorder\<close>).
  \<^item> Dictionaries whose iteration order matters are association lists in insertion order:
    \<open>AList.update\<close> keeps the position of an existing key and appends a new one, as
    \<open>dict.__setitem__\<close> does.
  \<^item> Three-way comparison: \<open>padcmp\<close> compares zero-padded integer lists and \<open>lexcmp\<close> lists of
    them; every version comparator of the analyzer is proved equal to \<open>lexcmp\<close> of two keys.
\<close>

named_theorems py_simps \<open>evaluation rules of the Python primitives\<close>
named_theorems cmp_laws \<open>laws of the three-way comparisons\<close>

section \<open>Exceptions and results\<close>

datatype exn =
    ValueError | KeyError | IndexError | RuntimeError | ValidationError
  | StorageCapacityError | JobNotFoundError | JobConflictError | LeaseLostError | IntegrityError | StopIteration
  | AgentIdentityNotFoundError | AgentCertificateNotFoundError | AgentIdentityConflictError | NotFoundError | ConflictError
  | LedgerConflictError | StorageCursorError | HTTPException nat | MdeUpstreamError | AnalyzerUpstreamError | ProvenanceConflict

type_synonym 'a result = "exn + 'a"

definition rbind :: "'a result \<Rightarrow> ('a \<Rightarrow> 'b result) \<Rightarrow> 'b result" where
  "rbind m f = (case m of Inl e \<Rightarrow> Inl e | Inr x \<Rightarrow> f x)"

fun rmap_list :: "('a \<Rightarrow> 'b result) \<Rightarrow> 'a list \<Rightarrow> 'b list result" where
  "rmap_list f [] = Inr []"
| "rmap_list f (x # xs) = rbind (f x) (\<lambda>y. rbind (rmap_list f xs) (\<lambda>ys. Inr (y # ys)))"

text \<open>A \<open>for\<close> loop over a list whose body may raise.\<close>

fun rfold :: "('x \<Rightarrow> 's \<Rightarrow> 's result) \<Rightarrow> 'x list \<Rightarrow> 's \<Rightarrow> 's result" where
  "rfold f [] s = Inr s"
| "rfold f (x # xs) s = rbind (f x s) (rfold f xs)"

lemma rbind_simps [simp]: "rbind (Inl e) f = Inl e" "rbind (Inr x) f = f x"
  by (simp_all add: rbind_def)

lemma rbind_eq_Inr [simp]: "rbind m f = Inr y \<longleftrightarrow> (\<exists>x. m = Inr x \<and> f x = Inr y)"
  by (cases m) auto

lemma rmap_list_eq_Inr: "rmap_list f xs = Inr ys \<longleftrightarrow> list_all2 (\<lambda>x y. f x = Inr y) xs ys"
  by (induction xs arbitrary: ys) (auto simp: list_all2_Cons1)

lemma rmap_list_Inr: "(\<And>x. x \<in> set xs \<Longrightarrow> f x = Inr (g x)) \<Longrightarrow> rmap_list f xs = Inr (map g xs)"
  by (induction xs) auto

lemma rfold_inv:
  assumes "P s" "\<And>x s. x \<in> set xs \<Longrightarrow> P s \<Longrightarrow> \<exists>s'. f x s = Inr s' \<and> P s'"
  shows "\<exists>s'. rfold f xs s = Inr s' \<and> P s'"
  using assms
proof (induction xs arbitrary: s)
  case (Cons x xs)
  then obtain s1 where "f x s = Inr s1" "P s1" by (metis list.set_intros(1))
  then show ?case using Cons by simp
qed simp

text \<open>\<open>list(dict.fromkeys(xs))\<close>: the first occurrences, in order.\<close>

fun fromkeys :: "'a list \<Rightarrow> 'a list" where
  "fromkeys [] = []"
| "fromkeys (x # xs) = x # filter (\<lambda>y. y \<noteq> x) (fromkeys xs)"

lemma set_fromkeys [simp]: "set (fromkeys xs) = set xs"
  by (induction xs) auto

lemma distinct_fromkeys [simp]: "distinct (fromkeys xs)"
  by (induction xs) auto

lemma length_fromkeys: "length (fromkeys xs) \<le> length xs"
  by (metis card_length distinct_card distinct_fromkeys set_fromkeys)

section \<open>Characters and strings\<close>

abbreviation code :: "char \<Rightarrow> int" where
  "code c \<equiv> int (of_char c)"

definition isdecimal_char :: "char \<Rightarrow> bool" where
  "isdecimal_char c = (48 \<le> code c \<and> code c \<le> 57)"

definition isdigit_char :: "char \<Rightarrow> bool" where
  "isdigit_char c = (isdecimal_char c \<or> code c \<in> {178, 179, 185})"

definition isalpha_char :: "char \<Rightarrow> bool" where
  "isalpha_char c = (let n = code c in
     (65 \<le> n \<and> n \<le> 90) \<or> (97 \<le> n \<and> n \<le> 122) \<or> n \<in> {170, 181, 186}
     \<or> (192 \<le> n \<and> n \<noteq> 215 \<and> n \<noteq> 247))"

definition isalnum_char :: "char \<Rightarrow> bool" where
  "isalnum_char c = (isalpha_char c \<or> isdigit_char c \<or> code c \<in> {188, 189, 190})"

definition isspace_char :: "char \<Rightarrow> bool" where
  "isspace_char c = (let n = code c in
     (9 \<le> n \<and> n \<le> 13) \<or> (28 \<le> n \<and> n \<le> 32) \<or> n = 133 \<or> n = 160)"

definition lower_char :: "char \<Rightarrow> char" where
  "lower_char c = (let n = code c in
     if (65 \<le> n \<and> n \<le> 90) \<or> (192 \<le> n \<and> n \<le> 222 \<and> n \<noteq> 215)
     then char_of (of_char c + (32::nat)) else c)"

definition isdigit :: "string \<Rightarrow> bool" where
  "isdigit s = (s \<noteq> [] \<and> list_all isdigit_char s)"

definition isdecimal :: "string \<Rightarrow> bool" where
  "isdecimal s = (s \<noteq> [] \<and> list_all isdecimal_char s)"

definition lower :: "string \<Rightarrow> string" where
  "lower s = map lower_char s"

definition strip :: "string \<Rightarrow> string" where
  "strip s = rev (dropWhile isspace_char (rev (dropWhile isspace_char s)))"

text \<open>\<open>s.partition(c)\<close>: the part before the first \<open>c\<close>, whether \<open>c\<close> occurs, the part after it;
  \<open>s.rpartition(c)\<close> splits at the last \<open>c\<close> and has an empty head when there is none.\<close>

definition partition_at :: "char \<Rightarrow> string \<Rightarrow> string \<times> bool \<times> string" where
  "partition_at c s = (takeWhile (\<lambda>x. x \<noteq> c) s, c \<in> set s, tl (dropWhile (\<lambda>x. x \<noteq> c) s))"

definition rpartition_at :: "char \<Rightarrow> string \<Rightarrow> string \<times> bool \<times> string" where
  "rpartition_at c s =
     (rev (tl (dropWhile (\<lambda>x. x \<noteq> c) (rev s))), c \<in> set s, rev (takeWhile (\<lambda>x. x \<noteq> c) (rev s)))"

fun split_on :: "char \<Rightarrow> string \<Rightarrow> string list" where
  "split_on c [] = [[]]"
| "split_on c (x # xs) =
     (if x = c then [] # split_on c xs
      else (case split_on c xs of [] \<Rightarrow> [[x]] | w # ws \<Rightarrow> (x # w) # ws))"

definition startswith :: "string \<Rightarrow> string \<Rightarrow> bool" where
  "startswith s p = (take (length p) s = p)"

definition str_in :: "string \<Rightarrow> string \<Rightarrow> bool" where
  "str_in needle hay = list_ex (\<lambda>t. startswith t needle) (suffixes hay)"

fun join :: "string \<Rightarrow> string list \<Rightarrow> string" where
  "join sep [] = []"
| "join sep [w] = w"
| "join sep (w # v # ws) = w @ sep @ join sep (v # ws)"

text \<open>\<open>x or None\<close> for an optional string: the empty string counts as absent.\<close>

definition truthy :: "string option \<Rightarrow> string option" where
  "truthy x = (if x = Some [] then None else x)"

text \<open>\<open>int(s)\<close> on the strings the sources pass to it: they are non-empty runs of
  \<open>isdigit\<close> characters, and \<open>int\<close> accepts only decimal digits among those.\<close>

definition decimal_value :: "string \<Rightarrow> int" where
  "decimal_value s = foldl (\<lambda>acc c. acc * 10 + (code c - 48)) 0 s"

definition py_int :: "string \<Rightarrow> int result" where
  "py_int s = (if isdecimal s then Inr (decimal_value s) else Inl ValueError)"

fun nat_str :: "nat \<Rightarrow> string" where
  "nat_str n = (if n < 10 then [char_of (48 + n)] else nat_str (n div 10) @ [char_of (48 + n mod 10)])"

declare nat_str.simps [simp del]

definition int_str :: "int \<Rightarrow> string" where
  "int_str i = (if i < 0 then CHR ''-'' # nat_str (nat (- i)) else nat_str (nat i))"

lemma isdecimal_isdigit: "isdecimal s \<Longrightarrow> isdigit s"
  by (auto simp: isdecimal_def isdigit_def isdigit_char_def list_all_iff)

lemma py_int_decimal [simp]: "isdecimal s \<Longrightarrow> py_int s = Inr (decimal_value s)"
  by (simp add: py_int_def)

lemma py_int_not_decimal: "\<not> isdecimal s \<Longrightarrow> py_int s = Inl ValueError"
  by (simp add: py_int_def)

lemma foldl_digits_nonneg:
  "list_all isdecimal_char s \<Longrightarrow> 0 \<le> acc \<Longrightarrow> 0 \<le> foldl (\<lambda>acc c. acc * 10 + (code c - 48)) acc s"
  by (induction s arbitrary: acc) (auto simp: isdecimal_char_def)

lemma decimal_value_nonneg: "isdecimal s \<Longrightarrow> 0 \<le> decimal_value s"
  by (simp add: decimal_value_def isdecimal_def foldl_digits_nonneg)

lemma length_strip: "length (strip s) \<le> length s"
  by (metis length_dropWhile_le length_rev order_trans strip_def)

lemma str_less_code: "((c::char) < d) = (code c < code d)"
  by (simp add: less_char_def)

lemma code_inj [simp]: "(code c = code d) = (c = d)"
  by simp

lemma code_nonneg [simp]: "0 \<le> code c"
  by simp

lemma code_less_256: "code c < 256"
  by (simp add: of_char_def)

lemma map_code_inj [simp]: "(map code s = map code t) = (s = t)"
  by (rule inj_map_eq_map) (simp add: inj_on_def)

lemma map_code_less [simp]: "(map code s < map code t) = (s < t)"
proof (induction s arbitrary: t)
  case Nil
  then show ?case by (cases t) auto
next
  case (Cons c s)
  then show ?case by (cases t) (auto simp: str_less_code)
qed

section \<open>Zero-padded lexicographic comparison\<close>

definition sgn3 :: "'a::linorder \<Rightarrow> 'a \<Rightarrow> int" where
  "sgn3 x y = (if x = y then 0 else if x < y then -1 else 1)"

lemma sgn3_eq_0 [simp]: "sgn3 x y = 0 \<longleftrightarrow> x = y"
  by (auto simp: sgn3_def)

lemma sgn3_refl [simp]: "sgn3 x x = 0"
  by (simp add: sgn3_def)

lemma sgn3_swap: "sgn3 y x = - sgn3 x y"
  by (auto simp: sgn3_def)

lemma sgn3_le_0: "sgn3 x y \<le> 0 \<longleftrightarrow> x \<le> y"
  by (auto simp: sgn3_def)

lemma sgn3_range: "sgn3 x y \<in> {-1, 0, 1}"
  by (simp add: sgn3_def)

fun padcmp :: "int list \<Rightarrow> int list \<Rightarrow> int" where
  "padcmp [] [] = 0"
| "padcmp (x # xs) [] = (if x \<noteq> 0 then sgn3 x 0 else padcmp xs [])"
| "padcmp [] (y # ys) = (if y \<noteq> 0 then sgn3 0 y else padcmp [] ys)"
| "padcmp (x # xs) (y # ys) = (if x \<noteq> y then sgn3 x y else padcmp xs ys)"

definition hd0 :: "int list \<Rightarrow> int" where
  "hd0 xs = (case xs of [] \<Rightarrow> 0 | x # _ \<Rightarrow> x)"

lemma hd0_simps [simp]: "hd0 [] = 0" "hd0 (x # xs) = x"
  by (simp_all add: hd0_def)

lemma padcmp_unfold:
  "padcmp xs ys = (if hd0 xs \<noteq> hd0 ys then sgn3 (hd0 xs) (hd0 ys) else padcmp (tl xs) (tl ys))"
  by (cases xs; cases ys) auto

lemma padcmp_self [simp]: "padcmp xs xs = 0"
  by (induction xs) auto

lemma padcmp_swap: "padcmp ys xs = - padcmp xs ys"
  by (induction xs ys rule: padcmp.induct) (auto simp: sgn3_def)

lemma padcmp_range: "padcmp xs ys \<in> {-1, 0, 1}"
  by (induction xs ys rule: padcmp.induct) (auto simp: sgn3_def)

lemma padcmp_trans: "padcmp xs ys \<le> 0 \<Longrightarrow> padcmp ys zs \<le> 0 \<Longrightarrow> padcmp xs zs \<le> 0"
proof (induction "length xs + length ys + length zs" arbitrary: xs ys zs rule: less_induct)
  case less
  show ?case
  proof (cases "xs = [] \<and> ys = [] \<and> zs = []")
    case True
    then show ?thesis by simp
  next
    case False
    then have "length (tl xs) + length (tl ys) + length (tl zs) < length xs + length ys + length zs"
      by (cases xs; cases ys; cases zs) auto
    then have IH: "padcmp (tl xs) (tl ys) \<le> 0 \<Longrightarrow> padcmp (tl ys) (tl zs) \<le> 0 \<Longrightarrow> padcmp (tl xs) (tl zs) \<le> 0"
      by (rule less.hyps)
    note heads = padcmp_unfold [of xs ys] padcmp_unfold [of ys zs] padcmp_unfold [of xs zs]
    have "hd0 xs \<le> hd0 ys" "hd0 ys \<le> hd0 zs"
      using less.prems heads by (auto simp: sgn3_def split: if_splits)
    then consider "hd0 xs < hd0 zs" | "hd0 xs = hd0 ys" "hd0 ys = hd0 zs" by linarith
    then show ?thesis
    proof cases
      case 1
      with heads(3) show ?thesis by (simp add: sgn3_def)
    next
      case 2
      with heads less.prems IH show ?thesis by simp
    qed
  qed
qed

lemma padcmp_append_same [simp]: "padcmp (zs @ xs) (zs @ ys) = padcmp xs ys"
  by (induction zs) auto

lemma padcmp_append_neq: "length xs = length ys \<Longrightarrow> xs \<noteq> ys \<Longrightarrow> padcmp (xs @ us) (ys @ vs) = sgn3 xs ys"
  by (induction xs ys rule: list_induct2) (auto simp: sgn3_def)

lemma sgn3_map_code [simp]: "sgn3 (map code s) (map code t) = sgn3 s t"
  by (simp add: sgn3_def)

text \<open>Lists of keys, compared component by component; a missing component is the empty key.\<close>

fun lexcmp :: "int list list \<Rightarrow> int list list \<Rightarrow> int" where
  "lexcmp [] [] = 0"
| "lexcmp (k # ks) [] = (if padcmp k [] \<noteq> 0 then padcmp k [] else lexcmp ks [])"
| "lexcmp [] (l # ls) = (if padcmp [] l \<noteq> 0 then padcmp [] l else lexcmp [] ls)"
| "lexcmp (k # ks) (l # ls) = (if padcmp k l \<noteq> 0 then padcmp k l else lexcmp ks ls)"

definition hdk :: "int list list \<Rightarrow> int list" where
  "hdk ks = (case ks of [] \<Rightarrow> [] | k # _ \<Rightarrow> k)"

lemma lexcmp_unfold:
  "lexcmp ks ls = (if padcmp (hdk ks) (hdk ls) \<noteq> 0 then padcmp (hdk ks) (hdk ls) else lexcmp (tl ks) (tl ls))"
  by (cases ks; cases ls) (auto simp: hdk_def)

lemma lexcmp_self [cmp_laws]: "lexcmp ks ks = 0"
  by (induction ks) auto

lemma lexcmp_swap [cmp_laws]: "lexcmp ls ks = - lexcmp ks ls"
proof (induction ks ls rule: lexcmp.induct)
  case (2 k ks)
  then show ?case using padcmp_swap [of k "[]"] by simp
next
  case (3 l ls)
  then show ?case using padcmp_swap [of l "[]"] by simp
next
  case (4 k ks l ls)
  then show ?case using padcmp_swap [of k l] by simp
qed simp

lemma lexcmp_range [cmp_laws]: "lexcmp ks ls \<in> {-1, 0, 1}"
  by (induction ks ls rule: lexcmp.induct) (use padcmp_range in auto)

lemma padcmp_0_left: "padcmp xs ys = 0 \<Longrightarrow> padcmp xs zs = padcmp ys zs"
proof -
  assume eq: "padcmp xs ys = 0"
  then have eq': "padcmp ys xs = 0" using padcmp_swap [of ys xs] by simp
  have "padcmp xs zs \<le> 0 \<longleftrightarrow> padcmp ys zs \<le> 0"
    using eq eq' padcmp_trans [of xs ys zs] padcmp_trans [of ys xs zs] by auto
  moreover have "padcmp zs xs \<le> 0 \<longleftrightarrow> padcmp zs ys \<le> 0"
    using eq eq' padcmp_trans [of zs xs ys] padcmp_trans [of zs ys xs] by auto
  ultimately show ?thesis
    using padcmp_range [of xs zs] padcmp_range [of ys zs] padcmp_swap [of zs xs] padcmp_swap [of zs ys]
    by auto
qed

lemma lexcmp_trans [cmp_laws]: "lexcmp ks ls \<le> 0 \<Longrightarrow> lexcmp ls ms \<le> 0 \<Longrightarrow> lexcmp ks ms \<le> 0"
proof (induction "length ks + length ls + length ms" arbitrary: ks ls ms rule: less_induct)
  case less
  show ?case
  proof (cases "ks = [] \<and> ls = [] \<and> ms = []")
    case True
    then show ?thesis by simp
  next
    case False
    then have shorter: "length (tl ks) + length (tl ls) + length (tl ms) < length ks + length ls + length ms"
      by (cases ks; cases ls; cases ms) auto
    let ?a = "padcmp (hdk ks) (hdk ls)" and ?b = "padcmp (hdk ls) (hdk ms)"
    have heads: "?a \<le> 0" "?b \<le> 0"
      using less.prems lexcmp_unfold [of ks ls] lexcmp_unfold [of ls ms] by (auto split: if_splits)
    then have head: "padcmp (hdk ks) (hdk ms) \<le> 0" by (rule padcmp_trans)
    show ?thesis
    proof (cases "padcmp (hdk ks) (hdk ms) = 0")
      case True
      then have "padcmp (hdk ms) (hdk ls) \<le> 0"
        using heads(1) padcmp_0_left padcmp_swap by (metis neg_equal_0_iff_equal)
      then have "?b = 0" using heads(2) padcmp_swap [of "hdk ls" "hdk ms"] by simp
      then have "?a = 0" using True padcmp_0_left padcmp_swap by (metis neg_equal_0_iff_equal)
      with \<open>?b = 0\<close> have "lexcmp (tl ks) (tl ls) \<le> 0" "lexcmp (tl ls) (tl ms) \<le> 0"
        using less.prems lexcmp_unfold [of ks ls] lexcmp_unfold [of ls ms] by auto
      with less.hyps shorter have "lexcmp (tl ks) (tl ms) \<le> 0" by blast
      with True show ?thesis by (simp add: lexcmp_unfold [of ks ms])
    next
      case False
      with head show ?thesis by (simp add: lexcmp_unfold [of ks ms])
    qed
  qed
qed

end
