(* ===== verification/Version_Order.thy ===== *)
theory Version_Order
  imports Py_Prelude
begin

text \<open>
  The interface between the version comparators and the matcher that sorts and compares with
  them. A comparator may raise; on the strings it accepts (\<open>valid\<close>) it returns one of
  \<open>-1\<close>, \<open>0\<close>, \<open>1\<close> and is a total preorder (\<open>version_order\<close>). A comparator that is the comparison of keys
  (\<open>keyed_order\<close>) has these laws; the concrete comparators are interpreted as keyed orders.
\<close>

locale version_order =
  fixes valid :: "string \<Rightarrow> bool"
    and cmp :: "string \<Rightarrow> string \<Rightarrow> int result"
  assumes cmp_total: "valid a \<Longrightarrow> valid b \<Longrightarrow> \<exists>r. cmp a b = Inr r \<and> r \<in> {-1, 0, 1}"
    and cmp_swap: "valid a \<Longrightarrow> valid b \<Longrightarrow> cmp a b = Inr r \<Longrightarrow> cmp b a = Inr (- r)"
    and cmp_trans: "valid a \<Longrightarrow> valid b \<Longrightarrow> valid c \<Longrightarrow> cmp a b = Inr r \<Longrightarrow> r \<le> 0 \<Longrightarrow>
      cmp b c = Inr s \<Longrightarrow> s \<le> 0 \<Longrightarrow> \<exists>t. cmp a c = Inr t \<and> t \<le> 0"
begin

lemma cmp_refl: "valid a \<Longrightarrow> cmp a a = Inr 0"
  using cmp_total [of a a] cmp_swap [of a a] by force

lemma cmp_cases:
  assumes "valid a" "valid b"
  obtains "cmp a b = Inr (-1)" "cmp b a = Inr 1" | "cmp a b = Inr 0" "cmp b a = Inr 0"
    | "cmp a b = Inr 1" "cmp b a = Inr (-1)"
  using cmp_total [OF assms] cmp_swap [OF assms] by fastforce

text \<open>Equivalent versions compare alike with every third one.\<close>

lemma cmp_equiv:
  assumes "valid a" "valid b" "valid c" "cmp a b = Inr 0"
  shows "cmp a c = cmp b c"
proof -
  have ba: "cmp b a = Inr 0" using assms cmp_swap by fastforce
  have le: "valid x \<Longrightarrow> valid y \<Longrightarrow> valid z \<Longrightarrow> cmp x y = Inr 0 \<Longrightarrow> cmp y z = Inr s \<Longrightarrow> s \<le> 0 \<Longrightarrow>
      \<exists>t. cmp x z = Inr t \<and> t \<le> 0" for x y z s
    using cmp_trans [of x y z 0 s] by simp
  have ge: "valid x \<Longrightarrow> valid y \<Longrightarrow> valid z \<Longrightarrow> cmp y x = Inr 0 \<Longrightarrow> cmp z y = Inr s \<Longrightarrow> s \<le> 0 \<Longrightarrow>
      \<exists>t. cmp z x = Inr t \<and> t \<le> 0" for x y z s
    using cmp_trans [of z y x s 0] by simp
  show ?thesis
    using assms(1,3)
  proof (cases rule: cmp_cases)
    case 1
    show ?thesis
      by (rule cmp_cases [OF assms(2,3)]) (use 1 assms ba ge [of a b c] le [of b a c] ge [of b a c] le [of a b c] in auto)
  next
    case 2
    show ?thesis
      by (rule cmp_cases [OF assms(2,3)]) (use 2 assms ba ge [of a b c] le [of b a c] ge [of b a c] le [of a b c] in auto)
  next
    case 3
    show ?thesis
      by (rule cmp_cases [OF assms(2,3)]) (use 3 assms ba ge [of a b c] le [of b a c] ge [of b a c] le [of a b c] in auto)
  qed
qed

end

locale keyed_order =
  fixes valid :: "string \<Rightarrow> bool"
    and cmp :: "string \<Rightarrow> string \<Rightarrow> int result"
    and key :: "string \<Rightarrow> int list list"
  assumes cmp_key: "valid a \<Longrightarrow> valid b \<Longrightarrow> cmp a b = Inr (lexcmp (key a) (key b))"

sublocale keyed_order \<subseteq> version_order valid cmp
proof
  show "\<exists>r. cmp a b = Inr r \<and> r \<in> {-1, 0, 1}" if "valid a" "valid b" for a b
    using that lexcmp_range cmp_key by metis
next
  show "cmp b a = Inr (- r)" if "valid a" "valid b" "cmp a b = Inr r" for a b r
    using that lexcmp_swap [of "key b" "key a"] by (simp add: cmp_key)
next
  show "\<exists>t. cmp a c = Inr t \<and> t \<le> 0"
    if "valid a" "valid b" "valid c" "cmp a b = Inr r" "r \<le> 0" "cmp b c = Inr s" "s \<le> 0" for a b c r s
    using that lexcmp_trans by (auto simp: cmp_key)
qed

end
