(* ===== verification/Debian_Version.thy ===== *)
theory Debian_Version
  imports Version_Order
begin

text \<open>
  Debian package version comparison: \<open>analyzer/detect/debversion.py\<close>.

  The two indices of \<open>_compare_segment\<close> are represented by the suffixes \<open>a[ia:]\<close> and \<open>b[ib:]\<close>
  that are still to be read. \<open>nondigit_loop\<close> is the inner loop over the non-digit run (\<open>Inl\<close> a
  result that is returned at once, \<open>Inr\<close> the suffixes after the run), \<open>compare_segment\<close> the
  outer loop. The lemmas show that both loops end and that the comparison is the zero-padded
  lexicographic comparison of a key (\<open>seg_key\<close>), so it is a total preorder; \<open>dpkg_compare\<close>
  implements the interface \<open>version_order\<close> that the range matcher relies on.
\<close>

section \<open>Definitions\<close>

definition END :: int where "END = 0"

definition TILDE :: int where "TILDE = -1"

fun order :: "char option \<Rightarrow> int" where
  "order None = END"
| "order (Some c) =
     (if c = CHR ''~'' then TILDE else if isalpha_char c then code c else code c + 256)"

declare order.simps(2) [simp del]

definition split_version :: "string \<Rightarrow> (int \<times> string \<times> string) result" where
  "split_version version =
     rbind
       (if CHR '':'' \<in> set version then
          (let (head, _, tail) = partition_at CHR '':'' version in
           if isdigit head then rbind (py_int head) (\<lambda>e. Inr (e, tail)) else Inr (0, version))
        else Inr (0, version))
       (\<lambda>(epoch, rest).
          Inr (if CHR ''-'' \<in> set rest then
                 (let (upstream, _, revision) = rpartition_at CHR ''-'' rest in (epoch, upstream, revision))
               else (epoch, rest, [])))"

text \<open>The character of the current non-digit run at the front of a suffix, if any.\<close>

fun run_char :: "string \<Rightarrow> char option" where
  "run_char [] = None"
| "run_char (c # _) = (if isdigit_char c then None else Some c)"

function nondigit_loop :: "string \<Rightarrow> string \<Rightarrow> int + string \<times> string" where
  "nondigit_loop a b =
     (let ca = run_char a; cb = run_char b in
      if ca = None \<and> cb = None then Inr (a, b)
      else if order ca \<noteq> order cb then Inl (if order ca < order cb then -1 else 1)
      else nondigit_loop (if ca \<noteq> None then tl a else a) (if cb \<noteq> None then tl b else b))"
  by pat_completeness auto
termination
  by (relation "measure (\<lambda>(a, b). length a + length b)")
    (auto elim!: run_char.elims split: if_splits)

declare nondigit_loop.simps [simp del]

lemma run_char_None: "run_char a = None \<longleftrightarrow> takeWhile (\<lambda>c. \<not> isdigit_char c) a = []"
  by (cases a) auto

lemma nondigit_loop_shorter:
  "nondigit_loop a b = Inr (a1, b1) \<Longrightarrow>
     length a1 \<le> length a \<and> length b1 \<le> length b \<and> run_char a1 = None \<and> run_char b1 = None"
proof (induction a b arbitrary: a1 b1 rule: nondigit_loop.induct)
  case (1 a b)
  show ?case
  proof (cases "run_char a = None \<and> run_char b = None")
    case True
    with "1.prems" show ?thesis by (simp add: nondigit_loop.simps [of a b])
  next
    case False
    let ?a = "if run_char a \<noteq> None then tl a else a" and ?b = "if run_char b \<noteq> None then tl b else b"
    from False "1.prems" have eq: "order (run_char a) = order (run_char b)"
      and rec: "nondigit_loop ?a ?b = Inr (a1, b1)"
      by (auto simp: nondigit_loop.simps [of a b] Let_def split: if_splits)
    have "length a1 \<le> length ?a \<and> length b1 \<le> length ?b \<and> run_char a1 = None \<and> run_char b1 = None"
      by (rule "1.IH" [OF refl refl False _ rec]) (use eq in simp)
    then show ?thesis by (auto split: if_splits)
  qed
qed

text \<open>One pass over the digit runs: leading zeros skipped, then the run itself.\<close>

definition skip_zeros :: "string \<Rightarrow> string" where
  "skip_zeros s = dropWhile (\<lambda>c. c = CHR ''0'') s"

lemma skip_digits_shorter:
  "run_char a = None \<Longrightarrow> a \<noteq> [] \<Longrightarrow> length (dropWhile isdigit_char (skip_zeros a)) < length a"
proof (cases a)
  case (Cons c cs)
  assume "run_char a = None"
  with Cons have d: "isdigit_char c" by (auto split: if_splits)
  have "length (dropWhile isdigit_char (skip_zeros cs)) \<le> length cs"
    by (metis length_dropWhile_le order_trans skip_zeros_def)
  moreover have "length (dropWhile isdigit_char cs) \<le> length cs"
    by (rule length_dropWhile_le)
  ultimately show ?thesis using Cons d by (auto simp: skip_zeros_def)
qed simp

lemma skip_digits_le: "length (dropWhile isdigit_char (skip_zeros a)) \<le> length a"
  by (metis length_dropWhile_le order_trans skip_zeros_def)

function compare_segment :: "string \<Rightarrow> string \<Rightarrow> int" where
  "compare_segment a b =
     (if a = [] \<and> b = [] then 0
      else case nondigit_loop a b of
        Inl r \<Rightarrow> r
      | Inr (a1, b1) \<Rightarrow>
          let a2 = skip_zeros a1; b2 = skip_zeros b1;
              da = takeWhile isdigit_char a2; db = takeWhile isdigit_char b2 in
          if length da \<noteq> length db then (if length da < length db then -1 else 1)
          else if da \<noteq> db then (if da < db then -1 else 1)
          else compare_segment (dropWhile isdigit_char a2) (dropWhile isdigit_char b2))"
  by pat_completeness auto
termination
proof (relation "measure (\<lambda>(a, b). length a + length b)", goal_cases)
  case (2 a b p a1 b1 a2 b2 da db)
  then have loop: "nondigit_loop a b = Inr (a1, b1)" by simp
  note s = nondigit_loop_shorter [OF loop]
  show ?case
  proof (cases "a1 = [] \<and> b1 = []")
    case True
    with 2 show ?thesis by (auto simp: skip_zeros_def)
  next
    case False
    with s skip_digits_shorter [of a1] skip_digits_shorter [of b1] skip_digits_le [of a1] skip_digits_le [of b1]
    have "length (dropWhile isdigit_char (skip_zeros a1)) + length (dropWhile isdigit_char (skip_zeros b1))
      < length a1 + length b1"
      by (cases "a1 = []") (simp_all add: skip_zeros_def add_le_less_mono add_less_le_mono)
    with s 2 show ?thesis by auto
  qed
qed simp

declare compare_segment.simps [simp del]

definition dpkg_compare :: "string \<Rightarrow> string \<Rightarrow> int result" where
  "dpkg_compare a b =
     rbind (split_version a) (\<lambda>(ea, ua, ra).
     rbind (split_version b) (\<lambda>(eb, ub, rb).
       Inr (if ea \<noteq> eb then (if ea < eb then -1 else 1)
            else (let c = compare_segment ua ub in if c \<noteq> 0 then c else compare_segment ra rb))))"

section \<open>The comparison as a key comparison\<close>

function seg_key :: "string \<Rightarrow> int list" where
  "seg_key s =
     (if s = [] then []
      else (let r = skip_zeros (dropWhile (\<lambda>c. \<not> isdigit_char c) s); d = takeWhile isdigit_char r in
        map (\<lambda>c. order (Some c)) (takeWhile (\<lambda>c. \<not> isdigit_char c) s)
        @ [0, int (length d)] @ map code d @ seg_key (dropWhile isdigit_char r)))"
  by pat_completeness auto
termination
proof (relation "measure length", goal_cases)
  case (2 s r d)
  let ?t = "dropWhile (\<lambda>c. \<not> isdigit_char c) s"
  have t: "run_char ?t = None" by (induction s) auto
  show ?case
  proof (cases "?t = []")
    case True
    with 2 show ?thesis by (simp add: skip_zeros_def)
  next
    case False
    with t have "length (dropWhile isdigit_char (skip_zeros ?t)) < length ?t" by (rule skip_digits_shorter)
    also have "\<dots> \<le> length s" by (rule length_dropWhile_le)
    finally show ?thesis using 2 by simp
  qed
qed simp

declare seg_key.simps [simp del]

text \<open>The part of a key that follows the non-digit run.\<close>

definition num_key :: "string \<Rightarrow> int list" where
  "num_key t = (let r = skip_zeros t; d = takeWhile isdigit_char r in
     int (length d) # map code d @ seg_key (dropWhile isdigit_char r))"

lemma seg_key_Nil [simp]: "seg_key [] = []"
  by (simp add: seg_key.simps)

lemma seg_key_split:
  "padcmp (seg_key s) k = padcmp (map (\<lambda>c. order (Some c)) (takeWhile (\<lambda>c. \<not> isdigit_char c) s)
     @ 0 # num_key (dropWhile (\<lambda>c. \<not> isdigit_char c) s)) k"
proof (cases "s = []")
  case True
  have "padcmp [0, 0] k = padcmp [] k" by (rule padcmp_0_left) simp
  with True show ?thesis by (simp add: num_key_def skip_zeros_def)
qed (simp add: seg_key.simps [of s] num_key_def Let_def)

lemma order_nonzero: "order (Some c) \<noteq> 0"
  by (auto simp: order.simps(2) TILDE_def isalpha_char_def)

lemma order_inj: "order (Some c) = order (Some d) \<Longrightarrow> c = d"
  using code_less_256 [of c] code_less_256 [of d] code_nonneg [of c] code_nonneg [of d]
  unfolding order.simps TILDE_def by (simp only: code_inj add_right_cancel split: if_splits; linarith?)

lemma nondigit_loop_key:
  "(case nondigit_loop a b of
      Inl r \<Rightarrow> r
    | Inr (a1, b1) \<Rightarrow> padcmp (num_key a1) (num_key b1)) = padcmp (seg_key a) (seg_key b)"
proof (induction a b rule: nondigit_loop.induct)
  case (1 a b)
  let ?run = "\<lambda>s. map (\<lambda>c. order (Some c)) (takeWhile (\<lambda>c. \<not> isdigit_char c) s)"
  let ?k = "\<lambda>s. ?run s @ 0 # num_key (dropWhile (\<lambda>c. \<not> isdigit_char c) s)"
  have key: "padcmp (seg_key s) (seg_key t) = padcmp (?k s) (?k t)" for s t
    by (metis padcmp_swap seg_key_split)
  have nil: "run_char s = None \<Longrightarrow> ?k s = 0 # num_key s" for s
    by (cases s) (auto split: if_splits)
  have cons: "run_char s = Some c \<Longrightarrow> ?k s = order (Some c) # ?k (tl s)" for s c
    by (cases s) (auto split: if_splits)
  have hd: "hd0 (?k s) = order (run_char s)" for s
    by (cases "run_char s") (auto simp: nil cons END_def)
  show ?case
  proof (cases "order (run_char a) = order (run_char b)")
    case False
    then have "\<not> (run_char a = None \<and> run_char b = None)" by metis
    with False have "nondigit_loop a b = Inl (sgn3 (order (run_char a)) (order (run_char b)))"
      by (auto simp: nondigit_loop.simps [of a b] sgn3_def Let_def)
    moreover have "padcmp (?k a) (?k b) = sgn3 (order (run_char a)) (order (run_char b))"
      using False by (simp add: padcmp_unfold [of "?k a"] hd)
    ultimately show ?thesis by (simp only: key sum.case)
  next
    case True
    show ?thesis
    proof (cases "run_char a")
      case None
      with True have "run_char b = None"
        by (metis END_def not_None_eq order.simps(1) order_nonzero)
      with None show ?thesis by (simp add: key nondigit_loop.simps [of a b] nil)
    next
      case (Some c)
      with True have b: "run_char b = Some c"
        by (metis END_def not_None_eq order.simps(1) order_nonzero order_inj)
      have "nondigit_loop a b = nondigit_loop (tl a) (tl b)"
        using Some b by (simp add: nondigit_loop.simps [of a b])
      moreover have "padcmp (seg_key a) (seg_key b) = padcmp (seg_key (tl a)) (seg_key (tl b))"
        using Some b by (simp add: key cons)
      ultimately show ?thesis using "1.IH" [OF refl refl] Some b by simp
    qed
  qed
qed

lemma num_key_cmp:
  fixes s t :: string
  defines "r \<equiv> skip_zeros s" and "q \<equiv> skip_zeros t"
  defines "d \<equiv> takeWhile isdigit_char r" and "e \<equiv> takeWhile isdigit_char q"
  shows "padcmp (num_key s) (num_key t) =
     (if length d \<noteq> length e then sgn3 (length d) (length e) else if d \<noteq> e then sgn3 d e
      else padcmp (seg_key (dropWhile isdigit_char r)) (seg_key (dropWhile isdigit_char q)))"
  unfolding num_key_def r_def [symmetric] q_def [symmetric] Let_def d_def [symmetric] e_def [symmetric]
  by (auto simp: padcmp_append_neq) (simp add: sgn3_def)

lemma compare_segment_key: "compare_segment a b = padcmp (seg_key a) (seg_key b)"
proof (induction a b rule: compare_segment.induct)
  case (1 a b)
  show ?case
  proof (cases "a = [] \<and> b = []")
    case False
    show ?thesis
    proof (cases "nondigit_loop a b")
      case (Inl r)
      with False nondigit_loop_key [of a b] show ?thesis
        by (simp add: compare_segment.simps [of a b])
    next
      case (Inr p)
      obtain a1 b1 where p: "p = (a1, b1)" by (cases p)
      note IH = "1.IH" [OF False Inr p [symmetric] refl refl refl refl]
      show ?thesis
        using nondigit_loop_key [of a b] Inr False IH
        by (auto simp: compare_segment.simps [of a b] p num_key_cmp Let_def sgn3_def)
    qed
  qed (simp add: compare_segment.simps)
qed

section \<open>Version strings\<close>

text \<open>A version string is accepted unless its epoch is a digit string that \<open>int()\<close> refuses.\<close>

definition dpkg_ok :: "string \<Rightarrow> bool" where
  "dpkg_ok v = (let head = fst (partition_at CHR '':'' v) in
     CHR '':'' \<in> set v \<longrightarrow> isdigit head \<longrightarrow> isdecimal head)"

definition dpkg_key :: "string \<Rightarrow> int list list" where
  "dpkg_key v = (case split_version v of
     Inl _ \<Rightarrow> [] | Inr (e, u, r) \<Rightarrow> [[e], seg_key u, seg_key r])"

lemma split_version_ok: "dpkg_ok v \<longleftrightarrow> (\<exists>p. split_version v = Inr p)"
  by (auto simp: split_version_def dpkg_ok_def Let_def partition_at_def rpartition_at_def py_int_def)

lemma dpkg_compare_key:
  assumes "dpkg_ok a" "dpkg_ok b"
  shows "dpkg_compare a b = Inr (lexcmp (dpkg_key a) (dpkg_key b))"
proof -
  obtain ea ua ra eb ub rb where "split_version a = Inr (ea, ua, ra)" "split_version b = Inr (eb, ub, rb)"
    using assms by (auto simp: split_version_ok)
  then show ?thesis
    by (auto simp: dpkg_compare_def dpkg_key_def compare_segment_key Let_def sgn3_def)
qed

interpretation dpkg: keyed_order dpkg_ok dpkg_compare dpkg_key
  by unfold_locales (rule dpkg_compare_key)

lemma dpkg_compare_error: "dpkg_compare a b = Inl e \<longleftrightarrow> e = ValueError \<and> \<not> (dpkg_ok a \<and> dpkg_ok b)"
proof -
  have err: "split_version v = Inl x \<Longrightarrow> x = ValueError" for v x
    by (auto simp: split_version_def Let_def partition_at_def py_int_def rbind_def split: if_splits sum.splits)
  show ?thesis
    by (cases "split_version a"; cases "split_version b")
      (auto simp: dpkg_compare_def split_version_ok dest: err split: exn.split)
qed

end
