(* ===== verification/Version_Compare.thy ===== *)
theory Version_Compare
  imports Debian_Version
begin

text \<open>
  The per-ecosystem comparators of \<open>analyzer/detect/versioning.py\<close>: SemVer, PEP 440, rpm EVR,
  Alpine apk, and the dispatch on the ecosystem name.

  \<open>packaging.version.Version\<close> is not part of the repository: \<open>pep440_compare\<close> and
  \<open>comparator_for\<close> take the parser (\<open>None\<close> for \<open>InvalidVersion\<close>) and its strict order as
  arguments. As in \<open>Debian_Version\<close>, string indices are represented by the suffixes still to be
  read. The SemVer and rpm comparators are interpreted as keyed orders.
\<close>

section \<open>SemVer\<close>

definition release_part :: "string \<Rightarrow> int result" where
  "release_part part = (if isdigit part then py_int part else Inr 0)"

definition split_semver :: "string \<Rightarrow> (int list \<times> string list) result" where
  "split_semver version =
     (let text0 = strip version;
          text1 = (if take 1 text0 \<in> {''v'', ''V''} then drop 1 text0 else text0);
          text2 = fst (partition_at CHR ''+'' text1);
          (main, _, pre) = partition_at CHR ''-'' text2 in
      rbind (rmap_list release_part (split_on CHR ''.'' main)) (\<lambda>release.
        Inr (release, if pre \<noteq> [] then split_on CHR ''.'' pre else [])))"

fun prerelease_loop :: "string list \<Rightarrow> string list \<Rightarrow> int result" where
  "prerelease_loop [] [] = Inr 0"
| "prerelease_loop [] (y # ys) = Inr (-1)"
| "prerelease_loop (x # xs) [] = Inr 1"
| "prerelease_loop (x # xs) (y # ys) =
     (if isdigit x \<and> isdigit y then
        rbind (py_int x) (\<lambda>xi. rbind (py_int y) (\<lambda>yi.
          if xi \<noteq> yi then Inr (if xi < yi then -1 else 1) else prerelease_loop xs ys))
      else if isdigit x \<noteq> isdigit y then Inr (if isdigit x then -1 else 1)
      else if x \<noteq> y then Inr (if x < y then -1 else 1)
      else prerelease_loop xs ys)"

definition compare_prerelease :: "string list \<Rightarrow> string list \<Rightarrow> int result" where
  "compare_prerelease a b =
     (if a = [] \<and> b = [] then Inr 0 else if a = [] then Inr 1 else if b = [] then Inr (-1)
      else prerelease_loop a b)"

text \<open>The loop over \<open>zip_longest(a_rel, b_rel, fillvalue=0)\<close>; \<open>None\<close> when it does not return.\<close>

fun release_loop :: "int list \<Rightarrow> int list \<Rightarrow> int option" where
  "release_loop [] [] = None"
| "release_loop (x # xs) [] = (if x \<noteq> 0 then Some (if x < 0 then -1 else 1) else release_loop xs [])"
| "release_loop [] (y # ys) = (if 0 \<noteq> y then Some (if 0 < y then -1 else 1) else release_loop [] ys)"
| "release_loop (x # xs) (y # ys) = (if x \<noteq> y then Some (if x < y then -1 else 1) else release_loop xs ys)"

definition semver_compare :: "string \<Rightarrow> string \<Rightarrow> int result" where
  "semver_compare a b =
     rbind (split_semver a) (\<lambda>(a_rel, a_pre).
     rbind (split_semver b) (\<lambda>(b_rel, b_pre).
       case release_loop a_rel b_rel of Some r \<Rightarrow> Inr r | None \<Rightarrow> compare_prerelease a_pre b_pre))"

section \<open>PEP 440\<close>

definition pep440_compare ::
  "(string \<Rightarrow> 'ver option) \<Rightarrow> ('ver \<Rightarrow> 'ver \<Rightarrow> bool) \<Rightarrow> string \<Rightarrow> string \<Rightarrow> int result" where
  "pep440_compare Version lt a b =
     (case (Version a, Version b) of
        (Some va, Some vb) \<Rightarrow> Inr (if lt va vb then -1 else if lt vb va then 1 else 0)
      | _ \<Rightarrow> semver_compare a b)"

section \<open>rpm\<close>

definition rpm_separator :: "char \<Rightarrow> bool" where
  "rpm_separator c = (\<not> (isalnum_char c \<or> c = CHR ''~'' \<or> c = CHR ''^''))"

definition rpm_end :: "string \<Rightarrow> string \<Rightarrow> int" where
  "rpm_end a b = (if a = [] \<and> b = [] then 0 else if a = [] then -1 else 1)"

function rpm_loop :: "string \<Rightarrow> string \<Rightarrow> int" where
  "rpm_loop a b =
     (if a = [] \<and> b = [] then rpm_end a b
      else
        let a1 = dropWhile rpm_separator a; b1 = dropWhile rpm_separator b;
            a_tilde = (a1 \<noteq> [] \<and> hd a1 = CHR ''~''); b_tilde = (b1 \<noteq> [] \<and> hd b1 = CHR ''~'');
            a_caret = (a1 \<noteq> [] \<and> hd a1 = CHR ''^''); b_caret = (b1 \<noteq> [] \<and> hd b1 = CHR ''^'') in
        if a_tilde \<or> b_tilde then
          (if \<not> a_tilde then 1 else if \<not> b_tilde then -1 else rpm_loop (tl a1) (tl b1))
        else if a_caret \<or> b_caret then
          (if a1 = [] then -1 else if b1 = [] then 1
           else if \<not> a_caret then 1 else if \<not> b_caret then -1 else rpm_loop (tl a1) (tl b1))
        else if \<not> (a1 \<noteq> [] \<and> b1 \<noteq> []) then rpm_end a1 b1
        else
          let isnum = isdigit_char (hd a1); run = (if isnum then isdigit_char else isalpha_char);
              seg_a = takeWhile run a1; seg_b = takeWhile run b1;
              na = (if isnum then skip_zeros seg_a else seg_a);
              nb = (if isnum then skip_zeros seg_b else seg_b) in
          if seg_b = [] then (if isnum then 1 else -1)
          else if isnum \<and> length na \<noteq> length nb then (if length nb < length na then 1 else -1)
          else if na \<noteq> nb then (if nb < na then 1 else -1)
          else rpm_loop (dropWhile run a1) (dropWhile run b1))"
  by pat_completeness auto

lemma length_tl_dropWhile: "dropWhile P xs \<noteq> [] \<Longrightarrow> length (tl (dropWhile P xs)) < length xs"
  by (metis diff_less length_dropWhile_le length_greater_0_conv length_tl order_less_le_trans zero_less_one)

lemma length_dropWhile_less: "takeWhile P xs \<noteq> [] \<Longrightarrow> length (dropWhile P xs) < length xs"
  by (cases xs) (auto simp: less_Suc_eq_le length_dropWhile_le split: if_splits)

termination rpm_loop
proof (relation "measure (\<lambda>(a, b). length a + length b)", goal_cases)
  case (2 a b a1 b1)
  then show ?case
    using length_tl_dropWhile [of rpm_separator a] length_tl_dropWhile [of rpm_separator b] by force
next
  case (3 a b a1 b1)
  then show ?case
    using length_tl_dropWhile [of rpm_separator a] length_tl_dropWhile [of rpm_separator b] by force
next
  case (4 a b a1 b1 _ _ _ _ isnum run seg_a seg_b)
  have "length (dropWhile run b1) < length b1"
    by (rule length_dropWhile_less) (use 4 in simp)
  moreover have "length (dropWhile run a1) \<le> length a1" by (rule length_dropWhile_le)
  moreover have "length a1 \<le> length a" "length b1 \<le> length b"
    using 4 by (simp_all add: length_dropWhile_le)
  ultimately show ?case by simp
qed simp

declare rpm_loop.simps [simp del]

definition rpmvercmp :: "string \<Rightarrow> string \<Rightarrow> int" where
  "rpmvercmp a b = (if a = b then 0 else rpm_loop a b)"

definition split_evr :: "string \<Rightarrow> (int \<times> string \<times> string) result" where
  "split_evr value =
     (let (head, sep, tail) = partition_at CHR '':'' value in
      rbind (if sep \<and> isdigit head then rbind (py_int head) (\<lambda>e. Inr (e, tail)) else Inr (0, value))
        (\<lambda>(epoch, rest).
          let (version, sep2, release) = partition_at CHR ''-'' rest in
          Inr (epoch, version, if sep2 then release else [])))"

definition rpm_compare :: "string \<Rightarrow> string \<Rightarrow> int result" where
  "rpm_compare a b =
     rbind (split_evr a) (\<lambda>(ea, va, ra).
     rbind (split_evr b) (\<lambda>(eb, vb, rb).
       Inr (if ea \<noteq> eb then (if ea < eb then -1 else 1)
            else (let c = rpmvercmp va vb in if c \<noteq> 0 then c else rpmvercmp ra rb))))"

section \<open>apk\<close>

definition APK_SUFFIX_ORDER :: "(string \<times> int) list" where
  "APK_SUFFIX_ORDER =
     [(''alpha'', 0), (''beta'', 1), (''pre'', 2), (''rc'', 3), (''cvs'', 101), (''svn'', 102),
      (''git'', 103), (''hg'', 104), (''p'', 105)]"

definition APK_RELEASE_ORDER :: int where "APK_RELEASE_ORDER = 100"

text \<open>\<open>core.rpartition("-r")\<close>: the last occurrence of a two-character separator.\<close>

fun rpartition_pair :: "char \<Rightarrow> char \<Rightarrow> string \<Rightarrow> (string \<times> string) option" where
  "rpartition_pair c d (x # y # s) =
     (case rpartition_pair c d (y # s) of
        Some (h, t) \<Rightarrow> Some (x # h, t)
      | None \<Rightarrow> if x = c \<and> y = d then Some ([], s) else None)"
| "rpartition_pair c d s = None"

definition apk_suffix :: "string \<Rightarrow> (int \<times> int) result" where
  "apk_suffix chunk =
     (let letters = filter isalpha_char chunk; digits = filter isdigit_char chunk;
          ord = (case map_of APK_SUFFIX_ORDER letters of Some n \<Rightarrow> n | None \<Rightarrow> APK_RELEASE_ORDER) in
      rbind (if digits \<noteq> [] then py_int digits else Inr 0) (\<lambda>n. Inr (ord, n)))"

definition split_apk :: "string \<Rightarrow> (string list \<times> string \<times> (int \<times> int) list \<times> int) result" where
  "split_apk value =
     (let core0 = strip value in
      rbind
        (case rpartition_pair CHR ''-'' CHR ''r'' core0 of
           Some (dash, tail) \<Rightarrow>
             if isdigit tail then rbind (py_int tail) (\<lambda>rev. Inr (dash, rev)) else Inr (core0, 0)
         | None \<Rightarrow> Inr (core0, 0))
        (\<lambda>(core1, rev).
          let (core2, _, suffix_str) = partition_at CHR ''_'' core1 in
          rbind (if suffix_str \<noteq> [] then rmap_list apk_suffix (split_on CHR ''_'' suffix_str) else Inr [])
            (\<lambda>suffixes.
              let (letter, core3) =
                    (if core2 \<noteq> [] \<and> isalpha_char (last core2) then ([last core2], butlast core2)
                     else ([], core2)) in
              Inr (if core3 \<noteq> [] then split_on CHR ''.'' core3 else [], letter, suffixes, rev))))"

definition is_int :: "string \<Rightarrow> bool" where
  "is_int s = (s = [] \<or> isdigit s)"

definition ljust0 :: "nat \<Rightarrow> string \<Rightarrow> string" where
  "ljust0 width s = s @ replicate (width - length s) CHR ''0''"

definition apk_cmp_numpart :: "string \<Rightarrow> string \<Rightarrow> bool \<Rightarrow> int result" where
  "apk_cmp_numpart a b first =
     (if \<not> first \<and> (startswith a ''0'' \<or> startswith b ''0'') then
        (let width = max (length a) (length b); a' = ljust0 width a; b' = ljust0 width b in
         Inr (if a' = b' then 0 else if a' < b' then -1 else 1))
      else if \<not> is_int a \<or> \<not> is_int b then Inr (if a = b then 0 else if a < b then -1 else 1)
      else rbind (py_int (if a = [] then ''0'' else a)) (\<lambda>ai.
           rbind (py_int (if b = [] then ''0'' else b)) (\<lambda>bi.
             Inr (if ai = bi then 0 else if ai < bi then -1 else 1))))"

definition apk_missing :: "int \<times> int" where
  "apk_missing = (APK_RELEASE_ORDER, 0)"

fun apk_cmp_suffixes :: "(int \<times> int) list \<Rightarrow> (int \<times> int) list \<Rightarrow> int" where
  "apk_cmp_suffixes [] [] = 0"
| "apk_cmp_suffixes (x # xs) [] =
     (if x \<noteq> apk_missing then (if x < apk_missing then -1 else 1) else apk_cmp_suffixes xs [])"
| "apk_cmp_suffixes [] (y # ys) =
     (if apk_missing \<noteq> y then (if apk_missing < y then -1 else 1) else apk_cmp_suffixes [] ys)"
| "apk_cmp_suffixes (x # xs) (y # ys) =
     (if x \<noteq> y then (if x < y then -1 else 1) else apk_cmp_suffixes xs ys)"

text \<open>The loop over the numeric components; \<open>Inr None\<close> when it does not return.\<close>

fun apk_parts_loop :: "bool \<Rightarrow> string list \<Rightarrow> string list \<Rightarrow> int option result" where
  "apk_parts_loop first [] [] = Inr None"
| "apk_parts_loop first [] (y # ys) = Inr (Some (-1))"
| "apk_parts_loop first (x # xs) [] = Inr (Some 1)"
| "apk_parts_loop first (x # xs) (y # ys) =
     rbind (apk_cmp_numpart x y first) (\<lambda>c.
       if c \<noteq> 0 then Inr (Some c) else apk_parts_loop False xs ys)"

definition apk_compare :: "string \<Rightarrow> string \<Rightarrow> int result" where
  "apk_compare a b =
     rbind (split_apk a) (\<lambda>(pa, la, sa, ra).
     rbind (split_apk b) (\<lambda>(pb, lb, sb, rb).
     rbind (apk_parts_loop True pa pb) (\<lambda>r.
       Inr (case r of
          Some c \<Rightarrow> c
        | None \<Rightarrow>
            if la \<noteq> lb then (if la < lb then -1 else 1)
            else (let c = apk_cmp_suffixes sa sb in
                  if c \<noteq> 0 then c else if ra = rb then 0 else if ra < rb then -1 else 1)))))"

section \<open>Dispatch on the ecosystem\<close>

definition DPKG_ECOSYSTEMS :: "string list" where
  "DPKG_ECOSYSTEMS = [''debian'', ''ubuntu'']"

definition PEP440_ECOSYSTEMS :: "string list" where
  "PEP440_ECOSYSTEMS = [''pypi'']"

definition RPM_ECOSYSTEMS :: "string list" where
  "RPM_ECOSYSTEMS =
     [''rocky linux'', ''almalinux'', ''alma linux'', ''red hat'', ''centos'', ''oracle linux'',
      ''opensuse'', ''suse'', ''mageia'']"

definition APK_ECOSYSTEMS :: "string list" where
  "APK_ECOSYSTEMS = [''alpine'', ''chainguard'', ''wolfi'']"

definition comparator_for ::
  "(string \<Rightarrow> 'ver option) \<Rightarrow> ('ver \<Rightarrow> 'ver \<Rightarrow> bool) \<Rightarrow> string \<Rightarrow> string \<Rightarrow> string \<Rightarrow> int result" where
  "comparator_for Version lt ecosystem =
     (let base = lower (strip (fst (partition_at CHR '':'' ecosystem))) in
      if base \<in> set DPKG_ECOSYSTEMS then dpkg_compare
      else if base \<in> set PEP440_ECOSYSTEMS then pep440_compare Version lt
      else if base \<in> set RPM_ECOSYSTEMS then rpm_compare
      else if base \<in> set APK_ECOSYSTEMS then apk_compare
      else semver_compare)"

end
