(* ===== verification/Version_Laws.thy ===== *)
theory Version_Laws
  imports Version_Compare
begin

text \<open>
  The SemVer and rpm comparators are comparisons of keys, hence total preorders on the strings
  they accept; the apk comparator is antisymmetric. The interpretations \<open>semver\<close> and \<open>rpm\<close> make
  the facts of \<open>version_order\<close> available for them.
\<close>

section \<open>SemVer\<close>

lemma release_loop_padcmp:
  "(case release_loop xs ys of Some r \<Rightarrow> r | None \<Rightarrow> 0) = padcmp xs ys"
  "release_loop xs ys = None \<longleftrightarrow> padcmp xs ys = 0"
  by (induction xs ys rule: release_loop.induct) (auto simp: sgn3_def)

definition ident_key :: "string \<Rightarrow> int list" where
  "ident_key x = (if isdigit x then [1, decimal_value x] else 2 # map (\<lambda>c. code c + 1) x @ [0])"

definition pre_key :: "string list \<Rightarrow> int list" where
  "pre_key ids = (if ids = [] then [] else -1 # concat (map ident_key ids))"

definition ident_ok :: "string \<Rightarrow> bool" where
  "ident_ok x = (isdigit x \<longrightarrow> isdecimal x)"

lemma padcmp_codes:
  "x \<noteq> y \<Longrightarrow> padcmp (map (\<lambda>c. code c + 1) x @ 0 # us) (map (\<lambda>c. code c + 1) y @ 0 # vs) = sgn3 x y"
proof (induction x arbitrary: y)
  case Nil
  then show ?case by (cases y) (auto simp: sgn3_def)
next
  case (Cons c x)
  then show ?case by (cases y) (auto simp: sgn3_def str_less_code)
qed

lemma ident_key_head: "hd0 (ident_key x @ us) = (if isdigit x then 1 else 2)"
  by (simp add: ident_key_def)

lemma prerelease_loop_key:
  "list_all ident_ok xs \<Longrightarrow> list_all ident_ok ys \<Longrightarrow>
     prerelease_loop xs ys = Inr (padcmp (concat (map ident_key xs)) (concat (map ident_key ys)))"
proof (induction xs ys rule: prerelease_loop.induct)
  case (2 y ys)
  then show ?case by (simp add: ident_key_def sgn3_def)
next
  case (3 x xs)
  then show ?case by (simp add: ident_key_def sgn3_def)
next
  case (4 x xs y ys)
  then show ?case
    by (auto simp: ident_key_def ident_ok_def sgn3_def padcmp_codes)
qed simp

lemma compare_prerelease_key:
  assumes "list_all ident_ok a" "list_all ident_ok b"
  shows "compare_prerelease a b = Inr (padcmp (pre_key a) (pre_key b))"
  using assms by (auto simp: compare_prerelease_def pre_key_def prerelease_loop_key sgn3_def)

definition semver_ok :: "string \<Rightarrow> bool" where
  "semver_ok v = (case split_semver v of Inl _ \<Rightarrow> False | Inr (_, pre) \<Rightarrow> list_all ident_ok pre)"

definition semver_key :: "string \<Rightarrow> int list list" where
  "semver_key v = (case split_semver v of Inl _ \<Rightarrow> [] | Inr (rel, pre) \<Rightarrow> [rel, pre_key pre])"

lemma semver_compare_key:
  assumes "semver_ok a" "semver_ok b"
  shows "semver_compare a b = Inr (lexcmp (semver_key a) (semver_key b))"
proof -
  obtain ra pa rb pb where *: "split_semver a = Inr (ra, pa)" "split_semver b = Inr (rb, pb)"
    and "list_all ident_ok pa" "list_all ident_ok pb"
    using assms by (auto simp: semver_ok_def split: sum.splits)
  then have pre: "compare_prerelease pa pb = Inr (padcmp (pre_key pa) (pre_key pb))"
    by (simp add: compare_prerelease_key)
  show ?thesis
    using release_loop_padcmp [of ra rb] pre
    by (auto simp: semver_compare_def semver_key_def * split: option.splits)
qed

interpretation semver: keyed_order semver_ok semver_compare semver_key
  by unfold_locales (rule semver_compare_key)

section \<open>rpm\<close>

text \<open>Three Latin-1 characters are alphanumeric without being letters or digits (the vulgar
  fractions); \<open>rpm_char_ok\<close> excludes them.\<close>

definition rpm_char_ok :: "char \<Rightarrow> bool" where
  "rpm_char_ok c = (isalnum_char c \<longrightarrow> isdigit_char c \<or> isalpha_char c)"

function rpm_key :: "string \<Rightarrow> int list" where
  "rpm_key s =
     (case dropWhile rpm_separator s of
        [] \<Rightarrow> []
      | c # t \<Rightarrow>
          if c = CHR ''~'' then -1 # rpm_key t
          else if c = CHR ''^'' then 1 # rpm_key t
          else if isdigit_char c then
            (let d = skip_zeros (c # takeWhile isdigit_char t) in
             3 # int (length d) # map code d @ rpm_key (dropWhile isdigit_char t))
          else 2 # map (\<lambda>c. code c + 1) (c # takeWhile isalpha_char t) @ 0 # rpm_key (dropWhile isalpha_char t))"
  by pat_completeness auto

lemma dropWhile_Cons_length: "dropWhile P s = c # t \<Longrightarrow> length t < length s"
  by (metis length_Cons length_dropWhile_le less_Suc_eq_le not_less_eq order_less_le_trans lessI)

termination rpm_key
  by (relation "measure length")
    (auto dest!: dropWhile_Cons_length intro: le_less_trans [OF length_dropWhile_le])

declare rpm_key.simps [simp del]

lemma rpm_key_Nil: "rpm_key [] = []"
  by (simp add: rpm_key.simps)

lemma rpm_key_end: "dropWhile rpm_separator s = [] \<Longrightarrow> rpm_key s = []"
  by (subst rpm_key.simps) (simp only: list.case)

lemma rpm_key_step:
  "dropWhile rpm_separator s = c # t \<Longrightarrow> rpm_key s =
     (if c = CHR ''~'' then -1 # rpm_key t
      else if c = CHR ''^'' then 1 # rpm_key t
      else if isdigit_char c then
        (let d = skip_zeros (c # takeWhile isdigit_char t) in
         3 # int (length d) # map code d @ rpm_key (dropWhile isdigit_char t))
      else 2 # map (\<lambda>c. code c + 1) (c # takeWhile isalpha_char t) @ 0 # rpm_key (dropWhile isalpha_char t))"
  by (subst rpm_key.simps) (simp only: list.case)

text \<open>The head of a key orders the five situations: tilde, end, caret, letters, digits.\<close>

fun rpm_class :: "string \<Rightarrow> int" where
  "rpm_class [] = 0"
| "rpm_class (c # t) = (if c = CHR ''~'' then -1 else if c = CHR ''^'' then 1
     else if isdigit_char c then 3 else 2)"

lemma rpm_key_head: "hd0 (rpm_key s) = rpm_class (dropWhile rpm_separator s)"
  by (cases "dropWhile rpm_separator s")
    (simp_all only: rpm_key_end rpm_key_step rpm_class.simps, simp_all add: Let_def)

lemma rpm_key_differ:
  assumes "rpm_class (dropWhile rpm_separator a) \<noteq> rpm_class (dropWhile rpm_separator b)"
  shows "padcmp (rpm_key a) (rpm_key b) =
    sgn3 (rpm_class (dropWhile rpm_separator a)) (rpm_class (dropWhile rpm_separator b))"
  using assms by (simp add: padcmp_unfold [of "rpm_key a"] rpm_key_head)

lemma not_separator: "dropWhile rpm_separator s = c # t \<Longrightarrow> c \<noteq> CHR ''~'' \<Longrightarrow> c \<noteq> CHR ''^'' \<Longrightarrow> isalnum_char c"
  by (metis dropWhile_eq_Cons_conv rpm_separator_def)

lemma digit_not_alpha: "isdigit_char c \<Longrightarrow> \<not> isalpha_char c"
  by (auto simp: isdigit_char_def isdecimal_char_def isalpha_char_def Let_def)

text \<open>One round of the loop after the separators are skipped, case by case on what is left.\<close>

fun rpm_round :: "string \<Rightarrow> string \<Rightarrow> int" where
  "rpm_round [] [] = 0"
| "rpm_round [] (d # t) = (if d = CHR ''~'' then 1 else -1)"
| "rpm_round (c # s) [] = (if c = CHR ''~'' then -1 else 1)"
| "rpm_round (c # s) (d # t) =
    (if c = CHR ''~'' \<or> d = CHR ''~'' then
       (if c \<noteq> CHR ''~'' then 1 else if d \<noteq> CHR ''~'' then -1 else rpm_loop s t)
     else if c = CHR ''^'' \<or> d = CHR ''^'' then
       (if c \<noteq> CHR ''^'' then 1 else if d \<noteq> CHR ''^'' then -1 else rpm_loop s t)
     else if isdigit_char c then
       (if \<not> isdigit_char d then 1
        else let x = skip_zeros (c # takeWhile isdigit_char s); y = skip_zeros (d # takeWhile isdigit_char t) in
          if length x \<noteq> length y then sgn3 (length x) (length y) else if x \<noteq> y then sgn3 x y
          else rpm_loop (dropWhile isdigit_char s) (dropWhile isdigit_char t))
     else if isalpha_char c then
       (if \<not> isalpha_char d then -1
        else let x = c # takeWhile isalpha_char s; y = d # takeWhile isalpha_char t in
          if x \<noteq> y then sgn3 x y else rpm_loop (dropWhile isalpha_char s) (dropWhile isalpha_char t))
     else -1)"

lemma rpm_loop_round:
  assumes "\<And>c t. dropWhile rpm_separator a = c # t \<Longrightarrow> rpm_class (c # t) = 2 \<Longrightarrow> isalpha_char c"
  shows "rpm_loop a b = rpm_round (dropWhile rpm_separator a) (dropWhile rpm_separator b)"
proof (cases "a = [] \<and> b = []")
  case True
  then show ?thesis by (simp add: rpm_loop.simps [of "[]" "[]"] rpm_end_def)
next
  case False
  show ?thesis
  proof (cases "dropWhile rpm_separator a"; cases "dropWhile rpm_separator b")
    fix c s d t
    assume a: "dropWhile rpm_separator a = c # s" and b: "dropWhile rpm_separator b = d # t"
    consider "c = CHR ''~'' \<or> d = CHR ''~''" | "c \<noteq> CHR ''~''" "d \<noteq> CHR ''~''" "c = CHR ''^'' \<or> d = CHR ''^''"
      | "c \<notin> {CHR ''~'', CHR ''^''}" "d \<notin> {CHR ''~'', CHR ''^''}" "isdigit_char c"
      | "c \<notin> {CHR ''~'', CHR ''^''}" "d \<notin> {CHR ''~'', CHR ''^''}" "\<not> isdigit_char c" "isalpha_char c"
      using assms [OF a] by (auto split: if_splits)
    then show ?thesis
      unfolding a b
      by cases (auto simp add: rpm_loop.simps [of a b] False a b Let_def sgn3_def dest: order.asym)
  qed (simp_all only: rpm_loop.simps [of a b] False rpm_round.simps, simp_all add: Let_def rpm_end_def)
qed

lemma rpm_round_differ:
  assumes "rpm_class a \<noteq> rpm_class b"
    and "\<And>c t. a = c # t \<Longrightarrow> rpm_class a = 2 \<Longrightarrow> isalpha_char c"
  shows "rpm_round a b = sgn3 (rpm_class a) (rpm_class b)"
proof (cases a; cases b)
  fix c s d t
  assume a: "a = c # s" and b: "b = d # t"
  show ?thesis
    using assms(1) assms(2) [OF a] digit_not_alpha [of d]
    by (auto simp: a b sgn3_def split: if_splits)
qed (use assms in \<open>auto simp: sgn3_def split: if_splits\<close>)

lemma list_all_tails:
  assumes "list_all P s" "dropWhile Q s = c # t"
  shows "list_all P t" "list_all P (dropWhile R t)" "P c"
proof -
  have "set (c # t) \<subseteq> set s" using assms(2) by (metis set_dropWhileD subsetI)
  with assms(1) show "list_all P t" "list_all P (dropWhile R t)" "P c"
    by (auto simp: list_all_iff dest!: set_dropWhileD)
qed

lemma rpm_loop_key:
  "list_all rpm_char_ok a \<Longrightarrow> list_all rpm_char_ok b \<Longrightarrow> rpm_loop a b = padcmp (rpm_key a) (rpm_key b)"
proof (induction "length a + length b" arbitrary: a b rule: less_induct)
  case less
  let ?a = "dropWhile rpm_separator a" and ?b = "dropWhile rpm_separator b"
  have alpha: "isalpha_char c"
    if "list_all rpm_char_ok s" "dropWhile rpm_separator s = c # t" "rpm_class (c # t) = 2" for s c t
    using that not_separator [of s c t] list_all_tails(3) [of rpm_char_ok s rpm_separator c t]
    by (auto simp: rpm_char_ok_def split: if_splits)
  have loop: "rpm_loop a b = rpm_round ?a ?b"
    by (rule rpm_loop_round) (use alpha less.prems in auto)
  show ?case
  proof (cases "rpm_class ?a = rpm_class ?b")
    case False
    then show ?thesis
      unfolding rpm_key_differ [OF False] loop by (rule rpm_round_differ) (use alpha less.prems in auto)
  next
    case True
    show ?thesis
    proof (cases ?a)
      case Nil
      with True have "?b = []" by (cases ?b) (simp_all only: rpm_class.simps, simp split: if_splits)
      with Nil loop show ?thesis by (simp only: rpm_key_end rpm_round.simps padcmp.simps)
    next
      case (Cons c s)
      with True obtain d t where b: "?b = d # t" by (cases ?b) (auto split: if_splits)
      note tails = list_all_tails [OF less.prems(1) Cons] list_all_tails [OF less.prems(2) b]
      have lens: "length s + length t < length a + length b"
        using dropWhile_Cons_length [OF Cons] dropWhile_Cons_length [OF b] by simp
      have IH1: "rpm_loop s t = padcmp (rpm_key s) (rpm_key t)"
        using less.hyps [OF lens] tails by simp
      have IH2: "rpm_loop (dropWhile R s) (dropWhile R t) = padcmp (rpm_key (dropWhile R s)) (rpm_key (dropWhile R t))" for R
        by (rule less.hyps) (use lens tails length_dropWhile_le [of R s] length_dropWhile_le [of R t] in auto)
      have "isalpha_char c \<and> isalpha_char d" if "rpm_class (c # s) = 2"
        using alpha [OF less.prems(1) Cons] alpha [OF less.prems(2) b] True Cons b that by simp
      then consider "c = CHR ''~''" "d = CHR ''~''" | "c = CHR ''^''" "d = CHR ''^''"
        | "c \<notin> {CHR ''~'', CHR ''^''}" "d \<notin> {CHR ''~'', CHR ''^''}" "isdigit_char c" "isdigit_char d"
        | "c \<notin> {CHR ''~'', CHR ''^''}" "d \<notin> {CHR ''~'', CHR ''^''}" "\<not> isdigit_char c" "\<not> isdigit_char d"
          "isalpha_char c" "isalpha_char d"
        using True unfolding Cons b by (auto split: if_splits)
      moreover note keys = loop [unfolded Cons b] rpm_key_step [OF Cons] rpm_key_step [OF b]
      ultimately show ?thesis
      proof cases
        case 3
        then show ?thesis by (simp add: keys IH2 Let_def padcmp_append_neq) (simp add: sgn3_def)
      next
        case 4
        then show ?thesis
          using padcmp_codes [of "c # takeWhile isalpha_char s" "d # takeWhile isalpha_char t"]
          by (auto simp: keys IH2 Let_def)
      qed (simp_all add: keys IH1)
    qed
  qed
qed

definition rpm_ok :: "string \<Rightarrow> bool" where
  "rpm_ok v = ((\<exists>p. split_evr v = Inr p) \<and> list_all rpm_char_ok v)"

lemma rpm_ok_code [code]: "rpm_ok v = (case split_evr v of Inl _ \<Rightarrow> False | Inr _ \<Rightarrow> list_all rpm_char_ok v)"
  by (auto simp: rpm_ok_def split: sum.splits)

definition rpm_evr_key :: "string \<Rightarrow> int list list" where
  "rpm_evr_key v = (case split_evr v of Inl _ \<Rightarrow> [] | Inr (e, v, r) \<Rightarrow> [[e], rpm_key v, rpm_key r])"

lemma rpmvercmp_key:
  "list_all rpm_char_ok a \<Longrightarrow> list_all rpm_char_ok b \<Longrightarrow> rpmvercmp a b = padcmp (rpm_key a) (rpm_key b)"
  by (simp add: rpmvercmp_def rpm_loop_key)

lemma set_partition_at:
  "partition_at c s = (h, f, t) \<Longrightarrow> set h \<subseteq> set s \<and> set t \<subseteq> set s"
  using set_takeWhileD [of _ "\<lambda>x. x \<noteq> c" s] set_dropWhileD [of _ "\<lambda>x. x \<noteq> c" s]
  by (cases "dropWhile (\<lambda>x. x \<noteq> c) s") (simp_all only: partition_at_def, auto)

lemma split_evr_set:
  assumes "split_evr v = Inr (e, ver, rel)"
  shows "set ver \<subseteq> set v" "set rel \<subseteq> set v"
proof -
  obtain h f t where p: "partition_at CHR '':'' v = (h, f, t)" by (cases "partition_at CHR '':'' v")
  define out where "out e' rest = (let (ver', s2, rel') = partition_at CHR ''-'' rest in (e', ver', if s2 then rel' else []))"
    for e' :: int and rest
  have "split_evr v = rbind (if f \<and> isdigit h then rbind (py_int h) (\<lambda>e. Inr (e, t)) else Inr (0, v))
      (\<lambda>(e', rest). Inr (out e' rest))"
    by (simp add: split_evr_def p out_def case_prod_unfold Let_def)
  with assms have "\<exists>e' rest. (rest = t \<or> rest = v) \<and> out e' rest = (e, ver, rel)"
    by (cases "f \<and> isdigit h") auto
  then obtain e' rest where rest: "rest = t \<or> rest = v" and out: "out e' rest = (e, ver, rel)" by blast
  have sub: "set rest \<subseteq> set v" using rest set_partition_at [OF p] by auto
  obtain h2 f2 t2 where p2: "partition_at CHR ''-'' rest = (h2, f2, t2)" by (cases "partition_at CHR ''-'' rest")
  show "set ver \<subseteq> set v" "set rel \<subseteq> set v"
    using out sub set_partition_at [OF p2] by (auto simp: out_def p2 split: if_splits)
qed

lemma rpm_compare_key:
  assumes "rpm_ok a" "rpm_ok b"
  shows "rpm_compare a b = Inr (lexcmp (rpm_evr_key a) (rpm_evr_key b))"
proof -
  obtain ea va ra eb vb rb where *: "split_evr a = Inr (ea, va, ra)" "split_evr b = Inr (eb, vb, rb)"
    using assms by (auto simp: rpm_ok_def)
  have "list_all rpm_char_ok va" "list_all rpm_char_ok ra" "list_all rpm_char_ok vb" "list_all rpm_char_ok rb"
    using assms split_evr_set [OF *(1)] split_evr_set [OF *(2)] by (auto simp: rpm_ok_def list_all_iff)
  then show ?thesis
    by (auto simp: rpm_compare_def rpm_evr_key_def * rpmvercmp_key Let_def sgn3_def)
qed

interpretation rpm: keyed_order rpm_ok rpm_compare rpm_evr_key
  by unfold_locales (rule rpm_compare_key)

section \<open>apk\<close>

lemma apk_cmp_numpart_sgn3:
  "apk_cmp_numpart a b first =
     (if \<not> first \<and> (startswith a ''0'' \<or> startswith b ''0'') then
        (let width = max (length a) (length b) in Inr (sgn3 (ljust0 width a) (ljust0 width b)))
      else if \<not> is_int a \<or> \<not> is_int b then Inr (sgn3 a b)
      else rbind (py_int (if a = [] then ''0'' else a)) (\<lambda>ai.
           rbind (py_int (if b = [] then ''0'' else b)) (\<lambda>bi. Inr (sgn3 ai bi))))"
  unfolding apk_cmp_numpart_def sgn3_def Let_def ..

lemma apk_cmp_numpart_swap:
  assumes "apk_cmp_numpart a b first = Inr r"
  shows "apk_cmp_numpart b a first = Inr (- r)"
proof -
  have comm: "max (length b) (length a) = max (length a) (length b)" by (rule max.commute)
  consider "\<not> first" "startswith a ''0'' \<or> startswith b ''0''"
    | "first \<or> \<not> startswith a ''0'' \<and> \<not> startswith b ''0''" "is_int a" "is_int b"
    | "first \<or> \<not> startswith a ''0'' \<and> \<not> startswith b ''0''" "\<not> (is_int a \<and> is_int b)"
    by blast
  then show ?thesis
  proof cases
    case 1
    with assms show ?thesis
      unfolding apk_cmp_numpart_sgn3 by (auto simp: comm Let_def sgn3_swap [of "ljust0 _ b"])
  next
    case 2
    define a' b' where "a' = (if a = [] then ''0'' else a)" and "b' = (if b = [] then ''0'' else b)"
    have cmp: "apk_cmp_numpart a b first = rbind (py_int a') (\<lambda>ai. rbind (py_int b') (\<lambda>bi. Inr (sgn3 ai bi)))"
      "apk_cmp_numpart b a first = rbind (py_int b') (\<lambda>bi. rbind (py_int a') (\<lambda>ai. Inr (sgn3 bi ai)))"
      unfolding apk_cmp_numpart_sgn3 a'_def b'_def using 2 by auto
    with assms obtain x y where "py_int a' = Inr x" "py_int b' = Inr y" "r = sgn3 x y" by auto
    with cmp show ?thesis by (simp add: sgn3_swap [of y x])
  next
    case 3
    with assms show ?thesis
      unfolding apk_cmp_numpart_sgn3 by (auto simp: sgn3_swap [of b])
  qed
qed

lemma apk_cmp_suffixes_sgn3:
  "apk_cmp_suffixes (x # xs) [] = (if x \<noteq> apk_missing then sgn3 x apk_missing else apk_cmp_suffixes xs [])"
  "apk_cmp_suffixes [] (y # ys) = (if apk_missing \<noteq> y then sgn3 apk_missing y else apk_cmp_suffixes [] ys)"
  "apk_cmp_suffixes (x # xs) (y # ys) = (if x \<noteq> y then sgn3 x y else apk_cmp_suffixes xs ys)"
  by (simp_all add: sgn3_def)

lemma apk_cmp_suffixes_swap: "apk_cmp_suffixes b a = - apk_cmp_suffixes a b"
proof (induction a b rule: apk_cmp_suffixes.induct)
  case (2 x xs)
  then show ?case unfolding apk_cmp_suffixes_sgn3 using sgn3_swap [of x apk_missing] by auto
next
  case (3 y ys)
  then show ?case unfolding apk_cmp_suffixes_sgn3 using sgn3_swap [of y apk_missing] by auto
next
  case (4 x xs y ys)
  then show ?case unfolding apk_cmp_suffixes_sgn3 using sgn3_swap [of x y] by auto
qed simp

lemma apk_parts_loop_swap:
  "apk_parts_loop first a b = Inr r \<Longrightarrow> apk_parts_loop first b a = Inr (map_option uminus r)"
proof (induction first a b rule: apk_parts_loop.induct)
  case (4 first x xs y ys)
  then obtain c where c: "apk_cmp_numpart x y first = Inr c" by auto
  with 4 show ?case by (cases "c = 0") (auto simp: apk_cmp_numpart_swap [OF c])
qed auto

lemma apk_compare_swap:
  assumes "apk_compare a b = Inr r"
  shows "apk_compare b a = Inr (- r)"
proof -
  obtain pa la sa ra pb lb sb rb q where
    s: "split_apk a = Inr (pa, la, sa, ra)" "split_apk b = Inr (pb, lb, sb, rb)"
      "apk_parts_loop True pa pb = Inr q"
    using assms by (auto simp: apk_compare_def)
  from s(3) have q: "apk_parts_loop True pb pa = Inr (map_option uminus q)" by (rule apk_parts_loop_swap)
  show ?thesis
  proof (cases q)
    case None
    with assms s q show ?thesis
      by (cases "la = lb"; cases "apk_cmp_suffixes sa sb = 0")
        (auto simp: apk_compare_def Let_def apk_cmp_suffixes_swap [of sb sa] split: if_splits)
  next
    case (Some c)
    with assms s q show ?thesis by (simp add: apk_compare_def)
  qed
qed

end
