(* ===== verification/Osv_Match.thy ===== *)
theory Osv_Match
  imports Version_Laws
begin

text \<open>
  Affected-version matching of \<open>analyzer/detect/osv.py\<close>.

  The parts of an OSV record the matcher reads are records whose optional keys are \<open>option\<close>
  fields (an absent list is the empty list). \<open>match_range\<close> sorts the events of a range with the
  comparator (a stable insertion sort: every stable sort gives the same list when the comparator
  is a total preorder) and walks them. The client lemmas are proved once in \<open>version_order\<close>
  and reach the concrete comparators through their interpretations.
\<close>

section \<open>Definitions\<close>

record osv_event =
  ev_introduced :: "string option"
  ev_fixed :: "string option"
  ev_last_affected :: "string option"

record osv_range =
  rng_type :: "string option"
  rng_events :: "osv_event list"

record osv_entry =
  pkg_ecosystem :: "string option"
  pkg_name :: "string option"
  ent_versions :: "string list"
  ent_ranges :: "osv_range list"

record osv_record =
  osv_id :: string
  osv_aliases :: "string list"
  osv_affected :: "osv_entry list"

datatype point_kind = Introduced | Fixed | LastAffected

type_synonym point = "string option \<times> point_kind"
type_synonym comparator = "string \<Rightarrow> string \<Rightarrow> int result"

definition ZERO :: string where "ZERO = ''0''"

fun primary_id_loop :: "string list \<Rightarrow> string option" where
  "primary_id_loop [] = None"
| "primary_id_loop (alias # rest) = (if startswith alias ''CVE-'' then Some alias else primary_id_loop rest)"

definition primary_id :: "osv_record \<Rightarrow> string" where
  "primary_id r = (case primary_id_loop (osv_aliases r) of Some a \<Rightarrow> a | None \<Rightarrow> osv_id r)"

definition affected_entries :: "osv_record \<Rightarrow> string \<Rightarrow> string \<Rightarrow> osv_entry list" where
  "affected_entries r ecosystem name =
     filter (\<lambda>e. pkg_ecosystem e = Some ecosystem \<and> pkg_name e = Some name) (osv_affected r)"

fun event_points :: "osv_event list \<Rightarrow> point list" where
  "event_points [] = []"
| "event_points (ev # evs) =
     (case ev_introduced ev of
        Some intro \<Rightarrow> [(if intro = ZERO then None else Some intro, Introduced)]
      | None \<Rightarrow> (case ev_fixed ev of
          Some f \<Rightarrow> [(Some f, Fixed)]
        | None \<Rightarrow> (case ev_last_affected ev of Some l \<Rightarrow> [(Some l, LastAffected)] | None \<Rightarrow> [])))
     @ event_points evs"

definition point_cmp :: "comparator \<Rightarrow> point \<Rightarrow> point \<Rightarrow> int result" where
  "point_cmp cmp p q =
     (case fst p of
        None \<Rightarrow> Inr (if fst q = None then 0 else -1)
      | Some vp \<Rightarrow> (case fst q of None \<Rightarrow> Inr 1 | Some vq \<Rightarrow> cmp vp vq))"

fun insert_point :: "comparator \<Rightarrow> point \<Rightarrow> point list \<Rightarrow> point list result" where
  "insert_point cmp p [] = Inr [p]"
| "insert_point cmp p (q # qs) =
     rbind (point_cmp cmp p q) (\<lambda>r.
       if r < 0 then Inr (p # q # qs)
       else rbind (insert_point cmp p qs) (\<lambda>rs. Inr (q # rs)))"

fun sort_points :: "comparator \<Rightarrow> point list \<Rightarrow> point list \<Rightarrow> point list result" where
  "sort_points cmp acc [] = Inr acc"
| "sort_points cmp acc (p # ps) = rbind (insert_point cmp p acc) (\<lambda>acc'. sort_points cmp acc' ps)"

definition point_rel :: "comparator \<Rightarrow> string \<Rightarrow> point \<Rightarrow> int result" where
  "point_rel cmp version p = (case fst p of None \<Rightarrow> Inr 1 | Some v \<Rightarrow> cmp version v)"

fun walk_points :: "comparator \<Rightarrow> string \<Rightarrow> bool \<Rightarrow> point list \<Rightarrow> (bool \<times> string option) result" where
  "walk_points cmp version affected [] = Inr (affected, None)"
| "walk_points cmp version affected (p # ps) =
     rbind (point_rel cmp version p) (\<lambda>rel.
       case snd p of
         Introduced \<Rightarrow> walk_points cmp version (affected \<or> 0 \<le> rel) ps
       | Fixed \<Rightarrow>
           if 0 \<le> rel then walk_points cmp version False ps
           else if affected then Inr (True, fst p)
           else walk_points cmp version affected ps
       | LastAffected \<Rightarrow> walk_points cmp version (affected \<and> \<not> 0 < rel) ps)"

definition match_range :: "string \<Rightarrow> osv_event list \<Rightarrow> comparator \<Rightarrow> (bool \<times> string option) result" where
  "match_range version events cmp =
     rbind (sort_points cmp [] (event_points events)) (walk_points cmp version False)"

fun match_ranges :: "string \<Rightarrow> osv_range list \<Rightarrow> comparator \<Rightarrow> comparator option \<Rightarrow> (bool \<times> string option) result" where
  "match_ranges version [] compare semver = Inr (False, None)"
| "match_ranges version (rng # rngs) compare semver =
     (case (if rng_type rng = Some ''ECOSYSTEM'' then Some compare
            else if rng_type rng = Some ''SEMVER'' then semver else None) of
        None \<Rightarrow> match_ranges version rngs compare semver
      | Some cmp \<Rightarrow>
          rbind (match_range version (rng_events rng) cmp) (\<lambda>(affected, fixed).
            if affected then Inr (True, fixed) else match_ranges version rngs compare semver))"

definition is_version_affected ::
  "string \<Rightarrow> osv_entry \<Rightarrow> comparator \<Rightarrow> comparator option \<Rightarrow> (bool \<times> string option) result" where
  "is_version_affected version entry compare semver =
     (if version \<in> set (ent_versions entry) then Inr (True, None)
      else match_ranges version (ent_ranges entry) compare semver)"

section \<open>What the walk decides\<close>

text \<open>The order of versions extended with the point before every version, as a predicate.\<close>

definition below :: "comparator \<Rightarrow> string option \<Rightarrow> string option \<Rightarrow> bool" where
  "below cmp p q = (case p of None \<Rightarrow> True
     | Some v \<Rightarrow> (case q of None \<Rightarrow> False | Some w \<Rightarrow> (\<exists>r. cmp v w = Inr r \<and> r \<le> 0)))"

definition range_affects :: "comparator \<Rightarrow> string \<Rightarrow> point list \<Rightarrow> bool" where
  "range_affects cmp version ps \<longleftrightarrow>
     (\<exists>i. (i, Introduced) \<in> set ps \<and> below cmp i (Some version)
        \<and> (\<forall>f. (f, Fixed) \<in> set ps \<longrightarrow> \<not> (below cmp i f \<and> below cmp f (Some version)))
        \<and> (\<forall>l. (l, LastAffected) \<in> set ps \<longrightarrow> \<not> (below cmp i l \<and> \<not> below cmp (Some version) l)))"

definition no_ties :: "comparator \<Rightarrow> point list \<Rightarrow> bool" where
  "no_ties cmp ps \<longleftrightarrow>
     (\<forall>i e k. (i, Introduced) \<in> set ps \<longrightarrow> (e, k) \<in> set ps \<longrightarrow> k \<noteq> Introduced \<longrightarrow>
        \<not> (below cmp i e \<and> below cmp e i))"

definition points_valid :: "(string \<Rightarrow> bool) \<Rightarrow> point list \<Rightarrow> bool" where
  "points_valid valid ps = list_all (\<lambda>p. (case fst p of None \<Rightarrow> snd p = Introduced | Some v \<Rightarrow> valid v)) ps"

lemma event_points_None: "(None, k) \<in> set (event_points evs) \<Longrightarrow> k = Introduced"
  by (induction evs) (auto split: option.splits if_splits)

context version_order
begin

definition opt_valid :: "string option \<Rightarrow> bool" where
  "opt_valid p = (case p of None \<Rightarrow> True | Some v \<Rightarrow> valid v)"

lemma opt_valid_simps [simp]: "opt_valid None" "opt_valid (Some v) = valid v"
  by (simp_all add: opt_valid_def)

lemma below_refl: "opt_valid p \<Longrightarrow> below cmp p p"
  by (auto simp: below_def cmp_refl split: option.splits)

lemma below_linear: "opt_valid p \<Longrightarrow> opt_valid q \<Longrightarrow> below cmp p q \<or> below cmp q p"
proof (cases p; cases q)
  fix v w
  assume "opt_valid p" "opt_valid q" and pq: "p = Some v" "q = Some w"
  then have "valid v" "valid w" by auto
  then show ?thesis by (rule cmp_cases) (auto simp: below_def pq)
qed (auto simp: below_def)

lemma below_trans:
  "opt_valid p \<Longrightarrow> opt_valid q \<Longrightarrow> opt_valid r \<Longrightarrow> below cmp p q \<Longrightarrow> below cmp q r \<Longrightarrow> below cmp p r"
  by (cases p; cases q; cases r) (auto simp: below_def intro: cmp_trans)

lemma point_cmp_below:
  assumes "opt_valid (fst p)" "opt_valid (fst q)"
  shows "\<exists>r. point_cmp cmp p q = Inr r \<and> (r \<le> 0 \<longleftrightarrow> below cmp (fst p) (fst q)) \<and> (0 \<le> r \<longleftrightarrow> below cmp (fst q) (fst p))"
proof (cases "fst p"; cases "fst q")
  fix v w
  assume pq: "fst p = Some v" "fst q = Some w"
  with assms have "valid v" "valid w" by auto
  then show ?thesis by (rule cmp_cases) (auto simp: below_def point_cmp_def pq)
qed (auto simp: below_def point_cmp_def)

abbreviation sorted_points :: "point list \<Rightarrow> bool" where
  "sorted_points \<equiv> sorted_wrt (\<lambda>p q. below cmp (fst p) (fst q))"

lemma insert_point_sorted:
  assumes "opt_valid (fst p)" "\<forall>q \<in> set qs. opt_valid (fst q)" "sorted_points qs"
  shows "\<exists>rs. insert_point cmp p qs = Inr rs \<and> set rs = insert p (set qs) \<and> sorted_points rs"
  using assms(2,3)
proof (induction qs)
  case (Cons q qs)
  obtain r where r: "point_cmp cmp p q = Inr r" "r \<le> 0 \<longleftrightarrow> below cmp (fst p) (fst q)" "0 \<le> r \<longleftrightarrow> below cmp (fst q) (fst p)"
    using point_cmp_below [OF assms(1), of q] Cons.prems by auto
  obtain rs where rs: "insert_point cmp p qs = Inr rs" "set rs = insert p (set qs)" "sorted_points rs"
    using Cons by auto
  show ?case
  proof (cases "r < 0")
    case True
    have "below cmp (fst p) (fst x)" if "x \<in> set qs" for x
      using that True r Cons.prems assms(1) below_trans [of "fst p" "fst q" "fst x"] by auto
    with True r Cons.prems show ?thesis by auto
  next
    case False
    with r rs Cons.prems show ?thesis by auto
  qed
qed simp

lemma sort_points_sorted:
  "\<forall>q \<in> set ps. opt_valid (fst q) \<Longrightarrow> \<forall>q \<in> set acc. opt_valid (fst q) \<Longrightarrow> sorted_points acc \<Longrightarrow>
     \<exists>rs. sort_points cmp acc ps = Inr rs \<and> set rs = set acc \<union> set ps \<and> sorted_points rs"
proof (induction ps arbitrary: acc)
  case (Cons p ps)
  then obtain acc' where a: "insert_point cmp p acc = Inr acc'" "set acc' = insert p (set acc)" "sorted_points acc'"
    using insert_point_sorted [of p acc] by auto
  then have "\<forall>q \<in> set acc'. opt_valid (fst q)" using Cons.prems by auto
  from Cons.IH [OF _ this a(3)] Cons.prems a show ?case by auto
qed simp

text \<open>The walk stops early or at the end with the same verdict: an introduction at or below the
  version with no closing event after it in the sorted list.\<close>

lemma point_rel_below:
  assumes "valid v" "opt_valid (fst p)"
  shows "\<exists>r. point_rel cmp v p = Inr r \<and> (0 \<le> r \<longleftrightarrow> below cmp (fst p) (Some v)) \<and>
    (fst p \<noteq> None \<longrightarrow> (0 < r \<longleftrightarrow> \<not> below cmp (Some v) (fst p)))"
proof (cases "fst p")
  case (Some w)
  with assms have "valid w" by simp
  with assms(1) show ?thesis by (rule cmp_cases) (auto simp: below_def point_rel_def Some)
qed (auto simp: below_def point_rel_def)

definition closes :: "string \<Rightarrow> point \<Rightarrow> bool" where
  "closes v p = ((snd p = Fixed \<and> below cmp (fst p) (Some v)) \<or> (snd p = LastAffected \<and> \<not> below cmp (Some v) (fst p)))"

lemma walk_verdict:
  assumes "valid v" "points_valid valid ps" "sorted_points ps"
  shows "\<exists>a f. walk_points cmp v aff ps = Inr (a, f) \<and>
    (a \<longleftrightarrow> (aff \<and> (\<forall>p \<in> set ps. \<not> closes v p)) \<or>
       (\<exists>us i ws. ps = us @ (i, Introduced) # ws \<and> below cmp i (Some v) \<and> (\<forall>p \<in> set ws. \<not> closes v p)))"
  using assms(2,3)
proof (induction ps arbitrary: aff)
  case (Cons p ps)
  have pv: "opt_valid (fst p)" and some: "snd p \<noteq> Introduced \<Longrightarrow> fst p \<noteq> None" and psv: "points_valid valid ps"
    using Cons.prems(1) by (auto simp: points_valid_def opt_valid_def split: option.splits)
  have ps: "sorted_points ps" using Cons.prems(2) by simp
  obtain r where r: "point_rel cmp v p = Inr r" "0 \<le> r \<longleftrightarrow> below cmp (fst p) (Some v)"
    "fst p \<noteq> None \<Longrightarrow> 0 < r \<longleftrightarrow> \<not> below cmp (Some v) (fst p)"
    using point_rel_below [OF assms(1) pv] by blast
  let ?ex = "\<lambda>ps. \<exists>us i ws. ps = us @ (i, Introduced) # ws \<and> below cmp i (Some v) \<and> (\<forall>p \<in> set ws. \<not> closes v p)"
  have ex: "?ex (p # ps) \<longleftrightarrow>
      (snd p = Introduced \<and> below cmp (fst p) (Some v) \<and> (\<forall>q \<in> set ps. \<not> closes v q)) \<or> ?ex ps"
    by (cases p) (auto simp: Cons_eq_append_conv)
  note IH = Cons.IH [OF psv ps]
  have closing: "closes v p \<longleftrightarrow> (snd p = Fixed \<and> 0 \<le> r) \<or> (snd p = LastAffected \<and> 0 < r)"
    using r some by (auto simp: closes_def)
  show ?case
  proof (cases "snd p")
    case Introduced
    then show ?thesis using r ex closing IH [of "aff \<or> 0 \<le> r"] by auto
  next
    case LastAffected
    then show ?thesis using r ex closing IH [of "aff \<and> \<not> 0 < r"] by auto
  next
    case Fixed
    show ?thesis
    proof (cases "0 \<le> r \<or> \<not> aff")
      case True
      then show ?thesis using r ex closing Fixed IH [of False] by auto
    next
      case False
      have "\<not> below cmp (fst q) (Some v)" if "q \<in> set ps" for q
      proof
        assume "below cmp (fst q) (Some v)"
        moreover have "below cmp (fst p) (fst q)" using that Cons.prems(2) by simp
        moreover have "opt_valid (fst q)"
          using that psv by (auto simp: points_valid_def list_all_iff opt_valid_def split: option.splits)
        ultimately have "below cmp (fst p) (Some v)" using below_trans [of "fst p" "fst q" "Some v"] pv assms(1) by simp
        with False r show False by simp
      qed
      moreover have "opt_valid (fst q)" if "q \<in> set ps" for q
        using that psv by (auto simp: points_valid_def list_all_iff opt_valid_def split: option.splits)
      ultimately have "\<not> closes v q" if "q \<in> set ps" for q
        using that below_linear [of "Some v" "fst q"] assms(1) by (auto simp: closes_def)
      with closing Fixed False have "\<forall>q \<in> set (p # ps). \<not> closes v q" by auto
      with False r Fixed show ?thesis by auto
    qed
  qed
qed simp

lemma match_range_correct:
  assumes "valid v" "points_valid valid (event_points evs)" "no_ties cmp (event_points evs)"
  shows "\<exists>f. match_range v evs cmp = Inr (range_affects cmp v (event_points evs), f)"
proof -
  let ?ps = "event_points evs"
  have ov: "\<forall>q \<in> set ?ps. opt_valid (fst q)"
    using assms(2) by (auto simp: points_valid_def list_all_iff opt_valid_def split: option.splits)
  then obtain rs where rs: "sort_points cmp [] ?ps = Inr rs" "set rs = set ?ps" "sorted_points rs"
    using sort_points_sorted [of ?ps "[]"] by auto
  have rv: "points_valid valid rs" using assms(2) rs(2) by (simp add: points_valid_def list_all_iff)
  obtain a f where w: "walk_points cmp v False rs = Inr (a, f)"
    and a: "a \<longleftrightarrow> (\<exists>us i ws. rs = us @ (i, Introduced) # ws \<and> below cmp i (Some v) \<and> (\<forall>p \<in> set ws. \<not> closes v p))"
    using walk_verdict [OF assms(1) rv rs(3), of False] by auto
  have "a \<longleftrightarrow> range_affects cmp v ?ps"
  proof
    assume a
    then obtain us i ws where s: "rs = us @ (i, Introduced) # ws" "below cmp i (Some v)" "\<forall>p \<in> set ws. \<not> closes v p"
      using a by blast
    have "\<not> below cmp i (fst q)" if "q \<in> set rs" "closes v q" for q
    proof
      assume iq: "below cmp i (fst q)"
      have k: "snd q \<noteq> Introduced" using that(2) by (auto simp: closes_def)
      with that s have "q \<in> set us" by auto
      then have "below cmp (fst q) i" using rs(3) s(1) by (auto simp: sorted_wrt_append)
      with iq k that(1) s(1) rs(2) assms(3) show False
        by (cases q) (force simp: no_ties_def)
    qed
    then have none: "\<And>e k. (e, k) \<in> set ?ps \<Longrightarrow> closes v (e, k) \<Longrightarrow> \<not> below cmp i e"
      unfolding rs(2) by (metis fst_conv)
    have "(i, Introduced) \<in> set ?ps" using s(1) rs(2) [symmetric] by simp
    with s(2) none show "range_affects cmp v ?ps"
      unfolding range_affects_def closes_def by (metis fst_conv snd_conv)
  next
    assume "range_affects cmp v ?ps"
    then obtain i where i: "(i, Introduced) \<in> set rs" "below cmp i (Some v)"
      and none: "\<And>q. q \<in> set rs \<Longrightarrow> closes v q \<Longrightarrow> \<not> below cmp i (fst q)"
      unfolding range_affects_def rs(2) [symmetric] closes_def by (metis prod.collapse)
    obtain us ws where s: "rs = us @ (i, Introduced) # ws" using i(1) by (meson split_list)
    then have "\<not> closes v q" if "q \<in> set ws" for q
      using none [of q] that rs(3) by (auto simp: sorted_wrt_append)
    with s i(2) show a using a by blast
  qed
  with w rs(1) show ?thesis by (simp add: match_range_def)
qed

text \<open>The reported remediation is the least fixed version above the installed one.\<close>

lemma walk_beyond:
  assumes "valid v" "\<forall>p \<in> set ps. opt_valid (fst p) \<and> \<not> below cmp (fst p) (Some v)"
  shows "walk_points cmp v False ps = Inr (False, None)"
  using assms(2)
proof (induction ps)
  case (Cons p ps)
  then obtain r where "point_rel cmp v p = Inr r" "\<not> 0 \<le> r"
    using point_rel_below [OF assms(1), of p] by auto
  with Cons show ?case by (cases "snd p") auto
qed simp

lemma walk_remedy:
  assumes "valid v" "\<forall>p \<in> set ps. opt_valid (fst p)" "sorted_points ps"
    "walk_points cmp v aff ps = Inr (True, Some f)"
  shows "(Some f, Fixed) \<in> set ps \<and> \<not> below cmp (Some f) (Some v) \<and>
    (\<forall>g. (g, Fixed) \<in> set ps \<longrightarrow> \<not> below cmp g (Some v) \<longrightarrow> below cmp (Some f) g)"
  using assms(2-4)
proof (induction ps arbitrary: aff)
  case (Cons p ps)
  have pv: "opt_valid (fst p)" and psv: "\<forall>p \<in> set ps. opt_valid (fst p)" and ps: "sorted_points ps"
    and after: "\<forall>q \<in> set ps. below cmp (fst p) (fst q)"
    using Cons.prems by auto
  obtain r where r: "point_rel cmp v p = Inr r" "0 \<le> r \<longleftrightarrow> below cmp (fst p) (Some v)"
    using point_rel_below [OF assms(1) pv] by blast
  show ?case
  proof (cases "snd p = Fixed \<and> \<not> 0 \<le> r")
    case False
    then obtain aff' where "walk_points cmp v aff' ps = Inr (True, Some f)"
      using Cons.prems(3) r(1) by (cases "snd p") auto
    from Cons.IH [OF psv ps this] False r(2) show ?thesis by (cases p) auto
  next
    case True
    have beyond: "\<not> below cmp (fst q) (Some v)" if "q \<in> set ps" for q
      using that True r(2) after psv pv below_trans [of "fst p" "fst q" "Some v"] assms(1) by auto
    show ?thesis
    proof (cases aff)
      case True': True
      with True r(1) Cons.prems(3) have "fst p = Some f" by auto
      with True r(2) after pv below_refl [of "Some f"] show ?thesis by (cases p) force
    next
      case False
      with True r(1) Cons.prems(3) have "walk_points cmp v False ps = Inr (True, Some f)" by auto
      with walk_beyond [OF assms(1), of ps] beyond psv show ?thesis by auto
    qed
  qed
qed simp

lemma match_range_remedy:
  assumes "valid v" "points_valid valid (event_points evs)" "match_range v evs cmp = Inr (True, Some f)"
  shows "(Some f, Fixed) \<in> set (event_points evs) \<and> \<not> below cmp (Some f) (Some v) \<and>
    (\<forall>g. (g, Fixed) \<in> set (event_points evs) \<longrightarrow> \<not> below cmp g (Some v) \<longrightarrow> below cmp (Some f) g)"
proof -
  have ov: "\<forall>q \<in> set (event_points evs). opt_valid (fst q)"
    using assms(2) by (auto simp: points_valid_def list_all_iff opt_valid_def split: option.splits)
  then obtain rs where rs: "sort_points cmp [] (event_points evs) = Inr rs" "set rs = set (event_points evs)" "sorted_points rs"
    using sort_points_sorted [of "event_points evs" "[]"] by auto
  with assms(3) have "walk_points cmp v False rs = Inr (True, Some f)" by (simp add: match_range_def)
  from walk_remedy [OF assms(1) _ rs(3) this] rs(2) ov show ?thesis by simp
qed

end

end
