(* ===== verification/Version_Properties.thy ===== *)
theory Version_Properties
  imports Version_Laws Osv_Match
begin

text \<open>
  The properties of version comparison and of OSV range matching, read off the interpretations of
  \<open>keyed_order\<close> and \<open>version_order\<close> at the comparators of the analyzer.
\<close>

section \<open>The comparators are total preorders\<close>

text \<open>Dpkg ordering is a total preorder. On every pair of version strings whose epochs \<open>int()\<close>
  accepts, \<open>dpkg_compare\<close> returns -1, 0 or 1, swapping its arguments negates the result, and
  ``not newer'' is transitive.\<close>

theorem dpkg_total_preorder:
  assumes "dpkg_ok a" "dpkg_ok b" "dpkg_ok c"
  shows "(\<exists>r. dpkg_compare a b = Inr r \<and> r \<in> {-1, 0, 1} \<and> dpkg_compare b a = Inr (- r))
    \<and> (\<forall>r s. dpkg_compare a b = Inr r \<longrightarrow> r \<le> 0 \<longrightarrow> dpkg_compare b c = Inr s \<longrightarrow> s \<le> 0 \<longrightarrow>
         (\<exists>t. dpkg_compare a c = Inr t \<and> t \<le> 0))"
  using dpkg.cmp_total [OF assms(1,2)] dpkg.cmp_swap [OF assms(1,2)] dpkg.cmp_trans [OF assms] by blast

text \<open>dpkg segments are compared by their key. The character-by-character comparison of two version
  segments equals the comparison of their keys: the weights of the characters of each non-digit run,
  then the value of each digit run, padded with the weight of the end of the string.\<close>

theorem compare_segment_is_key_order: "compare_segment a b = padcmp (seg_key a) (seg_key b)"
  by (rule compare_segment_key)

text \<open>The only failure of dpkg comparison. \<open>dpkg_compare\<close> raises exactly when an epoch consists of
  digit characters that \<open>int()\<close> refuses, and then it raises \<open>ValueError\<close>.\<close>

theorem dpkg_error_iff: "dpkg_compare a b = Inl e \<longleftrightarrow> e = ValueError \<and> \<not> (dpkg_ok a \<and> dpkg_ok b)"
  by (rule dpkg_compare_error)

text \<open>Semantic versions are totally preordered by \<open>semver_compare\<close>: it returns on all versions whose
  numeric parts \<open>int()\<close> accepts, is antisymmetric and transitive.\<close>

theorem semver_total_preorder:
  assumes "semver_ok a" "semver_ok b" "semver_ok c"
  shows "(\<exists>r. semver_compare a b = Inr r \<and> r \<in> {-1, 0, 1} \<and> semver_compare b a = Inr (- r))
    \<and> (\<forall>r s. semver_compare a b = Inr r \<longrightarrow> r \<le> 0 \<longrightarrow> semver_compare b c = Inr s \<longrightarrow> s \<le> 0 \<longrightarrow>
         (\<exists>t. semver_compare a c = Inr t \<and> t \<le> 0))"
  using semver.cmp_total [OF assms(1,2)] semver.cmp_swap [OF assms(1,2)] semver.cmp_trans [OF assms] by blast

text \<open>RPM versions are totally preordered by \<open>rpm_compare\<close>, tildes and carets included.\<close>

theorem rpm_total_preorder:
  assumes "rpm_ok a" "rpm_ok b" "rpm_ok c"
  shows "(\<exists>r. rpm_compare a b = Inr r \<and> r \<in> {-1, 0, 1} \<and> rpm_compare b a = Inr (- r))
    \<and> (\<forall>r s. rpm_compare a b = Inr r \<longrightarrow> r \<le> 0 \<longrightarrow> rpm_compare b c = Inr s \<longrightarrow> s \<le> 0 \<longrightarrow>
         (\<exists>t. rpm_compare a c = Inr t \<and> t \<le> 0))"
  using rpm.cmp_total [OF assms(1,2)] rpm.cmp_swap [OF assms(1,2)] rpm.cmp_trans [OF assms] by blast

text \<open>apk comparison is antisymmetric: on every pair of versions it returns for, swapping the
  arguments negates the result.\<close>

theorem apk_antisymmetric: "apk_compare a b = Inr r \<Longrightarrow> apk_compare b a = Inr (- r)"
  by (rule apk_compare_swap)


section \<open>OSV ranges\<close>

text \<open>C19: OSV range matching decides what the OSV schema says. For Debian packages, when no closing
  event of a range ties with an introduction, \<open>match_range\<close> returns and reports a version as affected
  exactly when some introduction is at or below it with no fix at or below it, and no exceeded
  \<open>last_affected\<close>, at or after that introduction, in whatever order the advisory lists its events.\<close>

theorem dpkg_range_verdict:
  assumes "dpkg_ok v" "points_valid dpkg_ok (event_points evs)" "no_ties dpkg_compare (event_points evs)"
  shows "\<exists>f. match_range v evs dpkg_compare = Inr (range_affects dpkg_compare v (event_points evs), f)"
  by (rule dpkg.match_range_correct [OF assms])

text \<open>The reported fix is the nearest one. When \<open>match_range\<close> reports an RPM version as affected with
  a fixed version, that version is one of the range's fixes, it is newer than the installed version, and
  no other such fix is older.\<close>

theorem rpm_range_remedy:
  assumes "rpm_ok v" "points_valid rpm_ok (event_points evs)" "match_range v evs rpm_compare = Inr (True, Some f)"
  shows "(Some f, Fixed) \<in> set (event_points evs) \<and> \<not> below rpm_compare (Some f) (Some v)
    \<and> (\<forall>g. (g, Fixed) \<in> set (event_points evs) \<longrightarrow> \<not> below rpm_compare g (Some v) \<longrightarrow> below rpm_compare (Some f) g)"
  by (rule rpm.match_range_remedy [OF assms])

section \<open>Witnesses\<close>

definition ex_events :: "osv_event list" where
  "ex_events = [\<lparr>ev_introduced = None, ev_fixed = Some ''1:2.0~rc1'', ev_last_affected = None\<rparr>,
     \<lparr>ev_introduced = Some ''0'', ev_fixed = None, ev_last_affected = None\<rparr>]"

theorem dpkg_total_preorder_witness:
  "\<exists>t. dpkg_compare ''1.0~rc1'' ''1:0'' = Inr t \<and> t \<le> 0"
proof -
  have "dpkg_ok ''1.0~rc1''" by code_simp
  moreover have "dpkg_ok ''1.0-1''" by code_simp
  moreover have "dpkg_ok ''1:0''" by code_simp
  moreover have "dpkg_compare ''1.0~rc1'' ''1.0-1'' = Inr (-1)" by code_simp
  moreover have "dpkg_compare ''1.0-1'' ''1:0'' = Inr (-1)" by code_simp
  ultimately show ?thesis using dpkg_total_preorder [of "''1.0~rc1''" "''1.0-1''" "''1:0''"] by auto
qed

theorem semver_total_preorder_witness: "\<exists>t. semver_compare ''1.0.0-rc.1'' ''1.0.1'' = Inr t \<and> t \<le> 0"
proof -
  have "semver_ok ''1.0.0-rc.1''" by code_simp
  moreover have "semver_ok ''1.0.0''" by code_simp
  moreover have "semver_ok ''1.0.1''" by code_simp
  moreover have "semver_compare ''1.0.0-rc.1'' ''1.0.0'' = Inr (-1)" by code_simp
  moreover have "semver_compare ''1.0.0'' ''1.0.1'' = Inr (-1)" by code_simp
  ultimately show ?thesis using semver_total_preorder [of "''1.0.0-rc.1''" "''1.0.0''" "''1.0.1''"] by auto
qed

theorem rpm_total_preorder_witness: "\<exists>t. rpm_compare ''1.0~rc1-1'' ''1.0^git1-1'' = Inr t \<and> t \<le> 0"
proof -
  have "rpm_ok ''1.0~rc1-1''" by code_simp
  moreover have "rpm_ok ''1.0-1''" by code_simp
  moreover have "rpm_ok ''1.0^git1-1''" by code_simp
  moreover have "rpm_compare ''1.0~rc1-1'' ''1.0-1'' = Inr (-1)" by code_simp
  moreover have "rpm_compare ''1.0-1'' ''1.0^git1-1'' = Inr (-1)" by code_simp
  ultimately show ?thesis using rpm_total_preorder [of "''1.0~rc1-1''" "''1.0-1''" "''1.0^git1-1''"] by auto
qed

theorem apk_antisymmetric_witness: "apk_compare ''1.2_rc1-r3'' ''1.2-r0'' = Inr (-1) \<and> apk_compare ''1.2-r0'' ''1.2_rc1-r3'' = Inr 1"
proof -
  have "apk_compare ''1.2_rc1-r3'' ''1.2-r0'' = Inr (-1)" by code_simp
  then show ?thesis using apk_antisymmetric [of "''1.2_rc1-r3''" "''1.2-r0''" "-1"] by simp
qed

lemma ex_points: "event_points ex_events = [(Some ''1:2.0~rc1'', Fixed), (None, Introduced)]"
  by (simp add: ex_events_def ZERO_def)

theorem dpkg_range_verdict_witness:
  "\<exists>f. match_range ''1:1.9'' ex_events dpkg_compare = Inr (range_affects dpkg_compare ''1:1.9'' (event_points ex_events), f)"
proof (rule dpkg_range_verdict)
  show "dpkg_ok ''1:1.9''" by code_simp
  have "dpkg_ok ''1:2.0~rc1''" by code_simp
  then show "points_valid dpkg_ok (event_points ex_events)" by (simp add: ex_points points_valid_def)
  show "no_ties dpkg_compare (event_points ex_events)" by (auto simp: ex_points no_ties_def below_def)
qed

theorem rpm_range_remedy_witness: "\<not> below rpm_compare (Some ''1:2.0~rc1'') (Some ''1:1.9'')"
proof (rule conjunct1 [OF conjunct2 [OF rpm_range_remedy]])
  show "rpm_ok ''1:1.9''" by code_simp
  have "rpm_ok ''1:2.0~rc1''" by code_simp
  then show "points_valid rpm_ok (event_points ex_events)" by (simp add: ex_points points_valid_def)
  show "match_range ''1:1.9'' ex_events rpm_compare = Inr (True, Some ''1:2.0~rc1'')" by code_simp
qed

end
