(* ===== verification/Strict_Model.thy ===== *)
theory Strict_Model
  imports Py_Prelude
begin

text \<open>
  \<open>StrictModel\<close> of \<open>analyzer/schemas/common.py\<close>, the pydantic base of every wire model: validation
  strips the whitespace of each string and refuses a string longer than \<open>MAX_WIRE_STRING_CHARS\<close>.
  Validated strings are fixed points of validation.
\<close>

definition MAX_WIRE_STRING_CHARS :: nat where "MAX_WIRE_STRING_CHARS = 4096"

definition valid_str :: "string \<Rightarrow> string result" where
  "valid_str s = (let t = strip s in
     if length t \<le> MAX_WIRE_STRING_CHARS then Inr t else Inl ValidationError)"

definition valid_opt_str :: "string option \<Rightarrow> string option result" where
  "valid_opt_str s = (case s of None \<Rightarrow> Inr None | Some x \<Rightarrow> rbind (valid_str x) (\<lambda>y. Inr (Some y)))"

definition valid_strs :: "string list \<Rightarrow> string list result" where
  "valid_strs ss = rmap_list valid_str ss"

text \<open>A string that validation leaves as it is.\<close>

definition clean :: "string \<Rightarrow> bool" where
  "clean s = (strip s = s \<and> length s \<le> MAX_WIRE_STRING_CHARS)"

lemma dropWhile_twice [simp]: "dropWhile P (dropWhile P s) = dropWhile P s"
  by (induction s) auto

lemma dropWhile_strip: "dropWhile isspace_char (strip s) = strip s"
proof (cases "strip s")
  case (Cons c t)
  obtain us where "dropWhile isspace_char s = strip s @ us"
    unfolding strip_def by (metis rev_append rev_rev_ident takeWhile_dropWhile_id)
  then have "dropWhile isspace_char s = c # t @ us" using Cons by simp
  then have "\<not> isspace_char c" by (metis hd_dropWhile list.discI list.sel(1))
  with Cons show ?thesis by simp
qed (simp only: dropWhile.simps)

lemma strip_idem [simp]: "strip (strip s) = strip s"
  by (subst strip_def, subst dropWhile_strip) (simp add: strip_def)

lemma strip_no_space:
  assumes "list_all (\<lambda>c. \<not> isspace_char c) s"
  shows "strip s = s"
proof -
  have same: "dropWhile isspace_char t = t" if "\<forall>c \<in> set t. \<not> isspace_char c" for t
    using that by (cases t) auto
  show ?thesis using assms by (simp add: strip_def same list_all_iff)
qed

lemma valid_str_eq: "valid_str s = Inr t \<longleftrightarrow> t = strip s \<and> length t \<le> MAX_WIRE_STRING_CHARS"
  by (auto simp: valid_str_def Let_def)

lemma valid_opt_str_eq:
  "valid_opt_str s = Inr t \<longleftrightarrow> t = map_option strip s \<and> (\<forall>x. t = Some x \<longrightarrow> length x \<le> MAX_WIRE_STRING_CHARS)"
  by (cases s) (auto simp: valid_opt_str_def valid_str_eq)

lemma map_option_strip_idem [simp]: "map_option strip (map_option strip s) = map_option strip s"
  by (cases s) simp_all

lemma valid_str_clean: "clean s \<Longrightarrow> valid_str s = Inr s"
  by (simp add: valid_str_def clean_def)

lemma valid_strs_clean: "list_all clean ss \<Longrightarrow> valid_strs ss = Inr ss"
  by (induction ss) (simp_all add: valid_strs_def valid_str_clean)

lemma valid_str_result: "valid_str s = Inr t \<Longrightarrow> clean t"
  by (auto simp: valid_str_eq clean_def)

end
