(* ===== verification/Scan_Schemas.thy ===== *)
theory Scan_Schemas
  imports Strict_Model "HOL-Library.Log_Nat"
begin

text \<open>
  Scan orchestration models: \<open>form/schemas/scan.py\<close> (\<open>ScanJob\<close>, \<open>ScanJobOptions\<close>, \<open>ScanResult\<close>
  and the enumerations they use) with the validation \<open>StrictModel\<close> declares
  (\<open>analyzer/schemas/common.py\<close>): every string is stripped and then limited to 4096
  characters, the numeric fields have their declared bounds, and the \<open>after\<close> validator
  \<open>_derive_mode\<close> fills the derived fields.

  A \<open>datetime\<close> is an aware UTC instant: the integer number of microseconds since the epoch, which
  is the resolution of Python's \<open>datetime\<close>; \<open>micros\<close> is the conversion the stores use, which goes
  through a binary64 float.
\<close>

section \<open>Instants\<close>

type_synonym datetime = int
type_synonym timedelta = int

text \<open>Division rounded to the nearest integer, ties to even, and its use to round a positive
  ratio to 53 significant bits: \<open>(m, k)\<close> stands for \<open>m * 2 powi k\<close>.\<close>

definition round_div :: "int \<Rightarrow> int \<Rightarrow> int" where
  "round_div p q = (let d = p div q; r = p mod q in
     if 2 * r < q \<or> (2 * r = q \<and> even d) then d else d + 1)"

definition scaled_div :: "int \<Rightarrow> int \<Rightarrow> int \<Rightarrow> int" where
  "scaled_div a b k = (if 0 \<le> k then round_div a (b * 2 ^ nat k) else round_div (a * 2 ^ nat (- k)) b)"

definition float_ratio :: "int \<Rightarrow> int \<Rightarrow> int \<times> int" where
  "float_ratio a b =
     (let k = bitlen a - bitlen b - 53; d = scaled_div a b k in
      if d < 2 ^ 52 then (scaled_div a b (k - 1), k - 1)
      else if 2 ^ 53 < d then (scaled_div a b (k + 1), k + 1)
      else (d, k))"

text \<open>Evaluation of \<open>bitlen\<close> in large strides.\<close>

lemma bitlen_stride: "2 ^ k \<le> x \<Longrightarrow> bitlen x = int k + bitlen (x div 2 ^ k)"
proof (induction k arbitrary: x)
  case (Suc k)
  have "2 ^ k \<le> x div 2" using Suc.prems by simp
  moreover have "0 < x" using Suc.prems by (smt (verit) zero_less_power)
  ultimately show ?case using Suc.IH [of "x div 2"] compute_bitlen [of x] by (simp add: zdiv_zmult2_eq)
qed simp

lemma bitlen_code [code]:
  "bitlen x = (if 4294967296 \<le> x then 32 + bitlen (x div 4294967296)
     else if 65536 \<le> x then 16 + bitlen (x div 65536)
     else if 256 \<le> x then 8 + bitlen (x div 256)
     else if 16 \<le> x then 4 + bitlen (x div 16)
     else if 0 < x then 1 + bitlen (x div 2) else 0)"
  using bitlen_stride [of 32 x] bitlen_stride [of 16 x] bitlen_stride [of 8 x] bitlen_stride [of 4 x]
    bitlen_stride [of 1 x] compute_bitlen [of x]
  by (simp add: numeral_eq_Suc)

text \<open>\<open>int(value.timestamp() * 1_000_000)\<close>: the quotient by a million rounded to a float, the
  product rounded to a float, then truncated.\<close>

definition float_micros :: "int \<Rightarrow> int" where
  "float_micros t =
     (if t = 0 then 0
      else let (m, k) = float_ratio t 1000000;
               (m2, k2) = (if 0 \<le> k then float_ratio (m * 2 ^ nat k * 1000000) 1
                           else float_ratio (m * 1000000) (2 ^ nat (- k))) in
           if 0 \<le> k2 then m2 * 2 ^ nat k2 else m2 div 2 ^ nat (- k2))"

definition micros :: "datetime \<Rightarrow> int" where
  "micros t = (if t < 0 then - float_micros (- t) else float_micros t)"

text \<open>A rational rounded to binary64 (in the range of normal numbers).\<close>

definition float_round :: "rat \<Rightarrow> rat" where
  "float_round x =
     (if x = 0 then 0
      else let (p, q) = quotient_of \<bar>x\<bar>; (m, k) = float_ratio p q;
               v = (if 0 \<le> k then of_int (m * 2 ^ nat k) else of_int m / of_int (2 ^ nat (- k))) in
           if x < 0 then - v else v)"

section \<open>Enumerations and records\<close>

datatype scan_capability = HOST | TRACE | GUARD

datatype scan_mode = ONESHOT | RESIDENT

datatype scan_job_state = PENDING | RETRYING | RUNNING | CANCELLING | SUCCEEDED | FAILED | CANCELLED

datatype derived_state = D_PENDING | D_PROCESSING | D_COMPLETE | D_PARTIAL

datatype windows_defender_scan = DEF_NONE | DEF_QUICK | DEF_FULL

definition mode_for_capability :: "scan_capability \<Rightarrow> scan_mode" where
  "mode_for_capability c = (if c = GUARD then RESIDENT else ONESHOT)"

record scan_job_options =
  scan_target :: string
  malware :: bool
  defender_scan :: windows_defender_scan
  posture :: bool
  secrets :: bool
  pcap :: bool
  iface :: string
  duration :: int
  bpf :: string
  intel :: bool
  ebpf :: bool
  guard_network :: bool
  guard_onaccess :: bool

definition default_options :: scan_job_options where
  "default_options = \<lparr>scan_target = ''all'', malware = True, defender_scan = DEF_QUICK, posture = True,
     secrets = False, pcap = False, iface = ''any'', duration = 5, bpf = ''tcp or udp or icmp'',
     intel = True, ebpf = False, guard_network = True, guard_onaccess = False\<rparr>"

record scan_result =
  res_kind :: scan_capability
  report_id :: "string option"
  batch_id :: "string option"
  res_host_id :: "string option"
  res_pid :: "string option"
  detail :: "string option"
  derived_state :: "derived_state option"
  derived_records :: int
  derived_truncated :: bool
  derived_reason :: "string option"
  derived_attempts :: int
  derived_updated_at :: "datetime option"

record scan_job =
  job_id :: string
  target_id :: string
  address :: string
  capability :: scan_capability
  mode :: "scan_mode option"
  state :: scan_job_state
  options :: scan_job_options
  created_at :: datetime
  updated_at :: "datetime option"
  available_at :: "datetime option"
  started_at :: "datetime option"
  finished_at :: "datetime option"
  cancel_requested_at :: "datetime option"
  attempt :: int
  max_attempts :: int
  result :: "scan_result option"
  job_error :: "string option"

section \<open>Validation\<close>

definition validate_options :: "scan_job_options \<Rightarrow> scan_job_options result" where
  "validate_options opts =
     rbind (valid_str (scan_target opts)) (\<lambda>t.
     rbind (valid_str (iface opts)) (\<lambda>i.
     rbind (valid_str (bpf opts)) (\<lambda>b.
       Inr (opts\<lparr>scan_target := t, iface := i, bpf := b\<rparr>))))"

definition validate_result :: "scan_result \<Rightarrow> scan_result result" where
  "validate_result r =
     rbind (valid_opt_str (report_id r)) (\<lambda>rep.
     rbind (valid_opt_str (batch_id r)) (\<lambda>bat.
     rbind (valid_opt_str (res_host_id r)) (\<lambda>hst.
     rbind (valid_opt_str (res_pid r)) (\<lambda>pid.
     rbind (valid_opt_str (detail r)) (\<lambda>det.
     rbind (valid_opt_str (derived_reason r)) (\<lambda>rea.
       if derived_records r < 0 \<or> derived_attempts r < 0 then Inl ValidationError
       else Inr (r\<lparr>report_id := rep, batch_id := bat, res_host_id := hst, res_pid := pid, detail := det,
              derived_reason := rea\<rparr>)))))))"

definition derive_mode :: "scan_job \<Rightarrow> scan_job" where
  "derive_mode j =
     (let j1 = (if mode j = None then j\<lparr>mode := Some (mode_for_capability (capability j))\<rparr> else j);
          j2 = (if updated_at j1 = None then j1\<lparr>updated_at := Some (created_at j1)\<rparr> else j1) in
      if available_at j2 = None \<and> state j2 \<in> {PENDING, RETRYING}
      then j2\<lparr>available_at := Some (created_at j2)\<rparr> else j2)"

definition validate_job :: "scan_job \<Rightarrow> scan_job result" where
  "validate_job j =
     rbind (valid_str (job_id j)) (\<lambda>jid.
     rbind (valid_str (target_id j)) (\<lambda>tid.
     rbind (valid_str (address j)) (\<lambda>addr.
     rbind (validate_options (options j)) (\<lambda>opts.
     rbind (case result j of None \<Rightarrow> Inr None | Some r \<Rightarrow> rbind (validate_result r) (\<lambda>x. Inr (Some x))) (\<lambda>res.
     rbind (valid_opt_str (job_error j)) (\<lambda>err.
       if attempt j < 0 \<or> max_attempts j < 1 \<or> 20 < max_attempts j then Inl ValidationError
       else Inr (derive_mode (j\<lparr>job_id := jid, target_id := tid, address := addr, options := opts,
              result := res, job_error := err\<rparr>))))))))"

section \<open>Validated values are fixed points\<close>

lemma validate_options_idem: "validate_options opts = Inr q \<Longrightarrow> validate_options q = Inr q"
  by (auto simp: validate_options_def valid_str_eq)

lemma validate_result_idem: "validate_result r = Inr q \<Longrightarrow> validate_result q = Inr q"
  by (auto simp: validate_result_def valid_opt_str_eq split: if_splits)

lemma derive_mode_eq:
  "derive_mode j = j\<lparr>mode := Some (case mode j of None \<Rightarrow> mode_for_capability (capability j) | Some m \<Rightarrow> m),
     updated_at := Some (case updated_at j of None \<Rightarrow> created_at j | Some u \<Rightarrow> u),
     available_at := (if available_at j = None \<and> state j \<in> {PENDING, RETRYING} then Some (created_at j)
       else available_at j)\<rparr>"
  by (cases "mode j"; cases "updated_at j") (simp_all add: derive_mode_def Let_def)

lemma derive_mode_fields [simp]:
  "job_id (derive_mode j) = job_id j" "target_id (derive_mode j) = target_id j"
  "address (derive_mode j) = address j" "options (derive_mode j) = options j"
  "state (derive_mode j) = state j" "created_at (derive_mode j) = created_at j"
  "result (derive_mode j) = result j" "job_error (derive_mode j) = job_error j"
  "attempt (derive_mode j) = attempt j" "max_attempts (derive_mode j) = max_attempts j"
  "capability (derive_mode j) = capability j"
  "updated_at (derive_mode j) = Some (case updated_at j of None \<Rightarrow> created_at j | Some u \<Rightarrow> u)"
  by (simp_all add: derive_mode_eq)

lemma derive_mode_idem [simp]: "derive_mode (derive_mode j) = derive_mode j"
  by (simp add: derive_mode_eq)

text \<open>A successful validation, field by field.\<close>

lemma validate_jobE:
  assumes "validate_job j = Inr k"
  obtains jid tid addr opts res err where
    "valid_str (job_id j) = Inr jid" "valid_str (target_id j) = Inr tid" "valid_str (address j) = Inr addr"
    "validate_options (options j) = Inr opts"
    "(case result j of None \<Rightarrow> Inr None | Some r \<Rightarrow> rbind (validate_result r) (\<lambda>x. Inr (Some x))) = Inr res"
    "valid_opt_str (job_error j) = Inr err" "0 \<le> attempt j" "1 \<le> max_attempts j" "max_attempts j \<le> 20"
    "k = derive_mode (j\<lparr>job_id := jid, target_id := tid, address := addr, options := opts,
              result := res, job_error := err\<rparr>)"
  using assms by (auto simp: validate_job_def split: if_splits)

lemma validate_job_idem:
  assumes "validate_job j = Inr k"
  shows "validate_job k = Inr k"
  using assms
proof (cases rule: validate_jobE)
  case (1 jid tid addr opts res err)
  have res: "(case res of None \<Rightarrow> Inr None | Some r \<Rightarrow> rbind (validate_result r) (\<lambda>x. Inr (Some x))) = Inr res"
    using 1(5) by (auto dest: validate_result_idem split: option.splits)
  let ?j = "j\<lparr>job_id := jid, target_id := tid, address := addr, options := opts, result := res, job_error := err\<rparr>"
  have upd: "derive_mode ?j\<lparr>job_id := jid, target_id := tid, address := addr, options := opts, result := res, job_error := err\<rparr>
      = derive_mode ?j"
    by (simp add: derive_mode_eq)
  have valid: "valid_str jid = Inr jid" "valid_str tid = Inr tid" "valid_str addr = Inr addr" "valid_opt_str err = Inr err"
    using 1(1-3,6) by (auto simp: valid_str_eq valid_opt_str_eq)
  show ?thesis
    unfolding 1(10) validate_job_def
    using validate_options_idem [OF 1(4)] 1(7-9) by (simp add: res valid upd del: derive_mode_eq)
qed

lemma validate_job_fields:
  assumes "validate_job j = Inr k"
  shows "state k = state j" "attempt k = attempt j" "max_attempts k = max_attempts j" "created_at k = created_at j"
    "capability k = capability j" "\<exists>u. updated_at k = Some u" "0 \<le> attempt k"
    "job_id k = strip (job_id j)" "target_id k = strip (target_id j)"
  using assms by (auto elim!: validate_jobE simp: valid_str_eq)

end
