(* ===== verification/Sql_Table.thy ===== *)
theory Sql_Table
  imports Py_Prelude
begin

text \<open>
  SQLite tables as the stores use them: a table is the list of its rows in insertion order, and the
  statements the repositories issue are functions on it. \<open>upd_where\<close> is \<open>UPDATE ... WHERE\<close>,
  \<open>del_where\<close> is \<open>DELETE ... WHERE\<close>, \<open>count_where\<close> is the \<open>rowcount\<close> of either (and
  \<open>SELECT COUNT(*)\<close>), \<open>order_limit\<close> is \<open>ORDER BY ... LIMIT\<close> and \<open>order_desc_limit\<close> its descending
  form. \<open>BEGIN IMMEDIATE\<close> serialises the writers, so a transaction is one function from a state to a
  result: \<open>Inl\<close> is an exception, after which the state is the one before (rollback), \<open>Inr\<close> carries
  the committed state.
\<close>

definition upd_where :: "('r \<Rightarrow> bool) \<Rightarrow> ('r \<Rightarrow> 'r) \<Rightarrow> 'r list \<Rightarrow> 'r list" where
  "upd_where P f rows = map (\<lambda>r. if P r then f r else r) rows"

definition del_where :: "('r \<Rightarrow> bool) \<Rightarrow> 'r list \<Rightarrow> 'r list" where
  "del_where P rows = filter (\<lambda>r. \<not> P r) rows"

definition count_where :: "('r \<Rightarrow> bool) \<Rightarrow> 'r list \<Rightarrow> nat" where
  "count_where P rows = length (filter P rows)"

definition order_limit :: "('r \<Rightarrow> 'k::linorder) \<Rightarrow> nat \<Rightarrow> 'r list \<Rightarrow> 'r list" where
  "order_limit key n rows = take n (sort_key key rows)"

definition order_desc_limit :: "('r \<Rightarrow> 'k::linorder) \<Rightarrow> nat \<Rightarrow> 'r list \<Rightarrow> 'r list" where
  "order_desc_limit key n rows = take n (rev (sort_key key rows))"

definition first_row :: "'r list \<Rightarrow> 'r option" where
  "first_row rows = (case rows of [] \<Rightarrow> None | r # _ \<Rightarrow> Some r)"

definition fetch_where :: "('r \<Rightarrow> bool) \<Rightarrow> 'r list \<Rightarrow> 'r option" where
  "fetch_where P rows = first_row (filter P rows)"

text \<open>What a transaction leaves behind: the new state, or the old one and the exception.\<close>

definition commit :: "'s \<Rightarrow> ('s \<times> 'a) result \<Rightarrow> 's \<times> exn option" where
  "commit r out = (case out of Inl e \<Rightarrow> (r, Some e) | Inr (r', _) \<Rightarrow> (r', None))"

section \<open>Laws of the statements\<close>

lemma commit_simps [simp]: "commit r (Inl e) = (r, Some e)" "commit r (Inr (r', x)) = (r', None)"
  by (simp_all add: commit_def)

lemma commit_fst: "(\<And>r' x. out = Inr (r', x) \<Longrightarrow> P r') \<Longrightarrow> P r \<Longrightarrow> P (fst (commit r out))"
  by (cases out) auto

lemma set_upd_where: "set (upd_where P f rows) = {if P r then f r else r | r. r \<in> set rows}"
  by (auto simp: upd_where_def)

lemma upd_whereE:
  assumes "x \<in> set (upd_where P f rows)"
  obtains r where "r \<in> set rows" "P r" "x = f r" | "x \<in> set rows" "\<not> P x"
  using assms by (auto simp: upd_where_def split: if_splits)

lemma set_del_where [simp]: "set (del_where P rows) = {r \<in> set rows. \<not> P r}"
  by (auto simp: del_where_def)

lemma length_upd_where [simp]: "length (upd_where P f rows) = length rows"
  by (simp add: upd_where_def)

lemma length_del_where_le: "length (del_where P rows) \<le> length rows"
  by (simp add: del_where_def)

lemma length_del_where: "length (del_where P rows) + count_where P rows = length rows"
  using sum_length_filter_compl [of P rows] by (simp add: del_where_def count_where_def)

text \<open>A column that the update keeps.\<close>

lemma map_upd_where:
  assumes "\<And>r. P r \<Longrightarrow> col (f r) = col r"
  shows "map col (upd_where P f rows) = map col rows"
  using assms by (simp add: upd_where_def)

lemma distinct_map_filter': "distinct (map col rows) \<Longrightarrow> distinct (map col (filter P rows))"
  by (rule distinct_map_filter)

lemma distinct_del_where: "distinct (map col rows) \<Longrightarrow> distinct (map col (del_where P rows))"
  by (simp add: del_where_def distinct_map_filter)

lemma first_row_Some: "first_row rows = Some r \<Longrightarrow> r \<in> set rows"
  by (auto simp: first_row_def split: list.splits)

lemma first_row_None [simp]: "first_row rows = None \<longleftrightarrow> rows = []"
  by (auto simp: first_row_def split: list.splits)

lemma fetch_where_Some: "fetch_where P rows = Some r \<Longrightarrow> r \<in> set rows \<and> P r"
  using first_row_Some [of "filter P rows" r] by (simp add: fetch_where_def)

lemma fetch_where_None: "fetch_where P rows = None \<longleftrightarrow> (\<forall>r \<in> set rows. \<not> P r)"
  by (simp add: fetch_where_def filter_empty_conv)

lemma fetch_Cons: "fetch_where P (x # xs) = (if P x then Some x else fetch_where P xs)"
  by (simp add: fetch_where_def first_row_def)

lemma filter_upd_where_other:
  "(\<And>r. P r \<Longrightarrow> \<not> Q r \<and> \<not> Q (f r)) \<Longrightarrow> filter Q (upd_where P f rows) = filter Q rows"
  by (induction rows) (auto simp: upd_where_def)

text \<open>A key identifies its row.\<close>

lemma key_inj:
  assumes "distinct (map col rows)" "x \<in> set rows" "y \<in> set rows" "col x = col y"
  shows "x = y"
  using assms by (auto simp: distinct_map dest: inj_onD)

lemma filter_unique: "distinct rows \<Longrightarrow> x \<in> set rows \<Longrightarrow> (\<And>y. y \<in> set rows \<Longrightarrow> P y \<longleftrightarrow> y = x) \<Longrightarrow> filter P rows = [x]"
proof (induction rows)
  case (Cons a rows)
  show ?case
  proof (cases "a = x")
    case True
    have "filter P rows = []" using Cons.prems(1,3) True by (auto simp: filter_empty_conv)
    then show ?thesis using True Cons.prems(3) by simp
  next
    case False
    then have "\<not> P a" using Cons.prems(3) by simp
    then show ?thesis using Cons.IH Cons.prems False by simp
  qed
qed simp

lemma filter_key:
  assumes "distinct (map col rows)" "x \<in> set rows" "P x" "\<And>y. P y \<Longrightarrow> col y = col x"
  shows "filter P rows = [x]"
proof (rule filter_unique)
  show "distinct rows" using assms(1) by (simp add: distinct_map)
  show "P y \<longleftrightarrow> y = x" if "y \<in> set rows" for y
    using key_inj [OF assms(1) that assms(2)] assms(3,4) by blast
qed (rule assms(2))

lemma fetch_key:
  assumes "distinct (map col rows)" "x \<in> set rows"
  shows "fetch_where (\<lambda>r. col r = col x) rows = Some x"
  using filter_key [OF assms, of "\<lambda>r. col r = col x"] by (simp add: fetch_where_def first_row_def)

lemma count_key:
  assumes "distinct (map col rows)" "x \<in> set rows" "P x" "\<And>y. P y \<Longrightarrow> col y = col x"
  shows "count_where P rows = 1"
  unfolding count_where_def using filter_key [of col rows x P, OF assms] by simp

lemma count_where_0: "count_where P rows = 0 \<longleftrightarrow> (\<forall>r \<in> set rows. \<not> P r)"
  by (simp add: count_where_def filter_empty_conv)

lemma count_where_key_le1:
  assumes "distinct (map col xs)" "\<And>x. x \<in> set xs \<Longrightarrow> P x \<Longrightarrow> col x = k"
  shows "count_where P xs \<le> 1"
proof (cases "\<exists>x \<in> set xs. P x")
  case True
  then obtain x where x: "x \<in> set xs" "P x" by blast
  have "P y \<longleftrightarrow> y = x" if "y \<in> set xs" for y
    using key_inj [OF assms(1) that x(1)] assms(2) [OF that] assms(2) [OF x] x(2) by metis
  moreover have "distinct xs" using assms(1) by (simp add: distinct_map)
  ultimately have "filter P xs = [x]" using x(1) by (intro filter_unique)
  then show ?thesis by (simp add: count_where_def)
next
  case False
  then have "count_where P xs = 0" by (auto simp: count_where_0)
  then show ?thesis by simp
qed

lemma fetch_where_unique:
  assumes "x \<in> set xs" "P x" "\<And>y. y \<in> set xs \<Longrightarrow> P y \<Longrightarrow> y = x"
  shows "fetch_where P xs = Some x"
proof (cases "fetch_where P xs")
  case None
  then show ?thesis using assms(1,2) by (simp add: fetch_where_None)
next
  case (Some y)
  then have "y = x" using fetch_where_Some [OF Some] assms(3) by blast
  then show ?thesis using Some by simp
qed

lemma order_limit_subset: "set (order_limit key n rows) \<subseteq> set rows"
  unfolding order_limit_def by (metis set_sort set_take_subset)

lemma order_desc_limit_subset: "set (order_desc_limit key n rows) \<subseteq> set rows"
  unfolding order_desc_limit_def by (metis set_rev set_sort set_take_subset)

lemma order_limit_Nil: "order_limit key (Suc n) rows = [] \<longleftrightarrow> rows = []"
  by (metis length_sort list.size(3) order_limit_def length_0_conv take_eq_Nil nat.simps(3))

text \<open>The first row of an \<open>ORDER BY ... LIMIT 1\<close> is a least one.\<close>

lemma order_limit_first:
  assumes "first_row (order_limit key 1 rows) = Some r" "x \<in> set rows"
  shows "key r \<le> key x"
proof -
  obtain ys where ys: "sort_key key rows = r # ys"
    using assms(1) by (cases "sort_key key rows") (auto simp: order_limit_def first_row_def)
  have "sorted (map key (sort_key key rows))" by simp
  then have "\<forall>y \<in> set ys. key r \<le> key y" by (simp add: ys)
  moreover have "x \<in> set (r # ys)" using assms(2) ys by (metis set_sort)
  ultimately show ?thesis by auto
qed

end
