(* ===== verification/Job_Store.thy ===== *)
theory Job_Store
  imports Scan_Schemas Sql_Table
begin

text \<open>
  The durable scan-job repository, \<open>form/job_store.py\<close>: one queue head per job, a bounded event
  history, the target-operation leases, and the transactions on them. The state \<open>repo\<close> is the
  three tables; every method of \<open>ScanJobRepository\<close> that opens a transaction is a function from the
  state to a result (\<open>Inl\<close> rolls back).

  Parameters of the model, in \<open>job_config\<close>: the configured limits, \<open>payload_size\<close> (the UTF-8 length
  of \<open>model_dump_json\<close>) and \<open>token_hash\<close> (SHA-256 of the token). The value the token factory returns
  is an argument of the operation that draws it. A stored payload is the job value itself: reading
  it back is \<open>model_validate_json\<close>, that is \<open>validate_job\<close>.
\<close>

section \<open>State\<close>

record head =
  h_job_id :: string
  h_payload :: scan_job
  h_payload_bytes :: nat
  h_state :: scan_job_state
  h_target_id :: string
  h_created_at_us :: int
  h_updated_at_us :: int
  h_available_at_us :: "int option"
  h_attempt :: int
  h_max_attempts :: int
  h_revision :: nat
  h_lease_owner :: "string option"
  h_lease_token_hash :: "string option"
  h_lease_epoch :: nat
  h_lease_expires_at_us :: "int option"
  h_heartbeat_at_us :: "int option"
  h_idempotency_key :: "string option"
  h_request_fingerprint :: "string option"

record op_row =
  o_target_id :: string
  o_lease_owner :: string
  o_lease_token_hash :: string
  o_lease_expires_at_us :: int

record event_row =
  e_id :: nat
  e_job_id :: string
  e_revision :: nat
  e_state :: scan_job_state
  e_at_us :: int
  e_payload :: scan_job
  e_payload_bytes :: nat

record repo =
  heads :: "head list"
  target_ops :: "op_row list"
  events :: "event_row list"
  next_event_id :: nat

definition empty_repo :: repo where
  "empty_repo = \<lparr>heads = [], target_ops = [], events = [], next_event_id = 1\<rparr>"

record job_config =
  max_record_bytes :: nat
  max_jobs :: nat
  max_history :: nat
  payload_size :: "scan_job \<Rightarrow> nat"
  token_hash :: "string \<Rightarrow> string"

record claimed_scan_job =
  cl_job :: scan_job
  cl_lease_token :: string
  cl_lease_epoch :: nat
  cl_lease_owner :: string
  cl_lease_expires_at :: datetime

record target_operation_lease =
  tl_target_id :: string
  tl_lease_token :: string
  tl_lease_owner :: string
  tl_lease_expires_at :: datetime

definition TERMINAL :: "scan_job_state set" where "TERMINAL = {SUCCEEDED, FAILED, CANCELLED}"
definition ACTIVE :: "scan_job_state set" where "ACTIVE = {RUNNING, CANCELLING}"

text \<open>SQL comparison with a nullable column: \<open>NULL\<close> never satisfies it.\<close>

definition sql_gt :: "int option \<Rightarrow> int \<Rightarrow> bool" where
  "sql_gt c n = (case c of None \<Rightarrow> False | Some v \<Rightarrow> n < v)"

definition null_or_le :: "int option \<Rightarrow> int \<Rightarrow> bool" where
  "null_or_le c n = (case c of None \<Rightarrow> True | Some v \<Rightarrow> v \<le> n)"

definition live_head :: "int \<Rightarrow> head \<Rightarrow> bool" where
  "live_head t h = (h_state h \<in> ACTIVE \<and> sql_gt (h_lease_expires_at_us h) t)"

section \<open>Encoding, events and capacity\<close>

definition encode :: "job_config \<Rightarrow> scan_job \<Rightarrow> (scan_job \<times> nat) result" where
  "encode c j =
     rbind (validate_job j) (\<lambda>v. let n = payload_size c v in
       if max_record_bytes c \<noteq> 0 \<and> max_record_bytes c < n then Inl StorageCapacityError else Inr (v, n))"

definition event :: "job_config \<Rightarrow> scan_job \<Rightarrow> nat \<Rightarrow> datetime \<Rightarrow> nat \<Rightarrow> repo \<Rightarrow> repo result" where
  "event c j rno when n r =
     (if \<exists>e \<in> set (events r). e_job_id e = job_id j \<and> e_revision e = rno then Inl IntegrityError
      else
        let row = \<lparr>e_id = next_event_id r, e_job_id = job_id j, e_revision = rno, e_state = state j,
                   e_at_us = micros when, e_payload = j, e_payload_bytes = n\<rparr>;
            evs = events r @ [row];
            overflow = length evs - max_history c;
            old = map e_id (order_limit e_id overflow evs);
            kept = (if max_history c \<noteq> 0 then del_where (\<lambda>e. e_id e \<in> set old) evs else evs) in
        Inr (r\<lparr>events := kept, next_event_id := Suc (next_event_id r)\<rparr>))"

definition make_room_for_job :: "job_config \<Rightarrow> repo \<Rightarrow> repo result" where
  "make_room_for_job c r =
     (if max_jobs c = 0 \<or> length (heads r) < max_jobs c then Inr r
      else
        let low_water = max_jobs c - max 1 (max_jobs c div 10);
            remove = length (heads r) - low_water;
            rows = order_limit (\<lambda>h. (h_updated_at_us h, h_job_id h)) remove
                     (filter (\<lambda>h. h_state h \<in> TERMINAL) (heads r)) in
        if rows = [] then Inl StorageCapacityError
        else Inr (r\<lparr>heads := del_where (\<lambda>h. h_job_id h \<in> set (map h_job_id rows)) (heads r)\<rparr>))"

section \<open>Creation and reads\<close>

definition new_head :: "scan_job \<Rightarrow> nat \<Rightarrow> string option \<Rightarrow> string option \<Rightarrow> head" where
  "new_head j n key fp =
     \<lparr>h_job_id = job_id j, h_payload = j, h_payload_bytes = n, h_state = state j, h_target_id = target_id j,
      h_created_at_us = micros (created_at j),
      h_updated_at_us = micros (case updated_at j of None \<Rightarrow> created_at j | Some u \<Rightarrow> u),
      h_available_at_us = map_option micros (available_at j),
      h_attempt = attempt j, h_max_attempts = max_attempts j, h_revision = 0,
      h_lease_owner = None, h_lease_token_hash = None, h_lease_epoch = 0, h_lease_expires_at_us = None,
      h_heartbeat_at_us = None, h_idempotency_key = key, h_request_fingerprint = fp\<rparr>"

definition check_key :: "string option \<Rightarrow> string option \<Rightarrow> string option result" where
  "check_key key fp =
     (case key of None \<Rightarrow> Inr None
      | Some k \<Rightarrow> let s = strip k in
          if s = [] \<or> 256 < length s then Inl ValueError
          else if fp = None \<or> fp = Some [] then Inl ValueError
          else Inr (Some s))"

definition create :: "job_config \<Rightarrow> scan_job \<Rightarrow> string option \<Rightarrow> string option \<Rightarrow> repo
    \<Rightarrow> (repo \<times> scan_job \<times> bool) result" where
  "create c job0 key0 fp r =
     rbind (encode c job0) (\<lambda>(j, n).
     rbind (check_key key0 fp) (\<lambda>key.
       case (case key of None \<Rightarrow> None
             | Some k \<Rightarrow> fetch_where (\<lambda>h. h_idempotency_key h = Some k) (heads r)) of
         Some existing \<Rightarrow>
           if h_request_fingerprint existing \<noteq> fp then Inl JobConflictError
           else rbind (validate_job (h_payload existing)) (\<lambda>old. Inr (r, old, False))
       | None \<Rightarrow>
           if \<exists>h \<in> set (heads r). h_job_id h = job_id j then Inl JobConflictError
           else rbind (make_room_for_job c r) (\<lambda>r1.
                rbind (event c j 0 (case updated_at j of None \<Rightarrow> created_at j | Some u \<Rightarrow> u) n
                        (r1\<lparr>heads := heads r1 @ [new_head j n key fp]\<rparr>)) (\<lambda>r2.
                Inr (r2, j, True)))))"

definition get_job :: "repo \<Rightarrow> string \<Rightarrow> scan_job option result" where
  "get_job r jid =
     (case fetch_where (\<lambda>h. h_job_id h = jid) (heads r) of None \<Rightarrow> Inr None
      | Some h \<Rightarrow> rbind (validate_job (h_payload h)) (\<lambda>j. Inr (Some j)))"

definition list_jobs :: "repo \<Rightarrow> int \<Rightarrow> scan_job_state list \<Rightarrow> scan_job list result" where
  "list_jobs r limit states =
     (if limit \<le> 0 then Inr []
      else
        let rows = (if states \<noteq> [] then filter (\<lambda>h. h_state h \<in> set states) (heads r) else heads r) in
        rmap_list (\<lambda>h. validate_job (h_payload h))
          (order_desc_limit (\<lambda>h. (h_created_at_us h, h_job_id h)) (nat limit) rows))"

definition derived_incomplete :: "scan_job \<Rightarrow> bool" where
  "derived_incomplete j = (case result j of None \<Rightarrow> False
     | Some res \<Rightarrow> derived_state res \<in> {Some D_PENDING, Some D_PROCESSING})"

definition list_derived_incomplete :: "repo \<Rightarrow> int \<Rightarrow> scan_job list result" where
  "list_derived_incomplete r limit =
     (if limit \<le> 0 then Inr []
      else rmap_list (\<lambda>h. validate_job (h_payload h))
          (order_limit (\<lambda>h. (h_updated_at_us h, h_job_id h)) (nat limit)
            (filter (\<lambda>h. h_state h = SUCCEEDED \<and> derived_incomplete (h_payload h)) (heads r))))"

definition history :: "repo \<Rightarrow> string \<Rightarrow> int \<Rightarrow> scan_job list result" where
  "history r jid limit =
     rmap_list (\<lambda>e. validate_job (e_payload e))
       (order_desc_limit e_revision (nat (max 0 limit)) (filter (\<lambda>e. e_job_id e = jid) (events r)))"

definition fingerprint :: "repo \<Rightarrow> nat \<times> nat" where
  "fingerprint r = (length (heads r), sum_list (map h_revision (heads r)))"

definition retains_artifact :: "repo \<Rightarrow> string \<Rightarrow> bool" where
  "retains_artifact r jid = (case fetch_where (\<lambda>h. h_job_id h = jid) (heads r) of None \<Rightarrow> False
     | Some h \<Rightarrow> h_state h \<in> {PENDING, RETRYING, RUNNING, CANCELLING})"

section \<open>Derived results\<close>

definition derived_detail :: "scan_capability \<Rightarrow> derived_state \<Rightarrow> string option \<Rightarrow> string" where
  "derived_detail cap st reason =
     (let subject = (if cap = HOST then ''detection'' else ''correlation'');
          prefix = ''artifact stored; Analyzer '' @ subject in
      case st of
        D_COMPLETE \<Rightarrow> prefix @ '' is complete''
      | D_PARTIAL \<Rightarrow> prefix @ '' is partial'' @
          (case reason of None \<Rightarrow> [] | Some x \<Rightarrow> if x = [] then [] else '' ('' @ x @ '')'')
      | D_PROCESSING \<Rightarrow> prefix @ '' is processing''
      | D_PENDING \<Rightarrow> prefix @ '' is queued'')"

definition update_derived_result :: "job_config \<Rightarrow> string \<Rightarrow> derived_state \<Rightarrow> int \<Rightarrow> bool \<Rightarrow> string option
    \<Rightarrow> int \<Rightarrow> datetime \<Rightarrow> repo \<Rightarrow> (repo \<times> scan_job option) result" where
  "update_derived_result c jid st records truncated reason attempts now r =
     (case fetch_where (\<lambda>h. h_job_id h = jid) (heads r) of
        None \<Rightarrow> Inr (r, None)
      | Some row \<Rightarrow>
          rbind (validate_job (h_payload row)) (\<lambda>j.
          case result j of
            None \<Rightarrow> Inr (r, Some j)
          | Some res \<Rightarrow>
            if state j \<noteq> SUCCEEDED \<or> derived_state res \<notin> {Some D_PENDING, Some D_PROCESSING} then Inr (r, Some j)
            else
              let res1 = res\<lparr>derived_state := Some st, derived_records := max 0 records,
                     derived_truncated := truncated, derived_reason := reason,
                     derived_attempts := max 0 attempts, derived_updated_at := Some now,
                     detail := Some (derived_detail (capability j) st reason)\<rparr> in
              rbind (encode c (j\<lparr>result := Some res1, updated_at := Some now\<rparr>)) (\<lambda>(j1, n).
                let rev = Suc (h_revision row);
                    sel = (\<lambda>h. h_job_id h = jid \<and> h_revision h = h_revision row \<and> h_state h = SUCCEEDED);
                    upd = (\<lambda>h. h\<lparr>h_payload := j1, h_payload_bytes := n, h_updated_at_us := micros now,
                             h_revision := rev\<rparr>) in
                if count_where sel (heads r) \<noteq> 1 then Inl JobConflictError
                else rbind (event c j1 rev now n (r\<lparr>heads := upd_where sel upd (heads r)\<rparr>)) (\<lambda>r1.
                     Inr (r1, Some j1)))))"

section \<open>Claiming\<close>

definition clear_lease :: "head \<Rightarrow> head" where
  "clear_lease h = h\<lparr>h_lease_owner := None, h_lease_token_hash := None, h_lease_expires_at_us := None,
     h_heartbeat_at_us := None\<rparr>"

definition exhausted_head :: "int \<Rightarrow> head \<Rightarrow> bool" where
  "exhausted_head t h = (h_max_attempts h \<le> h_attempt h \<and> h_state h \<in> {PENDING, RETRYING}
     \<and> null_or_le (h_available_at_us h) t)"

definition fail_job :: "datetime \<Rightarrow> scan_job \<Rightarrow> scan_job" where
  "fail_job now j = j\<lparr>state := FAILED, job_error := Some ''scan exhausted its configured execution attempts'',
     available_at := None, finished_at := Some now, updated_at := Some now\<rparr>"

definition fail_row :: "job_config \<Rightarrow> datetime \<Rightarrow> head \<Rightarrow> repo \<Rightarrow> repo result" where
  "fail_row c now row r =
     rbind (validate_job (h_payload row)) (\<lambda>j.
     rbind (encode c (fail_job now j)) (\<lambda>(j1, n).
       let rev = Suc (h_revision row);
           sel = (\<lambda>h. h_job_id h = job_id j1 \<and> h_revision h = h_revision row);
           upd = (\<lambda>h. clear_lease (h\<lparr>h_payload := j1, h_payload_bytes := n, h_state := state j1,
                    h_updated_at_us := micros now, h_available_at_us := None, h_revision := rev\<rparr>)) in
       event c j1 rev now n (r\<lparr>heads := upd_where sel upd (heads r)\<rparr>)))"

fun fail_rows :: "job_config \<Rightarrow> datetime \<Rightarrow> head list \<Rightarrow> repo \<Rightarrow> repo result" where
  "fail_rows c now [] r = Inr r"
| "fail_rows c now (row # rows) r = rbind (fail_row c now row r) (fail_rows c now rows)"

definition fail_exhausted :: "job_config \<Rightarrow> datetime \<Rightarrow> repo \<Rightarrow> repo result" where
  "fail_exhausted c now r = fail_rows c now (filter (exhausted_head (micros now)) (heads r)) r"

definition claimable :: "int \<Rightarrow> head \<Rightarrow> bool" where
  "claimable t h =
     ((h_state h \<in> {PENDING, RETRYING} \<and> h_attempt h < h_max_attempts h \<and> null_or_le (h_available_at_us h) t)
      \<or> (h_state h = RUNNING \<and> null_or_le (h_lease_expires_at_us h) t)
      \<or> (h_state h = CANCELLING \<and> null_or_le (h_lease_expires_at_us h) t))"

definition target_busy :: "int \<Rightarrow> repo \<Rightarrow> head \<Rightarrow> bool" where
  "target_busy t r h =
     ((\<exists>a \<in> set (heads r). h_target_id a = h_target_id h \<and> h_job_id a \<noteq> h_job_id h \<and> live_head t a)
      \<or> (\<exists>d \<in> set (target_ops r). o_target_id d = h_target_id h \<and> t < o_lease_expires_at_us d))"

definition claim_rank :: "scan_job_state \<Rightarrow> int" where
  "claim_rank s = (case s of CANCELLING \<Rightarrow> 0 | RUNNING \<Rightarrow> 1 | _ \<Rightarrow> 2)"

definition claim_key :: "head \<Rightarrow> int \<times> int \<times> int \<times> string" where
  "claim_key h = (claim_rank (h_state h),
     (case h_available_at_us h of None \<Rightarrow> h_created_at_us h | Some a \<Rightarrow> a), h_created_at_us h, h_job_id h)"

definition claim_candidates :: "int \<Rightarrow> string list \<Rightarrow> repo \<Rightarrow> head list" where
  "claim_candidates t excl r =
     filter (\<lambda>h. claimable t h \<and> \<not> target_busy t r h \<and> h_job_id h \<notin> set excl) (heads r)"

definition claim_job :: "datetime \<Rightarrow> scan_job \<Rightarrow> scan_job" where
  "claim_job now j =
     (if state j \<noteq> CANCELLING
      then
        let reconciliation_only = (state j = RUNNING \<and> max_attempts j \<le> attempt j) in
        j\<lparr>state := RUNNING,
          attempt := (if reconciliation_only then max_attempts j + 1 else attempt j + 1),
          started_at := (case started_at j of None \<Rightarrow> Some now | Some s \<Rightarrow> Some s),
          available_at := None, job_error := None, updated_at := Some now\<rparr>
      else j\<lparr>updated_at := Some now\<rparr>)"

definition expire_ops :: "int \<Rightarrow> repo \<Rightarrow> repo" where
  "expire_ops t r = r\<lparr>target_ops := del_where (\<lambda>d. o_lease_expires_at_us d \<le> t) (target_ops r)\<rparr>"

definition claim_row :: "job_config \<Rightarrow> string \<Rightarrow> datetime \<Rightarrow> timedelta \<Rightarrow> string \<Rightarrow> head \<Rightarrow> repo
    \<Rightarrow> (repo \<times> claimed_scan_job option) result" where
  "claim_row c worker now ttl token row r =
     rbind (validate_job (h_payload row)) (\<lambda>j.
     rbind (encode c (claim_job now j)) (\<lambda>(j1, n).
       if token = [] then Inl RuntimeError
       else
         let epoch = Suc (h_lease_epoch row); rev = Suc (h_revision row); expires = now + ttl;
             sel = (\<lambda>h. h_job_id h = job_id j1 \<and> h_revision h = h_revision row);
             upd = (\<lambda>h. h\<lparr>h_payload := j1, h_payload_bytes := n, h_state := state j1,
                      h_updated_at_us := micros now, h_available_at_us := map_option micros (available_at j1),
                      h_attempt := attempt j1, h_max_attempts := max_attempts j1, h_revision := rev,
                      h_lease_owner := Some worker, h_lease_token_hash := Some (token_hash c token),
                      h_lease_epoch := epoch, h_lease_expires_at_us := Some (micros expires),
                      h_heartbeat_at_us := Some (micros now)\<rparr>) in
         if count_where sel (heads r) \<noteq> 1 then Inr (r\<lparr>heads := upd_where sel upd (heads r)\<rparr>, None)
         else rbind (event c j1 rev now n (r\<lparr>heads := upd_where sel upd (heads r)\<rparr>)) (\<lambda>r1.
              Inr (r1, Some \<lparr>cl_job = j1, cl_lease_token = token, cl_lease_epoch = epoch,
                             cl_lease_owner = worker, cl_lease_expires_at = expires\<rparr>))))"

definition claim_next :: "job_config \<Rightarrow> string \<Rightarrow> datetime \<Rightarrow> timedelta \<Rightarrow> int \<Rightarrow> string list \<Rightarrow> string \<Rightarrow> repo
    \<Rightarrow> (repo \<times> claimed_scan_job option) result" where
  "claim_next c worker now ttl max_running excl token r =
     (if worker = [] \<or> max_running \<le> 0 \<or> ttl \<le> 0 then Inl ValueError
      else
        rbind (fail_exhausted c now r) (\<lambda>r0.
          let t = micros now; r1 = expire_ops t r0 in
          if max_running \<le> int (count_where (live_head t) (heads r1)) then Inr (r1, None)
          else case first_row (order_limit claim_key 1 (claim_candidates t excl r1)) of
              None \<Rightarrow> Inr (r1, None)
            | Some row \<Rightarrow> claim_row c worker now ttl token row r1))"

section \<open>Target operations\<close>

definition acquire_target_operation :: "job_config \<Rightarrow> string \<Rightarrow> string \<Rightarrow> datetime \<Rightarrow> timedelta \<Rightarrow> string \<Rightarrow> repo
    \<Rightarrow> (repo \<times> target_operation_lease option) result" where
  "acquire_target_operation c target0 owner0 now ttl token r =
     (let tid = strip target0; owner = strip owner0; t = micros now; expires = now + ttl in
      if tid = [] \<or> owner = [] \<or> ttl \<le> 0 then Inl ValueError
      else if 256 < length owner then Inl ValueError
      else
        let r1 = expire_ops t r in
        if \<exists>h \<in> set (heads r1). h_target_id h = tid \<and> live_head t h then Inr (r1, None)
        else if token = [] then Inl RuntimeError
        else if \<exists>d \<in> set (target_ops r1). o_target_id d = tid then Inr (r1, None)
        else
          let row = \<lparr>o_target_id = tid, o_lease_owner = owner, o_lease_token_hash = token_hash c token,
                     o_lease_expires_at_us = micros expires\<rparr>;
              sel = (\<lambda>h. h_target_id h = tid \<and> h_state h \<in> ACTIVE \<and> null_or_le (h_lease_expires_at_us h) t);
              upd = (\<lambda>h. clear_lease (h\<lparr>h_lease_epoch := Suc (h_lease_epoch h)\<rparr>)) in
          Inr (r1\<lparr>target_ops := target_ops r1 @ [row], heads := upd_where sel upd (heads r1)\<rparr>,
               Some \<lparr>tl_target_id = tid, tl_lease_token = token, tl_lease_owner = owner,
                     tl_lease_expires_at = expires\<rparr>))"

definition op_matches :: "job_config \<Rightarrow> target_operation_lease \<Rightarrow> op_row \<Rightarrow> bool" where
  "op_matches c l d = (o_target_id d = tl_target_id l \<and> o_lease_owner d = tl_lease_owner l
     \<and> o_lease_token_hash d = token_hash c (tl_lease_token l))"

definition release_target_operation :: "job_config \<Rightarrow> target_operation_lease \<Rightarrow> repo \<Rightarrow> repo result" where
  "release_target_operation c l r =
     (if count_where (op_matches c l) (target_ops r) \<noteq> 1 then Inl LeaseLostError
      else Inr (r\<lparr>target_ops := del_where (op_matches c l) (target_ops r)\<rparr>))"

definition renew_target_operation :: "job_config \<Rightarrow> target_operation_lease \<Rightarrow> datetime \<Rightarrow> timedelta \<Rightarrow> repo
    \<Rightarrow> (repo \<times> target_operation_lease) result" where
  "renew_target_operation c l now ttl r =
     (if ttl \<le> 0 then Inl ValueError
      else
        let expires = now + ttl;
            sel = (\<lambda>d. op_matches c l d \<and> micros now < o_lease_expires_at_us d);
            upd = (\<lambda>d. d\<lparr>o_lease_expires_at_us := micros expires\<rparr>) in
        if count_where sel (target_ops r) \<noteq> 1 then Inl LeaseLostError
        else Inr (r\<lparr>target_ops := upd_where sel upd (target_ops r)\<rparr>, l\<lparr>tl_lease_expires_at := expires\<rparr>))"

section \<open>Leased operations\<close>

definition lease_matches :: "job_config \<Rightarrow> claimed_scan_job \<Rightarrow> head \<Rightarrow> bool" where
  "lease_matches c k h = (h_job_id h = job_id (cl_job k) \<and> h_lease_owner h = Some (cl_lease_owner k)
     \<and> h_lease_token_hash h = Some (token_hash c (cl_lease_token k)) \<and> h_lease_epoch h = cl_lease_epoch k)"

definition leased_row :: "job_config \<Rightarrow> claimed_scan_job \<Rightarrow> datetime \<Rightarrow> repo \<Rightarrow> head result" where
  "leased_row c k now r =
     (let t = micros now in
      case fetch_where (\<lambda>h. lease_matches c k h \<and> live_head t h \<and> null_or_le (h_heartbeat_at_us h) t
              \<and> \<not> (\<exists>d \<in> set (target_ops r). o_target_id d = h_target_id h \<and> t < o_lease_expires_at_us d))
            (heads r) of
        None \<Rightarrow> Inl LeaseLostError
      | Some h \<Rightarrow> Inr h)"

definition renew :: "job_config \<Rightarrow> claimed_scan_job \<Rightarrow> datetime \<Rightarrow> timedelta \<Rightarrow> repo
    \<Rightarrow> (repo \<times> claimed_scan_job) result" where
  "renew c k now ttl r =
     (if ttl \<le> 0 then Inl ValueError
      else
        rbind (leased_row c k now r) (\<lambda>row.
          let expires = now + ttl;
              upd = (\<lambda>h. h\<lparr>h_lease_expires_at_us := Some (micros expires), h_heartbeat_at_us := Some (micros now)\<rparr>) in
          if count_where (lease_matches c k) (heads r) \<noteq> 1 then Inl LeaseLostError
          else rbind (validate_job (h_payload row)) (\<lambda>j.
            Inr (r\<lparr>heads := upd_where (lease_matches c k) upd (heads r)\<rparr>,
                 k\<lparr>cl_job := j, cl_lease_expires_at := expires\<rparr>))))"

definition cancellation_terminal :: "scan_job \<Rightarrow> bool" where
  "cancellation_terminal j = (state j \<in> {CANCELLED, FAILED})"

definition acknowledged_result :: "scan_job \<Rightarrow> bool" where
  "acknowledged_result j = (state j = SUCCEEDED \<and> result j \<noteq> None \<and> capability j \<noteq> GUARD)"

definition complete :: "job_config \<Rightarrow> claimed_scan_job \<Rightarrow> scan_job \<Rightarrow> datetime \<Rightarrow> repo
    \<Rightarrow> (repo \<times> scan_job) result" where
  "complete c k updated_job operation_at r =
     rbind (encode c updated_job) (\<lambda>(j, n).
       if job_id j \<noteq> job_id (cl_job k) then Inl ValueError
       else if state j \<in> {PENDING, RUNNING, CANCELLING} then Inl ValueError
       else
         let when = (case updated_at j of None \<Rightarrow> operation_at | Some u \<Rightarrow> u) in
         rbind (leased_row c k operation_at r) (\<lambda>row.
           if h_state row = CANCELLING \<and> \<not> cancellation_terminal j \<and> \<not> acknowledged_result j
           then Inl LeaseLostError
           else
             let rev = Suc (h_revision row);
                 sel = (\<lambda>h. h_job_id h = job_id j \<and> h_lease_token_hash h = Some (token_hash c (cl_lease_token k))
                          \<and> h_lease_epoch h = cl_lease_epoch k);
                 upd = (\<lambda>h. clear_lease (h\<lparr>h_payload := j, h_payload_bytes := n, h_state := state j,
                          h_updated_at_us := micros when, h_available_at_us := map_option micros (available_at j),
                          h_attempt := attempt j, h_max_attempts := max_attempts j, h_revision := rev\<rparr>)) in
             rbind (event c j rev when n (r\<lparr>heads := upd_where sel upd (heads r)\<rparr>)) (\<lambda>r1. Inr (r1, j))))"

section \<open>Operator actions and import\<close>

definition cancel_job :: "datetime \<Rightarrow> scan_job \<Rightarrow> scan_job" where
  "cancel_job now j0 =
     (let j = j0\<lparr>cancel_requested_at := Some now, updated_at := Some now\<rparr> in
      if state j \<in> {PENDING, RETRYING}
      then j\<lparr>state := CANCELLED, finished_at := Some now, available_at := None,
             job_error := Some ''scan cancelled by operator''\<rparr>
      else j\<lparr>state := CANCELLING\<rparr>)"

definition request_cancel :: "job_config \<Rightarrow> string \<Rightarrow> datetime \<Rightarrow> repo \<Rightarrow> (repo \<times> scan_job) result" where
  "request_cancel c jid now r =
     (case fetch_where (\<lambda>h. h_job_id h = jid) (heads r) of
        None \<Rightarrow> Inl JobNotFoundError
      | Some row \<Rightarrow>
          rbind (validate_job (h_payload row)) (\<lambda>j.
          if state j \<in> {SUCCEEDED, FAILED, CANCELLED, CANCELLING} then Inr (r, j)
          else rbind (encode c (cancel_job now j)) (\<lambda>(j1, n).
            let rev = Suc (h_revision row);
                sel = (\<lambda>h. h_job_id h = jid \<and> h_revision h = h_revision row);
                upd = (\<lambda>h. h\<lparr>h_payload := j1, h_payload_bytes := n, h_state := state j1,
                         h_updated_at_us := micros now,
                         h_available_at_us := map_option micros (available_at j1), h_revision := rev\<rparr>) in
            rbind (event c j1 rev now n (r\<lparr>heads := upd_where sel upd (heads r)\<rparr>)) (\<lambda>r1. Inr (r1, j1)))))"

definition retry_job :: "datetime \<Rightarrow> scan_job \<Rightarrow> scan_job" where
  "retry_job now j = j\<lparr>state := PENDING, attempt := 0, available_at := Some now, updated_at := Some now,
     started_at := None, finished_at := None, cancel_requested_at := None, result := None, job_error := None\<rparr>"

definition manual_retry :: "job_config \<Rightarrow> string \<Rightarrow> datetime \<Rightarrow> repo \<Rightarrow> (repo \<times> scan_job) result" where
  "manual_retry c jid now r =
     (case fetch_where (\<lambda>h. h_job_id h = jid) (heads r) of
        None \<Rightarrow> Inl JobNotFoundError
      | Some row \<Rightarrow>
          rbind (validate_job (h_payload row)) (\<lambda>j.
          if state j \<notin> {FAILED, CANCELLED} then Inl JobConflictError
          else rbind (encode c (retry_job now j)) (\<lambda>(j1, n).
            let rev = Suc (h_revision row);
                sel = (\<lambda>h. h_job_id h = jid \<and> h_revision h = h_revision row);
                upd = (\<lambda>h. clear_lease (h\<lparr>h_payload := j1, h_payload_bytes := n, h_state := state j1,
                         h_updated_at_us := micros now,
                         h_available_at_us := map_option micros (available_at j1),
                         h_attempt := attempt j1, h_revision := rev\<rparr>)) in
            rbind (event c j1 rev now n (r\<lparr>heads := upd_where sel upd (heads r)\<rparr>)) (\<lambda>r1. Inr (r1, j1)))))"

text \<open>Each legacy value is what \<open>ScanJob.model_validate\<close> gives for it. The import commits job by
  job: an exception of \<open>create\<close> other than \<open>JobConflictError\<close> ends it and keeps what it wrote.\<close>

definition legacy_job :: "datetime \<Rightarrow> scan_job \<Rightarrow> scan_job" where
  "legacy_job now j = (if state j \<in> {RUNNING, CANCELLING}
     then j\<lparr>state := FAILED, job_error := Some ''legacy Form stopped while this job was in-flight'',
            finished_at := Some now, available_at := None, updated_at := Some now\<rparr>
     else j)"

fun import_legacy :: "job_config \<Rightarrow> datetime \<Rightarrow> scan_job result list \<Rightarrow> repo \<Rightarrow> nat \<Rightarrow> repo \<times> nat result" where
  "import_legacy c now [] r imported = (r, Inr imported)"
| "import_legacy c now (Inl _ # vs) r imported = import_legacy c now vs r imported"
| "import_legacy c now (Inr j # vs) r imported =
     (case get_job r (job_id j) of
        Inl e \<Rightarrow> (r, Inl e)
      | Inr (Some _) \<Rightarrow> import_legacy c now vs r imported
      | Inr None \<Rightarrow>
          (case create c (legacy_job now j) None None r of
             Inl e \<Rightarrow> if e = JobConflictError then import_legacy c now vs r imported else (r, Inl e)
           | Inr (r1, _, created) \<Rightarrow> import_legacy c now vs r1 (if created then Suc imported else imported)))"

end
