(* ===== verification/Job_Lifecycle.thy ===== *)
theory Job_Lifecycle
  imports Job_Store
begin

text \<open>
  What every transaction of the job repository does to a queue head, as a step relation:
  \<open>head_step c t h h'\<close> is one lifecycle step of one head at the clock reading \<open>t\<close> (or no change).
  Each operation is shown to move the heads of a well-formed repository by \<open>head_step\<close>
  (\<open>list_all2\<close>, or after \<open>create\<close> with evicted terminal rows and one new row), so that the
  invariants of the repository are rule inductions over the relation.
\<close>

section \<open>Well-formed heads\<close>

definition no_lease :: "head \<Rightarrow> bool" where
  "no_lease h = (h_lease_owner h = None \<and> h_lease_token_hash h = None \<and> h_lease_expires_at_us h = None
     \<and> h_heartbeat_at_us h = None)"

definition full_lease :: "head \<Rightarrow> bool" where
  "full_lease h = (h_lease_owner h \<noteq> None \<and> h_lease_token_hash h \<noteq> None \<and> h_lease_expires_at_us h \<noteq> None
     \<and> h_heartbeat_at_us h \<noteq> None)"

text \<open>The payload is a validated job, the columns repeat it, and a lease is complete or absent; only an
  executing job carries one.\<close>

definition head_ok :: "job_config \<Rightarrow> head \<Rightarrow> bool" where
  "head_ok c h =
     (let p = h_payload h in
      validate_job p = Inr p \<and> h_job_id h = job_id p \<and> h_state h = state p
      \<and> h_attempt h = attempt p \<and> h_max_attempts h = max_attempts p
      \<and> Some (h_updated_at_us h) = map_option micros (updated_at p)
      \<and> h_available_at_us h = map_option micros (available_at p)
      \<and> h_payload_bytes h = payload_size c p
      \<and> (max_record_bytes c \<noteq> 0 \<longrightarrow> h_payload_bytes h \<le> max_record_bytes c)
      \<and> (no_lease h \<or> (full_lease h \<and> h_state h \<in> ACTIVE)))"

lemma head_okD:
  assumes "head_ok c h"
  shows "validate_job (h_payload h) = Inr (h_payload h)" "h_job_id h = job_id (h_payload h)"
    "h_state h = state (h_payload h)" "h_attempt h = attempt (h_payload h)"
    "h_max_attempts h = max_attempts (h_payload h)"
    "Some (h_updated_at_us h) = map_option micros (updated_at (h_payload h))"
    "h_available_at_us h = map_option micros (available_at (h_payload h))"
    "no_lease h \<or> (full_lease h \<and> h_state h \<in> ACTIVE)"
    "h_payload_bytes h = payload_size c (h_payload h)"
    "max_record_bytes c \<noteq> 0 \<longrightarrow> h_payload_bytes h \<le> max_record_bytes c"
  using assms unfolding head_ok_def Let_def by blast+

lemma clear_lease_no_lease [simp]: "no_lease (clear_lease h)"
  by (simp add: no_lease_def clear_lease_def)

lemma clear_lease_fields [simp]:
  "h_job_id (clear_lease h) = h_job_id h" "h_payload (clear_lease h) = h_payload h"
  "h_payload_bytes (clear_lease h) = h_payload_bytes h"
  "h_state (clear_lease h) = h_state h" "h_target_id (clear_lease h) = h_target_id h"
  "h_created_at_us (clear_lease h) = h_created_at_us h" "h_updated_at_us (clear_lease h) = h_updated_at_us h"
  "h_available_at_us (clear_lease h) = h_available_at_us h" "h_attempt (clear_lease h) = h_attempt h"
  "h_max_attempts (clear_lease h) = h_max_attempts h" "h_revision (clear_lease h) = h_revision h"
  "h_lease_epoch (clear_lease h) = h_lease_epoch h" "h_idempotency_key (clear_lease h) = h_idempotency_key h"
  "h_request_fingerprint (clear_lease h) = h_request_fingerprint h"
  "h_lease_expires_at_us (clear_lease h) = None"
  "h_lease_token_hash (clear_lease h) = None"
  by (simp_all add: clear_lease_def)

lemma encodeD:
  assumes "encode c j = Inr (v, n)"
  shows "validate_job j = Inr v" "validate_job v = Inr v" "n = payload_size c v"
    "max_record_bytes c \<noteq> 0 \<longrightarrow> n \<le> max_record_bytes c"
  using assms validate_job_idem by (auto simp: encode_def Let_def split: if_splits)

text \<open>The identity of a job and the terminal states of a stored payload survive validation.\<close>

lemma validate_job_same:
  assumes "validate_job p = Inr p" "validate_job j = Inr v" "job_id j = job_id p"
  shows "job_id v = job_id p"
proof -
  have "job_id p = strip (job_id p)" using validate_job_fields(8) [OF assms(1)] .
  then show ?thesis using validate_job_fields(8) [OF assms(2)] assms(3) by simp
qed

lemma validate_job_times:
  assumes "validate_job j = Inr v"
  shows "updated_at j = Some u \<Longrightarrow> updated_at v = Some u"
    "state j \<notin> {PENDING, RETRYING} \<or> available_at j \<noteq> None \<Longrightarrow> available_at v = available_at j"
  using assms by (auto elim!: validate_jobE simp: derive_mode_eq)

section \<open>Lifecycle steps\<close>

text \<open>What an update that bumps the revision keeps.\<close>

definition moved :: "head \<Rightarrow> head \<Rightarrow> bool" where
  "moved h h' = (h_job_id h' = h_job_id h \<and> h_target_id h' = h_target_id h \<and> h_created_at_us h' = h_created_at_us h
     \<and> h_idempotency_key h' = h_idempotency_key h \<and> h_request_fingerprint h' = h_request_fingerprint h
     \<and> h_revision h' = Suc (h_revision h))"

definition kept :: "head \<Rightarrow> head \<Rightarrow> bool" where
  "kept h h' = (\<exists>ow th ep ex hb. h' = h\<lparr>h_lease_owner := ow, h_lease_token_hash := th, h_lease_epoch := ep,
     h_lease_expires_at_us := ex, h_heartbeat_at_us := hb\<rparr>)"

inductive head_step :: "job_config \<Rightarrow> int \<Rightarrow> head \<Rightarrow> head \<Rightarrow> bool" for c t where
  same: "head_step c t h h"
| fail: "head_step c t h h'"
    if "exhausted_head t h" "moved h h'" "head_ok c h'" "h_state h' = FAILED" "no_lease h'"
      "h_lease_epoch h' = h_lease_epoch h"
| claim: "head_step c t h h'"
    if "claimable t h" "moved h h'" "head_ok c h'" "h_lease_epoch h' = Suc (h_lease_epoch h)" "full_lease h'"
      "h_state h' = (if h_state h = CANCELLING then CANCELLING else RUNNING)"
| fence: "head_step c t h h'"
    if "h_state h \<in> ACTIVE" "null_or_le (h_lease_expires_at_us h) t" "kept h h'" "no_lease h'"
      "h_lease_epoch h' = Suc (h_lease_epoch h)"
| renew: "head_step c t h h'"
    if "live_head t h" "kept h h'" "full_lease h'" "h_lease_epoch h' = h_lease_epoch h"
      "h_lease_token_hash h' = h_lease_token_hash h" "h_lease_owner h' = h_lease_owner h"
| complete: "head_step c t h h'"
    if "live_head t h" "moved h h'" "head_ok c h'" "h_state h' \<in> {RETRYING, SUCCEEDED, FAILED, CANCELLED}" "no_lease h'"
      "h_lease_epoch h' = h_lease_epoch h" "h_state h = CANCELLING \<Longrightarrow> h_state h' \<noteq> RETRYING"
| cancel: "head_step c t h h'"
    if "h_state h \<in> {PENDING, RETRYING, RUNNING}" "moved h h'" "head_ok c h'"
      "h_state h' = (if h_state h = RUNNING then CANCELLING else CANCELLED)"
      "h_lease_epoch h' = h_lease_epoch h" "h_lease_expires_at_us h' = h_lease_expires_at_us h"
      "h_lease_token_hash h' = h_lease_token_hash h" "h_lease_owner h' = h_lease_owner h"
| retry: "head_step c t h h'"
    if "h_state h \<in> {FAILED, CANCELLED}" "moved h h'" "head_ok c h'" "h_state h' = PENDING" "no_lease h'"
      "h_lease_epoch h' = h_lease_epoch h" "h_attempt h' = 0"
| derived: "head_step c t h h'"
    if "h_state h = SUCCEEDED" "moved h h'" "head_ok c h'" "h_state h' = SUCCEEDED" "no_lease h'"
      "h_lease_epoch h' = h_lease_epoch h"

inductive_cases head_stepE: "head_step c t h h'"

abbreviation heads_step :: "job_config \<Rightarrow> int \<Rightarrow> head list \<Rightarrow> head list \<Rightarrow> bool" where
  "heads_step c t \<equiv> list_all2 (head_step c t)"

lemma kept_fields:
  assumes "kept h h'"
  shows "h_job_id h' = h_job_id h" "h_target_id h' = h_target_id h" "h_idempotency_key h' = h_idempotency_key h"
    "h_revision h' = h_revision h" "h_state h' = h_state h" "h_payload h' = h_payload h"
    "h_created_at_us h' = h_created_at_us h" "h_attempt h' = h_attempt h"
    "h_request_fingerprint h' = h_request_fingerprint h"
  using assms by (auto simp: kept_def)

lemma kept_extend: "kept h (h\<lparr>h_lease_expires_at_us := ex, h_heartbeat_at_us := hb\<rparr>)"
  unfolding kept_def
  by (rule exI [of _ "h_lease_owner h"], rule exI [of _ "h_lease_token_hash h"], rule exI [of _ "h_lease_epoch h"],
      rule exI [of _ ex], rule exI [of _ hb]) (cases h; simp)

lemma kept_clear: "kept h (clear_lease (h\<lparr>h_lease_epoch := ep\<rparr>))"
  unfolding kept_def clear_lease_def
  by (rule exI [of _ None], rule exI [of _ None], rule exI [of _ ep], rule exI [of _ None], rule exI [of _ None])
    (cases h; simp)

lemma kept_ok:
  assumes "kept h h'" "head_ok c h" "no_lease h' \<or> (full_lease h' \<and> h_state h \<in> ACTIVE)"
  shows "head_ok c h'"
  using assms by (auto simp: kept_def head_ok_def Let_def)

text \<open>Facts that hold of every step.\<close>

lemma head_step_fields:
  assumes "head_step c t h h'"
  shows "h_job_id h' = h_job_id h" "h_target_id h' = h_target_id h" "h_idempotency_key h' = h_idempotency_key h"
    "h_request_fingerprint h' = h_request_fingerprint h" "h_created_at_us h' = h_created_at_us h"
    "h_revision h \<le> h_revision h'" "h_lease_epoch h \<le> h_lease_epoch h'"
  using assms by (auto elim!: head_stepE simp: moved_def dest: kept_fields)

lemma head_step_ok:
  assumes "head_step c t h h'" "head_ok c h"
  shows "head_ok c h'"
  using assms(1)
proof cases
  case fence
  then show ?thesis using kept_ok [OF _ assms(2)] by blast
next
  case renew
  then show ?thesis using kept_ok [OF _ assms(2)] by (simp add: live_head_def)
qed (use assms(2) in auto)

text \<open>Only a claim makes a head live: in every other step a lease that outlives \<open>t\<close> was live
  before.\<close>

lemma head_step_live:
  assumes "head_step c t h h'" "live_head t h'" "\<not> (claimable t h \<and> h_lease_epoch h' = Suc (h_lease_epoch h) \<and> full_lease h')"
  shows "live_head t h"
  using assms
  by (auto elim!: head_stepE simp: live_head_def ACTIVE_def no_lease_def sql_gt_def split: if_splits option.splits)

lemma list_all2_map_eq: "list_all2 R xs ys \<Longrightarrow> (\<And>x y. R x y \<Longrightarrow> col y = col x) \<Longrightarrow> map col ys = map col xs"
  by (induction rule: list_all2_induct) auto

lemma heads_step_ids: "heads_step c t hs hs' \<Longrightarrow> map h_job_id hs' = map h_job_id hs"
  by (erule list_all2_map_eq) (auto dest: head_step_fields)

lemma heads_step_ok: "heads_step c t hs hs' \<Longrightarrow> \<forall>h \<in> set hs. head_ok c h \<Longrightarrow> \<forall>h \<in> set hs'. head_ok c h"
  by (induction rule: list_all2_induct) (auto dest: head_step_ok)

lemma heads_step_refl [simp]: "heads_step c t hs hs"
  by (rule list_all2_refl) (rule head_step.same)

text \<open>An update that selects one row by its key is one step of that row.\<close>

lemma heads_step_upd:
  assumes "distinct (map h_job_id hs)" "row \<in> set hs" "\<And>h. sel h \<Longrightarrow> h_job_id h = h_job_id row"
    "head_step c t row (upd row)"
  shows "heads_step c t hs (upd_where sel upd hs)"
proof -
  have "h = row" if "h \<in> set hs" "sel h" for h
    using key_inj [OF assms(1) that(1) assms(2) assms(3)] that(2) by simp
  then show ?thesis
    using assms(4) unfolding upd_where_def list_all2_map2 by (auto simp: list_all2_same intro: head_step.same)
qed

section \<open>Each operation moves the heads by lifecycle steps\<close>

definition repo_ok :: "job_config \<Rightarrow> repo \<Rightarrow> bool" where
  "repo_ok c r = (distinct (map h_job_id (heads r)) \<and> (\<forall>h \<in> set (heads r). head_ok c h)
     \<and> distinct (map o_target_id (target_ops r)))"

lemma repo_okD:
  assumes "repo_ok c r"
  shows "distinct (map h_job_id (heads r))" "h \<in> set (heads r) \<Longrightarrow> head_ok c h" "distinct (map o_target_id (target_ops r))"
  using assms by (simp_all add: repo_ok_def)

lemma event_frame:
  assumes "event c j rno w n r = Inr r'"
  shows "heads r' = heads r" "target_ops r' = target_ops r"
  using assms by (auto simp: event_def Let_def split: if_splits)

text \<open>A head that is rewritten with an encoded job is well-formed again.\<close>

lemma head_ok_write:
  assumes "encode c j = Inr (j1, n)" "h_payload h' = j1" "h_payload_bytes h' = n" "h_job_id h' = job_id j1"
    "h_state h' = state j1" "h_attempt h' = attempt j1" "h_max_attempts h' = max_attempts j1"
    "updated_at j1 = Some u" "h_updated_at_us h' = micros u" "h_available_at_us h' = map_option micros (available_at j1)"
    "no_lease h' \<or> (full_lease h' \<and> state j1 \<in> ACTIVE)"
  shows "head_ok c h'"
  using assms encodeD [OF assms(1)] by (auto simp: head_ok_def Let_def)

text \<open>The encoded successor of a stored payload.\<close>

lemma encode_next:
  assumes "encode c (g p) = Inr (j1, n)" "validate_job p = Inr p" "job_id (g p) = job_id p"
    "updated_at (g p) = Some u"
  shows "job_id j1 = job_id p" "state j1 = state (g p)" "attempt j1 = attempt (g p)"
    "max_attempts j1 = max_attempts (g p)" "updated_at j1 = Some u"
    "state (g p) \<notin> {PENDING, RETRYING} \<or> available_at (g p) \<noteq> None \<Longrightarrow> available_at j1 = available_at (g p)"
  using encodeD(1) [OF assms(1)] validate_job_same [OF assms(2) _ assms(3)] validate_job_fields(1-3)
    validate_job_times assms(4) by blast+

text \<open>A step that makes nothing live.\<close>

definition quiet :: "int \<Rightarrow> head \<Rightarrow> head \<Rightarrow> bool" where
  "quiet t h h' = (h_job_id h' = h_job_id h \<and> h_target_id h' = h_target_id h \<and> (live_head t h' \<longrightarrow> live_head t h))"

lemma quiet_refl [simp]: "quiet t h h"
  by (simp add: quiet_def)

text \<open>What \<open>fail_exhausted\<close> does to a head: nothing, or one failure. A failed head is not exhausted
  again, so the relation is transitive.\<close>

definition failing :: "job_config \<Rightarrow> int \<Rightarrow> head \<Rightarrow> head \<Rightarrow> bool" where
  "failing c t h h' = (h' = h \<or> (exhausted_head t h \<and> h_state h' = FAILED \<and> head_step c t h h'))"

lemma failing_trans: "failing c t a b \<Longrightarrow> failing c t b d \<Longrightarrow> failing c t a d"
  by (auto simp: failing_def exhausted_head_def)

lemma failing_step: "failing c t h h' \<Longrightarrow> head_step c t h h'"
  by (auto simp: failing_def intro: head_step.same)

lemma failing_quiet: "failing c t h h' \<Longrightarrow> quiet t h h'"
  by (auto simp: failing_def quiet_def live_head_def ACTIVE_def dest: head_step_fields)

lemma fail_row_step:
  assumes ok: "repo_ok c r" and row: "row \<in> set (heads r)" and ex: "exhausted_head (micros now) row"
    and run: "fail_row c now row r = Inr r'"
  shows "list_all2 (failing c (micros now)) (heads r) (heads r')" "target_ops r' = target_ops r"
    "x \<in> set (heads r) \<Longrightarrow> h_job_id x \<noteq> h_job_id row \<Longrightarrow> x \<in> set (heads r')"
proof -
  note hok = head_okD [OF repo_okD(2) [OF ok row]]
  obtain j1 n where e: "encode c (fail_job now (h_payload row)) = Inr (j1, n)"
    and ev: "event c j1 (Suc (h_revision row)) now n (r\<lparr>heads :=
        upd_where (\<lambda>h. h_job_id h = job_id j1 \<and> h_revision h = h_revision row)
         (\<lambda>h. clear_lease (h\<lparr>h_payload := j1, h_payload_bytes := n, h_state := state j1,
                    h_updated_at_us := micros now, h_available_at_us := None, h_revision := Suc (h_revision row)\<rparr>)) (heads r)\<rparr>) = Inr r'"
    using run hok(1) by (auto simp: fail_row_def Let_def)
  note nx = encode_next [of c "fail_job now", OF e hok(1)]
  have j1: "job_id j1 = h_job_id row" "state j1 = FAILED" "available_at j1 = None" "updated_at j1 = Some now"
    "attempt j1 = h_attempt row" "max_attempts j1 = h_max_attempts row"
    using nx hok by (simp_all add: fail_job_def)
  let ?upd = "\<lambda>h. clear_lease (h\<lparr>h_payload := j1, h_payload_bytes := n, h_state := state j1,
                    h_updated_at_us := micros now, h_available_at_us := None, h_revision := Suc (h_revision row)\<rparr>)"
  have "head_step c (micros now) row (?upd row)"
    by (auto intro!: head_step.fail [OF ex] head_ok_write [OF e] simp: moved_def j1)
  then have "failing c (micros now) row (?upd row)"
    using ex j1(2) by (simp add: failing_def)
  then have "failing c (micros now) h (if h_job_id h = job_id j1 \<and> h_revision h = h_revision row then ?upd h else h)"
    if "h \<in> set (heads r)" for h
    using key_inj [OF repo_okD(1) [OF ok] that row] j1(1) by (cases "h_job_id h = job_id j1") (simp_all add: failing_def)
  then show "list_all2 (failing c (micros now)) (heads r) (heads r')"
    unfolding event_frame(1) [OF ev] upd_where_def by (simp add: list_all2_map2 list_all2_same)
  show "target_ops r' = target_ops r" using event_frame [OF ev] by simp
  show "x \<in> set (heads r')" if "x \<in> set (heads r)" "h_job_id x \<noteq> h_job_id row"
    unfolding event_frame(1) [OF ev] using that j1(1) by (auto simp: upd_where_def image_iff intro!: bexI [of _ x])
qed

lemma repo_ok_step:
  assumes "repo_ok c r" "heads_step c t (heads r) (heads r')" "distinct (map o_target_id (target_ops r'))"
  shows "repo_ok c r'"
  using heads_step_ok [OF assms(2)] heads_step_ids [OF assms(2)] assms(1,3) by (simp add: repo_ok_def)

lemma failing_all_step: "list_all2 (failing c t) hs hs' \<Longrightarrow> heads_step c t hs hs'"
  by (erule list_all2_mono) (rule failing_step)

lemma fail_rows_steps:
  assumes "repo_ok c r" "set rows \<subseteq> set (heads r)" "distinct (map h_job_id rows)"
    "\<forall>row \<in> set rows. exhausted_head (micros now) row" "fail_rows c now rows r = Inr r'"
  shows "list_all2 (failing c (micros now)) (heads r) (heads r') \<and> target_ops r' = target_ops r"
  using assms
proof (induction rows arbitrary: r)
  case Nil
  then show ?case by (simp add: list_all2_same failing_def)
next
  case (Cons row rows)
  obtain r1 where r1: "fail_row c now row r = Inr r1" "fail_rows c now rows r1 = Inr r'"
    using Cons.prems(5) by auto
  have row: "row \<in> set (heads r)" "exhausted_head (micros now) row" using Cons.prems by auto
  note st = fail_row_step [OF Cons.prems(1) row r1(1)]
  have "repo_ok c r1"
    using repo_ok_step [OF Cons.prems(1) failing_all_step [OF st(1)]] st(2) repo_okD(3) [OF Cons.prems(1)] by simp
  moreover have "set rows \<subseteq> set (heads r1)"
    using Cons.prems(2,3) st(3) by (fastforce simp: image_iff)
  ultimately have "list_all2 (failing c (micros now)) (heads r1) (heads r') \<and> target_ops r' = target_ops r1"
    using Cons.IH r1(2) Cons.prems(3,4) by simp
  then show ?case using st(1,2) list_all2_trans [OF failing_trans st(1)] by auto
qed

lemma fail_exhausted_steps:
  assumes "repo_ok c r" "fail_exhausted c now r = Inr r'"
  shows "list_all2 (failing c (micros now)) (heads r) (heads r')" "target_ops r' = target_ops r"
proof -
  let ?rows = "filter (exhausted_head (micros now)) (heads r)"
  have "distinct (map h_job_id ?rows)" by (rule distinct_map_filter [OF repo_okD(1) [OF assms(1)]])
  from fail_rows_steps [OF assms(1) _ this _ assms(2) [unfolded fail_exhausted_def]]
  have "list_all2 (failing c (micros now)) (heads r) (heads r') \<and> target_ops r' = target_ops r" by fastforce
  then show "list_all2 (failing c (micros now)) (heads r) (heads r')" "target_ops r' = target_ops r" by simp_all
qed

text \<open>The other operations replace one head.\<close>

definition put_head :: "head \<Rightarrow> head list \<Rightarrow> head list" where
  "put_head h' hs = map (\<lambda>h. if h_job_id h = h_job_id h' then h' else h) hs"

lemma upd_where_put:
  assumes "distinct (map h_job_id hs)" "row \<in> set hs" "sel row" "\<And>h. sel h \<Longrightarrow> h_job_id h = h_job_id row"
    "h_job_id (upd row) = h_job_id row"
  shows "upd_where sel upd hs = put_head (upd row) hs"
proof -
  have "(if sel h then upd h else h) = (if h_job_id h = h_job_id (upd row) then upd row else h)" if "h \<in> set hs" for h
  proof (cases "h = row")
    case False
    then have "h_job_id h \<noteq> h_job_id row" using key_inj [OF assms(1) that assms(2)] by blast
    then show ?thesis using assms(4) [of h] assms(5) by auto
  qed (use assms(3,5) in simp)
  then show ?thesis by (simp add: upd_where_def put_head_def)
qed

lemma put_head_step:
  assumes "distinct (map h_job_id hs)" "row \<in> set hs" "head_step c t row h'"
  shows "heads_step c t hs (put_head h' hs)"
  using key_inj [OF assms(1) _ assms(2)] assms(3) head_step_fields(1) [OF assms(3)]
  unfolding put_head_def list_all2_map2 by (auto simp: list_all2_same intro: head_step.same)

lemma put_head_mem:
  assumes "row \<in> set hs" "h_job_id h' = h_job_id row"
  shows "h' \<in> set (put_head h' hs)"
  using assms by (force simp: put_head_def image_iff)

lemma set_put_head: "set (put_head h' hs) \<subseteq> insert h' {h \<in> set hs. h_job_id h \<noteq> h_job_id h'}"
  by (auto simp: put_head_def)

lemma claim_job_fields:
  "job_id (claim_job now j) = job_id j" "updated_at (claim_job now j) = Some now"
  "max_attempts (claim_job now j) = max_attempts j"
  "state (claim_job now j) = (if state j = CANCELLING then CANCELLING else RUNNING)"
  by (simp_all add: claim_job_def Let_def)

lemma count_row:
  assumes "distinct (map h_job_id hs)" "row \<in> set hs" "sel row" "\<And>h. sel h \<Longrightarrow> h_job_id h = h_job_id row"
  shows "count_where sel hs = 1"
  using count_key [of h_job_id hs row sel, OF assms] .

lemma claim_row_put:
  assumes ok: "repo_ok c r" and row: "row \<in> set (heads r)" and cl: "claimable (micros now) row"
    and run: "claim_row c worker now ttl token row r = Inr (r', k)"
  shows "\<exists>h' k'. k = Some k' \<and> heads r' = put_head h' (heads r) \<and> target_ops r' = target_ops r
    \<and> head_step c (micros now) row h' \<and> lease_matches c k' h' \<and> h_payload h' = cl_job k'
    \<and> h_lease_expires_at_us h' = Some (micros (now + ttl)) \<and> h_heartbeat_at_us h' = Some (micros now)
    \<and> state (cl_job k') = (if h_state row = CANCELLING then CANCELLING else RUNNING)
    \<and> cl_lease_epoch k' = Suc (h_lease_epoch row) \<and> cl_lease_token k' = token \<and> cl_lease_owner k' = worker
    \<and> attempt (cl_job k') = attempt (claim_job now (h_payload row))
    \<and> max_attempts (cl_job k') = h_max_attempts row \<and> job_id (cl_job k') = h_job_id row"
proof -
  note hok = head_okD [OF repo_okD(2) [OF ok row]] and dis = repo_okD(1) [OF ok]
  obtain j1 n where e: "encode c (claim_job now (h_payload row)) = Inr (j1, n)" and tok: "token \<noteq> []"
    using run hok(1) by (auto simp: claim_row_def split: if_splits)
  note nx = encode_next [of c "claim_job now", OF e hok(1)]
  have id: "job_id j1 = h_job_id row" and upd: "updated_at j1 = Some now"
    and st: "state j1 = (if h_state row = CANCELLING then CANCELLING else RUNNING)"
    and att: "attempt j1 = attempt (claim_job now (h_payload row))" "max_attempts j1 = h_max_attempts row"
    using nx hok by (simp_all add: claim_job_fields)
  define sel where "sel = (\<lambda>h::head. h_job_id h = job_id j1 \<and> h_revision h = h_revision row)"
  define upd where "upd = (\<lambda>h::head. h\<lparr>h_payload := j1, h_payload_bytes := n, h_state := state j1,
                      h_updated_at_us := micros now, h_available_at_us := map_option micros (available_at j1),
                      h_attempt := attempt j1, h_max_attempts := max_attempts j1, h_revision := Suc (h_revision row),
                      h_lease_owner := Some worker, h_lease_token_hash := Some (token_hash c token),
                      h_lease_epoch := Suc (h_lease_epoch row), h_lease_expires_at_us := Some (micros (now + ttl)),
                      h_heartbeat_at_us := Some (micros now)\<rparr>)"
  have sel: "sel row" "\<And>h. sel h \<Longrightarrow> h_job_id h = h_job_id row" using id by (auto simp: sel_def)
  have put: "upd_where sel upd (heads r) = put_head (upd row) (heads r)"
    using upd_where_put [where sel = sel and upd = upd, OF dis row sel] by (simp add: upd_def)
  obtain r1 where ev: "event c j1 (Suc (h_revision row)) now n (r\<lparr>heads := upd_where sel upd (heads r)\<rparr>) = Inr r1"
    and k: "r' = r1" "k = Some \<lparr>cl_job = j1, cl_lease_token = token, cl_lease_epoch = Suc (h_lease_epoch row),
                             cl_lease_owner = worker, cl_lease_expires_at = now + ttl\<rparr>"
    using run hok(1) e tok count_row [where sel = sel, OF dis row sel]
    by (auto simp: claim_row_def Let_def sel_def [symmetric] upd_def [symmetric])
  have "head_step c (micros now) row (upd row)"
    using cl st upd \<open>updated_at j1 = Some now\<close> id
    by (intro head_step.claim head_ok_write [OF e]) (auto simp: upd_def moved_def full_lease_def ACTIVE_def)
  then show ?thesis
    using event_frame [OF ev] put k id st att
    by (intro exI [of _ "upd row"]) (simp add: upd_def lease_matches_def)
qed

lemma expire_ops_simps [simp]: "heads (expire_ops t r) = heads r"
  "target_ops (expire_ops t r) = del_where (\<lambda>d. o_lease_expires_at_us d \<le> t) (target_ops r)"
  "events (expire_ops t r) = events r" "next_event_id (expire_ops t r) = next_event_id r"
  by (simp_all add: expire_ops_def)

lemma repo_ok_expire: "repo_ok c r \<Longrightarrow> repo_ok c (expire_ops t r)"
  by (auto simp: repo_ok_def distinct_del_where)

lemma fail_exhausted_ok: "repo_ok c r \<Longrightarrow> fail_exhausted c now r = Inr r' \<Longrightarrow> repo_ok c r'"
  using repo_ok_step failing_all_step fail_exhausted_steps repo_okD(3) by metis

text \<open>A successful \<open>claim_next\<close>, in its three outcomes: capacity reached, nothing to claim, or the
  least candidate claimed.\<close>

lemma claim_nextE:
  assumes "claim_next c worker now ttl max_running excl token r = Inr (r', k)"
  obtains r1 where "fail_exhausted c now r = Inr r1" "r' = expire_ops (micros now) r1" "k = None"
    "max_running \<le> int (count_where (live_head (micros now)) (heads r1))"
  | r1 where "fail_exhausted c now r = Inr r1" "r' = expire_ops (micros now) r1" "k = None"
    "claim_candidates (micros now) excl (expire_ops (micros now) r1) = []"
  | r1 row where "fail_exhausted c now r = Inr r1"
    "row \<in> set (claim_candidates (micros now) excl (expire_ops (micros now) r1))"
    "\<And>h. h \<in> set (claim_candidates (micros now) excl (expire_ops (micros now) r1)) \<Longrightarrow> claim_key row \<le> claim_key h"
    "claim_row c worker now ttl token row (expire_ops (micros now) r1) = Inr (r', k)"
    "int (count_where (live_head (micros now)) (heads r1)) < max_running"
proof -
  obtain r1 where r1: "fail_exhausted c now r = Inr r1"
    and go: "(if max_running \<le> int (count_where (live_head (micros now)) (heads r1)) then Inr (expire_ops (micros now) r1, None)
          else case first_row (order_limit claim_key 1 (claim_candidates (micros now) excl (expire_ops (micros now) r1))) of
              None \<Rightarrow> Inr (expire_ops (micros now) r1, None)
            | Some row \<Rightarrow> claim_row c worker now ttl token row (expire_ops (micros now) r1)) = Inr (r', k)"
    using assms by (auto simp: claim_next_def Let_def split: if_splits)
  let ?cs = "claim_candidates (micros now) excl (expire_ops (micros now) r1)"
  show thesis
  proof (cases "max_running \<le> int (count_where (live_head (micros now)) (heads r1))")
    case True
    then show thesis using that(1) r1 go by simp
  next
    case False
    show thesis
    proof (cases "first_row (order_limit claim_key 1 ?cs)")
      case None
      then have "?cs = []" using order_limit_Nil [of claim_key 0 ?cs] by simp
      then show thesis using that(2) [OF r1] go False by (simp add: first_row_def order_limit_def)
    next
      case (Some row)
      then have "row \<in> set ?cs" using subsetD [OF order_limit_subset first_row_Some [OF Some]] by simp
      then show thesis using that(3) [OF r1] order_limit_first [OF Some] go False Some by simp
    qed
  qed
qed

text \<open>A head that is claimable after \<open>fail_exhausted\<close> was not touched by it.\<close>

lemma failing_claimable: "failing c t h h' \<Longrightarrow> claimable t h' \<Longrightarrow> h' = h"
  by (auto simp: failing_def claimable_def)

lemma claim_next_ok:
  assumes "repo_ok c r" "claim_next c worker now ttl max_running excl token r = Inr (r', k)"
  shows "heads_step c (micros now) (heads r) (heads r')" "repo_ok c r'"
proof -
  have "heads_step c (micros now) (heads r) (heads r') \<and> repo_ok c r'"
    using assms(2)
  proof (cases rule: claim_nextE)
    case (3 r1 row)
    let ?t = "micros now" let ?r1 = "expire_ops ?t r1"
    have ok1: "repo_ok c ?r1" using fail_exhausted_ok [OF assms(1) 3(1)] repo_ok_expire by blast
    have row: "row \<in> set (heads ?r1)" "claimable ?t row" using 3(2) by (auto simp: claim_candidates_def)
    from claim_row_put [OF ok1 row 3(4)] obtain h' where
      h': "heads r' = put_head h' (heads ?r1)" "target_ops r' = target_ops ?r1" "head_step c ?t row h'" by blast
    have "repo_ok c r'"
      using repo_ok_step [OF ok1 put_head_step [OF repo_okD(1) [OF ok1] row(1) h'(3), folded h'(1)]] h'(2)
        repo_okD(3) [OF ok1] by simp
    moreover have "list_all2 (\<lambda>b d. d = b \<or> (claimable ?t b \<and> head_step c ?t b d)) (heads r1) (heads r')"
      using key_inj [OF repo_okD(1) [OF ok1] _ row(1)] row(2) h'(3) head_step_fields(1) [OF h'(3)]
      unfolding h'(1) put_head_def by (auto simp: list_all2_map2 list_all2_same)
    then have "heads_step c ?t (heads r) (heads r')"
      by (rule list_all2_trans [OF _ fail_exhausted_steps(1) [OF assms(1) 3(1)], rotated])
        (auto dest: failing_claimable failing_step)
    ultimately show ?thesis by simp
  qed (use assms(1) fail_exhausted_steps(1) failing_all_step fail_exhausted_ok repo_ok_expire in auto)
  then show "heads_step c (micros now) (heads r) (heads r')" "repo_ok c r'" by simp_all
qed

lemma acquire_cases:
  assumes "acquire_target_operation c target owner now ttl token r = Inr (r', k)"
  shows "(r' = expire_ops (micros now) r \<and> k = None) \<or>
    ((\<forall>h \<in> set (heads r). h_target_id h = strip target \<longrightarrow> \<not> live_head (micros now) h)
     \<and> (\<forall>d \<in> set (target_ops (expire_ops (micros now) r)). o_target_id d \<noteq> strip target)
     \<and> k = Some \<lparr>tl_target_id = strip target, tl_lease_token = token, tl_lease_owner = strip owner,
                     tl_lease_expires_at = now + ttl\<rparr>
     \<and> heads r' = upd_where (\<lambda>h. h_target_id h = strip target \<and> h_state h \<in> ACTIVE
            \<and> null_or_le (h_lease_expires_at_us h) (micros now))
          (\<lambda>h. clear_lease (h\<lparr>h_lease_epoch := Suc (h_lease_epoch h)\<rparr>)) (heads r)
     \<and> events r' = events r
     \<and> target_ops r' = target_ops (expire_ops (micros now) r) @ [\<lparr>o_target_id = strip target, o_lease_owner = strip owner,
          o_lease_token_hash = token_hash c token, o_lease_expires_at_us = micros (now + ttl)\<rparr>])"
  using assms by (auto simp: acquire_target_operation_def Let_def split: if_splits)

lemma acquire_ok:
  assumes ok: "repo_ok c r" and run: "acquire_target_operation c target owner now ttl token r = Inr (r', k)"
  shows "heads_step c (micros now) (heads r) (heads r')" "repo_ok c r'"
proof -
  let ?t = "micros now" let ?r1 = "expire_ops ?t r" let ?tid = "strip target"
  let ?sel = "\<lambda>h. h_target_id h = ?tid \<and> h_state h \<in> ACTIVE \<and> null_or_le (h_lease_expires_at_us h) ?t"
  let ?upd = "\<lambda>h. clear_lease (h\<lparr>h_lease_epoch := Suc (h_lease_epoch h)\<rparr>)"
  have ok1: "repo_ok c ?r1" by (rule repo_ok_expire [OF ok])
  consider "r' = ?r1" | "heads r' = upd_where ?sel ?upd (heads r)"
    "\<forall>d \<in> set (target_ops ?r1). o_target_id d \<noteq> ?tid"
    "\<exists>d. o_target_id d = ?tid \<and> target_ops r' = target_ops ?r1 @ [d]"
    using acquire_cases [OF run] by fastforce
  then have "heads_step c ?t (heads r) (heads r') \<and> repo_ok c r'"
  proof cases
    case 1
    then show ?thesis using ok1 by simp
  next
    case 2
    have "head_step c ?t h (if ?sel h then ?upd h else h)" for h
    proof (cases "?sel h")
      case True
      then show ?thesis by (auto intro!: head_step.fence kept_clear)
    qed (auto intro: head_step.same)
    then have st: "heads_step c ?t (heads r) (heads r')"
      by (auto simp: 2(1) upd_where_def list_all2_map2 list_all2_same)
    obtain d where d: "o_target_id d = ?tid" "target_ops r' = target_ops ?r1 @ [d]" using 2(3) by blast
    have "?tid \<notin> o_target_id ` set (target_ops ?r1)" using 2(2) by (metis image_iff)
    then have "distinct (map o_target_id (target_ops r'))"
      using repo_okD(3) [OF ok1] by (simp only: d map_append distinct_append list.map distinct.simps list.set) simp
    then show ?thesis using repo_ok_step [OF ok st] st by blast
  qed
  then show "heads_step c ?t (heads r) (heads r')" "repo_ok c r'" by simp_all
qed

lemma release_ok:
  assumes "repo_ok c r" "release_target_operation c l r = Inr r'"
  shows "heads r' = heads r" "repo_ok c r'"
  using assms by (auto simp: release_target_operation_def repo_ok_def distinct_del_where split: if_splits)

lemma renew_op_ok:
  assumes "repo_ok c r" "renew_target_operation c l now ttl r = Inr (r', l')"
  shows "heads r' = heads r" "repo_ok c r'"
  using assms by (auto simp: renew_target_operation_def repo_ok_def Let_def map_upd_where split: if_splits)

lemma leased_rowD:
  assumes "leased_row c k now r = Inr row"
  shows "row \<in> set (heads r)" "lease_matches c k row" "live_head (micros now) row"
    "null_or_le (h_heartbeat_at_us row) (micros now)"
    "\<forall>d \<in> set (target_ops r). o_target_id d = h_target_id row \<longrightarrow> o_lease_expires_at_us d \<le> micros now"
  using assms fetch_where_Some by (fastforce simp: leased_row_def Let_def split: option.splits)+

lemma renew_put:
  assumes ok: "repo_ok c r" and run: "renew c k now ttl r = Inr (r', k')"
  shows "\<exists>row h'. row \<in> set (heads r) \<and> live_head (micros now) row \<and> lease_matches c k row
    \<and> heads r' = put_head h' (heads r) \<and> target_ops r' = target_ops r \<and> events r' = events r
    \<and> head_step c (micros now) row h' \<and> lease_matches c k' h'
    \<and> h' = row\<lparr>h_lease_expires_at_us := Some (micros (now + ttl)), h_heartbeat_at_us := Some (micros now)\<rparr>"
proof -
  obtain row where row: "leased_row c k now r = Inr row"
    and out: "r' = r\<lparr>heads := upd_where (lease_matches c k) (\<lambda>h. h\<lparr>h_lease_expires_at_us := Some (micros (now + ttl)),
       h_heartbeat_at_us := Some (micros now)\<rparr>) (heads r)\<rparr>" and k': "k' = k\<lparr>cl_job := h_payload row, cl_lease_expires_at := now + ttl\<rparr>"
    using run head_okD(1) [OF repo_okD(2) [OF ok leased_rowD(1)]]
    by (fastforce simp: renew_def Let_def split: if_splits)
  note lr = leased_rowD [OF row]
  let ?h' = "row\<lparr>h_lease_expires_at_us := Some (micros (now + ttl)), h_heartbeat_at_us := Some (micros now)\<rparr>"
  have full: "full_lease row" using head_okD(8) [OF repo_okD(2) [OF ok lr(1)]] lr(3)
    by (auto simp: live_head_def no_lease_def sql_gt_def)
  have "head_step c (micros now) row ?h'"
    using lr(3) full by (intro head_step.renew kept_extend) (auto simp: full_lease_def)
  moreover have "heads r' = put_head ?h' (heads r)"
    using upd_where_put [where sel = "lease_matches c k" and row = row and hs = "heads r"
        and upd = "\<lambda>h. h\<lparr>h_lease_expires_at_us := Some (micros (now + ttl)), h_heartbeat_at_us := Some (micros now)\<rparr>"]
      repo_okD(1) [OF ok] lr(1,2) by (simp add: out lease_matches_def)
  moreover have "lease_matches c k' ?h'"
    using lr(2) head_okD(2) [OF repo_okD(2) [OF ok lr(1)]] by (simp add: lease_matches_def k')
  ultimately show ?thesis using lr(1-3) by (intro exI [of _ row] exI [of _ ?h']) (simp add: out)
qed

lemma complete_put:
  assumes ok: "repo_ok c r" and run: "complete c k job now r = Inr (r', j)"
  shows "\<exists>row h'. row \<in> set (heads r) \<and> live_head (micros now) row \<and> lease_matches c k row
    \<and> heads r' = put_head h' (heads r) \<and> target_ops r' = target_ops r
    \<and> head_step c (micros now) row h' \<and> no_lease h' \<and> h_payload h' = j \<and> h_state h' = state j
    \<and> h_lease_epoch h' = h_lease_epoch row \<and> h_revision h' = Suc (h_revision row) \<and> moved row h'"
proof -
  obtain n row where e: "encode c job = Inr (j, n)" and st: "job_id j = job_id (cl_job k)" "state j \<notin> {PENDING, RUNNING, CANCELLING}"
    and row: "leased_row c k now r = Inr row"
    and race: "\<not> (h_state row = CANCELLING \<and> \<not> cancellation_terminal j \<and> \<not> acknowledged_result j)"
    using run by (auto simp: complete_def Let_def split: if_splits prod.splits)
  obtain u where u: "updated_at j = Some u" using validate_job_fields(6) [OF encodeD(1) [OF e]] by blast
  note lr = leased_rowD [OF row] and dis = repo_okD(1) [OF ok]
  define sel where "sel = (\<lambda>h::head. h_job_id h = job_id j \<and> h_lease_token_hash h = Some (token_hash c (cl_lease_token k))
                          \<and> h_lease_epoch h = cl_lease_epoch k)"
  define upd where "upd = (\<lambda>h::head. clear_lease (h\<lparr>h_payload := j, h_payload_bytes := n, h_state := state j,
                          h_updated_at_us := micros u, h_available_at_us := map_option micros (available_at j),
                          h_attempt := attempt j, h_max_attempts := max_attempts j, h_revision := Suc (h_revision row)\<rparr>))"
  have ev: "event c j (Suc (h_revision row)) u n (r\<lparr>heads := upd_where sel upd (heads r)\<rparr>) = Inr r'"
    using run e st row race u by (auto simp: complete_def Let_def sel_def upd_def split: if_splits)
  have id: "h_job_id row = job_id j" using lr(2) st(1) by (simp add: lease_matches_def)
  have sel: "sel row" "\<And>h. sel h \<Longrightarrow> h_job_id h = h_job_id row" using lr(2) id by (auto simp: sel_def lease_matches_def)
  have put: "upd_where sel upd (heads r) = put_head (upd row) (heads r)"
    using upd_where_put [where sel = sel and upd = upd, OF dis lr(1) sel] by (simp add: upd_def)
  have stj: "state j \<in> {RETRYING, SUCCEEDED, FAILED, CANCELLED}" using st(2) by (cases "state j") auto
  have "head_ok c (upd row)"
    using id u by (intro head_ok_write [OF e]) (auto simp: upd_def)
  then have "head_step c (micros now) row (upd row)"
    using lr(3) stj race
    by (intro head_step.complete) (auto simp: upd_def moved_def cancellation_terminal_def acknowledged_result_def)
  then show ?thesis
    using event_frame [OF ev] put lr(1-3) by (intro exI [of _ row] exI [of _ "upd row"]) (simp add: upd_def moved_def)
qed

lemma cancel_job_fields:
  "job_id (cancel_job now j) = job_id j" "updated_at (cancel_job now j) = Some now"
  "attempt (cancel_job now j) = attempt j" "max_attempts (cancel_job now j) = max_attempts j"
  by (simp_all add: cancel_job_def Let_def)

lemma request_cancel_put:
  assumes ok: "repo_ok c r" and run: "request_cancel c jid now r = Inr (r', j)"
  shows "r' = r \<and> (\<exists>row \<in> set (heads r). h_job_id row = jid
      \<and> h_state row \<in> {SUCCEEDED, FAILED, CANCELLED, CANCELLING}) \<or>
    (\<exists>row h'. row \<in> set (heads r) \<and> h_job_id row = jid
    \<and> heads r' = put_head h' (heads r) \<and> target_ops r' = target_ops r
    \<and> head_step c (micros now) row h' \<and> h_payload h' = j \<and> h_state h' = state j
    \<and> state j = (if h_state row = RUNNING then CANCELLING else CANCELLED) \<and> moved row h'
    \<and> h_lease_expires_at_us h' = h_lease_expires_at_us row)"
proof -
  obtain row where f: "fetch_where (\<lambda>h. h_job_id h = jid) (heads r) = Some row"
    using run by (auto simp: request_cancel_def split: option.splits)
  have row: "row \<in> set (heads r)" "h_job_id row = jid" using fetch_where_Some [OF f] by auto
  note hok = head_okD [OF repo_okD(2) [OF ok row(1)]] and dis = repo_okD(1) [OF ok]
  show ?thesis
  proof (cases "h_state row \<in> {SUCCEEDED, FAILED, CANCELLED, CANCELLING}")
    case True
    then show ?thesis using run f hok row by (auto simp: request_cancel_def)
  next
    case False
    then obtain n where e: "encode c (cancel_job now (h_payload row)) = Inr (j, n)"
      using run f hok by (auto simp: request_cancel_def Let_def split: if_splits)
    note nx = encode_next [of c "cancel_job now", OF e hok(1)]
    have stp: "state (cancel_job now (h_payload row)) = (if h_state row = RUNNING then CANCELLING else CANCELLED)"
      using False hok(3) by (cases "state (h_payload row)") (auto simp: cancel_job_def Let_def)
    have j: "job_id j = h_job_id row" "updated_at j = Some now" "attempt j = h_attempt row" "max_attempts j = h_max_attempts row"
      "state j = (if h_state row = RUNNING then CANCELLING else CANCELLED)"
      using nx hok stp by (simp_all add: cancel_job_fields)
    define sel where "sel = (\<lambda>h::head. h_job_id h = jid \<and> h_revision h = h_revision row)"
    define upd where "upd = (\<lambda>h::head. h\<lparr>h_payload := j, h_payload_bytes := n, h_state := state j,
                         h_updated_at_us := micros now,
                         h_available_at_us := map_option micros (available_at j), h_revision := Suc (h_revision row)\<rparr>)"
    have ev: "event c j (Suc (h_revision row)) now n (r\<lparr>heads := upd_where sel upd (heads r)\<rparr>) = Inr r'"
      using run e f hok False by (auto simp: request_cancel_def Let_def sel_def upd_def split: if_splits)
    have sel: "sel row" "\<And>h. sel h \<Longrightarrow> h_job_id h = h_job_id row" using row by (auto simp: sel_def)
    have put: "upd_where sel upd (heads r) = put_head (upd row) (heads r)"
      using upd_where_put [where sel = sel and upd = upd, OF dis row(1) sel] by (simp add: upd_def)
    have lease: "no_lease (upd row) \<or> full_lease (upd row) \<and> state j \<in> ACTIVE"
      using hok(8) j(5) False by (cases "h_state row") (auto simp: upd_def no_lease_def full_lease_def ACTIVE_def)
    have hs: "h_state row \<in> {PENDING, RETRYING, RUNNING}" using False by (cases "h_state row") auto
    have "head_ok c (upd row)" using j lease by (intro head_ok_write [OF e]) (auto simp: upd_def)
    then have "head_step c (micros now) row (upd row)"
      using hs j by (intro head_step.cancel) (auto simp: upd_def moved_def)
    then show ?thesis
      using event_frame [OF ev] put row j
      by (intro disjI2 exI [of _ row] exI [of _ "upd row"]) (simp add: upd_def moved_def)
  qed
qed

lemma manual_retry_put:
  assumes ok: "repo_ok c r" and run: "manual_retry c jid now r = Inr (r', j)"
  shows "\<exists>row h'. row \<in> set (heads r) \<and> h_job_id row = jid
    \<and> heads r' = put_head h' (heads r) \<and> target_ops r' = target_ops r
    \<and> head_step c (micros now) row h' \<and> h_payload h' = j \<and> h_state row \<in> {FAILED, CANCELLED}
    \<and> state j = PENDING \<and> attempt j = 0 \<and> moved row h'"
proof -
  obtain row where f: "fetch_where (\<lambda>h. h_job_id h = jid) (heads r) = Some row"
    using run by (auto simp: manual_retry_def split: option.splits)
  have row: "row \<in> set (heads r)" "h_job_id row = jid" using fetch_where_Some [OF f] by auto
  note hok = head_okD [OF repo_okD(2) [OF ok row(1)]] and dis = repo_okD(1) [OF ok]
  obtain n where hs: "h_state row \<in> {FAILED, CANCELLED}" and e: "encode c (retry_job now (h_payload row)) = Inr (j, n)"
    using run f hok by (auto simp: manual_retry_def Let_def split: if_splits)
  note nx = encode_next [of c "retry_job now", OF e hok(1)]
  have j: "job_id j = h_job_id row" "updated_at j = Some now" "attempt j = 0" "max_attempts j = h_max_attempts row"
    "state j = PENDING"
    using nx hok by (simp_all add: retry_job_def)
  define sel where "sel = (\<lambda>h::head. h_job_id h = jid \<and> h_revision h = h_revision row)"
  define upd where "upd = (\<lambda>h::head. clear_lease (h\<lparr>h_payload := j, h_payload_bytes := n, h_state := state j,
                         h_updated_at_us := micros now, h_available_at_us := map_option micros (available_at j),
                         h_attempt := attempt j, h_revision := Suc (h_revision row)\<rparr>))"
  have ev: "event c j (Suc (h_revision row)) now n (r\<lparr>heads := upd_where sel upd (heads r)\<rparr>) = Inr r'"
    using run e f hok hs by (auto simp: manual_retry_def Let_def sel_def upd_def)
  have sel: "sel row" "\<And>h. sel h \<Longrightarrow> h_job_id h = h_job_id row" using row by (auto simp: sel_def)
  have put: "upd_where sel upd (heads r) = put_head (upd row) (heads r)"
    using upd_where_put [where sel = sel and upd = upd, OF dis row(1) sel] by (simp add: upd_def)
  have "head_ok c (upd row)" using j by (intro head_ok_write [OF e]) (auto simp: upd_def)
  then have "head_step c (micros now) row (upd row)"
    using hs j by (intro head_step.retry) (auto simp: upd_def moved_def)
  then show ?thesis
    using event_frame [OF ev] put row j hs by (intro exI [of _ row] exI [of _ "upd row"]) (simp add: upd_def moved_def)
qed

definition derived_job :: "derived_state \<Rightarrow> int \<Rightarrow> bool \<Rightarrow> string option \<Rightarrow> int \<Rightarrow> datetime \<Rightarrow> scan_job \<Rightarrow> scan_job" where
  "derived_job st records truncated reason attempts now j = j\<lparr>result := map_option (\<lambda>res. res\<lparr>derived_state := Some st,
     derived_records := max 0 records, derived_truncated := truncated, derived_reason := reason,
     derived_attempts := max 0 attempts, derived_updated_at := Some now,
     detail := Some (derived_detail (capability j) st reason)\<rparr>) (result j), updated_at := Some now\<rparr>"

lemma update_derived_put:
  assumes ok: "repo_ok c r" and run: "update_derived_result c jid st records truncated reason attempts now r = Inr (r', out)"
  shows "r' = r \<or>
    (\<exists>row h' j. row \<in> set (heads r) \<and> h_job_id row = jid \<and> out = Some j
    \<and> heads r' = put_head h' (heads r) \<and> target_ops r' = target_ops r
    \<and> head_step c (micros now) row h' \<and> h_payload h' = j \<and> h_state row = SUCCEEDED
    \<and> derived_incomplete (h_payload row) \<and> state j = SUCCEEDED \<and> moved row h')"
proof (cases "r' = r")
  case changed: False
  obtain row where f: "fetch_where (\<lambda>h. h_job_id h = jid) (heads r) = Some row"
    using run changed by (auto simp: update_derived_result_def split: option.splits)
  have row: "row \<in> set (heads r)" "h_job_id row = jid" using fetch_where_Some [OF f] by auto
  note hok = head_okD [OF repo_okD(2) [OF ok row(1)]] and dis = repo_okD(1) [OF ok]
  let ?g = "derived_job st records truncated reason attempts now"
  obtain res where res: "result (h_payload row) = Some res"
    using run f hok changed by (auto simp: update_derived_result_def split: option.splits)
  have hs: "h_state row = SUCCEEDED" "derived_state res \<in> {Some D_PENDING, Some D_PROCESSING}"
    using run f hok changed res by (auto simp: update_derived_result_def split: if_splits)
  define sel where "sel = (\<lambda>h::head. h_job_id h = jid \<and> h_revision h = h_revision row \<and> h_state h = SUCCEEDED)"
  obtain j n where e: "encode c (?g (h_payload row)) = Inr (j, n)" and out: "out = Some j"
    and ev: "event c j (Suc (h_revision row)) now n (r\<lparr>heads := upd_where sel (\<lambda>h. h\<lparr>h_payload := j, h_payload_bytes := n,
      h_updated_at_us := micros now, h_revision := Suc (h_revision row)\<rparr>) (heads r)\<rparr>) = Inr r'"
    using run f hok res hs
    by (auto simp: update_derived_result_def Let_def derived_job_def sel_def split: if_splits)
  define upd where "upd = (\<lambda>h::head. h\<lparr>h_payload := j, h_payload_bytes := n,
      h_updated_at_us := micros now, h_revision := Suc (h_revision row)\<rparr>)"
  note nx = encode_next [of c ?g, OF e hok(1)]
  have j: "job_id j = h_job_id row" "updated_at j = Some now" "attempt j = h_attempt row" "max_attempts j = h_max_attempts row"
    "state j = SUCCEEDED" "available_at j = available_at (h_payload row)"
    using nx hok hs by (simp_all add: derived_job_def)
  have sel: "sel row" "\<And>h. sel h \<Longrightarrow> h_job_id h = h_job_id row" using row hs by (auto simp: sel_def)
  have put: "upd_where sel upd (heads r) = put_head (upd row) (heads r)"
    using upd_where_put [where sel = sel and upd = upd, OF dis row(1) sel] by (simp add: upd_def)
  have nl: "no_lease (upd row)" using hok(8) hs by (auto simp: upd_def no_lease_def ACTIVE_def)
  then have "head_ok c (upd row)" using j hok hs by (intro head_ok_write [OF e]) (auto simp: upd_def)
  then have "head_step c (micros now) row (upd row)"
    using hs j nl by (intro head_step.derived) (auto simp: upd_def moved_def)
  then show ?thesis
    using event_frame [OF ev [folded upd_def]] put row j hs out res
    by (intro disjI2 exI [of _ row] exI [of _ "upd row"] exI [of _ j]) (simp add: upd_def moved_def derived_incomplete_def)
qed simp

section \<open>Creation\<close>

lemma make_room_cases:
  assumes "repo_ok c r" "make_room_for_job c r = Inr r1"
  shows "\<exists>D. heads r1 = del_where (\<lambda>h. h_job_id h \<in> D) (heads r)
     \<and> (\<forall>h \<in> set (heads r). h_job_id h \<in> D \<longrightarrow> h_state h \<in> TERMINAL)"
    "target_ops r1 = target_ops r" "events r1 = events r" "next_event_id r1 = next_event_id r"
    "max_jobs c \<noteq> 0 \<Longrightarrow> length (heads r) \<le> max_jobs c \<Longrightarrow> length (heads r1) < max_jobs c"
proof -
  have "(\<exists>D. heads r1 = del_where (\<lambda>h. h_job_id h \<in> D) (heads r)
     \<and> (\<forall>h \<in> set (heads r). h_job_id h \<in> D \<longrightarrow> h_state h \<in> TERMINAL)) \<and> target_ops r1 = target_ops r \<and> events r1 = events r
     \<and> next_event_id r1 = next_event_id r \<and> (max_jobs c \<noteq> 0 \<longrightarrow> length (heads r) \<le> max_jobs c \<longrightarrow> length (heads r1) < max_jobs c)"
  proof (cases "max_jobs c = 0 \<or> length (heads r) < max_jobs c")
    case True
    then show ?thesis using assms(2) by (auto simp: make_room_for_job_def del_where_def intro!: exI [of _ "{}"])
  next
    case False
    define rows where "rows = order_limit (\<lambda>h. (h_updated_at_us h, h_job_id h))
       (length (heads r) - (max_jobs c - max 1 (max_jobs c div 10))) (filter (\<lambda>h. h_state h \<in> TERMINAL) (heads r))"
    have r1: "rows \<noteq> []" "r1 = r\<lparr>heads := del_where (\<lambda>h. h_job_id h \<in> h_job_id ` set rows) (heads r)\<rparr>"
      using assms(2) False by (auto simp: make_room_for_job_def Let_def rows_def split: if_splits)
    have sub: "set rows \<subseteq> {h \<in> set (heads r). h_state h \<in> TERMINAL}"
      unfolding rows_def using order_limit_subset by fastforce
    have terminal: "h_state h \<in> TERMINAL" if h: "h \<in> set (heads r)" and hid: "h_job_id h \<in> h_job_id ` set rows" for h
    proof -
      obtain y where y: "y \<in> set rows" "h_job_id h = h_job_id y" using hid by blast
      then have "y \<in> set (heads r)" "h_state y \<in> TERMINAL" using sub by auto
      then show ?thesis using key_inj [OF repo_okD(1) [OF assms(1)] h _ y(2)] by simp
    qed
    obtain x where "x \<in> set rows" using r1(1) by (cases rows) auto
    then have "x \<in> set (heads r)" "h_job_id x \<in> h_job_id ` set rows" using sub by auto
    then have "length (heads r1) < length (heads r)"
      unfolding r1(2) del_where_def by (simp add: length_filter_less)
    then show ?thesis using r1(2) terminal by auto
  qed
  then show "\<exists>D. heads r1 = del_where (\<lambda>h. h_job_id h \<in> D) (heads r)
     \<and> (\<forall>h \<in> set (heads r). h_job_id h \<in> D \<longrightarrow> h_state h \<in> TERMINAL)"
    "target_ops r1 = target_ops r" "events r1 = events r" "next_event_id r1 = next_event_id r"
    "max_jobs c \<noteq> 0 \<Longrightarrow> length (heads r) \<le> max_jobs c \<Longrightarrow> length (heads r1) < max_jobs c" by blast+
qed

text \<open>A successful \<open>create\<close> replays a request or appends one head, and then evicts at most terminal
  ones.\<close>

lemma createE:
  assumes ok: "repo_ok c r" and run: "create c job key fp r = Inr (r', j, b)"
  obtains h k where "b = False" "r' = r" "h \<in> set (heads r)" "key \<noteq> None" "k = strip (the key)" "h_idempotency_key h = Some k"
    "h_request_fingerprint h = fp" "j = h_payload h"
  | r1 n D k where "b = True" "encode c job = Inr (j, n)" "job_id j \<notin> h_job_id ` set (heads r)"
    "make_room_for_job c r = Inr r1" "heads r1 = del_where (\<lambda>h. h_job_id h \<in> D) (heads r)"
    "\<forall>h \<in> set (heads r). h_job_id h \<in> D \<longrightarrow> h_state h \<in> TERMINAL"
    "heads r' = heads r1 @ [new_head j n k fp]" "target_ops r' = target_ops r" "head_ok c (new_head j n k fp)"
    "event c j 0 (the (updated_at j)) n (r1\<lparr>heads := heads r1 @ [new_head j n k fp]\<rparr>) = Inr r'"
    "k = map_option strip key" "\<forall>x. k = Some x \<longrightarrow> (\<forall>h \<in> set (heads r). h_idempotency_key h \<noteq> Some x)"
proof -
  obtain v n k where e: "encode c job = Inr (v, n)" and k: "check_key key fp = Inr k"
    using run by (auto simp: create_def)
  have k': "k = map_option strip key"
    using k by (auto simp: check_key_def Let_def split: option.splits if_splits)
  let ?f = "case k of None \<Rightarrow> None | Some x \<Rightarrow> fetch_where (\<lambda>h. h_idempotency_key h = Some x) (heads r)"
  show thesis
  proof (cases ?f)
    case (Some h)
    then obtain x where x: "k = Some x" "fetch_where (\<lambda>h. h_idempotency_key h = Some x) (heads r) = Some h"
      by (auto split: option.splits)
    note h = fetch_where_Some [OF x(2)]
    have key: "key \<noteq> None" "x = strip (the key)" using x(1) k' by auto
    have "validate_job (h_payload h) = Inr (h_payload h)" using head_okD(1) repo_okD(2) [OF ok] h by blast
    then show thesis
      using that(1) [of h x] run e k Some x h key by (auto simp: create_def split: if_splits)
  next
    case None
    obtain u where u: "updated_at v = Some u" using validate_job_fields(6) [OF encodeD(1) [OF e]] by blast
    obtain r1 where r1: "make_room_for_job c r = Inr r1" "j = v" "b = True" "job_id v \<notin> h_job_id ` set (heads r)"
      "event c v 0 u n (r1\<lparr>heads := heads r1 @ [new_head v n k fp]\<rparr>) = Inr r'"
      using run e k None u by (fastforce simp: create_def split: if_splits)
    note room = make_room_cases [OF ok r1(1)]
    obtain D where D: "heads r1 = del_where (\<lambda>h. h_job_id h \<in> D) (heads r)"
      "\<forall>h \<in> set (heads r). h_job_id h \<in> D \<longrightarrow> h_state h \<in> TERMINAL" using room(1) by blast
    have "head_ok c (new_head v n k fp)"
      by (rule head_ok_write [OF e]) (auto simp: new_head_def no_lease_def u)
    moreover have "\<forall>x. k = Some x \<longrightarrow> (\<forall>h \<in> set (heads r). h_idempotency_key h \<noteq> Some x)"
      using None by (auto simp: fetch_where_None split: option.splits)
    ultimately show thesis
      using that(2) [of n r1 D k] e r1 D event_frame [OF r1(5)] room(2) k' u by simp
  qed
qed

lemma new_head_fields [simp]:
  "h_job_id (new_head j n k fp) = job_id j" "h_state (new_head j n k fp) = state j" "h_target_id (new_head j n k fp) = target_id j"
  "h_revision (new_head j n k fp) = 0" "h_lease_epoch (new_head j n k fp) = 0" "h_lease_expires_at_us (new_head j n k fp) = None"
  "h_idempotency_key (new_head j n k fp) = k" "h_payload (new_head j n k fp) = j"
  "h_request_fingerprint (new_head j n k fp) = fp"
  by (simp_all add: new_head_def)

lemma create_ok:
  assumes ok: "repo_ok c r" and run: "create c job key fp r = Inr (r', j, b)"
  shows "repo_ok c r'"
  using assms
proof (cases rule: createE)
  case (2 r1 n D k)
  then show ?thesis
    using ok by (auto simp: repo_ok_def distinct_del_where image_iff)
qed (use ok in simp)

end
