(* ===== verification/Clocked_System.thy ===== *)
theory Clocked_System
  imports Py_Prelude
begin

text \<open>
  Interface of the stores that grant leases: a system whose steps carry a clock reading, and an
  invariant that may weaken as the clock advances. \<open>clocked_reach init step t s\<close> says that \<open>s\<close> is
  reached by steps whose readings never decrease, the last of them at most \<open>t\<close>. The locale
  \<open>clocked_invariant\<close> is the contract a store discharges (its initial states, its steps and the
  passage of time keep the invariant); its theorem is the rule induction every store uses.
\<close>

inductive clocked_reach :: "('s \<Rightarrow> bool) \<Rightarrow> (int \<Rightarrow> 's \<Rightarrow> 's \<Rightarrow> bool) \<Rightarrow> int \<Rightarrow> 's \<Rightarrow> bool"
  for init step where
  start: "init s \<Longrightarrow> clocked_reach init step t s"
| tick: "clocked_reach init step t s \<Longrightarrow> t \<le> t' \<Longrightarrow> clocked_reach init step t' s"
| step: "clocked_reach init step t s \<Longrightarrow> step t s s' \<Longrightarrow> clocked_reach init step t s'"

locale clocked_invariant =
  fixes init :: "'s \<Rightarrow> bool" and step :: "int \<Rightarrow> 's \<Rightarrow> 's \<Rightarrow> bool" and inv :: "int \<Rightarrow> 's \<Rightarrow> bool"
  assumes init_inv: "init s \<Longrightarrow> inv t s"
    and tick_inv: "inv t s \<Longrightarrow> t \<le> t' \<Longrightarrow> inv t' s"
    and step_inv: "inv t s \<Longrightarrow> step t s s' \<Longrightarrow> inv t s'"
begin

lemma reach_inv: "clocked_reach init step t s \<Longrightarrow> inv t s"
  by (induction rule: clocked_reach.induct) (auto intro: init_inv tick_inv step_inv)

text \<open>The invariant also holds after any further run.\<close>

lemma run_inv:
  assumes "inv t s" "(step t)\<^sup>*\<^sup>* s s'"
  shows "inv t s'"
  using assms(2,1) by (induction) (auto intro: step_inv)

end

text \<open>Two contracts of one system combine.\<close>

locale clocked_invariant2 = clocked_invariant init step inv
  for init :: "'s \<Rightarrow> bool" and step :: "int \<Rightarrow> 's \<Rightarrow> 's \<Rightarrow> bool" and inv :: "int \<Rightarrow> 's \<Rightarrow> bool" +
  fixes inv2 :: "int \<Rightarrow> 's \<Rightarrow> bool"
  assumes init_inv2: "init s \<Longrightarrow> inv2 t s"
    and tick_inv2: "inv t s \<Longrightarrow> inv2 t s \<Longrightarrow> t \<le> t' \<Longrightarrow> inv2 t' s"
    and step_inv2: "inv t s \<Longrightarrow> inv2 t s \<Longrightarrow> step t s s' \<Longrightarrow> inv2 t s'"

sublocale clocked_invariant2 \<subseteq> both: clocked_invariant init step "\<lambda>t s. inv t s \<and> inv2 t s"
  by unfold_locales
    (auto intro: init_inv tick_inv step_inv init_inv2 tick_inv2 step_inv2)

end
