(* ===== verification/Job_System.thy ===== *)
theory Job_System
  imports Job_Lifecycle Clocked_System
begin

text \<open>
  The job repository as a system: every public operation is a value of \<open>job_op\<close>, \<open>apply_op\<close> runs it
  (the committed state and the exception it raised, if any), and \<open>job_step\<close> is one operation issued
  at a clock reading. Serialised writers (\<open>BEGIN IMMEDIATE\<close>) make every execution of several Form
  processes one sequence of such steps. The theory shows the invariants of the reachable states: the
  tables stay well-formed, and a target has at most one live holder, whether a leased job or a
  direct target operation.
\<close>

section \<open>Operations as values\<close>

datatype job_op =
    Create scan_job "string option" "string option"
  | Claim string datetime timedelta int "string list" string
  | Renew claimed_scan_job datetime timedelta
  | Complete claimed_scan_job scan_job datetime
  | Cancel string datetime
  | Retry string datetime
  | Derived string derived_state int bool "string option" int datetime
  | Acquire string string datetime timedelta string
  | Release target_operation_lease
  | Renew_op target_operation_lease datetime timedelta
  | Import "scan_job result list" datetime

fun apply_op :: "job_config \<Rightarrow> job_op \<Rightarrow> repo \<Rightarrow> repo \<times> exn option" where
  "apply_op c (Create j key fp) r = commit r (create c j key fp r)"
| "apply_op c (Claim w now ttl n excl token) r = commit r (claim_next c w now ttl n excl token r)"
| "apply_op c (Renew k now ttl) r = commit r (renew c k now ttl r)"
| "apply_op c (Complete k j now) r = commit r (complete c k j now r)"
| "apply_op c (Cancel jid now) r = commit r (request_cancel c jid now r)"
| "apply_op c (Retry jid now) r = commit r (manual_retry c jid now r)"
| "apply_op c (Derived jid st n tr reason att now) r =
     commit r (update_derived_result c jid st n tr reason att now r)"
| "apply_op c (Acquire tid ow now ttl token) r = commit r (acquire_target_operation c tid ow now ttl token r)"
| "apply_op c (Release l) r = commit r (rbind (release_target_operation c l r) (\<lambda>r1. Inr (r1, ())))"
| "apply_op c (Renew_op l now ttl) r = commit r (renew_target_operation c l now ttl r)"
| "apply_op c (Import vs now) r =
     (case import_legacy c now vs r 0 of (r1, Inl e) \<Rightarrow> (r1, Some e) | (r1, Inr _) \<Rightarrow> (r1, None))"

text \<open>The clock reading an operation is issued at; creation and import read no lease.\<close>

fun op_now :: "job_op \<Rightarrow> datetime option" where
  "op_now (Claim w now ttl n excl token) = Some now"
| "op_now (Renew k now ttl) = Some now"
| "op_now (Complete k j now) = Some now"
| "op_now (Cancel jid now) = Some now"
| "op_now (Retry jid now) = Some now"
| "op_now (Derived jid st n tr reason att now) = Some now"
| "op_now (Acquire tid ow now ttl token) = Some now"
| "op_now (Renew_op l now ttl) = Some now"
| "op_now _ = None"

definition issued_at :: "int \<Rightarrow> job_op \<Rightarrow> bool" where
  "issued_at t op = (case op_now op of None \<Rightarrow> True | Some now \<Rightarrow> micros now = t)"

definition job_step :: "job_config \<Rightarrow> int \<Rightarrow> repo \<Rightarrow> repo \<Rightarrow> bool" where
  "job_step c t r r' = (\<exists>op. issued_at t op \<and> r' = fst (apply_op c op r))"

definition job_reach :: "job_config \<Rightarrow> int \<Rightarrow> repo \<Rightarrow> bool" where
  "job_reach c = clocked_reach (\<lambda>r. r = empty_repo) (job_step c)"

text \<open>An import is a sequence of creations: what each of them keeps, the import keeps.\<close>

lemma import_keeps:
  assumes keep: "\<And>r j r' x. P r \<Longrightarrow> create c j None None r = Inr (r', x) \<Longrightarrow> P r'" and "P r"
  shows "P (fst (import_legacy c now vs r n))"
  using assms(2)
proof (induction vs arbitrary: r n)
  case (Cons v vs)
  show ?case
  proof (cases v)
    case (Inr j)
    show ?thesis
    proof (cases "get_job r (job_id j) = Inr None")
      case True
      then show ?thesis
        using Cons Inr keep [OF Cons.prems]
        by (cases "create c (legacy_job now j) None None r") (auto split: prod.splits)
    next
      case False
      then show ?thesis
        using Cons Inr by (cases "get_job r (job_id j)") (auto split: option.splits)
    qed
  qed (use Cons in simp)
qed simp

section \<open>Well-formedness\<close>

lemma put_ok:
  assumes "repo_ok c r" "row \<in> set (heads r)" "heads r' = put_head h' (heads r)" "head_step c t row h'"
    "target_ops r' = target_ops r"
  shows "repo_ok c r'"
proof -
  have "heads_step c t (heads r) (heads r')"
    unfolding assms(3) by (rule put_head_step [OF repo_okD(1) [OF assms(1)] assms(2,4)])
  then show ?thesis
    using repo_ok_step [OF assms(1)] assms(5) repo_okD(3) [OF assms(1)] by simp
qed

lemma renew_ok: "repo_ok c r \<Longrightarrow> renew c k now ttl r = Inr (r', k') \<Longrightarrow> repo_ok c r'"
  by (frule (1) renew_put) (elim exE conjE disjE; auto intro: put_ok)

lemma complete_ok: "repo_ok c r \<Longrightarrow> complete c k j now r = Inr (r', k') \<Longrightarrow> repo_ok c r'"
  by (frule (1) complete_put) (elim exE conjE disjE; auto intro: put_ok)

lemma cancel_ok: "repo_ok c r \<Longrightarrow> request_cancel c jid now r = Inr (r', k') \<Longrightarrow> repo_ok c r'"
  by (frule (1) request_cancel_put) (elim exE conjE disjE; auto intro: put_ok)

lemma retry_ok: "repo_ok c r \<Longrightarrow> manual_retry c jid now r = Inr (r', k') \<Longrightarrow> repo_ok c r'"
  by (frule (1) manual_retry_put) (elim exE conjE disjE; auto intro: put_ok)

lemma derived_ok: "repo_ok c r \<Longrightarrow> update_derived_result c jid st n tr reason att now r = Inr (r', k') \<Longrightarrow> repo_ok c r'"
  by (frule (1) update_derived_put) (elim exE conjE disjE; auto intro: put_ok)

lemmas op_ok = create_ok claim_next_ok(2) acquire_ok(2) release_ok(2) renew_op_ok(2) renew_ok complete_ok cancel_ok
  retry_ok derived_ok

lemma apply_op_ok:
  assumes "repo_ok c r"
  shows "repo_ok c (fst (apply_op c op r))"
proof (cases op)
  case (Import vs now)
  have "repo_ok c (fst (import_legacy c now vs r 0))"
    by (rule import_keeps [where P = "repo_ok c"]) (auto intro: create_ok assms)
  then show ?thesis
    using Import by (auto split: prod.splits sum.splits)
qed (use assms in \<open>auto intro!: commit_fst [where P = "repo_ok c"] dest: op_ok\<close>)

section \<open>One live holder per target\<close>

definition op_live :: "int \<Rightarrow> op_row \<Rightarrow> bool" where
  "op_live t d = (t < o_lease_expires_at_us d)"

definition holders :: "int \<Rightarrow> repo \<Rightarrow> string \<Rightarrow> nat" where
  "holders t r tid = count_where (\<lambda>h. h_target_id h = tid \<and> live_head t h) (heads r)
     + count_where (\<lambda>d. o_target_id d = tid \<and> op_live t d) (target_ops r)"

definition exclusive :: "int \<Rightarrow> repo \<Rightarrow> bool" where
  "exclusive t r = (\<forall>tid. holders t r tid \<le> 1)"

lemma count_where_mono: "(\<And>x. x \<in> set xs \<Longrightarrow> P x \<Longrightarrow> Q x) \<Longrightarrow> count_where P xs \<le> count_where Q xs"
  by (induction xs) (auto simp: count_where_def)

lemma count_where_all2:
  "list_all2 R xs ys \<Longrightarrow> (\<And>x y. R x y \<Longrightarrow> Q y \<Longrightarrow> P x) \<Longrightarrow> count_where Q ys \<le> count_where P xs"
  by (induction rule: list_all2_induct) (auto simp: count_where_def le_SucI)

lemma count_where_del: "count_where P (del_where Q xs) \<le> count_where P xs"
  by (induction xs) (auto simp: count_where_def del_where_def)

lemma count_where_append [simp]: "count_where P (xs @ ys) = count_where P xs + count_where P ys"
  by (simp add: count_where_def)

lemma count_where_single [simp]: "count_where P [x] = (if P x then 1 else 0)"
  by (simp add: count_where_def)

lemma live_head_mono: "live_head t' h \<Longrightarrow> t \<le> t' \<Longrightarrow> live_head t h"
  by (auto simp: live_head_def sql_gt_def split: option.splits)

lemma exclusive_tick:
  assumes "exclusive t r" "t \<le> t'"
  shows "exclusive t' r"
proof -
  have "holders t' r tid \<le> holders t r tid" for tid
    unfolding holders_def using assms(2)
    by (intro add_mono count_where_mono) (auto simp: op_live_def dest: live_head_mono)
  then show ?thesis using assms(1) le_trans unfolding exclusive_def by blast
qed

text \<open>A change that makes no head and no operation live keeps the exclusion.\<close>

lemma exclusive_quiet:
  assumes "exclusive t r" "list_all2 (quiet t) (heads r) (heads r')"
    "\<And>tid. count_where (\<lambda>d. o_target_id d = tid \<and> op_live t d) (target_ops r')
       \<le> count_where (\<lambda>d. o_target_id d = tid \<and> op_live t d) (target_ops r)"
  shows "exclusive t r'"
proof -
  have "holders t r' tid \<le> holders t r tid" for tid
    unfolding holders_def
    by (intro add_mono count_where_all2 [OF assms(2)] assms(3)) (auto simp: quiet_def)
  then show ?thesis using assms(1) le_trans unfolding exclusive_def by blast
qed

lemma put_quiet:
  assumes "distinct (map h_job_id hs)" "row \<in> set hs" "quiet t row h'"
  shows "list_all2 (quiet t) hs (put_head h' hs)"
proof -
  have id: "h_job_id h' = h_job_id row" using assms(3) by (simp add: quiet_def)
  have "h = row" if "h \<in> set hs" "h_job_id h = h_job_id row" for h
    using key_inj [OF assms(1) that(1) assms(2) that(2)] .
  then show ?thesis
    unfolding put_head_def list_all2_map2 using assms(3) by (fastforce simp: list_all2_same id)
qed

lemma exclusive_put:
  assumes "repo_ok c r" "exclusive t r" "row \<in> set (heads r)" "heads r' = put_head h' (heads r)" "quiet t row h'"
    "target_ops r' = target_ops r"
  shows "exclusive t r'"
  using exclusive_quiet [OF assms(2)] put_quiet [OF repo_okD(1) [OF assms(1)] assms(3,5)] assms(4,6) by simp

text \<open>The step of one head is quiet unless it is a claim.\<close>

lemma head_step_quiet:
  assumes "head_step c t h h'" "\<not> full_lease h' \<or> live_head t h"
  shows "quiet t h h'"
  using head_step_fields(1,2) [OF assms(1)] head_step_live [OF assms(1)] assms(2) by (auto simp: quiet_def)

lemma cancel_quiet:
  assumes "h_state h' = (if h_state h = RUNNING then CANCELLING else CANCELLED)" "moved h h'"
    "h_lease_expires_at_us h' = h_lease_expires_at_us h"
  shows "quiet t h h'"
  using assms by (auto simp: quiet_def moved_def live_head_def ACTIVE_def)

lemma not_live_full: "no_lease h \<Longrightarrow> \<not> full_lease h"
  by (simp add: no_lease_def full_lease_def)

lemma renew_exclusive:
  "repo_ok c r \<Longrightarrow> exclusive (micros now) r \<Longrightarrow> renew c k now ttl r = Inr (r', k') \<Longrightarrow> exclusive (micros now) r'"
  by (frule (1) renew_put) (elim exE conjE; auto intro: exclusive_put head_step_quiet)

lemma complete_exclusive:
  "repo_ok c r \<Longrightarrow> exclusive (micros now) r \<Longrightarrow> complete c k j now r = Inr (r', k') \<Longrightarrow> exclusive (micros now) r'"
  by (frule (1) complete_put) (elim exE conjE; auto intro: exclusive_put head_step_quiet)

lemma cancel_exclusive:
  assumes "repo_ok c r" "exclusive t r" "request_cancel c jid now r = Inr (r', k')"
  shows "exclusive t r'"
  using request_cancel_put [OF assms(1,3)]
proof (elim disjE exE conjE)
  fix row h'
  assume h: "row \<in> set (heads r)" "heads r' = put_head h' (heads r)" "target_ops r' = target_ops r" "moved row h'"
    "h_lease_expires_at_us h' = h_lease_expires_at_us row" "h_state h' = state k'"
    "state k' = (if h_state row = RUNNING then CANCELLING else CANCELLED)"
  have "quiet t row h'" using h(6,7) by (intro cancel_quiet [OF _ h(4,5)]) simp
  then show ?thesis by (rule exclusive_put [OF assms(1,2) h(1,2) _ h(3)])
qed (use assms(2) in simp)

lemma not_active_quiet: "head_step c t' h h' \<Longrightarrow> h_state h' \<notin> ACTIVE \<Longrightarrow> quiet t h h'"
  by (auto simp: quiet_def live_head_def dest: head_step_fields)

lemma retry_exclusive:
  assumes "repo_ok c r" "exclusive t r" "manual_retry c jid now r = Inr (r', k')"
  shows "exclusive t r'"
proof -
  from manual_retry_put [OF assms(1,3)] obtain row h' where h: "row \<in> set (heads r)" "heads r' = put_head h' (heads r)"
    "target_ops r' = target_ops r" "head_step c (micros now) row h'" "h_payload h' = k'" "state k' = PENDING" by blast
  have "head_ok c h'" using head_step_ok [OF h(4) repo_okD(2) [OF assms(1) h(1)]] .
  then have "h_state h' \<notin> ACTIVE" using head_okD(3) h(5,6) by (simp add: ACTIVE_def)
  then show ?thesis using exclusive_put [OF assms(1,2) h(1,2) not_active_quiet [OF h(4)] h(3)] by simp
qed

lemma derived_exclusive:
  assumes "repo_ok c r" "exclusive t r" "update_derived_result c jid st n tr reason att now r = Inr (r', out)"
  shows "exclusive t r'"
  using update_derived_put [OF assms(1,3)]
proof (elim disjE exE conjE)
  fix row h' j
  assume h: "row \<in> set (heads r)" "heads r' = put_head h' (heads r)" "target_ops r' = target_ops r"
    "head_step c (micros now) row h'" "h_payload h' = j" "state j = SUCCEEDED"
  have "head_ok c h'" using head_step_ok [OF h(4) repo_okD(2) [OF assms(1) h(1)]] .
  then have "h_state h' \<notin> ACTIVE" using head_okD(3) h(5,6) by (simp add: ACTIVE_def)
  then show ?thesis using exclusive_put [OF assms(1,2) h(1,2) not_active_quiet [OF h(4)] h(3)] by simp
qed (use assms(2) in simp)

lemma create_exclusive:
  assumes "repo_ok c r" "exclusive t r" "create c job key fp r = Inr (r', j, b)"
  shows "exclusive t r'"
  using assms(1,3)
proof (cases rule: createE)
  case (2 r1 n D k)
  have "holders t r' tid \<le> holders t r tid" for tid
    using count_where_del [of "\<lambda>h. h_target_id h = tid \<and> live_head t h" "\<lambda>h. h_job_id h \<in> D" "heads r"]
    by (simp add: holders_def 2(5,7,8) live_head_def sql_gt_def)
  then show ?thesis using assms(2) le_trans unfolding exclusive_def by blast
qed (use assms(2) in simp)

lemma release_exclusive:
  "exclusive t r \<Longrightarrow> release_target_operation c l r = Inr r' \<Longrightarrow> exclusive t r'"
  by (erule exclusive_quiet)
    (auto simp: release_target_operation_def list_all2_same count_where_del split: if_splits)

lemma renew_op_exclusive:
  assumes "exclusive (micros now) r" "renew_target_operation c l now ttl r = Inr (r', l')"
  shows "exclusive (micros now) r'"
proof -
  have r': "heads r' = heads r" "target_ops r' = upd_where (\<lambda>d. op_matches c l d \<and> micros now < o_lease_expires_at_us d)
      (\<lambda>d. d\<lparr>o_lease_expires_at_us := micros (now + ttl)\<rparr>) (target_ops r)"
    using assms(2) by (auto simp: renew_target_operation_def Let_def split: if_splits)
  have all2: "list_all2 (\<lambda>d d'. o_target_id d' = o_target_id d \<and> (op_live (micros now) d' \<longrightarrow> op_live (micros now) d))
      (target_ops r) (target_ops r')"
    unfolding r' by (auto simp: upd_where_def list_all2_map2 list_all2_same op_live_def)
  show ?thesis
    by (rule exclusive_quiet [OF assms(1)]) (auto simp: r'(1) list_all2_same intro: count_where_all2 [OF all2])
qed

lemma expire_exclusive: "exclusive t r \<Longrightarrow> exclusive t (expire_ops t' r)"
  by (erule exclusive_quiet) (auto simp: list_all2_same count_where_del)

text \<open>A head may become live when its target has no other live holder.\<close>

lemma exclusive_grant:
  assumes ok: "repo_ok c r" and ex: "exclusive t r" and row: "row \<in> set (heads r)" and free: "\<not> target_busy t r row"
    and put: "heads r' = put_head h' (heads r)" "target_ops r' = target_ops r"
    and same: "h_job_id h' = h_job_id row" "h_target_id h' = h_target_id row"
  shows "exclusive t r'"
  unfolding exclusive_def
proof
  fix tid
  have ids: "map h_job_id (heads r') = map h_job_id (heads r)" by (simp add: put put_head_def)
  show "holders t r' tid \<le> 1"
  proof (cases "tid = h_target_id row")
    case True
    have "count_where (\<lambda>h. h_target_id h = tid \<and> live_head t h) (heads r') \<le> 1"
    proof (rule count_where_key_le1 [where col = h_job_id and k = "h_job_id row"])
      show "distinct (map h_job_id (heads r'))" using ids repo_okD(1) [OF ok] by simp
      show "h_job_id x = h_job_id row" if "x \<in> set (heads r')" "h_target_id x = tid \<and> live_head t x" for x
        using that free True same unfolding put(1) by (auto simp: put_head_def target_busy_def split: if_splits)
    qed
    moreover have "count_where (\<lambda>d. o_target_id d = tid \<and> op_live t d) (target_ops r') = 0"
      using free True by (auto simp: count_where_0 put target_busy_def op_live_def)
    ultimately show ?thesis by (simp add: holders_def)
  next
    case False
    have "list_all2 (\<lambda>h h'. h_target_id h' = tid \<longrightarrow> h' = h) (heads r) (heads r')"
      unfolding put put_head_def list_all2_map2 using same False by (auto simp: list_all2_same)
    then have "count_where (\<lambda>h. h_target_id h = tid \<and> live_head t h) (heads r')
        \<le> count_where (\<lambda>h. h_target_id h = tid \<and> live_head t h) (heads r)"
      by (rule count_where_all2) auto
    then have "holders t r' tid \<le> holders t r tid" by (simp add: holders_def put)
    then show ?thesis using ex le_trans unfolding exclusive_def by blast
  qed
qed

lemma fail_exhausted_exclusive:
  assumes "repo_ok c r" "exclusive (micros now) r" "fail_exhausted c now r = Inr r'"
  shows "exclusive (micros now) r'"
  by (rule exclusive_quiet [OF assms(2) list_all2_mono [OF fail_exhausted_steps(1) [OF assms(1,3)]]])
    (simp_all add: fail_exhausted_steps(2) [OF assms(1,3)] failing_quiet)

lemma claim_next_exclusive:
  assumes "repo_ok c r" "exclusive (micros now) r" "claim_next c w now ttl mx excl token r = Inr (r', k)"
  shows "exclusive (micros now) r'"
  using assms(3)
proof (cases rule: claim_nextE)
  case (3 r1 row)
  let ?r1 = "expire_ops (micros now) r1"
  have ok1: "repo_ok c ?r1" using fail_exhausted_ok [OF assms(1) 3(1)] repo_ok_expire by blast
  have ex1: "exclusive (micros now) ?r1" by (rule expire_exclusive [OF fail_exhausted_exclusive [OF assms(1,2) 3(1)]])
  have row: "row \<in> set (heads ?r1)" "claimable (micros now) row" "\<not> target_busy (micros now) ?r1 row"
    using 3(2) by (auto simp: claim_candidates_def)
  from claim_row_put [OF ok1 row(1,2) 3(4)] obtain h' where
    h': "heads r' = put_head h' (heads ?r1)" "target_ops r' = target_ops ?r1" "head_step c (micros now) row h'" by blast
  show ?thesis
    by (rule exclusive_grant [OF ok1 ex1 row(1,3) h'(1,2) head_step_fields(1,2) [OF h'(3)]])
qed (use assms in \<open>auto intro: expire_exclusive fail_exhausted_exclusive\<close>)

lemma acquire_exclusive:
  assumes "exclusive (micros now) r" "acquire_target_operation c target owner now ttl token r = Inr (r', k)"
  shows "exclusive (micros now) r'"
  using acquire_cases [OF assms(2)]
proof (elim disjE conjE)
  let ?t = "micros now" let ?r1 = "expire_ops ?t r"
  assume A: "\<forall>h \<in> set (heads r). h_target_id h = strip target \<longrightarrow> \<not> live_head ?t h"
    "\<forall>d \<in> set (target_ops ?r1). o_target_id d \<noteq> strip target"
    "heads r' = upd_where (\<lambda>h. h_target_id h = strip target \<and> h_state h \<in> ACTIVE
            \<and> null_or_le (h_lease_expires_at_us h) ?t)
          (\<lambda>h. clear_lease (h\<lparr>h_lease_epoch := Suc (h_lease_epoch h)\<rparr>)) (heads r)"
    "target_ops r' = target_ops ?r1 @ [\<lparr>o_target_id = strip target, o_lease_owner = strip owner,
          o_lease_token_hash = token_hash c token, o_lease_expires_at_us = micros (now + ttl)\<rparr>]"
  have q: "list_all2 (quiet ?t) (heads r) (heads r')"
    unfolding A(3) by (auto simp: upd_where_def list_all2_map2 list_all2_same quiet_def live_head_def sql_gt_def)
  have le: "count_where (\<lambda>h. h_target_id h = tid \<and> live_head ?t h) (heads r')
      \<le> count_where (\<lambda>h. h_target_id h = tid \<and> live_head ?t h) (heads r)" for tid
    by (rule count_where_all2 [OF q]) (auto simp: quiet_def)
  have "holders ?t r' tid \<le> 1" for tid
  proof (cases "tid = strip target")
    case True
    have "count_where (\<lambda>h. h_target_id h = tid \<and> live_head ?t h) (heads r) = 0"
      using A(1) True by (auto simp: count_where_0)
    moreover have "count_where (\<lambda>d. o_target_id d = tid \<and> op_live ?t d) (target_ops ?r1) = 0"
      using A(2) True by (auto simp: count_where_0)
    ultimately show ?thesis using le [of tid] by (simp add: holders_def A(4))
  next
    case False
    then have "holders ?t r' tid \<le> holders ?t ?r1 tid"
      using le [of tid] by (simp add: holders_def A(4))
    then show ?thesis using expire_exclusive [OF assms(1)] le_trans unfolding exclusive_def by blast
  qed
  then show ?thesis by (simp add: exclusive_def)
qed (use assms(1) expire_exclusive in simp)

lemmas op_exclusive = create_exclusive claim_next_exclusive acquire_exclusive release_exclusive renew_op_exclusive
  renew_exclusive complete_exclusive cancel_exclusive retry_exclusive derived_exclusive

lemma commit_exclusive:
  "(\<And>r' x. out = Inr (r', x) \<Longrightarrow> exclusive t r') \<Longrightarrow> exclusive t r \<Longrightarrow> exclusive t (fst (commit r out))"
  by (rule commit_fst)

lemma apply_op_exclusive:
  assumes "repo_ok c r" "exclusive t r" "issued_at t op"
  shows "exclusive t (fst (apply_op c op r))"
proof (cases op)
  case (Import vs now)
  have "repo_ok c (fst (import_legacy c now vs r 0)) \<and> exclusive t (fst (import_legacy c now vs r 0))"
    by (rule import_keeps [where P = "\<lambda>r. repo_ok c r \<and> exclusive t r"]) (use assms in \<open>auto intro: create_ok create_exclusive\<close>)
  then show ?thesis
    using Import by (auto split: prod.splits sum.splits)
qed (use assms in \<open>auto simp: issued_at_def intro!: commit_exclusive dest: op_exclusive\<close>)

interpretation repo_inv: clocked_invariant "\<lambda>r. r = empty_repo" "job_step c" "\<lambda>_. repo_ok c"
  by unfold_locales (auto simp: job_step_def apply_op_ok, simp add: repo_ok_def empty_repo_def)

interpretation repo_inv2: clocked_invariant2 "\<lambda>r. r = empty_repo" "job_step c" "\<lambda>_. repo_ok c" exclusive
proof unfold_locales
  show "exclusive t r" if "r = empty_repo" for t r
    using that by (simp add: exclusive_def holders_def empty_repo_def count_where_def)
  show "exclusive t r'" if "repo_ok c r" "exclusive t r" "job_step c t r r'" for t r r'
    using that by (auto simp: job_step_def apply_op_exclusive)
qed (rule exclusive_tick)

end
