(* ===== verification/Job_Properties.thy ===== *)
theory Job_Properties
  imports Job_System
begin

text \<open>
  The properties of the job repository: the reachable states are well-formed and exclusive, a head
  follows the documented lifecycle, a superseded lease is fenced for ever, capacity and priority of a
  claim, the cancellation race, eviction, idempotent creation, and the round trip of a claim with its
  completion.
\<close>

section \<open>Runs of one job\<close>

fun op_creates :: "job_op \<Rightarrow> string \<Rightarrow> bool" where
  "op_creates (Create j key fp) jid = (strip (job_id j) = jid)"
| "op_creates (Import vs now) jid = (\<exists>j. Inr j \<in> set vs \<and> strip (job_id j) = jid)"
| "op_creates _ jid = False"

definition is_insert :: "job_op \<Rightarrow> bool" where
  "is_insert op = (case op of Create _ _ _ \<Rightarrow> True | Import _ _ \<Rightarrow> True | _ \<Rightarrow> False)"

lemma put_steps:
  assumes "repo_ok c r" "row \<in> set (heads r)" "heads r' = put_head h' (heads r)" "head_step c t row h'"
  shows "heads_step c t (heads r) (heads r')"
  unfolding assms(3) by (rule put_head_step [OF repo_okD(1) [OF assms(1)] assms(2,4)])

lemma renew_steps: "repo_ok c r \<Longrightarrow> renew c k now ttl r = Inr (r', k') \<Longrightarrow> heads_step c (micros now) (heads r) (heads r')"
  using renew_put put_steps by metis

lemma complete_steps:
  "repo_ok c r \<Longrightarrow> complete c k j now r = Inr (r', k') \<Longrightarrow> heads_step c (micros now) (heads r) (heads r')"
  using complete_put put_steps by metis

lemma retry_steps:
  "repo_ok c r \<Longrightarrow> manual_retry c jid now r = Inr (r', k') \<Longrightarrow> heads_step c (micros now) (heads r) (heads r')"
  using manual_retry_put put_steps by metis

lemma cancel_steps:
  "repo_ok c r \<Longrightarrow> request_cancel c jid now r = Inr (r', k') \<Longrightarrow> heads_step c (micros now) (heads r) (heads r')"
  using request_cancel_put put_steps heads_step_refl by metis

lemma derived_steps:
  "repo_ok c r \<Longrightarrow> update_derived_result c jid st n tr reason att now r = Inr (r', k')
    \<Longrightarrow> heads_step c (micros now) (heads r) (heads r')"
  using update_derived_put put_steps heads_step_refl by metis

lemma commit_steps:
  assumes "\<And>r' x. out = Inr (r', x) \<Longrightarrow> heads_step c t (heads r) (heads r')"
  shows "\<exists>t. heads_step c t (heads r) (heads (fst (commit r out)))"
proof (cases out)
  case (Inr b)
  then show ?thesis using assms by (cases b) auto
qed auto

text \<open>Every operation but creation and import moves the heads by lifecycle steps.\<close>

lemma apply_op_steps:
  assumes "repo_ok c r" "\<not> is_insert op"
  shows "\<exists>t. heads_step c t (heads r) (heads (fst (apply_op c op r)))"
proof (cases op)
  case (Release l)
  then show ?thesis
    using release_ok(1) [OF assms(1)] by (cases "release_target_operation c l r") auto
next
  case (Renew_op l now ttl)
  then show ?thesis
    using renew_op_ok(1) [OF assms(1)] by (cases "renew_target_operation c l now ttl r") auto
qed (use assms(2) claim_next_ok(1) [OF assms(1)] acquire_ok(1) [OF assms(1)] renew_steps [OF assms(1)] complete_steps [OF assms(1)]
    cancel_steps [OF assms(1)] retry_steps [OF assms(1)] derived_steps [OF assms(1)]
    in \<open>auto simp: is_insert_def intro!: commit_steps\<close>)

section \<open>Lifecycle\<close>

text \<open>The documented lifecycle of a job, as edges between states.\<close>

fun job_edge :: "scan_job_state \<Rightarrow> scan_job_state \<Rightarrow> bool" where
  "job_edge PENDING s = (s \<in> {RUNNING, FAILED, CANCELLED})"
| "job_edge RETRYING s = (s \<in> {RUNNING, FAILED, CANCELLED})"
| "job_edge RUNNING s = (s \<in> {CANCELLING, RETRYING, SUCCEEDED, FAILED, CANCELLED})"
| "job_edge CANCELLING s = (s \<in> {SUCCEEDED, FAILED, CANCELLED})"
| "job_edge SUCCEEDED s = False"
| "job_edge FAILED s = (s = PENDING)"
| "job_edge CANCELLED s = (s = PENDING)"

lemma head_step_edge: "head_step c t h h' \<Longrightarrow> h_state h' = h_state h \<or> job_edge (h_state h) (h_state h')"
  by (erule head_stepE; cases "h_state h")
    (auto simp: exhausted_head_def claimable_def live_head_def ACTIVE_def dest: kept_fields)

lemma heads_step_at:
  assumes "heads_step c t hs hs'" "distinct (map h_job_id hs)" "h \<in> set hs" "h' \<in> set hs'" "h_job_id h' = h_job_id h"
  shows "head_step c t h h'"
proof -
  obtain i where i: "i < length hs'" "hs' ! i = h'" using assms(4) by (auto simp: in_set_conv_nth)
  have st: "head_step c t (hs ! i) h'" and len: "i < length hs"
    using list_all2_nthD2 [OF assms(1) i(1)] i list_all2_lengthD [OF assms(1)] by auto
  have "hs ! i = h"
    using key_inj [OF assms(2) nth_mem [OF len] assms(3)] head_step_fields(1) [OF st] assms(5) by simp
  then show ?thesis using st by simp
qed


section \<open>Fencing\<close>

definition epoch_from :: "string \<Rightarrow> nat \<Rightarrow> repo \<Rightarrow> bool" where
  "epoch_from jid n r = (\<forall>h \<in> set (heads r). h_job_id h = jid \<longrightarrow> n \<le> h_lease_epoch h)"

lemma epoch_from_steps:
  assumes "heads_step c t hs hs'" "\<forall>h \<in> set hs. h_job_id h = jid \<longrightarrow> n \<le> h_lease_epoch h"
  shows "\<forall>h \<in> set hs'. h_job_id h = jid \<longrightarrow> n \<le> h_lease_epoch h"
  using assms
proof (induction rule: list_all2_induct)
  case (Cons x xs y ys)
  then show ?case using head_step_fields(1,7) [OF Cons(1)] by auto
qed simp

lemma list_all2_ex2: "list_all2 R xs ys \<Longrightarrow> y \<in> set ys \<Longrightarrow> \<exists>x \<in> set xs. R x y"
  by (induction rule: list_all2_induct) auto

lemma create_epoch:
  assumes "repo_ok c r" "create c job key fp r = Inr (r', out)" "strip (job_id job) \<noteq> jid" "epoch_from jid n r"
  shows "epoch_from jid n r'"
proof -
  obtain j b where out: "out = (j, b)" by (cases out)
  show ?thesis
    using assms(1) assms(2) [unfolded out]
  proof (cases rule: createE)
    case (2 r1 m D k)
    have "job_id j \<noteq> jid" using validate_job_fields(8) [OF encodeD(1) [OF 2(2)]] assms(3) by simp
    then show ?thesis using assms(4) by (auto simp: epoch_from_def 2(5,7))
  qed (use assms(4) in simp)
qed

lemma import_epoch:
  assumes "repo_ok c r" "\<forall>j. Inr j \<in> set vs \<longrightarrow> strip (job_id j) \<noteq> jid" "epoch_from jid n r"
  shows "epoch_from jid n (fst (import_legacy c now vs r m))"
  using assms
proof (induction vs arbitrary: r m)
  case (Cons v vs)
  have rest: "\<forall>j. Inr j \<in> set vs \<longrightarrow> strip (job_id j) \<noteq> jid" using Cons.prems(2) by simp
  show ?case
  proof (cases v)
    case (Inr j)
    then have id: "strip (job_id (legacy_job now j)) \<noteq> jid" using Cons.prems(2) by (auto simp: legacy_job_def)
    show ?thesis
    proof (cases "get_job r (job_id j) = Inr None")
      case True
      then show ?thesis
        using Cons.IH [OF _ rest] Cons.prems Inr create_epoch [OF Cons.prems(1) _ id Cons.prems(3)] create_ok [OF Cons.prems(1)]
        by (cases "create c (legacy_job now j) None None r") (auto split: prod.splits)
    next
      case False
      then show ?thesis
        using Cons.IH [OF _ rest] Cons.prems Inr by (cases "get_job r (job_id j)") (auto split: option.splits)
    qed
  qed (use Cons rest in simp)
qed simp

lemma apply_op_epoch:
  assumes "repo_ok c r" "\<not> op_creates op jid" "epoch_from jid n r"
  shows "epoch_from jid n (fst (apply_op c op r))"
proof (cases "is_insert op")
  case False
  then show ?thesis
    using apply_op_steps [OF assms(1) False] epoch_from_steps assms(3) unfolding epoch_from_def by blast
next
  case True
  then show ?thesis
  proof (cases op)
    case (Create j key fp)
    then show ?thesis
      using assms create_epoch [OF assms(1) _ _ assms(3)] by (cases "create c j key fp r") auto
  next
    case (Import vs now)
    then show ?thesis
      using import_epoch [OF assms(1) _ assms(3), of vs now 0] assms(2)
      by (cases "import_legacy c now vs r 0"; cases "snd (import_legacy c now vs r 0)") auto
  qed (auto simp: is_insert_def)
qed

text \<open>Operations after which a job id is not created anew.\<close>

definition run_step :: "job_config \<Rightarrow> string \<Rightarrow> repo \<Rightarrow> repo \<Rightarrow> bool" where
  "run_step c jid r r' = (\<exists>op. \<not> op_creates op jid \<and> r' = fst (apply_op c op r))"

lemma run_epoch:
  assumes "(run_step c jid)\<^sup>*\<^sup>* r r'" "repo_ok c r" "epoch_from jid n r"
  shows "repo_ok c r' \<and> epoch_from jid n r'"
  using assms by (induction) (auto simp: run_step_def apply_op_ok apply_op_epoch)

lemma stale_leased_row:
  assumes "epoch_from (job_id (cl_job k)) n r" "cl_lease_epoch k < n"
  shows "leased_row c k now r = Inl LeaseLostError"
proof (cases "leased_row c k now r")
  case (Inr row)
  then show ?thesis
    using leased_rowD(1,2) [OF Inr] assms by (auto simp: epoch_from_def lease_matches_def)
qed (auto simp: leased_row_def Let_def split: option.splits)

lemma claim_epoch:
  assumes "repo_ok c r" "claim_next c w now ttl mx excl token r = Inr (r', Some k)"
  shows "epoch_from (job_id (cl_job k)) (cl_lease_epoch k) r'"
    "\<exists>h \<in> set (heads r). h_job_id h = job_id (cl_job k) \<and> cl_lease_epoch k = Suc (h_lease_epoch h)"
proof -
  have "epoch_from (job_id (cl_job k)) (cl_lease_epoch k) r' \<and>
    (\<exists>h \<in> set (heads r). h_job_id h = job_id (cl_job k) \<and> cl_lease_epoch k = Suc (h_lease_epoch h))"
    using assms(2)
  proof (cases rule: claim_nextE)
    case (3 r1 row)
    let ?t = "micros now" let ?r1 = "expire_ops ?t r1"
    have ok1: "repo_ok c ?r1" using fail_exhausted_ok [OF assms(1) 3(1)] repo_ok_expire by blast
    have row: "row \<in> set (heads ?r1)" "claimable ?t row" using 3(2) by (auto simp: claim_candidates_def)
    from claim_row_put [OF ok1 row 3(4)] obtain h' where
      h': "heads r' = put_head h' (heads ?r1)" "lease_matches c k h'" "cl_lease_epoch k = Suc (h_lease_epoch row)"
        "job_id (cl_job k) = h_job_id row" by blast
    have "epoch_from (job_id (cl_job k)) (cl_lease_epoch k) r'"
      using h'(2) by (auto simp: epoch_from_def h'(1) put_head_def lease_matches_def)
    moreover have "row \<in> set (heads r1)" using row(1) by simp
    then obtain h where h: "h \<in> set (heads r)" "failing c ?t h row"
      using list_all2_ex2 [OF fail_exhausted_steps(1) [OF assms(1) 3(1)]] by blast
    then have "row = h" using failing_claimable row(2) by blast
    ultimately show ?thesis using h(1) h'(3,4) by auto
  qed auto
  then show "epoch_from (job_id (cl_job k)) (cl_lease_epoch k) r'"
    "\<exists>h \<in> set (heads r). h_job_id h = job_id (cl_job k) \<and> cl_lease_epoch k = Suc (h_lease_epoch h)" by simp_all
qed

lemma stale_claim_fenced_facts:
  assumes "repo_ok c r0" "claim_next c w1 now1 ttl1 mx1 excl1 tok1 r0 = Inr (r1, Some k1)"
    "(run_step c (job_id (cl_job k1)))\<^sup>*\<^sup>* r1 r2"
    "claim_next c w2 now2 ttl2 mx2 excl2 tok2 r2 = Inr (r3, Some k2)" "job_id (cl_job k2) = job_id (cl_job k1)"
    "(run_step c (job_id (cl_job k1)))\<^sup>*\<^sup>* r3 r4"
  shows "\<exists>e. apply_op c (Renew k1 now ttl) r4 = (r4, Some e)" "\<exists>e. apply_op c (Complete k1 j now) r4 = (r4, Some e)"
proof -
  have r2: "repo_ok c r2 \<and> epoch_from (job_id (cl_job k1)) (cl_lease_epoch k1) r2"
    using run_epoch [OF assms(3) claim_next_ok(2) [OF assms(1,2)] claim_epoch(1) [OF assms(1,2)]] .
  then have lt: "cl_lease_epoch k1 < cl_lease_epoch k2"
    using claim_epoch(2) [OF _ assms(4)] assms(5) by (fastforce simp: epoch_from_def)
  have "epoch_from (job_id (cl_job k1)) (cl_lease_epoch k2) r4"
    using run_epoch [OF assms(6) claim_next_ok(2) [OF _ assms(4)]] claim_epoch(1) [OF _ assms(4)] r2 assms(5) by simp
  note lost = stale_leased_row [OF this lt]
  show "\<exists>e. apply_op c (Renew k1 now ttl) r4 = (r4, Some e)" by (simp add: renew_def lost)
  show "\<exists>e. apply_op c (Complete k1 j now) r4 = (r4, Some e)"
    by (cases "encode c j") (auto simp: complete_def lost Let_def)
qed

text \<open>C2: Lease fencing. Once a later claim of the same job has been granted, the older capability is
  dead for ever: after any further sequence of operations that does not create the job id anew,
  renewing or completing with it raises and changes nothing.\<close>

theorem stale_claim_fenced:
  assumes "repo_ok c r0" "claim_next c w1 now1 ttl1 mx1 excl1 tok1 r0 = Inr (r1, Some k1)"
    "(run_step c (job_id (cl_job k1)))\<^sup>*\<^sup>* r1 r2"
    "claim_next c w2 now2 ttl2 mx2 excl2 tok2 r2 = Inr (r3, Some k2)" "job_id (cl_job k2) = job_id (cl_job k1)"
    "(run_step c (job_id (cl_job k1)))\<^sup>*\<^sup>* r3 r4"
  shows "(\<exists>e. apply_op c (Renew k1 now ttl) r4 = (r4, Some e)) \<and> (\<exists>e. apply_op c (Complete k1 j now) r4 = (r4, Some e))"
  using stale_claim_fenced_facts [OF assms] by blast

section \<open>Reachable repositories\<close>

text \<open>C4: The tables stay well-formed. In every reachable repository the job ids are distinct, every
  stored payload is a validated job within the record limit whose columns repeat it, and a lease is
  complete or absent, and absent unless the job is executing.\<close>

theorem repo_well_formed: "job_reach c t r \<Longrightarrow> repo_ok c r"
  unfolding job_reach_def by (rule repo_inv.reach_inv)

text \<open>C1: Target exclusion. When the clock readings of the operations do not decrease, at no reachable
  point do two capabilities act on one target: the live leased jobs and the live direct operations of
  a target are together at most one.\<close>

theorem target_exclusion: "job_reach c t r \<Longrightarrow> holders t r tid \<le> 1"
  unfolding job_reach_def using repo_inv2.both.reach_inv by (auto simp: exclusive_def)

section \<open>Claims\<close>

text \<open>What a granted claim consists of.\<close>

lemma claim_granted:
  assumes "repo_ok c r" "claim_next c w now ttl mx excl token r = Inr (r', Some k)"
  shows "\<exists>row h'. row \<in> set (heads r) \<and> claimable (micros now) row \<and> \<not> target_busy (micros now) r' row
    \<and> job_id (cl_job k) = h_job_id row \<and> h_job_id row \<notin> set excl \<and> h' \<in> set (heads r') \<and> lease_matches c k h'
    \<and> h_payload h' = cl_job k \<and> h_target_id h' = h_target_id row \<and> h_job_id h' = h_job_id row
    \<and> h_state h' = state (cl_job k) \<and> state (cl_job k) = (if h_state row = CANCELLING then CANCELLING else RUNNING)
    \<and> attempt (cl_job k) = attempt (claim_job now (h_payload row)) \<and> max_attempts (cl_job k) = h_max_attempts row
    \<and> h_lease_expires_at_us h' = Some (micros (now + ttl)) \<and> h_heartbeat_at_us h' = Some (micros now)"
  using assms(2)
proof (cases rule: claim_nextE)
  case (3 r1 row)
  let ?t = "micros now" let ?r1 = "expire_ops ?t r1"
  have ok1: "repo_ok c ?r1" using fail_exhausted_ok [OF assms(1) 3(1)] repo_ok_expire by blast
  have row: "row \<in> set (heads ?r1)" "claimable ?t row" and free: "\<not> target_busy ?t ?r1 row" "h_job_id row \<notin> set excl"
    using 3(2) by (auto simp: claim_candidates_def)
  from claim_row_put [OF ok1 row 3(4)] obtain h' where
    h': "heads r' = put_head h' (heads ?r1)" "target_ops r' = target_ops ?r1" "head_step c ?t row h'" "lease_matches c k h'"
      "h_payload h' = cl_job k" "h_lease_expires_at_us h' = Some (micros (now + ttl))" "h_heartbeat_at_us h' = Some ?t"
      "state (cl_job k) = (if h_state row = CANCELLING then CANCELLING else RUNNING)"
      "attempt (cl_job k) = attempt (claim_job now (h_payload row))" "max_attempts (cl_job k) = h_max_attempts row"
      "job_id (cl_job k) = h_job_id row" by blast
  have "row \<in> set (heads r1)" using row(1) by simp
  then obtain h where h: "h \<in> set (heads r)" "failing c ?t h row"
    using list_all2_ex2 [OF fail_exhausted_steps(1) [OF assms(1) 3(1)]] by blast
  then have "row = h" using failing_claimable row(2) by blast
  moreover note id = head_step_fields(1,2) [OF h'(3)]
  moreover have "h' \<in> set (heads r')" unfolding h'(1) by (rule put_head_mem [OF row(1) id(1)])
  moreover have "\<not> target_busy ?t r' row"
    using free(1) id by (auto simp: target_busy_def h'(1,2) put_head_def split: if_splits)
  moreover have "h_state h' = state (h_payload h')"
    using head_okD(3) head_step_ok [OF h'(3) repo_okD(2) [OF ok1 row(1)]] by blast
  ultimately show ?thesis using h h' row(2) free(2) by (intro exI [of _ row] exI [of _ h']) simp
qed auto

lemma claim_budget_facts:
  assumes "repo_ok c r" "claim_next c w now ttl mx excl token r = Inr (r', Some k)"
  shows "job_id (cl_job k) \<notin> set excl" "state (cl_job k) \<in> {RUNNING, CANCELLING}"
    "state (cl_job k) = RUNNING \<Longrightarrow> attempt (cl_job k) \<le> max_attempts (cl_job k) + 1"
    "h \<in> set (heads r') \<Longrightarrow> h_job_id h = job_id (cl_job k) \<Longrightarrow> \<not> target_busy (micros now) r' h"
proof -
  from claim_granted [OF assms] obtain row h' where
    g: "row \<in> set (heads r)" "claimable (micros now) row" "\<not> target_busy (micros now) r' row"
      "job_id (cl_job k) = h_job_id row" "h_job_id row \<notin> set excl" "h' \<in> set (heads r')"
      "h_target_id h' = h_target_id row" "h_job_id h' = h_job_id row"
      "state (cl_job k) = (if h_state row = CANCELLING then CANCELLING else RUNNING)"
      "attempt (cl_job k) = attempt (claim_job now (h_payload row))" "max_attempts (cl_job k) = h_max_attempts row" by blast
  note hok = head_okD [OF repo_okD(2) [OF assms(1) g(1)]]
  show "job_id (cl_job k) \<notin> set excl" "state (cl_job k) \<in> {RUNNING, CANCELLING}" using g by auto
  show "attempt (cl_job k) \<le> max_attempts (cl_job k) + 1" if "state (cl_job k) = RUNNING"
    using g(2,9-11) that hok(3-5) by (auto simp: claim_job_def Let_def claimable_def split: if_splits)
  show "\<not> target_busy (micros now) r' h" if "h \<in> set (heads r')" "h_job_id h = job_id (cl_job k)"
  proof -
    have "h = h'" using key_inj [OF repo_okD(1) [OF claim_next_ok(2) [OF assms]] that(1) g(6)] that(2) g(4,8) by simp
    then show ?thesis using g(3,7,8) by (simp add: target_busy_def)
  qed
qed

text \<open>A claim respects the execution budget. A granted claim is of a job that was due and not
  excluded; it puts the job in \<open>RUNNING\<close> (or leaves a cancelling job cancelling), on a target no other
  live job or operation holds, and, however often workers crash, never lets an executing job exceed
  its configured attempts by more than the one reconciliation-only claim.\<close>

theorem claim_budget:
  assumes "repo_ok c r" "claim_next c w now ttl mx excl token r = Inr (r', Some k)"
  shows "job_id (cl_job k) \<notin> set excl \<and> state (cl_job k) \<in> {RUNNING, CANCELLING}
    \<and> (state (cl_job k) = RUNNING \<longrightarrow> attempt (cl_job k) \<le> max_attempts (cl_job k) + 1)
    \<and> (\<forall>h \<in> set (heads r'). h_job_id h = job_id (cl_job k) \<longrightarrow> \<not> target_busy (micros now) r' h)"
  using claim_budget_facts [OF assms] by blast

lemma count_where_put:
  assumes "distinct (map h_job_id hs)" "row \<in> set hs" "h_job_id h' = h_job_id row"
  shows "count_where P (put_head h' hs) \<le> Suc (count_where P hs)"
  using assms
proof (induction hs)
  case (Cons a hs)
  have rest: "put_head h' hs = hs" if "h_job_id a = h_job_id h'"
    unfolding put_head_def by (rule map_idI) (use Cons.prems(1) that in \<open>auto simp: image_iff\<close>)
  show ?case
  proof (cases "h_job_id a = h_job_id h'")
    case True
    then show ?thesis using rest by (auto simp: put_head_def count_where_def)
  next
    case False
    then have "row \<in> set hs" using Cons.prems(2,3) by auto
    then have "count_where P (put_head h' hs) \<le> Suc (count_where P hs)" using Cons by simp
    then show ?thesis using False by (auto simp: put_head_def count_where_def)
  qed
qed simp

text \<open>Worker capacity. After a granted claim at most \<open>max_running\<close> executions are live at the time
  of the claim.\<close>

theorem claim_capacity:
  assumes "repo_ok c r" "claim_next c w now ttl mx excl token r = Inr (r', Some k)"
  shows "int (count_where (live_head (micros now)) (heads r')) \<le> mx"
  using assms(2)
proof (cases rule: claim_nextE)
  case (3 r1 row)
  let ?t = "micros now" let ?r1 = "expire_ops ?t r1"
  have ok1: "repo_ok c ?r1" using fail_exhausted_ok [OF assms(1) 3(1)] repo_ok_expire by blast
  have row: "row \<in> set (heads ?r1)" "claimable ?t row" using 3(2) by (auto simp: claim_candidates_def)
  from claim_row_put [OF ok1 row 3(4)] obtain h' where
    h': "heads r' = put_head h' (heads ?r1)" "head_step c ?t row h'" by blast
  have "count_where (live_head ?t) (heads r') \<le> Suc (count_where (live_head ?t) (heads r1))"
    unfolding h'(1) using count_where_put [OF repo_okD(1) [OF ok1] row(1) head_step_fields(1) [OF h'(2)]] by simp
  then show ?thesis using 3(5) by linarith
qed auto

text \<open>Claim priority. The job a claim takes is a least one in the documented order among all jobs
  that could be taken: cancelling jobs first, then abandoned executions, then waiting jobs, each by
  availability, creation time and id.\<close>

theorem claim_priority:
  assumes "repo_ok c r" "claim_next c w now ttl mx excl token r = Inr (r', Some k)" "fail_exhausted c now r = Inr r1"
    "h \<in> set (heads r1)" "claimable (micros now) h" "\<not> target_busy (micros now) (expire_ops (micros now) r1) h"
    "h_job_id h \<notin> set excl"
  shows "\<exists>row \<in> set (heads r). h_job_id row = job_id (cl_job k) \<and> claim_key row \<le> claim_key h"
  using assms(2)
proof (cases rule: claim_nextE)
  case (3 r1' row)
  let ?t = "micros now" let ?r1 = "expire_ops ?t r1"
  have eq: "r1' = r1" using 3(1) assms(3) by simp
  have ok1: "repo_ok c ?r1" using fail_exhausted_ok [OF assms(1,3)] repo_ok_expire by blast
  have row: "row \<in> set (heads ?r1)" "claimable ?t row" using 3(2) by (auto simp: claim_candidates_def eq)
  have "row \<in> set (heads r1)" using row(1) by simp
  then obtain h0 where h0: "h0 \<in> set (heads r)" "failing c ?t h0 row"
    using list_all2_ex2 [OF fail_exhausted_steps(1) [OF assms(1,3)]] by blast
  then have same: "row = h0" using failing_claimable row(2) by blast
  have "claim_key row \<le> claim_key h"
    using 3(3) assms(4-7) by (simp add: claim_candidates_def eq)
  then show ?thesis
    using claim_row_put [OF ok1 row 3(4) [unfolded eq]] h0(1) same by auto
qed auto

section \<open>Completion and cancellation\<close>

lemma leased_row_fetch:
  assumes "repo_ok c r" "h \<in> set (heads r)" "lease_matches c k h" "live_head (micros now) h"
    "null_or_le (h_heartbeat_at_us h) (micros now)"
    "\<forall>d \<in> set (target_ops r). o_target_id d = h_target_id h \<longrightarrow> o_lease_expires_at_us d \<le> micros now"
  shows "leased_row c k now r = Inr h"
proof -
  let ?P = "\<lambda>h. lease_matches c k h \<and> live_head (micros now) h \<and> null_or_le (h_heartbeat_at_us h) (micros now)
              \<and> \<not> (\<exists>d \<in> set (target_ops r). o_target_id d = h_target_id h \<and> micros now < o_lease_expires_at_us d)"
  have P: "?P h" using assms(3-6) by (auto simp: not_less)
  have same: "h_job_id y = h_job_id h" if "?P y" for y
    using that assms(3) by (simp add: lease_matches_def)
  have "filter ?P (heads r) = [h]"
    by (rule filter_key [where col = h_job_id and P = ?P, OF repo_okD(1) [OF assms(1)] assms(2) P]) (rule same)
  then show ?thesis by (simp add: leased_row_def Let_def fetch_where_def first_row_def)
qed

text \<open>C5: A claim can be completed. While the lease has not expired, the worker that was granted a
  claim completes it: any valid final job for that id is accepted, stored as the head's payload, and the
  lease is released, unless cancellation intervened or the event log already holds that revision.\<close>

theorem claim_complete_roundtrip:
  assumes "repo_ok c r" "claim_next c w now ttl mx excl token r = Inr (r', Some k)"
    "micros now \<le> micros now2" "micros now2 < micros (now + ttl)"
    "encode c j = Inr (v, n)" "job_id v = job_id (cl_job k)" "state v \<in> {SUCCEEDED, FAILED, CANCELLED, RETRYING}"
    "state (cl_job k) = RUNNING" "\<forall>e \<in> set (events r'). \<forall>h \<in> set (heads r').
       e_job_id e = h_job_id h \<longrightarrow> e_revision e \<le> h_revision h"
  shows "\<exists>r2. complete c k j now2 r' = Inr (r2, v) \<and> get_job r2 (job_id v) = Inr (Some v)
    \<and> (\<forall>h \<in> set (heads r2). h_job_id h = job_id v \<longrightarrow> no_lease h)"
proof -
  have ok': "repo_ok c r'" by (rule claim_next_ok(2) [OF assms(1,2)])
  from claim_granted [OF assms(1,2)] obtain row h where
    g: "\<not> target_busy (micros now) r' row" "job_id (cl_job k) = h_job_id row" "h \<in> set (heads r')" "lease_matches c k h"
      "h_target_id h = h_target_id row" "h_job_id h = h_job_id row" "h_state h = state (cl_job k)"
      "h_lease_expires_at_us h = Some (micros (now + ttl))" "h_heartbeat_at_us h = Some (micros now)" by blast
  have lr: "leased_row c k now2 r' = Inr h"
  proof (rule leased_row_fetch [OF ok' g(3,4)])
    show "live_head (micros now2) h" using g(7,8) assms(4,8) by (simp add: live_head_def sql_gt_def ACTIVE_def)
    show "null_or_le (h_heartbeat_at_us h) (micros now2)" using g(9) assms(3) by (simp add: null_or_le_def)
    show "\<forall>d \<in> set (target_ops r'). o_target_id d = h_target_id h \<longrightarrow> o_lease_expires_at_us d \<le> micros now2"
      using g(1,5) assms(3) by (force simp: target_busy_def)
  qed
  obtain u where u: "updated_at v = Some u" using validate_job_fields(6) [OF encodeD(1) [OF assms(5)]] by blast
  have nodup: "\<not> (\<exists>e \<in> set (events r'). e_job_id e = job_id v \<and> e_revision e = Suc (h_revision h))"
    using assms(6,9) g(2,3,6) by fastforce
  have "\<exists>r2. complete c k j now2 r' = Inr (r2, v)"
    using assms(5-8) lr u nodup g(7) by (auto simp: complete_def Let_def event_def)
  then obtain r2 where r2: "complete c k j now2 r' = Inr (r2, v)" by blast
  from complete_put [OF ok' r2] obtain row2 h2 where
    p: "row2 \<in> set (heads r')" "lease_matches c k row2" "heads r2 = put_head h2 (heads r')" "no_lease h2" "h_payload h2 = v"
      "moved row2 h2" by blast
  have ok2: "repo_ok c r2" by (rule complete_ok [OF ok' r2])
  have id2: "h_job_id h2 = h_job_id row2" using p(6) by (simp add: moved_def)
  have mem: "h2 \<in> set (heads r2)" unfolding p(3) by (rule put_head_mem [OF p(1) id2])
  have idv: "h_job_id h2 = job_id v" using head_okD(2) [OF repo_okD(2) [OF ok2 mem]] p(5) by simp
  have "get_job r2 (job_id v) = Inr (Some v)"
    using fetch_key [OF repo_okD(1) [OF ok2] mem] idv p(5) encodeD(2) [OF assms(5)] by (simp add: get_job_def)
  moreover have "no_lease h0" if "h0 \<in> set (heads r2)" "h_job_id h0 = job_id v" for h0
    using key_inj [OF repo_okD(1) [OF ok2] that(1) mem] that(2) idv p(4) by simp
  ultimately show ?thesis using r2 by blast
qed

text \<open>C6: Cancellation wins the completion race. After a successful \<open>request_cancel\<close> of a running job,
  the worker that holds the lease can no longer report a retry, nor a success without an acknowledged
  artifact: such a completion raises \<open>LeaseLostError\<close> and changes nothing.\<close>

theorem cancellation_wins:
  assumes "repo_ok c r" "request_cancel c (job_id (cl_job k)) now r = Inr (r', j)" "j0 \<in> set (heads r)"
    "h_job_id j0 = job_id (cl_job k)" "h_state j0 = RUNNING"
    "encode c done = Inr (v, n)" "job_id v = job_id (cl_job k)"
    "state v = RETRYING \<or> (state v = SUCCEEDED \<and> (result v = None \<or> capability v = GUARD))"
  shows "complete c k done now2 r' = Inl LeaseLostError"
proof (cases "leased_row c k now2 r'")
  case (Inl e)
  then have "e = LeaseLostError" by (auto simp: leased_row_def Let_def split: option.splits)
  then show ?thesis using Inl assms(6-8) by (auto simp: complete_def Let_def)
next
  case (Inr row)
  have ok': "repo_ok c r'" by (rule cancel_ok [OF assms(1,2)])
  have row: "row \<in> set (heads r')" "h_job_id row = job_id (cl_job k)"
    using leased_rowD(1,2) [OF Inr] by (auto simp: lease_matches_def)
  have j0: "y = j0" if "y \<in> set (heads r)" "h_job_id y = job_id (cl_job k)" for y
    using key_inj [OF repo_okD(1) [OF assms(1)] that(1) assms(3)] that(2) assms(4) by simp
  then obtain row0 h' where p: "row0 \<in> set (heads r)" "h_job_id row0 = job_id (cl_job k)" "heads r' = put_head h' (heads r)"
      "h_state h' = state j" "state j = (if h_state row0 = RUNNING then CANCELLING else CANCELLED)" "moved row0 h'"
    using request_cancel_put [OF assms(1,2)] assms(5) by fastforce
  have "row0 = j0" by (rule j0 [OF p(1,2)])
  moreover have "h' \<in> set (heads r')" unfolding p(3) by (rule put_head_mem [OF p(1)]) (use p(6) in \<open>simp add: moved_def\<close>)
  then have "row = h'" using key_inj [OF repo_okD(1) [OF ok'] row(1)] row(2) p(2,6) by (simp add: moved_def)
  ultimately have "h_state row = CANCELLING" using p(4,5) assms(5) by simp
  then show ?thesis
    using Inr assms(6-8) by (auto simp: complete_def Let_def cancellation_terminal_def acknowledged_result_def)
qed

section \<open>Creation\<close>

lemma create_keeps_active_facts:
  assumes "repo_ok c r" "create c job key fp r = Inr (r', j, True)"
  shows "h \<in> set (heads r) \<Longrightarrow> h_state h \<notin> TERMINAL \<Longrightarrow> h \<in> set (heads r')"
    "max_jobs c \<noteq> 0 \<Longrightarrow> length (heads r) \<le> max_jobs c \<Longrightarrow> length (heads r') \<le> max_jobs c"
    "get_job r' (job_id j) = Inr (Some j)"
proof -
  have "(h \<in> set (heads r) \<longrightarrow> h_state h \<notin> TERMINAL \<longrightarrow> h \<in> set (heads r')) \<and>
    (max_jobs c \<noteq> 0 \<longrightarrow> length (heads r) \<le> max_jobs c \<longrightarrow> length (heads r') \<le> max_jobs c) \<and>
    get_job r' (job_id j) = Inr (Some j)"
    using assms
  proof (cases rule: createE)
    case (2 r1 n D k)
    have "fetch_where (\<lambda>h. h_job_id h = job_id j) (heads r') = Some (new_head j n k fp)"
      using fetch_key [OF repo_okD(1) [OF create_ok [OF assms]], of "new_head j n k fp"] by (simp add: 2(7))
    then have "get_job r' (job_id j) = Inr (Some j)" using encodeD(2) [OF 2(2)] by (simp add: get_job_def)
    then show ?thesis
      using 2(5,6,7) make_room_cases(5) [OF assms(1) 2(4)] by auto
  qed simp
  then show "h \<in> set (heads r) \<Longrightarrow> h_state h \<notin> TERMINAL \<Longrightarrow> h \<in> set (heads r')"
    "max_jobs c \<noteq> 0 \<Longrightarrow> length (heads r) \<le> max_jobs c \<Longrightarrow> length (heads r') \<le> max_jobs c"
    "get_job r' (job_id j) = Inr (Some j)" by simp_all
qed

text \<open>C7: Eviction spares unfinished work. A creation that succeeds keeps every pending, retrying,
  running or cancelling head as it was, keeps the table within \<open>max_jobs\<close>, and the new job can be read
  back.\<close>

theorem create_keeps_active:
  assumes "repo_ok c r" "create c job key fp r = Inr (r', j, True)"
  shows "(\<forall>h \<in> set (heads r). h_state h \<notin> TERMINAL \<longrightarrow> h \<in> set (heads r'))
    \<and> (max_jobs c \<noteq> 0 \<longrightarrow> length (heads r) \<le> max_jobs c \<longrightarrow> length (heads r') \<le> max_jobs c)
    \<and> get_job r' (job_id j) = Inr (Some j)"
  using create_keeps_active_facts [OF assms] by blast

lemma create_idempotent_facts:
  assumes "repo_ok c r" "create c job (Some key) fp r = Inr (r', j, True)" "encode c job2 = Inr (v, n)"
  shows "create c job2 (Some key) fp r' = Inr (r', j, False)"
    "fp2 \<noteq> fp \<Longrightarrow> fp2 \<noteq> None \<Longrightarrow> fp2 \<noteq> Some [] \<Longrightarrow> create c job2 (Some key) fp2 r' = Inl JobConflictError"
proof -
  have key: "check_key (Some key) fp = Inr (Some (strip key))"
    using assms(2) by (auto simp: create_def check_key_def Let_def split: if_splits)
  obtain m where f: "fetch_where (\<lambda>h. h_idempotency_key h = Some (strip key)) (heads r')
      = Some (new_head j m (Some (strip key)) fp)" and m: "validate_job j = Inr j"
    using assms(1,2)
  proof (cases rule: createE)
    case (2 r1 m D k)
    have "filter (\<lambda>h. h_idempotency_key h = Some (strip key)) (heads r1) = []"
      using 2(11,12) by (auto simp: 2(5) filter_empty_conv)
    then show thesis
      using that [of m] encodeD(2) [OF 2(2)] 2(11) by (simp add: 2(7) fetch_where_def first_row_def)
  qed simp
  show "create c job2 (Some key) fp r' = Inr (r', j, False)"
    using assms(3) key f m by (simp add: create_def)
  show "create c job2 (Some key) fp2 r' = Inl JobConflictError" if "fp2 \<noteq> fp" "fp2 \<noteq> None" "fp2 \<noteq> Some []"
    using assms(3) key f that by (auto simp: create_def check_key_def Let_def split: if_splits)
qed

text \<open>Idempotent creation. Once a request with an idempotency key has created a job, repeating it
  with the same fingerprint returns that job and changes nothing, and a different fingerprint under
  the same key is refused with \<open>JobConflictError\<close>.\<close>

theorem create_idempotent:
  assumes "repo_ok c r" "create c job (Some key) fp r = Inr (r', j, True)" "encode c job2 = Inr (v, n)"
  shows "create c job2 (Some key) fp r' = Inr (r', j, False)
    \<and> (\<forall>fp2. fp2 \<notin> {fp, None, Some []} \<longrightarrow> create c job2 (Some key) fp2 r' = Inl JobConflictError)"
  using create_idempotent_facts [OF assms] by blast

section \<open>Witnesses\<close>

text \<open>A small deployment: one job, claimed by a worker, abandoned, and claimed again after the lease
  expired.\<close>

definition ex_config :: job_config where
  "ex_config = \<lparr>max_record_bytes = 65536, max_jobs = 2, max_history = 100,
     payload_size = (\<lambda>j. 400 + length (job_id j)), token_hash = rev\<rparr>"

definition ex_job :: "string \<Rightarrow> scan_job_state \<Rightarrow> scan_job" where
  "ex_job jid st = \<lparr>job_id = jid, target_id = ''t1'', address = ''root@h'', capability = HOST, mode = None, state = st,
     options = default_options, created_at = 1000, updated_at = None, available_at = None, started_at = None,
     finished_at = None, cancel_requested_at = None, attempt = 0, max_attempts = 3, result = None, job_error = None\<rparr>"

definition ex_valid :: scan_job where
  "ex_valid = (ex_job ''a'' PENDING)\<lparr>mode := Some ONESHOT, updated_at := Some 1000, available_at := Some 1000\<rparr>"

definition ex_running :: "int \<Rightarrow> datetime \<Rightarrow> scan_job" where
  "ex_running n now = ex_valid\<lparr>state := RUNNING, updated_at := Some now, available_at := None, started_at := Some 2000,
     attempt := n\<rparr>"

definition ex_event :: "nat \<Rightarrow> scan_job \<Rightarrow> int \<Rightarrow> event_row" where
  "ex_event n j t = \<lparr>e_id = Suc n, e_job_id = ''a'', e_revision = n, e_state = state j, e_at_us = t, e_payload = j,
     e_payload_bytes = 401\<rparr>"

definition ex_created :: repo where
  "ex_created = \<lparr>heads = [new_head ex_valid 401 (Some ''k'') (Some ''f'')], target_ops = [],
     events = [ex_event 0 ex_valid 1000], next_event_id = 2\<rparr>"

definition ex_leased :: "scan_job \<Rightarrow> nat \<Rightarrow> string \<Rightarrow> string \<Rightarrow> int \<Rightarrow> int \<Rightarrow> head" where
  "ex_leased j n w tok now ex = (new_head ex_valid 401 (Some ''k'') (Some ''f''))\<lparr>h_payload := j, h_state := state j,
     h_updated_at_us := now, h_available_at_us := None, h_attempt := attempt j, h_revision := n, h_lease_owner := Some w,
     h_lease_token_hash := Some tok, h_lease_epoch := n, h_lease_expires_at_us := Some ex, h_heartbeat_at_us := Some now\<rparr>"

definition ex_run1 :: repo where
  "ex_run1 = \<lparr>heads = [ex_leased (ex_running 1 2000) 1 ''w1'' ''1kot'' 2000 2500], target_ops = [],
     events = [ex_event 0 ex_valid 1000, ex_event 1 (ex_running 1 2000) 2000], next_event_id = 3\<rparr>"

definition ex_run2 :: repo where
  "ex_run2 = \<lparr>heads = [ex_leased (ex_running 2 3000) 2 ''w2'' ''2kot'' 3000 3500], target_ops = [],
     events = [ex_event 0 ex_valid 1000, ex_event 1 (ex_running 1 2000) 2000, ex_event 2 (ex_running 2 3000) 3000],
     next_event_id = 4\<rparr>"

definition ex_claim :: "scan_job \<Rightarrow> string \<Rightarrow> nat \<Rightarrow> string \<Rightarrow> datetime \<Rightarrow> claimed_scan_job" where
  "ex_claim j tok n w ex = \<lparr>cl_job = j, cl_lease_token = tok, cl_lease_epoch = n, cl_lease_owner = w, cl_lease_expires_at = ex\<rparr>"

lemma ex_micros: "micros 1000 = 1000" "micros 2000 = 2000" "micros 2400 = 2400" "micros 2500 = 2500" "micros 3000 = 3000"
    "micros 3500 = 3500"
  by code_simp+

lemmas valid_eval = validate_job_def valid_str_def valid_opt_str_def validate_options_def validate_result_def
  default_options_def strip_def isspace_char_def derive_mode_def MAX_WIRE_STRING_CHARS_def mode_for_capability_def

lemmas sql_eval = upd_where_def del_where_def count_where_def order_limit_def fetch_where_def first_row_def

lemmas job_eval = create_def encode_def event_def make_room_for_job_def check_key_def new_head_def empty_repo_def
  claim_next_def fail_exhausted_def exhausted_head_def claim_candidates_def claimable_def target_busy_def live_head_def
  claim_row_def claim_job_def expire_ops_def null_or_le_def sql_gt_def claim_key_def claim_rank_def ACTIVE_def
  TERMINAL_def Let_def request_cancel_def cancel_job_def

lemmas ex_eval = ex_config_def ex_job_def ex_valid_def ex_running_def ex_event_def ex_created_def ex_leased_def ex_run1_def
  ex_run2_def ex_claim_def ex_micros

lemma ex_create: "create ex_config (ex_job ''a'' PENDING) (Some ''k'') (Some ''f'') empty_repo = Inr (ex_created, ex_valid, True)"
  by (simp add: job_eval valid_eval sql_eval ex_eval)

lemma ex_claim1: "claim_next ex_config ''w1'' 2000 500 4 [] ''tok1'' ex_created
    = Inr (ex_run1, Some (ex_claim (ex_running 1 2000) ''tok1'' 1 ''w1'' 2500))"
  by (simp add: job_eval valid_eval sql_eval ex_eval)

lemma ex_claim2: "claim_next ex_config ''w2'' 3000 500 4 [] ''tok2'' ex_run1
    = Inr (ex_run2, Some (ex_claim (ex_running 2 3000) ''tok2'' 2 ''w2'' 3500))"
  by (simp add: job_eval valid_eval sql_eval ex_eval)

lemma empty_repo_ok: "repo_ok c empty_repo"
  by (simp add: repo_ok_def empty_repo_def)

lemma ex_ok: "repo_ok ex_config ex_created" "repo_ok ex_config ex_run1" "repo_ok ex_config ex_run2"
  using create_ok [OF empty_repo_ok ex_create] claim_next_ok(2) ex_claim1 ex_claim2 by blast+

lemma ex_reach: "job_reach ex_config 2000 ex_run1"
proof -
  let ?init = "\<lambda>r. r = empty_repo"
  have 1: "clocked_reach ?init (job_step ex_config) 2000 empty_repo" by (rule clocked_reach.start) simp
  have "job_step ex_config 2000 empty_repo ex_created"
    unfolding job_step_def
    by (rule exI [of _ "Create (ex_job ''a'' PENDING) (Some ''k'') (Some ''f'')"]) (simp add: issued_at_def ex_create)
  with 1 have 2: "clocked_reach ?init (job_step ex_config) 2000 ex_created" by (rule clocked_reach.step)
  have "job_step ex_config 2000 ex_created ex_run1"
    unfolding job_step_def
    by (rule exI [of _ "Claim ''w1'' 2000 500 4 [] ''tok1''"]) (simp add: issued_at_def ex_claim1 ex_micros)
  with 2 show ?thesis unfolding job_reach_def by (rule clocked_reach.step)
qed


theorem stale_claim_fenced_witness:
  "\<exists>e. apply_op ex_config (Complete (ex_claim (ex_running 1 2000) ''tok1'' 1 ''w1'' 2500) (ex_running 1 2000) 3100) ex_run2
     = (ex_run2, Some e)"
  by (rule conjunct2, rule stale_claim_fenced [OF ex_ok(1) ex_claim1 rtranclp.rtrancl_refl ex_claim2])
    (simp_all add: ex_claim_def ex_running_def)

theorem repo_well_formed_witness: "repo_ok ex_config ex_run1"
  by (rule repo_well_formed [OF ex_reach])

theorem target_exclusion_witness: "holders 2000 ex_run1 ''t1'' \<le> 1 \<and> holders 2000 ex_run1 ''t1'' \<noteq> 0"
  using target_exclusion [OF ex_reach, of "''t1''"]
  by (simp add: holders_def ex_eval count_where_def live_head_def new_head_def sql_gt_def ACTIVE_def)

theorem claim_budget_witness:
  "attempt (cl_job (ex_claim (ex_running 2 3000) ''tok2'' 2 ''w2'' 3500)) \<le> 4 \<and> job_id (ex_running 2 3000) \<notin> set []"
  using claim_budget [OF ex_ok(2) ex_claim2] by (simp add: ex_eval)

theorem claim_capacity_witness: "int (count_where (live_head (micros 3000)) (heads ex_run2)) \<le> 4"
  by (rule claim_capacity [OF ex_ok(2) ex_claim2])

theorem claim_priority_witness:
  "\<exists>row \<in> set (heads ex_created). h_job_id row = ''a'' \<and> claim_key row \<le> claim_key (hd (heads ex_created))"
proof -
  have "fail_exhausted ex_config 2000 ex_created = Inr ex_created"
    by (simp add: fail_exhausted_def exhausted_head_def ex_eval new_head_def)
  from claim_priority [OF ex_ok(1) ex_claim1 this, of "hd (heads ex_created)"] show ?thesis
    by (simp add: job_eval ex_eval)
qed

definition ex_done :: scan_job where
  "ex_done = (ex_running 1 2400)\<lparr>state := FAILED, job_error := Some ''boom'', finished_at := Some 2400\<rparr>"

lemma ex_done_encode: "encode ex_config ex_done = Inr (ex_done, 401)"
  by (simp add: ex_done_def job_eval valid_eval ex_eval)

theorem claim_complete_roundtrip_witness:
  "\<exists>r2. complete ex_config (ex_claim (ex_running 1 2000) ''tok1'' 1 ''w1'' 2500) ex_done 2400 ex_run1 = Inr (r2, ex_done)
     \<and> get_job r2 (job_id ex_done) = Inr (Some ex_done) \<and> (\<forall>h \<in> set (heads r2). h_job_id h = job_id ex_done \<longrightarrow> no_lease h)"
  by (rule claim_complete_roundtrip [OF ex_ok(1) ex_claim1 _ _ ex_done_encode])
    (simp_all add: ex_eval ex_done_def new_head_def)

theorem cancellation_wins_witness:
  "complete ex_config (ex_claim (ex_running 1 2000) ''tok1'' 1 ''w1'' 2500)
     (ex_done\<lparr>state := RETRYING, available_at := Some 3000\<rparr>) 2400 (fst (projr (request_cancel ex_config ''a'' 2400 ex_run1)))
   = Inl LeaseLostError"
proof -
  have run: "request_cancel ex_config (job_id (cl_job (ex_claim (ex_running 1 2000) ''tok1'' 1 ''w1'' 2500))) 2400 ex_run1
      = Inr (projr (request_cancel ex_config ''a'' 2400 ex_run1))"
    by (simp add: job_eval valid_eval sql_eval ex_eval)
  have enc: "encode ex_config (ex_done\<lparr>state := RETRYING, available_at := Some 3000\<rparr>)
      = Inr (ex_done\<lparr>state := RETRYING, available_at := Some 3000\<rparr>, 401)"
    by (simp add: ex_done_def job_eval valid_eval ex_eval)
  obtain r' j where out: "projr (request_cancel ex_config ''a'' 2400 ex_run1) = (r', j)" by (cases "projr (request_cancel ex_config ''a'' 2400 ex_run1)")
  show ?thesis
    unfolding out fst_conv
    by (rule cancellation_wins [OF ex_ok(2) run [unfolded out], of "hd (heads ex_run1)", OF _ _ _ enc])
      (simp_all add: ex_eval ex_done_def new_head_def)
qed

theorem create_keeps_active_witness:
  "get_job ex_created (job_id ex_valid) = Inr (Some ex_valid) \<and> length (heads ex_created) \<le> 2"
  using create_keeps_active [OF empty_repo_ok ex_create] by (simp add: ex_config_def empty_repo_def)

theorem create_idempotent_witness:
  "create ex_config (ex_job ''b'' PENDING) (Some ''k'') (Some ''f'') ex_created = Inr (ex_created, ex_valid, False)
   \<and> create ex_config (ex_job ''b'' PENDING) (Some ''k'') (Some ''g'') ex_created = Inl JobConflictError"
proof -
  have "\<exists>v n. encode ex_config (ex_job ''b'' PENDING) = Inr (v, n)"
    by (simp add: job_eval valid_eval ex_eval)
  then obtain v n where e: "encode ex_config (ex_job ''b'' PENDING) = Inr (v, n)" by blast
  show ?thesis
    using create_idempotent [OF empty_repo_ok ex_create e] by simp
qed

section \<open>Import of legacy jobs\<close>

definition ex_tiny :: job_config where
  "ex_tiny = ex_config\<lparr>max_jobs := 1\<rparr>"

definition ex_legacy :: "scan_job result list" where
  "ex_legacy = [Inr (ex_job ''a'' FAILED), Inr (ex_job ''b'' FAILED)]"

text \<open>Importing twice is not idempotent once a head was evicted. With room for one job, a first
  import of two legacy jobs succeeds and evicts the older head; repeating it, as every start of Form
  does, ends with an uncaught \<open>IntegrityError\<close>, because the event row of the evicted job is still in
  the history.\<close>

theorem legacy_reimport_raises:
  "snd (import_legacy ex_tiny 2000 ex_legacy empty_repo 0) = Inr 2
   \<and> snd (import_legacy ex_tiny 2000 ex_legacy (fst (import_legacy ex_tiny 2000 ex_legacy empty_repo 0)) 0) = Inl IntegrityError"
  by (simp add: ex_tiny_def ex_legacy_def legacy_job_def get_job_def job_eval valid_eval sql_eval ex_eval)

end
