(* ===== verification/Scoring.thy ===== *)
theory Scoring
  imports Py_Prelude
begin

text \<open>
  Severity tiers (\<open>Severity\<close> of \<open>analyzer/schemas/common.py\<close>) and the risk score shared by correlation
  and prediction (\<open>analyzer/scoring.py\<close>). The scores are floats with integral values; they are integers
  here.
\<close>

datatype severity = INFO | LOW | MEDIUM | HIGH | CRITICAL

fun severity_rank :: "severity \<Rightarrow> nat" where
  "severity_rank INFO = 0"
| "severity_rank LOW = 1"
| "severity_rank MEDIUM = 2"
| "severity_rank HIGH = 3"
| "severity_rank CRITICAL = 4"

lemma severity_rank_inj [simp]: "severity_rank a = severity_rank b \<longleftrightarrow> a = b"
  by (cases a; cases b) simp_all

text \<open>The tiers are linearly ordered by rank.\<close>

instantiation severity :: linorder
begin

definition less_eq_severity :: "severity \<Rightarrow> severity \<Rightarrow> bool" where
  "less_eq_severity a b = (severity_rank a \<le> severity_rank b)"

definition less_severity :: "severity \<Rightarrow> severity \<Rightarrow> bool" where
  "less_severity a b = (severity_rank a < severity_rank b)"

instance
  by standard (auto simp: less_eq_severity_def less_severity_def dest: severity_rank_inj [THEN iffD1, OF antisym])

end

fun SEVERITY_SCORE :: "severity \<Rightarrow> int" where
  "SEVERITY_SCORE INFO = 10"
| "SEVERITY_SCORE LOW = 25"
| "SEVERITY_SCORE MEDIUM = 50"
| "SEVERITY_SCORE HIGH = 75"
| "SEVERITY_SCORE CRITICAL = 95"

definition BLAST_PER_ASSET :: int where "BLAST_PER_ASSET = 3"
definition BLAST_CAP :: int where "BLAST_CAP = 12"

definition score_for_severity :: "severity \<Rightarrow> int" where
  "score_for_severity s = SEVERITY_SCORE s"

definition alert_score :: "severity \<Rightarrow> int \<Rightarrow> int" where
  "alert_score s blast_radius =
     (let base = SEVERITY_SCORE s; bonus = min BLAST_CAP (max 0 (blast_radius - 1) * BLAST_PER_ASSET) in
      min 100 (base + bonus))"

lemma alert_score_bounds: "SEVERITY_SCORE s \<le> alert_score s n" "alert_score s n \<le> SEVERITY_SCORE s + 12" "alert_score s n \<le> 100"
  by (cases s; simp add: alert_score_def BLAST_CAP_def BLAST_PER_ASSET_def)+

lemma SEVERITY_SCORE_gap: "a < b \<Longrightarrow> SEVERITY_SCORE a + 15 \<le> SEVERITY_SCORE b"
  by (cases a; cases b) (simp_all add: less_severity_def)

text \<open>A score never leaves its tier. However many assets a finding spans, its score lies between its
  tier's base and 100 and strictly below the score of every finding of a higher tier; within a tier it
  grows with the number of assets.\<close>

theorem alert_score_tiers:
  "0 \<le> alert_score s n \<and> alert_score s n \<le> 100 \<and> (a < b \<longrightarrow> alert_score a n < alert_score b m)
   \<and> (n \<le> m \<longrightarrow> alert_score s n \<le> alert_score s m)"
proof (intro conjI impI)
  show "0 \<le> alert_score s n" using alert_score_bounds(1) [of s n] by (cases s) simp_all
  show "alert_score s n \<le> 100" by (rule alert_score_bounds)
  show "alert_score a n < alert_score b m" if "a < b"
    using alert_score_bounds(2) [of a n] SEVERITY_SCORE_gap [OF that] alert_score_bounds(1) [of b m] by linarith
  show "alert_score s n \<le> alert_score s m" if "n \<le> m"
    using that by (auto simp: alert_score_def Let_def BLAST_PER_ASSET_def min_def max_def)
qed

theorem alert_score_tiers_witness: "alert_score HIGH 500 < alert_score CRITICAL 1 \<and> alert_score HIGH 1 \<le> alert_score HIGH 5"
proof -
  have "HIGH < CRITICAL" by (simp add: less_severity_def)
  then show ?thesis using alert_score_tiers [of HIGH 500 HIGH CRITICAL 1] alert_score_tiers [of HIGH 1 HIGH CRITICAL 5] by simp
qed

end
