(* ===== verification/Predict_Graph.thy ===== *)
theory Predict_Graph
  imports Scoring Strict_Model Complex_Main
begin

text \<open>
  The posture graph of attack-path prediction, \<open>analyzer/predict/graph.py\<close>: hosts with the facts observed
  about them and directed reachability edges. The stored telemetry rows are records whose optional keys are
  \<open>option\<close> fields. A Python set is a list without duplicates whose order is never observed; the node and edge
  dictionaries are association lists in insertion order; a CVSS score is the rational value of its float.
\<close>

section \<open>Rows\<close>

record vuln_row =
  v_severity :: "string option"
  v_vuln_id :: "string option"
  v_cvss_score :: "rat option"

record asset_row =
  as_kind :: "string option"
  as_port :: "int option"
  as_name :: "string option"

record report_row =
  r_host_id :: "string option"
  r_hostname :: "string option"
  r_ip_addrs :: "string list"
  r_assets :: "asset_row list"
  r_vulnerabilities :: "vuln_row list"

record detection_row =
  d_host_id :: "string option"
  d_vulnerabilities :: "vuln_row list"

record flow_row =
  f_src_ip :: "string option"
  f_dst_ip :: "string option"
  f_dst_port :: "int option"

section \<open>The graph\<close>

record kcatta_node =
  n_host_id :: string
  n_label :: string
  n_ips :: "string list"
  n_facts :: "string list"
  n_vuln_ids :: "string list"
  n_max_cvss :: rat
  n_is_entry :: bool

record kcatta_graph =
  g_nodes :: "(string \<times> kcatta_node) list"
  g_edges :: "(string \<times> string list) list"

definition PORT_SERVICE :: "(int \<times> string) list" where
  "PORT_SERVICE = [(21, ''ftp''), (22, ''ssh''), (23, ''telnet''), (53, ''dns''), (80, ''http''), (443, ''https''),
     (445, ''smb''), (3306, ''mysql''), (3389, ''rdp'')]"

definition HIGH_SEVERITY :: "string list" where "HIGH_SEVERITY = [''high'', ''critical'']"

definition WEB_SERVICES :: "string list" where "WEB_SERVICES = [''service.http'', ''service.https'']"

definition service_fact_for_port :: "int option \<Rightarrow> string option" where
  "service_fact_for_port port = (case port of None \<Rightarrow> None
     | Some p \<Rightarrow> map_option (\<lambda>name. ''service.'' @ name) (map_of PORT_SERVICE p))"

definition neighbors :: "kcatta_graph \<Rightarrow> string \<Rightarrow> string list" where
  "neighbors g h = (case map_of (g_edges g) h of None \<Rightarrow> [] | Some s \<Rightarrow> s)"

definition entry_hosts :: "kcatta_graph \<Rightarrow> string list" where
  "entry_hosts g = sort (map fst (filter (\<lambda>(h, n). n_is_entry n) (g_nodes g)))"

text \<open>Mutation of the node object stored under a key.\<close>

definition upd_node :: "string \<Rightarrow> (kcatta_node \<Rightarrow> kcatta_node) \<Rightarrow> kcatta_graph \<Rightarrow> kcatta_graph" where
  "upd_node h f g = g\<lparr>g_nodes := map (\<lambda>(k, n). (k, if k = h then f n else n)) (g_nodes g)\<rparr>"

definition add_fact :: "string \<Rightarrow> kcatta_node \<Rightarrow> kcatta_node" where
  "add_fact x n = n\<lparr>n_facts := List.insert x (n_facts n)\<rparr>"

section \<open>Building\<close>

definition truthy :: "string option \<Rightarrow> bool" where
  "truthy s = (s \<noteq> None \<and> s \<noteq> Some [])"

definition absorb_vuln :: "vuln_row \<Rightarrow> kcatta_node \<Rightarrow> kcatta_node" where
  "absorb_vuln v n =
     (if lower (case v_severity v of None \<Rightarrow> [] | Some s \<Rightarrow> s) \<in> set HIGH_SEVERITY
      then
        let n1 = add_fact ''vuln.exploitable'' n;
            n2 = (if truthy (v_vuln_id v) then n1\<lparr>n_vuln_ids := List.insert (the (v_vuln_id v)) (n_vuln_ids n1)\<rparr> else n1) in
        n2\<lparr>n_max_cvss := max (n_max_cvss n2) (case v_cvss_score v of None \<Rightarrow> 0 | Some x \<Rightarrow> x)\<rparr>
      else n)"

definition absorb_vulns :: "vuln_row list \<Rightarrow> kcatta_node \<Rightarrow> kcatta_node" where
  "absorb_vulns vs n = fold absorb_vuln vs n"

definition named_services :: "string \<Rightarrow> kcatta_node \<Rightarrow> kcatta_node" where
  "named_services name n = fold (\<lambda>svc n. if str_in svc name then add_fact (''service.'' @ svc) n else n) (map snd PORT_SERVICE) n"

definition absorb_asset :: "asset_row \<Rightarrow> kcatta_node \<Rightarrow> kcatta_node" where
  "absorb_asset a n =
     (if as_kind a = Some ''port'' then
        let n1 = add_fact ''port.open'' n in
        (case service_fact_for_port (as_port a) of None \<Rightarrow> n1 | Some sf \<Rightarrow> add_fact sf n1)
      else if as_kind a = Some ''service'' then
        named_services (lower (case as_name a of None \<Rightarrow> [] | Some s \<Rightarrow> s)) n
      else n)"

definition new_node :: "string \<Rightarrow> string option \<Rightarrow> kcatta_node" where
  "new_node h label = \<lparr>n_host_id = h, n_label = (if truthy label then the label else h), n_ips = [], n_facts = [],
     n_vuln_ids = [], n_max_cvss = 0, n_is_entry = False\<rparr>"

definition node_for :: "string \<Rightarrow> string option \<Rightarrow> kcatta_graph \<Rightarrow> kcatta_graph" where
  "node_for h label g = (case map_of (g_nodes g) h of Some _ \<Rightarrow> g
     | None \<Rightarrow> g\<lparr>g_nodes := g_nodes g @ [(h, new_node h label)]\<rparr>)"

definition absorb_report :: "report_row \<Rightarrow> kcatta_graph \<Rightarrow> kcatta_graph" where
  "absorb_report r g =
     (if \<not> truthy (r_host_id r) then g
      else
        let h = the (r_host_id r) in
        upd_node h (\<lambda>n. absorb_vulns (r_vulnerabilities r) (fold absorb_asset (r_assets r)
            (n\<lparr>n_ips := fold List.insert (r_ip_addrs r) (n_ips n)\<rparr>)))
          (node_for h (r_hostname r) g))"

definition absorb_detection :: "detection_row \<Rightarrow> kcatta_graph \<Rightarrow> kcatta_graph" where
  "absorb_detection d g = (case d_host_id d of None \<Rightarrow> g
     | Some h \<Rightarrow> upd_node h (absorb_vulns (d_vulnerabilities d)) g)"

text \<open>The dictionary from addresses to hosts: the assignments in the order the loop makes them; the last
  one for an address wins.\<close>

definition ip_pairs :: "kcatta_graph \<Rightarrow> (string \<times> string) list" where
  "ip_pairs g = concat (map (\<lambda>(h, n). map (\<lambda>ip. (ip, h)) (n_ips n)) (g_nodes g))"

definition ip_index :: "kcatta_graph \<Rightarrow> string \<Rightarrow> string option" where
  "ip_index g = map_of (rev (ip_pairs g))"

text \<open>\<open>str(flow.get(key))\<close>: the name of \<open>None\<close> when the key is absent.\<close>

definition str_opt :: "string option \<Rightarrow> string" where
  "str_opt s = (case s of None \<Rightarrow> ''None'' | Some x \<Rightarrow> x)"

definition absorb_flow :: "(string \<Rightarrow> string option) \<Rightarrow> flow_row \<Rightarrow> kcatta_graph \<Rightarrow> kcatta_graph" where
  "absorb_flow idx f g =
     (case idx (str_opt (f_dst_ip f)) of
        None \<Rightarrow> g
      | Some dst \<Rightarrow>
          let g1 = (case service_fact_for_port (f_dst_port f) of None \<Rightarrow> g | Some sf \<Rightarrow> upd_node dst (add_fact sf) g) in
          (case idx (str_opt (f_src_ip f)) of
             None \<Rightarrow> upd_node dst (\<lambda>n. n\<lparr>n_is_entry := True\<rparr>) g1
           | Some src \<Rightarrow>
               if src \<noteq> dst then g1\<lparr>g_edges := AList.update src (List.insert dst (neighbors g1 src)) (g_edges g1)\<rparr>
               else g1))"

definition mark_web :: "kcatta_graph \<Rightarrow> kcatta_graph" where
  "mark_web g = g\<lparr>g_nodes := map (\<lambda>(k, n). (k, if \<exists>w \<in> set WEB_SERVICES. w \<in> set (n_facts n) then n\<lparr>n_is_entry := True\<rparr> else n))
     (g_nodes g)\<rparr>"

definition build_kcatta_graph :: "report_row list \<Rightarrow> detection_row list \<Rightarrow> flow_row list list \<Rightarrow> kcatta_graph" where
  "build_kcatta_graph reports detections batches =
     (let g1 = fold absorb_report reports \<lparr>g_nodes = [], g_edges = []\<rparr>;
          g2 = fold absorb_detection detections g1;
          idx = ip_index g2;
          g3 = fold (\<lambda>b g. fold (absorb_flow idx) b g) batches g2 in
      mark_web g3)"

section \<open>Well-formed graphs\<close>

text \<open>Every edge leads from a known host to another known host, keys are distinct and every node is stored
  under its own id.\<close>

definition graph_ok :: "kcatta_graph \<Rightarrow> bool" where
  "graph_ok g = (distinct (map fst (g_nodes g))
     \<and> (\<forall>(h, n) \<in> set (g_nodes g). n_host_id n = h)
     \<and> (\<forall>(h, ds) \<in> set (g_edges g). h \<in> fst ` set (g_nodes g) \<and> set ds \<subseteq> fst ` set (g_nodes g) \<and> h \<notin> set ds \<and> distinct ds))"

abbreviation hosts_of :: "kcatta_graph \<Rightarrow> string set" where
  "hosts_of g \<equiv> fst ` set (g_nodes g)"

lemma upd_node_hosts [simp]: "map fst (g_nodes (upd_node h f g)) = map fst (g_nodes g)" "g_edges (upd_node h f g) = g_edges g"
  by (simp_all add: upd_node_def case_prod_beta comp_def)

lemma hosts_upd_node [simp]: "hosts_of (upd_node h f g) = hosts_of g"
  by (metis list.set_map upd_node_hosts(1))

lemma graph_ok_upd:
  assumes "graph_ok g" "\<And>n. n_host_id (f n) = n_host_id n"
  shows "graph_ok (upd_node h f g)"
  using assms by (auto simp: graph_ok_def) (auto simp: upd_node_def)

lemma neighbors_ok:
  assumes "graph_ok g" "d \<in> set (neighbors g h)"
  shows "d \<in> hosts_of g" "h \<in> hosts_of g" "d \<noteq> h"
proof -
  obtain ds where "map_of (g_edges g) h = Some ds" "d \<in> set ds"
    using assms(2) by (cases "map_of (g_edges g) h") (auto simp: neighbors_def)
  then have "(h, ds) \<in> set (g_edges g)" "d \<in> set ds" by (auto dest: map_of_SomeD)
  then show "d \<in> hosts_of g" "h \<in> hosts_of g" "d \<noteq> h" using assms(1) by (auto simp: graph_ok_def)
qed

lemma neighbors_distinct: "graph_ok g \<Longrightarrow> distinct (neighbors g h)"
  by (auto simp: neighbors_def graph_ok_def split: option.splits dest!: map_of_SomeD)

lemma entry_hosts_ok: "h \<in> set (entry_hosts g) \<Longrightarrow> h \<in> hosts_of g"
  by (auto simp: entry_hosts_def)

lemma node_for_ok: "graph_ok g \<Longrightarrow> graph_ok (node_for h l g)"
  by (auto simp: node_for_def graph_ok_def new_node_def map_of_eq_None_iff split: option.splits)

lemma host_id_kept [simp]:
  "n_host_id (add_fact x n) = n_host_id n" "n_host_id (absorb_vuln v n) = n_host_id n"
  by (simp_all add: add_fact_def absorb_vuln_def Let_def)

lemma fold_kept: "(\<And>x n. q (f x n) = q n) \<Longrightarrow> q (fold f xs n) = q n"
  by (induction xs arbitrary: n) simp_all

lemma absorb_vulns_kept [simp]: "n_host_id (absorb_vulns vs n) = n_host_id n"
  unfolding absorb_vulns_def by (rule fold_kept) simp

lemma named_services_kept [simp]: "n_host_id (named_services name n) = n_host_id n"
  unfolding named_services_def by (rule fold_kept) simp

lemma absorb_asset_kept [simp]: "n_host_id (absorb_asset a n) = n_host_id n"
  by (simp add: absorb_asset_def Let_def split: option.splits)

lemma absorb_report_ok: "graph_ok g \<Longrightarrow> graph_ok (absorb_report r g)"
  using fold_kept [of n_host_id absorb_asset]
  by (auto simp: absorb_report_def Let_def intro!: graph_ok_upd node_for_ok)

lemma absorb_detection_ok: "graph_ok g \<Longrightarrow> graph_ok (absorb_detection d g)"
  by (auto simp: absorb_detection_def intro!: graph_ok_upd split: option.splits)

lemma ip_index_ran: "ip_index g ip = Some h \<Longrightarrow> h \<in> hosts_of g"
  by (drule map_of_SomeD [of "rev (ip_pairs g)", folded ip_index_def]) (force simp: ip_pairs_def)

lemma set_alist_update: "set (AList.update k v al) \<subseteq> insert (k, v) (set al)"
  by (induction al) auto

lemma absorb_flow_ok:
  assumes "graph_ok g" "\<And>ip h. idx ip = Some h \<Longrightarrow> h \<in> hosts_of g"
  shows "graph_ok (absorb_flow idx f g) \<and> hosts_of (absorb_flow idx f g) = hosts_of g"
proof (cases "idx (str_opt (f_dst_ip f))")
  case (Some dst)
  define g1 where "g1 = (case service_fact_for_port (f_dst_port f) of None \<Rightarrow> g | Some sf \<Rightarrow> upd_node dst (add_fact sf) g)"
  have g1: "graph_ok g1" "hosts_of g1 = hosts_of g"
    using assms(1) by (auto simp: g1_def split: option.splits intro: graph_ok_upd)
  show ?thesis
  proof (cases "idx (str_opt (f_src_ip f))")
    case None
    then show ?thesis
      using Some g1 by (simp add: absorb_flow_def g1_def [symmetric] graph_ok_upd)
  next
    case src: (Some src)
    show ?thesis
    proof (cases "src = dst")
      case False
      have hosts: "src \<in> hosts_of g1" "dst \<in> hosts_of g1" using assms(2) Some src g1(2) by auto
      have nb: "set (neighbors g1 src) \<subseteq> hosts_of g1" "src \<notin> set (neighbors g1 src)" "distinct (neighbors g1 src)"
        using neighbors_ok [OF g1(1)] neighbors_distinct [OF g1(1)] by blast+
      have "graph_ok (g1\<lparr>g_edges := AList.update src (List.insert dst (neighbors g1 src)) (g_edges g1)\<rparr>)"
      proof -
        have "h \<in> hosts_of g1 \<and> set ds \<subseteq> hosts_of g1 \<and> h \<notin> set ds \<and> distinct ds"
          if "(h, ds) \<in> set (AList.update src (List.insert dst (neighbors g1 src)) (g_edges g1))" for h ds
        proof (cases "(h, ds) = (src, List.insert dst (neighbors g1 src))")
          case True
          then show ?thesis using hosts nb False by simp
        next
          case False
          then have "(h, ds) \<in> set (g_edges g1)" using subsetD [OF set_alist_update that] by blast
          then show ?thesis using g1(1) by (auto simp: graph_ok_def)
        qed
        then have "\<forall>(h, ds) \<in> set (AList.update src (List.insert dst (neighbors g1 src)) (g_edges g1)).
            h \<in> hosts_of g1 \<and> set ds \<subseteq> hosts_of g1 \<and> h \<notin> set ds \<and> distinct ds" by blast
        then show ?thesis using g1(1) by (simp add: graph_ok_def)
      qed
      then show ?thesis using Some src False g1(2) by (simp add: absorb_flow_def g1_def [symmetric] Let_def)
    qed (use Some src g1 in \<open>simp add: absorb_flow_def g1_def [symmetric] Let_def\<close>)
  qed
qed (use assms in \<open>simp add: absorb_flow_def\<close>)

section \<open>The edges are the observed flows\<close>

definition edges_of :: "kcatta_graph \<Rightarrow> (string \<times> string) set" where
  "edges_of g = {(h, d). d \<in> set (neighbors g h)}"

lemma edges_upd_node [simp]: "edges_of (upd_node h f g) = edges_of g" "neighbors (upd_node h f g) = neighbors g"
  by (auto simp: edges_of_def neighbors_def)

lemma neighbors_update:
  "neighbors (g\<lparr>g_edges := AList.update k v (g_edges g)\<rparr>) h = (if h = k then v else neighbors g h)"
  by (simp add: neighbors_def update_conv')

definition flow_edge :: "(string \<Rightarrow> string option) \<Rightarrow> flow_row \<Rightarrow> (string \<times> string) set" where
  "flow_edge idx f = {(h, d). h \<noteq> d \<and> idx (str_opt (f_src_ip f)) = Some h \<and> idx (str_opt (f_dst_ip f)) = Some d}"

lemma absorb_flow_edges: "edges_of (absorb_flow idx f g) = edges_of g \<union> flow_edge idx f"
proof (cases "idx (str_opt (f_dst_ip f))")
  case (Some dst)
  define g1 where "g1 = (case service_fact_for_port (f_dst_port f) of None \<Rightarrow> g | Some sf \<Rightarrow> upd_node dst (add_fact sf) g)"
  have g1: "neighbors g1 = neighbors g" by (auto simp: g1_def split: option.splits)
  show ?thesis
    using Some
    by (cases "idx (str_opt (f_src_ip f))")
      (auto simp: absorb_flow_def g1_def [symmetric] Let_def edges_of_def flow_edge_def neighbors_update g1 split: if_splits)
qed (auto simp: absorb_flow_def flow_edge_def)

lemma fold_flow_edges: "edges_of (fold (absorb_flow idx) fs g) = edges_of g \<union> (\<Union>f \<in> set fs. flow_edge idx f)"
  by (induction fs arbitrary: g) (auto simp: absorb_flow_edges)

lemma fold_flow_ok:
  assumes "graph_ok g" "\<And>ip h. idx ip = Some h \<Longrightarrow> h \<in> hosts_of g"
  shows "graph_ok (fold (absorb_flow idx) fs g) \<and> hosts_of (fold (absorb_flow idx) fs g) = hosts_of g"
  using assms
proof (induction fs arbitrary: g)
  case (Cons f fs)
  note st = absorb_flow_ok [where f = f and idx = idx, OF Cons.prems]
  then show ?case using Cons.IH [of "absorb_flow idx f g"] Cons.prems(2) by simp
qed simp

lemma fold_batches: "fold (\<lambda>b g. fold F b g) bs g = fold F (concat bs) g"
  by (induction bs arbitrary: g) (simp_all add: fold_append)

lemma fold_graph_ok: "(\<And>x g. graph_ok g \<Longrightarrow> graph_ok (F x g)) \<Longrightarrow> graph_ok g \<Longrightarrow> graph_ok (fold F xs g)"
  by (induction xs arbitrary: g) auto

lemma mark_web_simps [simp]: "g_edges (mark_web g) = g_edges g" "map fst (g_nodes (mark_web g)) = map fst (g_nodes g)"
  "neighbors (mark_web g) = neighbors g" "edges_of (mark_web g) = edges_of g"
  by (auto simp: mark_web_def neighbors_def edges_of_def case_prod_beta comp_def)

lemma hosts_mark_web [simp]: "hosts_of (mark_web g) = hosts_of g"
  by (metis list.set_map mark_web_simps(2))

lemma mark_web_ok: "graph_ok g \<Longrightarrow> graph_ok (mark_web g)"
  by (auto simp: graph_ok_def) (auto simp: mark_web_def split: if_splits)

text \<open>The flows leave the address index as it is.\<close>

lemma ip_pairs_upd: "(\<And>n. n_ips (f n) = n_ips n) \<Longrightarrow> ip_pairs (upd_node h f g) = ip_pairs g"
  by (auto simp: ip_pairs_def upd_node_def intro!: arg_cong [of _ _ concat])

lemma ip_pairs_edges [simp]: "ip_pairs (g\<lparr>g_edges := e\<rparr>) = ip_pairs g"
  by (simp add: ip_pairs_def)

lemma ip_pairs_flow: "ip_pairs (absorb_flow idx f g) = ip_pairs g"
  by (auto simp: absorb_flow_def Let_def add_fact_def ip_pairs_upd split: option.splits)

lemma ip_pairs_fold_flow: "ip_pairs (fold (absorb_flow idx) fs g) = ip_pairs g"
  by (rule fold_kept [of ip_pairs]) (rule ip_pairs_flow)

lemma ip_pairs_mark_web: "ip_pairs (mark_web g) = ip_pairs g"
  by (simp add: ip_pairs_def mark_web_def comp_def case_prod_beta) (rule arg_cong [of _ _ concat], auto)

lemma build_graph_ok: "graph_ok (build_kcatta_graph reports detections batches)"
proof -
  let ?g1 = "fold absorb_report reports \<lparr>g_nodes = [], g_edges = []\<rparr>" and ?g0 = "\<lparr>g_nodes = [], g_edges = []\<rparr> :: kcatta_graph"
  have "graph_ok ?g0" by (simp add: graph_ok_def)
  then have "graph_ok ?g1" using fold_graph_ok [of absorb_report] absorb_report_ok by blast
  then have ok2: "graph_ok (fold absorb_detection detections ?g1)"
    using fold_graph_ok [of absorb_detection] absorb_detection_ok by blast
  show ?thesis
    unfolding build_kcatta_graph_def Let_def fold_batches
    by (rule mark_web_ok, rule conjunct1, rule fold_flow_ok [OF ok2 ip_index_ran])
qed

text \<open>Reachability is what was observed. In the graph built from any telemetry, every edge connects two
  distinct known hosts, and there is an edge from one host to another exactly when some recorded flow
  goes from an address of the first to an address of the second.\<close>

theorem graph_edges_observed:
  "let g = build_kcatta_graph reports detections batches in
   graph_ok g \<and> (d \<in> set (neighbors g h) \<longleftrightarrow> h \<noteq> d \<and> (\<exists>b \<in> set batches. \<exists>f \<in> set b.
     ip_index g (str_opt (f_src_ip f)) = Some h \<and> ip_index g (str_opt (f_dst_ip f)) = Some d))"
proof -
  define g where "g = build_kcatta_graph reports detections batches"
  define g2 where "g2 = fold absorb_detection detections (fold absorb_report reports \<lparr>g_nodes = [], g_edges = []\<rparr>)"
  have g: "g = mark_web (fold (absorb_flow (ip_index g2)) (concat batches) g2)"
    by (simp add: g_def build_kcatta_graph_def g2_def Let_def fold_batches)
  have idx: "ip_index g = ip_index g2"
    by (simp add: g ip_index_def ip_pairs_mark_web ip_pairs_fold_flow)
  have "g_edges g2 = []"
  proof -
    have "g_edges (absorb_report r x) = g_edges x" for r x
      by (simp add: absorb_report_def Let_def node_for_def split: option.splits)
    moreover have "g_edges (absorb_detection r x) = g_edges x" for r x
      by (simp add: absorb_detection_def split: option.splits)
    ultimately show ?thesis
      unfolding g2_def using fold_kept [of g_edges absorb_report] fold_kept [of g_edges absorb_detection] by simp
  qed
  then have "edges_of g2 = {}" by (simp add: edges_of_def neighbors_def)
  then have "edges_of g = (\<Union>f \<in> set (concat batches). flow_edge (ip_index g) f)"
    unfolding idx by (simp add: g fold_flow_edges)
  then have "(h, d) \<in> edges_of g \<longleftrightarrow> (\<exists>f \<in> set (concat batches). (h, d) \<in> flow_edge (ip_index g) f)" by auto
  then show ?thesis
    using build_graph_ok [of reports detections batches, folded g_def]
    by (auto simp: edges_of_def flow_edge_def g_def [symmetric])
qed

end
