(* ===== verification/Predict_Engine.thy ===== *)
theory Predict_Engine
  imports Predict_Graph "HOL-Library.While_Combinator"
begin

text \<open>
  Attack-path prediction, \<open>analyzer/predict/engine.py\<close>: forward chaining of technique capabilities over the
  posture graph to a fixpoint, the reconstruction of the chains that reach a goal, and the reduction to the best
  route per objective. The outer \<open>while\<close> is \<open>while_option\<close> (\<open>None\<close> would be a loop that does not end), a failing
  dictionary or list access is an \<open>Inl\<close>. The
  field \<open>generated_at\<close> of a path is always absent here and is left out. SHA-1 of a string is the parameter \<open>sha1\<close>.
\<close>

section \<open>Data\<close>

record technique_capability =
  t_module_id :: string
  t_name :: string
  t_tactic :: string
  t_techniques :: "string list"
  t_preconditions :: "string list"
  t_postconditions :: "string list"
  t_requires_authorization :: bool

record attack_path_step =
  s_host_id :: string
  s_host_label :: string
  s_module_id :: string
  s_technique_id :: string
  s_tactic :: string
  s_preconditions_met :: "string list"
  s_postconditions_gained :: "string list"

record attack_path =
  ap_path_id :: string
  ap_severity :: severity
  ap_score :: int
  ap_entry_host :: string
  ap_goal_host :: string
  ap_goal :: string
  ap_steps :: "attack_path_step list"
  ap_related_asset_ids :: "string list"
  ap_related_vuln_ids :: "string list"

definition GOAL_FACTS :: "string list" where
  "GOAL_FACTS = [''access.domain_admin'', ''impact.achieved'', ''access.admin'', ''data.exfiltrated'', ''c2.established'',
     ''persistence.established'']"

definition OBJECTIVE_FACTS :: "string list" where
  "OBJECTIVE_FACTS = [''data.collected'', ''data.exfiltrated'', ''c2.established'', ''persistence.established'',
     ''impact.achieved'']"

definition GOAL_SEVERITY :: "(string \<times> severity) list" where
  "GOAL_SEVERITY = [(''access.domain_admin'', CRITICAL), (''impact.achieved'', CRITICAL), (''access.admin'', HIGH),
     (''data.exfiltrated'', HIGH), (''c2.established'', MEDIUM), (''persistence.established'', MEDIUM),
     (''access.foothold'', MEDIUM)]"

record application =
  a_idx :: nat
  a_host :: string
  a_cap :: technique_capability
  a_preconditions_met :: "string list"
  a_postconditions_gained :: "string list"
  a_support :: "nat list"

section \<open>Forward chaining\<close>

fun match_preconditions :: "string list \<Rightarrow> string list \<Rightarrow> string list option" where
  "match_preconditions [] facts = Some []"
| "match_preconditions (element # rest) facts =
     (let alts = filter (\<lambda>a. a \<noteq> []) (map strip (split_on CHR ''|'' element)) in
      case find (\<lambda>a. a \<in> set facts) alts of
        None \<Rightarrow> None
      | Some hit \<Rightarrow> map_option (\<lambda>ms. hit # ms) (match_preconditions rest facts))"

record pstate =
  p_reached :: "string list"
  p_access :: "string \<Rightarrow> string list option"
  p_creds :: "string \<Rightarrow> string list option"
  p_apps :: "application list"
  p_fact :: "string \<times> string \<Rightarrow> nat option"
  p_reach :: "string \<Rightarrow> nat option"
  p_applied :: "(string \<times> string) list"

definition get0 :: "('k \<Rightarrow> 'v list option) \<Rightarrow> 'k \<Rightarrow> 'v list" where
  "get0 m k = (case m k of None \<Rightarrow> [] | Some x \<Rightarrow> x)"

definition setdefault :: "('k \<Rightarrow> 'v option) \<Rightarrow> 'k \<Rightarrow> 'v \<Rightarrow> 'k \<Rightarrow> 'v option" where
  "setdefault m k v = (case m k of None \<Rightarrow> m(k \<mapsto> v) | Some _ \<Rightarrow> m)"

definition lookup_node :: "kcatta_graph \<Rightarrow> string \<Rightarrow> kcatta_node result" where
  "lookup_node g h = (case map_of (g_nodes g) h of None \<Rightarrow> Inl KeyError | Some n \<Rightarrow> Inr n)"

definition available :: "kcatta_graph \<Rightarrow> pstate \<Rightarrow> string \<Rightarrow> string list result" where
  "available g st host =
     rbind (lookup_node g host) (\<lambda>n.
       Inr (n_facts n @ [''net.reachable''] @ get0 (p_access st) host @ get0 (p_creds st) host))"

definition move_cred :: "string \<Rightarrow> string \<Rightarrow> string \<Rightarrow> pstate \<times> bool \<Rightarrow> (pstate \<times> bool) result" where
  "move_cred src dst cred = (\<lambda>(st, moved).
     if cred \<in> set (get0 (p_creds st) dst) then Inr (st, moved)
     else case p_fact st (src, cred) of
         None \<Rightarrow> Inl KeyError
       | Some i \<Rightarrow> Inr (st\<lparr>p_creds := (p_creds st)(dst \<mapsto> List.insert cred (get0 (p_creds st) dst)),
                       p_fact := setdefault (p_fact st) (dst, cred) i\<rparr>, True))"

definition propagate_from :: "kcatta_graph \<Rightarrow> string \<Rightarrow> pstate \<times> bool \<Rightarrow> (pstate \<times> bool) result" where
  "propagate_from g src = (\<lambda>(st, moved).
     let src_creds = get0 (p_creds st) src in
     if src_creds = [] then Inr (st, moved)
     else rfold (\<lambda>dst. rfold (\<lambda>cred. move_cred src dst cred) src_creds) (sort (neighbors g src)) (st, moved))"

definition propagate_creds :: "kcatta_graph \<Rightarrow> pstate \<Rightarrow> (pstate \<times> bool) result" where
  "propagate_creds g st = rfold (propagate_from g) (sort (p_reached st)) (st, False)"

definition discover :: "nat \<Rightarrow> string \<Rightarrow> pstate \<Rightarrow> pstate" where
  "discover idx neighbor st =
     (if neighbor \<notin> set (p_reached st)
      then st\<lparr>p_reached := neighbor # p_reached st, p_reach := setdefault (p_reach st) neighbor idx\<rparr>
      else st)"

definition apply_effect :: "kcatta_graph \<Rightarrow> string \<Rightarrow> nat \<Rightarrow> string \<Rightarrow> pstate \<Rightarrow> pstate" where
  "apply_effect g host idx post st =
     (if startswith post ''cred.'' then
        st\<lparr>p_fact := setdefault (p_fact st) (host, post) idx,
           p_creds := (p_creds st)(host \<mapsto> List.insert post (get0 (p_creds st) host))\<rparr>
      else if startswith post ''access.'' \<or> post \<in> set OBJECTIVE_FACTS then
        st\<lparr>p_fact := setdefault (p_fact st) (host, post) idx,
           p_access := (p_access st)(host \<mapsto> List.insert post (get0 (p_access st) host))\<rparr>
      else if post = ''host.discovered'' then fold (discover idx) (neighbors g host) st
      else st)"

definition apply_effects :: "kcatta_graph \<Rightarrow> string \<Rightarrow> nat \<Rightarrow> string list \<Rightarrow> pstate \<Rightarrow> pstate" where
  "apply_effects g host idx posts st = fold (apply_effect g host idx) posts st"

definition support_of :: "string list \<Rightarrow> string \<Rightarrow> string list \<Rightarrow> pstate \<Rightarrow> nat list" where
  "support_of entry host matched st =
     (let s = fold (\<lambda>fact s. case p_fact st (host, fact) of None \<Rightarrow> s | Some i \<Rightarrow> List.insert i s) matched [] in
      if host \<notin> set entry then (case p_reach st host of None \<Rightarrow> s | Some i \<Rightarrow> List.insert i s) else s)"

definition try_cap :: "kcatta_graph \<Rightarrow> string list \<Rightarrow> string \<Rightarrow> string list \<Rightarrow> technique_capability \<Rightarrow> pstate \<times> bool
    \<Rightarrow> pstate \<times> bool" where
  "try_cap g entry host facts cap = (\<lambda>(st, changed).
     if (t_module_id cap, host) \<in> set (p_applied st) then (st, changed)
     else if t_preconditions cap = [] \<and> host \<notin> set entry then (st, changed)
     else case match_preconditions (t_preconditions cap) facts of
         None \<Rightarrow> (st, changed)
       | Some matched \<Rightarrow>
           let idx = length (p_apps st);
               app = \<lparr>a_idx = idx, a_host = host, a_cap = cap, a_preconditions_met = matched,
                      a_postconditions_gained = t_postconditions cap, a_support = support_of entry host matched st\<rparr>;
               st1 = st\<lparr>p_apps := p_apps st @ [app], p_applied := (t_module_id cap, host) # p_applied st\<rparr> in
           (apply_effects g host idx (t_postconditions cap) st1, True))"

definition visit_host :: "kcatta_graph \<Rightarrow> technique_capability list \<Rightarrow> string list \<Rightarrow> string \<Rightarrow> pstate \<times> bool
    \<Rightarrow> (pstate \<times> bool) result" where
  "visit_host g caps entry host s =
     rbind (available g (fst s) host) (\<lambda>facts. Inr (fold (try_cap g entry host facts) caps s))"

definition predict_pass :: "kcatta_graph \<Rightarrow> technique_capability list \<Rightarrow> string list \<Rightarrow> pstate \<Rightarrow> (pstate \<times> bool) result" where
  "predict_pass g caps entry st =
     rbind (propagate_creds g st) (\<lambda>s. rfold (visit_host g caps entry) (sort (p_reached (fst s))) s)"

definition loop_cond :: "(pstate \<times> bool) result \<Rightarrow> bool" where
  "loop_cond x = (case x of Inl _ \<Rightarrow> False | Inr (_, changed) \<Rightarrow> changed)"

definition loop_body :: "kcatta_graph \<Rightarrow> technique_capability list \<Rightarrow> string list \<Rightarrow> (pstate \<times> bool) result
    \<Rightarrow> (pstate \<times> bool) result" where
  "loop_body g caps entry x = rbind x (\<lambda>(st, _). predict_pass g caps entry st)"

definition initial_state :: "string list \<Rightarrow> pstate" where
  "initial_state entry = \<lparr>p_reached = entry, p_access = Map.empty, p_creds = Map.empty, p_apps = [], p_fact = Map.empty,
     p_reach = Map.empty, p_applied = []\<rparr>"

definition usable_caps :: "technique_capability list \<Rightarrow> technique_capability list" where
  "usable_caps capabilities =
     sort_key t_module_id (filter (\<lambda>c. t_preconditions c \<noteq> [] \<or> t_postconditions c \<noteq> []) capabilities)"

definition chain :: "kcatta_graph \<Rightarrow> technique_capability list \<Rightarrow> (pstate \<times> bool) result option" where
  "chain g capabilities =
     (let entry = entry_hosts g in
      while_option loop_cond (loop_body g (usable_caps capabilities) entry) (Inr (initial_state entry, True)))"

end
