(* ===== verification/Predict_Laws.thy ===== *)
theory Predict_Laws
  imports Predict_Engine
begin

text \<open>
  The forward chain ends and is grounded. \<open>grounded\<close> says of one application that everything it uses was
  observed or obtained before it: its host is an entry point or was discovered by an earlier application on a
  host with an edge to it, and each precondition is an observed fact of the host, network reachability, or a
  postcondition of an earlier application in its support, on the same host or, for a credential only, on a host
  from which this one is reachable along edges. \<open>chain_inv\<close> is the invariant of the loop.
\<close>

definition earlier_fact :: "kcatta_graph \<Rightarrow> application list \<Rightarrow> nat \<Rightarrow> string \<Rightarrow> string \<Rightarrow> bool" where
  "earlier_fact g apps j host x = (j < length apps \<and> x \<in> set (a_postconditions_gained (apps ! j))
     \<and> (a_host (apps ! j), host) \<in> (edges_of g)\<^sup>* \<and> (a_host (apps ! j) = host \<or> startswith x ''cred.''))"

definition discovers :: "kcatta_graph \<Rightarrow> application list \<Rightarrow> nat \<Rightarrow> string \<Rightarrow> bool" where
  "discovers g apps j host = (j < length apps \<and> (a_host (apps ! j), host) \<in> edges_of g
     \<and> ''host.discovered'' \<in> set (a_postconditions_gained (apps ! j)))"

definition grounded :: "kcatta_graph \<Rightarrow> technique_capability list \<Rightarrow> string list \<Rightarrow> application list \<Rightarrow> nat \<Rightarrow> bool" where
  "grounded g caps entry apps i = (let a = apps ! i in
     a_idx a = i \<and> a_host a \<in> hosts_of g \<and> a_cap a \<in> set caps
     \<and> a_postconditions_gained a = t_postconditions (a_cap a)
     \<and> (\<forall>j \<in> set (a_support a). j < i)
     \<and> (a_host a \<in> set entry \<or> (\<exists>j \<in> set (a_support a). discovers g apps j (a_host a)))
     \<and> (t_preconditions (a_cap a) = [] \<longrightarrow> a_host a \<in> set entry)
     \<and> (\<exists>facts. match_preconditions (t_preconditions (a_cap a)) facts = Some (a_preconditions_met a))
     \<and> (\<forall>x \<in> set (a_preconditions_met a).
          x = ''net.reachable'' \<or> (\<exists>n. map_of (g_nodes g) (a_host a) = Some n \<and> x \<in> set (n_facts n))
          \<or> (\<exists>j \<in> set (a_support a). earlier_fact g apps j (a_host a) x)))"

definition chain_inv :: "kcatta_graph \<Rightarrow> technique_capability list \<Rightarrow> string list \<Rightarrow> pstate \<Rightarrow> bool" where
  "chain_inv g caps entry st = (
     set entry \<subseteq> set (p_reached st) \<and> set (p_reached st) \<subseteq> hosts_of g
     \<and> set (p_applied st) \<subseteq> t_module_id ` set caps \<times> hosts_of g
     \<and> (\<forall>h x. x \<in> set (get0 (p_creds st) h) \<longrightarrow> h \<in> hosts_of g \<and> startswith x ''cred.'' \<and> p_fact st (h, x) \<noteq> None)
     \<and> (\<forall>h x. x \<in> set (get0 (p_access st) h) \<longrightarrow> p_fact st (h, x) \<noteq> None)
     \<and> (\<forall>h x i. p_fact st (h, x) = Some i \<longrightarrow> earlier_fact g (p_apps st) i h x)
     \<and> (\<forall>h i. p_reach st h = Some i \<longrightarrow> discovers g (p_apps st) i h)
     \<and> (\<forall>h \<in> set (p_reached st). h \<in> set entry \<or> p_reach st h \<noteq> None)
     \<and> (\<forall>i < length (p_apps st). grounded g caps entry (p_apps st) i))"

text \<open>Progress: the applied techniques and the placed credentials only grow.\<close>

definition placed :: "pstate \<Rightarrow> (string \<times> string) set" where
  "placed st = {(h, x). x \<in> set (get0 (p_creds st) h)}"

definition grows :: "pstate \<times> bool \<Rightarrow> pstate \<times> bool \<Rightarrow> bool" where
  "grows s s' = (set (p_applied (fst s)) \<subseteq> set (p_applied (fst s')) \<and> placed (fst s) \<subseteq> placed (fst s')
     \<and> (\<forall>k. p_fact (fst s) k \<noteq> None \<longrightarrow> p_fact (fst s') k \<noteq> None)
     \<and> set (p_reached (fst s)) \<subseteq> set (p_reached (fst s'))
     \<and> (snd s \<longrightarrow> snd s')
     \<and> (snd s' \<longrightarrow> snd s \<or> set (p_applied (fst s)) \<noteq> set (p_applied (fst s')) \<or> placed (fst s) \<noteq> placed (fst s')))"

lemma grows_refl [simp]: "grows s s"
  by (simp add: grows_def)

lemma grows_trans: "grows a b \<Longrightarrow> grows b c \<Longrightarrow> grows a c"
  unfolding grows_def by (intro conjI) (blast | meson subset_antisym subset_trans)+

lemma get0_upd [simp]: "get0 (m(k \<mapsto> v)) h = (if h = k then v else get0 m h)"
  by (simp add: get0_def)

lemma setdefault_Some: "setdefault m k v x = Some y \<longleftrightarrow> m x = Some y \<or> (m x = None \<and> x = k \<and> y = v)"
  by (auto simp: setdefault_def split: option.splits)

lemma setdefault_None: "setdefault m k v x = None \<longleftrightarrow> m x = None \<and> x \<noteq> k"
  by (auto simp: setdefault_def split: option.splits)

lemma nth_append_old: "j < length xs \<Longrightarrow> (xs @ ys) ! j = xs ! j"
  by (simp add: nth_append)

lemma earlier_fact_append: "earlier_fact g apps j h x \<Longrightarrow> earlier_fact g (apps @ bs) j h x"
  by (simp add: earlier_fact_def nth_append_old)

lemma discovers_append: "discovers g apps j h \<Longrightarrow> discovers g (apps @ bs) j h"
  by (simp add: discovers_def nth_append_old)

lemma grounded_append: "i < length apps \<Longrightarrow> grounded g caps entry apps i \<Longrightarrow> grounded g caps entry (apps @ bs) i"
  unfolding grounded_def Let_def nth_append_old by (blast intro: earlier_fact_append discovers_append)

section \<open>Credential propagation\<close>

lemma move_cred_ok:
  assumes inv: "chain_inv g caps entry st" and e: "(src, dst) \<in> edges_of g" "dst \<in> hosts_of g"
    and c: "cred \<in> set (get0 (p_creds st) src)"
  shows "\<exists>s'. move_cred src dst cred (st, b) = Inr s' \<and> chain_inv g caps entry (fst s') \<and> grows (st, b) s'
    \<and> p_reached (fst s') = p_reached st"
proof (cases "cred \<in> set (get0 (p_creds st) dst)")
  case True
  then show ?thesis using inv by (simp add: move_cred_def)
next
  case False
  have "p_fact st (src, cred) \<noteq> None" and sw: "startswith cred ''cred.''" using inv c by (auto simp: chain_inv_def)
  then obtain i where i: "p_fact st (src, cred) = Some i" by blast
  have ef: "earlier_fact g (p_apps st) i src cred" using inv i by (simp add: chain_inv_def)
  then have ef': "earlier_fact g (p_apps st) i dst cred"
    using e(1) sw by (auto simp: earlier_fact_def intro: rtrancl_into_rtrancl)
  let ?st = "st\<lparr>p_creds := (p_creds st)(dst \<mapsto> List.insert cred (get0 (p_creds st) dst)),
                       p_fact := setdefault (p_fact st) (dst, cred) i\<rparr>"
  have inv': "chain_inv g caps entry ?st"
    using inv e(2) sw ef' unfolding chain_inv_def
    by (auto simp: setdefault_Some setdefault_None)
  have "placed ?st = insert (dst, cred) (placed st)" "(dst, cred) \<notin> placed st"
    using False by (auto simp: placed_def split: if_splits)
  then have "grows (st, b) (?st, True)" by (auto simp: grows_def setdefault_None)
  then show ?thesis using False i inv' by (simp add: move_cred_def)
qed

text \<open>What a part of a pass keeps: the invariant, and growth since the state \<open>s0\<close>.\<close>

definition kept_since :: "kcatta_graph \<Rightarrow> technique_capability list \<Rightarrow> string list \<Rightarrow> pstate \<times> bool \<Rightarrow> pstate \<times> bool \<Rightarrow> bool" where
  "kept_since g caps entry s0 s = (chain_inv g caps entry (fst s) \<and> grows s0 s)"

lemma kept_since_refl: "chain_inv g caps entry (fst s) \<Longrightarrow> kept_since g caps entry s s"
  by (simp add: kept_since_def)

lemma kept_since_trans: "kept_since g caps entry a b \<Longrightarrow> kept_since g caps entry b d \<Longrightarrow> kept_since g caps entry a d"
  by (auto simp: kept_since_def intro: grows_trans)

lemma rfold_kept:
  assumes "chain_inv g caps entry (fst s0)"
    "\<And>x s. x \<in> set xs \<Longrightarrow> kept_since g caps entry s0 s \<Longrightarrow> \<exists>s'. f x s = Inr s' \<and> kept_since g caps entry s s'"
  shows "\<exists>s'. rfold f xs s0 = Inr s' \<and> kept_since g caps entry s0 s'"
  by (rule rfold_inv [where P = "kept_since g caps entry s0"])
    (use assms kept_since_refl kept_since_trans in blast)+

lemma placed_mem: "x \<in> set (get0 (p_creds st) h) \<longleftrightarrow> (h, x) \<in> placed st"
  by (simp add: placed_def)

lemma propagate_from_ok:
  assumes g: "graph_ok g" and inv: "chain_inv g caps entry (fst s0)"
  shows "\<exists>s'. propagate_from g src s0 = Inr s' \<and> kept_since g caps entry s0 s'"
proof -
  obtain st b where s0: "s0 = (st, b)" by (cases s0)
  let ?cs = "get0 (p_creds st) src"
  have "\<exists>s'. rfold (\<lambda>dst. rfold (\<lambda>cred. move_cred src dst cred) ?cs) (sort (neighbors g src)) s0 = Inr s'
      \<and> kept_since g caps entry s0 s'"
  proof (rule rfold_kept [OF inv])
    fix dst s
    assume dst: "dst \<in> set (sort (neighbors g src))" and s: "kept_since g caps entry s0 s"
    then have e: "(src, dst) \<in> edges_of g" "dst \<in> hosts_of g"
      using neighbors_ok(1) [OF g] by (auto simp: edges_of_def)
    show "\<exists>s'. rfold (\<lambda>cred. move_cred src dst cred) ?cs s = Inr s' \<and> kept_since g caps entry s s'"
    proof (rule rfold_kept)
      show "chain_inv g caps entry (fst s)" using s by (simp add: kept_since_def)
      fix cred s1
      assume c: "cred \<in> set ?cs" and s1: "kept_since g caps entry s s1"
      have "placed st \<subseteq> placed (fst s1)"
        using s s1 unfolding kept_since_def grows_def s0 by auto
      then have "cred \<in> set (get0 (p_creds (fst s1)) src)" using c by (auto simp: placed_mem)
      from move_cred_ok [OF _ e this, of caps entry "snd s1"] s1
      show "\<exists>s'. move_cred src dst cred s1 = Inr s' \<and> kept_since g caps entry s1 s'"
        by (auto simp: kept_since_def)
    qed
  qed
  then show ?thesis using inv by (auto simp: propagate_from_def s0 Let_def intro: kept_since_refl)
qed

lemma propagate_creds_ok:
  assumes "graph_ok g" "chain_inv g caps entry st"
  shows "\<exists>s'. propagate_creds g st = Inr s' \<and> kept_since g caps entry (st, False) s'"
  unfolding propagate_creds_def
  by (rule rfold_kept) (use assms propagate_from_ok [OF assms(1)] in \<open>auto simp: kept_since_def\<close>)

section \<open>Applying a technique\<close>

text \<open>The effect of one postcondition of the application stored at \<open>idx\<close>.\<close>

lemma discover_ok:
  assumes "chain_inv g caps entry st" "discovers g (p_apps st) idx d" "d \<in> hosts_of g"
  shows "chain_inv g caps entry (discover idx d st) \<and> grows (st, b) (discover idx d st, b)
    \<and> p_apps (discover idx d st) = p_apps st"
proof (cases "d \<in> set (p_reached st)")
  case False
  then have "chain_inv g caps entry (discover idx d st)"
    using assms unfolding chain_inv_def discover_def by (auto simp: setdefault_Some setdefault_None)
  then show ?thesis using False by (auto simp: grows_def discover_def placed_def)
qed (use assms(1) in \<open>simp add: discover_def\<close>)

lemma fold_discover_ok:
  assumes "chain_inv g caps entry st" "\<forall>d \<in> set ds. discovers g (p_apps st) idx d \<and> d \<in> hosts_of g"
  shows "chain_inv g caps entry (fold (discover idx) ds st) \<and> grows (st, b) (fold (discover idx) ds st, b)
    \<and> p_apps (fold (discover idx) ds st) = p_apps st"
  using assms
proof (induction ds arbitrary: st)
  case (Cons d ds)
  note st = discover_ok [OF Cons.prems(1), of idx d b]
  then have st': "chain_inv g caps entry (discover idx d st)" "grows (st, b) (discover idx d st, b)"
      "p_apps (discover idx d st) = p_apps st" using Cons.prems(2) by auto
  then have "chain_inv g caps entry (fold (discover idx) ds (discover idx d st))
      \<and> grows (discover idx d st, b) (fold (discover idx) ds (discover idx d st), b)
      \<and> p_apps (fold (discover idx) ds (discover idx d st)) = p_apps st"
    using Cons.IH [OF st'(1)] Cons.prems(2) by simp
  then show ?case using grows_trans [OF st'(2)] by simp
qed simp

lemma apply_effect_ok:
  assumes g: "graph_ok g" and inv: "chain_inv g caps entry st" and idx: "idx < length (p_apps st)"
    and host: "a_host (p_apps st ! idx) = host" "host \<in> hosts_of g"
    and post: "post \<in> set (a_postconditions_gained (p_apps st ! idx))"
  shows "chain_inv g caps entry (apply_effect g host idx post st) \<and> grows (st, True) (apply_effect g host idx post st, True)
    \<and> p_apps (apply_effect g host idx post st) = p_apps st"
proof -
  have ef: "earlier_fact g (p_apps st) idx host post" using idx host(1) post by (simp add: earlier_fact_def)
  consider (cred) "startswith post ''cred.''" | (access) "\<not> startswith post ''cred.''" "startswith post ''access.'' \<or> post \<in> set OBJECTIVE_FACTS"
    | (disc) "\<not> startswith post ''cred.''" "\<not> (startswith post ''access.'' \<or> post \<in> set OBJECTIVE_FACTS)" "post = ''host.discovered''"
    | (other) "\<not> startswith post ''cred.''" "\<not> (startswith post ''access.'' \<or> post \<in> set OBJECTIVE_FACTS)" "post \<noteq> ''host.discovered''"
    by blast
  then show ?thesis
  proof cases
    case cred
    then show ?thesis
      using inv ef host(2) unfolding chain_inv_def apply_effect_def
      by (auto simp: setdefault_Some setdefault_None grows_def placed_def)
  next
    case access
    then show ?thesis
      using inv ef unfolding chain_inv_def apply_effect_def
      by (auto simp: setdefault_Some setdefault_None grows_def placed_def)
  next
    case disc
    have "\<forall>d \<in> set (neighbors g host). discovers g (p_apps st) idx d \<and> d \<in> hosts_of g"
      using neighbors_ok(1) [OF g] idx host(1) post disc(3) by (auto simp: discovers_def edges_of_def)
    then show ?thesis using fold_discover_ok [OF inv] disc by (simp add: apply_effect_def)
  qed (use inv in \<open>simp add: apply_effect_def\<close>)
qed

lemma apply_effects_ok:
  assumes g: "graph_ok g" and inv: "chain_inv g caps entry st" and idx: "idx < length (p_apps st)"
    and host: "a_host (p_apps st ! idx) = host" "host \<in> hosts_of g"
    and post: "set posts \<subseteq> set (a_postconditions_gained (p_apps st ! idx))"
  shows "chain_inv g caps entry (apply_effects g host idx posts st) \<and> grows (st, True) (apply_effects g host idx posts st, True)"
  using inv idx host(1) post
proof (induction posts arbitrary: st)
  case (Cons p ps)
  have st: "chain_inv g caps entry (apply_effect g host idx p st)" "grows (st, True) (apply_effect g host idx p st, True)"
      "p_apps (apply_effect g host idx p st) = p_apps st"
    using apply_effect_ok [OF g Cons.prems(1-3) host(2)] Cons.prems(4) by auto
  then have "chain_inv g caps entry (apply_effects g host idx ps (apply_effect g host idx p st))
      \<and> grows (apply_effect g host idx p st, True) (apply_effects g host idx ps (apply_effect g host idx p st), True)"
    using Cons.IH [OF st(1)] Cons.prems by simp
  then show ?case using grows_trans [OF st(2)] by (simp add: apply_effects_def)
qed (simp add: apply_effects_def)

lemma match_preconditions_facts: "match_preconditions pre facts = Some ms \<Longrightarrow> set ms \<subseteq> set facts"
  by (induction pre arbitrary: ms) (auto simp: Let_def find_Some_iff split: option.splits)

lemma support_fold:
  "set (fold (\<lambda>x s. case m (h, x) of None \<Rightarrow> s | Some i \<Rightarrow> List.insert i s) ms acc)
     = set acc \<union> {i. \<exists>x \<in> set ms. m (h, x) = Some i}"
  by (induction ms arbitrary: acc) (auto split: option.splits)

lemma support_of_set:
  "set (support_of entry host ms st) = {i. \<exists>x \<in> set ms. p_fact st (host, x) = Some i}
     \<union> (if host \<in> set entry then {} else {i. p_reach st host = Some i})"
  by (auto simp: support_of_def Let_def support_fold split: option.splits)

text \<open>The facts a host is visited with are observed or have a producer.\<close>

definition fact_ready :: "kcatta_graph \<Rightarrow> pstate \<Rightarrow> string \<Rightarrow> string \<Rightarrow> bool" where
  "fact_ready g st host x = (x = ''net.reachable'' \<or> (\<exists>n. map_of (g_nodes g) host = Some n \<and> x \<in> set (n_facts n))
     \<or> p_fact st (host, x) \<noteq> None)"

lemma try_cap_ok:
  assumes g: "graph_ok g" and inv: "chain_inv g caps entry (fst s)" and cap: "cap \<in> set caps"
    and host: "host \<in> set (p_reached (fst s))" and facts: "\<forall>x \<in> set facts. fact_ready g (fst s) host x"
  shows "kept_since g caps entry s (try_cap g entry host facts cap s)"
proof -
  obtain st b where s: "s = (st, b)" by (cases s)
  show ?thesis
  proof (cases "(t_module_id cap, host) \<in> set (p_applied st) \<or> t_preconditions cap = [] \<and> host \<notin> set entry
      \<or> match_preconditions (t_preconditions cap) facts = None")
    case True
    then show ?thesis using inv by (auto simp: try_cap_def s kept_since_def)
  next
    case False
    then obtain ms where ms: "match_preconditions (t_preconditions cap) facts = Some ms" by blast
    define app where "app = \<lparr>a_idx = length (p_apps st), a_host = host, a_cap = cap, a_preconditions_met = ms,
                      a_postconditions_gained = t_postconditions cap, a_support = support_of entry host ms st\<rparr>"
    define st1 where "st1 = st\<lparr>p_apps := p_apps st @ [app], p_applied := (t_module_id cap, host) # p_applied st\<rparr>"
    let ?i = "length (p_apps st)"
    have hg: "host \<in> hosts_of g" using inv host by (auto simp: chain_inv_def s)
    have reach: "host \<in> set entry \<or> (\<exists>j. p_reach st host = Some j)" using inv host by (auto simp: chain_inv_def s)
    have fact: "earlier_fact g (p_apps st) j host x" if "p_fact st (host, x) = Some j" for j x
      using inv that by (simp add: chain_inv_def s)
    have disc: "discovers g (p_apps st) j host" if "p_reach st host = Some j" for j
      using inv that by (simp add: chain_inv_def s)
    have "grounded g caps entry (p_apps st @ [app]) ?i"
      unfolding grounded_def Let_def
    proof (intro conjI ballI impI)
      show "j < ?i" if "j \<in> set (a_support ((p_apps st @ [app]) ! ?i))" for j
        using that fact disc by (auto simp: app_def support_of_set earlier_fact_def discovers_def split: if_splits)
      show "a_host ((p_apps st @ [app]) ! ?i) \<in> set entry \<or>
          (\<exists>j \<in> set (a_support ((p_apps st @ [app]) ! ?i)). discovers g (p_apps st @ [app]) j (a_host ((p_apps st @ [app]) ! ?i)))"
        using reach disc by (auto simp: app_def support_of_set intro: discovers_append)
      show "\<exists>facts. match_preconditions (t_preconditions (a_cap ((p_apps st @ [app]) ! ?i))) facts
          = Some (a_preconditions_met ((p_apps st @ [app]) ! ?i))"
        using ms by (auto simp: app_def)
      show "a_host ((p_apps st @ [app]) ! ?i) \<in> set entry" if "t_preconditions (a_cap ((p_apps st @ [app]) ! ?i)) = []"
        using that False by (auto simp: app_def)
      fix x
      assume "x \<in> set (a_preconditions_met ((p_apps st @ [app]) ! ?i))"
      then have x: "x \<in> set ms" by (simp add: app_def)
      then have "fact_ready g st host x" using facts match_preconditions_facts [OF ms] by (auto simp: s)
      moreover have "\<exists>j \<in> set (support_of entry host ms st). earlier_fact g (p_apps st @ [app]) j host x"
        if some: "p_fact st (host, x) \<noteq> None"
      proof -
        obtain j where j: "p_fact st (host, x) = Some j" using some by blast
        then have "j \<in> set (support_of entry host ms st)" using x by (auto simp: support_of_set)
        then show ?thesis using earlier_fact_append [OF fact [OF j]] by blast
      qed
      ultimately show "x = ''net.reachable'' \<or> (\<exists>n. map_of (g_nodes g) (a_host ((p_apps st @ [app]) ! ?i)) = Some n \<and> x \<in> set (n_facts n)) \<or>
          (\<exists>j \<in> set (a_support ((p_apps st @ [app]) ! ?i)). earlier_fact g (p_apps st @ [app]) j (a_host ((p_apps st @ [app]) ! ?i)) x)"
        unfolding fact_ready_def by (auto simp: app_def)
    qed (use hg cap in \<open>simp_all add: app_def\<close>)
    then have gr: "grounded g caps entry (p_apps st @ [app]) i" if "i < Suc ?i" for i
      using that inv by (cases "i = ?i") (auto simp: chain_inv_def s intro: grounded_append)
    have inv1: "chain_inv g caps entry st1"
      using inv hg cap gr unfolding chain_inv_def s st1_def
      by (auto intro: earlier_fact_append discovers_append)
    have "grows (st, b) (st1, True)" using False by (auto simp: grows_def st1_def placed_def)
    moreover have "chain_inv g caps entry (apply_effects g host ?i (t_postconditions cap) st1)
        \<and> grows (st1, True) (apply_effects g host ?i (t_postconditions cap) st1, True)"
      by (rule apply_effects_ok [OF g inv1]) (simp_all add: st1_def app_def hg)
    moreover have "try_cap g entry host facts cap s = (apply_effects g host ?i (t_postconditions cap) st1, True)"
      using False ms by (auto simp: try_cap_def s st1_def app_def Let_def)
    ultimately show ?thesis by (auto simp: kept_since_def s intro: grows_trans)
  qed
qed

lemma fact_ready_mono: "fact_ready g (fst s) host x \<Longrightarrow> grows s s' \<Longrightarrow> fact_ready g (fst s') host x"
  by (auto simp: fact_ready_def grows_def)

lemma fold_try_cap_ok:
  assumes g: "graph_ok g" and inv: "chain_inv g caps entry (fst s)" and sub: "set cs \<subseteq> set caps"
    and host: "host \<in> set (p_reached (fst s))" and facts: "\<forall>x \<in> set facts. fact_ready g (fst s) host x"
  shows "kept_since g caps entry s (fold (try_cap g entry host facts) cs s)"
  using inv sub host facts
proof (induction cs arbitrary: s)
  case (Cons c cs)
  let ?s1 = "try_cap g entry host facts c s"
  have k: "kept_since g caps entry s ?s1" using try_cap_ok [OF g Cons.prems(1)] Cons.prems(2-4) by simp
  then have gr: "grows s ?s1" and "chain_inv g caps entry (fst ?s1)" by (simp_all add: kept_since_def)
  moreover have "host \<in> set (p_reached (fst ?s1))" using gr Cons.prems(3) by (auto simp: grows_def)
  moreover have "\<forall>x \<in> set facts. fact_ready g (fst ?s1) host x" using gr Cons.prems(4) fact_ready_mono by blast
  ultimately show ?case using Cons.IH [of ?s1] Cons.prems(2) kept_since_trans [OF k] by simp
qed (simp add: kept_since_refl)

lemma visit_host_ok:
  assumes g: "graph_ok g" and inv: "chain_inv g caps entry (fst s)" and host: "host \<in> set (p_reached (fst s))"
  shows "\<exists>s'. visit_host g caps entry host s = Inr s' \<and> kept_since g caps entry s s'"
proof -
  have "host \<in> hosts_of g" using inv host by (auto simp: chain_inv_def)
  then obtain n where n: "map_of (g_nodes g) host = Some n"
    by (metis domIff dom_map_of_conv_image_fst not_None_eq)
  define facts where "facts = n_facts n @ [''net.reachable''] @ get0 (p_access (fst s)) host @ get0 (p_creds (fst s)) host"
  have "\<forall>x \<in> set facts. fact_ready g (fst s) host x"
    using inv n by (auto simp: facts_def fact_ready_def chain_inv_def)
  then have "kept_since g caps entry s (fold (try_cap g entry host facts) caps s)"
    by (intro fold_try_cap_ok [OF g inv _ host]) simp_all
  then show ?thesis by (simp add: visit_host_def available_def lookup_node_def n facts_def)
qed

lemma predict_pass_ok:
  assumes "graph_ok g" "chain_inv g caps entry st"
  shows "\<exists>s'. predict_pass g caps entry st = Inr s' \<and> kept_since g caps entry (st, False) s'"
proof -
  obtain s where s: "propagate_creds g st = Inr s" "kept_since g caps entry (st, False) s"
    using propagate_creds_ok [OF assms] by blast
  then have inv: "chain_inv g caps entry (fst s)" by (simp add: kept_since_def)
  have "\<exists>s'. rfold (visit_host g caps entry) (sort (p_reached (fst s))) s = Inr s' \<and> kept_since g caps entry s s'"
  proof (rule rfold_kept [OF inv])
    fix h s1
    assume "h \<in> set (sort (p_reached (fst s)))" "kept_since g caps entry s s1"
    then show "\<exists>s'. visit_host g caps entry h s1 = Inr s' \<and> kept_since g caps entry s1 s'"
      by (intro visit_host_ok [OF assms(1)]) (auto simp: kept_since_def grows_def)
  qed
  then show ?thesis using s(1) kept_since_trans [OF s(2)] by (auto simp: predict_pass_def simp del: split_paired_All split_paired_Ex)
qed

section \<open>The loop ends\<close>

definition cred_names :: "technique_capability list \<Rightarrow> string set" where
  "cred_names caps = (\<Union>c \<in> set caps. set (t_postconditions c))"

lemma placed_bound:
  assumes "chain_inv g caps entry st"
  shows "placed st \<subseteq> hosts_of g \<times> cred_names caps"
proof
  fix p
  assume "p \<in> placed st"
  then obtain h x where p: "p = (h, x)" "x \<in> set (get0 (p_creds st) h)" by (auto simp: placed_def)
  then have h: "h \<in> hosts_of g" "p_fact st (h, x) \<noteq> None" using assms by (auto simp: chain_inv_def)
  then obtain i where "p_fact st (h, x) = Some i" by blast
  then have "i < length (p_apps st)" "x \<in> set (a_postconditions_gained (p_apps st ! i))"
    using assms by (auto simp: chain_inv_def earlier_fact_def)
  then have "\<exists>c \<in> set caps. x \<in> set (t_postconditions c)"
    using assms unfolding chain_inv_def grounded_def Let_def by metis
  then show "p \<in> hosts_of g \<times> cred_names caps" using p h by (auto simp: cred_names_def)
qed

definition loop_measure :: "kcatta_graph \<Rightarrow> technique_capability list \<Rightarrow> (pstate \<times> bool) result \<Rightarrow> nat" where
  "loop_measure g caps x = (case x of Inl _ \<Rightarrow> 0
     | Inr (st, ch) \<Rightarrow> 2 * (card (t_module_id ` set caps \<times> hosts_of g - set (p_applied st))
         + card (hosts_of g \<times> cred_names caps - placed st)) + (if ch then 1 else 0))"

lemma card_shrink: "finite U \<Longrightarrow> A \<subseteq> B \<Longrightarrow> B \<subseteq> U \<Longrightarrow> card (U - B) \<le> card (U - A)"
  by (meson Diff_mono card_mono finite_Diff subset_refl)

lemma card_shrink_strict: "finite U \<Longrightarrow> A \<subset> B \<Longrightarrow> B \<subseteq> U \<Longrightarrow> card (U - B) < card (U - A)"
  by (metis Diff_subset double_diff finite_Diff psubset_card_mono psubsetE psubsetI Diff_mono subset_refl)

lemma loop_step:
  assumes g: "graph_ok g" and inv: "chain_inv g caps entry st"
  shows "\<exists>st' ch. loop_body g caps entry (Inr (st, True)) = Inr (st', ch) \<and> chain_inv g caps entry st'
    \<and> loop_measure g caps (Inr (st', ch)) < loop_measure g caps (Inr (st, True))"
proof -
  obtain st' ch where p: "predict_pass g caps entry st = Inr (st', ch)" "kept_since g caps entry (st, False) (st', ch)"
    using predict_pass_ok [OF assms] by (metis surj_pair)
  then have inv': "chain_inv g caps entry st'" and gr: "grows (st, False) (st', ch)" by (auto simp: kept_since_def)
  let ?U = "t_module_id ` set caps \<times> hosts_of g" and ?V = "hosts_of g \<times> cred_names caps"
  have fin: "finite ?U" "finite ?V" by (auto simp: cred_names_def)
  have sub: "set (p_applied st) \<subseteq> set (p_applied st')" "set (p_applied st') \<subseteq> ?U" "placed st \<subseteq> placed st'" "placed st' \<subseteq> ?V"
    using gr inv' placed_bound [OF inv'] by (auto simp: grows_def chain_inv_def)
  note le = card_shrink [OF fin(1) sub(1,2)] card_shrink [OF fin(2) sub(3,4)]
  have "ch \<longrightarrow> set (p_applied st) \<subset> set (p_applied st') \<or> placed st \<subset> placed st'"
    using gr sub by (auto simp: grows_def)
  then have "ch \<longrightarrow> card (?U - set (p_applied st')) < card (?U - set (p_applied st)) \<or> card (?V - placed st') < card (?V - placed st)"
    using card_shrink_strict [OF fin(1) _ sub(2)] card_shrink_strict [OF fin(2) _ sub(4)] by blast
  then have "loop_measure g caps (Inr (st', ch)) < loop_measure g caps (Inr (st, True))"
    using le by (cases ch) (auto simp: loop_measure_def)
  then show ?thesis using p(1) inv' by (simp add: loop_body_def)
qed

definition loop_inv :: "kcatta_graph \<Rightarrow> technique_capability list \<Rightarrow> string list \<Rightarrow> (pstate \<times> bool) result \<Rightarrow> bool" where
  "loop_inv g caps entry x = (\<exists>st ch. x = Inr (st, ch) \<and> chain_inv g caps entry st)"

lemma initial_inv: "chain_inv g caps (entry_hosts g) (initial_state (entry_hosts g))"
  using entry_hosts_ok [of _ g] by (auto simp: chain_inv_def initial_state_def get0_def)

lemma loop_inv_step:
  assumes "graph_ok g" "loop_inv g caps entry x" "loop_cond x"
  shows "loop_inv g caps entry (loop_body g caps entry x) \<and> loop_measure g caps (loop_body g caps entry x) < loop_measure g caps x"
proof -
  obtain st where x: "x = Inr (st, True)" "chain_inv g caps entry st" using assms(2,3) by (auto simp: loop_inv_def loop_cond_def)
  then show ?thesis using loop_step [OF assms(1) x(2)] by (auto simp: loop_inv_def)
qed

lemma chain_ends:
  assumes "graph_ok g"
  shows "\<exists>st. chain g capabilities = Some (Inr (st, False)) \<and> chain_inv g (usable_caps capabilities) (entry_hosts g) st"
proof -
  let ?caps = "usable_caps capabilities" and ?e = "entry_hosts g"
  let ?x0 = "Inr (initial_state ?e, True) :: (pstate \<times> bool) result"
  have init: "loop_inv g ?caps ?e ?x0" using initial_inv by (auto simp: loop_inv_def)
  have "\<exists>x. while_option loop_cond (loop_body g ?caps ?e) ?x0 = Some x"
    by (rule measure_while_option_Some [of "loop_inv g ?caps ?e" _ _ "loop_measure g ?caps"])
      (use loop_inv_step [OF assms] init in blast)+
  then obtain x where x: "while_option loop_cond (loop_body g ?caps ?e) ?x0 = Some x" by blast
  have "loop_inv g ?caps ?e x"
    by (rule while_option_rule [OF _ x, of "loop_inv g ?caps ?e"]) (use loop_inv_step [OF assms] init in blast)+
  moreover have "\<not> loop_cond x" by (rule while_option_stop [OF x])
  ultimately show ?thesis using x by (auto simp: chain_def Let_def loop_inv_def loop_cond_def)
qed

end
