(* ===== verification/Predict_Paths.thy ===== *)
theory Predict_Paths
  imports Predict_Laws
begin

text \<open>
  From the applied techniques to attack paths: the support closure of every goal, the path object built from it,
  and the reduction to one best path per entry, target and objective (the second half of
  \<open>analyzer/predict/engine.py\<close>). The models \<open>AttackPath\<close> and \<open>AttackPathStep\<close> validate their strings as every
  \<open>StrictModel\<close> does.
\<close>

section \<open>Definitions\<close>

definition fetch_app :: "application list \<Rightarrow> nat \<Rightarrow> application result" where
  "fetch_app apps i = (if i < length apps then Inr (apps ! i) else Inl IndexError)"

function closure_loop :: "application list \<Rightarrow> nat list \<Rightarrow> nat list \<Rightarrow> nat list result" where
  "closure_loop apps stack closure =
     (if stack = [] then Inr closure
      else
        let i = last stack; rest = butlast stack in
        if i \<in> set closure then closure_loop apps rest closure
        else if i < length apps then closure_loop apps (rest @ a_support (apps ! i)) (i # closure)
        else Inl IndexError)"
  by pat_completeness auto

termination
proof (relation "measures [\<lambda>(apps, _, closure). card ({..<length apps} - set closure), \<lambda>(_, stack, _). length stack]", goal_cases)
  case (3 apps stack closure i rest)
  then have "{..<length apps} - set (i # closure) \<subset> {..<length apps} - set closure" by auto
  then have "card ({..<length apps} - set (i # closure)) < card ({..<length apps} - set closure)"
    by (simp add: psubset_card_mono)
  then show ?case by simp
qed auto

declare closure_loop.simps [simp del]

definition is_goal :: "application \<Rightarrow> bool" where
  "is_goal a = (\<exists>x \<in> set GOAL_FACTS. x \<in> set (a_postconditions_gained a))"

definition goals_of :: "string list \<Rightarrow> application list \<Rightarrow> application list" where
  "goals_of entry apps =
     (let goals = filter is_goal apps in
      if goals \<noteq> [] then goals
      else filter (\<lambda>a. a_host a \<notin> set entry \<and> ''access.foothold'' \<in> set (a_postconditions_gained a)) apps)"

definition goal_fact_of :: "application \<Rightarrow> string result" where
  "goal_fact_of a = (case find (\<lambda>x. x \<in> set (a_postconditions_gained a)) (GOAL_FACTS @ [''access.foothold'']) of
     None \<Rightarrow> Inl StopIteration | Some x \<Rightarrow> Inr x)"

text \<open>\<open>round\<close> of a float with ties to even, and the path score.\<close>

definition py_round :: "rat \<Rightarrow> int" where
  "py_round x = (let f = \<lfloor>x\<rfloor>; d = x - of_int f in
     if d < 1/2 \<or> (d = 1/2 \<and> even f) then f else f + 1)"

definition path_score :: "severity \<Rightarrow> rat \<Rightarrow> nat \<Rightarrow> int" where
  "path_score sev max_cvss n_steps =
     (let base = SEVERITY_SCORE sev;
          cvss_bonus = py_round (max 0 (max_cvss - 7) * 2);
          length_penalty = min (max 0 (int n_steps - 2)) 8 in
      max 0 (min 100 (base + cvss_bonus - length_penalty)))"

definition mk_step :: "attack_path_step \<Rightarrow> attack_path_step result" where
  "mk_step s =
     rbind (valid_str (s_host_id s)) (\<lambda>hid.
     rbind (valid_str (s_host_label s)) (\<lambda>lab.
     rbind (valid_str (s_module_id s)) (\<lambda>m.
     rbind (valid_str (s_technique_id s)) (\<lambda>tid.
     rbind (valid_str (s_tactic s)) (\<lambda>tac.
     rbind (valid_strs (s_preconditions_met s)) (\<lambda>pre.
     rbind (valid_strs (s_postconditions_gained s)) (\<lambda>post.
       Inr \<lparr>s_host_id = hid, s_host_label = lab, s_module_id = m, s_technique_id = tid, s_tactic = tac,
            s_preconditions_met = pre, s_postconditions_gained = post\<rparr>)))))))"

definition mk_path :: "attack_path \<Rightarrow> attack_path result" where
  "mk_path p =
     rbind (valid_str (ap_path_id p)) (\<lambda>pid.
     rbind (valid_str (ap_entry_host p)) (\<lambda>e.
     rbind (valid_str (ap_goal_host p)) (\<lambda>gh.
     rbind (valid_str (ap_goal p)) (\<lambda>go.
     rbind (valid_strs (ap_related_asset_ids p)) (\<lambda>ra.
     rbind (valid_strs (ap_related_vuln_ids p)) (\<lambda>rv.
       if ap_score p < 0 \<or> 100 < ap_score p then Inl ValidationError
       else Inr (p\<lparr>ap_path_id := pid, ap_entry_host := e, ap_goal_host := gh, ap_goal := go,
              ap_related_asset_ids := ra, ap_related_vuln_ids := rv\<rparr>)))))))"

definition step_of :: "kcatta_graph \<Rightarrow> application \<Rightarrow> attack_path_step result" where
  "step_of g a =
     rbind (lookup_node g (a_host a)) (\<lambda>n.
       mk_step \<lparr>s_host_id = a_host a, s_host_label = n_label n, s_module_id = t_module_id (a_cap a),
          s_technique_id = (case t_techniques (a_cap a) of [] \<Rightarrow> [] | t # _ \<Rightarrow> t), s_tactic = t_tactic (a_cap a),
          s_preconditions_met = a_preconditions_met a, s_postconditions_gained = a_postconditions_gained a\<rparr>)"

definition build_path :: "(string \<Rightarrow> string) \<Rightarrow> kcatta_graph \<Rightarrow> application list \<Rightarrow> application \<Rightarrow> string \<Rightarrow> attack_path result" where
  "build_path sha1 g ordered goal goal_fact =
     rbind (rmap_list (step_of g) ordered) (\<lambda>steps.
       let hosts = fromkeys (map a_host ordered) in
       rbind (rmap_list (lookup_node g) hosts) (\<lambda>nodes.
         let vuln_ids = sort (remdups (concat (map n_vuln_ids nodes)));
             sev = (case map_of GOAL_SEVERITY goal_fact of None \<Rightarrow> MEDIUM | Some s \<Rightarrow> s);
             max_cvss = (if nodes = [] then 0 else Max (set (map n_max_cvss nodes))) in
         if ordered = [] then Inl IndexError
         else
           let entry_host = a_host (hd ordered);
               module_chain = join '','' (map (t_module_id \<circ> a_cap) ordered);
               digest = take 10 (sha1 (entry_host @ ''->'' @ a_host goal @ '':'' @ module_chain)) in
           mk_path \<lparr>ap_path_id = ''path-'' @ digest, ap_severity = sev, ap_score = path_score sev max_cvss (length steps),
              ap_entry_host = entry_host, ap_goal_host = a_host goal, ap_goal = goal_fact, ap_steps = steps,
              ap_related_asset_ids = hosts, ap_related_vuln_ids = vuln_ids\<rparr>))"

definition path_for_goal :: "(string \<Rightarrow> string) \<Rightarrow> kcatta_graph \<Rightarrow> application list \<Rightarrow> application \<Rightarrow> attack_path result" where
  "path_for_goal sha1 g apps goal =
     rbind (closure_loop apps [a_idx goal] []) (\<lambda>closure.
     rbind (rmap_list (fetch_app apps) (sort closure)) (\<lambda>ordered.
     rbind (goal_fact_of goal) (\<lambda>goal_fact.
       build_path sha1 g ordered goal goal_fact)))"

definition path_rank :: "attack_path \<Rightarrow> int \<times> nat \<times> string list" where
  "path_rank p = (- ap_score p, length (ap_steps p), map s_module_id (ap_steps p))"

definition path_key :: "attack_path \<Rightarrow> string \<times> string \<times> string" where
  "path_key p = (ap_entry_host p, ap_goal_host p, ap_goal p)"

definition keep_best :: "attack_path \<Rightarrow> ((string \<times> string \<times> string) \<times> attack_path) list
    \<Rightarrow> ((string \<times> string \<times> string) \<times> attack_path) list" where
  "keep_best p best = (case map_of best (path_key p) of
     None \<Rightarrow> AList.update (path_key p) p best
   | Some q \<Rightarrow> if path_rank p < path_rank q then AList.update (path_key p) p best else best)"

definition converge :: "attack_path list \<Rightarrow> attack_path list" where
  "converge paths = sort_key (\<lambda>p. (- ap_score p, length (ap_steps p), ap_path_id p)) (map snd (fold keep_best paths []))"

definition extract_paths :: "(string \<Rightarrow> string) \<Rightarrow> kcatta_graph \<Rightarrow> application list \<Rightarrow> string list \<Rightarrow> attack_path list result" where
  "extract_paths sha1 g apps entry =
     rbind (rmap_list (path_for_goal sha1 g apps) (goals_of entry apps)) (\<lambda>ps.
       Inr (converge (map snd (fold (\<lambda>p d. AList.update (ap_path_id p) p d) ps []))))"

definition predict_paths :: "(string \<Rightarrow> string) \<Rightarrow> kcatta_graph \<Rightarrow> technique_capability list \<Rightarrow> attack_path list result option" where
  "predict_paths sha1 g capabilities =
     map_option (\<lambda>x. rbind x (\<lambda>(st, _). extract_paths sha1 g (p_apps st) (entry_hosts g))) (chain g capabilities)"

section \<open>The support closure\<close>

definition supports_below :: "application list \<Rightarrow> bool" where
  "supports_below apps = (\<forall>i < length apps. \<forall>j \<in> set (a_support (apps ! i)). j < i)"

lemma closure_loop_spec:
  assumes "supports_below apps" "set stack \<subseteq> {..<n}" "n \<le> length apps" "set closure \<subseteq> {..<n}" "distinct closure"
    "\<forall>k \<in> set closure. set (a_support (apps ! k)) \<subseteq> set closure \<union> set stack"
  shows "\<exists>cl. closure_loop apps stack closure = Inr cl \<and> set closure \<union> set stack \<subseteq> set cl \<and> set cl \<subseteq> {..<n} \<and> distinct cl
    \<and> (\<forall>k \<in> set cl. set (a_support (apps ! k)) \<subseteq> set cl)"
  using assms
proof (induction apps stack closure rule: closure_loop.induct)
  case (1 apps stack closure)
  show ?case
  proof (cases "stack = []")
    case True
    then show ?thesis using 1(3-8) by (auto simp: closure_loop.simps)
  next
    case False
    let ?i = "last stack" and ?rest = "butlast stack"
    have st: "set stack = insert ?i (set ?rest)"
      using False by (metis append_butlast_last_id list.simps(15) rotate1.simps(2) set_rotate1)
    have i: "?i < n" using 1(4) st by auto
    show ?thesis
    proof (cases "?i \<in> set closure")
      case True
      have "\<exists>cl. closure_loop apps ?rest closure = Inr cl \<and> set closure \<union> set ?rest \<subseteq> set cl \<and> set cl \<subseteq> {..<n} \<and> distinct cl
          \<and> (\<forall>k \<in> set cl. set (a_support (apps ! k)) \<subseteq> set cl)"
        by (rule 1(1)) (use False True 1(3-8) st in auto)
      then show ?thesis using False True st by (subst closure_loop.simps) auto
    next
      case out: False
      have sup: "set (a_support (apps ! ?i)) \<subseteq> {..<n}"
      proof
        fix j
        assume "j \<in> set (a_support (apps ! ?i))"
        then have "j < ?i" using 1(3,5) i by (simp add: supports_below_def)
        then show "j \<in> {..<n}" using i by simp
      qed
      have "\<exists>cl. closure_loop apps (?rest @ a_support (apps ! ?i)) (?i # closure) = Inr cl
          \<and> set (?i # closure) \<union> set (?rest @ a_support (apps ! ?i)) \<subseteq> set cl \<and> set cl \<subseteq> {..<n} \<and> distinct cl
          \<and> (\<forall>k \<in> set cl. set (a_support (apps ! k)) \<subseteq> set cl)"
        by (rule 1(2)) (use False out 1(3-8) st i sup in auto)
      then show ?thesis using False out st i 1(5) by (subst closure_loop.simps) auto
    qed
  qed
qed

section \<open>What a path shows\<close>

definition observed :: "kcatta_graph \<Rightarrow> string \<Rightarrow> string \<Rightarrow> bool" where
  "observed g h x = (x = ''net.reachable'' \<or> (\<exists>n. map_of (g_nodes g) h = Some n \<and> x \<in> set (n_facts n)))"

text \<open>A path is self-contained: it starts on an entry host; each further host is an entry host or was discovered by an
  earlier step of the path on a host with an edge to it; each precondition was observed or gained by an earlier step
  of the path, on the same host or, for a credential, on one from which the host is reachable; the last step
  gains the goal on the goal host.\<close>

definition path_ok :: "kcatta_graph \<Rightarrow> string list \<Rightarrow> attack_path \<Rightarrow> bool" where
  "path_ok g entry p = (let ss = ap_steps p in
     ss \<noteq> [] \<and> s_host_id (hd ss) = ap_entry_host p \<and> ap_entry_host p \<in> set entry
     \<and> s_host_id (last ss) = ap_goal_host p \<and> ap_goal p \<in> set (s_postconditions_gained (last ss))
     \<and> 0 \<le> ap_score p \<and> ap_score p \<le> 100
     \<and> (\<forall>k < length ss.
          (s_host_id (ss ! k) \<in> set entry \<or> (\<exists>m < k. (s_host_id (ss ! m), s_host_id (ss ! k)) \<in> edges_of g
              \<and> ''host.discovered'' \<in> set (s_postconditions_gained (ss ! m))))
          \<and> (\<forall>x \<in> set (s_preconditions_met (ss ! k)). observed g (s_host_id (ss ! k)) x
              \<or> (\<exists>m < k. x \<in> set (s_postconditions_gained (ss ! m))
                   \<and> (s_host_id (ss ! m), s_host_id (ss ! k)) \<in> (edges_of g)\<^sup>*
                   \<and> (s_host_id (ss ! m) = s_host_id (ss ! k) \<or> startswith x ''cred.'')))))"

text \<open>The strings of the inputs are as the wire models deliver them.\<close>

definition clean_graph :: "kcatta_graph \<Rightarrow> bool" where
  "clean_graph g = (\<forall>(h, n) \<in> set (g_nodes g). clean h \<and> clean (n_label n) \<and> list_all clean (n_vuln_ids n))"

definition clean_cap :: "technique_capability \<Rightarrow> bool" where
  "clean_cap c = (clean (t_module_id c) \<and> clean (t_tactic c) \<and> list_all clean (t_techniques c)
     \<and> list_all clean (t_preconditions c) \<and> list_all clean (t_postconditions c))"

lemma split_on_length: "w \<in> set (split_on c s) \<Longrightarrow> length w \<le> length s"
  by (induction s arbitrary: w) (fastforce split: if_splits list.splits)+

lemma match_clean: "match_preconditions pre facts = Some ms \<Longrightarrow> list_all clean pre \<Longrightarrow> list_all clean ms"
proof (induction pre arbitrary: ms)
  case (Cons e pre)
  let ?alts = "filter (\<lambda>a. a \<noteq> []) (map strip (split_on CHR ''|'' e))"
  obtain hit rest where h: "find (\<lambda>a. a \<in> set facts) ?alts = Some hit" "match_preconditions pre facts = Some rest" "ms = hit # rest"
    using Cons.prems(1) by (auto simp: Let_def split: option.splits)
  then have "hit \<in> set ?alts" by (metis find_Some_iff nth_mem)
  then obtain w where w: "w \<in> set (split_on CHR ''|'' e)" "hit = strip w" by auto
  have "clean e" using Cons.prems(2) by simp
  then have "length hit \<le> MAX_WIRE_STRING_CHARS"
    using w split_on_length [OF w(1)] length_strip [of w] by (simp add: clean_def)
  then have "clean hit" by (simp add: clean_def w(2))
  then show ?case using Cons.IH [OF h(2)] Cons.prems(2) h(3) by simp
qed simp

lemma path_score_bounds: "0 \<le> path_score s c n" "path_score s c n \<le> 100"
  by (simp_all add: path_score_def Let_def)

lemma clean_node:
  assumes "clean_graph g" "map_of (g_nodes g) h = Some n"
  shows "clean h" "clean (n_label n)" "list_all clean (n_vuln_ids n)"
  using assms map_of_SomeD [OF assms(2)] by (auto simp: clean_graph_def)

lemma host_node: "h \<in> hosts_of g \<Longrightarrow> \<exists>n. map_of (g_nodes g) h = Some n"
  by (metis domIff dom_map_of_conv_image_fst not_None_eq)

lemma clean_Nil [simp]: "clean []"
  by (simp add: clean_def strip_def)

lemma step_of_clean:
  assumes "clean_graph g" "grounded g caps entry apps i" "\<forall>c \<in> set caps. clean_cap c"
  shows "\<exists>s. step_of g (apps ! i) = Inr s \<and> s_host_id s = a_host (apps ! i) \<and> s_preconditions_met s = a_preconditions_met (apps ! i)
    \<and> s_postconditions_gained s = a_postconditions_gained (apps ! i)"
proof -
  let ?a = "apps ! i"
  have a: "a_host ?a \<in> hosts_of g" "a_cap ?a \<in> set caps" "a_postconditions_gained ?a = t_postconditions (a_cap ?a)"
    "\<exists>facts. match_preconditions (t_preconditions (a_cap ?a)) facts = Some (a_preconditions_met ?a)"
    using assms(2) by (auto simp: grounded_def Let_def)
  obtain n where n: "map_of (g_nodes g) (a_host ?a) = Some n" using host_node [OF a(1)] by blast
  note cl = clean_node [OF assms(1) n]
  have cc: "clean_cap (a_cap ?a)" using assms(3) a(2) by blast
  have "list_all clean (a_preconditions_met ?a)" using a(4) match_clean cc by (auto simp: clean_cap_def)
  moreover have "clean (case t_techniques (a_cap ?a) of [] \<Rightarrow> [] | t # _ \<Rightarrow> t)"
    using cc by (auto simp: clean_cap_def split: list.splits)
  ultimately show ?thesis
    using cl cc n a(3) by (simp add: step_of_def lookup_node_def mk_step_def valid_str_clean valid_strs_clean clean_cap_def)
qed

lemma find_ex: "\<exists>x \<in> set xs. P x \<Longrightarrow> \<exists>x. find P xs = Some x \<and> x \<in> set xs \<and> P x"
  by (induction xs) auto

lemma goal_fact_ok:
  assumes "goal \<in> set (goals_of entry apps)"
  shows "\<exists>x. goal_fact_of goal = Inr x \<and> x \<in> set (a_postconditions_gained goal) \<and> clean x"
proof -
  have cl: "\<forall>x \<in> set (GOAL_FACTS @ [''access.foothold'']). clean x"
    by (simp add: GOAL_FACTS_def clean_def strip_def isspace_char_def MAX_WIRE_STRING_CHARS_def)
  have "\<exists>x \<in> set (GOAL_FACTS @ [''access.foothold'']). x \<in> set (a_postconditions_gained goal)"
    using assms by (auto simp: goals_of_def is_goal_def Let_def split: if_splits)
  from find_ex [OF this] obtain x where x: "find (\<lambda>x. x \<in> set (a_postconditions_gained goal)) (GOAL_FACTS @ [''access.foothold'']) = Some x"
    and "x \<in> set (GOAL_FACTS @ [''access.foothold''])" "x \<in> set (a_postconditions_gained goal)" by blast
  then show ?thesis using cl unfolding goal_fact_of_def by (metis option.simps(5))
qed

lemma list_all_clean_vulns:
  assumes "clean_graph g" "list_all2 (\<lambda>h n. lookup_node g h = Inr n) hs nodes"
  shows "list_all clean (concat (map n_vuln_ids nodes))"
  using assms(2)
proof (induction rule: list_all2_induct)
  case (Cons h hs n nodes)
  then show ?case using clean_node(3) [OF assms(1), of h n] by (auto simp: lookup_node_def split: option.splits)
qed simp

lemma lookup_nodes:
  assumes "set hs \<subseteq> hosts_of g"
  shows "\<exists>nodes. rmap_list (lookup_node g) hs = Inr nodes"
  using assms
proof (induction hs)
  case (Cons h hs)
  then show ?case using host_node [of h g] by (auto simp: lookup_node_def)
qed simp

text \<open>The path object exists and has the expected end points.\<close>

lemma build_path_ok:
  assumes cg: "clean_graph g" and sha: "\<forall>x. clean (''path-'' @ take 10 (sha1 x))"
    and steps: "rmap_list (step_of g) ordered = Inr steps" and ne: "ordered \<noteq> []"
    and hosts: "\<forall>a \<in> set ordered. a_host a \<in> hosts_of g" and goal: "a_host goal \<in> hosts_of g" "clean gf"
  shows "\<exists>p. build_path sha1 g ordered goal gf = Inr p \<and> ap_steps p = steps \<and> ap_entry_host p = a_host (hd ordered)
    \<and> ap_goal_host p = a_host goal \<and> ap_goal p = gf \<and> 0 \<le> ap_score p \<and> ap_score p \<le> 100"
proof -
  have sub: "set (fromkeys (map a_host ordered)) \<subseteq> hosts_of g" using hosts by auto
  obtain nodes where nodes: "rmap_list (lookup_node g) (fromkeys (map a_host ordered)) = Inr nodes"
    using lookup_nodes [OF sub] by blast
  have clh: "clean h" if "h \<in> hosts_of g" for h using host_node [OF that] clean_node(1) [OF cg] by blast
  have "list_all clean (concat (map n_vuln_ids nodes))"
    by (rule list_all_clean_vulns [OF cg nodes [unfolded rmap_list_eq_Inr]])
  then have "list_all clean (sort (remdups (concat (map n_vuln_ids nodes))))" by (simp add: list_all_iff)
  moreover have "list_all clean (fromkeys (map a_host ordered))" using sub clh by (auto simp: list_all_iff)
  moreover have "clean (a_host (hd ordered))" "clean (a_host goal)" using ne hosts goal clh by auto
  ultimately show ?thesis
    using steps nodes ne sha goal(2) path_score_bounds
    by (simp add: build_path_def Let_def mk_path_def valid_str_clean valid_strs_clean not_less)
qed

lemma sorted_index_less: "sorted xs \<Longrightarrow> m < length xs \<Longrightarrow> k < length xs \<Longrightarrow> xs ! m < (xs ! k :: nat) \<Longrightarrow> m < k"
  by (metis leD linorder_not_less sorted_nth_mono)

text \<open>Every goal of a grounded chain gives a self-contained path.\<close>

lemma path_for_goal_ok:
  assumes cg: "clean_graph g" and cc: "\<forall>c \<in> set caps. clean_cap c" and sha: "\<forall>x. clean (''path-'' @ take 10 (sha1 x))"
    and gr: "\<forall>i < length apps. grounded g caps entry apps i" and goal: "goal \<in> set (goals_of entry apps)"
  shows "\<exists>p. path_for_goal sha1 g apps goal = Inr p \<and> path_ok g entry p"
proof -
  have "goal \<in> set apps" using goal by (auto simp: goals_of_def Let_def split: if_splits)
  then obtain i where i: "i < length apps" "goal = apps ! i" by (metis in_set_conv_nth)
  have idx: "a_idx goal = i" using gr i by (simp add: grounded_def Let_def)
  have below: "supports_below apps" using gr by (auto simp: supports_below_def grounded_def Let_def)
  obtain cl where cl: "closure_loop apps [i] [] = Inr cl" "i \<in> set cl" "set cl \<subseteq> {..<Suc i}" "distinct cl"
    "\<forall>k \<in> set cl. set (a_support (apps ! k)) \<subseteq> set cl"
    using closure_loop_spec [OF below, of "[i]" "Suc i" "[]"] i by auto
  define ks where "ks = sort cl"
  have ks: "sorted ks" "set ks = set cl" by (simp_all add: ks_def)
  then have ksne: "ks \<noteq> []" using cl(2) by auto
  have len: "\<forall>k \<in> set ks. k < length apps" using cl(3) ks(2) i by auto
  have fetch: "rmap_list (fetch_app apps) ks = Inr (map ((!) apps) ks)"
    using len by (intro rmap_list_Inr) (simp add: fetch_app_def)
  have grk: "grounded g caps entry apps k" if "k \<in> set ks" for k using gr len that by blast
  have steps_ex: "\<exists>steps. rmap_list (step_of g) (map ((!) apps) ks) = Inr steps \<and> list_all2 (\<lambda>k s. s_host_id s = a_host (apps ! k)
      \<and> s_preconditions_met s = a_preconditions_met (apps ! k) \<and> s_postconditions_gained s = a_postconditions_gained (apps ! k)) ks steps"
    using grk
  proof (induction ks)
    case (Cons k ks)
    then show ?case using step_of_clean [OF cg _ cc, of entry apps k] by fastforce
  qed simp
  then obtain steps where steps: "rmap_list (step_of g) (map ((!) apps) ks) = Inr steps"
    and st: "list_all2 (\<lambda>k s. s_host_id s = a_host (apps ! k) \<and> s_preconditions_met s = a_preconditions_met (apps ! k)
       \<and> s_postconditions_gained s = a_postconditions_gained (apps ! k)) ks steps" by blast
  have lens: "length steps = length ks" using st by (simp add: list_all2_lengthD)
  have at: "s_host_id (steps ! m) = a_host (apps ! (ks ! m))" "s_preconditions_met (steps ! m) = a_preconditions_met (apps ! (ks ! m))"
      "s_postconditions_gained (steps ! m) = a_postconditions_gained (apps ! (ks ! m))" if "m < length ks" for m
    using list_all2_nthD [OF st that] by auto
  obtain gf where gf: "goal_fact_of goal = Inr gf" "gf \<in> set (a_postconditions_gained goal)" "clean gf"
    using goal_fact_ok [OF goal] by blast
  have "\<exists>p. build_path sha1 g (map ((!) apps) ks) goal gf = Inr p \<and> ap_steps p = steps
    \<and> ap_entry_host p = a_host (hd (map ((!) apps) ks)) \<and> ap_goal_host p = a_host goal \<and> ap_goal p = gf \<and> 0 \<le> ap_score p \<and> ap_score p \<le> 100"
    using grk ksne gr i gf(3) by (intro build_path_ok [OF cg sha steps]) (auto simp: grounded_def Let_def)
  then obtain p where p: "build_path sha1 g (map ((!) apps) ks) goal gf = Inr p" "ap_steps p = steps"
    "ap_entry_host p = a_host (apps ! hd ks)" "ap_goal_host p = a_host goal" "ap_goal p = gf" "0 \<le> ap_score p" "ap_score p \<le> 100"
    using ksne by (auto simp: hd_map)
  have pos: "\<exists>m < k. ks ! m = j" if k: "k < length ks" and j: "j \<in> set (a_support (apps ! (ks ! k)))" for k j
  proof -
    have "ks ! k \<in> set ks" using k by simp
    then have "j \<in> set ks" "j < ks ! k"
      using cl(5) ks(2) j grk by (auto simp: grounded_def Let_def)
    then obtain m where "m < length ks" "ks ! m = j" by (auto simp: in_set_conv_nth)
    then show ?thesis using sorted_index_less [OF ks(1) _ k] \<open>j < ks ! k\<close> by blast
  qed
  have gk: "grounded g caps entry apps (ks ! k)" if "k < length ks" for k using grk that by simp
  have hd0: "a_host (apps ! hd ks) \<in> set entry"
    using gk [of 0] pos [of 0] ksne by (auto simp: grounded_def Let_def hd_conv_nth)
  have last: "last ks = i"
  proof -
    have L: "length ks - 1 < length ks" using ksne by (cases ks) auto
    obtain m where m: "m < length ks" "ks ! m = i" using cl(2) ks(2) by (metis in_set_conv_nth)
    have "i \<le> ks ! (length ks - 1)" using sorted_nth_mono [OF ks(1), of m "length ks - 1"] m L by simp
    moreover have "ks ! (length ks - 1) \<in> set cl" using nth_mem [OF L] ks(2) by simp
    then have "ks ! (length ks - 1) \<le> i" using cl(3) by auto
    ultimately have "ks ! (length ks - 1) = i" by simp
    then show ?thesis using ksne by (simp add: last_conv_nth)
  qed
  have sne: "steps \<noteq> []" using lens ksne by (metis length_0_conv)
  have "path_ok g entry p"
    unfolding path_ok_def Let_def p(2-5)
  proof (intro conjI allI impI ballI)
    show "steps \<noteq> []" by (rule sne)
    show "s_host_id (hd steps) = a_host (apps ! hd ks)" using at(1) [of 0] sne ksne by (simp add: hd_conv_nth)
    show "s_host_id (last steps) = a_host goal" "gf \<in> set (s_postconditions_gained (last steps))"
      using at [of "length ks - 1"] sne ksne last lens i gf(2) by (auto simp: last_conv_nth)
    fix k
    assume "k < length steps"
    then have k: "k < length ks" using lens by simp
    show "s_host_id (steps ! k) \<in> set entry \<or> (\<exists>m < k. (s_host_id (steps ! m), s_host_id (steps ! k)) \<in> edges_of g
              \<and> ''host.discovered'' \<in> set (s_postconditions_gained (steps ! m)))"
    proof (cases "a_host (apps ! (ks ! k)) \<in> set entry")
      case False
      then obtain j where j: "j \<in> set (a_support (apps ! (ks ! k)))" "discovers g apps j (a_host (apps ! (ks ! k)))"
        using gk [OF k] by (auto simp: grounded_def Let_def)
      obtain m where "m < k" "ks ! m = j" using pos [OF k j(1)] by blast
      then show ?thesis using j(2) at [OF k] at [of m] k by (auto simp: discovers_def)
    qed (simp add: at(1) [OF k])
    fix x
    assume "x \<in> set (s_preconditions_met (steps ! k))"
    then have x: "x \<in> set (a_preconditions_met (apps ! (ks ! k)))" by (simp add: at [OF k])
    show "observed g (s_host_id (steps ! k)) x \<or> (\<exists>m < k. x \<in> set (s_postconditions_gained (steps ! m))
                   \<and> (s_host_id (steps ! m), s_host_id (steps ! k)) \<in> (edges_of g)\<^sup>*
                   \<and> (s_host_id (steps ! m) = s_host_id (steps ! k) \<or> startswith x ''cred.''))"
    proof (cases "observed g (a_host (apps ! (ks ! k))) x")
      case False
      then obtain j where j: "j \<in> set (a_support (apps ! (ks ! k)))" "earlier_fact g apps j (a_host (apps ! (ks ! k))) x"
        using gk [OF k] x by (auto simp: grounded_def Let_def observed_def)
      obtain m where "m < k" "ks ! m = j" using pos [OF k j(1)] by blast
      then show ?thesis using j(2) at [OF k] at [of m] k by (auto simp: earlier_fact_def)
    qed (simp add: at(1) [OF k])
  qed (use hd0 p(6,7) in auto)
  then show ?thesis
    using p(1) cl(1) fetch gf(1) by (auto simp: path_for_goal_def idx ks_def)
qed

end
