(* ===== verification/Predict_Properties.thy ===== *)
theory Predict_Properties
  imports Predict_Paths
begin

text \<open>
  What attack-path prediction guarantees: the chain ends in a saturated state, every reported path is
  self-contained, and the reported list holds the best route of every entry, target and objective.
\<close>

section \<open>One best path per key\<close>

definition best_inv :: "attack_path list \<Rightarrow> ((string \<times> string \<times> string) \<times> attack_path) list \<Rightarrow> bool" where
  "best_inv ps best = (distinct (map fst best) \<and> (\<forall>(k, p) \<in> set best. k = path_key p \<and> p \<in> set ps)
     \<and> (\<forall>p \<in> set ps. \<exists>q. map_of best (path_key p) = Some q \<and> path_rank q \<le> path_rank p))"

lemma best_inv_update:
  assumes "best_inv ps best" "\<forall>q. map_of best (path_key p) = Some q \<longrightarrow> path_rank p \<le> path_rank q"
  shows "best_inv (ps @ [p]) (AList.update (path_key p) p best)"
  unfolding best_inv_def
proof (intro conjI ballI)
  show "distinct (map fst (AList.update (path_key p) p best))"
    using assms(1) by (simp add: best_inv_def distinct_update)
  show "case x of (k, q) \<Rightarrow> k = path_key q \<and> q \<in> set (ps @ [p])" if "x \<in> set (AList.update (path_key p) p best)" for x
    using subsetD [OF set_alist_update that] assms(1) by (auto simp: best_inv_def)
  show "\<exists>r. map_of (AList.update (path_key p) p best) (path_key q) = Some r \<and> path_rank r \<le> path_rank q" if q: "q \<in> set (ps @ [p])" for q
  proof (cases "path_key q = path_key p")
    case True
    show ?thesis
    proof (cases "q = p")
      case False
      then obtain r where "map_of best (path_key q) = Some r" "path_rank r \<le> path_rank q"
        using assms(1) q by (auto simp: best_inv_def)
      then show ?thesis using assms(2) True by (auto simp: update_conv')
    qed (simp add: update_conv')
  next
    case False
    then show ?thesis using assms(1) q by (auto simp: best_inv_def update_conv')
  qed
qed

lemma best_inv_keep: "best_inv ps best \<Longrightarrow> best_inv (ps @ [p]) (keep_best p best)"
proof (cases "map_of best (path_key p)")
  case (Some q)
  assume inv: "best_inv ps best"
  show ?thesis
  proof (cases "path_rank p < path_rank q")
    case False
    then show ?thesis using inv Some by (auto simp: keep_best_def best_inv_def not_less)
  qed (use inv Some in \<open>auto simp: keep_best_def intro!: best_inv_update\<close>)
qed (auto simp: keep_best_def intro!: best_inv_update)

lemma best_inv_fold: "best_inv ps (fold keep_best ps [])"
  by (induction ps rule: rev_induct) (auto simp: best_inv_keep, simp add: best_inv_def)

text \<open>Convergence keeps the best route. Whatever candidates it gets, \<open>converge\<close> returns some of them, at most one
  per entry host, target host and objective, and for every candidate one of the same key that ranks at
  least as well (score, then length, then module sequence); the result is sorted by score, length and
  path id.\<close>

theorem converge_best:
  "set (converge ps) \<subseteq> set ps \<and> distinct (map path_key (converge ps))
   \<and> sorted (map (\<lambda>p. (- ap_score p, length (ap_steps p), ap_path_id p)) (converge ps))
   \<and> (p \<in> set ps \<longrightarrow> (\<exists>q \<in> set (converge ps). path_key q = path_key p \<and> path_rank q \<le> path_rank p))"
proof -
  define best where "best = fold keep_best ps []"
  have inv: "best_inv ps best" by (simp add: best_def best_inv_fold)
  then have key: "map (path_key \<circ> snd) best = map fst best" by (auto simp: best_inv_def)
  have set: "set (converge ps) = snd ` set best" by (simp add: converge_def best_def)
  have "distinct (map path_key (map snd best))" using inv unfolding map_map key by (simp add: best_inv_def)
  then have "distinct (map path_key (converge ps))"
    unfolding converge_def best_def [symmetric] distinct_map set_sort distinct_sort .
  moreover have "\<exists>q \<in> set (converge ps). path_key q = path_key p \<and> path_rank q \<le> path_rank p" if "p \<in> set ps"
  proof -
    obtain q where "map_of best (path_key p) = Some q" "path_rank q \<le> path_rank p" using inv \<open>p \<in> set ps\<close> by (auto simp: best_inv_def)
    moreover from this have "(path_key p, q) \<in> set best" by (simp add: map_of_SomeD)
    moreover from this have "path_key q = path_key p" "q \<in> snd ` set best" using inv by (force simp: best_inv_def)+
    ultimately show ?thesis using set by blast
  qed
  moreover have "sorted (map (\<lambda>p. (- ap_score p, length (ap_steps p), ap_path_id p)) (converge ps))"
    by (simp add: converge_def)
  moreover have "set (converge ps) \<subseteq> set ps" using inv set by (auto simp: best_inv_def)
  ultimately show ?thesis by blast
qed

section \<open>Reported paths\<close>

lemma update_all_sub: "snd ` set (fold (\<lambda>p d. AList.update (k p) p d) ps d) \<subseteq> set ps \<union> snd ` set d"
proof (induction ps arbitrary: d)
  case (Cons p ps)
  have "snd ` set (AList.update (k p) p d) \<subseteq> insert p (snd ` set d)" using set_alist_update [of "k p" p d] by force
  then show ?case using Cons [of "AList.update (k p) p d"] by (simp, blast)
qed simp

lemma usable_caps_sub: "set (usable_caps caps) \<subseteq> set caps"
  by (auto simp: usable_caps_def)

lemma rmap_list_ex:
  assumes "\<And>x. x \<in> set xs \<Longrightarrow> \<exists>y. f x = Inr y \<and> P y"
  shows "\<exists>ys. rmap_list f xs = Inr ys \<and> (\<forall>y \<in> set ys. P y)"
  using assms
proof (induction xs)
  case (Cons x xs)
  then obtain y ys where "f x = Inr y" "P y" "rmap_list f xs = Inr ys" "\<forall>y \<in> set ys. P y" by force
  then show ?case by simp
qed simp

lemma extract_paths_ok:
  assumes "clean_graph g" "\<forall>c \<in> set caps. clean_cap c" "\<forall>x. clean (''path-'' @ take 10 (sha1 x))"
    "\<forall>i < length apps. grounded g caps entry apps i"
  shows "\<exists>ps. extract_paths sha1 g apps entry = Inr ps \<and> (\<forall>p \<in> set ps. path_ok g entry p)"
proof -
  obtain ps where ps: "rmap_list (path_for_goal sha1 g apps) (goals_of entry apps) = Inr ps" "\<forall>p \<in> set ps. path_ok g entry p"
    using rmap_list_ex [of "goals_of entry apps" "path_for_goal sha1 g apps" "path_ok g entry"] path_for_goal_ok [OF assms] by blast
  have "set (converge qs) \<subseteq> set qs" for qs
    using best_inv_fold [of qs] by (auto simp: converge_def best_inv_def)
  then have "set (converge (map snd (fold (\<lambda>p d. AList.update (ap_path_id p) p d) ps []))) \<subseteq> set ps"
    using update_all_sub [of ap_path_id ps "[]"] by fastforce
  then show ?thesis using ps by (auto simp: extract_paths_def)
qed

text \<open>C21: Prediction always answers, and soundly. On a well-formed graph whose strings are as the wire models
  deliver them, the forward chaining ends and no lookup fails, and every reported path is
  self-contained: it starts on an entry host; each later host was discovered by an earlier step of the
  same path on a host with an observed edge to it; each precondition is an observed fact or was gained by an earlier
  step of the path on the same host or, for a credential, on a host from which this one is
  reachable along edges; the last step gains the goal on the goal host; the score is within 0 and 100.\<close>

theorem predict_paths_sound:
  assumes "graph_ok g" "clean_graph g" "\<forall>c \<in> set capabilities. clean_cap c" "\<forall>x. clean (''path-'' @ take 10 (sha1 x))"
  shows "\<exists>ps. predict_paths sha1 g capabilities = Some (Inr ps) \<and> (\<forall>p \<in> set ps. path_ok g (entry_hosts g) p)"
proof -
  obtain st where st: "chain g capabilities = Some (Inr (st, False))" "chain_inv g (usable_caps capabilities) (entry_hosts g) st"
    using chain_ends [OF assms(1)] by blast
  have gr: "\<forall>i < length (p_apps st). grounded g (usable_caps capabilities) (entry_hosts g) (p_apps st) i"
    using st(2) by (simp add: chain_inv_def)
  have "\<forall>c \<in> set (usable_caps capabilities). clean_cap c" using assms(3) usable_caps_sub by blast
  from extract_paths_ok [OF assms(2) this assms(4) gr] show ?thesis using st(1) by (auto simp: predict_paths_def)
qed

section \<open>Saturation\<close>

text \<open>A loop whose body reports every change has changed nothing when it reports none.\<close>

lemma rfold_quiet:
  assumes "rfold f xs s = Inr s'" "\<not> snd s'" "\<And>x s s'. f x s = Inr s' \<Longrightarrow> \<not> snd s' \<Longrightarrow> s' = s \<and> Q x s"
  shows "s' = s \<and> (\<forall>x \<in> set xs. Q x s)"
  using assms(1)
proof (induction xs arbitrary: s)
  case (Cons x xs)
  then obtain s1 where s1: "f x s = Inr s1" "rfold f xs s1 = Inr s'" by auto
  then have "s' = s1 \<and> (\<forall>x \<in> set xs. Q x s1)" using Cons.IH by blast
  moreover from this have "s1 = s \<and> Q x s" using assms(2,3) s1(1) by blast
  ultimately show ?case by simp
qed simp

lemma fold_as_rfold: "Inr (fold f xs s) = rfold (\<lambda>x s. Inr (f x s)) xs s"
  by (induction xs arbitrary: s) simp_all

definition spread :: "kcatta_graph \<Rightarrow> pstate \<Rightarrow> string \<Rightarrow> bool" where
  "spread g st src = (\<forall>dst \<in> set (neighbors g src). set (get0 (p_creds st) src) \<subseteq> set (get0 (p_creds st) dst))"

definition exhausted_cap :: "string list \<Rightarrow> pstate \<Rightarrow> string \<Rightarrow> string list \<Rightarrow> technique_capability \<Rightarrow> bool" where
  "exhausted_cap entry st host facts c = ((t_module_id c, host) \<in> set (p_applied st) \<or> (t_preconditions c = [] \<and> host \<notin> set entry)
     \<or> match_preconditions (t_preconditions c) facts = None)"

definition saturated :: "kcatta_graph \<Rightarrow> technique_capability list \<Rightarrow> string list \<Rightarrow> pstate \<Rightarrow> bool" where
  "saturated g caps entry st = (\<forall>h \<in> set (p_reached st). spread g st h
     \<and> (\<exists>facts. available g st h = Inr facts \<and> (\<forall>c \<in> set caps. exhausted_cap entry st h facts c)))"

lemma move_cred_quiet: "move_cred src dst cred s = Inr s' \<Longrightarrow> \<not> snd s' \<Longrightarrow> s' = s \<and> cred \<in> set (get0 (p_creds (fst s)) dst)"
  by (auto simp: move_cred_def split: prod.splits if_splits option.splits)

lemma propagate_from_quiet:
  assumes "propagate_from g src s = Inr s'" "\<not> snd s'"
  shows "s' = s \<and> spread g (fst s) src"
proof (cases "get0 (p_creds (fst s)) src = []")
  case True
  then show ?thesis using assms(1) by (auto simp: propagate_from_def spread_def Let_def split: prod.splits)
next
  case False
  let ?creds = "get0 (p_creds (fst s)) src"
  have run: "rfold (\<lambda>dst. rfold (\<lambda>cred. move_cred src dst cred) ?creds) (sort (neighbors g src)) s = Inr s'"
    using assms(1) False by (auto simp: propagate_from_def Let_def split: prod.splits)
  have inner: "t' = t \<and> (\<forall>cred \<in> set ?creds. cred \<in> set (get0 (p_creds (fst t)) dst))"
    if "rfold (\<lambda>cred. move_cred src dst cred) ?creds t = Inr t'" "\<not> snd t'" for dst t t'
    by (rule rfold_quiet [OF that]) (rule move_cred_quiet)
  from rfold_quiet [OF run assms(2), where Q = "\<lambda>dst t. \<forall>cred \<in> set ?creds. cred \<in> set (get0 (p_creds (fst t)) dst)", OF inner]
  show ?thesis by (auto simp: spread_def)
qed

lemma try_cap_quiet: "\<not> snd (try_cap g entry host facts c s) \<Longrightarrow> try_cap g entry host facts c s = s \<and> exhausted_cap entry (fst s) host facts c"
  by (auto simp: try_cap_def exhausted_cap_def Let_def split: prod.splits if_splits option.splits)

lemma visit_host_quiet:
  assumes "visit_host g caps entry host s = Inr s'" "\<not> snd s'"
  shows "s' = s \<and> (\<exists>facts. available g (fst s) host = Inr facts \<and> (\<forall>c \<in> set caps. exhausted_cap entry (fst s) host facts c))"
proof -
  obtain facts where f: "available g (fst s) host = Inr facts" "fold (try_cap g entry host facts) caps s = s'"
    using assms(1) by (auto simp: visit_host_def)
  then have "rfold (\<lambda>c s. Inr (try_cap g entry host facts c s)) caps s = Inr s'" by (metis fold_as_rfold)
  from rfold_quiet [OF this assms(2), where Q = "\<lambda>c s. exhausted_cap entry (fst s) host facts c"] show ?thesis
    using f(1) try_cap_quiet by auto
qed

lemma predict_pass_quiet:
  assumes "predict_pass g caps entry st = Inr (st', False)"
  shows "saturated g caps entry st'"
proof -
  obtain s where s: "rfold (propagate_from g) (sort (p_reached st)) (st, False) = Inr s"
    "rfold (visit_host g caps entry) (sort (p_reached (fst s))) s = Inr (st', False)"
    using assms by (auto simp: predict_pass_def propagate_creds_def)
  have v: "(st', False) = s \<and> (\<forall>h \<in> set (sort (p_reached (fst s))). \<exists>facts. available g (fst s) h = Inr facts
      \<and> (\<forall>c \<in> set caps. exhausted_cap entry (fst s) h facts c))"
    by (rule rfold_quiet [OF s(2)]) (simp, rule visit_host_quiet)
  then have "s = (st, False) \<and> (\<forall>h \<in> set (sort (p_reached st)). spread g (fst (st, False)) h)"
    by (intro rfold_quiet [OF s(1)]) (auto dest: propagate_from_quiet)
  then show ?thesis using v by (auto simp: saturated_def)
qed

text \<open>C22: The chain is complete. Forward chaining on a well-formed graph ends in a state where nothing more
  applies: on every reached host each usable technique was applied, or starts from nothing and
  the host is not an entry host, or its preconditions are not met by the facts available there;
  and every credential of a reached host is known on all its neighbours.\<close>

theorem chain_saturated:
  assumes "graph_ok g"
  shows "\<exists>st. chain g capabilities = Some (Inr (st, False)) \<and> set (entry_hosts g) \<subseteq> set (p_reached st)
    \<and> saturated g (usable_caps capabilities) (entry_hosts g) st"
proof -
  let ?caps = "usable_caps capabilities" and ?e = "entry_hosts g"
  obtain st where st: "chain g capabilities = Some (Inr (st, False))" "chain_inv g ?caps ?e st"
    using chain_ends [OF assms] by blast
  let ?I = "\<lambda>x :: (pstate \<times> bool) result. \<forall>st. x = Inr (st, False) \<longrightarrow> saturated g ?caps ?e st"
  have "?I (Inr (st, False))"
    by (rule while_option_rule [where P = ?I, OF _ st(1) [unfolded chain_def Let_def]])
      (auto simp: loop_body_def loop_cond_def split: sum.splits prod.splits dest: predict_pass_quiet)
  then show ?thesis using st by (auto simp: chain_inv_def)
qed

section \<open>A concrete network\<close>

definition ex_graph :: kcatta_graph where
  "ex_graph = \<lparr>g_nodes =
     [(''web'', \<lparr>n_host_id = ''web'', n_label = ''web'', n_ips = [], n_facts = [''service.http''], n_vuln_ids = [''CVE-1''],
         n_max_cvss = 9, n_is_entry = True\<rparr>),
      (''db'', \<lparr>n_host_id = ''db'', n_label = ''db'', n_ips = [], n_facts = [], n_vuln_ids = [], n_max_cvss = 0, n_is_entry = False\<rparr>)],
     g_edges = [(''web'', [''db''])]\<rparr>"

definition ex_caps :: "technique_capability list" where
  "ex_caps =
     [\<lparr>t_module_id = ''a'', t_name = ''a'', t_tactic = ''x'', t_techniques = [''T1''], t_preconditions = [''service.ftp|service.http''],
        t_postconditions = [''access.foothold'', ''cred.hash'', ''host.discovered''], t_requires_authorization = False\<rparr>,
      \<lparr>t_module_id = ''b'', t_name = ''b'', t_tactic = ''y'', t_techniques = [], t_preconditions = [''cred.hash''],
        t_postconditions = [''access.admin''], t_requires_authorization = True\<rparr>]"

definition ex_sha :: "string \<Rightarrow> string" where "ex_sha x = ''0123456789abcdef''"

lemmas ex_network = ex_graph_def ex_caps_def

lemma ex_graph_facts: "graph_ok ex_graph" "clean_graph ex_graph" "\<forall>c \<in> set ex_caps. clean_cap c"
    "\<forall>x. clean (''path-'' @ take 10 (ex_sha x))"
  by (simp_all add: graph_ok_def clean_graph_def clean_cap_def clean_def strip_def isspace_char_def
    MAX_WIRE_STRING_CHARS_def ex_network ex_sha_def)

lemma ex_network_run:
  "map_option (map_sum id (map (\<lambda>p. (ap_score p, ap_goal p, map s_module_id (ap_steps p))))) (predict_paths ex_sha ex_graph ex_caps)
     = Some (Inr [(79, ''access.admin'', [''a'', ''b''])])"
  by code_simp

definition ex_path :: "int \<Rightarrow> string \<Rightarrow> attack_path" where
  "ex_path score h = \<lparr>ap_path_id = ''p'', ap_severity = HIGH, ap_score = score, ap_entry_host = ''web'', ap_goal_host = h,
     ap_goal = ''access.admin'', ap_steps = [], ap_related_asset_ids = [], ap_related_vuln_ids = []\<rparr>"

theorem converge_best_witness:
  "\<exists>q \<in> set (converge [ex_path 40 ''db'', ex_path 60 ''db'', ex_path 50 ''dc'']). path_key q = path_key (ex_path 40 ''db'') \<and> ap_score q = 60"
proof -
  let ?ps = "[ex_path 40 ''db'', ex_path 60 ''db'', ex_path 50 ''dc'']"
  obtain q where q: "q \<in> set (converge ?ps)" "path_key q = path_key (ex_path 60 ''db'')" "path_rank q \<le> path_rank (ex_path 60 ''db'')"
    using converge_best [of ?ps "ex_path 60 ''db''"] by auto
  have "q \<in> set ?ps" using converge_best [of ?ps "ex_path 60 ''db''"] q(1) by blast
  then show ?thesis using q by (intro bexI [OF _ q(1)]) (auto simp: ex_path_def path_key_def path_rank_def)
qed

theorem predict_paths_sound_witness:
  "\<exists>p. predict_paths ex_sha ex_graph ex_caps = Some (Inr [p]) \<and> map s_module_id (ap_steps p) = [''a'', ''b'']
     \<and> path_ok ex_graph (entry_hosts ex_graph) p"
  using predict_paths_sound [of ex_graph ex_caps ex_sha, OF ex_graph_facts] ex_network_run by auto

theorem chain_saturated_witness:
  "\<exists>st. chain ex_graph ex_caps = Some (Inr (st, False)) \<and> saturated ex_graph (usable_caps ex_caps) (entry_hosts ex_graph) st"
  using chain_saturated [of ex_graph ex_caps, OF ex_graph_facts(1)] by blast

end
