(* ===== verification/Correlate_Limits.thy ===== *)
theory Correlate_Limits
  imports Scoring Strict_Model Complex_Main
begin

text \<open>
  What every correlation rule of the analyzer shares: the fan-out limits of \<open>analyzer/correlate/limits.py\<close>, the
  content-derived identity of \<open>analyzer/correlate/identity.py\<close> and the \<open>Alert\<close> model of
  \<open>analyzer/schemas/alert.py\<close> with its validation. SHA-1 and SHA-256 hex digests are the parameters \<open>sha1\<close>
  and \<open>sha256\<close>. Timestamps are integers (microseconds). The ellipsis that \<open>bounded_text\<close> appends is a code
  point above 255; the character 26 (SUBSTITUTE) stands for it.
\<close>

section \<open>Limits\<close>

definition MAX_ALERTS_PER_INGEST :: nat where "MAX_ALERTS_PER_INGEST = 128"
definition MAX_RELATED_IDS :: nat where "MAX_RELATED_IDS = 64"
definition MAX_GROUP_LABELS :: nat where "MAX_GROUP_LABELS = 8"
definition MAX_ALERT_TEXT_CHARS :: nat where "MAX_ALERT_TEXT_CHARS = 4096"
definition MAX_ALERT_ID_CHARS :: nat where "MAX_ALERT_ID_CHARS = 256"

lemmas limit_defs = MAX_ALERTS_PER_INGEST_def MAX_RELATED_IDS_def MAX_GROUP_LABELS_def MAX_ALERT_TEXT_CHARS_def
  MAX_ALERT_ID_CHARS_def

record correlation_limit_state =
  cl_truncated :: bool
  cl_reason :: "string option"

definition new_limit_state :: correlation_limit_state where
  "new_limit_state = \<lparr>cl_truncated = False, cl_reason = None\<rparr>"

definition mark :: "string \<Rightarrow> correlation_limit_state \<Rightarrow> correlation_limit_state" where
  "mark reason ls = ls\<lparr>cl_truncated := True, cl_reason := (case cl_reason ls of None \<Rightarrow> Some reason | Some r \<Rightarrow> Some r)\<rparr>"

definition append_unique_bounded :: "string list \<Rightarrow> string \<Rightarrow> nat \<Rightarrow> string list \<times> bool" where
  "append_unique_bounded items v limit =
     (if v \<in> set items then (items, False)
      else if limit \<le> length items then (items, True)
      else (items @ [v], False))"

definition truncation_tail :: string where
  "truncation_tail = CHR 0x1A # ''[truncated]''"

definition bounded_text :: "string \<Rightarrow> string" where
  "bounded_text s = (if length s \<le> MAX_ALERT_TEXT_CHARS then s else take (MAX_ALERT_TEXT_CHARS - 14) s @ truncation_tail)"

definition bounded_id :: "(string \<Rightarrow> string) \<Rightarrow> string \<Rightarrow> string" where
  "bounded_id sha256 s =
     (if length s \<le> MAX_ALERT_ID_CHARS then s
      else let digest = sha256 s in take (MAX_ALERT_ID_CHARS - length digest - 1) s @ ''-'' @ digest)"

section \<open>Identity\<close>

definition SEP :: char where "SEP = CHR 0x1F"

definition alert_key_for :: "(string \<Rightarrow> string) \<Rightarrow> string list \<Rightarrow> string" where
  "alert_key_for sha1 parts = (let digest = sha1 (join [SEP] parts) in ''ak-'' @ take 24 digest)"

section \<open>Alerts\<close>

datatype alert_status = OPEN | ACKNOWLEDGED | CLOSED

record alert =
  al_alert_id :: string
  al_alert_key :: "string option"
  al_severity :: severity
  al_status :: alert_status
  al_score :: rat
  al_title :: string
  al_description :: string
  al_related_asset_ids :: "string list"
  al_related_vuln_ids :: "string list"
  al_related_trace_ids :: "string list"
  al_evidence_truncated :: bool
  al_assignee :: "string option"
  al_note :: "string option"
  al_suppressed :: bool
  al_occurrence_count :: int
  al_last_seen :: "int option"
  al_created_at :: int
  al_updated_at :: "int option"

definition MAX_CORRELATION_IDENTIFIER_CHARS :: nat where "MAX_CORRELATION_IDENTIFIER_CHARS = 256"
definition MAX_NESTED_LIST_ITEMS :: nat where "MAX_NESTED_LIST_ITEMS = 256"

definition valid_ident :: "string \<Rightarrow> string result" where
  "valid_ident s = (let t = strip s in
     if length t \<le> MAX_CORRELATION_IDENTIFIER_CHARS then Inr t else Inl ValidationError)"

definition valid_idents :: "string list \<Rightarrow> string list result" where
  "valid_idents ss = (if MAX_NESTED_LIST_ITEMS < length ss then Inl ValidationError else rmap_list valid_ident ss)"

definition valid_opt_ident :: "string option \<Rightarrow> string option result" where
  "valid_opt_ident s = (case s of None \<Rightarrow> Inr None | Some x \<Rightarrow> rbind (valid_ident x) (\<lambda>y. Inr (Some y)))"

definition validate_alert :: "alert \<Rightarrow> alert result" where
  "validate_alert a =
     rbind (valid_ident (al_alert_id a)) (\<lambda>i.
     rbind (valid_opt_ident (al_alert_key a)) (\<lambda>k.
     rbind (valid_str (al_title a)) (\<lambda>t.
     rbind (valid_str (al_description a)) (\<lambda>d.
     rbind (valid_idents (al_related_asset_ids a)) (\<lambda>ra.
     rbind (valid_idents (al_related_vuln_ids a)) (\<lambda>rv.
     rbind (valid_idents (al_related_trace_ids a)) (\<lambda>rt.
     rbind (valid_opt_str (al_assignee a)) (\<lambda>as.
     rbind (valid_opt_str (al_note a)) (\<lambda>n.
       if al_score a < 0 \<or> 100 < al_score a \<or> al_occurrence_count a < 1 then Inl ValidationError
       else Inr (a\<lparr>al_alert_id := i, al_alert_key := k, al_title := t, al_description := d, al_related_asset_ids := ra,
              al_related_vuln_ids := rv, al_related_trace_ids := rt, al_assignee := as, al_note := n\<rparr>))))))))))"

text \<open>\<open>Alert(...)\<close> with the defaults of the fields a rule does not give.\<close>

definition new_alert :: "string \<Rightarrow> string \<Rightarrow> severity \<Rightarrow> int \<Rightarrow> string \<Rightarrow> string \<Rightarrow> string list \<Rightarrow> string list \<Rightarrow> string list
    \<Rightarrow> bool \<Rightarrow> int \<Rightarrow> alert result" where
  "new_alert alert_id alert_key sev score title description assets vulns traces truncated created_at =
     validate_alert \<lparr>al_alert_id = alert_id, al_alert_key = Some alert_key, al_severity = sev, al_status = OPEN,
       al_score = of_int score, al_title = title, al_description = description, al_related_asset_ids = assets,
       al_related_vuln_ids = vulns, al_related_trace_ids = traces, al_evidence_truncated = truncated,
       al_assignee = None, al_note = None, al_suppressed = False, al_occurrence_count = 1, al_last_seen = None,
       al_created_at = created_at, al_updated_at = None\<rparr>"

section \<open>Laws of the limits\<close>

lemma mark_idem [simp]: "mark r (mark q ls) = mark q ls"
  by (cases "cl_reason ls") (simp_all add: mark_def)

lemma mark_truncated [simp]: "cl_truncated (mark r ls)"
  by (simp add: mark_def)

lemma append_unique_fst: "fst (append_unique_bounded items v n) = (if v \<in> set items \<or> n \<le> length items then items else items @ [v])"
  by (auto simp: append_unique_bounded_def)

lemma append_unique_laws:
  assumes "distinct items" "length items \<le> n"
  shows "distinct (fst (append_unique_bounded items v n))" "length (fst (append_unique_bounded items v n)) \<le> n"
    "set (fst (append_unique_bounded items v n)) \<subseteq> insert v (set items)" "set items \<subseteq> set (fst (append_unique_bounded items v n))"
    "snd (append_unique_bounded items v n) \<longleftrightarrow> v \<notin> set (fst (append_unique_bounded items v n))"
  using assms by (auto simp: append_unique_bounded_def)

text \<open>Appending every value of a list: the first distinct values up to the limit.\<close>

definition append_all :: "string list \<Rightarrow> nat \<Rightarrow> string list \<Rightarrow> string list" where
  "append_all vs n items = fold (\<lambda>v xs. fst (append_unique_bounded xs v n)) vs items"

lemma fromkeys_snoc: "fromkeys (xs @ [x]) = (if x \<in> set xs then fromkeys xs else fromkeys xs @ [x])"
  by (induction xs) auto

lemma append_all_fromkeys: "append_all vs n [] = take n (fromkeys vs)"
proof (induction vs rule: rev_induct)
  case (snoc v vs)
  have "v \<in> set (take n (fromkeys vs)) \<longleftrightarrow> v \<in> set vs" if "length (fromkeys vs) < n" using that by simp
  then show ?case using snoc
    by (cases "length (fromkeys vs) < n") (auto simp: append_all_def append_unique_fst fromkeys_snoc dest: in_set_takeD)
qed (simp add: append_all_def)

lemma length_bounded_text: "length (bounded_text s) \<le> MAX_WIRE_STRING_CHARS"
  by (simp add: bounded_text_def MAX_ALERT_TEXT_CHARS_def MAX_WIRE_STRING_CHARS_def truncation_tail_def)

lemma length_bounded_id: "length (sha256 s) = 64 \<Longrightarrow> length (bounded_id sha256 s) \<le> MAX_CORRELATION_IDENTIFIER_CHARS"
  by (simp add: bounded_id_def Let_def MAX_ALERT_ID_CHARS_def MAX_CORRELATION_IDENTIFIER_CHARS_def)

lemma valid_str_short: "length s \<le> MAX_WIRE_STRING_CHARS \<Longrightarrow> valid_str s = Inr (strip s)"
  using length_strip [of s] by (simp add: valid_str_def Let_def)

lemma valid_ident_short: "length s \<le> MAX_CORRELATION_IDENTIFIER_CHARS \<Longrightarrow> valid_ident s = Inr (strip s)"
  using length_strip [of s] by (simp add: valid_ident_def Let_def)

text \<open>An identifier as validation leaves it.\<close>

definition ident :: "string \<Rightarrow> bool" where
  "ident s = (strip s = s \<and> length s \<le> MAX_CORRELATION_IDENTIFIER_CHARS)"

lemma valid_idents_ident:
  assumes "list_all ident ss" "length ss \<le> MAX_NESTED_LIST_ITEMS"
  shows "valid_idents ss = Inr ss"
proof -
  have "rmap_list valid_ident ss = Inr (map id ss)"
    using assms(1) by (intro rmap_list_Inr) (auto simp: list_all_iff ident_def valid_ident_def)
  then show ?thesis using assms(2) by (simp add: valid_idents_def)
qed

lemma length_alert_key: "length (alert_key_for sha1 parts) \<le> 27"
  by (simp add: alert_key_for_def Let_def)

text \<open>What the rules rely on of a hex digest: its length, and no white space.\<close>

definition hex_digest :: "nat \<Rightarrow> (string \<Rightarrow> string) \<Rightarrow> bool" where
  "hex_digest n f = (\<forall>x. length (f x) = n \<and> list_all (\<lambda>c. \<not> isspace_char c) (f x))"

lemma strip_alert_key:
  assumes "hex_digest n sha1"
  shows "strip (alert_key_for sha1 parts) = alert_key_for sha1 parts"
proof (rule strip_no_space)
  have "list_all (\<lambda>c. \<not> isspace_char c) (sha1 (join [SEP] parts))" using assms by (simp add: hex_digest_def)
  then show "list_all (\<lambda>c. \<not> isspace_char c) (alert_key_for sha1 parts)"
    by (auto simp: alert_key_for_def Let_def list_all_iff isspace_char_def dest!: in_set_takeD)
qed

text \<open>Every rule builds its alerts the same way, and this never fails: ids and texts are bounded, the related ids are
  identifiers within the list limit, the score is in range.\<close>

lemma new_alert_ok:
  assumes "hex_digest 64 sha256" "hex_digest 40 sha1" "0 \<le> score" "score \<le> 100"
    "list_all ident assets" "list_all ident vulns" "list_all ident traces"
    "length assets \<le> MAX_NESTED_LIST_ITEMS" "length vulns \<le> MAX_NESTED_LIST_ITEMS" "length traces \<le> MAX_NESTED_LIST_ITEMS"
  shows "\<exists>a. new_alert (bounded_id sha256 i) (alert_key_for sha1 parts) sev score (bounded_text t) (bounded_text d) assets vulns traces tr c = Inr a
    \<and> al_alert_id a = strip (bounded_id sha256 i) \<and> al_alert_key a = Some (alert_key_for sha1 parts) \<and> al_severity a = sev \<and> al_status a = OPEN
    \<and> al_score a = of_int score \<and> al_related_asset_ids a = assets \<and> al_related_vuln_ids a = vulns \<and> al_related_trace_ids a = traces
    \<and> al_evidence_truncated a = tr \<and> al_created_at a = c"
proof -
  have k: "valid_ident (alert_key_for sha1 parts) = Inr (strip (alert_key_for sha1 parts))"
    using length_alert_key [of sha1 parts] by (simp add: valid_ident_short MAX_CORRELATION_IDENTIFIER_CHARS_def)
  note sk = strip_alert_key [OF assms(2)]
  have i: "length (bounded_id sha256 i) \<le> MAX_CORRELATION_IDENTIFIER_CHARS" using assms(1) by (intro length_bounded_id) (simp add: hex_digest_def)
  have "(0::rat) \<le> of_int score" "(of_int score :: rat) \<le> 100" using assms(3,4) by simp_all
  then show ?thesis
    using assms(5-10) k i sk
    by (simp add: new_alert_def validate_alert_def valid_opt_ident_def valid_opt_str_def valid_ident_short valid_str_short
      length_bounded_text valid_idents_ident not_less)
qed

text \<open>The same as an introduction rule for what a rule claims of its alert.\<close>

lemma new_alert_ex:
  assumes "hex_digest 64 sha256" "hex_digest 40 sha1" "0 \<le> score" "score \<le> 100"
    "list_all ident assets" "list_all ident vulns" "list_all ident traces"
    "length assets \<le> MAX_RELATED_IDS" "length vulns \<le> MAX_RELATED_IDS" "length traces \<le> MAX_RELATED_IDS"
    "\<And>a. al_alert_id a = strip (bounded_id sha256 i) \<Longrightarrow> al_alert_key a = Some (alert_key_for sha1 parts) \<Longrightarrow> al_severity a = sev \<Longrightarrow> al_status a = OPEN
       \<Longrightarrow> al_score a = of_int score \<Longrightarrow> al_related_asset_ids a = assets \<Longrightarrow> al_related_vuln_ids a = vulns \<Longrightarrow> al_related_trace_ids a = traces
       \<Longrightarrow> al_evidence_truncated a = tr \<Longrightarrow> al_created_at a = c \<Longrightarrow> Q a"
  shows "\<exists>a. new_alert (bounded_id sha256 i) (alert_key_for sha1 parts) sev score (bounded_text t) (bounded_text d) assets vulns traces tr c = Inr a \<and> Q a"
proof -
  have len: "length assets \<le> MAX_NESTED_LIST_ITEMS" "length vulns \<le> MAX_NESTED_LIST_ITEMS" "length traces \<le> MAX_NESTED_LIST_ITEMS"
    using assms(8-10) by (simp_all add: MAX_RELATED_IDS_def MAX_NESTED_LIST_ITEMS_def)
  from new_alert_ok [OF assms(1-7) len, of i parts sev t d tr c] show ?thesis using assms(11) by blast
qed

end
