(* ===== verification/Correlate_Group.thy ===== *)
theory Correlate_Group
  imports Correlate_Limits
begin

text \<open>
  Bounded aggregation. All six correlation rules of \<open>analyzer/correlate/trace.py\<close> and \<open>guard.py\<close> run the same loop: find the
  group of the event's key, create it unless \<open>MAX_ALERTS_PER_INGEST\<close> groups exist (then note the limit and skip the event), and
  fold the event into the group. \<open>group_events\<close> is that loop over an insertion-ordered dictionary; it is proved
  equal to a reference that never mentions the loop. The locales state what a rule promises about its groups (worst
  severity, hit count) and derive the same for the result of the loop.
\<close>

definition group_step :: "string \<Rightarrow> ('e \<Rightarrow> 'k) \<Rightarrow> ('e \<Rightarrow> 'g) \<Rightarrow> ('e \<Rightarrow> 'g \<Rightarrow> 'g) \<Rightarrow> 'e
    \<Rightarrow> ('k \<times> 'g) list \<times> correlation_limit_state option \<Rightarrow> ('k \<times> 'g) list \<times> correlation_limit_state option" where
  "group_step reason key init upd e = (\<lambda>(groups, ls).
     case map_of groups (key e) of
       None \<Rightarrow>
         if MAX_ALERTS_PER_INGEST \<le> length groups then (groups, map_option (mark reason) ls)
         else (AList.update (key e) (upd e (init e)) groups, ls)
     | Some g \<Rightarrow> (AList.update (key e) (upd e g) groups, ls))"

definition group_events :: "string \<Rightarrow> ('e \<Rightarrow> 'k) \<Rightarrow> ('e \<Rightarrow> 'g) \<Rightarrow> ('e \<Rightarrow> 'g \<Rightarrow> 'g) \<Rightarrow> 'e list
    \<Rightarrow> correlation_limit_state option \<Rightarrow> ('k \<times> 'g) list \<times> correlation_limit_state option" where
  "group_events reason key init upd es ls = fold (group_step reason key init upd) es ([], ls)"

section \<open>The reference\<close>

text \<open>All events of a key, folded into the group its first event starts.\<close>

definition group_content :: "('e \<Rightarrow> 'k) \<Rightarrow> ('e \<Rightarrow> 'g) \<Rightarrow> ('e \<Rightarrow> 'g \<Rightarrow> 'g) \<Rightarrow> 'e list \<Rightarrow> 'k \<Rightarrow> 'g" where
  "group_content key init upd es k = (let hits = filter (\<lambda>e. key e = k) es in fold upd hits (init (hd hits)))"

definition group_ref :: "string \<Rightarrow> ('e \<Rightarrow> 'k) \<Rightarrow> ('e \<Rightarrow> 'g) \<Rightarrow> ('e \<Rightarrow> 'g \<Rightarrow> 'g) \<Rightarrow> 'e list
    \<Rightarrow> correlation_limit_state option \<Rightarrow> ('k \<times> 'g) list \<times> correlation_limit_state option" where
  "group_ref reason key init upd es ls =
     (let ks = fromkeys (map key es) in
      (map (\<lambda>k. (k, group_content key init upd es k)) (take MAX_ALERTS_PER_INGEST ks),
       if MAX_ALERTS_PER_INGEST < length ks then map_option (mark reason) ls else ls))"

lemma filter_key_nonempty: "k \<in> set (map key es) \<Longrightarrow> filter (\<lambda>e. key e = k) es \<noteq> []"
  by (auto simp: filter_empty_conv)

lemma group_content_snoc:
  "k \<in> set (map key es) \<Longrightarrow> group_content key init upd (es @ [e]) k
     = (if key e = k then upd e (group_content key init upd es k) else group_content key init upd es k)"
  using filter_key_nonempty [of k key es] by (simp add: group_content_def Let_def)

lemma group_content_new:
  "key e \<notin> set (map key es) \<Longrightarrow> group_content key init upd (es @ [e]) (key e) = upd e (init e)"
proof -
  assume "key e \<notin> set (map key es)"
  then have "filter (\<lambda>x. key x = key e) es = []" by (auto simp: filter_empty_conv image_iff)
  then show ?thesis by (simp add: group_content_def)
qed

lemma map_of_pairs: "map_of (map (\<lambda>k. (k, f k)) ks) k = (if k \<in> set ks then Some (f k) else None)"
  by (induction ks) auto

lemma update_pairs:
  "distinct ks \<Longrightarrow> k \<in> set ks \<Longrightarrow> AList.update k v (map (\<lambda>k. (k, f k)) ks) = map (\<lambda>j. (j, if j = k then v else f j)) ks"
  by (induction ks) auto

lemma update_new: "k \<notin> fst ` set al \<Longrightarrow> AList.update k v al = al @ [(k, v)]"
  by (induction al) auto

text \<open>The loop computes the reference: the first \<open>MAX_ALERTS_PER_INGEST\<close> keys in order of appearance, each with all of its
  events, and the limit is noted exactly when there are more keys.\<close>

lemma group_events_ref: "group_events reason key init upd es ls = group_ref reason key init upd es ls"
proof (induction es rule: rev_induct)
  case Nil
  then show ?case by (simp add: group_events_def group_ref_def)
next
  case (snoc e es)
  let ?N = MAX_ALERTS_PER_INGEST and ?ks = "fromkeys (map key es)" and ?c = "group_content key init upd es"
  define gs where "gs = map (\<lambda>k. (k, ?c k)) (take ?N ?ks)"
  define l where "l = (if ?N < length ?ks then map_option (mark reason) ls else ls)"
  have step: "group_events reason key init upd (es @ [e]) ls = group_step reason key init upd e (gs, l)"
    using snoc by (simp add: group_events_def group_ref_def gs_def l_def)
  have lookup: "map_of gs (key e) = (if key e \<in> set (take ?N ?ks) then Some (?c (key e)) else None)"
    by (simp add: gs_def map_of_pairs)
  have fst_gs: "fst ` set gs = set (take ?N ?ks)" by (force simp: gs_def)
  have old: "group_content key init upd (es @ [e]) k = (if k = key e then upd e (?c k) else ?c k)" if "k \<in> set (take ?N ?ks)" for k
    using in_set_takeD [OF that] group_content_snoc [of k key es init upd e] by auto
  have same: "map (\<lambda>k. (k, group_content key init upd (es @ [e]) k)) (take ?N ?ks)
      = map (\<lambda>k. (k, if k = key e then upd e (?c (key e)) else ?c k)) (take ?N ?ks)"
    by (rule map_cong [OF refl]) (use old in auto)
  have ref: "group_ref reason key init upd (es @ [e]) ls =
      (map (\<lambda>k. (k, group_content key init upd (es @ [e]) k)) (take ?N (fromkeys (map key (es @ [e])))),
       if ?N < length (fromkeys (map key (es @ [e]))) then map_option (mark reason) ls else ls)"
    by (simp only: group_ref_def Let_def)
  have marked: "map_option (mark reason) l = map_option (mark reason) ls"
    by (auto simp: l_def option.map_comp comp_def)
  show ?case
  proof (cases "key e \<in> set (map key es)")
    case True
    then have ks: "fromkeys (map key (es @ [e])) = ?ks" by (auto simp: fromkeys_snoc)
    show ?thesis
    proof (cases "key e \<in> set (take ?N ?ks)")
      case in_t: True
      have "AList.update (key e) (upd e (?c (key e))) gs = map (\<lambda>k. (k, if k = key e then upd e (?c (key e)) else ?c k)) (take ?N ?ks)"
        unfolding gs_def using in_t by (intro update_pairs) simp_all
      then show ?thesis unfolding step ref ks same l_def [symmetric] by (simp add: group_step_def lookup in_t)
    next
      case False
      then have more: "?N < length ?ks" using True by (metis set_fromkeys not_le take_all)
      have "map (\<lambda>k. (k, group_content key init upd (es @ [e]) k)) (take ?N ?ks) = gs"
        unfolding gs_def using False old by (intro map_cong) auto
      moreover have "?N \<le> length gs" using more by (simp add: gs_def)
      ultimately show ?thesis unfolding step ref ks using False more marked by (simp add: group_step_def lookup)
    qed
  next
    case False
    then have ks: "fromkeys (map key (es @ [e])) = ?ks @ [key e]" by (auto simp: fromkeys_snoc)
    have nt: "key e \<notin> set (take ?N ?ks)" using False by (auto dest: in_set_takeD)
    have gs': "map (\<lambda>k. (k, group_content key init upd (es @ [e]) k)) (take ?N ?ks) = gs"
      unfolding gs_def using nt old by (intro map_cong) auto
    show ?thesis
    proof (cases "?N \<le> length ?ks")
      case True
      moreover have "?N \<le> length gs" using True by (simp add: gs_def)
      ultimately show ?thesis unfolding step ref ks using nt gs' marked by (simp add: group_step_def lookup)
    next
      case room: False
      then have "\<not> ?N \<le> length gs" "take ?N ?ks = ?ks" by (auto simp: gs_def)
      then show ?thesis
        unfolding step ref ks using nt gs' room group_content_new [OF False, of init upd] update_new [of "key e" gs] fst_gs
        by (simp add: group_step_def lookup l_def)
    qed
  qed
qed

section \<open>What a rule promises about its groups\<close>

locale severity_grouping =
  fixes key :: "'e \<Rightarrow> 'k" and init :: "'e \<Rightarrow> 'g" and upd :: "'e \<Rightarrow> 'g \<Rightarrow> 'g"
    and group_sev :: "'g \<Rightarrow> severity" and event_sev :: "'e \<Rightarrow> severity"
  assumes init_sev: "group_sev (init e) = INFO"
    and upd_sev: "group_sev (upd e g) = max (group_sev g) (event_sev e)"
begin

lemma fold_sev: "group_sev (fold upd es g) = fold max (map event_sev es) (group_sev g)"
  by (induction es arbitrary: g) (simp_all add: upd_sev max.commute)

text \<open>A group carries the worst severity among all events of its key.\<close>

lemma content_worst:
  assumes "e \<in> set es" "key e = k"
  shows "event_sev e \<le> group_sev (group_content key init upd es k)"
    and "\<exists>x \<in> set es. key x = k \<and> group_sev (group_content key init upd es k) = event_sev x"
proof -
  let ?hits = "filter (\<lambda>e. key e = k) es"
  have eq: "group_sev (group_content key init upd es k) = fold max (map event_sev ?hits) INFO"
    by (simp add: group_content_def Let_def fold_sev init_sev)
  have mem: "e \<in> set ?hits" using assms by simp
  have "fold max (map event_sev ?hits) INFO = Max (insert INFO (set (map event_sev ?hits)))"
    by (metis Max.set_eq_fold list.simps(15))
  also have "\<dots> = Max (set (map event_sev ?hits))"
  proof (rule antisym)
    have "INFO \<le> event_sev e" by (cases "event_sev e") (simp_all add: less_eq_severity_def)
    then show "Max (insert INFO (set (map event_sev ?hits))) \<le> Max (set (map event_sev ?hits))"
      using mem by (auto intro!: Max.boundedI intro: order_trans [OF _ Max_ge])
    show "Max (set (map event_sev ?hits)) \<le> Max (insert INFO (set (map event_sev ?hits)))"
      using mem by (intro Max_mono) auto
  qed
  finally have m: "group_sev (group_content key init upd es k) = Max (set (map event_sev ?hits))" using eq by simp
  then show "event_sev e \<le> group_sev (group_content key init upd es k)" using mem by simp
  have "Max (set (map event_sev ?hits)) \<in> set (map event_sev ?hits)" using mem by (intro Max_in) auto
  then show "\<exists>x \<in> set es. key x = k \<and> group_sev (group_content key init upd es k) = event_sev x" using m by auto
qed

lemma groups_worst:
  assumes "(k, g) \<in> set (fst (group_events reason key init upd es ls))"
  shows "\<forall>e \<in> set es. key e = k \<longrightarrow> event_sev e \<le> group_sev g"
    and "\<exists>e \<in> set es. key e = k \<and> group_sev g = event_sev e"
proof -
  have g: "g = group_content key init upd es k" "k \<in> set (map key es)"
    using assms in_set_takeD [of k MAX_ALERTS_PER_INGEST "fromkeys (map key es)"] by (auto simp: group_events_ref group_ref_def Let_def)
  then obtain e where "e \<in> set es" "key e = k" by auto
  then show "\<exists>e \<in> set es. key e = k \<and> group_sev g = event_sev e" using g content_worst(2) by blast
  show "\<forall>e \<in> set es. key e = k \<longrightarrow> event_sev e \<le> group_sev g" using g content_worst(1) by blast
qed

end

locale counted_grouping = severity_grouping +
  fixes group_n :: "'g \<Rightarrow> nat"
  assumes init_n: "group_n (init e) = 0" and upd_n: "group_n (upd e g) = Suc (group_n g)"
begin

lemma fold_n: "group_n (fold upd es g) = group_n g + length es"
  by (induction es arbitrary: g) (simp_all add: upd_n)

text \<open>A group counts all events of its key, whatever order they came in.\<close>

lemma groups_count:
  assumes "(k, g) \<in> set (fst (group_events reason key init upd es ls))"
  shows "group_n g = length (filter (\<lambda>e. key e = k) es)"
  using assms by (auto simp: group_events_ref group_ref_def Let_def group_content_def fold_n init_n)

end

text \<open>Any property of the groups that the rule establishes and keeps holds of all of them.\<close>

lemma group_events_inv:
  assumes "\<And>e. e \<in> set es \<Longrightarrow> P (key e) (init e)" "\<And>e g. e \<in> set es \<Longrightarrow> P (key e) g \<Longrightarrow> P (key e) (upd e g)"
  shows "\<forall>(k, g) \<in> set (fst (group_events reason key init upd es ls)). P k g"
proof (intro ballI, clarify)
  fix k g
  assume "(k, g) \<in> set (fst (group_events reason key init upd es ls))"
  then have g: "g = group_content key init upd es k" "k \<in> set (map key es)"
    using in_set_takeD [of k MAX_ALERTS_PER_INGEST "fromkeys (map key es)"] by (auto simp: group_events_ref group_ref_def Let_def)
  have hd: "hd (filter (\<lambda>e. key e = k) es) \<in> set (filter (\<lambda>e. key e = k) es)"
    using filter_key_nonempty [OF g(2)] by (rule hd_in_set)
  have "P k (fold upd hits (init e))" if "set hits \<subseteq> set (filter (\<lambda>e. key e = k) es)" "P k (init e)" for hits e
    using that by (induction hits rule: rev_induct) (auto intro: assms(2))
  then show "P k g" using hd assms(1) unfolding g(1) group_content_def Let_def by fastforce
qed

lemma group_events_keys:
  "map fst (fst (group_events reason key init upd es ls)) = take MAX_ALERTS_PER_INGEST (fromkeys (map key es))"
  by (simp add: group_events_ref group_ref_def Let_def comp_def)

end
