(* ===== verification/Correlate_Trace.thy ===== *)
theory Correlate_Trace
  imports Correlate_Group
begin

text \<open>
  Threat-intelligence hits of a trace batch become alerts, one per distinct indicator (\<open>analyzer/correlate/trace.py\<close>).
  The events carry the fields of \<open>TraceEvent\<close> and \<open>ThreatMatch\<close> that the rule reads; addresses are the text of the validated
  address. The index from addresses to hosts is an association list, \<open>None\<close> when the caller has none.
\<close>

section \<open>Data\<close>

datatype indicator_type = IP | DOMAIN | JA3

fun indicator_value :: "indicator_type \<Rightarrow> string" where
  "indicator_value IP = ''ip''"
| "indicator_value DOMAIN = ''domain''"
| "indicator_value JA3 = ''ja3''"

record threat_match =
  tm_indicator :: string
  tm_indicator_type :: indicator_type
  tm_category :: string
  tm_severity :: severity
  tm_source :: string

record trace_event =
  te_trace_id :: string
  te_host_id :: string
  te_src_ip :: string
  te_dst_ip :: string
  te_threat_intel :: "threat_match list"

record trace_batch =
  tb_batch_id :: string
  tb_collected_at :: int
  tb_events :: "trace_event list"

record trace_group =
  tg_indicator :: string
  tg_indicator_type :: indicator_type
  tg_severity :: severity
  tg_categories :: "string list"
  tg_sources :: "string list"
  tg_trace_ids :: "string list"
  tg_observer_ids :: "string list"
  tg_endpoint_ips :: "string list"
  tg_evidence_truncated :: bool

section \<open>The rule\<close>

definition worst :: "severity \<Rightarrow> severity \<Rightarrow> severity" where
  "worst current candidate = (if severity_rank candidate > severity_rank current then candidate else current)"

definition new_trace_group :: "trace_event \<times> threat_match \<Rightarrow> trace_group" where
  "new_trace_group = (\<lambda>(e, m). \<lparr>tg_indicator = tm_indicator m, tg_indicator_type = tm_indicator_type m, tg_severity = INFO,
     tg_categories = [], tg_sources = [], tg_trace_ids = [], tg_observer_ids = [], tg_endpoint_ips = [],
     tg_evidence_truncated = False\<rparr>)"

definition add_ip :: "string \<Rightarrow> trace_group \<Rightarrow> trace_group" where
  "add_ip ip g = (let (ips, om) = append_unique_bounded (tg_endpoint_ips g) ip MAX_RELATED_IDS in
     g\<lparr>tg_endpoint_ips := ips, tg_evidence_truncated := tg_evidence_truncated g \<or> om\<rparr>)"

definition observe :: "trace_event \<times> threat_match \<Rightarrow> trace_group \<Rightarrow> trace_group" where
  "observe = (\<lambda>(e, m) g.
     let g0 = (if severity_rank (tm_severity m) > severity_rank (tg_severity g) then g\<lparr>tg_severity := tm_severity m\<rparr> else g);
         (cats, o1) = append_unique_bounded (tg_categories g0) (tm_category m) MAX_GROUP_LABELS;
         (srcs, o2) = append_unique_bounded (tg_sources g0) (tm_source m) MAX_GROUP_LABELS;
         (tids, o3) = append_unique_bounded (tg_trace_ids g0) (te_trace_id e) MAX_RELATED_IDS;
         (obs, o4) = append_unique_bounded (tg_observer_ids g0) (te_host_id e) MAX_RELATED_IDS in
     fold add_ip [te_src_ip e, te_dst_ip e]
       (g0\<lparr>tg_categories := cats, tg_sources := srcs, tg_trace_ids := tids, tg_observer_ids := obs,
           tg_evidence_truncated := tg_evidence_truncated g0 \<or> o1 \<or> o2 \<or> o3 \<or> o4\<rparr>))"

definition resolve_ips :: "(string \<times> string) list \<Rightarrow> string list \<Rightarrow> string list" where
  "resolve_ips idx ips = fold (\<lambda>ip acc. case map_of idx ip of None \<Rightarrow> acc
     | Some host \<Rightarrow> fst (append_unique_bounded acc host MAX_RELATED_IDS)) ips []"

definition asset_ids :: "trace_group \<Rightarrow> (string \<times> string) list option \<Rightarrow> string list" where
  "asset_ids g ip_index = (case ip_index of
     None \<Rightarrow> tg_observer_ids g
   | Some idx \<Rightarrow>
       let resolved = resolve_ips idx (tg_endpoint_ips g) in
       if idx \<noteq> [] \<and> resolved \<noteq> [] then resolved else tg_observer_ids g)"

definition alert_for_group :: "(string \<Rightarrow> string) \<Rightarrow> (string \<Rightarrow> string) \<Rightarrow> trace_batch \<Rightarrow> (string \<times> string) list option \<Rightarrow> trace_group
    \<Rightarrow> alert result" where
  "alert_for_group sha1 sha256 batch ip_index g =
     (let categories = join ''/'' (tg_categories g);
          assets = asset_ids g ip_index;
          n = nat_str (length (tg_trace_ids g));
          ty = indicator_value (tg_indicator_type g) in
      new_alert
        (bounded_id sha256 (''alert-ioc-'' @ tb_batch_id batch @ ''-'' @ ty @ ''-'' @ tg_indicator g))
        (alert_key_for sha1 [''ioc'', ty, tg_indicator g])
        (tg_severity g)
        (alert_score (tg_severity g) (int (length assets)))
        (bounded_text (n @ '' trace(s) matched threat indicator '' @ tg_indicator g @ '' ('' @ categories @ '')''))
        (bounded_text (''Indicator '' @ tg_indicator g @ '' ('' @ ty @ '', '' @ categories @ '') was hit by '' @ n
           @ '' trace(s) observed at '' @ join '', '' (tg_observer_ids g) @ '' per feed(s): '' @ join '', '' (tg_sources g) @ ''.''))
        assets [] (tg_trace_ids g) (tg_evidence_truncated g) (tb_collected_at batch))"

definition hit_key :: "trace_event \<times> threat_match \<Rightarrow> indicator_type \<times> string" where
  "hit_key = (\<lambda>(e, m). (tm_indicator_type m, tm_indicator m))"

definition trace_groups :: "trace_event list \<Rightarrow> correlation_limit_state option
    \<Rightarrow> ((indicator_type \<times> string) \<times> trace_group) list \<times> correlation_limit_state option" where
  "trace_groups events ls =
     fold (\<lambda>e. fold (\<lambda>m. group_step ''trace_max_alerts'' hit_key new_trace_group observe (e, m)) (te_threat_intel e)) events ([], ls)"

definition correlate_trace_batch :: "(string \<Rightarrow> string) \<Rightarrow> (string \<Rightarrow> string) \<Rightarrow> trace_batch \<Rightarrow> (string \<times> string) list option
    \<Rightarrow> correlation_limit_state option \<Rightarrow> (alert list \<times> correlation_limit_state option) result" where
  "correlate_trace_batch sha1 sha256 batch ip_index ls =
     (let (groups, ls') = trace_groups (tb_events batch) ls in
      rbind (rmap_list (alert_for_group sha1 sha256 batch ip_index) (map snd groups)) (\<lambda>alerts. Inr (alerts, ls')))"

section \<open>Laws\<close>

definition hits_of :: "trace_event list \<Rightarrow> (trace_event \<times> threat_match) list" where
  "hits_of events = concat (map (\<lambda>e. map (Pair e) (te_threat_intel e)) events)"

lemma fold_pairs: "fold (\<lambda>m. f (e, m)) ms s = fold f (map (Pair e) ms) s"
  by (induction ms arbitrary: s) simp_all

lemma trace_groups_flat: "trace_groups events ls = group_events ''trace_max_alerts'' hit_key new_trace_group observe (hits_of events) ls"
proof -
  have "fold (\<lambda>e. fold (\<lambda>m. f (e, m)) (te_threat_intel e)) es s = fold f (hits_of es) s"
    for f :: "trace_event \<times> threat_match \<Rightarrow> 's \<Rightarrow> 's" and es s
    by (induction es arbitrary: s) (simp_all add: hits_of_def fold_pairs)
  then show ?thesis by (simp add: trace_groups_def group_events_def)
qed

lemma worst_max: "worst a b = max a b"
  by (auto simp: worst_def max_def less_eq_severity_def not_le)

lemma add_ip_simps [simp]:
  "tg_severity (add_ip ip g) = tg_severity g" "tg_trace_ids (add_ip ip g) = tg_trace_ids g" "tg_observer_ids (add_ip ip g) = tg_observer_ids g"
  "tg_indicator (add_ip ip g) = tg_indicator g" "tg_indicator_type (add_ip ip g) = tg_indicator_type g"
  "tg_endpoint_ips (add_ip ip g) = fst (append_unique_bounded (tg_endpoint_ips g) ip MAX_RELATED_IDS)"
  "tg_evidence_truncated (add_ip ip g) \<longleftrightarrow> tg_evidence_truncated g \<or> snd (append_unique_bounded (tg_endpoint_ips g) ip MAX_RELATED_IDS)"
  by (simp_all add: add_ip_def split: prod.splits)

lemma observe_simps:
  "tg_severity (observe h g) = max (tg_severity g) (tm_severity (snd h))"
  "tg_indicator (observe h g) = tg_indicator g" "tg_indicator_type (observe h g) = tg_indicator_type g"
  "tg_trace_ids (observe h g) = fst (append_unique_bounded (tg_trace_ids g) (te_trace_id (fst h)) MAX_RELATED_IDS)"
  "tg_observer_ids (observe h g) = fst (append_unique_bounded (tg_observer_ids g) (te_host_id (fst h)) MAX_RELATED_IDS)"
  "tg_evidence_truncated g \<Longrightarrow> tg_evidence_truncated (observe h g)"
  "snd (append_unique_bounded (tg_trace_ids g) (te_trace_id (fst h)) MAX_RELATED_IDS) \<Longrightarrow> tg_evidence_truncated (observe h g)"
  by (auto simp: observe_def worst_max [symmetric] worst_def Let_def split: prod.splits)

lemma new_trace_group_simps [simp]:
  "tg_severity (new_trace_group h) = INFO" "tg_trace_ids (new_trace_group h) = []" "tg_observer_ids (new_trace_group h) = []"
  "tg_endpoint_ips (new_trace_group h) = []" "tg_indicator (new_trace_group h) = snd (hit_key h)"
  "tg_indicator_type (new_trace_group h) = fst (hit_key h)" "\<not> tg_evidence_truncated (new_trace_group h)"
  by (simp_all add: new_trace_group_def hit_key_def case_prod_beta)

interpretation trace_rule: severity_grouping hit_key new_trace_group observe tg_severity "\<lambda>h. tm_severity (snd h)"
  by unfold_locales (simp_all add: observe_simps)

text \<open>The evidence of a group: the first distinct trace ids, all of them unless the group says it was truncated.\<close>

lemma fold_observe_ids:
  "tg_trace_ids (fold observe hs g) = append_all (map (te_trace_id \<circ> fst) hs) MAX_RELATED_IDS (tg_trace_ids g)"
  by (induction hs arbitrary: g) (simp_all add: append_all_def observe_simps)

lemma fold_observe_untruncated:
  "\<not> tg_evidence_truncated (fold observe hs (new_trace_group h)) \<Longrightarrow> set (map (te_trace_id \<circ> fst) hs) \<subseteq> set (tg_trace_ids (fold observe hs (new_trace_group h)))"
proof (induction hs rule: rev_induct)
  case (snoc x hs)
  let ?g = "fold observe hs (new_trace_group h)"
  have nt: "\<not> tg_evidence_truncated (observe x ?g)" using snoc.prems by simp
  then have "\<not> tg_evidence_truncated ?g" "\<not> snd (append_unique_bounded (tg_trace_ids ?g) (te_trace_id (fst x)) MAX_RELATED_IDS)"
    using observe_simps(6,7) by blast+
  moreover have "distinct (tg_trace_ids ?g)" "length (tg_trace_ids ?g) \<le> MAX_RELATED_IDS"
    by (simp_all add: fold_observe_ids append_all_fromkeys)
  ultimately show ?case using snoc.IH append_unique_laws [of "tg_trace_ids ?g" MAX_RELATED_IDS "te_trace_id (fst x)"]
    by (auto simp: observe_simps)
qed simp

section \<open>Valid batches\<close>

definition hit_ok :: "trace_event \<times> threat_match \<Rightarrow> bool" where
  "hit_ok h = (ident (te_trace_id (fst h)) \<and> ident (te_host_id (fst h)))"

definition batch_ok :: "trace_batch \<Rightarrow> bool" where
  "batch_ok b = list_all (\<lambda>e. ident (te_trace_id e) \<and> ident (te_host_id e)) (tb_events b)"

definition index_ok :: "(string \<times> string) list option \<Rightarrow> bool" where
  "index_ok idx = (case idx of None \<Rightarrow> True | Some al \<Rightarrow> list_all (\<lambda>(ip, host). ident host) al)"

definition trace_group_ok :: "trace_group \<Rightarrow> bool" where
  "trace_group_ok g = (list_all ident (tg_trace_ids g) \<and> list_all ident (tg_observer_ids g)
     \<and> length (tg_trace_ids g) \<le> MAX_RELATED_IDS \<and> length (tg_observer_ids g) \<le> MAX_RELATED_IDS)"

lemma bounded_append_ok:
  "list_all P items \<Longrightarrow> length items \<le> n \<Longrightarrow> P v \<Longrightarrow>
    list_all P (fst (append_unique_bounded items v n)) \<and> length (fst (append_unique_bounded items v n)) \<le> n"
  by (auto simp: append_unique_bounded_def)

lemma observe_ok: "hit_ok h \<Longrightarrow> trace_group_ok g \<Longrightarrow> trace_group_ok (observe h g)"
  using bounded_append_ok [of ident "tg_trace_ids g" MAX_RELATED_IDS "te_trace_id (fst h)"]
    bounded_append_ok [of ident "tg_observer_ids g" MAX_RELATED_IDS "te_host_id (fst h)"]
  by (simp add: trace_group_ok_def hit_ok_def observe_simps)

lemma resolve_ips_ok: "index_ok (Some idx) \<Longrightarrow> list_all ident (resolve_ips idx ips) \<and> length (resolve_ips idx ips) \<le> MAX_RELATED_IDS"
proof (induction ips rule: rev_induct)
  case (snoc ip ips)
  then have "list_all ident (resolve_ips idx ips)" "length (resolve_ips idx ips) \<le> MAX_RELATED_IDS" by auto
  moreover have "ident host" if "map_of idx ip = Some host" for host
    using map_of_SomeD [OF that] snoc.prems by (auto simp: index_ok_def list_all_iff)
  ultimately show ?case using bounded_append_ok [of ident "resolve_ips idx ips" MAX_RELATED_IDS]
    by (auto simp: resolve_ips_def split: option.splits)
qed (simp add: resolve_ips_def)

lemma asset_ids_ok:
  "trace_group_ok g \<Longrightarrow> index_ok idx \<Longrightarrow> list_all ident (asset_ids g idx) \<and> length (asset_ids g idx) \<le> MAX_RELATED_IDS"
  using resolve_ips_ok by (auto simp: asset_ids_def trace_group_ok_def Let_def split: option.splits)

lemma score_range: "0 \<le> alert_score s n" "alert_score s n \<le> 100"
  using alert_score_bounds [of s n] by (cases s; simp)+

lemma alert_for_group_ok:
  assumes "hex_digest 64 sha256" "hex_digest 40 sha1" "trace_group_ok g" "index_ok idx"
  shows "\<exists>a. alert_for_group sha1 sha256 batch idx g = Inr a
    \<and> al_alert_key a = Some (alert_key_for sha1 [''ioc'', indicator_value (tg_indicator_type g), tg_indicator g])
    \<and> al_severity a = tg_severity g \<and> al_score a = of_int (alert_score (tg_severity g) (int (length (asset_ids g idx))))
    \<and> al_related_asset_ids a = asset_ids g idx \<and> al_related_trace_ids a = tg_trace_ids g \<and> al_evidence_truncated a = tg_evidence_truncated g"
proof -
  note ok = asset_ids_ok [OF assms(3,4)]
  have tr: "length (tg_trace_ids g) \<le> MAX_RELATED_IDS" "list_all ident (tg_trace_ids g)"
    using assms(3) by (simp_all add: trace_group_ok_def)
  show ?thesis
    unfolding alert_for_group_def Let_def
    by (rule new_alert_ex [OF assms(1,2) score_range _ _ tr(2) _ _ tr(1)]) (use ok in simp_all)
qed

end
