(* ===== verification/Correlate_Cross.thy ===== *)
theory Correlate_Cross
  imports Correlate_Trace
begin

text \<open>
  Cross-source correlation, \<open>analyzer/correlate/cross.py\<close>: the index from addresses to hosts, the worst known severity per
  host, and the compound alerts for hosts that are both vulnerable and involved in an indicator hit. The loop of
  \<open>cross_source_alerts\<close> and that of \<open>guard_compound_alerts\<close> differ only in the alert they build, so the loop is one
  definition and its builder an interface (\<open>compound_rule\<close>). The fields of \<open>AssetReport\<close>, \<open>DetectionResult\<close> and
  \<open>Vulnerability\<close> are those the rules read.
\<close>

section \<open>Data\<close>

record vulnerability =
  vu_vuln_id :: string
  vu_severity :: severity

record detection_result =
  dr_host_id :: string
  dr_vulnerabilities :: "vulnerability list"

record asset_report_host =
  rh_host_id :: string
  rh_ip_addrs :: "string list"

section \<open>Indexes\<close>

definition dict_setdefault :: "'k \<Rightarrow> 'v \<Rightarrow> ('k \<times> 'v) list \<Rightarrow> ('k \<times> 'v) list" where
  "dict_setdefault k v d = (case map_of d k of None \<Rightarrow> AList.update k v d | Some _ \<Rightarrow> d)"

definition ip_host_index :: "asset_report_host list \<Rightarrow> (string \<times> string) list" where
  "ip_host_index reports = fold (\<lambda>r. fold (\<lambda>ip. dict_setdefault ip (rh_host_id r)) (rh_ip_addrs r)) reports []"

definition note_vuln :: "string \<Rightarrow> vulnerability \<Rightarrow> (string \<times> severity) list \<Rightarrow> (string \<times> severity) list" where
  "note_vuln h v w = (case map_of w h of
     None \<Rightarrow> AList.update h (vu_severity v) w
   | Some current \<Rightarrow>
       if severity_rank (vu_severity v) > severity_rank current then AList.update h (vu_severity v) w else w)"

definition worst_severity_by_host :: "detection_result list \<Rightarrow> (string \<times> severity) list" where
  "worst_severity_by_host detections = fold (\<lambda>r. fold (note_vuln (dr_host_id r)) (dr_vulnerabilities r)) detections []"

definition take_vuln :: "nat \<Rightarrow> vulnerability \<Rightarrow> string list \<times> string list \<times> correlation_limit_state
    \<Rightarrow> string list \<times> string list \<times> correlation_limit_state" where
  "take_vuln min_rank v = (\<lambda>(ids, seen, ls).
     if severity_rank (vu_severity v) < min_rank \<or> vu_vuln_id v \<in> set seen then (ids, seen, ls)
     else if MAX_RELATED_IDS \<le> length ids then (ids, vu_vuln_id v # seen, mark ''cross_related_vuln_ids'' ls)
     else (ids @ [vu_vuln_id v], vu_vuln_id v # seen, ls))"

definition vuln_ids_for_hosts :: "detection_result list \<Rightarrow> string list \<Rightarrow> nat \<Rightarrow> correlation_limit_state
    \<Rightarrow> string list \<times> correlation_limit_state" where
  "vuln_ids_for_hosts detections host_ids min_rank ls =
     (let (ids, _, ls') = fold (\<lambda>r s. if dr_host_id r \<in> set host_ids then fold (take_vuln min_rank) (dr_vulnerabilities r) s else s)
            detections ([], [], ls) in (ids, ls'))"

section \<open>Compound alerts\<close>

definition high_risk :: "severity option \<Rightarrow> bool" where
  "high_risk s = (s = Some HIGH \<or> s = Some CRITICAL)"

definition all_risky_hosts :: "(string \<times> severity) list \<Rightarrow> alert \<Rightarrow> string list" where
  "all_risky_hosts host_severity a =
     sort (remdups (filter (\<lambda>h. high_risk (map_of host_severity h)) (al_related_asset_ids a)))"

definition host_severities :: "(string \<times> severity) list \<Rightarrow> string list \<Rightarrow> severity list result" where
  "host_severities hs = rmap_list (\<lambda>h. case map_of hs h of None \<Rightarrow> Inl KeyError | Some s \<Rightarrow> Inr s)"

definition max_severity :: "severity list \<Rightarrow> severity result" where
  "max_severity ss = (case ss of [] \<Rightarrow> Inl ValueError | s # rest \<Rightarrow> Inr (fold (\<lambda>x m. worst m x) rest s))"

text \<open>The loop of both compound rules; \<open>build\<close> makes the alert of one source alert and its risky hosts.\<close>

definition compound_step :: "string \<Rightarrow> (string \<times> severity) list
    \<Rightarrow> (alert \<Rightarrow> string list \<Rightarrow> correlation_limit_state option \<Rightarrow> (alert \<times> correlation_limit_state option) result)
    \<Rightarrow> alert \<Rightarrow> alert list \<times> correlation_limit_state option \<Rightarrow> (alert list \<times> correlation_limit_state option) result" where
  "compound_step reason host_severity build src = (\<lambda>(extras, ls).
     let risky = all_risky_hosts host_severity src in
     if risky = [] then Inr (extras, ls)
     else if MAX_ALERTS_PER_INGEST \<le> length extras then Inr (extras, map_option (mark reason) ls)
     else rbind (build src risky ls) (\<lambda>(a, ls'). Inr (extras @ [a], ls')))"

definition compound_loop where
  "compound_loop reason host_severity build srcs ls = rfold (compound_step reason host_severity build) srcs ([], ls)"

definition or_else :: "string list \<Rightarrow> string \<Rightarrow> string" where
  "or_else ids other = (if join '', '' ids = [] then other else join '', '' ids)"

definition key_or_id :: "alert \<Rightarrow> string" where
  "key_or_id a = (case al_alert_key a of None \<Rightarrow> al_alert_id a | Some k \<Rightarrow> if k = [] then al_alert_id a else k)"

definition cross_alert :: "(string \<Rightarrow> string) \<Rightarrow> (string \<Rightarrow> string) \<Rightarrow> string \<Rightarrow> int \<Rightarrow> detection_result list \<Rightarrow> (string \<times> severity) list
    \<Rightarrow> alert \<Rightarrow> string list \<Rightarrow> correlation_limit_state option \<Rightarrow> (alert \<times> correlation_limit_state option) result" where
  "cross_alert sha1 sha256 batch_id collected_at detections host_severity ioc all_risky ls =
     (let risky_hosts = take MAX_RELATED_IDS all_risky;
          ev1 = (if length risky_hosts < length all_risky then mark ''cross_related_asset_ids'' new_limit_state else new_limit_state) in
      rbind (host_severities host_severity risky_hosts) (\<lambda>sevs.
      rbind (max_severity sevs) (\<lambda>worst_host_sev.
        let severity = (if severity_rank worst_host_sev > severity_rank (al_severity ioc) then worst_host_sev else al_severity ioc);
            (vuln_ids, ev2) = vuln_ids_for_hosts detections risky_hosts (severity_rank HIGH) ev1;
            trace_ids = take MAX_RELATED_IDS (al_related_trace_ids ioc);
            ev3 = (if length trace_ids < length (al_related_trace_ids ioc) then mark ''cross_related_trace_ids'' ev2 else ev2);
            truncated = (al_evidence_truncated ioc \<or> cl_truncated ev3);
            ls' = (if truncated then map_option (mark (case cl_reason ev3 of None \<Rightarrow> ''cross_source_evidence'' | Some r \<Rightarrow> r)) ls else ls);
            hosts = join '', '' risky_hosts in
        rbind (new_alert
            (bounded_id sha256 (''alert-cross-'' @ batch_id @ ''-'' @ al_alert_id ioc))
            (alert_key_for sha1 [''cross'', key_or_id ioc, join '','' risky_hosts])
            severity
            (alert_score severity (int (length risky_hosts)))
            (bounded_text (''High-risk host(s) '' @ hosts @ '' with known vuln(s) also matched threat indicator in: '' @ al_title ioc))
            (bounded_text (''Cross-source correlation: host(s) '' @ hosts @ '' have high/critical vulnerability findings (''
               @ or_else vuln_ids ''see store'' @ '') and also appeared in IOC alert '' @ al_alert_id ioc @ '' ('' @ al_description ioc @ '')''))
            risky_hosts vuln_ids trace_ids truncated collected_at)
          (\<lambda>a. Inr (a, ls')))))"

definition cross_source_alerts :: "(string \<Rightarrow> string) \<Rightarrow> (string \<Rightarrow> string) \<Rightarrow> string \<Rightarrow> int \<Rightarrow> alert list \<Rightarrow> detection_result list
    \<Rightarrow> correlation_limit_state option \<Rightarrow> (alert list \<times> correlation_limit_state option) result" where
  "cross_source_alerts sha1 sha256 batch_id collected_at ioc_alerts detections ls =
     (let host_severity = worst_severity_by_host detections in
      compound_loop ''cross_max_alerts'' host_severity
        (cross_alert sha1 sha256 batch_id collected_at detections host_severity) ioc_alerts ls)"

section \<open>Laws of the indexes\<close>

lemma dict_setdefault_lookup: "map_of (dict_setdefault k v d) x = (case map_of d x of None \<Rightarrow> if x = k then Some v else None | Some y \<Rightarrow> Some y)"
  by (auto simp: dict_setdefault_def update_conv' split: option.splits)

lemma fold_setdefault_lookup:
  "map_of (fold (\<lambda>ip. dict_setdefault ip h) ips d) x = (case map_of d x of None \<Rightarrow> if x \<in> set ips then Some h else None | Some y \<Rightarrow> Some y)"
  by (induction ips arbitrary: d) (auto simp: dict_setdefault_lookup split: option.splits)

definition first_owner :: "asset_report_host list \<Rightarrow> string \<Rightarrow> string option" where
  "first_owner reports ip = map_option rh_host_id (find (\<lambda>r. ip \<in> set (rh_ip_addrs r)) reports)"

lemma ip_host_index_lookup: "map_of (ip_host_index reports) ip = first_owner reports ip"
proof -
  have "map_of (fold (\<lambda>r. fold (\<lambda>ip. dict_setdefault ip (rh_host_id r)) (rh_ip_addrs r)) reports d) ip
      = (case map_of d ip of None \<Rightarrow> first_owner reports ip | Some y \<Rightarrow> Some y)" for d
    by (induction reports arbitrary: d) (auto simp: fold_setdefault_lookup first_owner_def split: option.splits)
  then show ?thesis by (simp add: ip_host_index_def)
qed

text \<open>The severities known of a host.\<close>

definition known_severities :: "detection_result list \<Rightarrow> string \<Rightarrow> severity list" where
  "known_severities ds h = concat (map (\<lambda>r. if dr_host_id r = h then map vu_severity (dr_vulnerabilities r) else []) ds)"

definition opt_worst :: "severity option \<Rightarrow> severity list \<Rightarrow> severity option" where
  "opt_worst s ss = fold (\<lambda>x m. case m of None \<Rightarrow> Some x | Some y \<Rightarrow> Some (max y x)) ss s"

lemma note_vuln_lookup: "map_of (note_vuln h v w) x = (if x = h then opt_worst (map_of w x) [vu_severity v] else map_of w x)"
  using worst_max by (auto simp: note_vuln_def update_conv' opt_worst_def max_def less_eq_severity_def split: option.splits)

lemma fold_note_lookup: "map_of (fold (note_vuln h) vs w) x = (if x = h then opt_worst (map_of w x) (map vu_severity vs) else map_of w x)"
  by (induction vs arbitrary: w) (auto simp: note_vuln_lookup opt_worst_def)

lemma worst_lookup: "map_of (worst_severity_by_host ds) h = opt_worst None (known_severities ds h)"
proof -
  have "map_of (fold (\<lambda>r. fold (note_vuln (dr_host_id r)) (dr_vulnerabilities r)) ds w) h = opt_worst (map_of w h) (known_severities ds h)" for w
    by (induction ds arbitrary: w) (auto simp: fold_note_lookup known_severities_def opt_worst_def)
  then show ?thesis by (simp add: worst_severity_by_host_def)
qed

lemma opt_worst_Some: "opt_worst (Some s) ss = Some (fold (\<lambda>x m. max m x) ss s)"
  by (induction ss arbitrary: s) (simp_all add: opt_worst_def)

lemma fold_max_in: "fold (\<lambda>x m. max m x) ss s \<in> insert s (set ss)" for s :: "'a::linorder"
  by (induction ss arbitrary: s) (fastforce simp: max_def)+

lemma fold_max_ge: "x \<in> insert s (set ss) \<Longrightarrow> x \<le> fold (\<lambda>x m. max m x) ss s" for s :: "'a::linorder"
proof (induction ss arbitrary: s x)
  case (Cons y ys)
  show ?case
  proof (cases "x \<in> set ys")
    case False
    then have "x \<le> max s y" using Cons.prems by auto
    also have "\<dots> \<le> fold (\<lambda>x m. max m x) ys (max s y)" by (rule Cons.IH) simp
    finally show ?thesis by simp
  qed (use Cons.IH in simp)
qed simp

lemma opt_worst_spec:
  "opt_worst None ss = None \<longleftrightarrow> ss = []" "opt_worst None ss = Some m \<Longrightarrow> m \<in> set ss \<and> (\<forall>x \<in> set ss. x \<le> m)"
proof -
  have step: "opt_worst None (s # ss) = opt_worst (Some s) ss" for s ss by (simp add: opt_worst_def)
  show "opt_worst None ss = None \<longleftrightarrow> ss = []" by (cases ss) (simp_all only: step opt_worst_Some, simp_all add: opt_worst_def)
  assume m: "opt_worst None ss = Some m"
  show "m \<in> set ss \<and> (\<forall>x \<in> set ss. x \<le> m)"
  proof (cases ss)
    case (Cons s rest)
    then have "m = fold (\<lambda>x m. max m x) rest s" using m by (simp only: step opt_worst_Some) simp
    then show ?thesis using fold_max_in [of rest s] fold_max_ge [of _ s rest] Cons by simp
  qed (use m in \<open>simp add: opt_worst_def\<close>)
qed

text \<open>The collected vulnerability ids: those of the hosts at or above the rank, all of them unless the state says otherwise.\<close>

definition relevant_ids :: "detection_result list \<Rightarrow> string list \<Rightarrow> nat \<Rightarrow> string set" where
  "relevant_ids ds hosts r = {vu_vuln_id v | v d. d \<in> set ds \<and> dr_host_id d \<in> set hosts \<and> v \<in> set (dr_vulnerabilities d) \<and> r \<le> severity_rank (vu_severity v)}"

definition vuln_inv :: "correlation_limit_state \<Rightarrow> string set \<Rightarrow> string list \<times> string list \<times> correlation_limit_state \<Rightarrow> bool" where
  "vuln_inv ls0 S = (\<lambda>(ids, seen, ls). length ids \<le> MAX_RELATED_IDS \<and> set ids \<subseteq> set seen \<and> set seen = S
     \<and> (cl_truncated ls0 \<longrightarrow> cl_truncated ls) \<and> (\<not> cl_truncated ls \<longrightarrow> set ids = S))"

lemma take_vuln_inv:
  "vuln_inv ls0 S s \<Longrightarrow> vuln_inv ls0 (S \<union> (if r \<le> severity_rank (vu_severity v) then {vu_vuln_id v} else {})) (take_vuln r v s)"
  by (auto simp: vuln_inv_def take_vuln_def split: prod.splits)

lemma fold_take_vuln_inv:
  "vuln_inv ls0 S s \<Longrightarrow> vuln_inv ls0 (S \<union> {vu_vuln_id v | v. v \<in> set vs \<and> r \<le> severity_rank (vu_severity v)}) (fold (take_vuln r) vs s)"
proof (induction vs arbitrary: S s)
  case (Cons v vs)
  have "S \<union> (if r \<le> severity_rank (vu_severity v) then {vu_vuln_id v} else {}) \<union> {vu_vuln_id v | v. v \<in> set vs \<and> r \<le> severity_rank (vu_severity v)}
      = S \<union> {vu_vuln_id w | w. w \<in> set (v # vs) \<and> r \<le> severity_rank (vu_severity w)}" by auto
  then show ?case using Cons.IH [OF take_vuln_inv [OF Cons.prems, of r v]] by simp
qed (simp add: vuln_inv_def)

lemma vuln_ids_spec:
  assumes "vuln_ids_for_hosts ds hosts r ls = (ids, ls')"
  shows "set ids \<subseteq> relevant_ids ds hosts r" "length ids \<le> MAX_RELATED_IDS" "cl_truncated ls \<Longrightarrow> cl_truncated ls'"
    "\<not> cl_truncated ls' \<Longrightarrow> set ids = relevant_ids ds hosts r"
proof -
  have gen: "vuln_inv ls0 (S \<union> relevant_ids ds hosts r) (fold (\<lambda>d s. if dr_host_id d \<in> set hosts then fold (take_vuln r) (dr_vulnerabilities d) s else s) ds s)"
    if "vuln_inv ls0 S s" for ls0 S s
    using that
  proof (induction ds arbitrary: S s)
    case (Cons d ds)
    let ?V = "{vu_vuln_id v | v. v \<in> set (dr_vulnerabilities d) \<and> r \<le> severity_rank (vu_severity v)}"
    let ?T = "if dr_host_id d \<in> set hosts then ?V else {}"
    have "vuln_inv ls0 (S \<union> ?T) (if dr_host_id d \<in> set hosts then fold (take_vuln r) (dr_vulnerabilities d) s else s)"
      using fold_take_vuln_inv [OF Cons.prems, of "dr_vulnerabilities d" r] Cons.prems by auto
    moreover have "S \<union> ?T \<union> relevant_ids ds hosts r = S \<union> relevant_ids (d # ds) hosts r" by (auto simp: relevant_ids_def)
    ultimately show ?case using Cons.IH [of "S \<union> ?T"] by simp
  qed (simp add: relevant_ids_def)
  have "vuln_inv ls {} ([], [], ls)" by (simp add: vuln_inv_def)
  from gen [OF this] show "set ids \<subseteq> relevant_ids ds hosts r" "length ids \<le> MAX_RELATED_IDS" "cl_truncated ls \<Longrightarrow> cl_truncated ls'"
    "\<not> cl_truncated ls' \<Longrightarrow> set ids = relevant_ids ds hosts r"
    using assms by (auto simp: vuln_ids_for_hosts_def vuln_inv_def split: prod.splits)
qed

section \<open>The contract of a compound rule\<close>

text \<open>A compound alert is justified by its source alert and the known findings: its hosts are hosts of the source alert with a
  high or critical finding, its severity is the worst of the source and of those hosts, its vulnerability ids are
  high or critical findings of those hosts, and nothing is left out unless the alert says its evidence was truncated.\<close>

definition justified :: "detection_result list \<Rightarrow> alert \<Rightarrow> alert \<Rightarrow> bool" where
  "justified ds src a = (let hs = worst_severity_by_host ds; hosts = al_related_asset_ids a in
     hosts \<noteq> [] \<and> set hosts \<subseteq> set (all_risky_hosts hs src)
     \<and> al_severity src \<le> al_severity a \<and> (\<forall>h \<in> set hosts. \<forall>s \<in> set (known_severities ds h). s \<le> al_severity a)
     \<and> (al_severity a = al_severity src \<or> (\<exists>h \<in> set hosts. al_severity a \<in> set (known_severities ds h)))
     \<and> set (al_related_vuln_ids a) \<subseteq> relevant_ids ds hosts (severity_rank HIGH)
     \<and> (\<not> al_evidence_truncated a \<longrightarrow> set hosts = set (all_risky_hosts hs src)
          \<and> set (al_related_vuln_ids a) = relevant_ids ds hosts (severity_rank HIGH)))"

lemma all_risky_iff: "h \<in> set (all_risky_hosts hs a) \<longleftrightarrow> h \<in> set (al_related_asset_ids a) \<and> high_risk (map_of hs h)"
  by (auto simp: all_risky_hosts_def)

lemma rfold_append: "rfold f (xs @ ys) s = rbind (rfold f xs s) (rfold f ys)"
proof (induction xs arbitrary: s)
  case (Cons x xs)
  then show ?case by (cases "f x s") simp_all
qed simp

locale compound_rule =
  fixes ds :: "detection_result list" and src_ok :: "alert \<Rightarrow> bool"
    and build :: "alert \<Rightarrow> string list \<Rightarrow> correlation_limit_state option \<Rightarrow> (alert \<times> correlation_limit_state option) result"
  assumes build_ok: "src_ok src \<Longrightarrow> all_risky_hosts (worst_severity_by_host ds) src \<noteq> []
      \<Longrightarrow> \<exists>a ls'. build src (all_risky_hosts (worst_severity_by_host ds) src) ls = Inr (a, ls') \<and> justified ds src a
            \<and> (\<forall>l. ls = Some l \<and> cl_truncated l \<longrightarrow> (\<exists>l'. ls' = Some l' \<and> cl_truncated l')) \<and> (ls = None \<longleftrightarrow> ls' = None)"
begin

text \<open>The loop never fails and makes one justified alert for each source alert with a risky host, in order, up to the
  limit; leaving one out is noted in the caller's limit state.\<close>

lemma loop_justified:
  assumes "list_all src_ok srcs"
  shows "\<exists>extras ls'. compound_loop reason (worst_severity_by_host ds) build srcs ls = Inr (extras, ls')
    \<and> list_all2 (justified ds) (take MAX_ALERTS_PER_INGEST (filter (\<lambda>s. all_risky_hosts (worst_severity_by_host ds) s \<noteq> []) srcs)) extras
    \<and> (ls = None \<longleftrightarrow> ls' = None)
    \<and> (MAX_ALERTS_PER_INGEST < length (filter (\<lambda>s. all_risky_hosts (worst_severity_by_host ds) s \<noteq> []) srcs)
         \<longrightarrow> (\<forall>l'. ls' = Some l' \<longrightarrow> cl_truncated l'))"
  using assms
proof (induction srcs rule: rev_induct)
  case Nil
  then show ?case by (simp add: compound_loop_def)
next
  case (snoc src srcs)
  let ?hs = "worst_severity_by_host ds" and ?N = MAX_ALERTS_PER_INGEST
  let ?F = "\<lambda>xs. filter (\<lambda>s. all_risky_hosts ?hs s \<noteq> []) xs"
  obtain extras ls1 where IH: "compound_loop reason ?hs build srcs ls = Inr (extras, ls1)"
    "list_all2 (justified ds) (take ?N (?F srcs)) extras" "ls = None \<longleftrightarrow> ls1 = None"
    "?N < length (?F srcs) \<longrightarrow> (\<forall>l'. ls1 = Some l' \<longrightarrow> cl_truncated l')"
    using snoc by auto
  have len: "length extras = min ?N (length (?F srcs))" using list_all2_lengthD [OF IH(2)] by simp
  have step: "compound_loop reason ?hs build (srcs @ [src]) ls = compound_step reason ?hs build src (extras, ls1)"
    using IH(1) by (cases "compound_step reason ?hs build src (extras, ls1)") (simp_all add: compound_loop_def rfold_append)
  show ?case
  proof (cases "all_risky_hosts ?hs src = []")
    case True
    then show ?thesis using IH by (auto simp: step compound_step_def)
  next
    case risky: False
    show ?thesis
    proof (cases "?N \<le> length extras")
      case True
      then have "?N \<le> length (?F srcs)" using len by simp
      then show ?thesis using IH risky True by (auto simp: step compound_step_def)
    next
      case False
      obtain a ls' where b: "build src (all_risky_hosts ?hs src) ls1 = Inr (a, ls')" "justified ds src a" "ls1 = None \<longleftrightarrow> ls' = None"
        using build_ok [OF _ risky, of ls1] snoc.prems by auto
      have "length (?F srcs) < ?N" using False len by simp
      then show ?thesis using IH(2,3) risky False b
        by (auto simp: step compound_step_def list_all2_append intro: list_all2_appendI)
    qed
  qed
qed

end

section \<open>The cross-source rule\<close>

definition source_ok :: "alert \<Rightarrow> bool" where
  "source_ok a = (list_all ident (al_related_asset_ids a) \<and> list_all ident (al_related_trace_ids a))"

definition detections_ok :: "detection_result list \<Rightarrow> bool" where
  "detections_ok ds = list_all (\<lambda>d. list_all (\<lambda>v. ident (vu_vuln_id v)) (dr_vulnerabilities d)) ds"

lemma relevant_ident: "detections_ok ds \<Longrightarrow> x \<in> relevant_ids ds hosts r \<Longrightarrow> ident x"
  by (auto simp: detections_ok_def relevant_ids_def list_all_iff)

lemma host_severities_ok:
  assumes "set hosts \<subseteq> set (all_risky_hosts (worst_severity_by_host ds) src)" "hosts \<noteq> []"
  shows "\<exists>sevs m. host_severities (worst_severity_by_host ds) hosts = Inr sevs \<and> max_severity sevs = Inr m
    \<and> (\<forall>h \<in> set hosts. \<forall>s \<in> set (known_severities ds h). s \<le> m) \<and> (\<exists>h \<in> set hosts. m \<in> set (known_severities ds h))"
proof -
  let ?hs = "worst_severity_by_host ds"
  have some: "\<exists>s. map_of ?hs h = Some s" if "h \<in> set hosts" for h
    using that assms(1) by (auto simp: all_risky_iff high_risk_def subset_eq)
  define sevs where "sevs = map (\<lambda>h. the (map_of ?hs h)) hosts"
  have hs: "host_severities ?hs hosts = Inr sevs"
    unfolding host_severities_def sevs_def using some by (intro rmap_list_Inr) fastforce
  obtain s rest where sr: "sevs = s # rest" using assms(2) by (cases sevs) (auto simp: sevs_def)
  define m where "m = fold (\<lambda>x m. max m x) rest s"
  have m: "max_severity sevs = Inr m" by (simp add: max_severity_def sr m_def worst_max)
  have "m \<in> set sevs" using fold_max_in [of rest s] by (simp add: sr m_def)
  then obtain h where h: "h \<in> set hosts" "m = the (map_of ?hs h)" by (auto simp: sevs_def)
  have up: "x \<le> m" if hx: "h \<in> set hosts" "x \<in> set (known_severities ds h)" for h x
  proof -
    obtain y where y: "map_of ?hs h = Some y" using some hx(1) by blast
    have "x \<le> y" using opt_worst_spec(2) [of "known_severities ds h" y] y hx(2) by (simp add: worst_lookup)
    moreover have "y \<in> set sevs" using y hx(1) by (force simp: sevs_def)
    then have "y \<le> m" using fold_max_ge [of y s rest] by (simp add: sr m_def)
    ultimately show ?thesis by simp
  qed
  have "m \<in> set (known_severities ds h)"
    using some [OF h(1)] h(2) opt_worst_spec(2) [of "known_severities ds h" m] by (auto simp: worst_lookup)
  then show ?thesis using hs m up h(1) by blast
qed

text \<open>What both rules compute before they build the alert.\<close>

lemma compound_justified:
  assumes "al_related_asset_ids a = hosts" "hosts = take MAX_RELATED_IDS (all_risky_hosts (worst_severity_by_host ds) src)"
    "all_risky_hosts (worst_severity_by_host ds) src \<noteq> []" "al_severity a = max (al_severity src) m"
    "\<forall>h \<in> set hosts. \<forall>s \<in> set (known_severities ds h). s \<le> m" "\<exists>h \<in> set hosts. m \<in> set (known_severities ds h)"
    "vuln_ids_for_hosts ds hosts (severity_rank HIGH) ev = (al_related_vuln_ids a, ev')"
    "\<not> al_evidence_truncated a \<Longrightarrow> \<not> cl_truncated ev' \<and> length (all_risky_hosts (worst_severity_by_host ds) src) \<le> MAX_RELATED_IDS"
  shows "justified ds src a"
proof -
  note v = vuln_ids_spec [OF assms(7)]
  have "hosts \<noteq> []" using assms(2,3) by (simp add: MAX_RELATED_IDS_def)
  moreover have "set hosts \<subseteq> set (all_risky_hosts (worst_severity_by_host ds) src)" using assms(2) by (auto dest: in_set_takeD)
  moreover have "al_severity a = al_severity src \<or> al_severity a = m" using assms(4) by (auto simp: max_def)
  moreover have "set hosts = set (all_risky_hosts (worst_severity_by_host ds) src) \<and> set (al_related_vuln_ids a) = relevant_ids ds hosts (severity_rank HIGH)"
    if "\<not> al_evidence_truncated a" using assms(2) assms(8) [OF that] v(4) by simp
  moreover have "s \<le> al_severity a" if "h \<in> set hosts" "s \<in> set (known_severities ds h)" for h s
    using that assms(4,5) by (metis max.coboundedI2)
  ultimately show ?thesis using assms(1,4,6) v(1) by (auto simp: justified_def Let_def)
qed

lemma rbind_pair_ex:
  "\<exists>a. m = Inr a \<and> Q a \<Longrightarrow> R L \<Longrightarrow> \<exists>a l. rbind m (\<lambda>a. Inr (a, L)) = Inr (a, l) \<and> Q a \<and> R l"
  by auto

lemma risky_ident: "source_ok src \<Longrightarrow> list_all ident (take n (all_risky_hosts hs src))"
  by (auto simp: source_ok_def list_all_iff all_risky_iff dest!: in_set_takeD)

lemma cross_alert_ok:
  assumes "hex_digest 64 sha256" "hex_digest 40 sha1" "detections_ok ds" "source_ok src" "all_risky_hosts (worst_severity_by_host ds) src \<noteq> []"
  shows "\<exists>a ls'. cross_alert sha1 sha256 bid ts ds (worst_severity_by_host ds) src (all_risky_hosts (worst_severity_by_host ds) src) ls = Inr (a, ls')
    \<and> justified ds src a \<and> (\<forall>l. ls = Some l \<and> cl_truncated l \<longrightarrow> (\<exists>l'. ls' = Some l' \<and> cl_truncated l')) \<and> (ls = None \<longleftrightarrow> ls' = None)"
proof -
  let ?hs = "worst_severity_by_host ds" and ?all = "all_risky_hosts (worst_severity_by_host ds) src"
  define hosts where "hosts = take MAX_RELATED_IDS ?all"
  have hne: "hosts \<noteq> []" using assms(5) by (simp add: hosts_def MAX_RELATED_IDS_def)
  have hsub: "set hosts \<subseteq> set ?all" by (auto simp: hosts_def dest: in_set_takeD)
  obtain sevs m where m: "host_severities ?hs hosts = Inr sevs" "max_severity sevs = Inr m"
    "\<forall>h \<in> set hosts. \<forall>s \<in> set (known_severities ds h). s \<le> m" "\<exists>h \<in> set hosts. m \<in> set (known_severities ds h)"
    using host_severities_ok [OF hsub hne] by blast
  define ev1 where "ev1 = (if length hosts < length ?all then mark ''cross_related_asset_ids'' new_limit_state else new_limit_state)"
  obtain vids ev2 where v: "vuln_ids_for_hosts ds hosts (severity_rank HIGH) ev1 = (vids, ev2)" by fastforce
  note vs = vuln_ids_spec [OF v]
  define ev3 where "ev3 = (if length (take MAX_RELATED_IDS (al_related_trace_ids src)) < length (al_related_trace_ids src)
     then mark ''cross_related_trace_ids'' ev2 else ev2)"
  have sev: "(if severity_rank m > severity_rank (al_severity src) then m else al_severity src) = max (al_severity src) m"
    using worst_max [of "al_severity src" m] by (simp add: worst_def)
  have vid: "list_all ident vids" using vs(1) relevant_ident [OF assms(3)] by (auto simp: list_all_iff)
  have trid: "list_all ident (take MAX_RELATED_IDS (al_related_trace_ids src))"
    using assms(4) by (auto simp: source_ok_def list_all_iff dest: in_set_takeD)
  have just: "justified ds src a" if "al_related_asset_ids a = hosts" "al_severity a = max (al_severity src) m" "al_related_vuln_ids a = vids"
      "al_evidence_truncated a = (al_evidence_truncated src \<or> cl_truncated ev3)" for a
  proof (rule compound_justified [OF that(1) hosts_def assms(5) that(2) m(3,4)])
    show "vuln_ids_for_hosts ds hosts (severity_rank HIGH) ev1 = (al_related_vuln_ids a, ev2)" using v that(3) by simp
    assume "\<not> al_evidence_truncated a"
    then have "\<not> cl_truncated ev2" using that(4) by (auto simp: ev3_def split: if_splits)
    moreover from this have "\<not> cl_truncated ev1" using vs(3) by blast
    ultimately show "\<not> cl_truncated ev2 \<and> length ?all \<le> MAX_RELATED_IDS" by (auto simp: ev1_def hosts_def split: if_splits)
  qed
  have na: "\<exists>a. new_alert (bounded_id sha256 i) (alert_key_for sha1 parts) (max (al_severity src) m) (alert_score (max (al_severity src) m) (int (length hosts)))
      (bounded_text t) (bounded_text d) hosts vids (take MAX_RELATED_IDS (al_related_trace_ids src)) (al_evidence_truncated src \<or> cl_truncated ev3) ts = Inr a
      \<and> justified ds src a" for i parts t d
    by (rule new_alert_ex [OF assms(1,2) score_range _ vid trid])
      (use just vs(2) risky_ident [OF assms(4)] in \<open>simp_all add: hosts_def\<close>)
  show ?thesis
    unfolding cross_alert_def Let_def hosts_def [symmetric] ev1_def [symmetric] m(1,2) v rbind_simps prod.case ev3_def [symmetric] sev
    by (intro rbind_pair_ex na) auto
qed

text \<open>The digests and the findings are as the rule needs them; together with the source alert this is the precondition
  of one build.\<close>

definition compound_ready :: "(string \<Rightarrow> string) \<Rightarrow> (string \<Rightarrow> string) \<Rightarrow> detection_result list \<Rightarrow> alert \<Rightarrow> bool" where
  "compound_ready sha1 sha256 ds src = (hex_digest 64 sha256 \<and> hex_digest 40 sha1 \<and> detections_ok ds \<and> source_ok src)"

interpretation cross_rule: compound_rule ds "compound_ready sha1 sha256 ds" "cross_alert sha1 sha256 bid ts ds (worst_severity_by_host ds)"
  for sha1 sha256 bid ts ds
  by unfold_locales (unfold compound_ready_def, elim conjE, rule cross_alert_ok)

end
