(* ===== verification/Correlate_Guard.thy ===== *)
theory Correlate_Guard
  imports Correlate_Cross
begin

text \<open>
  Guard events become alerts, \<open>analyzer/correlate/guard.py\<close>: one rule per event kind (file integrity, process behaviour, network
  indicator, malware, IDS), each an instance of the bounded aggregation, and the compound rule for hosts with high or
  critical findings. The event classes of \<open>analyzer/schemas/guard_event.py\<close> are records that extend a common base, with the
  fields the rules read; a batch is a list of the tagged union.
\<close>

section \<open>Events\<close>

datatype action_taken = ActNone | ActLogged | ActQuarantined | ActBlockedOpen | ActBlockedConnection | ActKilled | ActSuspended

fun action_value :: "action_taken \<Rightarrow> string" where
  "action_value ActNone = ''none''"
| "action_value ActLogged = ''logged''"
| "action_value ActQuarantined = ''quarantined''"
| "action_value ActBlockedOpen = ''blocked_open''"
| "action_value ActBlockedConnection = ''blocked_connection''"
| "action_value ActKilled = ''killed''"
| "action_value ActSuspended = ''suspended''"

datatype fim_change = FimCreated | FimModified | FimDeleted | FimMetadata

fun fim_value :: "fim_change \<Rightarrow> string" where
  "fim_value FimCreated = ''created''"
| "fim_value FimModified = ''modified''"
| "fim_value FimDeleted = ''deleted''"
| "fim_value FimMetadata = ''metadata''"

record guard_event_base =
  ge_severity :: severity
  ge_host_id :: string
  ge_action_taken :: action_taken

record file_integrity_event = guard_event_base +
  fe_path :: string
  fe_change_type :: fim_change

record malware_event = guard_event_base +
  me_path :: string
  me_signature :: string
  me_source :: string

record process_event = guard_event_base +
  pe_pid :: int
  pe_process_name :: string
  pe_behavior :: string
  pe_rule_id :: string
  pe_evidence :: "string option"

record network_event = guard_event_base +
  ne_indicator :: string
  ne_indicator_type :: indicator_type
  ne_category :: string
  ne_source :: string

record ids_event = guard_event_base +
  ie_signature_id :: string
  ie_signature_name :: string

datatype guard_event =
    FileIntegrityEvent file_integrity_event
  | MalwareEvent malware_event
  | ProcessEvent process_event
  | NetworkEvent network_event
  | IdsEvent ids_event

record guard_event_batch =
  gb_batch_id :: string
  gb_collected_at :: int
  gb_events :: "guard_event list"

section \<open>Groups\<close>

text \<open>\<open>group["truncated"] = bool(group.get("truncated")) or append_unique_bounded(...)\<close>: once a group is truncated the right-hand side is
  not evaluated, so nothing more is appended to any of its lists.\<close>

definition append_group :: "string \<Rightarrow> nat \<Rightarrow> string list \<times> bool \<Rightarrow> string list \<times> bool" where
  "append_group v limit = (\<lambda>(items, truncated). if truncated then (items, True) else append_unique_bounded items v limit)"

record fim_group =
  fg_sev :: severity
  fg_acts :: "string list"
  fg_n :: nat
  fg_truncated :: bool

record process_group =
  pg_sev :: severity
  pg_behaviors :: "string list"
  pg_evidence :: "string list"
  pg_pids :: "string list"
  pg_n :: nat
  pg_truncated :: bool

record network_group =
  ng_sev :: severity
  ng_cats :: "string list"
  ng_srcs :: "string list"
  ng_hosts :: "string list"
  ng_acts :: "string list"
  ng_n :: nat
  ng_truncated :: bool

record malware_group =
  mg_sev :: severity
  mg_paths :: "string list"
  mg_srcs :: "string list"
  mg_acts :: "string list"
  mg_n :: nat
  mg_truncated :: bool

record ids_group =
  ig_sev :: severity
  ig_name :: string
  ig_n :: nat

definition action_note :: "string list \<Rightarrow> string" where
  "action_note acts = (if acts \<noteq> [] then '' Endpoint action(s): '' @ join '', '' acts @ ''.'' else [])"

section \<open>File integrity\<close>

fun as_fim :: "guard_event \<Rightarrow> file_integrity_event option" where
  "as_fim (FileIntegrityEvent e) = Some e"
| "as_fim _ = None"

definition fim_key :: "file_integrity_event \<Rightarrow> string \<times> string \<times> string" where
  "fim_key e = (ge_host_id e, fe_path e, fim_value (fe_change_type e))"

definition fim_init :: "file_integrity_event \<Rightarrow> fim_group" where
  "fim_init e = \<lparr>fg_sev = INFO, fg_acts = [], fg_n = 0, fg_truncated = False\<rparr>"

definition fim_upd :: "file_integrity_event \<Rightarrow> fim_group \<Rightarrow> fim_group" where
  "fim_upd e g =
     (let g1 = g\<lparr>fg_sev := worst (fg_sev g) (ge_severity e)\<rparr>;
          g2 = (if action_value (ge_action_taken e) \<noteq> ''none'' then
                  let (acts, tr) = append_group (action_value (ge_action_taken e)) MAX_GROUP_LABELS (fg_acts g1, fg_truncated g1) in
                  g1\<lparr>fg_acts := acts, fg_truncated := tr\<rparr>
                else g1) in
      g2\<lparr>fg_n := fg_n g2 + 1\<rparr>)"

text \<open>The loop shared by the five rules: skip the events of other kinds, group the rest.\<close>

definition select_groups :: "(guard_event \<Rightarrow> 'e option) \<Rightarrow> string \<Rightarrow> ('e \<Rightarrow> 'k) \<Rightarrow> ('e \<Rightarrow> 'g) \<Rightarrow> ('e \<Rightarrow> 'g \<Rightarrow> 'g) \<Rightarrow> guard_event list
    \<Rightarrow> correlation_limit_state option \<Rightarrow> ('k \<times> 'g) list \<times> correlation_limit_state option" where
  "select_groups sel reason key init upd events ls =
     fold (\<lambda>ev s. case sel ev of None \<Rightarrow> s | Some e \<Rightarrow> group_step reason key init upd e s) events ([], ls)"

definition fim_alert :: "(string \<Rightarrow> string) \<Rightarrow> (string \<Rightarrow> string) \<Rightarrow> guard_event_batch \<Rightarrow> (string \<times> string \<times> string) \<times> fim_group \<Rightarrow> alert result" where
  "fim_alert sha1 sha256 batch = (\<lambda>((host_id, path, change_type), g).
     new_alert
       (bounded_id sha256 (''alert-guard-fim-'' @ gb_batch_id batch @ ''-'' @ host_id @ ''-'' @ change_type @ ''-'' @ path))
       (alert_key_for sha1 [''guard-fim'', host_id, change_type, path])
       (fg_sev g) (alert_score (fg_sev g) 1)
       (bounded_text (''File integrity '' @ change_type @ '': '' @ path @ '' on '' @ host_id))
       (bounded_text (''agent-respond observed '' @ nat_str (fg_n g) @ '' '' @ change_type @ '' event(s) for '' @ path @ '' on host ''
          @ host_id @ ''.'' @ action_note (fg_acts g)))
       [host_id] [] [] (fg_truncated g) (gb_collected_at batch))"

definition fim_alerts where
  "fim_alerts sha1 sha256 batch ls =
     (let (groups, ls') = select_groups as_fim ''guard_fim_max_alerts'' fim_key fim_init fim_upd (gb_events batch) ls in
      rbind (rmap_list (fim_alert sha1 sha256 batch) groups) (\<lambda>out. Inr (out, ls')))"

section \<open>Process behaviour\<close>

fun as_process :: "guard_event \<Rightarrow> process_event option" where
  "as_process (ProcessEvent e) = Some e"
| "as_process _ = None"

definition process_key :: "process_event \<Rightarrow> string \<times> string \<times> string" where
  "process_key e = (ge_host_id e, pe_rule_id e, pe_process_name e)"

definition process_init :: "process_event \<Rightarrow> process_group" where
  "process_init e = \<lparr>pg_sev = INFO, pg_behaviors = [], pg_evidence = [], pg_pids = [], pg_n = 0, pg_truncated = False\<rparr>"

definition process_upd :: "process_event \<Rightarrow> process_group \<Rightarrow> process_group" where
  "process_upd e g =
     (let (bs, t1) = append_group (pe_behavior e) MAX_GROUP_LABELS (pg_behaviors g, pg_truncated g);
          (pids, t2) = append_group (int_str (pe_pid e)) MAX_GROUP_LABELS (pg_pids g, t1);
          (evs, t3) = (case pe_evidence e of None \<Rightarrow> (pg_evidence g, t2)
             | Some x \<Rightarrow> if x = [] then (pg_evidence g, t2) else append_group x MAX_GROUP_LABELS (pg_evidence g, t2)) in
      g\<lparr>pg_sev := worst (pg_sev g) (ge_severity e), pg_behaviors := bs, pg_pids := pids, pg_evidence := evs,
        pg_n := pg_n g + 1, pg_truncated := t3\<rparr>)"

definition process_alert :: "(string \<Rightarrow> string) \<Rightarrow> (string \<Rightarrow> string) \<Rightarrow> guard_event_batch \<Rightarrow> (string \<times> string \<times> string) \<times> process_group \<Rightarrow> alert result" where
  "process_alert sha1 sha256 batch = (\<lambda>((host_id, rule_id, process_name), g).
     let evidence_note = (if pg_evidence g \<noteq> [] then '' Evidence: '' @ join '', '' (pg_evidence g) @ ''.'' else []) in
     new_alert
       (bounded_id sha256 (''alert-guard-process-'' @ gb_batch_id batch @ ''-'' @ host_id @ ''-'' @ rule_id @ ''-'' @ process_name))
       (alert_key_for sha1 [''guard-process'', host_id, rule_id, process_name])
       (pg_sev g) (alert_score (pg_sev g) 1)
       (bounded_text (''Process behavior rule '' @ rule_id @ '' fired for '' @ process_name @ '' on '' @ host_id))
       (bounded_text (''agent-respond observed '' @ nat_str (pg_n g) @ '' process event(s) for '' @ process_name @ '' (PID(s) ''
          @ join '', '' (pg_pids g) @ '') on host '' @ host_id @ ''; behavior(s): '' @ join '', '' (pg_behaviors g) @ ''.'' @ evidence_note))
       [host_id] [] [] (pg_truncated g) (gb_collected_at batch))"

definition process_alerts where
  "process_alerts sha1 sha256 batch ls =
     (let (groups, ls') = select_groups as_process ''guard_process_max_alerts'' process_key process_init process_upd (gb_events batch) ls in
      rbind (rmap_list (process_alert sha1 sha256 batch) groups) (\<lambda>out. Inr (out, ls')))"

section \<open>Network indicators\<close>

fun as_network :: "guard_event \<Rightarrow> network_event option" where
  "as_network (NetworkEvent e) = Some e"
| "as_network _ = None"

definition network_key :: "network_event \<Rightarrow> indicator_type \<times> string" where
  "network_key e = (ne_indicator_type e, ne_indicator e)"

definition network_init :: "network_event \<Rightarrow> network_group" where
  "network_init e = \<lparr>ng_sev = INFO, ng_cats = [], ng_srcs = [], ng_hosts = [], ng_acts = [], ng_n = 0, ng_truncated = False\<rparr>"

definition network_upd :: "network_event \<Rightarrow> network_group \<Rightarrow> network_group" where
  "network_upd e g =
     (let (cats, t1) = append_group (ne_category e) MAX_GROUP_LABELS (ng_cats g, ng_truncated g);
          (srcs, t2) = append_group (ne_source e) MAX_GROUP_LABELS (ng_srcs g, t1);
          (hosts, t3) = append_group (ge_host_id e) MAX_RELATED_IDS (ng_hosts g, t2);
          (acts, t4) = (if action_value (ge_action_taken e) \<noteq> ''none''
             then append_group (action_value (ge_action_taken e)) MAX_GROUP_LABELS (ng_acts g, t3) else (ng_acts g, t3)) in
      g\<lparr>ng_sev := worst (ng_sev g) (ge_severity e), ng_cats := cats, ng_srcs := srcs, ng_hosts := hosts, ng_acts := acts,
        ng_n := ng_n g + 1, ng_truncated := t4\<rparr>)"

definition network_alert :: "(string \<Rightarrow> string) \<Rightarrow> (string \<Rightarrow> string) \<Rightarrow> guard_event_batch \<Rightarrow> (indicator_type \<times> string) \<times> network_group \<Rightarrow> alert result" where
  "network_alert sha1 sha256 batch = (\<lambda>((itype, indicator), g).
     let cats = join ''/'' (ng_cats g) in
     new_alert
       (bounded_id sha256 (''alert-guard-net-'' @ gb_batch_id batch @ ''-'' @ indicator_value itype @ ''-'' @ indicator))
       (alert_key_for sha1 [''ioc'', indicator_value itype, indicator])
       (ng_sev g) (alert_score (ng_sev g) (int (length (ng_hosts g))))
       (bounded_text (nat_str (ng_n g) @ '' live connection(s) matched threat indicator '' @ indicator @ '' ('' @ cats @ '')''))
       (bounded_text (''agent-respond observed '' @ nat_str (ng_n g) @ '' live connection(s) to indicator '' @ indicator @ '' (''
          @ indicator_value itype @ '', '' @ cats @ '') on host(s) '' @ join '', '' (ng_hosts g) @ '' per feed(s): ''
          @ join '', '' (ng_srcs g) @ ''.'' @ action_note (ng_acts g)))
       (ng_hosts g) [] [] (ng_truncated g) (gb_collected_at batch))"

definition network_alerts where
  "network_alerts sha1 sha256 batch ls =
     (let (groups, ls') = select_groups as_network ''guard_network_max_alerts'' network_key network_init network_upd (gb_events batch) ls in
      rbind (rmap_list (network_alert sha1 sha256 batch) groups) (\<lambda>out. Inr (out, ls')))"

section \<open>Malware\<close>

fun as_malware :: "guard_event \<Rightarrow> malware_event option" where
  "as_malware (MalwareEvent e) = Some e"
| "as_malware _ = None"

definition malware_key :: "malware_event \<Rightarrow> string \<times> string" where
  "malware_key e = (me_signature e, ge_host_id e)"

definition malware_init :: "malware_event \<Rightarrow> malware_group" where
  "malware_init e = \<lparr>mg_sev = INFO, mg_paths = [], mg_srcs = [], mg_acts = [], mg_n = 0, mg_truncated = False\<rparr>"

definition malware_upd :: "malware_event \<Rightarrow> malware_group \<Rightarrow> malware_group" where
  "malware_upd e g =
     (let (paths, t1) = append_group (me_path e) MAX_GROUP_LABELS (mg_paths g, mg_truncated g);
          (srcs, t2) = append_group (me_source e) MAX_GROUP_LABELS (mg_srcs g, t1);
          (acts, t3) = (if action_value (ge_action_taken e) \<noteq> ''none''
             then append_group (action_value (ge_action_taken e)) MAX_GROUP_LABELS (mg_acts g, t2) else (mg_acts g, t2)) in
      g\<lparr>mg_sev := worst (mg_sev g) (ge_severity e), mg_paths := paths, mg_srcs := srcs, mg_acts := acts,
        mg_n := mg_n g + 1, mg_truncated := t3\<rparr>)"

definition malware_alert :: "(string \<Rightarrow> string) \<Rightarrow> (string \<Rightarrow> string) \<Rightarrow> guard_event_batch \<Rightarrow> (string \<times> string) \<times> malware_group \<Rightarrow> alert result" where
  "malware_alert sha1 sha256 batch = (\<lambda>((signature, host_id), g).
     new_alert
       (bounded_id sha256 (''alert-guard-mal-'' @ gb_batch_id batch @ ''-'' @ host_id @ ''-'' @ signature))
       (alert_key_for sha1 [''guard-malware'', signature, host_id])
       (mg_sev g) (alert_score (mg_sev g) 1)
       (bounded_text (''Malware signature '' @ signature @ '' detected on '' @ host_id @ '' ('' @ nat_str (mg_n g) @ '' hit(s))''))
       (bounded_text (''agent-respond on-access scan flagged '' @ nat_str (mg_n g) @ '' file(s) as '' @ signature @ '' on host '' @ host_id
          @ '': '' @ join '', '' (mg_paths g) @ '' (scanner: '' @ join '', '' (mg_srcs g) @ '').'' @ action_note (mg_acts g)))
       [host_id] [] [] (mg_truncated g) (gb_collected_at batch))"

definition malware_alerts where
  "malware_alerts sha1 sha256 batch ls =
     (let (groups, ls') = select_groups as_malware ''guard_malware_max_alerts'' malware_key malware_init malware_upd (gb_events batch) ls in
      rbind (rmap_list (malware_alert sha1 sha256 batch) groups) (\<lambda>out. Inr (out, ls')))"

section \<open>IDS signatures\<close>

fun as_ids :: "guard_event \<Rightarrow> ids_event option" where
  "as_ids (IdsEvent e) = Some e"
| "as_ids _ = None"

definition ids_key :: "ids_event \<Rightarrow> string \<times> string" where
  "ids_key e = (ie_signature_id e, ge_host_id e)"

definition ids_init :: "ids_event \<Rightarrow> ids_group" where
  "ids_init e = \<lparr>ig_sev = INFO, ig_name = ie_signature_name e, ig_n = 0\<rparr>"

definition ids_upd :: "ids_event \<Rightarrow> ids_group \<Rightarrow> ids_group" where
  "ids_upd e g = g\<lparr>ig_sev := worst (ig_sev g) (ge_severity e), ig_n := ig_n g + 1\<rparr>"

definition ids_alert :: "(string \<Rightarrow> string) \<Rightarrow> (string \<Rightarrow> string) \<Rightarrow> guard_event_batch \<Rightarrow> (string \<times> string) \<times> ids_group \<Rightarrow> alert result" where
  "ids_alert sha1 sha256 batch = (\<lambda>((signature_id, host_id), g).
     new_alert
       (bounded_id sha256 (''alert-guard-ids-'' @ gb_batch_id batch @ ''-'' @ host_id @ ''-'' @ signature_id))
       (alert_key_for sha1 [''guard-ids'', signature_id, host_id])
       (ig_sev g) (alert_score (ig_sev g) 1)
       (bounded_text (''IDS signature '' @ ig_name g @ '' ('' @ signature_id @ '') fired on '' @ host_id))
       (bounded_text (''agent-respond IDS matched signature '' @ ig_name g @ '' ('' @ signature_id @ '') '' @ nat_str (ig_n g)
          @ '' time(s) on host '' @ host_id @ ''.''))
       [host_id] [] [] False (gb_collected_at batch))"

definition ids_alerts where
  "ids_alerts sha1 sha256 batch ls =
     (let (groups, ls') = select_groups as_ids ''guard_ids_max_alerts'' ids_key ids_init ids_upd (gb_events batch) ls in
      rbind (rmap_list (ids_alert sha1 sha256 batch) groups) (\<lambda>out. Inr (out, ls')))"

section \<open>The batch\<close>

definition correlate_guard_batch :: "(string \<Rightarrow> string) \<Rightarrow> (string \<Rightarrow> string) \<Rightarrow> guard_event_batch \<Rightarrow> correlation_limit_state option
    \<Rightarrow> (alert list \<times> correlation_limit_state option) result" where
  "correlate_guard_batch sha1 sha256 batch ls =
     rbind (fim_alerts sha1 sha256 batch ls) (\<lambda>(a1, l1).
     rbind (process_alerts sha1 sha256 batch l1) (\<lambda>(a2, l2).
     rbind (network_alerts sha1 sha256 batch l2) (\<lambda>(a3, l3).
     rbind (malware_alerts sha1 sha256 batch l3) (\<lambda>(a4, l4).
     rbind (ids_alerts sha1 sha256 batch l4) (\<lambda>(a5, l5).
       let alerts = a1 @ a2 @ a3 @ a4 @ a5 in
       Inr (take MAX_ALERTS_PER_INGEST alerts,
            if MAX_ALERTS_PER_INGEST < length alerts then map_option (mark ''guard_max_alerts'') l5 else l5))))))"

section \<open>Compound alerts\<close>

definition guard_compound_alert :: "(string \<Rightarrow> string) \<Rightarrow> (string \<Rightarrow> string) \<Rightarrow> string \<Rightarrow> int \<Rightarrow> detection_result list \<Rightarrow> (string \<times> severity) list
    \<Rightarrow> alert \<Rightarrow> string list \<Rightarrow> correlation_limit_state option \<Rightarrow> (alert \<times> correlation_limit_state option) result" where
  "guard_compound_alert sha1 sha256 batch_id collected_at detections host_severity guard all_risky ls =
     (let risky_hosts = take MAX_RELATED_IDS all_risky;
          ev1 = (if length risky_hosts < length all_risky then mark ''guard_cross_related_asset_ids'' new_limit_state else new_limit_state) in
      rbind (host_severities host_severity risky_hosts) (\<lambda>sevs.
      rbind (max_severity sevs) (\<lambda>worst_host_sev.
        let severity = worst (al_severity guard) worst_host_sev;
            (vuln_ids, ev2) = vuln_ids_for_hosts detections risky_hosts (severity_rank HIGH) ev1;
            truncated = (al_evidence_truncated guard \<or> cl_truncated ev2);
            ls' = (if truncated then map_option (mark (case cl_reason ev2 of None \<Rightarrow> ''guard_cross_source_evidence'' | Some r \<Rightarrow> r)) ls else ls);
            hosts = join '', '' risky_hosts in
        rbind (new_alert
            (bounded_id sha256 (''alert-guard-cross-'' @ batch_id @ ''-'' @ al_alert_id guard))
            (alert_key_for sha1 [''cross-guard'', key_or_id guard, join '','' risky_hosts])
            severity
            (alert_score severity (int (length risky_hosts)))
            (bounded_text (''High-risk host(s) '' @ hosts @ '' with known vuln(s) also hit by guard detection: '' @ al_title guard))
            (bounded_text (''Cross-source correlation: host(s) '' @ hosts @ '' have high/critical vulnerability findings (''
               @ or_else vuln_ids ''see store'' @ '') and also produced guard alert '' @ al_alert_id guard @ '' ('' @ al_description guard @ '')''))
            risky_hosts vuln_ids [] truncated collected_at)
          (\<lambda>a. Inr (a, ls')))))"

definition guard_compound_alerts :: "(string \<Rightarrow> string) \<Rightarrow> (string \<Rightarrow> string) \<Rightarrow> string \<Rightarrow> int \<Rightarrow> alert list \<Rightarrow> detection_result list
    \<Rightarrow> correlation_limit_state option \<Rightarrow> (alert list \<times> correlation_limit_state option) result" where
  "guard_compound_alerts sha1 sha256 batch_id collected_at guard_alerts detections ls =
     (let host_severity = worst_severity_by_host detections in
      compound_loop ''guard_cross_max_alerts'' host_severity
        (guard_compound_alert sha1 sha256 batch_id collected_at detections host_severity) guard_alerts ls)"

end
