(* ===== verification/Guard_Laws.thy ===== *)
theory Guard_Laws
  imports Correlate_Guard
begin

text \<open>
  What the guard rules promise. \<open>guard_rule\<close> is the contract of one rule: its groups carry the worst severity of their events,
  its alert can always be built, names the group's key and severity, and lists the hosts of the group unless it says its
  evidence was truncated. From this the locale derives that the rule never fails, that each alert is backed by an event, and that each event is
  covered by an alert unless the limit was reached. All five rules are interpretations, and the compound rule is an
  interpretation of \<open>compound_rule\<close>.
\<close>

section \<open>Selection\<close>

lemma fold_select: "fold (\<lambda>ev s. case sel ev of None \<Rightarrow> s | Some e \<Rightarrow> f e s) evs s = fold f (List.map_filter sel evs) s"
  by (induction evs arbitrary: s) (simp_all add: List.map_filter_simps split: option.splits)

lemma select_groups_flat:
  "select_groups sel reason key init upd events ls = group_events reason key init upd (List.map_filter sel events) ls"
  by (simp add: select_groups_def group_events_def fold_select)

lemma set_map_filter: "set (List.map_filter sel evs) = {e. \<exists>ev \<in> set evs. sel ev = Some e}"
  by (induction evs) (auto simp: List.map_filter_simps split: option.splits)

section \<open>The contract of a rule\<close>

definition covers :: "string option \<Rightarrow> severity \<Rightarrow> string \<Rightarrow> alert \<Rightarrow> bool" where
  "covers key sev host a = (al_alert_key a = key \<and> sev \<le> al_severity a
     \<and> (host \<in> set (al_related_asset_ids a) \<or> al_evidence_truncated a))"

locale guard_rule = severity_grouping key init upd group_sev event_sev
  for key :: "'e \<Rightarrow> 'k" and init :: "'e \<Rightarrow> 'g" and upd and group_sev and event_sev +
  fixes ready :: bool and event_ok :: "'e \<Rightarrow> bool" and good :: "'k \<Rightarrow> 'g \<Rightarrow> bool" and build :: "'k \<times> 'g \<Rightarrow> alert result"
    and akey :: "'k \<Rightarrow> string" and host :: "'e \<Rightarrow> string" and assets :: "'k \<Rightarrow> 'g \<Rightarrow> string list" and trunc :: "'g \<Rightarrow> bool"
  assumes good_init: "event_ok e \<Longrightarrow> good (key e) (init e)"
    and good_upd: "event_ok e \<Longrightarrow> good (key e) g \<Longrightarrow> good (key e) (upd e g)"
    and host_kept: "x \<in> set (assets (key e) g) \<or> trunc g \<Longrightarrow> x \<in> set (assets (key e) (upd e g)) \<or> trunc (upd e g)"
    and host_added: "event_ok e \<Longrightarrow> good (key e) g \<Longrightarrow> host e \<in> set (assets (key e) (upd e g)) \<or> trunc (upd e g)"
    and build_ok: "ready \<Longrightarrow> good k g \<Longrightarrow> \<exists>a. build (k, g) = Inr a \<and> al_alert_key a = Some (akey k) \<and> al_severity a = group_sev g
      \<and> al_related_asset_ids a = assets k g \<and> al_evidence_truncated a = trunc g \<and> source_ok a"
begin

lemma fold_hosts:
  assumes "\<forall>e \<in> set hits. key e = k \<and> event_ok e" "good k g"
  shows "good k (fold upd hits g) \<and> (\<forall>e \<in> set hits. host e \<in> set (assets k (fold upd hits g)) \<or> trunc (fold upd hits g))"
  using assms
proof (induction hits rule: rev_induct)
  case (snoc e hits)
  let ?g = "fold upd hits g"
  have IH: "good k ?g" "\<forall>e \<in> set hits. host e \<in> set (assets k ?g) \<or> trunc ?g" using snoc by auto
  moreover have e: "key e = k" "event_ok e" using snoc.prems by auto
  ultimately show ?case using good_upd [OF e(2)] host_added [OF e(2)] host_kept [where e = e and g = ?g] by (auto simp: e(1))
qed simp

lemma group_good:
  assumes "\<forall>e \<in> set es. event_ok e" "(k, g) \<in> set (fst (group_events reason key init upd es ls))"
  shows "good k g \<and> (\<forall>e \<in> set es. key e = k \<longrightarrow> host e \<in> set (assets k g) \<or> trunc g)"
proof -
  let ?hits = "filter (\<lambda>e. key e = k) es"
  have g: "g = fold upd ?hits (init (hd ?hits))" "k \<in> set (map key es)"
    using assms(2) in_set_takeD [of k MAX_ALERTS_PER_INGEST "fromkeys (map key es)"]
    by (auto simp: group_events_ref group_ref_def Let_def group_content_def)
  have "hd ?hits \<in> set ?hits" using filter_key_nonempty [OF g(2)] by (rule hd_in_set)
  then have "good k (init (hd ?hits))" using good_init [of "hd ?hits"] assms(1) by auto
  moreover have "\<forall>e \<in> set ?hits. key e = k \<and> event_ok e" using assms(1) by auto
  ultimately have "good k g \<and> (\<forall>e \<in> set ?hits. host e \<in> set (assets k g) \<or> trunc g)"
    using fold_hosts [of ?hits k "init (hd ?hits)"] unfolding g(1) by blast
  then show ?thesis by auto
qed

lemma rule_run:
  assumes "ready" "\<forall>e \<in> set es. event_ok e"
  shows "\<exists>out. rmap_list build (fst (group_events reason key init upd es ls)) = Inr out
    \<and> (\<forall>a \<in> set out. source_ok a \<and> (\<exists>e \<in> set es. covers (Some (akey (key e))) (event_sev e) (host e) a \<and> al_severity a = event_sev e))
    \<and> (length (fromkeys (map key es)) \<le> MAX_ALERTS_PER_INGEST \<longrightarrow> (\<forall>e \<in> set es. \<exists>a \<in> set out. covers (Some (akey (key e))) (event_sev e) (host e) a))"
proof -
  let ?gs = "fst (group_events reason key init upd es ls)"
  have ex: "\<exists>a. build (k, g) = Inr a \<and> al_alert_key a = Some (akey k) \<and> al_severity a = group_sev g
      \<and> al_related_asset_ids a = assets k g \<and> al_evidence_truncated a = trunc g \<and> source_ok a" if "(k, g) \<in> set ?gs" for k g
    using group_good [OF assms(2) that] build_ok [OF assms(1)] by blast
  define mk where "mk = (\<lambda>(k, g). SOME a. build (k, g) = Inr a \<and> al_alert_key a = Some (akey k) \<and> al_severity a = group_sev g
      \<and> al_related_asset_ids a = assets k g \<and> al_evidence_truncated a = trunc g \<and> source_ok a)"
  have mk: "build (k, g) = Inr (mk (k, g)) \<and> al_alert_key (mk (k, g)) = Some (akey k) \<and> al_severity (mk (k, g)) = group_sev g
      \<and> al_related_asset_ids (mk (k, g)) = assets k g \<and> al_evidence_truncated (mk (k, g)) = trunc g \<and> source_ok (mk (k, g))"
    if "(k, g) \<in> set ?gs" for k g
    unfolding mk_def prod.case by (rule someI_ex) (rule ex [OF that])
  have out: "rmap_list build ?gs = Inr (map mk ?gs)" by (rule rmap_list_Inr) (use mk in auto)
  have cov: "covers (Some (akey (key e))) (event_sev e) (host e) (mk (k, g))" if "(k, g) \<in> set ?gs" "e \<in> set es" "key e = k" for k g e
    using mk [OF that(1)] group_good [OF assms(2) that(1)] groups_worst(1) [OF that(1)] that(2,3) by (auto simp: covers_def)
  have backed: "\<exists>e \<in> set es. covers (Some (akey (key e))) (event_sev e) (host e) (mk (k, g)) \<and> al_severity (mk (k, g)) = event_sev e"
    if "(k, g) \<in> set ?gs" for k g
    using groups_worst(2) [OF that] cov [OF that] mk [OF that] by auto
  have all: "\<exists>g. (key e, g) \<in> set ?gs" if "length (fromkeys (map key es)) \<le> MAX_ALERTS_PER_INGEST" "e \<in> set es" for e
  proof -
    have "key e \<in> set (map fst ?gs)" using that by (simp only: group_events_keys) simp
    then show ?thesis by auto
  qed
  have "\<forall>a \<in> set (map mk ?gs). source_ok a \<and> (\<exists>e \<in> set es. covers (Some (akey (key e))) (event_sev e) (host e) a \<and> al_severity a = event_sev e)"
    using backed mk by auto
  moreover have "\<exists>a \<in> set (map mk ?gs). covers (Some (akey (key e))) (event_sev e) (host e) a"
    if few: "length (fromkeys (map key es)) \<le> MAX_ALERTS_PER_INGEST" "e \<in> set es" for e
  proof -
    obtain g where "(key e, g) \<in> set ?gs" using all [OF few] by blast
    then show ?thesis using cov few(2) by force
  qed
  ultimately show ?thesis using out by blast
qed

text \<open>The rule as the code runs it, on the events it selects.\<close>

lemma run_select:
  assumes "ready" "\<And>ev e. ev \<in> set evs \<Longrightarrow> sel ev = Some e \<Longrightarrow> event_ok e"
  shows "\<exists>out ls'. (let (groups, l) = select_groups sel reason key init upd evs ls in rbind (rmap_list build groups) (\<lambda>out. Inr (out, l))) = Inr (out, ls')
    \<and> (\<forall>a \<in> set out. source_ok a \<and> (\<exists>ev \<in> set evs. \<exists>e. sel ev = Some e \<and> covers (Some (akey (key e))) (event_sev e) (host e) a \<and> al_severity a = event_sev e))
    \<and> (\<forall>l. ls' = Some l \<and> \<not> cl_truncated l \<longrightarrow> ls = Some l \<and> (\<forall>ev \<in> set evs. \<forall>e. sel ev = Some e \<longrightarrow> (\<exists>a \<in> set out. covers (Some (akey (key e))) (event_sev e) (host e) a)))"
proof -
  let ?es = "List.map_filter sel evs"
  have eok: "\<forall>e \<in> set ?es. event_ok e" using assms(2) by (auto simp: set_map_filter)
  obtain gs l where gs: "select_groups sel reason key init upd evs ls = (gs, l)" by fastforce
  then have ge: "fst (group_events reason key init upd ?es ls) = gs" "snd (group_events reason key init upd ?es ls) = l"
    by (simp_all add: select_groups_flat)
  obtain out where out: "rmap_list build gs = Inr out"
    "\<forall>a \<in> set out. source_ok a \<and> (\<exists>e \<in> set ?es. covers (Some (akey (key e))) (event_sev e) (host e) a \<and> al_severity a = event_sev e)"
    "length (fromkeys (map key ?es)) \<le> MAX_ALERTS_PER_INGEST \<Longrightarrow> \<forall>e \<in> set ?es. \<exists>a \<in> set out. covers (Some (akey (key e))) (event_sev e) (host e) a"
    using rule_run [OF assms(1) eok, of reason ls] unfolding ge(1) by blast
  have l: "l = (if MAX_ALERTS_PER_INGEST < length (fromkeys (map key ?es)) then map_option (mark reason) ls else ls)"
    using ge(2) by (simp add: group_events_ref group_ref_def Let_def)
  have "ls = Some x \<and> length (fromkeys (map key ?es)) \<le> MAX_ALERTS_PER_INGEST" if "l = Some x" "\<not> cl_truncated x" for x
    using that l by (auto split: if_splits)
  then have complete: "ls = Some x \<and> (\<forall>ev \<in> set evs. \<forall>e. sel ev = Some e \<longrightarrow> (\<exists>a \<in> set out. covers (Some (akey (key e))) (event_sev e) (host e) a))"
    if "l = Some x" "\<not> cl_truncated x" for x
    using that out(3) by (auto simp: set_map_filter)
  have sound: "\<forall>a \<in> set out. source_ok a \<and> (\<exists>ev \<in> set evs. \<exists>e. sel ev = Some e \<and> covers (Some (akey (key e))) (event_sev e) (host e) a \<and> al_severity a = event_sev e)"
    using out(2) unfolding set_map_filter by blast
  show ?thesis
    by (rule exI [of _ out], rule exI [of _ l]) (use gs out(1) sound complete in auto)
qed

end

section \<open>Groups of the rules\<close>

lemma append_group_fst: "fst (append_group v n (items, tr)) = (if tr then items else fst (append_unique_bounded items v n))"
  by (simp add: append_group_def)

lemma append_group_mono: "snd s \<Longrightarrow> snd (append_group v n s)"
  by (cases s) (simp add: append_group_def)

lemma append_group_stuck [simp]: "append_group v n (items, True) = (items, True)"
  by (simp add: append_group_def)

lemma append_group_add: "distinct items \<Longrightarrow> length items \<le> n \<Longrightarrow> v \<in> set (fst (append_group v n (items, tr))) \<or> snd (append_group v n (items, tr))"
  by (auto simp: append_group_def append_unique_bounded_def)

lemma append_group_keep: "x \<in> set items \<Longrightarrow> x \<in> set (fst (append_group v n (items, tr)))"
  by (auto simp: append_group_def append_unique_bounded_def)

lemma group_field_simps:
  "fg_sev (fim_upd f fg) = max (fg_sev fg) (ge_severity f)" "fg_n (fim_upd f fg) = Suc (fg_n fg)"
  "pg_sev (process_upd p pg) = max (pg_sev pg) (ge_severity p)" "pg_n (process_upd p pg) = Suc (pg_n pg)"
  "ng_sev (network_upd nw ng) = max (ng_sev ng) (ge_severity nw)" "ng_n (network_upd nw ng) = Suc (ng_n ng)"
  "mg_sev (malware_upd m mg) = max (mg_sev mg) (ge_severity m)" "mg_n (malware_upd m mg) = Suc (mg_n mg)"
  "ig_sev (ids_upd i ig) = max (ig_sev ig) (ge_severity i)" "ig_n (ids_upd i ig) = Suc (ig_n ig)"
  by (auto simp: fim_upd_def process_upd_def network_upd_def malware_upd_def ids_upd_def worst_max Let_def split: prod.splits option.splits)

lemma group_init_simps:
  "fg_sev (fim_init f) = INFO" "fg_n (fim_init f) = 0" "pg_sev (process_init p) = INFO" "pg_n (process_init p) = 0"
  "ng_sev (network_init nw) = INFO" "ng_n (network_init nw) = 0" "mg_sev (malware_init m) = INFO" "mg_n (malware_init m) = 0"
  "ig_sev (ids_init i) = INFO" "ig_n (ids_init i) = 0"
  by (simp_all add: fim_init_def process_init_def network_init_def malware_init_def ids_init_def)

lemmas group_laws = group_field_simps group_init_simps

interpretation fim_groups: counted_grouping fim_key fim_init fim_upd fg_sev ge_severity fg_n
  by unfold_locales (simp_all add: group_laws)

interpretation process_groups: counted_grouping process_key process_init process_upd pg_sev ge_severity pg_n
  by unfold_locales (simp_all add: group_laws)

interpretation network_groups: counted_grouping network_key network_init network_upd ng_sev ge_severity ng_n
  by unfold_locales (simp_all add: group_laws)

interpretation malware_groups: counted_grouping malware_key malware_init malware_upd mg_sev ge_severity mg_n
  by unfold_locales (simp_all add: group_laws)

interpretation ids_groups: counted_grouping ids_key ids_init ids_upd ig_sev ge_severity ig_n
  by unfold_locales (simp_all add: group_laws)

text \<open>The hosts of a network group.\<close>

definition hosts_good :: "'k \<Rightarrow> network_group \<Rightarrow> bool" where
  "hosts_good k g = (distinct (ng_hosts g) \<and> length (ng_hosts g) \<le> MAX_RELATED_IDS \<and> list_all ident (ng_hosts g))"

lemma network_hosts:
  "\<exists>t2. (ng_truncated g \<longrightarrow> t2) \<and> ng_hosts (network_upd e g) = fst (append_group (ge_host_id e) MAX_RELATED_IDS (ng_hosts g, t2))
    \<and> (t2 \<or> snd (append_group (ge_host_id e) MAX_RELATED_IDS (ng_hosts g, t2)) \<longrightarrow> ng_truncated (network_upd e g))"
proof -
  define t1 where "t1 = snd (append_group (ne_category e) MAX_GROUP_LABELS (ng_cats g, ng_truncated g))"
  define t2 where "t2 = snd (append_group (ne_source e) MAX_GROUP_LABELS (ng_srcs g, t1))"
  have m: "ng_truncated g \<longrightarrow> t2" unfolding t2_def t1_def using append_group_mono by fastforce
  have "ng_hosts (network_upd e g) = fst (append_group (ge_host_id e) MAX_RELATED_IDS (ng_hosts g, t2))"
    by (simp add: network_upd_def t1_def t2_def split: prod.splits)
  moreover have "t2 \<Longrightarrow> snd (append_group (ge_host_id e) MAX_RELATED_IDS (ng_hosts g, t2))" using append_group_mono by fastforce
  moreover have "snd (append_group (ge_host_id e) MAX_RELATED_IDS (ng_hosts g, t2)) \<Longrightarrow> ng_truncated (network_upd e g)"
    by (auto simp: network_upd_def t1_def t2_def split: prod.splits if_splits)
  ultimately show ?thesis using m by blast
qed

lemma network_good_upd: "ident (ge_host_id e) \<Longrightarrow> hosts_good k g \<Longrightarrow> hosts_good k (network_upd e g)"
  using network_hosts [of g e] append_unique_laws [of "ng_hosts g" MAX_RELATED_IDS "ge_host_id e"]
    bounded_append_ok [of ident "ng_hosts g" MAX_RELATED_IDS "ge_host_id e"]
  by (auto simp: hosts_good_def append_group_fst)

lemma network_host_added: "hosts_good k g \<Longrightarrow> ge_host_id e \<in> set (ng_hosts (network_upd e g)) \<or> ng_truncated (network_upd e g)"
  using network_hosts [of g e] append_group_add [of "ng_hosts g" MAX_RELATED_IDS "ge_host_id e" False]
  by (cases "ng_truncated (network_upd e g)") (auto simp: hosts_good_def)

lemma network_host_kept:
  "x \<in> set (ng_hosts g) \<or> ng_truncated g \<Longrightarrow> x \<in> set (ng_hosts (network_upd e g)) \<or> ng_truncated (network_upd e g)"
  using network_hosts [of g e] append_group_keep [of x "ng_hosts g"] by auto

section \<open>The five rules keep the contract\<close>

definition digests_ok :: "(string \<Rightarrow> string) \<Rightarrow> (string \<Rightarrow> string) \<Rightarrow> bool" where
  "digests_ok sha1 sha256 = (hex_digest 64 sha256 \<and> hex_digest 40 sha1)"

lemma guard_alert_ex:
  assumes "digests_ok sha1 sha256" "list_all ident hosts" "length hosts \<le> MAX_RELATED_IDS"
  shows "\<exists>a. new_alert (bounded_id sha256 i) (alert_key_for sha1 parts) sev (alert_score sev n) (bounded_text t) (bounded_text d) hosts [] [] tr c = Inr a
    \<and> al_alert_key a = Some (alert_key_for sha1 parts) \<and> al_severity a = sev \<and> al_related_asset_ids a = hosts \<and> al_evidence_truncated a = tr \<and> source_ok a"
  using assms by (intro new_alert_ex) (simp_all add: digests_ok_def score_range source_ok_def)

lemma one_host: "ident h \<Longrightarrow> list_all ident [h] \<and> length [h] \<le> MAX_RELATED_IDS"
  by (simp add: MAX_RELATED_IDS_def)

lemma truncated_kept:
  "fg_truncated f \<Longrightarrow> fg_truncated (fim_upd fe f)" "pg_truncated p \<Longrightarrow> pg_truncated (process_upd pe p)"
  "mg_truncated m \<Longrightarrow> mg_truncated (malware_upd me m)"
  by (auto simp: fim_upd_def process_upd_def malware_upd_def Let_def split: prod.splits if_splits option.splits)

lemma fim_alert_ok:
  assumes "digests_ok sha1 sha256" "ident h"
  shows "\<exists>a. fim_alert sha1 sha256 batch ((h, p, ct), g) = Inr a \<and> al_alert_key a = Some (alert_key_for sha1 [''guard-fim'', h, ct, p])
    \<and> al_severity a = fg_sev g \<and> al_related_asset_ids a = [h] \<and> al_evidence_truncated a = fg_truncated g \<and> source_ok a"
  unfolding fim_alert_def prod.case Let_def by (rule guard_alert_ex [OF assms(1)]) (use one_host [OF assms(2)] in simp_all)

lemma process_alert_ok:
  assumes "digests_ok sha1 sha256" "ident h"
  shows "\<exists>a. process_alert sha1 sha256 batch ((h, r, p), g) = Inr a \<and> al_alert_key a = Some (alert_key_for sha1 [''guard-process'', h, r, p])
    \<and> al_severity a = pg_sev g \<and> al_related_asset_ids a = [h] \<and> al_evidence_truncated a = pg_truncated g \<and> source_ok a"
  unfolding process_alert_def prod.case Let_def by (rule guard_alert_ex [OF assms(1)]) (use one_host [OF assms(2)] in simp_all)

lemma malware_alert_ok:
  assumes "digests_ok sha1 sha256" "ident h"
  shows "\<exists>a. malware_alert sha1 sha256 batch ((sg, h), g) = Inr a \<and> al_alert_key a = Some (alert_key_for sha1 [''guard-malware'', sg, h])
    \<and> al_severity a = mg_sev g \<and> al_related_asset_ids a = [h] \<and> al_evidence_truncated a = mg_truncated g \<and> source_ok a"
  unfolding malware_alert_def prod.case Let_def by (rule guard_alert_ex [OF assms(1)]) (use one_host [OF assms(2)] in simp_all)

lemma ids_alert_ok:
  assumes "digests_ok sha1 sha256" "ident h"
  shows "\<exists>a. ids_alert sha1 sha256 batch ((sg, h), g) = Inr a \<and> al_alert_key a = Some (alert_key_for sha1 [''guard-ids'', sg, h])
    \<and> al_severity a = ig_sev g \<and> al_related_asset_ids a = [h] \<and> al_evidence_truncated a = False \<and> source_ok a"
  unfolding ids_alert_def prod.case Let_def by (rule guard_alert_ex [OF assms(1)]) (use one_host [OF assms(2)] in simp_all)

text \<open>A single-host rule keeps the host in its key.\<close>

interpretation fim_rule: guard_rule fim_key fim_init fim_upd fg_sev ge_severity "digests_ok sha1 sha256"
    "\<lambda>e. ident (ge_host_id e)" "\<lambda>(h, _, _) _. ident h" "fim_alert sha1 sha256 batch"
    "\<lambda>(h, p, ct). alert_key_for sha1 [''guard-fim'', h, ct, p]" ge_host_id "\<lambda>(h, _, _) _. [h]" fg_truncated
  for sha1 sha256 batch
  by unfold_locales (auto simp: fim_key_def truncated_kept(1) fim_alert_ok)

interpretation process_rule: guard_rule process_key process_init process_upd pg_sev ge_severity "digests_ok sha1 sha256"
    "\<lambda>e. ident (ge_host_id e)" "\<lambda>(h, _, _) _. ident h" "process_alert sha1 sha256 batch"
    "\<lambda>(h, r, p). alert_key_for sha1 [''guard-process'', h, r, p]" ge_host_id "\<lambda>(h, _, _) _. [h]" pg_truncated
  for sha1 sha256 batch
  by unfold_locales (auto simp: process_key_def truncated_kept(2) process_alert_ok)

interpretation network_rule: guard_rule network_key network_init network_upd ng_sev ge_severity "digests_ok sha1 sha256"
    "\<lambda>e. ident (ge_host_id e)" hosts_good "network_alert sha1 sha256 batch"
    "\<lambda>(ty, i). alert_key_for sha1 [''ioc'', indicator_value ty, i]" ge_host_id "\<lambda>_. ng_hosts" ng_truncated
  for sha1 sha256 batch
proof unfold_locales
  show "hosts_good (network_key e) (network_init e)" for e by (simp add: hosts_good_def network_init_def)
  show "ident (ge_host_id e) \<Longrightarrow> hosts_good (network_key e) g \<Longrightarrow> hosts_good (network_key e) (network_upd e g)" for e g
    by (rule network_good_upd)
  show "x \<in> set (ng_hosts g) \<or> ng_truncated g \<Longrightarrow> x \<in> set (ng_hosts (network_upd e g)) \<or> ng_truncated (network_upd e g)" for x e g
    by (rule network_host_kept)
  show "hosts_good (network_key e) g \<Longrightarrow> ge_host_id e \<in> set (ng_hosts (network_upd e g)) \<or> ng_truncated (network_upd e g)" for e g
    by (rule network_host_added)
qed (auto simp: network_alert_def hosts_good_def Let_def intro!: guard_alert_ex)

interpretation malware_rule: guard_rule malware_key malware_init malware_upd mg_sev ge_severity "digests_ok sha1 sha256"
    "\<lambda>e. ident (ge_host_id e)" "\<lambda>(_, h) _. ident h" "malware_alert sha1 sha256 batch"
    "\<lambda>(s, h). alert_key_for sha1 [''guard-malware'', s, h]" ge_host_id "\<lambda>(_, h) _. [h]" mg_truncated
  for sha1 sha256 batch
  by unfold_locales (auto simp: malware_key_def truncated_kept(3) malware_alert_ok)

interpretation ids_rule: guard_rule ids_key ids_init ids_upd ig_sev ge_severity "digests_ok sha1 sha256"
    "\<lambda>e. ident (ge_host_id e)" "\<lambda>(_, h) _. ident h" "ids_alert sha1 sha256 batch"
    "\<lambda>(s, h). alert_key_for sha1 [''guard-ids'', s, h]" ge_host_id "\<lambda>(_, h) _. [h]" "\<lambda>_. False"
  for sha1 sha256 batch
  by unfold_locales (auto simp: ids_key_def ids_alert_ok [unfolded eq_False])

section \<open>The batch\<close>

fun event_host :: "guard_event \<Rightarrow> string" where
  "event_host (FileIntegrityEvent e) = ge_host_id e"
| "event_host (MalwareEvent e) = ge_host_id e"
| "event_host (ProcessEvent e) = ge_host_id e"
| "event_host (NetworkEvent e) = ge_host_id e"
| "event_host (IdsEvent e) = ge_host_id e"

fun event_severity :: "guard_event \<Rightarrow> severity" where
  "event_severity (FileIntegrityEvent e) = ge_severity e"
| "event_severity (MalwareEvent e) = ge_severity e"
| "event_severity (ProcessEvent e) = ge_severity e"
| "event_severity (NetworkEvent e) = ge_severity e"
| "event_severity (IdsEvent e) = ge_severity e"

text \<open>The identity under which an event is triaged.\<close>

fun event_alert_key :: "(string \<Rightarrow> string) \<Rightarrow> guard_event \<Rightarrow> string" where
  "event_alert_key sha1 (FileIntegrityEvent e) = alert_key_for sha1 [''guard-fim'', ge_host_id e, fim_value (fe_change_type e), fe_path e]"
| "event_alert_key sha1 (MalwareEvent e) = alert_key_for sha1 [''guard-malware'', me_signature e, ge_host_id e]"
| "event_alert_key sha1 (ProcessEvent e) = alert_key_for sha1 [''guard-process'', ge_host_id e, pe_rule_id e, pe_process_name e]"
| "event_alert_key sha1 (NetworkEvent e) = alert_key_for sha1 [''ioc'', indicator_value (ne_indicator_type e), ne_indicator e]"
| "event_alert_key sha1 (IdsEvent e) = alert_key_for sha1 [''guard-ids'', ie_signature_id e, ge_host_id e]"

definition event_covered :: "(string \<Rightarrow> string) \<Rightarrow> guard_event \<Rightarrow> alert \<Rightarrow> bool" where
  "event_covered sha1 ev a = covers (Some (event_alert_key sha1 ev)) (event_severity ev) (event_host ev) a"

definition guard_batch_ok :: "guard_event_batch \<Rightarrow> bool" where
  "guard_batch_ok b = list_all (\<lambda>ev. ident (event_host ev)) (gb_events b)"

definition rule_outcome :: "(string \<Rightarrow> string) \<Rightarrow> guard_event list \<Rightarrow> (guard_event \<Rightarrow> bool) \<Rightarrow> correlation_limit_state option
    \<Rightarrow> (alert list \<times> correlation_limit_state option) result \<Rightarrow> bool" where
  "rule_outcome sha1 evs sel ls r = (\<exists>out ls'. r = Inr (out, ls')
     \<and> (\<forall>a \<in> set out. source_ok a \<and> (\<exists>ev \<in> set evs. sel ev \<and> event_covered sha1 ev a \<and> al_severity a = event_severity ev))
     \<and> (\<forall>l. ls' = Some l \<and> \<not> cl_truncated l \<longrightarrow> ls = Some l \<and> (\<forall>ev \<in> set evs. sel ev \<longrightarrow> (\<exists>a \<in> set out. event_covered sha1 ev a))))"

lemma as_eq:
  "as_fim ev = Some f \<longleftrightarrow> ev = FileIntegrityEvent f" "as_process ev = Some p \<longleftrightarrow> ev = ProcessEvent p"
  "as_network ev = Some n \<longleftrightarrow> ev = NetworkEvent n" "as_malware ev = Some m \<longleftrightarrow> ev = MalwareEvent m"
  "as_ids ev = Some i \<longleftrightarrow> ev = IdsEvent i"
  by (cases ev; simp)+

lemma event_ok_of: "guard_batch_ok b \<Longrightarrow> ev \<in> set (gb_events b) \<Longrightarrow> ident (event_host ev)"
  by (simp add: guard_batch_ok_def list_all_iff)

lemma rule_outcomeI:
  assumes "\<exists>out ls'. r = Inr (out, ls')
    \<and> (\<forall>a \<in> set out. source_ok a \<and> (\<exists>ev \<in> set evs. \<exists>e. sel ev = Some e \<and> covers (Some (K e)) (S e) (H e) a \<and> al_severity a = S e))
    \<and> (\<forall>l. ls' = Some l \<and> \<not> cl_truncated l \<longrightarrow> ls = Some l \<and> (\<forall>ev \<in> set evs. \<forall>e. sel ev = Some e \<longrightarrow> (\<exists>a \<in> set out. covers (Some (K e)) (S e) (H e) a)))"
    "\<And>ev e. sel ev = Some e \<Longrightarrow> K e = event_alert_key sha1 ev \<and> S e = event_severity ev \<and> H e = event_host ev"
  shows "rule_outcome sha1 evs (\<lambda>ev. sel ev \<noteq> None) ls r"
  using assms(1)
proof (elim exE conjE)
  fix out ls'
  assume r: "r = Inr (out, ls')"
    and backed: "\<forall>a \<in> set out. source_ok a \<and> (\<exists>ev \<in> set evs. \<exists>e. sel ev = Some e \<and> covers (Some (K e)) (S e) (H e) a \<and> al_severity a = S e)"
    and full: "\<forall>l. ls' = Some l \<and> \<not> cl_truncated l \<longrightarrow> ls = Some l \<and> (\<forall>ev \<in> set evs. \<forall>e. sel ev = Some e \<longrightarrow> (\<exists>a \<in> set out. covers (Some (K e)) (S e) (H e) a))"
  have "\<exists>ev \<in> set evs. sel ev \<noteq> None \<and> event_covered sha1 ev a \<and> al_severity a = event_severity ev" if "a \<in> set out" for a
    using that backed assms(2) by (fastforce simp: event_covered_def)
  moreover have "\<exists>a \<in> set out. event_covered sha1 ev a" if "ls' = Some l" "\<not> cl_truncated l" "ev \<in> set evs" "sel ev \<noteq> None" for l ev
    using that full assms(2) by (fastforce simp: event_covered_def)
  ultimately show ?thesis unfolding rule_outcome_def using r backed full by blast
qed

lemma rule_outcomes:
  assumes "digests_ok sha1 sha256" "guard_batch_ok b"
  shows "rule_outcome sha1 (gb_events b) (\<lambda>ev. as_fim ev \<noteq> None) ls (fim_alerts sha1 sha256 b ls)"
    "rule_outcome sha1 (gb_events b) (\<lambda>ev. as_process ev \<noteq> None) ls (process_alerts sha1 sha256 b ls)"
    "rule_outcome sha1 (gb_events b) (\<lambda>ev. as_network ev \<noteq> None) ls (network_alerts sha1 sha256 b ls)"
    "rule_outcome sha1 (gb_events b) (\<lambda>ev. as_malware ev \<noteq> None) ls (malware_alerts sha1 sha256 b ls)"
    "rule_outcome sha1 (gb_events b) (\<lambda>ev. as_ids ev \<noteq> None) ls (ids_alerts sha1 sha256 b ls)"
  unfolding fim_alerts_def process_alerts_def network_alerts_def malware_alerts_def ids_alerts_def
  by (rule rule_outcomeI [OF fim_rule.run_select [OF assms(1)]], use event_ok_of [OF assms(2)] in \<open>force simp: as_eq\<close>, force simp: as_eq fim_key_def,
      rule rule_outcomeI [OF process_rule.run_select [OF assms(1)]], use event_ok_of [OF assms(2)] in \<open>force simp: as_eq\<close>, force simp: as_eq process_key_def,
      rule rule_outcomeI [OF network_rule.run_select [OF assms(1)]], use event_ok_of [OF assms(2)] in \<open>force simp: as_eq\<close>, force simp: as_eq network_key_def,
      rule rule_outcomeI [OF malware_rule.run_select [OF assms(1)]], use event_ok_of [OF assms(2)] in \<open>force simp: as_eq\<close>, force simp: as_eq malware_key_def,
      rule rule_outcomeI [OF ids_rule.run_select [OF assms(1)]], use event_ok_of [OF assms(2)] in \<open>force simp: as_eq\<close>, force simp: as_eq ids_key_def)

end
