(* ===== verification/Correlate_Properties.thy ===== *)
theory Correlate_Properties
  imports Guard_Laws
begin

text \<open>What correlation guarantees: the alerts of trace batches, guard batches and of the compound rules, and the identity of alerts.\<close>

section \<open>Trace batches\<close>

definition trace_alert_for :: "(string \<Rightarrow> string) \<Rightarrow> (trace_event \<times> threat_match) list \<Rightarrow> indicator_type \<times> string \<Rightarrow> alert \<Rightarrow> bool" where
  "trace_alert_for sha1 hits k a = (let mine = filter (\<lambda>h. hit_key h = k) hits in
     al_alert_key a = Some (alert_key_for sha1 [''ioc'', indicator_value (fst k), snd k])
     \<and> (\<forall>h \<in> set mine. tm_severity (snd h) \<le> al_severity a) \<and> (\<exists>h \<in> set mine. al_severity a = tm_severity (snd h))
     \<and> al_related_trace_ids a = take MAX_RELATED_IDS (fromkeys (map (te_trace_id \<circ> fst) mine))
     \<and> (\<not> al_evidence_truncated a \<longrightarrow> set (al_related_trace_ids a) = set (map (te_trace_id \<circ> fst) mine))
     \<and> al_score a = of_int (alert_score (al_severity a) (int (length (al_related_asset_ids a)))))"

lemma trace_group_inv:
  assumes "\<forall>h \<in> set hits. hit_ok h"
  shows "\<forall>(k, g) \<in> set (fst (group_events reason hit_key new_trace_group observe hits ls)).
    trace_group_ok g \<and> tg_indicator g = snd k \<and> tg_indicator_type g = fst k"
  by (rule group_events_inv)
    (use assms in \<open>auto simp: observe_ok observe_simps\<close>, simp add: trace_group_ok_def)

lemma trace_group_alert:
  assumes "digests_ok sha1 sha256" "index_ok idx" "\<forall>h \<in> set hits. hit_ok h"
    "(k, g) \<in> set (fst (group_events reason hit_key new_trace_group observe hits ls))"
  shows "\<exists>a. alert_for_group sha1 sha256 batch idx g = Inr a \<and> trace_alert_for sha1 hits k a"
proof -
  let ?mine = "filter (\<lambda>h. hit_key h = k) hits"
  have inv: "trace_group_ok g" "tg_indicator g = snd k" "tg_indicator_type g = fst k"
    using trace_group_inv [OF assms(3), of reason ls] assms(4) by auto
  obtain a where a: "alert_for_group sha1 sha256 batch idx g = Inr a"
    "al_alert_key a = Some (alert_key_for sha1 [''ioc'', indicator_value (fst k), snd k])" "al_severity a = tg_severity g"
    "al_score a = of_int (alert_score (tg_severity g) (int (length (asset_ids g idx))))" "al_related_asset_ids a = asset_ids g idx"
    "al_related_trace_ids a = tg_trace_ids g" "al_evidence_truncated a = tg_evidence_truncated g"
    using alert_for_group_ok [OF _ _ inv(1) assms(2), of sha256 sha1 batch] assms(1) unfolding inv(2,3) digests_ok_def by blast
  have g: "g = fold observe ?mine (new_trace_group (hd ?mine))"
    using assms(4) by (auto simp: group_events_ref group_ref_def Let_def group_content_def)
  have ids: "tg_trace_ids g = take MAX_RELATED_IDS (fromkeys (map (te_trace_id \<circ> fst) ?mine))"
    unfolding g fold_observe_ids by (simp add: append_all_fromkeys)
  have all: "set (tg_trace_ids g) = set (map (te_trace_id \<circ> fst) ?mine)" if "\<not> tg_evidence_truncated g"
    using fold_observe_untruncated [of ?mine "hd ?mine", folded g, OF that] by (auto simp: ids dest: in_set_takeD)
  have up: "\<forall>h \<in> set ?mine. tm_severity (snd h) \<le> tg_severity g" using trace_rule.groups_worst(1) [OF assms(4)] by auto
  obtain h where "h \<in> set ?mine" "tg_severity g = tm_severity (snd h)" using trace_rule.groups_worst(2) [OF assms(4)] by auto
  then have "\<exists>h \<in> set ?mine. tg_severity g = tm_severity (snd h)" by blast
  then show ?thesis using a(1-4) up ids all
    by (intro exI [of _ a] conjI a(1)) (simp only: trace_alert_for_def Let_def a(2-7), blast)
qed

lemma rmap_list_all2:
  assumes "list_all2 (\<lambda>k x. \<exists>y. f x = Inr y \<and> P k y) ks xs"
  shows "\<exists>ys. rmap_list f xs = Inr ys \<and> list_all2 P ks ys"
  using assms
proof (induction rule: list_all2_induct)
  case (Cons k ks x xs)
  then show ?case by (auto simp: list_all2_Cons1)
qed simp

text \<open>C23: Indicator hits become alerts, one per indicator. Correlating a valid trace batch never fails; the alerts are, in
  the order of first appearance, one for each of the first 128 distinct indicators, with the worst severity any
  of its hits reported, the first 64 distinct traces that hit it (all of them unless the alert says its
  evidence was truncated), the identity shared by every batch, and the score of its severity and assets;
  the limit state is marked exactly when an indicator was left out.\<close>

theorem trace_alerts:
  assumes "digests_ok sha1 sha256" "batch_ok batch" "index_ok idx"
  shows "\<exists>alerts. correlate_trace_batch sha1 sha256 batch idx ls = Inr (alerts,
      if MAX_ALERTS_PER_INGEST < length (fromkeys (map hit_key (hits_of (tb_events batch)))) then map_option (mark ''trace_max_alerts'') ls else ls)
    \<and> list_all2 (trace_alert_for sha1 (hits_of (tb_events batch)))
        (take MAX_ALERTS_PER_INGEST (fromkeys (map hit_key (hits_of (tb_events batch))))) alerts"
proof -
  let ?hits = "hits_of (tb_events batch)"
  let ?r = "group_events ''trace_max_alerts'' hit_key new_trace_group observe ?hits ls"
  have ok: "\<forall>h \<in> set ?hits. hit_ok h" using assms(2) by (auto simp: hits_of_def batch_ok_def hit_ok_def list_all_iff)
  have keys: "map fst (fst ?r) = take MAX_ALERTS_PER_INGEST (fromkeys (map hit_key ?hits))" by (rule group_events_keys)
  have "list_all2 (\<lambda>k g. \<exists>a. alert_for_group sha1 sha256 batch idx g = Inr a \<and> trace_alert_for sha1 ?hits k a) (map fst (fst ?r)) (map snd (fst ?r))"
    unfolding list_all2_map1 list_all2_map2 using trace_group_alert [OF assms(1,3) ok] by (auto simp: list_all2_same)
  from rmap_list_all2 [OF this] obtain alerts where al: "rmap_list (alert_for_group sha1 sha256 batch idx) (map snd (fst ?r)) = Inr alerts"
    "list_all2 (trace_alert_for sha1 ?hits) (map fst (fst ?r)) alerts" by blast
  have "snd ?r = (if MAX_ALERTS_PER_INGEST < length (fromkeys (map hit_key ?hits)) then map_option (mark ''trace_max_alerts'') ls else ls)"
    by (simp add: group_events_ref group_ref_def Let_def)
  then show ?thesis using al unfolding keys by (simp add: correlate_trace_batch_def trace_groups_flat case_prod_beta)
qed

section \<open>Compound alerts\<close>

text \<open>Compound alerts are justified. Correlating indicator alerts with the known findings never fails; it makes one alert, in
  order and up to 128, for each indicator alert that involves a host whose worst finding is high or critical; each names only such
  hosts, carries the worst severity of its source and of those hosts and lists only high or critical findings of those
  hosts, all of them unless it says its evidence was truncated; leaving out an alert is noted in the limit state.\<close>

theorem cross_alerts_justified:
  assumes "digests_ok sha1 sha256" "detections_ok ds" "list_all source_ok srcs"
  shows "\<exists>extras ls'. cross_source_alerts sha1 sha256 bid ts srcs ds ls = Inr (extras, ls')
    \<and> list_all2 (justified ds) (take MAX_ALERTS_PER_INGEST (filter (\<lambda>s. all_risky_hosts (worst_severity_by_host ds) s \<noteq> []) srcs)) extras
    \<and> (ls = None \<longleftrightarrow> ls' = None)
    \<and> (MAX_ALERTS_PER_INGEST < length (filter (\<lambda>s. all_risky_hosts (worst_severity_by_host ds) s \<noteq> []) srcs)
         \<longrightarrow> (\<forall>l'. ls' = Some l' \<longrightarrow> cl_truncated l'))"
proof -
  have "list_all (compound_ready sha1 sha256 ds) srcs"
    using assms by (auto simp: list_all_iff compound_ready_def digests_ok_def)
  then show ?thesis unfolding cross_source_alerts_def Let_def by (rule cross_rule.loop_justified)
qed

lemma guard_compound_alert_ok:
  assumes "hex_digest 64 sha256" "hex_digest 40 sha1" "detections_ok ds" "source_ok src" "all_risky_hosts (worst_severity_by_host ds) src \<noteq> []"
  shows "\<exists>a ls'. guard_compound_alert sha1 sha256 bid ts ds (worst_severity_by_host ds) src (all_risky_hosts (worst_severity_by_host ds) src) ls = Inr (a, ls')
    \<and> justified ds src a \<and> (\<forall>l. ls = Some l \<and> cl_truncated l \<longrightarrow> (\<exists>l'. ls' = Some l' \<and> cl_truncated l')) \<and> (ls = None \<longleftrightarrow> ls' = None)"
proof -
  let ?hs = "worst_severity_by_host ds" and ?all = "all_risky_hosts (worst_severity_by_host ds) src"
  define hosts where "hosts = take MAX_RELATED_IDS ?all"
  have hne: "hosts \<noteq> []" using assms(5) by (simp add: hosts_def MAX_RELATED_IDS_def)
  have hsub: "set hosts \<subseteq> set ?all" by (auto simp: hosts_def dest: in_set_takeD)
  obtain sevs m where m: "host_severities ?hs hosts = Inr sevs" "max_severity sevs = Inr m"
    "\<forall>h \<in> set hosts. \<forall>s \<in> set (known_severities ds h). s \<le> m" "\<exists>h \<in> set hosts. m \<in> set (known_severities ds h)"
    using host_severities_ok [OF hsub hne] by blast
  define ev1 where "ev1 = (if length hosts < length ?all then mark ''guard_cross_related_asset_ids'' new_limit_state else new_limit_state)"
  obtain vids ev2 where v: "vuln_ids_for_hosts ds hosts (severity_rank HIGH) ev1 = (vids, ev2)" by fastforce
  note vs = vuln_ids_spec [OF v]
  have vid: "list_all ident vids" using vs(1) relevant_ident [OF assms(3)] by (auto simp: list_all_iff)
  have just: "justified ds src a" if "al_related_asset_ids a = hosts" "al_severity a = max (al_severity src) m" "al_related_vuln_ids a = vids"
      "al_evidence_truncated a = (al_evidence_truncated src \<or> cl_truncated ev2)" for a
  proof (rule compound_justified [OF that(1) hosts_def assms(5) that(2) m(3,4)])
    show "vuln_ids_for_hosts ds hosts (severity_rank HIGH) ev1 = (al_related_vuln_ids a, ev2)" using v that(3) by simp
    assume "\<not> al_evidence_truncated a"
    then have "\<not> cl_truncated ev2" using that(4) by auto
    moreover from this have "\<not> cl_truncated ev1" using vs(3) by blast
    ultimately show "\<not> cl_truncated ev2 \<and> length ?all \<le> MAX_RELATED_IDS" by (auto simp: ev1_def hosts_def split: if_splits)
  qed
  have na: "\<exists>a. new_alert (bounded_id sha256 i) (alert_key_for sha1 parts) (max (al_severity src) m) (alert_score (max (al_severity src) m) (int (length hosts)))
      (bounded_text t) (bounded_text d) hosts vids [] (al_evidence_truncated src \<or> cl_truncated ev2) ts = Inr a \<and> justified ds src a" for i parts t d
    by (rule new_alert_ex [OF assms(1,2) score_range _ vid])
      (use just vs(2) risky_ident [OF assms(4)] in \<open>simp_all add: hosts_def\<close>)
  show ?thesis
    unfolding guard_compound_alert_def Let_def hosts_def [symmetric] ev1_def [symmetric] m(1,2) v rbind_simps prod.case worst_max
    by (intro rbind_pair_ex na) auto
qed

interpretation guard_compound_rule: compound_rule ds "compound_ready sha1 sha256 ds"
    "guard_compound_alert sha1 sha256 bid ts ds (worst_severity_by_host ds)"
  for sha1 sha256 bid ts ds
  by unfold_locales (unfold compound_ready_def, elim conjE, rule guard_compound_alert_ok)

section \<open>Guard batches\<close>

definition both :: "(alert list \<times> correlation_limit_state option) result
    \<Rightarrow> (correlation_limit_state option \<Rightarrow> (alert list \<times> correlation_limit_state option) result)
    \<Rightarrow> (alert list \<times> correlation_limit_state option) result" where
  "both r f = rbind r (\<lambda>(a1, l1). rbind (f l1) (\<lambda>(a2, l2). Inr (a1 @ a2, l2)))"

lemma both_outcome:
  assumes "rule_outcome sha1 evs s1 ls r" "\<And>l. rule_outcome sha1 evs s2 l (f l)"
  shows "rule_outcome sha1 evs (\<lambda>ev. s1 ev \<or> s2 ev) ls (both r f)"
proof -
  obtain a1 l1 where r1: "r = Inr (a1, l1)"
    "\<forall>a \<in> set a1. source_ok a \<and> (\<exists>ev \<in> set evs. s1 ev \<and> event_covered sha1 ev a \<and> al_severity a = event_severity ev)"
    "\<forall>l. l1 = Some l \<and> \<not> cl_truncated l \<longrightarrow> ls = Some l \<and> (\<forall>ev \<in> set evs. s1 ev \<longrightarrow> (\<exists>a \<in> set a1. event_covered sha1 ev a))"
    using assms(1) unfolding rule_outcome_def by blast
  obtain a2 l2 where r2: "f l1 = Inr (a2, l2)"
    "\<forall>a \<in> set a2. source_ok a \<and> (\<exists>ev \<in> set evs. s2 ev \<and> event_covered sha1 ev a \<and> al_severity a = event_severity ev)"
    "\<forall>l. l2 = Some l \<and> \<not> cl_truncated l \<longrightarrow> l1 = Some l \<and> (\<forall>ev \<in> set evs. s2 ev \<longrightarrow> (\<exists>a \<in> set a2. event_covered sha1 ev a))"
    using assms(2) [of l1] unfolding rule_outcome_def by blast
  have "both r f = Inr (a1 @ a2, l2)" by (simp add: both_def r1(1) r2(1))
  moreover have "source_ok a \<and> (\<exists>ev \<in> set evs. (s1 ev \<or> s2 ev) \<and> event_covered sha1 ev a \<and> al_severity a = event_severity ev)"
    if "a \<in> set (a1 @ a2)" for a
  proof (cases "a \<in> set a1")
    case True
    then show ?thesis using r1(2) by blast
  next
    case False
    then have "a \<in> set a2" using that by simp
    then show ?thesis using r2(2) by blast
  qed
  moreover have "ls = Some l \<and> (\<forall>ev \<in> set evs. s1 ev \<or> s2 ev \<longrightarrow> (\<exists>a \<in> set (a1 @ a2). event_covered sha1 ev a))"
    if l: "l2 = Some l" "\<not> cl_truncated l" for l
  proof -
    have l1: "l1 = Some l" and two: "\<forall>ev \<in> set evs. s2 ev \<longrightarrow> (\<exists>a \<in> set a2. event_covered sha1 ev a)" using r2(3) l by simp_all
    have "ls = Some l" and one: "\<forall>ev \<in> set evs. s1 ev \<longrightarrow> (\<exists>a \<in> set a1. event_covered sha1 ev a)" using r1(3) l1 l(2) by simp_all
    then show ?thesis using two by (simp add: bex_Un) 
  qed
  ultimately show ?thesis unfolding rule_outcome_def by (intro exI [of _ "a1 @ a2"] exI [of _ l2]) simp
qed

lemma correlate_guard_chain:
  "correlate_guard_batch sha1 sha256 batch ls =
     rbind (both (fim_alerts sha1 sha256 batch ls) (\<lambda>l. both (process_alerts sha1 sha256 batch l) (\<lambda>l. both (network_alerts sha1 sha256 batch l)
       (\<lambda>l. both (malware_alerts sha1 sha256 batch l) (\<lambda>l. ids_alerts sha1 sha256 batch l)))))
       (\<lambda>(alerts, l). Inr (take MAX_ALERTS_PER_INGEST alerts,
            if MAX_ALERTS_PER_INGEST < length alerts then map_option (mark ''guard_max_alerts'') l else l))"
  by (simp add: correlate_guard_batch_def both_def rbind_def Let_def del: take_append length_append split: sum.split prod.split)

lemma some_kind: "as_fim ev \<noteq> None \<or> as_process ev \<noteq> None \<or> as_network ev \<noteq> None \<or> as_malware ev \<noteq> None \<or> as_ids ev \<noteq> None"
  by (cases ev) simp_all

text \<open>C24: Guard detections reach the console. Correlating a valid guard batch never fails and gives at most 128 alerts; each alert
  carries the identity and the severity of some event of the batch, the worst of its group; unless the limit state
  reports truncation, every event of the batch, whatever its kind, is covered by an alert of its identity with at least its severity,
  which lists its host or says that its evidence was truncated; compound alerts on the result are justified by the known findings.\<close>

theorem guard_alerts_cover:
  assumes "digests_ok sha1 sha256" "guard_batch_ok batch" "detections_ok ds"
  shows "\<exists>alerts ls'. correlate_guard_batch sha1 sha256 batch ls = Inr (alerts, ls') \<and> length alerts \<le> MAX_ALERTS_PER_INGEST
    \<and> (\<forall>a \<in> set alerts. \<exists>ev \<in> set (gb_events batch). event_covered sha1 ev a \<and> al_severity a = event_severity ev)
    \<and> (\<forall>l. ls' = Some l \<and> \<not> cl_truncated l \<longrightarrow> (\<forall>ev \<in> set (gb_events batch). \<exists>a \<in> set alerts. event_covered sha1 ev a))
    \<and> (\<exists>extras ls''. guard_compound_alerts sha1 sha256 bid ts alerts ds ls' = Inr (extras, ls'')
        \<and> list_all2 (justified ds) (filter (\<lambda>s. all_risky_hosts (worst_severity_by_host ds) s \<noteq> []) alerts) extras)"
proof -
  let ?E = "set (gb_events batch)"
  note R = rule_outcomes [OF assms(1,2)]
  have "rule_outcome sha1 (gb_events batch) (\<lambda>ev. as_fim ev \<noteq> None \<or> as_process ev \<noteq> None \<or> as_network ev \<noteq> None \<or> as_malware ev \<noteq> None \<or> as_ids ev \<noteq> None) ls
      (both (fim_alerts sha1 sha256 batch ls) (\<lambda>l. both (process_alerts sha1 sha256 batch l) (\<lambda>l. both (network_alerts sha1 sha256 batch l)
       (\<lambda>l. both (malware_alerts sha1 sha256 batch l) (\<lambda>l. ids_alerts sha1 sha256 batch l)))))"
    by (intro both_outcome R)
  then obtain all l5 where five: "both (fim_alerts sha1 sha256 batch ls) (\<lambda>l. both (process_alerts sha1 sha256 batch l) (\<lambda>l. both (network_alerts sha1 sha256 batch l)
       (\<lambda>l. both (malware_alerts sha1 sha256 batch l) (\<lambda>l. ids_alerts sha1 sha256 batch l)))) = Inr (all, l5)"
    and sound: "\<forall>a \<in> set all. source_ok a \<and> (\<exists>ev \<in> ?E. event_covered sha1 ev a \<and> al_severity a = event_severity ev)"
    and cover: "\<And>l. l5 = Some l \<Longrightarrow> \<not> cl_truncated l \<Longrightarrow> \<forall>ev \<in> ?E. \<exists>a \<in> set all. event_covered sha1 ev a"
    unfolding rule_outcome_def by (elim exE conjE) (simp only: some_kind simp_thms, metis)
  define ls' where "ls' = (if MAX_ALERTS_PER_INGEST < length all then map_option (mark ''guard_max_alerts'') l5 else l5)"
  have run: "correlate_guard_batch sha1 sha256 batch ls = Inr (take MAX_ALERTS_PER_INGEST all, ls')"
    unfolding correlate_guard_chain five by (simp add: ls'_def)
  have mem: "a \<in> set all" if "a \<in> set (take MAX_ALERTS_PER_INGEST all)" for a using that by (rule in_set_takeD)
  have full: "\<exists>a \<in> set (take MAX_ALERTS_PER_INGEST all). event_covered sha1 ev a" if l: "ls' = Some l" "\<not> cl_truncated l" and ev: "ev \<in> ?E" for l ev
  proof -
    have "length all \<le> MAX_ALERTS_PER_INGEST" "l5 = Some l" using l by (auto simp: ls'_def split: if_splits)
    then show ?thesis using cover [of l] l(2) ev by simp
  qed
  have ready: "list_all (compound_ready sha1 sha256 ds) (take MAX_ALERTS_PER_INGEST all)"
    using assms(1,3) sound mem by (auto simp: list_all_iff compound_ready_def digests_ok_def)
  have small: "length (filter P (take MAX_ALERTS_PER_INGEST all)) \<le> MAX_ALERTS_PER_INGEST" for P
    by (rule order_trans [OF length_filter_le]) simp
  have "\<exists>extras ls''. guard_compound_alerts sha1 sha256 bid ts (take MAX_ALERTS_PER_INGEST all) ds ls' = Inr (extras, ls'')
        \<and> list_all2 (justified ds) (filter (\<lambda>s. all_risky_hosts (worst_severity_by_host ds) s \<noteq> []) (take MAX_ALERTS_PER_INGEST all)) extras"
    using guard_compound_rule.loop_justified [OF ready, of "''guard_cross_max_alerts''" bid ts ls']
    unfolding guard_compound_alerts_def Let_def take_all [OF small] by blast
  moreover have "\<forall>a \<in> set (take MAX_ALERTS_PER_INGEST all). \<exists>ev \<in> ?E. event_covered sha1 ev a \<and> al_severity a = event_severity ev"
    using sound mem by blast
  ultimately show ?thesis using run full by (intro exI [of _ "take MAX_ALERTS_PER_INGEST all"] exI [of _ ls']) simp
qed

section \<open>Identity\<close>

lemma split_join:
  assumes "ps \<noteq> []" "\<forall>p \<in> set ps. c \<notin> set p"
  shows "split_on c (join [c] ps) = ps"
proof -
  have free: "split_on c p = [p]" if "c \<notin> set p" for p using that by (induction p) auto
  have glue: "split_on c (p @ c # t) = p # split_on c t" if "c \<notin> set p" for p t using that by (induction p) auto
  show ?thesis using assms by (induction ps rule: induct_list012) (simp_all add: free glue)
qed

text \<open>Alert identity separates findings. When no part contains the unit separator and the digest does not collide on the two
  texts, two findings have the same alert key exactly when their parts agree.\<close>

theorem alert_key_parts:
  assumes "ps \<noteq> []" "qs \<noteq> []" "\<forall>p \<in> set ps. SEP \<notin> set p" "\<forall>q \<in> set qs. SEP \<notin> set q"
    and no_collision: "take 24 (sha1 (join [SEP] ps)) = take 24 (sha1 (join [SEP] qs)) \<Longrightarrow> join [SEP] ps = join [SEP] qs"
  shows "alert_key_for sha1 ps = alert_key_for sha1 qs \<longleftrightarrow> ps = qs"
proof
  assume "alert_key_for sha1 ps = alert_key_for sha1 qs"
  then have "join [SEP] ps = join [SEP] qs" by (intro no_collision) (simp add: alert_key_for_def Let_def)
  then show "ps = qs" using split_join [OF assms(1,3)] split_join [OF assms(2,4)] by metis
qed simp

theorem alert_key_parts_witness:
  "alert_key_for id [''ioc'', ''ip'', ''10.0.0.1''] \<noteq> alert_key_for id [''ioc'', ''ip'', ''10.0.0.2'']"
  using alert_key_parts [of "[''ioc'', ''ip'', ''10.0.0.1'']" "[''ioc'', ''ip'', ''10.0.0.2'']" id] by (simp add: SEP_def)

definition ex_process :: "string \<Rightarrow> string \<Rightarrow> process_event" where
  "ex_process rule name = \<lparr>ge_severity = HIGH, ge_host_id = ''web'', ge_action_taken = ActNone, pe_pid = 7, pe_process_name = name,
     pe_behavior = ''injection'', pe_rule_id = rule, pe_evidence = None\<rparr>"

text \<open>The separator is not excluded by validation. Two process events of one host whose rule ids and process names are
  valid identifiers, different in both, are triaged as one alert whatever the digest: a unit separator inside an
  identifier survives validation, although the comment at \<open>_SEP\<close> says it cannot appear there.\<close>

theorem alert_key_collision:
  "let e1 = ex_process (''r'' @ [SEP] @ ''x'') ''y''; e2 = ex_process ''r'' (''x'' @ [SEP] @ ''y'') in
   ident (pe_rule_id e1) \<and> ident (pe_process_name e1) \<and> ident (pe_rule_id e2) \<and> ident (pe_process_name e2)
   \<and> process_key e1 \<noteq> process_key e2 \<and> event_alert_key sha1 (ProcessEvent e1) = event_alert_key sha1 (ProcessEvent e2)"
  by (simp add: ex_process_def ident_def strip_def isspace_char_def SEP_def MAX_CORRELATION_IDENTIFIER_CHARS_def process_key_def Let_def alert_key_for_def)

section \<open>Concrete batches\<close>

definition ex_sha1 :: "string \<Rightarrow> string" where "ex_sha1 x = replicate 40 CHR ''0''"
definition ex_sha256 :: "string \<Rightarrow> string" where "ex_sha256 x = replicate 64 CHR ''0''"

lemma ex_digests: "digests_ok ex_sha1 ex_sha256"
  by (simp add: digests_ok_def hex_digest_def ex_sha1_def ex_sha256_def isspace_char_def list_all_iff)

definition ex_match :: "severity \<Rightarrow> threat_match" where
  "ex_match s = \<lparr>tm_indicator = ''evil.com'', tm_indicator_type = DOMAIN, tm_category = ''c2'', tm_severity = s, tm_source = ''feed''\<rparr>"

definition ex_event :: "string \<Rightarrow> severity \<Rightarrow> trace_event" where
  "ex_event i s = \<lparr>te_trace_id = i, te_host_id = ''tap'', te_src_ip = ''10.0.0.1'', te_dst_ip = ''10.0.0.2'', te_threat_intel = [ex_match s]\<rparr>"

definition ex_trace :: trace_batch where
  "ex_trace = \<lparr>tb_batch_id = ''b1'', tb_collected_at = 5, tb_events = [ex_event ''t1'' HIGH, ex_event ''t2'' CRITICAL, ex_event ''t1'' LOW]\<rparr>"

lemmas ex_trace_defs = ex_trace_def ex_event_def ex_match_def
lemmas ident_eval = ident_def strip_def isspace_char_def MAX_CORRELATION_IDENTIFIER_CHARS_def

theorem trace_alerts_witness:
  "\<exists>a. correlate_trace_batch ex_sha1 ex_sha256 ex_trace (Some [(''10.0.0.1'', ''web'')]) None = Inr ([a], None)
     \<and> al_severity a = CRITICAL \<and> al_related_trace_ids a = [''t1'', ''t2'']"
proof -
  have ok: "batch_ok ex_trace" "index_ok (Some [(''10.0.0.1'', ''web'')])"
    by (simp_all add: batch_ok_def index_ok_def ex_trace_defs ident_eval)
  have hits: "hits_of (tb_events ex_trace) = [(ex_event ''t1'' HIGH, ex_match HIGH), (ex_event ''t2'' CRITICAL, ex_match CRITICAL), (ex_event ''t1'' LOW, ex_match LOW)]"
    by (simp add: hits_of_def ex_trace_defs)
  have keys: "fromkeys (map hit_key (hits_of (tb_events ex_trace))) = [(DOMAIN, ''evil.com'')]"
    unfolding hits by (simp add: hit_key_def ex_trace_defs)
  obtain a where a: "correlate_trace_batch ex_sha1 ex_sha256 ex_trace (Some [(''10.0.0.1'', ''web'')]) None = Inr ([a], None)"
    "trace_alert_for ex_sha1 (hits_of (tb_events ex_trace)) (DOMAIN, ''evil.com'') a"
    using trace_alerts [OF ex_digests ok, of None] unfolding keys by (auto simp: MAX_ALERTS_PER_INGEST_def list_all2_Cons1)
  have "CRITICAL \<le> al_severity a" "al_related_trace_ids a = [''t1'', ''t2'']"
    using a(2) unfolding hits trace_alert_for_def Let_def by (simp_all add: hit_key_def ex_trace_defs MAX_RELATED_IDS_def)
  moreover from this have "al_severity a = CRITICAL" by (cases "al_severity a") (simp_all add: less_eq_severity_def)
  ultimately show ?thesis using a(1) by blast
qed

definition ex_detections :: "detection_result list" where
  "ex_detections = [\<lparr>dr_host_id = ''web'', dr_vulnerabilities = [\<lparr>vu_vuln_id = ''CVE-1'', vu_severity = CRITICAL\<rparr>, \<lparr>vu_vuln_id = ''CVE-2'', vu_severity = LOW\<rparr>]\<rparr>]"

definition ex_source :: alert where
  "ex_source = \<lparr>al_alert_id = ''i'', al_alert_key = Some ''k'', al_severity = HIGH, al_status = OPEN, al_score = 75, al_title = ''t'', al_description = ''d'',
     al_related_asset_ids = [''db'', ''web''], al_related_vuln_ids = [], al_related_trace_ids = [''t1''], al_evidence_truncated = False, al_assignee = None,
     al_note = None, al_suppressed = False, al_occurrence_count = 1, al_last_seen = None, al_created_at = 5, al_updated_at = None\<rparr>"

lemma ex_risky: "all_risky_hosts (worst_severity_by_host ex_detections) ex_source = [''web'']"
  by (simp add: all_risky_hosts_def worst_severity_by_host_def note_vuln_def ex_detections_def ex_source_def high_risk_def)

lemma ex_sources_ok: "detections_ok ex_detections" "list_all source_ok [ex_source]"
  by (simp_all add: detections_ok_def source_ok_def ex_detections_def ex_source_def ident_eval)

theorem cross_alerts_justified_witness:
  "\<exists>a. cross_source_alerts ex_sha1 ex_sha256 ''b1'' 5 [ex_source] ex_detections None = Inr ([a], None) \<and> al_related_asset_ids a = [''web''] \<and> justified ex_detections ex_source a"
proof -
  obtain a where a: "cross_source_alerts ex_sha1 ex_sha256 ''b1'' 5 [ex_source] ex_detections None = Inr ([a], None)" "justified ex_detections ex_source a"
    using cross_alerts_justified [OF ex_digests ex_sources_ok, of "''b1''" 5 None] by (auto simp: ex_risky MAX_ALERTS_PER_INGEST_def list_all2_Cons1)
  have "map_sum id (\<lambda>(as, _). map al_related_asset_ids as) (cross_source_alerts ex_sha1 ex_sha256 ''b1'' 5 [ex_source] ex_detections None) = Inr [[''web'']]"
    by code_simp
  then show ?thesis using a by simp
qed

definition ex_hit :: "string \<Rightarrow> string \<Rightarrow> guard_event" where
  "ex_hit host category = NetworkEvent \<lparr>ge_severity = HIGH, ge_host_id = host, ge_action_taken = ActNone, ne_indicator = ''evil.com'', ne_indicator_type = DOMAIN,
     ne_category = category, ne_source = ''feed''\<rparr>"

definition ex_guard :: guard_event_batch where
  "ex_guard = \<lparr>gb_batch_id = ''g1'', gb_collected_at = 5, gb_events = [ex_hit ''web'' ''c2'', ex_hit ''db'' ''c2'', ProcessEvent (ex_process ''r'' ''sh'')]\<rparr>"

lemma ex_guard_ok: "guard_batch_ok ex_guard"
  by (simp add: guard_batch_ok_def ex_guard_def ex_hit_def ex_process_def ident_eval)

theorem guard_alerts_cover_witness:
  "\<exists>alerts ls'. correlate_guard_batch ex_sha1 ex_sha256 ex_guard (Some new_limit_state) = Inr (alerts, ls') \<and> length alerts = 2
     \<and> (\<exists>a \<in> set alerts. event_covered ex_sha1 (ex_hit ''db'' ''c2'') a)"
proof -
  have run: "map_sum id (\<lambda>(as, ls). (length as, map_option cl_truncated ls)) (correlate_guard_batch ex_sha1 ex_sha256 ex_guard (Some new_limit_state)) = Inr (2, Some False)"
    by code_simp
  obtain alerts ls' where r: "correlate_guard_batch ex_sha1 ex_sha256 ex_guard (Some new_limit_state) = Inr (alerts, ls')"
    "\<forall>l. ls' = Some l \<and> \<not> cl_truncated l \<longrightarrow> (\<forall>ev \<in> set (gb_events ex_guard). \<exists>a \<in> set alerts. event_covered ex_sha1 ev a)"
    using guard_alerts_cover [OF ex_digests ex_guard_ok ex_sources_ok(1), of "Some new_limit_state" "''b1''" 5] by blast
  have "ex_hit ''db'' ''c2'' \<in> set (gb_events ex_guard)" by (simp add: ex_guard_def)
  then show ?thesis using r run by auto
qed

definition ex_burst :: guard_event_batch where
  "ex_burst = \<lparr>gb_batch_id = ''g2'', gb_collected_at = 5,
     gb_events = map (ex_hit ''web'') [''1'', ''2'', ''3'', ''4'', ''5'', ''6'', ''7'', ''8'', ''9''] @ [ex_hit ''db'' ''1'']\<rparr>"

text \<open>A truncated guard group stops collecting. A burst of connections from one host with nine categories fills the label list of
  its group; from then on the group appends nothing, so a second host that hit the same indicator is missing from
  the alert's assets and from its score, although one of the 64 places is taken: the condition in
  \<open>_append_group\<close> skips the call once the flag is set.\<close>

theorem guard_group_stuck:
  "ex_hit ''db'' ''1'' \<in> set (gb_events ex_burst)
   \<and> (\<exists>a. correlate_guard_batch ex_sha1 ex_sha256 ex_burst None = Inr ([a], None) \<and> al_related_asset_ids a = [''web''] \<and> al_score a = 75)"
proof -
  have "map_sum id (\<lambda>(as, ls). (map (\<lambda>a. (al_related_asset_ids a, al_score a)) as, ls)) (correlate_guard_batch ex_sha1 ex_sha256 ex_burst None)
      = Inr ([([''web''], 75)], None)"
    by code_simp
  then show ?thesis by (cases "correlate_guard_batch ex_sha1 ex_sha256 ex_burst None") (auto simp: ex_burst_def)
qed

end
