(* ===== verification/Alert_Lifecycle.thy ===== *)
theory Alert_Lifecycle
  imports Correlate_Cross
begin

text \<open>
  The read model of alerts, \<open>analyzer/correlate/lifecycle.py\<close>: stored occurrences are collapsed by key, their related ids united
  newest first, and the latest triage state laid over the result. A stored row is a dictionary whose keys may be
  missing (\<open>None\<close>); the related lists are JSON values, so they may be no list and their elements no strings.
  Instants are integers. The state of the loop is the record of its five dictionaries.
\<close>

section \<open>Rows\<close>

datatype jval = JStr string | JOther
datatype jfield = JList "jval list" | JNotList

record alert_row =
  ar_alert_id :: "string option"
  ar_alert_key :: "string option"
  ar_severity :: "severity option"
  ar_status :: "alert_status option"
  ar_score :: "rat option"
  ar_title :: "string option"
  ar_description :: "string option"
  ar_related_asset_ids :: "jfield option"
  ar_related_vuln_ids :: "jfield option"
  ar_related_trace_ids :: "jfield option"
  ar_evidence_truncated :: bool
  ar_assignee :: "string option"
  ar_note :: "string option"
  ar_suppressed :: bool
  ar_last_seen :: "int option"
  ar_created_at :: "int option"
  ar_updated_at :: "int option"

record state_row =
  sr_alert_key :: "string option"
  sr_status :: "alert_status option"
  sr_assignee :: "string option"
  sr_note :: "string option"
  sr_suppressed :: "bool option"
  sr_updated_at :: "int option"

record related =
  rl_assets :: "string list"
  rl_vulns :: "string list"
  rl_traces :: "string list"

section \<open>Operations\<close>

definition append_value :: "jval \<Rightarrow> string list \<times> bool \<Rightarrow> string list \<times> bool" where
  "append_value v = (\<lambda>(target, tr). case v of JOther \<Rightarrow> (target, tr)
     | JStr x \<Rightarrow> if x \<in> set target then (target, tr)
         else if MAX_NESTED_LIST_ITEMS \<le> length target then (target, True)
         else (target @ [x], tr))"

definition append_field :: "jfield option \<Rightarrow> string list \<times> bool \<Rightarrow> string list \<times> bool" where
  "append_field f s = (case f of Some (JList vs) \<Rightarrow> fold append_value vs s | _ \<Rightarrow> s)"

definition no_related :: related where
  "no_related = \<lparr>rl_assets = [], rl_vulns = [], rl_traces = []\<rparr>"

definition append_related_evidence :: "string \<Rightarrow> alert_row \<Rightarrow> (string \<Rightarrow> related option) \<times> string list \<Rightarrow> (string \<Rightarrow> related option) \<times> string list" where
  "append_related_evidence key row = (\<lambda>(unions, truncated).
     let fields = (case unions key of None \<Rightarrow> no_related | Some f \<Rightarrow> f);
         (a, t1) = append_field (ar_related_asset_ids row) (rl_assets fields, False);
         (v, t2) = append_field (ar_related_vuln_ids row) (rl_vulns fields, t1);
         (t, t3) = append_field (ar_related_trace_ids row) (rl_traces fields, t2) in
     (unions(key \<mapsto> \<lparr>rl_assets = a, rl_vulns = v, rl_traces = t\<rparr>),
      if t3 \<or> ar_evidence_truncated row then List.insert key truncated else truncated))"

definition or_str :: "string option \<Rightarrow> string option \<Rightarrow> string option" where
  "or_str a b = (if a = None \<or> a = Some [] then b else a)"

definition occurrence_key :: "alert_row \<Rightarrow> string" where
  "occurrence_key row = (case or_str (ar_alert_key row) (ar_alert_id row) of None \<Rightarrow> [] | Some k \<Rightarrow> k)"

definition latest_state_by_key :: "state_row list \<Rightarrow> string \<Rightarrow> state_row option" where
  "latest_state_by_key rows = fold (\<lambda>row latest. case sr_alert_key row of None \<Rightarrow> latest
     | Some k \<Rightarrow> if k \<noteq> [] \<and> latest k = None then latest(k \<mapsto> row) else latest) rows Map.empty"

record merge_acc =
  ma_newest :: "(string \<times> alert_row) list"
  ma_counts :: "string \<Rightarrow> nat option"
  ma_last_seen :: "string \<Rightarrow> int option"
  ma_related :: "string \<Rightarrow> related option"
  ma_truncated :: "string list"

definition or_opt :: "'a option \<Rightarrow> 'a option \<Rightarrow> 'a option" where
  "or_opt a b = (case a of None \<Rightarrow> b | Some x \<Rightarrow> Some x)"

definition absorb_row :: "alert_row \<Rightarrow> merge_acc \<Rightarrow> merge_acc" where
  "absorb_row row m =
     (let key = occurrence_key row;
          (rel, tr) = append_related_evidence key row (ma_related m, ma_truncated m);
          m1 = m\<lparr>ma_related := rel, ma_truncated := tr,
                 ma_counts := (ma_counts m)(key \<mapsto> (case ma_counts m key of None \<Rightarrow> 0 | Some n \<Rightarrow> n) + 1)\<rparr> in
      case map_of (ma_newest m1) key of
        Some _ \<Rightarrow> m1
      | None \<Rightarrow>
          let m2 = m1\<lparr>ma_newest := AList.update key row (ma_newest m1)\<rparr> in
          (case or_opt (ar_last_seen row) (or_opt (ar_updated_at row) (ar_created_at row)) of
             None \<Rightarrow> m2 | Some seen \<Rightarrow> m2\<lparr>ma_last_seen := (ma_last_seen m2)(key \<mapsto> seen)\<rparr>))"

definition empty_acc :: merge_acc where
  "empty_acc = \<lparr>ma_newest = [], ma_counts = Map.empty, ma_last_seen = Map.empty, ma_related = Map.empty, ma_truncated = []\<rparr>"

text \<open>\<open>Alert.model_validate\<close> of the merged dictionary: a missing required field is refused, and so is an explicit null status.\<close>

definition merged_alert :: "merge_acc \<Rightarrow> (string \<Rightarrow> state_row option) \<Rightarrow> string \<times> alert_row \<Rightarrow> alert result" where
  "merged_alert m states = (\<lambda>(key, row).
     let state = states key;
         rel = (case ma_related m key of None \<Rightarrow> no_related | Some f \<Rightarrow> f);
         status = (case state of None \<Rightarrow> Some (case ar_status row of None \<Rightarrow> OPEN | Some s \<Rightarrow> s) | Some s \<Rightarrow> or_opt (sr_status s) (ar_status row)) in
     case (ar_alert_id row, ar_severity row, status, ar_score row, ar_title row, ar_description row, ar_created_at row) of
       (Some i, Some sev, Some st, Some sc, Some t, Some d, Some c) \<Rightarrow>
         validate_alert \<lparr>al_alert_id = i, al_alert_key = ar_alert_key row, al_severity = sev, al_status = st, al_score = sc, al_title = t, al_description = d,
           al_related_asset_ids = rl_assets rel, al_related_vuln_ids = rl_vulns rel, al_related_trace_ids = rl_traces rel,
           al_evidence_truncated = (key \<in> set (ma_truncated m)),
           al_assignee = (case state of None \<Rightarrow> ar_assignee row | Some s \<Rightarrow> sr_assignee s),
           al_note = (case state of None \<Rightarrow> ar_note row | Some s \<Rightarrow> sr_note s),
           al_suppressed = (case state of None \<Rightarrow> ar_suppressed row | Some s \<Rightarrow> (sr_suppressed s = Some True)),
           al_occurrence_count = int (case ma_counts m key of None \<Rightarrow> 1 | Some n \<Rightarrow> n),
           al_last_seen = ma_last_seen m key, al_created_at = c,
           al_updated_at = (case state of None \<Rightarrow> ar_updated_at row | Some s \<Rightarrow> sr_updated_at s)\<rparr>
     | _ \<Rightarrow> Inl ValidationError)"

definition merge_alerts :: "alert_row list \<Rightarrow> state_row list \<Rightarrow> bool \<Rightarrow> alert list result" where
  "merge_alerts alert_rows state_rows include_suppressed =
     (let states = latest_state_by_key state_rows;
          m = fold absorb_row alert_rows empty_acc in
      rfold (\<lambda>kr out. rbind (merged_alert m states kr) (\<lambda>a.
          if al_suppressed a \<and> \<not> include_suppressed then Inr out else Inr (out @ [a])))
        (ma_newest m) [])"

section \<open>The state of the loop\<close>

definition strings_of :: "jfield option \<Rightarrow> string list" where
  "strings_of f = (case f of Some (JList vs) \<Rightarrow> List.map_filter (\<lambda>v. case v of JStr x \<Rightarrow> Some x | JOther \<Rightarrow> None) vs | _ \<Rightarrow> [])"

definition united :: "(alert_row \<Rightarrow> jfield option) \<Rightarrow> alert_row list \<Rightarrow> string list" where
  "united field rows = fromkeys (concat (map (\<lambda>r. strings_of (field r)) rows))"

lemma fromkeys_append: "\<exists>zs. fromkeys (xs @ ws) = fromkeys xs @ zs"
proof (induction ws rule: rev_induct)
  case (snoc w ws)
  then obtain zs where zs: "fromkeys (xs @ ws) = fromkeys xs @ zs" by blast
  have "fromkeys (xs @ ws @ [w]) = (if w \<in> set (xs @ ws) then fromkeys (xs @ ws) else fromkeys (xs @ ws) @ [w])"
    by (metis append_assoc fromkeys_snoc)
  then show ?case unfolding zs by (metis append_assoc)
qed simp

lemma append_value_step:
  "append_value (JStr x) (take MAX_NESTED_LIST_ITEMS (fromkeys xs), tr)
     = (take MAX_NESTED_LIST_ITEMS (fromkeys (xs @ [x])), tr \<or> x \<notin> set (take MAX_NESTED_LIST_ITEMS (fromkeys (xs @ [x]))))"
proof -
  let ?N = MAX_NESTED_LIST_ITEMS
  consider (held) "x \<in> set (take ?N (fromkeys xs))" | (lost) "x \<notin> set (take ?N (fromkeys xs))" "x \<in> set xs" | (new) "x \<notin> set xs" by blast
  then show ?thesis
  proof cases
    case held
    then have "x \<in> set xs" by (auto dest: in_set_takeD)
    then show ?thesis using held by (simp add: append_value_def fromkeys_snoc)
  next
    case lost
    then have "?N < length (fromkeys xs)" by (metis not_le set_fromkeys take_all)
    then show ?thesis using lost by (simp add: append_value_def fromkeys_snoc)
  qed (auto simp: append_value_def fromkeys_snoc dest: in_set_takeD)
qed

lemma append_values_united:
  "fold append_value vs (take MAX_NESTED_LIST_ITEMS (fromkeys xs), tr) =
     (take MAX_NESTED_LIST_ITEMS (fromkeys (xs @ strings_of (Some (JList vs)))),
      tr \<or> \<not> set (strings_of (Some (JList vs))) \<subseteq> set (take MAX_NESTED_LIST_ITEMS (fromkeys (xs @ strings_of (Some (JList vs))))))"
proof (induction vs arbitrary: xs tr)
  case Nil
  then show ?case by (simp add: strings_of_def List.map_filter_simps)
next
  case (Cons v vs)
  let ?N = MAX_NESTED_LIST_ITEMS and ?ws = "strings_of (Some (JList vs))"
  show ?case
  proof (cases v)
    case JOther
    then show ?thesis using Cons by (simp add: append_value_def strings_of_def List.map_filter_simps)
  next
    case (JStr x)
    have ws: "strings_of (Some (JList (v # vs))) = x # ?ws" using JStr by (simp add: strings_of_def List.map_filter_simps)
    have ass: "xs @ x # ?ws = (xs @ [x]) @ ?ws" by simp
    obtain zs where zs: "fromkeys ((xs @ [x]) @ ?ws) = fromkeys (xs @ [x]) @ zs" using fromkeys_append by blast
    have "x \<in> set (take ?N (fromkeys (xs @ [x]))) \<longleftrightarrow> x \<in> set (take ?N (fromkeys ((xs @ [x]) @ ?ws)))"
    proof (cases "length (fromkeys (xs @ [x])) \<le> ?N")
      case True
      then show ?thesis unfolding zs by simp
    next
      case False
      then show ?thesis unfolding zs by simp
    qed
    then show ?thesis using Cons [of "xs @ [x]"] unfolding ws ass by (simp add: JStr append_value_step)
  qed
qed

lemma append_field_united:
  "append_field f (take MAX_NESTED_LIST_ITEMS (fromkeys xs), tr) =
     (take MAX_NESTED_LIST_ITEMS (fromkeys (xs @ strings_of f)),
      tr \<or> \<not> set (strings_of f) \<subseteq> set (take MAX_NESTED_LIST_ITEMS (fromkeys (xs @ strings_of f))))"
proof (cases "\<exists>vs. f = Some (JList vs)")
  case True
  then show ?thesis using append_values_united by (auto simp: append_field_def)
next
  case False
  then have "strings_of f = []" "append_field f = id" by (auto simp: strings_of_def append_field_def fun_eq_iff split: option.splits jfield.splits)
  then show ?thesis by simp
qed

text \<open>The rows of one key, newest first, and what the loop holds for it.\<close>

definition rows_of :: "alert_row list \<Rightarrow> string \<Rightarrow> alert_row list" where
  "rows_of rows k = filter (\<lambda>r. occurrence_key r = k) rows"

definition bounded_union :: "(alert_row \<Rightarrow> jfield option) \<Rightarrow> alert_row list \<Rightarrow> string list" where
  "bounded_union field rows = take MAX_NESTED_LIST_ITEMS (united field rows)"

definition union_cut :: "alert_row list \<Rightarrow> bool" where
  "union_cut rows = (\<exists>field \<in> {ar_related_asset_ids, ar_related_vuln_ids, ar_related_trace_ids}. MAX_NESTED_LIST_ITEMS < length (united field rows))"

definition evidence_cut :: "alert_row list \<Rightarrow> bool" where
  "evidence_cut rows = (union_cut rows \<or> (\<exists>r \<in> set rows. ar_evidence_truncated r))"

definition seen_at :: "alert_row \<Rightarrow> int option" where
  "seen_at r = or_opt (ar_last_seen r) (or_opt (ar_updated_at r) (ar_created_at r))"

definition acc_ok :: "alert_row list \<Rightarrow> merge_acc \<Rightarrow> bool" where
  "acc_ok rows m = (let ks = fromkeys (map occurrence_key rows) in
     ma_newest m = map (\<lambda>k. (k, hd (rows_of rows k))) ks
     \<and> (\<forall>k. ma_counts m k = (if k \<in> set ks then Some (length (rows_of rows k)) else None))
     \<and> (\<forall>k. ma_last_seen m k = (if k \<in> set ks then seen_at (hd (rows_of rows k)) else None))
     \<and> (\<forall>k. ma_related m k = (if k \<in> set ks then Some \<lparr>rl_assets = bounded_union ar_related_asset_ids (rows_of rows k),
           rl_vulns = bounded_union ar_related_vuln_ids (rows_of rows k), rl_traces = bounded_union ar_related_trace_ids (rows_of rows k)\<rparr> else None))
     \<and> set (ma_truncated m) = {k \<in> set ks. evidence_cut (rows_of rows k)})"

lemma rows_of_snoc: "rows_of (rows @ [r]) k = (if occurrence_key r = k then rows_of rows k @ [r] else rows_of rows k)"
  by (simp add: rows_of_def)

lemma rows_of_nonempty: "k \<in> set (map occurrence_key rows) \<Longrightarrow> rows_of rows k \<noteq> []"
  by (auto simp: rows_of_def filter_empty_conv)

lemma rows_of_empty: "k \<notin> set (map occurrence_key rows) \<Longrightarrow> rows_of rows k = []"
  by (auto simp: rows_of_def filter_empty_conv)

lemma united_snoc: "united f (rows @ [r]) = fromkeys (concat (map (\<lambda>r. strings_of (f r)) rows) @ strings_of (f r))"
  by (simp add: united_def)

lemma union_step:
  "append_field (f r) (bounded_union f rows, tr) = (bounded_union f (rows @ [r]), tr \<or> \<not> set (strings_of (f r)) \<subseteq> set (bounded_union f (rows @ [r])))"
  unfolding bounded_union_def united_snoc unfolding united_def by (rule append_field_united)

lemma last_not_taken:
  assumes "distinct xs" "n < length xs"
  shows "last xs \<notin> set (take n xs)"
proof -
  have "last xs \<in> set (drop n xs)" using assms(2) by (metis drop_eq_Nil last_drop last_in_set not_le)
  moreover have "set (take n xs) \<inter> set (drop n xs) = {}" using assms(1) by (metis append_take_drop_id distinct_append)
  ultimately show ?thesis by blast
qed

lemma united_long:
  "MAX_NESTED_LIST_ITEMS < length (united f (rows @ [r])) \<longleftrightarrow> MAX_NESTED_LIST_ITEMS < length (united f rows)
     \<or> \<not> set (strings_of (f r)) \<subseteq> set (bounded_union f (rows @ [r]))"
proof -
  let ?N = MAX_NESTED_LIST_ITEMS and ?xs = "concat (map (\<lambda>r. strings_of (f r)) rows)" and ?ws = "strings_of (f r)"
  obtain zs where zs: "fromkeys (?xs @ ?ws) = fromkeys ?xs @ zs" using fromkeys_append by blast
  have zsub: "set zs \<subseteq> set ?ws"
  proof -
    have d: "distinct (fromkeys ?xs @ zs)" by (metis distinct_fromkeys zs)
    have "set (fromkeys (?xs @ ?ws)) = set ?xs \<union> set ?ws" by simp
    then have "set ?xs \<union> set zs = set ?xs \<union> set ?ws" unfolding zs by simp
    moreover have "set ?xs \<inter> set zs = {}" using d by simp
    ultimately show "set zs \<subseteq> set ?ws" by blast
  qed
  show ?thesis
  proof (cases "?N < length (fromkeys (?xs @ ?ws))")
    case False
    then have "take ?N (fromkeys (?xs @ ?ws)) = fromkeys (?xs @ ?ws)" "length (fromkeys ?xs) \<le> ?N" by (auto simp: zs)
    then show ?thesis using False unfolding bounded_union_def united_snoc unfolding united_def by simp
  next
    case True
    show ?thesis
    proof (cases "?N < length (fromkeys ?xs)")
      case short: False
      have "last zs \<notin> set (take ?N (fromkeys (?xs @ ?ws)))" "zs \<noteq> []"
      proof -
        show ne: "zs \<noteq> []" using True short zs by auto
        have "last zs = last (fromkeys (?xs @ ?ws))" using ne unfolding zs by simp
        then show "last zs \<notin> set (take ?N (fromkeys (?xs @ ?ws)))" using last_not_taken [OF distinct_fromkeys True] by simp
      qed
      then show ?thesis using True zsub last_in_set [of zs] unfolding bounded_union_def united_snoc by blast
    qed (use True in \<open>simp add: united_def\<close>)
  qed
qed

lemma absorb_row_fields:
  "ma_related (absorb_row r m) = fst (append_related_evidence (occurrence_key r) r (ma_related m, ma_truncated m))"
  "ma_truncated (absorb_row r m) = snd (append_related_evidence (occurrence_key r) r (ma_related m, ma_truncated m))"
  "ma_counts (absorb_row r m) = (ma_counts m)(occurrence_key r \<mapsto> (case ma_counts m (occurrence_key r) of None \<Rightarrow> 0 | Some n \<Rightarrow> n) + 1)"
  "ma_newest (absorb_row r m) = (if map_of (ma_newest m) (occurrence_key r) = None then AList.update (occurrence_key r) r (ma_newest m) else ma_newest m)"
  "ma_last_seen (absorb_row r m) = (if map_of (ma_newest m) (occurrence_key r) = None \<and> seen_at r \<noteq> None
     then (ma_last_seen m)(occurrence_key r := seen_at r) else ma_last_seen m)"
  by (auto simp: absorb_row_def seen_at_def Let_def split: prod.splits option.splits)

lemma related_step:
  assumes "unions k = (if old = [] then None else Some \<lparr>rl_assets = bounded_union ar_related_asset_ids old, rl_vulns = bounded_union ar_related_vuln_ids old,
      rl_traces = bounded_union ar_related_trace_ids old\<rparr>)"
  shows "\<exists>cut. append_related_evidence k r (unions, tr) = (unions(k \<mapsto> \<lparr>rl_assets = bounded_union ar_related_asset_ids (old @ [r]),
      rl_vulns = bounded_union ar_related_vuln_ids (old @ [r]), rl_traces = bounded_union ar_related_trace_ids (old @ [r])\<rparr>),
      if cut then List.insert k tr else tr) \<and> (evidence_cut (old @ [r]) \<longleftrightarrow> evidence_cut old \<or> cut)"
proof -
  have none: "bounded_union f [] = []" for f by (simp add: bounded_union_def united_def)
  define fields where "fields = (case unions k of None \<Rightarrow> no_related | Some f \<Rightarrow> f)"
  have f: "rl_assets fields = bounded_union ar_related_asset_ids old" "rl_vulns fields = bounded_union ar_related_vuln_ids old"
    "rl_traces fields = bounded_union ar_related_trace_ids old"
    using assms by (auto simp: fields_def no_related_def none)
  let ?c = "\<lambda>fl. \<not> set (strings_of (fl r)) \<subseteq> set (bounded_union fl (old @ [r]))"
  define cut where "cut = (((?c ar_related_asset_ids \<or> ?c ar_related_vuln_ids) \<or> ?c ar_related_trace_ids) \<or> ar_evidence_truncated r)"
  have "append_related_evidence k r (unions, tr) = (unions(k \<mapsto> \<lparr>rl_assets = bounded_union ar_related_asset_ids (old @ [r]),
      rl_vulns = bounded_union ar_related_vuln_ids (old @ [r]), rl_traces = bounded_union ar_related_trace_ids (old @ [r])\<rparr>),
      if cut then List.insert k tr else tr)"
    unfolding append_related_evidence_def prod.case Let_def fields_def [symmetric] f union_step cut_def by (simp only: simp_thms)
  moreover have "evidence_cut (old @ [r]) \<longleftrightarrow> evidence_cut old \<or> cut"
    by (auto simp: evidence_cut_def union_cut_def united_long cut_def)
  ultimately show ?thesis by blast
qed

lemma acc_ok_step:
  assumes "acc_ok rows m"
  shows "acc_ok (rows @ [r]) (absorb_row r m)"
proof -
  let ?k = "occurrence_key r" and ?ks = "fromkeys (map occurrence_key rows)" and ?ks' = "fromkeys (map occurrence_key (rows @ [r]))"
  have inv: "ma_newest m = map (\<lambda>k. (k, hd (rows_of rows k))) ?ks"
    "\<And>k. ma_counts m k = (if k \<in> set ?ks then Some (length (rows_of rows k)) else None)"
    "\<And>k. ma_last_seen m k = (if k \<in> set ?ks then seen_at (hd (rows_of rows k)) else None)"
    "\<And>k. ma_related m k = (if k \<in> set ?ks then Some \<lparr>rl_assets = bounded_union ar_related_asset_ids (rows_of rows k),
           rl_vulns = bounded_union ar_related_vuln_ids (rows_of rows k), rl_traces = bounded_union ar_related_trace_ids (rows_of rows k)\<rparr> else None)"
    "set (ma_truncated m) = {k \<in> set ?ks. evidence_cut (rows_of rows k)}"
    using assms by (simp_all add: acc_ok_def Let_def)
  have ks': "?ks' = (if ?k \<in> set (map occurrence_key rows) then ?ks else ?ks @ [?k])" by (simp add: fromkeys_snoc)
  have looked: "map_of (ma_newest m) ?k = None \<longleftrightarrow> ?k \<notin> set (map occurrence_key rows)" by (simp add: inv(1) map_of_pairs)
  have empty: "rows_of rows ?k = [] \<longleftrightarrow> ?k \<notin> set (map occurrence_key rows)" using rows_of_nonempty rows_of_empty by blast
  have hd': "hd (rows_of (rows @ [r]) k) = hd (rows_of rows k)" if "k \<in> set (map occurrence_key rows)" for k
    using rows_of_nonempty [OF that] by (simp add: rows_of_snoc)
  have rel: "ma_related m ?k = (if rows_of rows ?k = [] then None else Some \<lparr>rl_assets = bounded_union ar_related_asset_ids (rows_of rows ?k),
      rl_vulns = bounded_union ar_related_vuln_ids (rows_of rows ?k), rl_traces = bounded_union ar_related_trace_ids (rows_of rows ?k)\<rparr>)"
    using inv(4) [of ?k] empty by simp
  obtain cut where ev: "append_related_evidence ?k r (ma_related m, ma_truncated m) = ((ma_related m)(?k \<mapsto> \<lparr>rl_assets = bounded_union ar_related_asset_ids (rows_of rows ?k @ [r]),
      rl_vulns = bounded_union ar_related_vuln_ids (rows_of rows ?k @ [r]), rl_traces = bounded_union ar_related_trace_ids (rows_of rows ?k @ [r])\<rparr>),
      if cut then List.insert ?k (ma_truncated m) else ma_truncated m)" "evidence_cut (rows_of rows ?k @ [r]) \<longleftrightarrow> evidence_cut (rows_of rows ?k) \<or> cut"
    using related_step [where unions = "ma_related m" and k = "?k" and old = "rows_of rows ?k", OF rel, of r "ma_truncated m"] by blast
  have no_cut: "\<not> evidence_cut []" by (simp add: evidence_cut_def union_cut_def united_def)
  have newest: "ma_newest (absorb_row r m) = map (\<lambda>k. (k, hd (rows_of (rows @ [r]) k))) ?ks'"
  proof (cases "?k \<in> set (map occurrence_key rows)")
    case True
    have "map (\<lambda>k. (k, hd (rows_of (rows @ [r]) k))) ?ks = ma_newest m" unfolding inv(1) by (rule map_cong) (use hd' in auto)
    then show ?thesis unfolding absorb_row_fields(4) ks' using True looked by auto
  next
    case False
    have "map (\<lambda>k. (k, hd (rows_of (rows @ [r]) k))) ?ks = ma_newest m" unfolding inv(1) by (rule map_cong) (use hd' in auto)
    moreover have "?k \<notin> fst ` set (ma_newest m)" using False by (auto simp: inv(1))
    ultimately show ?thesis unfolding absorb_row_fields(4) ks' using False looked update_new [of ?k "ma_newest m" r] by (simp add: rows_of_snoc rows_of_empty)
  qed
  have counts: "ma_counts (absorb_row r m) k = (if k \<in> set ?ks' then Some (length (rows_of (rows @ [r]) k)) else None)" for k
    using rows_of_empty [of k rows] by (auto simp: absorb_row_fields inv(2) rows_of_snoc)
  have seen: "ma_last_seen (absorb_row r m) k = (if k \<in> set ?ks' then seen_at (hd (rows_of (rows @ [r]) k)) else None)" for k
    using rows_of_empty [of k rows] hd' [of k] looked by (auto simp: absorb_row_fields inv(3) rows_of_snoc)
  have related: "ma_related (absorb_row r m) k = (if k \<in> set ?ks' then Some \<lparr>rl_assets = bounded_union ar_related_asset_ids (rows_of (rows @ [r]) k),
       rl_vulns = bounded_union ar_related_vuln_ids (rows_of (rows @ [r]) k), rl_traces = bounded_union ar_related_trace_ids (rows_of (rows @ [r]) k)\<rparr> else None)" for k
    by (simp add: absorb_row_fields ev(1) inv(4) rows_of_snoc)
  have trunc: "set (ma_truncated (absorb_row r m)) = {k \<in> set ?ks'. evidence_cut (rows_of (rows @ [r]) k)}"
  proof (cases "?k \<in> set (map occurrence_key rows)")
    case True
    then show ?thesis using ev(2) by (auto simp: absorb_row_fields ev(1) inv(5) rows_of_snoc)
  next
    case False
    then show ?thesis using ev(2) rows_of_empty [OF False] no_cut by (auto simp: absorb_row_fields ev(1) inv(5) rows_of_snoc)
  qed
  show ?thesis unfolding acc_ok_def Let_def using newest counts seen related trunc by blast
qed

lemma acc_ok_fold: "acc_ok rows (fold absorb_row rows empty_acc)"
proof (induction rows rule: rev_induct)
  case Nil
  then show ?case by (simp add: acc_ok_def empty_acc_def)
next
  case (snoc r rows)
  then show ?case using acc_ok_step by simp
qed

lemma latest_state: "latest_state_by_key rows k = (if k = [] then None else find (\<lambda>r. sr_alert_key r = Some k) rows)"
proof -
  have "fold (\<lambda>row latest. case sr_alert_key row of None \<Rightarrow> latest | Some k \<Rightarrow> if k \<noteq> [] \<and> latest k = None then latest(k \<mapsto> row) else latest) rows l k
     = (case l k of Some s \<Rightarrow> Some s | None \<Rightarrow> if k = [] then None else find (\<lambda>r. sr_alert_key r = Some k) rows)" for l
    by (induction rows arbitrary: l) (auto split: option.splits)
  then show ?thesis by (simp add: latest_state_by_key_def)
qed

section \<open>What the console reads\<close>

definition row_ok :: "alert_row \<Rightarrow> bool" where
  "row_ok r = ((\<exists>i. ar_alert_id r = Some i \<and> ident i) \<and> pred_option ident (ar_alert_key r) \<and> ar_severity r \<noteq> None \<and> ar_status r \<noteq> None
     \<and> (\<exists>x. ar_score r = Some x \<and> 0 \<le> x \<and> x \<le> 100) \<and> (\<exists>t. ar_title r = Some t \<and> clean t) \<and> (\<exists>d. ar_description r = Some d \<and> clean d)
     \<and> ar_created_at r \<noteq> None \<and> pred_option clean (ar_assignee r) \<and> pred_option clean (ar_note r)
     \<and> list_all ident (strings_of (ar_related_asset_ids r)) \<and> list_all ident (strings_of (ar_related_vuln_ids r))
     \<and> list_all ident (strings_of (ar_related_trace_ids r)))"

definition state_ok :: "state_row \<Rightarrow> bool" where
  "state_ok s = (pred_option clean (sr_assignee s) \<and> pred_option clean (sr_note s))"

definition triage_of :: "state_row list \<Rightarrow> string \<Rightarrow> state_row option" where
  "triage_of states k = (if k = [] then None else find (\<lambda>s. sr_alert_key s = Some k) states)"

text \<open>The logical alert of a key: newest occurrence, aggregated evidence, latest triage.\<close>

definition merged_for :: "alert_row list \<Rightarrow> state_row list \<Rightarrow> string \<Rightarrow> alert \<Rightarrow> bool" where
  "merged_for rows states k a = (let mine = rows_of rows k; newest = hd mine in
     Some (al_alert_id a) = ar_alert_id newest \<and> Some (al_severity a) = ar_severity newest \<and> Some (al_score a) = ar_score newest
     \<and> al_occurrence_count a = int (length mine) \<and> al_last_seen a = seen_at newest
     \<and> al_related_asset_ids a = bounded_union ar_related_asset_ids mine \<and> al_related_vuln_ids a = bounded_union ar_related_vuln_ids mine
     \<and> al_related_trace_ids a = bounded_union ar_related_trace_ids mine \<and> al_evidence_truncated a = evidence_cut mine
     \<and> (case triage_of states k of
          None \<Rightarrow> Some (al_status a) = ar_status newest \<and> al_suppressed a = ar_suppressed newest \<and> al_assignee a = ar_assignee newest
        | Some s \<Rightarrow> Some (al_status a) = or_opt (sr_status s) (ar_status newest) \<and> al_suppressed a = (sr_suppressed s = Some True)
            \<and> al_assignee a = sr_assignee s \<and> al_note a = sr_note s \<and> al_updated_at a = sr_updated_at s))"

lemma valid_opt_clean: "pred_option clean s \<Longrightarrow> valid_opt_str s = Inr s"
  by (cases s) (simp_all add: valid_opt_str_def valid_str_clean)

lemma valid_ident_fix: "ident s \<Longrightarrow> valid_ident s = Inr s"
  by (simp add: ident_def valid_ident_def)

lemma valid_opt_ident_fix: "pred_option ident s \<Longrightarrow> valid_opt_ident s = Inr s"
  by (cases s) (simp_all add: valid_opt_ident_def valid_ident_fix)

lemma union_idents:
  assumes "\<forall>r \<in> set rows. list_all ident (strings_of (f r))"
  shows "valid_idents (bounded_union f rows) = Inr (bounded_union f rows)"
  using assms by (intro valid_idents_ident) (auto simp: bounded_union_def united_def list_all_iff dest!: in_set_takeD)

lemma merged_alert_ok:
  assumes "\<forall>r \<in> set rows. row_ok r" "\<forall>s \<in> set states. state_ok s" "acc_ok rows m" "k \<in> set (map occurrence_key rows)"
  shows "\<exists>a. merged_alert m (latest_state_by_key states) (k, hd (rows_of rows k)) = Inr a \<and> merged_for rows states k a"
proof -
  let ?mine = "rows_of rows k" and ?st = "triage_of states k"
  define r where "r = hd ?mine"
  have sub: "set ?mine \<subseteq> set rows" by (auto simp: rows_of_def)
  have "r \<in> set ?mine" unfolding r_def by (rule hd_in_set [OF rows_of_nonempty [OF assms(4)]])
  then have "row_ok r" using sub assms(1) by blast
  then obtain i sev st sc t d c where row: "ar_alert_id r = Some i" "ident i" "ar_severity r = Some sev" "ar_status r = Some st" "ar_score r = Some sc"
    "0 \<le> sc" "sc \<le> 100" "ar_title r = Some t" "clean t" "ar_description r = Some d" "clean d" "ar_created_at r = Some c"
    "pred_option ident (ar_alert_key r)" "pred_option clean (ar_assignee r)" "pred_option clean (ar_note r)"
    unfolding row_ok_def by blast
  have ls: "latest_state_by_key states k = ?st" by (simp add: latest_state triage_of_def)
  have stok: "state_ok s" if "?st = Some s" for s
    using that assms(2) by (auto simp: triage_of_def find_Some_iff split: if_splits)
  have m: "ma_related m k = Some \<lparr>rl_assets = bounded_union ar_related_asset_ids ?mine, rl_vulns = bounded_union ar_related_vuln_ids ?mine,
       rl_traces = bounded_union ar_related_trace_ids ?mine\<rparr>" "ma_counts m k = Some (length ?mine)" "ma_last_seen m k = seen_at r"
      "k \<in> set (ma_truncated m) \<longleftrightarrow> evidence_cut ?mine"
    using assms(3,4) by (simp_all add: acc_ok_def Let_def r_def)
  have ids: "valid_idents (bounded_union f ?mine) = Inr (bounded_union f ?mine)" if "f \<in> {ar_related_asset_ids, ar_related_vuln_ids, ar_related_trace_ids}" for f
    using that sub assms(1) by (intro union_idents) (auto simp: row_ok_def)
  have pos: "1 \<le> int (length ?mine)" using rows_of_nonempty [OF assms(4)] by (cases ?mine) auto
  have as: "valid_opt_str (case ?st of None \<Rightarrow> ar_assignee r | Some s \<Rightarrow> sr_assignee s) = Inr (case ?st of None \<Rightarrow> ar_assignee r | Some s \<Rightarrow> sr_assignee s)"
    "valid_opt_str (case ?st of None \<Rightarrow> ar_note r | Some s \<Rightarrow> sr_note s) = Inr (case ?st of None \<Rightarrow> ar_note r | Some s \<Rightarrow> sr_note s)"
    using stok row(14,15) by (auto simp: state_ok_def intro!: valid_opt_clean split: option.splits)
  obtain st' where st': "(case ?st of None \<Rightarrow> Some st | Some s \<Rightarrow> or_opt (sr_status s) (Some st)) = Some st'"
    by (cases ?st; cases "sr_status (the ?st)") (auto simp: or_opt_def)
  show ?thesis
    unfolding merged_alert_def prod.case Let_def ls r_def [symmetric] m option.case row(1,3,4,5,8,10,12) st' validate_alert_def
    using ids pos as row(6,7) st'
    by (cases ?st) (simp_all add: valid_ident_fix [OF row(2)] valid_opt_ident_fix [OF row(13)] valid_str_clean [OF row(9)] valid_str_clean [OF row(11)]
      merged_for_def Let_def r_def [symmetric] row(1,3,4,5) not_less rows_of_nonempty [OF assms(4)])
qed

lemma rfold_filter:
  assumes "\<forall>x \<in> set xs. f x = Inr (g x)"
  shows "rfold (\<lambda>x out. rbind (f x) (\<lambda>a. if P a then Inr out else Inr (out @ [a]))) xs out = Inr (out @ filter (\<lambda>a. \<not> P a) (map g xs))"
  using assms by (induction xs arbitrary: out) auto

text \<open>C25: One logical alert per finding. For stored rows as the analyzer writes them, merging never fails and returns, newest first, exactly one
  alert per alert key: it shows the newest occurrence, counts all occurrences of the key, unites their related ids newest
  first up to 256 per list and says so exactly when one was left out, and carries the latest triage state of the key; suppressed
  alerts are left out unless asked for.\<close>

theorem merge_alerts_logical:
  assumes "list_all row_ok rows" "list_all state_ok states"
  shows "\<exists>alerts. list_all2 (merged_for rows states) (fromkeys (map occurrence_key rows)) alerts
    \<and> merge_alerts rows states inc = Inr (filter (\<lambda>a. inc \<or> \<not> al_suppressed a) alerts)"
proof -
  define m where "m = fold absorb_row rows empty_acc"
  let ?ks = "fromkeys (map occurrence_key rows)" and ?f = "merged_alert m (latest_state_by_key states)"
  have ok: "acc_ok rows m" by (simp add: m_def acc_ok_fold)
  have newest: "ma_newest m = map (\<lambda>k. (k, hd (rows_of rows k))) ?ks" using ok by (simp add: acc_ok_def Let_def)
  have ex: "\<exists>a. ?f (k, hd (rows_of rows k)) = Inr a \<and> merged_for rows states k a" if "k \<in> set ?ks" for k
    using merged_alert_ok [OF _ _ ok, of states k] assms that by (simp add: list_all_iff)
  define g where "g k = (SOME a. ?f (k, hd (rows_of rows k)) = Inr a \<and> merged_for rows states k a)" for k
  have g: "?f (k, hd (rows_of rows k)) = Inr (g k) \<and> merged_for rows states k (g k)" if "k \<in> set ?ks" for k
    unfolding g_def by (rule someI_ex) (rule ex [OF that])
  have "\<forall>x \<in> set (ma_newest m). ?f x = Inr (g (fst x))" unfolding newest using g by auto
  from rfold_filter [OF this, of "\<lambda>a. al_suppressed a \<and> \<not> inc" "[]"]
  have "merge_alerts rows states inc = Inr (filter (\<lambda>a. inc \<or> \<not> al_suppressed a) (map g ?ks))"
    unfolding merge_alerts_def Let_def m_def [symmetric] newest by (simp add: comp_def disj_commute)
  moreover have "list_all2 (merged_for rows states) ?ks (map g ?ks)" using g by (simp add: list_all2_map2 list_all2_same)
  ultimately show ?thesis by blast
qed

definition ex_row :: "string \<Rightarrow> string \<Rightarrow> alert_row" where
  "ex_row i host = \<lparr>ar_alert_id = Some i, ar_alert_key = Some ''k'', ar_severity = Some HIGH, ar_status = Some OPEN, ar_score = Some 75, ar_title = Some ''t'',
     ar_description = Some ''d'', ar_related_asset_ids = Some (JList [JStr host]), ar_related_vuln_ids = Some (JList []), ar_related_trace_ids = None,
     ar_evidence_truncated = False, ar_assignee = None, ar_note = None, ar_suppressed = False, ar_last_seen = None, ar_created_at = Some 5, ar_updated_at = None\<rparr>"

definition ex_state :: state_row where
  "ex_state = \<lparr>sr_alert_key = Some ''k'', sr_status = Some CLOSED, sr_assignee = Some ''ann'', sr_note = None, sr_suppressed = None, sr_updated_at = Some 9\<rparr>"

theorem merge_alerts_logical_witness:
  "\<exists>a. merge_alerts [ex_row ''n'' ''web'', ex_row ''o'' ''db''] [ex_state] False = Inr [a]
     \<and> al_alert_id a = ''n'' \<and> al_occurrence_count a = 2 \<and> al_status a = CLOSED \<and> al_related_asset_ids a = [''web'', ''db'']"
proof -
  let ?rows = "[ex_row ''n'' ''web'', ex_row ''o'' ''db'']"
  have ok: "list_all row_ok ?rows" "list_all state_ok [ex_state]"
    by (simp_all add: row_ok_def state_ok_def ex_row_def ex_state_def ident_def clean_def strip_def isspace_char_def strings_of_def List.map_filter_simps
      MAX_CORRELATION_IDENTIFIER_CHARS_def MAX_WIRE_STRING_CHARS_def)
  have keys: "fromkeys (map occurrence_key ?rows) = [''k'']" by (simp add: occurrence_key_def or_str_def ex_row_def)
  obtain a where a: "merged_for ?rows [ex_state] ''k'' a" "merge_alerts ?rows [ex_state] False = Inr (filter (\<lambda>a. \<not> al_suppressed a) [a])"
    using merge_alerts_logical [OF ok, of False] unfolding keys by (auto simp: list_all2_Cons1)
  have mine: "rows_of ?rows ''k'' = ?rows" by (simp add: rows_of_def occurrence_key_def or_str_def ex_row_def)
  have "al_alert_id a = ''n''" "al_occurrence_count a = 2" "al_status a = CLOSED" "\<not> al_suppressed a" "al_related_asset_ids a = [''web'', ''db'']"
    using a(1) unfolding merged_for_def mine Let_def
    by (simp_all add: triage_of_def ex_state_def or_opt_def bounded_union_def united_def MAX_NESTED_LIST_ITEMS_def, simp_all add: ex_row_def strings_of_def List.map_filter_simps)
  then show ?thesis using a(2) by simp
qed

end
