(* ===== verification/Agent_Registry.thy ===== *)
theory Agent_Registry
  imports Scan_Schemas Sql_Table
begin

text \<open>
  The registry of agent identities, \<open>form/agent_identity_store.py\<close>: a table of stable bindings and a table of certificate generations,
  and every operation of \<open>AgentIdentityRepository\<close> on them. The unique indexes and checks of the schema are decided on the rows a
  statement would leave (\<open>put_certs\<close>, \<open>insert_identity\<close>). A time column is the result of \<open>micros\<close>; \<open>_from_micros\<close> gives the same
  number of microseconds back and is left out. \<open>scopes_json\<close> is the sorted scope list itself: two such texts are equal exactly when the
  lists are. SHA-256 is the parameter \<open>sha\<close>, the identifier \<open>uuid4\<close> draws is an argument.
\<close>

section \<open>Data\<close>

datatype agent_scope = ASSET_REPORT | GUARD_EVENT | TRACE_BATCH

fun scope_value :: "agent_scope \<Rightarrow> string" where
  "scope_value ASSET_REPORT = ''asset-report''"
| "scope_value GUARD_EVENT = ''guard-event''"
| "scope_value TRACE_BATCH = ''trace-batch''"

datatype identity_state = IdentityActive | IdentityRevoked
datatype certificate_state = CertStaged | CertActive | CertRetired | CertRevoked

record identity_row =
  ir_agent_id :: string
  ir_target_id :: string
  ir_canonical_host_id :: string
  ir_scopes :: "agent_scope list"
  ir_state :: identity_state
  ir_generation :: int
  ir_created_at_us :: int
  ir_updated_at_us :: int
  ir_revoked_at_us :: "int option"
  ir_revision :: nat

record cert_row =
  cr_agent_id :: string
  cr_generation :: int
  cr_serial_number :: string
  cr_cert_sha256 :: string
  cr_spki_sha256 :: string
  cr_state :: certificate_state
  cr_certificate_pem :: string
  cr_idempotency_key_sha256 :: "string option"
  cr_not_before_us :: int
  cr_not_after_us :: int
  cr_created_at_us :: int
  cr_activated_at_us :: "int option"
  cr_retired_at_us :: "int option"
  cr_overlap_until_us :: "int option"
  cr_revoked_at_us :: "int option"

record registry =
  identities :: "identity_row list"
  certs :: "cert_row list"

definition empty_registry :: registry where
  "empty_registry = \<lparr>identities = [], certs = []\<rparr>"

record agent_certificate =
  ac_agent_id :: string
  ac_generation :: int
  ac_serial_number :: string
  ac_cert_sha256 :: string
  ac_spki_sha256 :: string
  ac_state :: certificate_state
  ac_not_before :: int
  ac_not_after :: int
  ac_created_at :: int
  ac_activated_at :: "int option"
  ac_retired_at :: "int option"
  ac_overlap_until :: "int option"
  ac_revoked_at :: "int option"

record agent_identity =
  ai_agent_id :: string
  ai_target_id :: string
  ai_canonical_host_id :: string
  ai_scopes :: "agent_scope list"
  ai_state :: identity_state
  ai_generation :: int
  ai_created_at :: int
  ai_updated_at :: int
  ai_revoked_at :: "int option"
  ai_certificates :: "agent_certificate list"

record verified_agent_identity =
  vi_agent_id :: string
  vi_target_id :: string
  vi_canonical_host_id :: string
  vi_scopes :: "agent_scope list"
  vi_certificate :: agent_certificate

section \<open>Normalisation\<close>

definition required_text :: "nat \<Rightarrow> string \<Rightarrow> string result" where
  "required_text max_length s = (let n = strip s in
     if n = [] then Inl ValueError else if max_length < length n then Inl ValueError else Inr n)"

definition id_char :: "char \<Rightarrow> bool" where
  "id_char c = ((65 \<le> code c \<and> code c \<le> 90) \<or> (97 \<le> code c \<and> code c \<le> 122) \<or> (48 \<le> code c \<and> code c \<le> 57) \<or> c \<in> set ''._~-'')"

definition agent_id_pattern :: "string \<Rightarrow> bool" where
  "agent_id_pattern s = (1 \<le> length s \<and> length s \<le> 128 \<and> list_all id_char s)"

definition normalize_agent_id :: "string \<Rightarrow> string result" where
  "normalize_agent_id s = (let n = strip s in if agent_id_pattern n then Inr n else Inl ValueError)"

fun parse_scope :: "string \<Rightarrow> agent_scope result" where
  "parse_scope s = (if s = ''asset-report'' then Inr ASSET_REPORT else if s = ''guard-event'' then Inr GUARD_EVENT
     else if s = ''trace-batch'' then Inr TRACE_BATCH else Inl ValueError)"

definition normalize_scopes :: "string list \<Rightarrow> agent_scope list result" where
  "normalize_scopes ss = rbind (rmap_list parse_scope ss) (\<lambda>xs.
     if xs = [] then Inl ValueError else Inr (sort_key scope_value (remdups xs)))"

definition hex_char :: "char \<Rightarrow> bool" where
  "hex_char c = ((48 \<le> code c \<and> code c \<le> 57) \<or> (97 \<le> code c \<and> code c \<le> 102))"

definition unprefix :: "string \<Rightarrow> string" where
  "unprefix s = (if startswith s ''0x'' then drop 2 s else s)"

definition normalize_hex :: "nat option \<Rightarrow> string \<Rightarrow> string result" where
  "normalize_hex len s = (let n = unprefix (lower (strip s)) in
     if n = [] \<or> \<not> list_all hex_char n then Inl ValueError
     else case len of None \<Rightarrow> Inr n | Some k \<Rightarrow> if length n \<noteq> k then Inl ValueError else Inr n)"

definition normalize_serial :: "string \<Rightarrow> string result" where
  "normalize_serial s = rbind (normalize_hex None s) (\<lambda>n.
     let t = dropWhile (\<lambda>c. c = CHR ''0'') n in Inr (if t = [] then ''0'' else t))"

definition idempotency_hash :: "(string \<Rightarrow> string) \<Rightarrow> string option \<Rightarrow> string option result" where
  "idempotency_hash sha k = (case k of None \<Rightarrow> Inr None
     | Some v \<Rightarrow> let n = strip v in
         if n = [] then Inl ValueError else if 1024 < length n then Inl ValueError else Inr (Some (sha n)))"

section \<open>Models\<close>

definition validate_certificate :: "agent_certificate \<Rightarrow> agent_certificate result" where
  "validate_certificate c =
     (let aid = strip (ac_agent_id c); serial = unprefix (lower (strip (ac_serial_number c)));
          fp = unprefix (lower (strip (ac_cert_sha256 c))); spki = unprefix (lower (strip (ac_spki_sha256 c))) in
      if length aid < 1 \<or> 128 < length aid \<or> ac_generation c < 1
         \<or> length serial < 1 \<or> 64 < length serial \<or> \<not> list_all hex_char serial
         \<or> length fp \<noteq> 64 \<or> \<not> list_all hex_char fp \<or> length spki \<noteq> 64 \<or> \<not> list_all hex_char spki
         \<or> ac_not_after c \<le> ac_not_before c
      then Inl ValidationError
      else Inr (c\<lparr>ac_agent_id := aid, ac_serial_number := serial, ac_cert_sha256 := fp, ac_spki_sha256 := spki\<rparr>))"

definition certificate_from_row :: "cert_row \<Rightarrow> agent_certificate result" where
  "certificate_from_row r = validate_certificate \<lparr>ac_agent_id = cr_agent_id r, ac_generation = cr_generation r, ac_serial_number = cr_serial_number r,
     ac_cert_sha256 = cr_cert_sha256 r, ac_spki_sha256 = cr_spki_sha256 r, ac_state = cr_state r, ac_not_before = cr_not_before_us r,
     ac_not_after = cr_not_after_us r, ac_created_at = cr_created_at_us r, ac_activated_at = cr_activated_at_us r,
     ac_retired_at = cr_retired_at_us r, ac_overlap_until = cr_overlap_until_us r, ac_revoked_at = cr_revoked_at_us r\<rparr>"

definition validate_identity :: "agent_identity \<Rightarrow> agent_identity result" where
  "validate_identity i =
     (let aid = strip (ai_agent_id i); tid = strip (ai_target_id i); host = strip (ai_canonical_host_id i) in
      if \<not> agent_id_pattern aid \<or> length tid < 1 \<or> 256 < length tid \<or> length host < 1 \<or> 256 < length host
         \<or> ai_scopes i = [] \<or> ai_generation i < 0
         \<or> (\<exists>c \<in> set (ai_certificates i). ac_agent_id c \<noteq> aid)
         \<or> (\<exists>c \<in> set (ai_certificates i). ai_generation i < ac_generation c)
      then Inl ValidationError
      else Inr (i\<lparr>ai_agent_id := aid, ai_target_id := tid, ai_canonical_host_id := host,
             ai_scopes := sort_key scope_value (remdups (ai_scopes i))\<rparr>))"

definition identity_from_row :: "registry \<Rightarrow> identity_row \<Rightarrow> agent_identity result" where
  "identity_from_row r row =
     rbind (rmap_list certificate_from_row (sort_key cr_generation (filter (\<lambda>c. cr_agent_id c = ir_agent_id row) (certs r)))) (\<lambda>cs.
       validate_identity \<lparr>ai_agent_id = ir_agent_id row, ai_target_id = ir_target_id row, ai_canonical_host_id = ir_canonical_host_id row,
         ai_scopes = ir_scopes row, ai_state = ir_state row, ai_generation = ir_generation row, ai_created_at = ir_created_at_us row,
         ai_updated_at = ir_updated_at_us row, ai_revoked_at = ir_revoked_at_us row, ai_certificates = cs\<rparr>)"

definition get_identity_row :: "registry \<Rightarrow> string \<Rightarrow> identity_row result" where
  "get_identity_row r agent_id = (case fetch_where (\<lambda>i. ir_agent_id i = agent_id) (identities r) of
     None \<Rightarrow> Inl AgentIdentityNotFoundError | Some i \<Rightarrow> Inr i)"

definition get_certificate_row :: "registry \<Rightarrow> string \<Rightarrow> int \<Rightarrow> cert_row result" where
  "get_certificate_row r agent_id generation = (case fetch_where (\<lambda>c. cr_agent_id c = agent_id \<and> cr_generation c = generation) (certs r) of
     None \<Rightarrow> Inl AgentCertificateNotFoundError | Some c \<Rightarrow> Inr c)"

section \<open>Schema constraints\<close>

definition unique_on :: "('r \<Rightarrow> bool) \<Rightarrow> ('r \<Rightarrow> 'k) \<Rightarrow> 'r list \<Rightarrow> bool" where
  "unique_on P col rows = distinct (map col (filter P rows))"

definition cert_table_ok :: "cert_row list \<Rightarrow> bool" where
  "cert_table_ok cs = (unique_on (\<lambda>_. True) (\<lambda>c. (cr_agent_id c, cr_generation c)) cs
     \<and> unique_on (\<lambda>_. True) cr_serial_number cs \<and> unique_on (\<lambda>_. True) cr_cert_sha256 cs
     \<and> unique_on (\<lambda>c. cr_state c = CertStaged) cr_agent_id cs \<and> unique_on (\<lambda>c. cr_state c = CertActive) cr_agent_id cs
     \<and> unique_on (\<lambda>c. cr_idempotency_key_sha256 c \<noteq> None) (\<lambda>c. (cr_agent_id c, cr_idempotency_key_sha256 c)) cs
     \<and> list_all (\<lambda>c. 1 \<le> cr_generation c \<and> cr_not_before_us c < cr_not_after_us c) cs)"

definition put_certs :: "cert_row list \<Rightarrow> registry \<Rightarrow> registry result" where
  "put_certs cs r = (if cert_table_ok cs then Inr (r\<lparr>certs := cs\<rparr>) else Inl IntegrityError)"

definition insert_identity :: "identity_row \<Rightarrow> registry \<Rightarrow> registry result" where
  "insert_identity i r =
     (if \<exists>x \<in> set (identities r). ir_agent_id x = ir_agent_id i \<or> ir_target_id x = ir_target_id i \<or> ir_canonical_host_id x = ir_canonical_host_id i
      then Inl IntegrityError else Inr (r\<lparr>identities := identities r @ [i]\<rparr>))"

text \<open>\<open>except sqlite3.IntegrityError: raise AgentIdentityConflictError\<close>.\<close>

definition conflict_on_integrity :: "'a result \<Rightarrow> 'a result" where
  "conflict_on_integrity x = (case x of Inl e \<Rightarrow> Inl (if e = IntegrityError then AgentIdentityConflictError else e) | Inr y \<Rightarrow> Inr y)"

definition touch_identity :: "string \<Rightarrow> int \<Rightarrow> registry \<Rightarrow> registry" where
  "touch_identity agent_id t r = r\<lparr>identities := upd_where (\<lambda>i. ir_agent_id i = agent_id)
     (\<lambda>i. i\<lparr>ir_updated_at_us := t, ir_revision := Suc (ir_revision i)\<rparr>) (identities r)\<rparr>"

definition with_view :: "registry \<Rightarrow> string \<Rightarrow> (registry \<times> agent_identity) result" where
  "with_view r agent_id = rbind (get_identity_row r agent_id) (\<lambda>row. rbind (identity_from_row r row) (\<lambda>v. Inr (r, v)))"

section \<open>Operations\<close>

definition get_or_create :: "string \<Rightarrow> string \<Rightarrow> string list \<Rightarrow> string option \<Rightarrow> datetime \<Rightarrow> string \<Rightarrow> registry \<Rightarrow> (registry \<times> agent_identity \<times> bool) result" where
  "get_or_create target_id' canonical_host_id scopes agent_id now uuid r =
     rbind (required_text 256 target_id') (\<lambda>target.
     rbind (required_text 256 canonical_host_id) (\<lambda>host.
     rbind (normalize_scopes scopes) (\<lambda>sc.
     rbind (case agent_id of None \<Rightarrow> Inr None | Some a \<Rightarrow> rbind (normalize_agent_id a) (\<lambda>x. Inr (Some x))) (\<lambda>requested.
       case fetch_where (\<lambda>i. ir_target_id i = target) (identities r) of
         Some row \<Rightarrow>
           if ir_canonical_host_id row \<noteq> host \<or> ir_scopes row \<noteq> sc \<or> (requested \<noteq> None \<and> requested \<noteq> Some (ir_agent_id row))
           then Inl AgentIdentityConflictError
           else rbind (identity_from_row r row) (\<lambda>v. Inr (r, v, False))
       | None \<Rightarrow>
           let allocated = (case requested of None \<Rightarrow> ''agent-'' @ uuid | Some a \<Rightarrow> a) in
           rbind (conflict_on_integrity (insert_identity \<lparr>ir_agent_id = allocated, ir_target_id = target, ir_canonical_host_id = host, ir_scopes = sc,
               ir_state = IdentityActive, ir_generation = 0, ir_created_at_us = micros now, ir_updated_at_us = micros now, ir_revoked_at_us = None,
               ir_revision = 0\<rparr> r)) (\<lambda>r1.
           rbind (with_view r1 allocated) (\<lambda>(r2, v). Inr (r2, v, True)))))))"

definition get_identity :: "string \<Rightarrow> registry \<Rightarrow> agent_identity result" where
  "get_identity agent_id r = rbind (normalize_agent_id agent_id) (\<lambda>a. rbind (get_identity_row r a) (identity_from_row r))"

definition get_by_target :: "string \<Rightarrow> registry \<Rightarrow> agent_identity result" where
  "get_by_target target_id' r = rbind (required_text 256 target_id') (\<lambda>t.
     case fetch_where (\<lambda>i. ir_target_id i = t) (identities r) of None \<Rightarrow> Inl AgentIdentityNotFoundError | Some row \<Rightarrow> identity_from_row r row)"

definition list_identities :: "int \<Rightarrow> registry \<Rightarrow> agent_identity list result" where
  "list_identities limit r =
     (if \<not> (1 \<le> limit \<and> limit \<le> 10000) then Inl ValueError
      else rmap_list (identity_from_row r) (order_limit (\<lambda>i. (ir_created_at_us i, ir_agent_id i)) (nat limit) (identities r)))"

definition get_certificate :: "string \<Rightarrow> int \<Rightarrow> registry \<Rightarrow> agent_certificate result" where
  "get_certificate agent_id generation r = rbind (normalize_agent_id agent_id) (\<lambda>a.
     if generation < 1 then Inl ValueError else rbind (get_certificate_row r a generation) certificate_from_row)"

definition list_certificates :: "string \<Rightarrow> registry \<Rightarrow> agent_certificate list result" where
  "list_certificates agent_id r = rbind (get_identity agent_id r) (\<lambda>v. Inr (ai_certificates v))"

definition get_by_idempotency_key :: "(string \<Rightarrow> string) \<Rightarrow> string \<Rightarrow> string \<Rightarrow> registry \<Rightarrow> agent_certificate option result" where
  "get_by_idempotency_key sha agent_id key r =
     rbind (normalize_agent_id agent_id) (\<lambda>a.
     rbind (idempotency_hash sha (Some key)) (\<lambda>kh.
     rbind (get_identity_row r a) (\<lambda>_.
       case fetch_where (\<lambda>c. cr_agent_id c = a \<and> cr_idempotency_key_sha256 c = kh) (certs r) of
         None \<Rightarrow> Inr None | Some c \<Rightarrow> rbind (certificate_from_row c) (\<lambda>v. Inr (Some v)))))"

record stage_request =
  sq_agent_id :: string
  sq_generation :: int
  sq_serial_number :: string
  sq_cert_sha256 :: string
  sq_spki_sha256 :: string
  sq_certificate_pem :: string
  sq_not_before :: datetime
  sq_not_after :: datetime
  sq_idempotency_key :: "string option"

definition stage_row :: "stage_request \<Rightarrow> string \<Rightarrow> string \<Rightarrow> string \<Rightarrow> string \<Rightarrow> string \<Rightarrow> string option \<Rightarrow> datetime \<Rightarrow> cert_row" where
  "stage_row q a serial fp spki pem kh now = \<lparr>cr_agent_id = a, cr_generation = sq_generation q, cr_serial_number = serial, cr_cert_sha256 = fp,
     cr_spki_sha256 = spki, cr_state = CertStaged, cr_certificate_pem = pem, cr_idempotency_key_sha256 = kh, cr_not_before_us = micros (sq_not_before q),
     cr_not_after_us = micros (sq_not_after q), cr_created_at_us = micros now, cr_activated_at_us = None, cr_retired_at_us = None,
     cr_overlap_until_us = None, cr_revoked_at_us = None\<rparr>"

definition advance_generation :: "string \<Rightarrow> int \<Rightarrow> int \<Rightarrow> registry \<Rightarrow> registry result" where
  "advance_generation a g t r =
     (let P = (\<lambda>i. ir_agent_id i = a \<and> ir_generation i = g - 1 \<and> ir_state i = IdentityActive) in
      if count_where P (identities r) \<noteq> 1 then Inl AgentIdentityConflictError
      else Inr (r\<lparr>identities := upd_where P (\<lambda>i. i\<lparr>ir_generation := g, ir_updated_at_us := t, ir_revision := Suc (ir_revision i)\<rparr>) (identities r)\<rparr>))"

definition stage_certificate :: "(string \<Rightarrow> string) \<Rightarrow> stage_request \<Rightarrow> datetime \<Rightarrow> registry \<Rightarrow> (registry \<times> agent_identity \<times> bool) result" where
  "stage_certificate sha q now r =
     rbind (normalize_agent_id (sq_agent_id q)) (\<lambda>a.
     rbind (normalize_serial (sq_serial_number q)) (\<lambda>serial.
     rbind (normalize_hex (Some 64) (sq_cert_sha256 q)) (\<lambda>fp.
     rbind (normalize_hex (Some 64) (sq_spki_sha256 q)) (\<lambda>spki.
     rbind (required_text (64 * 1024) (sq_certificate_pem q)) (\<lambda>pem.
     rbind (idempotency_hash sha (sq_idempotency_key q)) (\<lambda>kh.
     rbind (validate_certificate \<lparr>ac_agent_id = a, ac_generation = sq_generation q, ac_serial_number = serial, ac_cert_sha256 = fp, ac_spki_sha256 = spki,
         ac_state = CertStaged, ac_not_before = sq_not_before q, ac_not_after = sq_not_after q, ac_created_at = now, ac_activated_at = None,
         ac_retired_at = None, ac_overlap_until = None, ac_revoked_at = None\<rparr>) (\<lambda>_.
     rbind (get_identity_row r a) (\<lambda>idn.
       if ir_state idn \<noteq> IdentityActive then Inl AgentIdentityConflictError
       else if kh \<noteq> None \<and> fetch_where (\<lambda>c. cr_agent_id c = a \<and> cr_idempotency_key_sha256 c = kh) (certs r) \<noteq> None
       then rbind (identity_from_row r idn) (\<lambda>v. Inr (r, v, False))
       else if fetch_where (\<lambda>c. cr_agent_id c = a \<and> cr_state c = CertStaged) (certs r) \<noteq> None then Inl AgentIdentityConflictError
       else if sq_generation q \<noteq> ir_generation idn + 1 then Inl AgentIdentityConflictError
       else
         rbind (conflict_on_integrity (put_certs (certs r @ [stage_row q a serial fp spki pem kh now]) r)) (\<lambda>r1.
         rbind (advance_generation a (sq_generation q) (micros now) r1) (\<lambda>r2.
         rbind (with_view r2 a) (\<lambda>(r3, v). Inr (r3, v, True))))))))))))"

definition MAX_ROTATION_OVERLAP :: timedelta where "MAX_ROTATION_OVERLAP = 3600 * 1000000"

definition close_overlaps :: "string \<Rightarrow> int \<Rightarrow> cert_row list \<Rightarrow> cert_row list" where
  "close_overlaps a t = upd_where (\<lambda>c. cr_agent_id c = a \<and> cr_state c = CertRetired \<and> (case cr_overlap_until_us c of None \<Rightarrow> False | Some u \<Rightarrow> t < u))
     (\<lambda>c. c\<lparr>cr_overlap_until_us := Some t\<rparr>)"

definition retire_active :: "string \<Rightarrow> int \<Rightarrow> int \<Rightarrow> cert_row list \<Rightarrow> cert_row list" where
  "retire_active a t u = upd_where (\<lambda>c. cr_agent_id c = a \<and> cr_state c = CertActive)
     (\<lambda>c. c\<lparr>cr_state := CertRetired, cr_retired_at_us := Some t, cr_overlap_until_us := Some (min (cr_not_after_us c) u)\<rparr>)"

definition promote_staged :: "string \<Rightarrow> int \<Rightarrow> int \<Rightarrow> cert_row list \<Rightarrow> cert_row list" where
  "promote_staged a g t = upd_where (\<lambda>c. cr_agent_id c = a \<and> cr_generation c = g \<and> cr_state c = CertStaged)
     (\<lambda>c. c\<lparr>cr_state := CertActive, cr_activated_at_us := Some t, cr_retired_at_us := None, cr_overlap_until_us := None\<rparr>)"

definition activate :: "string \<Rightarrow> int \<Rightarrow> timedelta \<Rightarrow> datetime \<Rightarrow> registry \<Rightarrow> (registry \<times> agent_identity) result" where
  "activate agent_id generation overlap now r =
     rbind (normalize_agent_id agent_id) (\<lambda>a.
       if generation < 1 then Inl ValueError
       else if overlap < 0 \<or> MAX_ROTATION_OVERLAP < overlap then Inl ValueError
       else
         let t = micros now; u = micros (now + overlap) in
         rbind (get_identity_row r a) (\<lambda>idn.
           if ir_state idn \<noteq> IdentityActive then Inl AgentIdentityConflictError
           else rbind (get_certificate_row r a generation) (\<lambda>c.
             if cr_state c = CertActive then rbind (identity_from_row r idn) (\<lambda>v. Inr (r, v))
             else if cr_state c \<noteq> CertStaged then Inl AgentIdentityConflictError
             else if cr_not_after_us c \<le> t then Inl AgentIdentityConflictError
             else
               rbind (put_certs (close_overlaps a t (certs r)) r) (\<lambda>r1.
               rbind (put_certs (retire_active a t u (certs r1)) r1) (\<lambda>r2.
               rbind (put_certs (promote_staged a generation t (certs r2)) r2) (\<lambda>r3.
                 if count_where (\<lambda>c. cr_agent_id c = a \<and> cr_generation c = generation \<and> cr_state c = CertStaged) (certs r2) \<noteq> 1
                 then Inl AgentIdentityConflictError
                 else with_view (touch_identity a t r3) a))))))"

definition revoke_row :: "int \<Rightarrow> cert_row \<Rightarrow> cert_row" where
  "revoke_row t c = c\<lparr>cr_state := CertRevoked, cr_revoked_at_us := Some t, cr_overlap_until_us := None\<rparr>"

definition abort :: "string \<Rightarrow> int \<Rightarrow> datetime \<Rightarrow> registry \<Rightarrow> (registry \<times> agent_identity) result" where
  "abort agent_id generation now r =
     rbind (normalize_agent_id agent_id) (\<lambda>a.
       if generation < 1 then Inl ValueError
       else
         rbind (get_identity_row r a) (\<lambda>idn.
         rbind (get_certificate_row r a generation) (\<lambda>c.
           if cr_state c = CertRevoked then rbind (identity_from_row r idn) (\<lambda>v. Inr (r, v))
           else if cr_state c \<noteq> CertStaged then Inl AgentIdentityConflictError
           else
             rbind (put_certs (upd_where (\<lambda>c. cr_agent_id c = a \<and> cr_generation c = generation \<and> cr_state c = CertStaged)
                 (\<lambda>c. (revoke_row (micros now) c)\<lparr>cr_idempotency_key_sha256 := None\<rparr>) (certs r)) r) (\<lambda>r1.
               with_view (touch_identity a (micros now) r1) a))))"

definition revoke :: "string \<Rightarrow> int option \<Rightarrow> datetime \<Rightarrow> registry \<Rightarrow> (registry \<times> agent_identity) result" where
  "revoke agent_id generation now r =
     rbind (normalize_agent_id agent_id) (\<lambda>a.
       if (case generation of None \<Rightarrow> False | Some g \<Rightarrow> g < 1) then Inl ValueError
       else
         let t = micros now in
         rbind (get_identity_row r a) (\<lambda>idn.
           case generation of
             None \<Rightarrow>
               if ir_state idn = IdentityRevoked then rbind (identity_from_row r idn) (\<lambda>v. Inr (r, v))
               else
                 let r1 = r\<lparr>identities := upd_where (\<lambda>i. ir_agent_id i = a)
                       (\<lambda>i. i\<lparr>ir_state := IdentityRevoked, ir_revoked_at_us := Some t, ir_updated_at_us := t, ir_revision := Suc (ir_revision i)\<rparr>) (identities r)\<rparr> in
                 rbind (put_certs (upd_where (\<lambda>c. cr_agent_id c = a \<and> cr_state c \<noteq> CertRevoked) (revoke_row t) (certs r1)) r1) (\<lambda>r2.
                   with_view r2 a)
           | Some g \<Rightarrow>
               rbind (get_certificate_row r a g) (\<lambda>c.
                 if cr_state c \<noteq> CertRevoked then
                   rbind (put_certs (upd_where (\<lambda>c. cr_agent_id c = a \<and> cr_generation c = g) (revoke_row t) (certs r)) r) (\<lambda>r1.
                     with_view (touch_identity a t r1) a)
                 else with_view r a)))"

definition revoke_certificates :: "string \<Rightarrow> datetime \<Rightarrow> registry \<Rightarrow> (registry \<times> agent_identity) result" where
  "revoke_certificates agent_id now r =
     rbind (normalize_agent_id agent_id) (\<lambda>a.
       let t = micros now; P = (\<lambda>c. cr_agent_id c = a \<and> cr_state c \<noteq> CertRevoked) in
       rbind (get_identity_row r a) (\<lambda>_.
       rbind (put_certs (upd_where P (\<lambda>c. (revoke_row t c)\<lparr>cr_idempotency_key_sha256 := None\<rparr>) (certs r)) r) (\<lambda>r1.
         with_view (if count_where P (certs r) \<noteq> 0 then touch_identity a t r1 else r1) a)))"

text \<open>The join of a certificate with its identity.\<close>

definition joined :: "registry \<Rightarrow> (cert_row \<times> identity_row) list" where
  "joined r = concat (map (\<lambda>c. map (Pair c) (filter (\<lambda>i. ir_agent_id i = cr_agent_id c) (identities r))) (certs r))"

definition accepted_at :: "int \<Rightarrow> bool \<Rightarrow> cert_row \<Rightarrow> bool" where
  "accepted_at t allow_staged c = (cr_not_before_us c \<le> t \<and> t < cr_not_after_us c
     \<and> (case cr_state c of CertActive \<Rightarrow> True
          | CertRetired \<Rightarrow> (case cr_overlap_until_us c of None \<Rightarrow> False | Some u \<Rightarrow> t < u)
          | CertStaged \<Rightarrow> allow_staged
          | CertRevoked \<Rightarrow> False))"

definition verify :: "string option \<Rightarrow> string option \<Rightarrow> datetime \<Rightarrow> bool \<Rightarrow> registry \<Rightarrow> verified_agent_identity option result" where
  "verify cert_sha256 serial_number now allow_staged r =
     (if cert_sha256 = None \<and> serial_number = None then Inl ValueError
      else
        rbind (case cert_sha256 of None \<Rightarrow> Inr None | Some f \<Rightarrow> rbind (normalize_hex (Some 64) f) (\<lambda>x. Inr (Some x))) (\<lambda>fp.
        rbind (case serial_number of None \<Rightarrow> Inr None | Some s \<Rightarrow> rbind (normalize_serial s) (\<lambda>x. Inr (Some x))) (\<lambda>serial.
          case fetch_where (\<lambda>(c, i). (fp = None \<or> fp = Some (cr_cert_sha256 c)) \<and> (serial = None \<or> serial = Some (cr_serial_number c))) (joined r) of
            None \<Rightarrow> Inr None
          | Some (c, i) \<Rightarrow>
              if ir_state i \<noteq> IdentityActive \<or> \<not> accepted_at (micros now) allow_staged c then Inr None
              else rbind (certificate_from_row c) (\<lambda>v.
                Inr (Some \<lparr>vi_agent_id = strip (cr_agent_id c), vi_target_id = strip (ir_target_id i), vi_canonical_host_id = strip (ir_canonical_host_id i),
                  vi_scopes = ir_scopes i, vi_certificate = v\<rparr>)))))"

end
