(* ===== verification/Registry_Laws.thy ===== *)
theory Registry_Laws
  imports Agent_Registry Clocked_System
begin

text \<open>
  Laws of the identity registry: the invariant \<open>registry_ok\<close> of its tables, the moves \<open>cert_step\<close> a certificate row can make, and that every
  operation is such a move and keeps the invariant. Inside the invariant no read fails to build its model.
\<close>

section \<open>Well-formed rows\<close>

definition hex_text :: "nat \<Rightarrow> nat \<Rightarrow> string \<Rightarrow> bool" where
  "hex_text lo hi s = (lo \<le> length s \<and> length s \<le> hi \<and> list_all hex_char s)"

definition cert_ok :: "cert_row \<Rightarrow> bool" where
  "cert_ok c = (agent_id_pattern (cr_agent_id c) \<and> 1 \<le> cr_generation c \<and> hex_text 1 64 (cr_serial_number c) \<and> hex_text 64 64 (cr_cert_sha256 c)
     \<and> hex_text 64 64 (cr_spki_sha256 c) \<and> cr_not_before_us c < cr_not_after_us c)"

definition text_ok :: "string \<Rightarrow> bool" where
  "text_ok s = (strip s = s \<and> s \<noteq> [] \<and> length s \<le> 256)"

definition identity_ok :: "identity_row \<Rightarrow> bool" where
  "identity_ok i = (agent_id_pattern (ir_agent_id i) \<and> text_ok (ir_target_id i) \<and> text_ok (ir_canonical_host_id i)
     \<and> ir_scopes i \<noteq> [] \<and> sort_key scope_value (remdups (ir_scopes i)) = ir_scopes i \<and> 0 \<le> ir_generation i)"

text \<open>A certificate has an identity that has reached its generation, and a revoked identity has only revoked certificates.\<close>

definition bound :: "identity_row list \<Rightarrow> cert_row list \<Rightarrow> bool" where
  "bound ids cs = (\<forall>c \<in> set cs. \<exists>i \<in> set ids. ir_agent_id i = cr_agent_id c \<and> cr_generation c \<le> ir_generation i)"

definition closed :: "identity_row list \<Rightarrow> cert_row list \<Rightarrow> bool" where
  "closed ids cs = (\<forall>i \<in> set ids. ir_state i = IdentityRevoked \<longrightarrow> (\<forall>c \<in> set cs. cr_agent_id c = ir_agent_id i \<longrightarrow> cr_state c = CertRevoked))"

definition registry_ok :: "registry \<Rightarrow> bool" where
  "registry_ok r = (distinct (map ir_agent_id (identities r)) \<and> distinct (map ir_target_id (identities r)) \<and> distinct (map ir_canonical_host_id (identities r))
     \<and> list_all identity_ok (identities r) \<and> cert_table_ok (certs r) \<and> list_all cert_ok (certs r)
     \<and> bound (identities r) (certs r) \<and> closed (identities r) (certs r))"

lemma registry_okD:
  assumes "registry_ok r"
  shows "distinct (map ir_agent_id (identities r))" "distinct (map ir_target_id (identities r))" "distinct (map ir_canonical_host_id (identities r))"
    "i \<in> set (identities r) \<Longrightarrow> identity_ok i" "cert_table_ok (certs r)" "c \<in> set (certs r) \<Longrightarrow> cert_ok c"
    "c \<in> set (certs r) \<Longrightarrow> \<exists>i \<in> set (identities r). ir_agent_id i = cr_agent_id c \<and> cr_generation c \<le> ir_generation i"
    "closed (identities r) (certs r)"
  using assms by (auto simp: registry_ok_def list_all_iff bound_def)

section \<open>Normal forms\<close>

lemma id_char_space: "id_char c \<Longrightarrow> \<not> isspace_char c"
  by (auto simp: id_char_def isspace_char_def)

lemma hex_char_space: "hex_char c \<Longrightarrow> \<not> isspace_char c"
  by (auto simp: hex_char_def isspace_char_def)

lemma hex_char_lower: "hex_char c \<Longrightarrow> lower_char c = c"
  by (auto simp: hex_char_def lower_char_def)

lemma strip_pattern [simp]: "agent_id_pattern s \<Longrightarrow> strip s = s"
  by (rule strip_no_space) (auto simp: agent_id_pattern_def list_all_iff id_char_space)

lemma unprefix_hex: "list_all hex_char s \<Longrightarrow> unprefix (lower (strip s)) = s"
proof -
  assume h: "list_all hex_char s"
  have "strip s = s" by (rule strip_no_space) (use h in \<open>auto simp: list_all_iff hex_char_space\<close>)
  moreover have "lower s = s" using h by (auto simp: lower_def list_all_iff hex_char_lower intro: map_idI)
  moreover have "\<not> startswith s ''0x''"
  proof
    assume "startswith s ''0x''"
    then have "take 2 s = ''0x''" by (simp add: startswith_def numeral_2_eq_2)
    then have "CHR ''x'' \<in> set s" by (metis in_set_takeD list.set_intros(1) list.set_intros(2))
    then show False using h by (auto simp: list_all_iff hex_char_def)
  qed
  ultimately show ?thesis by (simp add: unprefix_def)
qed

definition cert_view :: "cert_row \<Rightarrow> agent_certificate" where
  "cert_view r = \<lparr>ac_agent_id = cr_agent_id r, ac_generation = cr_generation r, ac_serial_number = cr_serial_number r,
     ac_cert_sha256 = cr_cert_sha256 r, ac_spki_sha256 = cr_spki_sha256 r, ac_state = cr_state r, ac_not_before = cr_not_before_us r,
     ac_not_after = cr_not_after_us r, ac_created_at = cr_created_at_us r, ac_activated_at = cr_activated_at_us r,
     ac_retired_at = cr_retired_at_us r, ac_overlap_until = cr_overlap_until_us r, ac_revoked_at = cr_revoked_at_us r\<rparr>"

lemma certificate_from_row_ok:
  assumes "cert_ok c"
  shows "certificate_from_row c = Inr (cert_view c)"
proof -
  have "1 \<le> length (cr_agent_id c)" "length (cr_agent_id c) \<le> 128" using assms by (simp_all add: cert_ok_def agent_id_pattern_def)
  then show ?thesis
    using assms by (auto simp: certificate_from_row_def validate_certificate_def cert_view_def cert_ok_def hex_text_def unprefix_hex Let_def)
qed

definition identity_view :: "registry \<Rightarrow> identity_row \<Rightarrow> agent_identity" where
  "identity_view r row = \<lparr>ai_agent_id = ir_agent_id row, ai_target_id = ir_target_id row, ai_canonical_host_id = ir_canonical_host_id row,
     ai_scopes = ir_scopes row, ai_state = ir_state row, ai_generation = ir_generation row, ai_created_at = ir_created_at_us row,
     ai_updated_at = ir_updated_at_us row, ai_revoked_at = ir_revoked_at_us row,
     ai_certificates = map cert_view (sort_key cr_generation (filter (\<lambda>c. cr_agent_id c = ir_agent_id row) (certs r)))\<rparr>"

lemma identity_from_row_ok:
  assumes "registry_ok r" "row \<in> set (identities r)"
  shows "identity_from_row r row = Inr (identity_view r row)"
proof -
  let ?cs = "sort_key cr_generation (filter (\<lambda>c. cr_agent_id c = ir_agent_id row) (certs r))"
  have cs: "rmap_list certificate_from_row ?cs = Inr (map cert_view ?cs)"
    by (rule rmap_list_Inr) (use registry_okD(6) [OF assms(1)] in \<open>auto intro: certificate_from_row_ok\<close>)
  have gen: "cr_generation c \<le> ir_generation row" if c: "c \<in> set (certs r)" "cr_agent_id c = ir_agent_id row" for c
  proof -
    obtain i where i: "i \<in> set (identities r)" "ir_agent_id i = cr_agent_id c" "cr_generation c \<le> ir_generation i"
      using registry_okD(7) [OF assms(1) c(1)] by blast
    then have "i = row" using key_inj [OF registry_okD(1) [OF assms(1)] i(1) assms(2)] c(2) by simp
    then show ?thesis using i(3) by simp
  qed
  have ok: "identity_ok row" using registry_okD(4) [OF assms(1,2)] .
  show ?thesis
    unfolding identity_from_row_def cs rbind_simps
    using ok gen by (auto simp: validate_identity_def identity_view_def identity_ok_def text_ok_def cert_view_def Let_def not_less dest: gen)
qed

lemma fetch_identity:
  assumes "registry_ok r" "row \<in> set (identities r)"
  shows "get_identity_row r (ir_agent_id row) = Inr row"
  using fetch_key [OF registry_okD(1) [OF assms(1)] assms(2)] by (simp add: get_identity_row_def)

lemma get_identity_row_Inr: "get_identity_row r a = Inr row \<Longrightarrow> row \<in> set (identities r) \<and> ir_agent_id row = a"
  by (auto simp: get_identity_row_def split: option.splits dest!: fetch_where_Some)

lemma get_certificate_row_Inr: "get_certificate_row r a g = Inr c \<Longrightarrow> c \<in> set (certs r) \<and> cr_agent_id c = a \<and> cr_generation c = g"
  by (auto simp: get_certificate_row_def split: option.splits dest!: fetch_where_Some)

lemma with_view_ok:
  assumes "registry_ok r" "row \<in> set (identities r)" "ir_agent_id row = a"
  shows "with_view r a = Inr (r, identity_view r row)"
  using fetch_identity [OF assms(1,2)] identity_from_row_ok [OF assms(1,2)] assms(3) by (simp add: with_view_def)

lemma with_view_Inr: "with_view r a = Inr (r', v) \<Longrightarrow> r' = r"
  by (auto simp: with_view_def)

section \<open>Moves\<close>

inductive cert_step :: "int \<Rightarrow> cert_row \<Rightarrow> cert_row \<Rightarrow> bool" for t where
  keep: "cert_step t c c"
| promote: "cr_state c = CertStaged \<Longrightarrow> cert_step t c
    (c\<lparr>cr_state := CertActive, cr_activated_at_us := Some t, cr_retired_at_us := None, cr_overlap_until_us := None\<rparr>)"
| retire: "cr_state c = CertActive \<Longrightarrow> cert_step t c
    (c\<lparr>cr_state := CertRetired, cr_retired_at_us := Some t, cr_overlap_until_us := Some (min (cr_not_after_us c) u)\<rparr>)"
| close: "cr_state c = CertRetired \<Longrightarrow> cr_overlap_until_us c = Some u \<Longrightarrow> t < u \<Longrightarrow> cert_step t c (c\<lparr>cr_overlap_until_us := Some t\<rparr>)"
| withdraw: "cr_state c \<noteq> CertRevoked \<Longrightarrow> k = cr_idempotency_key_sha256 c \<or> k = None \<Longrightarrow>
    cert_step t c ((revoke_row t c)\<lparr>cr_idempotency_key_sha256 := k\<rparr>)"

text \<open>What a certificate never changes.\<close>

definition same_certificate :: "cert_row \<Rightarrow> cert_row \<Rightarrow> bool" where
  "same_certificate c c' = (cr_agent_id c' = cr_agent_id c \<and> cr_generation c' = cr_generation c \<and> cr_serial_number c' = cr_serial_number c
     \<and> cr_cert_sha256 c' = cr_cert_sha256 c \<and> cr_spki_sha256 c' = cr_spki_sha256 c \<and> cr_certificate_pem c' = cr_certificate_pem c
     \<and> cr_not_before_us c' = cr_not_before_us c \<and> cr_not_after_us c' = cr_not_after_us c \<and> cr_created_at_us c' = cr_created_at_us c)"

lemma cert_step_same: "cert_step t c c' \<Longrightarrow> same_certificate c c'"
  by (induction rule: cert_step.induct) (auto simp: same_certificate_def revoke_row_def)

lemma cert_step_revoked: "cert_step t c c' \<Longrightarrow> cr_state c = CertRevoked \<Longrightarrow> c' = c"
  by (induction rule: cert_step.induct) auto

lemma same_cert_ok: "same_certificate c c' \<Longrightarrow> cert_ok c \<Longrightarrow> cert_ok c'"
  by (simp add: same_certificate_def cert_ok_def)

lemma same_refl [simp]: "same_certificate c c"
  by (simp add: same_certificate_def)

lemma same_trans: "same_certificate a b \<Longrightarrow> same_certificate b c \<Longrightarrow> same_certificate a c"
  by (simp add: same_certificate_def)

definition id_step :: "identity_row \<Rightarrow> identity_row \<Rightarrow> bool" where
  "id_step i i' = (ir_agent_id i' = ir_agent_id i \<and> ir_target_id i' = ir_target_id i \<and> ir_canonical_host_id i' = ir_canonical_host_id i
     \<and> ir_scopes i' = ir_scopes i \<and> ir_created_at_us i' = ir_created_at_us i \<and> ir_generation i \<le> ir_generation i'
     \<and> (ir_state i = IdentityRevoked \<longrightarrow> ir_state i' = IdentityRevoked))"

lemma id_step_refl [simp]: "id_step i i"
  by (simp add: id_step_def)

lemma id_step_trans: "id_step a b \<Longrightarrow> id_step b c \<Longrightarrow> id_step a c"
  by (auto simp: id_step_def)

lemma list_all2_upd_where: "(\<And>x. R x x) \<Longrightarrow> (\<And>x. x \<in> set xs \<Longrightarrow> P x \<Longrightarrow> R x (f x)) \<Longrightarrow> list_all2 R xs (upd_where P f xs)"
  by (auto simp: upd_where_def list_all2_map2 intro!: list_all2_refl list.rel_refl_strong)

abbreviation cert_moves :: "int \<Rightarrow> cert_row list \<Rightarrow> cert_row list \<Rightarrow> bool" where
  "cert_moves t \<equiv> list_all2 (cert_step t)\<^sup>*\<^sup>*"

abbreviation id_moves :: "identity_row list \<Rightarrow> identity_row list \<Rightarrow> bool" where
  "id_moves \<equiv> list_all2 id_step"

lemma steps_same: "(cert_step t)\<^sup>*\<^sup>* c c' \<Longrightarrow> same_certificate c c'"
  by (induction rule: rtranclp_induct) (auto intro: same_trans cert_step_same)

lemma steps_revoked: "(cert_step t)\<^sup>*\<^sup>* c c' \<Longrightarrow> cr_state c = CertRevoked \<Longrightarrow> c' = c"
  by (induction rule: rtranclp_induct) (auto dest: cert_step_revoked)

lemma moves_refl [simp]: "cert_moves t cs cs"
  by (rule list.rel_refl) simp

lemma moves_trans: "cert_moves t cs ds \<Longrightarrow> cert_moves t ds es \<Longrightarrow> cert_moves t cs es"
  by (rule list_all2_trans [where ?P1.0 = "(cert_step t)\<^sup>*\<^sup>*" and ?P2.0 = "(cert_step t)\<^sup>*\<^sup>*"]) auto

lemma id_moves_refl [simp]: "id_moves is is"
  by (rule list.rel_refl) simp

lemma moves_upd: "(\<And>c. c \<in> set cs \<Longrightarrow> P c \<Longrightarrow> cert_step t c (f c)) \<Longrightarrow> cert_moves t cs (upd_where P f cs)"
  by (rule list_all2_upd_where) auto

lemma all2_inD2: "list_all2 R xs ys \<Longrightarrow> y \<in> set ys \<Longrightarrow> \<exists>x \<in> set xs. R x y"
  by (metis in_set_conv_nth list_all2_conv_all_nth)

lemma all2_inD1: "list_all2 R xs ys \<Longrightarrow> x \<in> set xs \<Longrightarrow> \<exists>y \<in> set ys. R x y"
  by (metis in_set_conv_nth list_all2_conv_all_nth)

lemma all2_map: "list_all2 R xs ys \<Longrightarrow> (\<And>x y. R x y \<Longrightarrow> f y = f x) \<Longrightarrow> map f ys = map f xs"
  by (induction rule: list_all2_induct) auto

lemma close_moves: "cert_moves t cs (close_overlaps a t cs)"
  unfolding close_overlaps_def by (rule moves_upd) (auto intro: close split: option.splits)

lemma retire_moves: "cert_moves t cs (retire_active a t u cs)"
  unfolding retire_active_def by (rule moves_upd) (auto intro: retire)

lemma promote_moves: "cert_moves t cs (promote_staged a g t cs)"
  unfolding promote_staged_def by (rule moves_upd) (auto intro: promote)

lemma withdraw_moves:
  "(\<And>c. P c \<Longrightarrow> cr_state c \<noteq> CertRevoked) \<Longrightarrow> cert_moves t cs (upd_where P (\<lambda>c. (revoke_row t c)\<lparr>cr_idempotency_key_sha256 := None\<rparr>) cs)"
  by (rule moves_upd) (auto intro: withdraw)

lemma revoke_row_step: "cr_state c \<noteq> CertRevoked \<Longrightarrow> cert_step t c (revoke_row t c)"
  using withdraw [of c "cr_idempotency_key_sha256 c" t] by (simp add: revoke_row_def)

lemmas registry_moves = close_moves retire_moves promote_moves withdraw_moves

text \<open>An operation that only moves rows and adds well-formed certificates keeps the invariant.\<close>

lemma moves_ok:
  assumes ok: "registry_ok r" and ids: "id_moves (identities r) (identities r')"
    and cs: "certs r' = cs @ new" "cert_moves t (certs r) cs" and tab: "cert_table_ok (certs r')"
    and new: "list_all cert_ok new" "bound (identities r') new" and cl: "closed (identities r') (certs r')"
  shows "registry_ok r'"
proof -
  have cols: "map ir_agent_id (identities r') = map ir_agent_id (identities r)" "map ir_target_id (identities r') = map ir_target_id (identities r)"
    "map ir_canonical_host_id (identities r') = map ir_canonical_host_id (identities r)"
    by (rule all2_map [OF ids]; simp add: id_step_def)+
  have "identity_ok i'" if "i' \<in> set (identities r')" for i'
    using all2_inD2 [OF ids that] registry_okD(4) [OF ok] by (fastforce simp: identity_ok_def id_step_def)
  moreover have "cert_ok c'" if "c' \<in> set cs" for c'
    using all2_inD2 [OF cs(2) that] registry_okD(6) [OF ok] by (meson same_cert_ok steps_same)
  moreover have "\<exists>i \<in> set (identities r'). ir_agent_id i = cr_agent_id c' \<and> cr_generation c' \<le> ir_generation i" if c': "c' \<in> set cs" for c'
  proof -
    obtain c where c: "c \<in> set (certs r)" "same_certificate c c'" using all2_inD2 [OF cs(2) c'] steps_same by blast
    obtain i where i: "i \<in> set (identities r)" "ir_agent_id i = cr_agent_id c" "cr_generation c \<le> ir_generation i"
      using registry_okD(7) [OF ok c(1)] by blast
    obtain i' where "i' \<in> set (identities r')" "id_step i i'" using all2_inD1 [OF ids i(1)] by blast
    then show ?thesis using i c(2) by (fastforce simp: id_step_def same_certificate_def)
  qed
  ultimately show ?thesis
    using registry_okD(1-3) [OF ok] tab new cl by (auto simp: registry_ok_def cols cs(1) list_all_iff bound_def)
qed

lemma closed_moves:
  assumes "closed is cs" "list_all2 (\<lambda>i i'. id_step i i' \<and> ir_state i' = ir_state i) is is'" "cert_moves t cs cs'"
  shows "closed is' cs'"
  unfolding closed_def
proof (intro ballI impI)
  fix i' c' assume h: "i' \<in> set is'" "ir_state i' = IdentityRevoked" "c' \<in> set cs'" "cr_agent_id c' = ir_agent_id i'"
  obtain i where i: "i \<in> set is" "id_step i i'" "ir_state i' = ir_state i" using all2_inD2 [OF assms(2) h(1)] by blast
  obtain c where c: "c \<in> set cs" "(cert_step t)\<^sup>*\<^sup>* c c'" using all2_inD2 [OF assms(3) h(3)] by blast
  have "cr_agent_id c = ir_agent_id i" using steps_same [OF c(2)] i(2) h(4) by (simp add: same_certificate_def id_step_def)
  then have "cr_state c = CertRevoked" using assms(1) i(1,3) c(1) h(2) by (simp add: closed_def)
  then show "cr_state c' = CertRevoked" using steps_revoked [OF c(2)] by simp
qed

lemma touch_moves: "list_all2 (\<lambda>i i'. id_step i i' \<and> ir_state i' = ir_state i) (identities r) (identities (touch_identity a t r))"
  by (simp add: touch_identity_def list_all2_upd_where id_step_def)

lemma touch_certs [simp]: "certs (touch_identity a t r) = certs r"
  by (simp add: touch_identity_def)

text \<open>The shape of every operation that changes certificates of an agent and touches its identity.\<close>

lemma touch_ok:
  assumes "registry_ok r" "cert_moves t (certs r) cs" "cert_table_ok cs" "r1 = r\<lparr>certs := cs\<rparr> \<or> r1 = touch_identity a t (r\<lparr>certs := cs\<rparr>)"
  shows "registry_ok r1"
proof -
  have st: "list_all2 (\<lambda>i i'. id_step i i' \<and> ir_state i' = ir_state i) (identities r) (identities r1)"
    using assms(4) touch_moves [of "r\<lparr>certs := cs\<rparr>" a t] by (auto simp: list_all2_same)
  have cs: "certs r1 = cs" using assms(4) by auto
  show ?thesis
  proof (rule moves_ok [OF assms(1), where cs = cs and new = "[]" and t = t])
    show "id_moves (identities r) (identities r1)" using st by (rule list_all2_mono) simp
    show "closed (identities r1) (certs r1)" unfolding cs by (rule closed_moves [OF registry_okD(8) [OF assms(1)] st assms(2)])
  qed (use assms(2,3) cs in \<open>simp_all add: bound_def\<close>)
qed

section \<open>Operations\<close>

lemma put_certs_Inr [simp]: "put_certs cs r = Inr r' \<longleftrightarrow> cert_table_ok cs \<and> r' = r\<lparr>certs := cs\<rparr>"
  by (auto simp: put_certs_def)

lemma conflict_on_integrity_Inr [simp]: "conflict_on_integrity x = Inr y \<longleftrightarrow> x = Inr y"
  by (cases x) (auto simp: conflict_on_integrity_def)

lemma rotate_moves: "cert_moves t cs (promote_staged a g t (retire_active a t u (close_overlaps a t cs)))"
  by (rule moves_trans [OF close_moves moves_trans [OF retire_moves promote_moves]])

lemma activateE:
  assumes "activate agent_id g ov now r = Inr (r', v)"
  obtains (same) "r' = r"
  | (rotate) a idn c cs where "normalize_agent_id agent_id = Inr a" "get_identity_row r a = Inr idn" "ir_state idn = IdentityActive"
      "get_certificate_row r a g = Inr c" "cr_state c = CertStaged" "micros now < cr_not_after_us c"
      "cs = promote_staged a g (micros now) (retire_active a (micros now) (micros (now + ov)) (close_overlaps a (micros now) (certs r)))"
      "cert_table_ok cs" "r' = touch_identity a (micros now) (r\<lparr>certs := cs\<rparr>)"
proof -
  let ?t = "micros now" and ?u = "micros (now + ov)"
  obtain a idn where a: "normalize_agent_id agent_id = Inr a" "get_identity_row r a = Inr idn" "ir_state idn = IdentityActive"
    and R: "rbind (get_certificate_row r a g) (\<lambda>c.
             if cr_state c = CertActive then rbind (identity_from_row r idn) (\<lambda>v. Inr (r, v))
             else if cr_state c \<noteq> CertStaged then Inl AgentIdentityConflictError
             else if cr_not_after_us c \<le> ?t then Inl AgentIdentityConflictError
             else
               rbind (put_certs (close_overlaps a ?t (certs r)) r) (\<lambda>r1.
               rbind (put_certs (retire_active a ?t ?u (certs r1)) r1) (\<lambda>r2.
               rbind (put_certs (promote_staged a g ?t (certs r2)) r2) (\<lambda>r3.
                 if count_where (\<lambda>c. cr_agent_id c = a \<and> cr_generation c = g \<and> cr_state c = CertStaged) (certs r2) \<noteq> 1
                 then Inl AgentIdentityConflictError
                 else with_view (touch_identity a ?t r3) a)))) = Inr (r', v)"
    using assms by (auto simp: activate_def Let_def simp del: put_certs_Inr split: if_splits)
  obtain c where c: "get_certificate_row r a g = Inr c" using R by auto
  show thesis
  proof (cases "cr_state c = CertActive")
    case True
    then show thesis using R c same by simp
  next
    case False
    then have "cr_state c = CertStaged" "?t < cr_not_after_us c" using R c by (auto split: if_splits)
    moreover have "cert_table_ok (promote_staged a g ?t (retire_active a ?t ?u (close_overlaps a ?t (certs r))))"
      "r' = touch_identity a ?t (r\<lparr>certs := promote_staged a g ?t (retire_active a ?t ?u (close_overlaps a ?t (certs r)))\<rparr>)"
      using R c False by (auto split: if_splits dest!: with_view_Inr)
    ultimately show thesis using rotate a c by blast
  qed
qed

lemma abortE:
  assumes "abort agent_id g now r = Inr (r', v)"
  obtains (same) "r' = r"
  | (withdraw) a cs where "normalize_agent_id agent_id = Inr a"
      "cs = upd_where (\<lambda>c. cr_agent_id c = a \<and> cr_generation c = g \<and> cr_state c = CertStaged)
         (\<lambda>c. (revoke_row (micros now) c)\<lparr>cr_idempotency_key_sha256 := None\<rparr>) (certs r)"
      "cert_table_ok cs" "r' = touch_identity a (micros now) (r\<lparr>certs := cs\<rparr>)"
  using assms by (auto simp: abort_def split: if_splits dest!: with_view_Inr)

lemma revoke_certificatesE:
  assumes "revoke_certificates agent_id now r = Inr (r', v)"
  obtains a cs where "normalize_agent_id agent_id = Inr a"
      "cs = upd_where (\<lambda>c. cr_agent_id c = a \<and> cr_state c \<noteq> CertRevoked)
         (\<lambda>c. (revoke_row (micros now) c)\<lparr>cr_idempotency_key_sha256 := None\<rparr>) (certs r)"
      "cert_table_ok cs" "r' = r\<lparr>certs := cs\<rparr> \<or> r' = touch_identity a (micros now) (r\<lparr>certs := cs\<rparr>)"
  using assms by (auto simp: revoke_certificates_def Let_def split: if_splits dest!: with_view_Inr)

lemma revokeE:
  assumes "revoke agent_id gen now r = Inr (r', v)"
  obtains (same) a where "r' = r" "normalize_agent_id agent_id = Inr a"
      "case gen of None \<Rightarrow> \<exists>i \<in> set (identities r). ir_agent_id i = a \<and> ir_state i = IdentityRevoked
         | Some g \<Rightarrow> \<exists>c \<in> set (certs r). cr_agent_id c = a \<and> cr_generation c = g \<and> cr_state c = CertRevoked"
  | (identity) a ids cs where "gen = None" "normalize_agent_id agent_id = Inr a"
      "ids = upd_where (\<lambda>i. ir_agent_id i = a) (\<lambda>i. i\<lparr>ir_state := IdentityRevoked, ir_revoked_at_us := Some (micros now),
         ir_updated_at_us := micros now, ir_revision := Suc (ir_revision i)\<rparr>) (identities r)"
      "cs = upd_where (\<lambda>c. cr_agent_id c = a \<and> cr_state c \<noteq> CertRevoked) (revoke_row (micros now)) (certs r)"
      "cert_table_ok cs" "r' = r\<lparr>identities := ids, certs := cs\<rparr>"
  | (certificate) a g c cs where "gen = Some g" "normalize_agent_id agent_id = Inr a" "get_certificate_row r a g = Inr c" "cr_state c \<noteq> CertRevoked"
      "cs = upd_where (\<lambda>c. cr_agent_id c = a \<and> cr_generation c = g) (revoke_row (micros now)) (certs r)"
      "cert_table_ok cs" "r' = touch_identity a (micros now) (r\<lparr>certs := cs\<rparr>)"
proof (cases gen)
  case None
  then obtain a idn where a: "normalize_agent_id agent_id = Inr a" "get_identity_row r a = Inr idn"
    using assms by (auto simp: revoke_def Let_def)
  show thesis
  proof (cases "ir_state idn = IdentityRevoked")
    case True
    then have "r' = r" using assms a None by (auto simp: revoke_def)
    then show thesis using same [OF _ a(1)] True None get_identity_row_Inr [OF a(2)] by auto
  next
    case False
    show thesis
      by (rule identity [OF None a(1) refl refl]; use assms a None False in \<open>auto simp: revoke_def Let_def dest!: with_view_Inr\<close>)
  qed
next
  case (Some g)
  then obtain a idn c where a: "normalize_agent_id agent_id = Inr a" "get_certificate_row r a g = Inr c" and idn: "get_identity_row r a = Inr idn"
    using assms by (auto simp: revoke_def Let_def split: if_splits)
  have g: "\<not> g < 1" using assms a Some by (auto simp: revoke_def)
  show thesis
  proof (cases "cr_state c = CertRevoked")
    case True
    then have "r' = r" using assms a idn g Some by (auto simp: revoke_def Let_def dest!: with_view_Inr)
    then show thesis using same [OF _ a(1)] True Some get_certificate_row_Inr [OF a(2)] by auto
  next
    case False
    show thesis
      by (rule certificate [OF Some a False refl]; use assms a idn g Some False in \<open>auto simp: revoke_def Let_def dest!: with_view_Inr\<close>)
  qed
qed

lemma activate_ok: "registry_ok r \<Longrightarrow> activate agent_id g ov now r = Inr (r', v) \<Longrightarrow> registry_ok r'"
  by (erule activateE) (auto intro: touch_ok rotate_moves)

lemma abort_ok:
  assumes "registry_ok r" "abort agent_id g now r = Inr (r', v)"
  shows "registry_ok r'"
  using assms(2)
proof (cases rule: abortE)
  case (withdraw a cs)
  have "cert_moves (micros now) (certs r) cs" unfolding withdraw(2) by (rule withdraw_moves) simp
  then show ?thesis using touch_ok [OF assms(1) _ withdraw(3)] withdraw(4) by blast
qed (use assms(1) in simp)

lemma revoke_certificates_ok:
  assumes "registry_ok r" "revoke_certificates agent_id now r = Inr (r', v)"
  shows "registry_ok r'"
  using assms(2)
proof (cases rule: revoke_certificatesE)
  case (1 a cs)
  have "cert_moves (micros now) (certs r) cs" unfolding 1(2) by (rule withdraw_moves) simp
  then show ?thesis using touch_ok [OF assms(1) _ 1(3,4)] by blast
qed

lemma cert_key:
  assumes "registry_ok r" "c \<in> set (certs r)" "d \<in> set (certs r)" "cr_agent_id c = cr_agent_id d" "cr_generation c = cr_generation d"
  shows "c = d"
  using key_inj [of "\<lambda>c. (cr_agent_id c, cr_generation c)"] registry_okD(5) [OF assms(1)] assms(2-5) by (auto simp: cert_table_ok_def unique_on_def)

lemma revoke_one_moves:
  assumes "registry_ok r" "get_certificate_row r a g = Inr c" "cr_state c \<noteq> CertRevoked"
  shows "cert_moves t (certs r) (upd_where (\<lambda>c. cr_agent_id c = a \<and> cr_generation c = g) (revoke_row t) (certs r))"
proof (rule moves_upd)
  fix d assume d: "d \<in> set (certs r)" "cr_agent_id d = a \<and> cr_generation d = g"
  then have "d = c" using get_certificate_row_Inr [OF assms(2)] cert_key [OF assms(1)] by simp
  then show "cert_step t d (revoke_row t d)" using assms(3) by (simp add: revoke_row_step)
qed

lemma revoke_ok:
  assumes "registry_ok r" "revoke agent_id gen now r = Inr (r', v)"
  shows "registry_ok r'"
  using assms(2)
proof (cases rule: revokeE)
  case (certificate a g c cs)
  then show ?thesis using touch_ok [OF assms(1) revoke_one_moves [OF assms(1) certificate(3,4)]] by blast
next
  case (identity a ids cs)
  have ids: "id_moves (identities r) ids" unfolding identity(3) by (simp add: list_all2_upd_where id_step_def)
  have cs: "cert_moves (micros now) (certs r) cs" unfolding identity(4) by (rule moves_upd) (simp add: revoke_row_step)
  have "closed ids cs"
    using registry_okD(8) [OF assms(1)] unfolding closed_def identity(3,4)
    by (auto simp: upd_where_def revoke_row_def split: if_splits)
  then show ?thesis
    using moves_ok [OF assms(1), of r' cs "[]"] ids cs identity(5,6) by (simp add: bound_def)
qed (use assms(1) in simp)

section \<open>Allocation and staging\<close>

lemma normalize_agent_id_Inr: "normalize_agent_id s = Inr a \<longleftrightarrow> a = strip s \<and> agent_id_pattern a"
  by (auto simp: normalize_agent_id_def Let_def)

lemma normalize_pattern [simp]: "agent_id_pattern a \<Longrightarrow> normalize_agent_id a = Inr a"
  by (simp add: normalize_agent_id_Inr)

lemma required_text_Inr: "required_text n s = Inr t \<longleftrightarrow> t = strip s \<and> t \<noteq> [] \<and> length t \<le> n"
  by (auto simp: required_text_def Let_def)

lemma normalize_hex_Inr: "normalize_hex k s = Inr t \<Longrightarrow> t \<noteq> [] \<and> list_all hex_char t \<and> (\<forall>n. k = Some n \<longrightarrow> length t = n)"
  by (auto simp: normalize_hex_def Let_def split: if_splits option.splits)

lemma normalize_hex_fix: "hex_text n n s \<Longrightarrow> s \<noteq> [] \<Longrightarrow> normalize_hex (Some n) s = Inr s"
  by (simp add: normalize_hex_def hex_text_def unprefix_hex)

lemma normalize_serial_Inr:
  assumes "normalize_serial s = Inr t"
  shows "t \<noteq> [] \<and> list_all hex_char t \<and> (t = ''0'' \<or> hd t \<noteq> CHR ''0'')"
proof -
  obtain n where n: "normalize_hex None s = Inr n" and t: "t = (let u = dropWhile (\<lambda>c. c = CHR ''0'') n in if u = [] then ''0'' else u)"
    using assms by (auto simp: normalize_serial_def Let_def)
  have "list_all hex_char n" using normalize_hex_Inr [OF n] by simp
  then have "list_all hex_char t" by (auto simp: t Let_def list_all_iff hex_char_def dest: set_dropWhileD)
  moreover have "t \<noteq> [] \<and> (t = ''0'' \<or> hd t \<noteq> CHR ''0'')"
    using hd_dropWhile [of "\<lambda>c. c = CHR ''0''" n] by (auto simp: t Let_def)
  ultimately show ?thesis by simp
qed

lemma normalize_serial_fix:
  assumes "normalize_serial s = Inr t"
  shows "normalize_serial t = Inr t"
proof -
  have t: "t \<noteq> []" "list_all hex_char t" "t = ''0'' \<or> hd t \<noteq> CHR ''0''" using normalize_serial_Inr [OF assms] by auto
  have "normalize_hex None t = Inr t" using t(1,2) by (simp add: normalize_hex_def unprefix_hex)
  then show ?thesis using t by (cases t) (auto simp: normalize_serial_def)
qed

lemma scope_value_inj: "inj scope_value"
  by (rule injI) (case_tac x; case_tac y; simp)

lemma normalize_scopes_Inr:
  assumes "normalize_scopes ss = Inr xs"
  shows "xs \<noteq> [] \<and> sort_key scope_value (remdups xs) = xs"
proof -
  obtain ys where xs: "xs = sort_key scope_value (remdups ys)" "ys \<noteq> []"
    using assms by (auto simp: normalize_scopes_def split: if_splits)
  have "distinct xs" "sorted (map scope_value xs)" by (simp_all add: xs)
  then have "sort_key scope_value (remdups xs) = xs" by (simp add: distinct_remdups_id sort_key_id_if_sorted)
  moreover have "xs \<noteq> []" using xs by (metis remdups_eq_nil_iff set_empty set_sort)
  ultimately show ?thesis by simp
qed

lemma validate_certificate_Inr:
  "validate_certificate c = Inr v \<Longrightarrow> 1 \<le> ac_generation c \<and> length (unprefix (lower (strip (ac_serial_number c)))) \<le> 64"
  by (auto simp: validate_certificate_def Let_def split: if_splits)

lemma advance_generation_Inr:
  "advance_generation a g t r = Inr r' \<Longrightarrow> r' = r\<lparr>identities := upd_where (\<lambda>i. ir_agent_id i = a \<and> ir_generation i = g - 1 \<and> ir_state i = IdentityActive)
     (\<lambda>i. i\<lparr>ir_generation := g, ir_updated_at_us := t, ir_revision := Suc (ir_revision i)\<rparr>) (identities r)\<rparr>"
  by (auto simp: advance_generation_def Let_def split: if_splits)

text \<open>The row a stage request adds.\<close>

definition staged_row :: "(string \<Rightarrow> string) \<Rightarrow> stage_request \<Rightarrow> datetime \<Rightarrow> cert_row \<Rightarrow> bool" where
  "staged_row sha q now c = (normalize_agent_id (sq_agent_id q) = Inr (cr_agent_id c) \<and> normalize_serial (sq_serial_number q) = Inr (cr_serial_number c)
     \<and> normalize_hex (Some 64) (sq_cert_sha256 q) = Inr (cr_cert_sha256 c) \<and> normalize_hex (Some 64) (sq_spki_sha256 q) = Inr (cr_spki_sha256 c)
     \<and> required_text (64 * 1024) (sq_certificate_pem q) = Inr (cr_certificate_pem c) \<and> idempotency_hash sha (sq_idempotency_key q) = Inr (cr_idempotency_key_sha256 c)
     \<and> 1 \<le> sq_generation q \<and> length (cr_serial_number c) \<le> 64
     \<and> c = stage_row q (cr_agent_id c) (cr_serial_number c) (cr_cert_sha256 c) (cr_spki_sha256 c) (cr_certificate_pem c) (cr_idempotency_key_sha256 c) now)"

lemma stageE:
  assumes "stage_certificate sha q now r = Inr (r', v, b)"
  obtains (replay) c where "r' = r" "\<not> b" "c \<in> set (certs r)" "normalize_agent_id (sq_agent_id q) = Inr (cr_agent_id c)"
      "idempotency_hash sha (sq_idempotency_key q) = Inr (cr_idempotency_key_sha256 c)" "cr_idempotency_key_sha256 c \<noteq> None"
  | (staged) c idn where "b" "staged_row sha q now c" "get_identity_row r (cr_agent_id c) = Inr idn" "ir_state idn = IdentityActive"
      "sq_generation q = ir_generation idn + 1" "cert_table_ok (certs r @ [c])"
      "r' = r\<lparr>certs := certs r @ [c], identities := upd_where (\<lambda>i. ir_agent_id i = cr_agent_id c \<and> ir_generation i = sq_generation q - 1 \<and> ir_state i = IdentityActive)
         (\<lambda>i. i\<lparr>ir_generation := sq_generation q, ir_updated_at_us := micros now, ir_revision := Suc (ir_revision i)\<rparr>) (identities r)\<rparr>"
proof -
  obtain a serial fp spki pem kh vc idn where
    n: "normalize_agent_id (sq_agent_id q) = Inr a" "normalize_serial (sq_serial_number q) = Inr serial"
      "normalize_hex (Some 64) (sq_cert_sha256 q) = Inr fp" "normalize_hex (Some 64) (sq_spki_sha256 q) = Inr spki"
      "required_text (64 * 1024) (sq_certificate_pem q) = Inr pem" "idempotency_hash sha (sq_idempotency_key q) = Inr kh"
    and vc: "validate_certificate \<lparr>ac_agent_id = a, ac_generation = sq_generation q, ac_serial_number = serial, ac_cert_sha256 = fp, ac_spki_sha256 = spki,
         ac_state = CertStaged, ac_not_before = sq_not_before q, ac_not_after = sq_not_after q, ac_created_at = now, ac_activated_at = None,
         ac_retired_at = None, ac_overlap_until = None, ac_revoked_at = None\<rparr> = Inr vc"
    and i: "get_identity_row r a = Inr idn"
    and R: "(if ir_state idn \<noteq> IdentityActive then Inl AgentIdentityConflictError
       else if kh \<noteq> None \<and> fetch_where (\<lambda>c. cr_agent_id c = a \<and> cr_idempotency_key_sha256 c = kh) (certs r) \<noteq> None
       then rbind (identity_from_row r idn) (\<lambda>v. Inr (r, v, False))
       else if fetch_where (\<lambda>c. cr_agent_id c = a \<and> cr_state c = CertStaged) (certs r) \<noteq> None then Inl AgentIdentityConflictError
       else if sq_generation q \<noteq> ir_generation idn + 1 then Inl AgentIdentityConflictError
       else
         rbind (conflict_on_integrity (put_certs (certs r @ [stage_row q a serial fp spki pem kh now]) r)) (\<lambda>r1.
         rbind (advance_generation a (sq_generation q) (micros now) r1) (\<lambda>r2.
         rbind (with_view r2 a) (\<lambda>(r3, v). Inr (r3, v, True))))) = Inr (r', v, b)"
    using assms unfolding stage_certificate_def rbind_eq_Inr by - (elim exE conjE, rule that, assumption+)
  have act: "ir_state idn = IdentityActive" using R by (auto split: if_splits)
  show thesis
  proof (cases "kh \<noteq> None \<and> fetch_where (\<lambda>c. cr_agent_id c = a \<and> cr_idempotency_key_sha256 c = kh) (certs r) \<noteq> None")
    case True
    then obtain c where "c \<in> set (certs r)" "cr_agent_id c = a" "cr_idempotency_key_sha256 c = kh" by (auto dest: fetch_where_Some)
    moreover have "r' = r" "\<not> b" using R act True by auto
    ultimately show thesis using replay [of c] n(1,6) True by simp
  next
    case False
    let ?c = "stage_row q a serial fp spki pem kh now"
    have "unprefix (lower (strip serial)) = serial" using normalize_serial_Inr [OF n(2)] unprefix_hex by blast
    then have "staged_row sha q now ?c"
      using n validate_certificate_Inr [OF vc] by (simp add: staged_row_def stage_row_def)
    moreover have gen: "sq_generation q = ir_generation idn + 1" using R act False by (auto split: if_splits)
    moreover have "b" "cert_table_ok (certs r @ [?c])" using R act False gen by (auto split: if_splits)
    moreover have "r' = r\<lparr>certs := certs r @ [?c], identities := upd_where (\<lambda>i. ir_agent_id i = a \<and> ir_generation i = sq_generation q - 1 \<and> ir_state i = IdentityActive)
         (\<lambda>i. i\<lparr>ir_generation := sq_generation q, ir_updated_at_us := micros now, ir_revision := Suc (ir_revision i)\<rparr>) (identities r)\<rparr>"
      using R act False gen by (auto split: if_splits dest!: with_view_Inr advance_generation_Inr)
    ultimately show thesis using staged [of ?c idn] act i by (simp add: stage_row_def)
  qed
qed

lemma staged_row_ok:
  assumes "staged_row sha q now c" "cert_table_ok (cs @ [c])"
  shows "cert_ok c" "cr_state c = CertStaged" "cr_generation c = sq_generation q"
proof -
  have c: "c = stage_row q (cr_agent_id c) (cr_serial_number c) (cr_cert_sha256 c) (cr_spki_sha256 c) (cr_certificate_pem c) (cr_idempotency_key_sha256 c) now"
    using assms(1) by (simp add: staged_row_def)
  show "cr_state c = CertStaged" by (subst c) (simp add: stage_row_def)
  show g: "cr_generation c = sq_generation q" by (subst c) (simp add: stage_row_def)
  have "cr_not_before_us c < cr_not_after_us c" using assms(2) by (simp add: cert_table_ok_def)
  moreover have "hex_text 1 64 (cr_serial_number c)" "hex_text 64 64 (cr_cert_sha256 c)" "hex_text 64 64 (cr_spki_sha256 c)"
    using assms(1) normalize_serial_Inr normalize_hex_Inr unfolding staged_row_def hex_text_def
    by (metis (no_types, lifting) Suc_leI length_greater_0_conv One_nat_def order_refl)+
  ultimately show "cert_ok c"
    using assms(1) g by (auto simp: staged_row_def cert_ok_def normalize_agent_id_Inr)
qed

lemma stage_ok:
  assumes "registry_ok r" "stage_certificate sha q now r = Inr (r', v, b)"
  shows "registry_ok r'"
  using assms(2)
proof (cases rule: stageE)
  case (staged c idn)
  have c: "cert_ok c" "cr_state c = CertStaged" "cr_generation c = sq_generation q" using staged_row_ok [OF staged(2,6)] .
  have idn: "idn \<in> set (identities r)" "ir_agent_id idn = cr_agent_id c" using get_identity_row_Inr [OF staged(3)] by auto
  have st: "list_all2 (\<lambda>i i'. id_step i i' \<and> ir_state i' = ir_state i) (identities r) (identities r')"
    unfolding staged(7) by (auto simp: id_step_def intro!: list_all2_upd_where)
  have "closed (identities r') (certs r)" by (rule closed_moves [OF registry_okD(8) [OF assms(1)] st moves_refl])
  moreover have "ir_state i' = IdentityActive" if i': "i' \<in> set (identities r')" "ir_agent_id i' = cr_agent_id c" for i'
  proof -
    obtain i where i: "i \<in> set (identities r)" "id_step i i'" "ir_state i' = ir_state i" using all2_inD2 [OF st i'(1)] by blast
    have "ir_agent_id i = ir_agent_id idn" using i(2) i'(2) idn(2) unfolding id_step_def by metis
    then have "i = idn" by (rule key_inj [OF registry_okD(1) [OF assms(1)] i(1) idn(1)])
    then show ?thesis using i(3) staged(4) by simp
  qed
  ultimately have "closed (identities r') (certs r')" by (auto simp: closed_def staged(7))
  moreover have "bound (identities r') [c]"
  proof -
    let ?i = "idn\<lparr>ir_generation := sq_generation q, ir_updated_at_us := micros now, ir_revision := Suc (ir_revision idn)\<rparr>"
    have "?i \<in> set (identities r')" using idn staged(4,5) by (force simp: staged(7) set_upd_where)
    then show ?thesis using idn(2) c(3) unfolding bound_def by (intro ballI bexI [of _ ?i]) simp_all
  qed
  moreover have "id_moves (identities r) (identities r')" using st by (rule list_all2_mono) simp
  ultimately show ?thesis
    using moves_ok [OF assms(1), of r' "certs r" "[c]"] c(1) staged(6,7) by simp
qed (use assms(1) in simp)

lemma conflict_insert: "insert_identity i r = Inr r' \<Longrightarrow> r' = r\<lparr>identities := identities r @ [i]\<rparr> \<and>
    (\<forall>x \<in> set (identities r). ir_agent_id x \<noteq> ir_agent_id i \<and> ir_target_id x \<noteq> ir_target_id i \<and> ir_canonical_host_id x \<noteq> ir_canonical_host_id i)"
  by (auto simp: insert_identity_def split: if_splits)

text \<open>What \<open>uuid4().hex\<close> draws.\<close>

definition uuid_hex :: "string \<Rightarrow> bool" where
  "uuid_hex u = (length u = 32 \<and> list_all hex_char u)"

lemma uuid_pattern: "uuid_hex u \<Longrightarrow> agent_id_pattern (''agent-'' @ u)"
  by (auto simp: uuid_hex_def agent_id_pattern_def id_char_def hex_char_def list_all_iff)

lemma createE_identity:
  assumes "get_or_create tgt host scopes aid now uuid r = Inr (r', v, b)"
  obtains (existing) row where "r' = r" "\<not> b" "row \<in> set (identities r)" "ir_target_id row = strip tgt" "ir_canonical_host_id row = strip host"
      "normalize_scopes scopes = Inr (ir_scopes row)" "identity_from_row r row = Inr v"
  | (created) i where "b" "r' = r\<lparr>identities := identities r @ [i]\<rparr>"
      "\<forall>x \<in> set (identities r). ir_agent_id x \<noteq> ir_agent_id i \<and> ir_target_id x \<noteq> ir_target_id i \<and> ir_canonical_host_id x \<noteq> ir_canonical_host_id i"
      "ir_state i = IdentityActive" "ir_generation i = 0" "required_text 256 tgt = Inr (ir_target_id i)" "required_text 256 host = Inr (ir_canonical_host_id i)"
      "normalize_scopes scopes = Inr (ir_scopes i)"
      "case aid of None \<Rightarrow> ir_agent_id i = ''agent-'' @ uuid | Some a \<Rightarrow> normalize_agent_id a = Inr (ir_agent_id i)"
proof -
  obtain t h sc rq where n: "required_text 256 tgt = Inr t" "required_text 256 host = Inr h" "normalize_scopes scopes = Inr sc"
      "(case aid of None \<Rightarrow> Inr None | Some a \<Rightarrow> rbind (normalize_agent_id a) (\<lambda>x. Inr (Some x))) = Inr rq"
    and R: "(case fetch_where (\<lambda>i. ir_target_id i = t) (identities r) of
         Some row \<Rightarrow>
           if ir_canonical_host_id row \<noteq> h \<or> ir_scopes row \<noteq> sc \<or> (rq \<noteq> None \<and> rq \<noteq> Some (ir_agent_id row))
           then Inl AgentIdentityConflictError
           else rbind (identity_from_row r row) (\<lambda>v. Inr (r, v, False))
       | None \<Rightarrow>
           let allocated = (case rq of None \<Rightarrow> ''agent-'' @ uuid | Some a \<Rightarrow> a) in
           rbind (conflict_on_integrity (insert_identity \<lparr>ir_agent_id = allocated, ir_target_id = t, ir_canonical_host_id = h, ir_scopes = sc,
               ir_state = IdentityActive, ir_generation = 0, ir_created_at_us = micros now, ir_updated_at_us = micros now, ir_revoked_at_us = None,
               ir_revision = 0\<rparr> r)) (\<lambda>r1.
           rbind (with_view r1 allocated) (\<lambda>(r2, v). Inr (r2, v, True)))) = Inr (r', v, b)"
    using assms unfolding get_or_create_def rbind_eq_Inr by - (elim exE conjE, rule that, assumption+)
  show thesis
  proof (cases "fetch_where (\<lambda>i. ir_target_id i = t) (identities r)")
    case (Some row)
    then have "row \<in> set (identities r)" "ir_target_id row = t" using fetch_where_Some by fastforce+
    then show thesis using existing [of row] R Some n by (auto simp: required_text_Inr split: if_splits)
  next
    case None
    let ?i = "\<lparr>ir_agent_id = (case rq of None \<Rightarrow> ''agent-'' @ uuid | Some a \<Rightarrow> a), ir_target_id = t, ir_canonical_host_id = h, ir_scopes = sc,
               ir_state = IdentityActive, ir_generation = 0, ir_created_at_us = micros now, ir_updated_at_us = micros now, ir_revoked_at_us = None,
               ir_revision = 0\<rparr>"
    have "insert_identity ?i r = Inr r'" "b" using R None by (auto simp: Let_def dest!: with_view_Inr)
    then show thesis using created [of ?i] conflict_insert [of ?i r r'] n by (cases aid) auto
  qed
qed

lemma create_identity_ok:
  assumes "registry_ok r" "get_or_create tgt host scopes aid now uuid r = Inr (r', v, b)" "uuid_hex uuid"
  shows "registry_ok r'"
  using assms(2)
proof (cases rule: createE_identity)
  case (created i)
  have "agent_id_pattern (ir_agent_id i)" using created(9) uuid_pattern [OF assms(3)] by (auto simp: normalize_agent_id_Inr split: option.splits)
  then have "identity_ok i"
    using created(5-7) normalize_scopes_Inr [OF created(8)] by (auto simp: identity_ok_def text_ok_def required_text_Inr)
  moreover have "closed [i] (certs r)" "bound (identities r') (certs r)"
    using created(4) registry_okD(7) [OF assms(1)] by (auto simp: closed_def bound_def created(2))
  ultimately show ?thesis
    using registry_okD(1-3,5,8) [OF assms(1)] created(3) assms(1) by (auto simp: registry_ok_def created(2) closed_def)
qed (use assms(1) in simp)

end
