(* ===== verification/Registry_System.thy ===== *)
theory Registry_System
  imports Registry_Laws
begin

text \<open>
  The identity registry as a clocked system: the six writing operations as values of \<open>reg_op\<close>, one step per committed or rolled-back
  transaction, and the invariants of the reachable registries. The schema's indexes never refuse a transition (\<open>table_moves\<close>), at most one
  retired certificate of an agent is still inside its overlap, and a revoked row never moves again.
\<close>

section \<open>Operations as values\<close>

datatype reg_op =
    Get_or_create string string "string list" "string option" datetime string
  | Stage stage_request datetime
  | Activate string int timedelta datetime
  | Abort string int datetime
  | Revoke string "int option" datetime
  | Revoke_certificates string datetime

fun apply_reg :: "(string \<Rightarrow> string) \<Rightarrow> reg_op \<Rightarrow> registry \<Rightarrow> registry \<times> exn option" where
  "apply_reg sha (Get_or_create tgt host scopes aid now uuid) r = commit r (get_or_create tgt host scopes aid now uuid r)"
| "apply_reg sha (Stage q now) r = commit r (stage_certificate sha q now r)"
| "apply_reg sha (Activate a g ov now) r = commit r (activate a g ov now r)"
| "apply_reg sha (Abort a g now) r = commit r (abort a g now r)"
| "apply_reg sha (Revoke a g now) r = commit r (revoke a g now r)"
| "apply_reg sha (Revoke_certificates a now) r = commit r (revoke_certificates a now r)"

fun reg_issued :: "int \<Rightarrow> reg_op \<Rightarrow> bool" where
  "reg_issued t (Get_or_create tgt host scopes aid now uuid) = (micros now = t \<and> uuid_hex uuid)"
| "reg_issued t (Stage q now) = (micros now = t)"
| "reg_issued t (Activate a g ov now) = (micros now = t)"
| "reg_issued t (Abort a g now) = (micros now = t)"
| "reg_issued t (Revoke a g now) = (micros now = t)"
| "reg_issued t (Revoke_certificates a now) = (micros now = t)"

definition reg_step :: "(string \<Rightarrow> string) \<Rightarrow> int \<Rightarrow> registry \<Rightarrow> registry \<Rightarrow> bool" where
  "reg_step sha t r r' = (\<exists>op. reg_issued t op \<and> r' = fst (apply_reg sha op r))"

definition reg_reach :: "(string \<Rightarrow> string) \<Rightarrow> int \<Rightarrow> registry \<Rightarrow> bool" where
  "reg_reach sha = clocked_reach (\<lambda>r. r = empty_registry) (reg_step sha)"

lemmas reg_ok = create_identity_ok stage_ok activate_ok abort_ok revoke_ok revoke_certificates_ok

lemma apply_reg_ok:
  assumes "registry_ok r" "reg_issued t op"
  shows "registry_ok (fst (apply_reg sha op r))"
  by (cases op; use assms in \<open>auto intro!: commit_fst [where P = registry_ok] dest: reg_ok\<close>)

interpretation registry_inv: clocked_invariant "\<lambda>r. r = empty_registry" "reg_step sha" "\<lambda>_. registry_ok"
  by unfold_locales
    (auto simp: reg_step_def apply_reg_ok, simp add: registry_ok_def empty_registry_def cert_table_ok_def unique_on_def bound_def closed_def)

section \<open>Rows only move forward\<close>

text \<open>The rows of a registry all survive in a later one, moved along.\<close>

definition reg_moves :: "int \<Rightarrow> registry \<Rightarrow> registry \<Rightarrow> bool" where
  "reg_moves t r r' = (\<exists>ids is' cs cs'. identities r' = ids @ is' \<and> id_moves (identities r) ids \<and> certs r' = cs @ cs' \<and> cert_moves t (certs r) cs
     \<and> (\<forall>c \<in> set cs'. cr_state c = CertStaged \<and> (\<exists>i \<in> set (identities r). ir_agent_id i = cr_agent_id c \<and> cr_generation c = ir_generation i + 1)))"

lemma reg_movesI:
  assumes "identities r' = ids @ is'" "id_moves (identities r) ids" "certs r' = cs @ cs'" "cert_moves t (certs r) cs"
    "\<And>c. c \<in> set cs' \<Longrightarrow> cr_state c = CertStaged \<and> (\<exists>i \<in> set (identities r). ir_agent_id i = cr_agent_id c \<and> cr_generation c = ir_generation i + 1)"
  shows "reg_moves t r r'"
  using assms unfolding reg_moves_def by blast

lemma reg_movesI0: "id_moves (identities r) (identities r') \<Longrightarrow> cert_moves t (certs r) (certs r') \<Longrightarrow> reg_moves t r r'"
  by (rule reg_movesI [where is' = "[]" and cs' = "[]"]) auto

lemma reg_moves_refl [simp]: "reg_moves t r r"
  by (rule reg_movesI0) simp_all

lemma reg_moves_touch:
  "cert_moves t (certs r) cs \<Longrightarrow> r' = r\<lparr>certs := cs\<rparr> \<or> r' = touch_identity a t (r\<lparr>certs := cs\<rparr>) \<Longrightarrow> reg_moves t r r'"
  using list_all2_mono [OF touch_moves [of "r\<lparr>certs := cs\<rparr>" a t], of id_step] by (auto intro!: reg_movesI0)

lemma create_moves: "get_or_create tgt host scopes aid now uuid r = Inr (r', v, b) \<Longrightarrow> reg_moves t r r'"
  by (erule createE_identity) (simp, rule reg_movesI [where ids = "identities r" and cs = "certs r" and cs' = "[]"], auto)

lemma stage_moves:
  assumes "stage_certificate sha q now r = Inr (r', v, b)"
  shows "reg_moves t r r'"
  using assms
proof (cases rule: stageE)
  case (staged c idn)
  have "id_moves (identities r) (identities r')" unfolding staged(7) by (auto simp: id_step_def intro!: list_all2_upd_where)
  moreover have "\<exists>i \<in> set (identities r). ir_agent_id i = cr_agent_id c \<and> cr_generation c = ir_generation i + 1"
    using get_identity_row_Inr [OF staged(3)] staged(5) staged_row_ok(3) [OF staged(2,6)] by auto
  ultimately show ?thesis
    using staged_row_ok(2) [OF staged(2,6)] reg_movesI [of r' "identities r'" "[]" r "certs r" "[c]"] by (simp add: staged(7))
qed simp

lemma activate_moves: "activate a g ov now r = Inr (r', v) \<Longrightarrow> reg_moves (micros now) r r'"
  by (erule activateE) (auto intro: reg_moves_touch rotate_moves)

lemma abort_moves:
  assumes "abort a g now r = Inr (r', v)"
  shows "reg_moves (micros now) r r'"
  using assms
proof (cases rule: abortE)
  case (withdraw a cs)
  have "cert_moves (micros now) (certs r) cs" unfolding withdraw(2) by (rule withdraw_moves) simp
  then show ?thesis using reg_moves_touch withdraw(4) by blast
qed simp

lemma revoke_certificates_moves:
  assumes "revoke_certificates a now r = Inr (r', v)"
  shows "reg_moves (micros now) r r'"
  using assms
proof (cases rule: revoke_certificatesE)
  case (1 a cs)
  have "cert_moves (micros now) (certs r) cs" unfolding 1(2) by (rule withdraw_moves) simp
  then show ?thesis using reg_moves_touch 1(4) by blast
qed

lemma revoke_moves:
  assumes "registry_ok r" "revoke a gen now r = Inr (r', v)"
  shows "reg_moves (micros now) r r'"
  using assms(2)
proof (cases rule: revokeE)
  case (certificate a g c cs)
  then show ?thesis using reg_moves_touch [OF revoke_one_moves [OF assms(1) certificate(3,4)]] by blast
next
  case (identity a ids cs)
  have "id_moves (identities r) ids" unfolding identity(3) by (simp add: list_all2_upd_where id_step_def)
  moreover have "cert_moves (micros now) (certs r) cs" unfolding identity(4) by (rule moves_upd) (simp add: revoke_row_step)
  ultimately show ?thesis by (intro reg_movesI0) (simp_all add: identity(6))
qed simp

lemmas op_moves = create_moves stage_moves activate_moves abort_moves revoke_moves revoke_certificates_moves

lemma commit_moves: "(\<And>r' x. out = Inr (r', x) \<Longrightarrow> reg_moves t r r') \<Longrightarrow> reg_moves t r (fst (commit r out))"
  by (rule commit_fst) simp_all

lemma apply_reg_moves:
  assumes "registry_ok r" "reg_issued t op"
  shows "reg_moves t r (fst (apply_reg sha op r))"
  by (cases op; use assms in \<open>auto intro!: commit_moves dest: op_moves\<close>)

lemma step_moves: "registry_ok r \<Longrightarrow> reg_step sha t r r' \<Longrightarrow> reg_moves t r r'"
  by (auto simp: reg_step_def apply_reg_moves)

section \<open>The schema never refuses a transition\<close>

lemma unique_on_mono:
  assumes "list_all2 R cs cs'" "\<And>c c'. R c c' \<Longrightarrow> P' c' \<Longrightarrow> P c \<and> col c' = col c" "unique_on P col cs"
  shows "unique_on P' col cs'"
  using assms(1,3)
proof (induction rule: list_all2_induct)
  case (Cons c cs c' cs')
  have "col c' \<notin> col ` {d' \<in> set cs'. P' d'}" if c': "P' c'"
  proof
    assume "col c' \<in> col ` {d' \<in> set cs'. P' d'}"
    then obtain d' where d': "d' \<in> set cs'" "P' d'" "col c' = col d'" by blast
    obtain d where "d \<in> set cs" "R d d'" using all2_inD2 [OF Cons(2) d'(1)] by blast
    then have "col c \<in> col ` {d \<in> set cs. P d}" "P c" using assms(2) d' c' Cons(1) by fastforce+
    then show False using Cons.prems by (simp add: unique_on_def)
  qed
  then show ?case using Cons.IH Cons.prems by (auto simp: unique_on_def split: if_splits)
qed (simp add: unique_on_def)

lemma unique_on_upd: "unique_on Q col cs \<Longrightarrow> (\<And>c. P c \<Longrightarrow> \<not> Q (f c)) \<Longrightarrow> unique_on Q col (upd_where P f cs)"
  by (rule unique_on_mono [where R = "\<lambda>c c'. c' = c \<or> \<not> Q c'" and P = Q and cs = cs])
    (auto intro!: list_all2_upd_where)

lemma unique_on_inj:
  assumes "distinct cs"
  shows "unique_on P col cs \<longleftrightarrow> (\<forall>c \<in> set cs. \<forall>d \<in> set cs. P c \<longrightarrow> P d \<longrightarrow> col c = col d \<longrightarrow> c = d)"
  using assms by (auto simp: unique_on_def distinct_map inj_on_def)

lemma unique_on_join:
  assumes "distinct cs" "unique_on P col cs" "unique_on Q col cs" "\<And>c. c \<in> set cs \<Longrightarrow> col c = k \<Longrightarrow> \<not> P c" "\<And>c. Q c \<Longrightarrow> col c = k"
  shows "unique_on (\<lambda>c. P c \<or> Q c) col cs"
  unfolding unique_on_inj [OF assms(1)]
proof (intro ballI impI)
  fix c d assume h: "c \<in> set cs" "d \<in> set cs" "P c \<or> Q c" "P d \<or> Q d" "col c = col d"
  consider "P c" "P d" | "Q c" "Q d" using h assms(4,5) by metis
  then show "c = d" using assms(2,3) h(1,2,5) unfolding unique_on_inj [OF assms(1)] by cases simp_all
qed

lemma table_distinct: "cert_table_ok cs \<Longrightarrow> distinct cs"
  by (simp add: cert_table_ok_def unique_on_def distinct_map)

lemma count_unique: "unique_on P col cs \<Longrightarrow> count_where (\<lambda>c. col c = k \<and> P c) cs \<le> 1"
  using count_where_key_le1 [of col "filter P cs" "\<lambda>c. col c = k" k] by (simp add: unique_on_def count_where_def conj_commute)

lemma steps_keep:
  "(cert_step t)\<^sup>*\<^sup>* c c' \<Longrightarrow> (cr_state c' = CertStaged \<longrightarrow> cr_state c = CertStaged) \<and> (cr_idempotency_key_sha256 c' \<noteq> None \<longrightarrow> cr_idempotency_key_sha256 c' = cr_idempotency_key_sha256 c)"
  by (induction rule: rtranclp_induct) (auto simp: revoke_row_def elim!: cert_step.cases)

lemma table_moves:
  assumes "cert_table_ok cs" "cert_moves t cs cs'" "unique_on (\<lambda>c. cr_state c = CertActive) cr_agent_id cs'"
  shows "cert_table_ok cs'"
proof -
  note mono = unique_on_mono [OF assms(2)]
  have sm: "same_certificate c c'" "cr_state c' = CertStaged \<Longrightarrow> cr_state c = CertStaged"
    "cr_idempotency_key_sha256 c' \<noteq> None \<Longrightarrow> cr_idempotency_key_sha256 c' = cr_idempotency_key_sha256 c" if "(cert_step t)\<^sup>*\<^sup>* c c'" for c c'
    using steps_same [OF that] steps_keep [OF that] by auto
  have "unique_on (\<lambda>_. True) (\<lambda>c. (cr_agent_id c, cr_generation c)) cs'" "unique_on (\<lambda>_. True) cr_serial_number cs'" "unique_on (\<lambda>_. True) cr_cert_sha256 cs'"
    by (rule mono [where P = "\<lambda>_. True"]; use assms(1) in \<open>auto simp: cert_table_ok_def same_certificate_def dest: sm(1)\<close>)+
  moreover have "unique_on (\<lambda>c. cr_state c = CertStaged) cr_agent_id cs'"
    by (rule mono [where P = "\<lambda>c. cr_state c = CertStaged"]; use assms(1) in \<open>auto simp: cert_table_ok_def same_certificate_def dest: sm(1,2)\<close>)
  moreover have "unique_on (\<lambda>c. cr_idempotency_key_sha256 c \<noteq> None) (\<lambda>c. (cr_agent_id c, cr_idempotency_key_sha256 c)) cs'"
    by (rule mono [where P = "\<lambda>c. cr_idempotency_key_sha256 c \<noteq> None"]; use assms(1) in \<open>auto simp: cert_table_ok_def same_certificate_def dest: sm(1,3)\<close>)
  moreover have "1 \<le> cr_generation c' \<and> cr_not_before_us c' < cr_not_after_us c'" if "c' \<in> set cs'" for c'
    using all2_inD2 [OF assms(2) that] assms(1) sm(1) by (fastforce simp: cert_table_ok_def list_all_iff same_certificate_def)
  ultimately show ?thesis using assms(3) by (simp add: cert_table_ok_def list_all_iff)
qed

text \<open>The three updates of an activation.\<close>

lemma close_table: "cert_table_ok cs \<Longrightarrow> cert_table_ok (close_overlaps a t cs)"
  by (rule table_moves [OF _ close_moves]) (auto simp: close_overlaps_def cert_table_ok_def intro!: unique_on_upd)

lemma retire_table: "cert_table_ok cs \<Longrightarrow> cert_table_ok (retire_active a t u cs)"
  by (rule table_moves [OF _ retire_moves]) (auto simp: retire_active_def cert_table_ok_def intro!: unique_on_upd)

lemma retire_none_active: "c \<in> set (retire_active a t u cs) \<Longrightarrow> cr_agent_id c = a \<Longrightarrow> cr_state c \<noteq> CertActive"
  unfolding retire_active_def by (erule upd_whereE) auto

lemma promote_table:
  assumes "cert_table_ok cs" "\<And>c. c \<in> set cs \<Longrightarrow> cr_agent_id c = a \<Longrightarrow> cr_state c \<noteq> CertActive"
  shows "cert_table_ok (promote_staged a g t cs)"
proof (rule table_moves [OF assms(1) promote_moves])
  let ?P = "\<lambda>c. cr_agent_id c = a \<and> cr_generation c = g \<and> cr_state c = CertStaged"
  have key: "unique_on ?P cr_agent_id cs"
    by (rule unique_on_mono [where R = "(=)" and P = "\<lambda>c. cr_state c = CertStaged" and cs = cs])
      (use assms(1) in \<open>auto simp: cert_table_ok_def list.rel_eq\<close>)
  have act: "unique_on (\<lambda>c. cr_state c = CertActive) cr_agent_id cs" using assms(1) by (simp add: cert_table_ok_def)
  have "unique_on (\<lambda>c. cr_state c = CertActive \<or> ?P c) cr_agent_id cs"
    by (rule unique_on_join [OF table_distinct [OF assms(1)] act key, where k = a]) (use assms(2) in auto)
  then show "unique_on (\<lambda>c. cr_state c = CertActive) cr_agent_id (promote_staged a g t cs)"
    unfolding promote_staged_def
    by (rule unique_on_mono [where R = "\<lambda>c c'. cr_agent_id c' = cr_agent_id c \<and> (cr_state c' = CertActive \<longrightarrow> cr_state c = CertActive \<or> ?P c)", rotated 2])
      (auto intro!: list_all2_upd_where)
qed

lemma rotate_table: "cert_table_ok cs \<Longrightarrow> cert_table_ok (promote_staged a g t (retire_active a t u (close_overlaps a t cs)))"
  by (intro promote_table retire_table close_table) (auto dest: retire_none_active)

section \<open>At most one overlap\<close>

definition overlapping :: "int \<Rightarrow> cert_row \<Rightarrow> bool" where
  "overlapping t c = (cr_state c = CertRetired \<and> (case cr_overlap_until_us c of None \<Rightarrow> False | Some u \<Rightarrow> t < u))"

definition single_overlap :: "int \<Rightarrow> registry \<Rightarrow> bool" where
  "single_overlap t r = unique_on (overlapping t) cr_agent_id (certs r)"

lemma overlap_tick: "single_overlap t r \<Longrightarrow> t \<le> t' \<Longrightarrow> single_overlap t' r"
  unfolding single_overlap_def
  by (rule unique_on_mono [where R = "(=)" and cs = "certs r"]) (auto simp: list.rel_eq overlapping_def split: option.splits)

lemma close_none_overlapping: "c \<in> set (close_overlaps a t cs) \<Longrightarrow> cr_agent_id c = a \<Longrightarrow> \<not> overlapping t c"
  unfolding close_overlaps_def by (erule upd_whereE) (auto simp: overlapping_def split: option.splits)

lemma rotate_overlap:
  assumes "cert_table_ok cs" "unique_on (overlapping t) cr_agent_id cs"
  shows "unique_on (overlapping t) cr_agent_id (promote_staged a g t (retire_active a t u (close_overlaps a t cs)))"
proof -
  let ?P = "\<lambda>c. cr_agent_id c = a \<and> cr_state c = CertActive"
  let ?cs = "close_overlaps a t cs"
  have "unique_on (overlapping t) cr_agent_id ?cs"
    unfolding close_overlaps_def by (rule unique_on_upd [OF assms(2)]) (auto simp: overlapping_def)
  moreover have "unique_on ?P cr_agent_id ?cs"
    by (rule unique_on_mono [where R = "(=)" and P = "\<lambda>c. cr_state c = CertActive" and cs = ?cs])
      (use close_table [OF assms(1)] in \<open>auto simp: cert_table_ok_def list.rel_eq\<close>)
  ultimately have "unique_on (\<lambda>c. overlapping t c \<or> ?P c) cr_agent_id ?cs"
    by (rule unique_on_join [OF table_distinct [OF close_table [OF assms(1)]], where k = a]) (auto dest: close_none_overlapping)
  then have "unique_on (overlapping t) cr_agent_id (retire_active a t u ?cs)"
    unfolding retire_active_def
    by (rule unique_on_mono [where R = "\<lambda>c c'. cr_agent_id c' = cr_agent_id c \<and> (overlapping t c' \<longrightarrow> overlapping t c \<or> ?P c)", rotated 2])
      (auto intro!: list_all2_upd_where)
  then show ?thesis
    unfolding promote_staged_def [of a g t] by (rule unique_on_upd) (simp add: overlapping_def)
qed

lemma overlap_upd:
  assumes "single_overlap t r" "certs r' = upd_where P f (certs r)" "\<And>c. cr_state (f c) = CertRevoked"
  shows "single_overlap t r'"
  unfolding single_overlap_def assms(2) using assms(1) by (intro unique_on_upd) (simp_all add: single_overlap_def overlapping_def assms(3))

lemma create_overlap: "single_overlap t r \<Longrightarrow> get_or_create tgt host scopes aid now uuid r = Inr (r', v, b) \<Longrightarrow> single_overlap t r'"
  by (erule createE_identity) (auto simp: single_overlap_def)

lemma stage_overlap:
  assumes "single_overlap t r" "stage_certificate sha q now r = Inr (r', v, b)"
  shows "single_overlap t r'"
  using assms(2)
proof (cases rule: stageE)
  case (staged c idn)
  then show ?thesis using assms(1) staged_row_ok(2) [OF staged(2,6)] by (simp add: single_overlap_def unique_on_def overlapping_def)
qed (use assms(1) in simp)

lemma activate_overlap:
  assumes "registry_ok r" "single_overlap (micros now) r" "activate a g ov now r = Inr (r', v)"
  shows "single_overlap (micros now) r'"
  using assms(3)
proof (cases rule: activateE)
  case (rotate a idn c cs)
  then show ?thesis using rotate_overlap [OF registry_okD(5) [OF assms(1)]] assms(2) by (simp add: single_overlap_def)
qed (use assms(2) in simp)

lemma abort_overlap: "single_overlap t r \<Longrightarrow> abort a g now r = Inr (r', v) \<Longrightarrow> single_overlap t r'"
  by (erule abortE) (simp, erule overlap_upd, auto simp: revoke_row_def)

lemma revoke_overlap: "single_overlap t r \<Longrightarrow> revoke a gen now r = Inr (r', v) \<Longrightarrow> single_overlap t r'"
  by (erule revokeE) (simp, (erule overlap_upd, auto simp: revoke_row_def)+)

lemma revoke_certificates_overlap: "single_overlap t r \<Longrightarrow> revoke_certificates a now r = Inr (r', v) \<Longrightarrow> single_overlap t r'"
  by (erule revoke_certificatesE) (erule overlap_upd, auto simp: revoke_row_def)

lemmas op_overlap = create_overlap stage_overlap activate_overlap abort_overlap revoke_overlap revoke_certificates_overlap

lemma commit_overlap: "(\<And>r' x. out = Inr (r', x) \<Longrightarrow> single_overlap t r') \<Longrightarrow> single_overlap t r \<Longrightarrow> single_overlap t (fst (commit r out))"
  by (rule commit_fst)

lemma apply_reg_overlap:
  assumes "registry_ok r" "single_overlap t r" "reg_issued t op"
  shows "single_overlap t (fst (apply_reg sha op r))"
  by (cases op; use assms in \<open>auto intro!: commit_overlap dest: op_overlap\<close>)

interpretation registry_inv2: clocked_invariant2 "\<lambda>r. r = empty_registry" "reg_step sha" "\<lambda>_. registry_ok" single_overlap
  by unfold_locales (auto simp: reg_step_def apply_reg_overlap intro: overlap_tick, simp add: single_overlap_def unique_on_def empty_registry_def)

lemma reach_registry: "reg_reach sha t r \<Longrightarrow> registry_ok r \<and> single_overlap t r"
  using registry_inv2.both.reach_inv by (simp add: reg_reach_def)

end
