(* ===== verification/Registry_Properties.thy ===== *)
theory Registry_Properties
  imports Registry_System
begin

text \<open>
  Properties of the agent identity registry: reads are total on reachable registries, a rotation completes and leaves at most two
  accepted certificates, revocation is final, bindings and certificate material never change, a staged request may be replayed.
\<close>

section \<open>Verification\<close>

lemma joined_mem: "(c, i) \<in> set (joined r) \<longleftrightarrow> c \<in> set (certs r) \<and> i \<in> set (identities r) \<and> ir_agent_id i = cr_agent_id c"
  by (auto simp: joined_def)

definition verified_view :: "cert_row \<Rightarrow> identity_row \<Rightarrow> verified_agent_identity" where
  "verified_view c i = \<lparr>vi_agent_id = cr_agent_id c, vi_target_id = ir_target_id i, vi_canonical_host_id = ir_canonical_host_id i,
     vi_scopes = ir_scopes i, vi_certificate = cert_view c\<rparr>"

lemma verified_row:
  assumes "registry_ok r" "(c, i) \<in> set (joined r)"
  shows "rbind (certificate_from_row c) (\<lambda>v. Inr (Some \<lparr>vi_agent_id = strip (cr_agent_id c), vi_target_id = strip (ir_target_id i),
      vi_canonical_host_id = strip (ir_canonical_host_id i), vi_scopes = ir_scopes i, vi_certificate = v\<rparr>)) = Inr (Some (verified_view c i))"
proof -
  have "cert_ok c" "identity_ok i" using assms registry_okD(4,6) [OF assms(1)] by (auto simp: joined_mem)
  then show ?thesis
    using certificate_from_row_ok [of c] by (simp add: verified_view_def identity_ok_def text_ok_def cert_ok_def)
qed

lemma verify_Some:
  assumes "registry_ok r" "verify f s now st r = Inr (Some w)"
  obtains c i where "c \<in> set (certs r)" "i \<in> set (identities r)" "ir_agent_id i = cr_agent_id c" "ir_state i = IdentityActive"
    "accepted_at (micros now) st c" "w = verified_view c i"
proof -
  have arg: "\<not> (f = None \<and> s = None)"
  proof
    assume "f = None \<and> s = None"
    then show False using assms(2) by (simp add: verify_def)
  qed
  obtain fp sn where R: "(case fetch_where (\<lambda>(c, i). (fp = None \<or> fp = Some (cr_cert_sha256 c)) \<and> (sn = None \<or> sn = Some (cr_serial_number c))) (joined r) of
            None \<Rightarrow> Inr None
          | Some (c, i) \<Rightarrow>
              if ir_state i \<noteq> IdentityActive \<or> \<not> accepted_at (micros now) st c then Inr None
              else rbind (certificate_from_row c) (\<lambda>v.
                Inr (Some \<lparr>vi_agent_id = strip (cr_agent_id c), vi_target_id = strip (ir_target_id i), vi_canonical_host_id = strip (ir_canonical_host_id i),
                  vi_scopes = ir_scopes i, vi_certificate = v\<rparr>))) = Inr (Some w)"
    using assms(2) unfolding verify_def if_not_P [OF arg] rbind_eq_Inr by - (elim exE conjE, rule that, assumption)
  then obtain c i where ci: "fetch_where (\<lambda>(c, i). (fp = None \<or> fp = Some (cr_cert_sha256 c)) \<and> (sn = None \<or> sn = Some (cr_serial_number c))) (joined r) = Some (c, i)"
    by (auto split: option.splits)
  have mem: "(c, i) \<in> set (joined r)" using fetch_where_Some [OF ci] by simp
  have "ir_state i = IdentityActive" "accepted_at (micros now) st c" using R ci by (auto split: if_splits)
  moreover have "w = verified_view c i" using R verified_row [OF assms(1) mem] calculation unfolding ci by simp
  ultimately show thesis using that [of c i] mem by (simp add: joined_mem)
qed

text \<open>A fingerprint of the table decides its row.\<close>

lemma verify_fingerprint:
  assumes "registry_ok r" "c \<in> set (certs r)" "i \<in> set (identities r)" "ir_agent_id i = cr_agent_id c"
  shows "verify (Some (cr_cert_sha256 c)) None now st r =
    Inr (if ir_state i = IdentityActive \<and> accepted_at (micros now) st c then Some (verified_view c i) else None)"
proof -
  have mem: "(c, i) \<in> set (joined r)" using assms by (simp add: joined_mem)
  have hex: "normalize_hex (Some 64) (cr_cert_sha256 c) = Inr (cr_cert_sha256 c)"
    using registry_okD(6) [OF assms(1,2)] by (intro normalize_hex_fix) (auto simp: cert_ok_def hex_text_def)
  have "fetch_where (\<lambda>(d, j). Some (cr_cert_sha256 c) = Some (cr_cert_sha256 d)) (joined r) = Some (c, i)"
  proof (rule fetch_where_unique [OF mem])
    fix y assume y: "y \<in> set (joined r)" "case y of (d, j) \<Rightarrow> Some (cr_cert_sha256 c) = Some (cr_cert_sha256 d)"
    obtain d j where dj: "y = (d, j)" by (cases y)
    have "d = c" using key_inj [of cr_cert_sha256 "certs r" d c] registry_okD(5) [OF assms(1)] y assms(2) dj
      by (auto simp: cert_table_ok_def unique_on_def joined_mem)
    moreover have "j = i" using key_inj [OF registry_okD(1) [OF assms(1)], of j i] y(1) assms(3,4) calculation dj by (simp add: joined_mem)
    ultimately show "y = (c, i)" using dj by simp
  qed simp
  then show ?thesis using verified_row [OF assms(1) mem] by (simp add: verify_def hex)
qed

section \<open>Later registries\<close>

definition later :: "registry \<Rightarrow> registry \<Rightarrow> bool" where
  "later r r' = ((\<forall>i \<in> set (identities r). \<exists>i' \<in> set (identities r'). id_step i i')
     \<and> (\<forall>c \<in> set (certs r). \<exists>c' \<in> set (certs r'). same_certificate c c' \<and> (cr_state c = CertRevoked \<longrightarrow> c' = c)))"

lemma later_refl [simp]: "later r r"
  unfolding later_def by (intro conjI ballI; erule rev_bexI; simp)

lemma later_trans:
  assumes "later r r1" "later r1 r2"
  shows "later r r2"
  unfolding later_def
proof (intro conjI ballI)
  fix i assume "i \<in> set (identities r)"
  then obtain i1 where i1: "i1 \<in> set (identities r1)" "id_step i i1" using assms(1) unfolding later_def by blast
  obtain i2 where i2: "i2 \<in> set (identities r2)" "id_step i1 i2" using assms(2) i1(1) unfolding later_def by blast
  show "\<exists>i' \<in> set (identities r2). id_step i i'" using id_step_trans [OF i1(2) i2(2)] i2(1) by blast
next
  fix c assume "c \<in> set (certs r)"
  then obtain c1 where c1: "c1 \<in> set (certs r1)" "same_certificate c c1" "cr_state c = CertRevoked \<longrightarrow> c1 = c"
    using assms(1) unfolding later_def by blast
  obtain c2 where "c2 \<in> set (certs r2)" "same_certificate c1 c2" "cr_state c1 = CertRevoked \<longrightarrow> c2 = c1"
    using assms(2) c1(1) unfolding later_def by blast
  then show "\<exists>c' \<in> set (certs r2). same_certificate c c' \<and> (cr_state c = CertRevoked \<longrightarrow> c' = c)"
    using c1 same_trans by (intro bexI [of _ c2]) auto
qed

lemma moves_later:
  assumes "reg_moves t r r'"
  shows "later r r'"
proof -
  obtain ids is' cs cs' where m: "identities r' = ids @ is'" "id_moves (identities r) ids" "certs r' = cs @ cs'" "cert_moves t (certs r) cs"
    using assms by (auto simp: reg_moves_def)
  have "\<exists>i' \<in> set (identities r'). id_step i i'" if "i \<in> set (identities r)" for i
    using all2_inD1 [OF m(2) that] by (auto simp: m(1))
  moreover have "\<exists>c' \<in> set (certs r'). same_certificate c c' \<and> (cr_state c = CertRevoked \<longrightarrow> c' = c)" if c: "c \<in> set (certs r)" for c
  proof -
    obtain c' where "c' \<in> set cs" "(cert_step t)\<^sup>*\<^sup>* c c'" using all2_inD1 [OF m(4) c] by blast
    then show ?thesis using steps_same steps_revoked m(3) by (intro bexI [of _ c']) auto
  qed
  ultimately show ?thesis by (simp add: later_def)
qed

definition reg_run :: "(string \<Rightarrow> string) \<Rightarrow> registry \<Rightarrow> registry \<Rightarrow> bool" where
  "reg_run sha = (\<lambda>r r'. \<exists>t. reg_step sha t r r')\<^sup>*\<^sup>*"

lemma run_later:
  assumes "reg_run sha r r'" "registry_ok r"
  shows "registry_ok r' \<and> later r r'"
  using assms unfolding reg_run_def
proof (induction rule: rtranclp_induct)
  case (step r1 r2)
  then obtain t where t: "reg_step sha t r1 r2" and ok: "registry_ok r1" "later r r1" by blast
  show ?case using registry_inv.step_inv [OF ok(1) t] later_trans [OF ok(2) moves_later [OF step_moves [OF ok(1) t]]] by simp
qed simp

section \<open>Reads\<close>

lemma get_identity_view:
  assumes "registry_ok r" "row \<in> set (identities r)"
  shows "get_identity (ir_agent_id row) r = Inr (identity_view r row)"
  using fetch_identity [OF assms] identity_from_row_ok [OF assms] registry_okD(4) [OF assms] by (simp add: get_identity_def identity_ok_def)

lemma get_identity_Inr:
  assumes "registry_ok r" "get_identity a r = Inr v"
  obtains row where "row \<in> set (identities r)" "ir_agent_id row = strip a" "v = identity_view r row"
proof -
  obtain row where row: "get_identity_row r (strip a) = Inr row" "identity_from_row r row = Inr v"
    using assms(2) by (auto simp: get_identity_def normalize_agent_id_Inr)
  have "row \<in> set (identities r)" "ir_agent_id row = strip a" using get_identity_row_Inr [OF row(1)] by auto
  then show thesis using that identity_from_row_ok [OF assms(1)] row(2) by fastforce
qed

lemma get_by_target_view:
  assumes "registry_ok r" "row \<in> set (identities r)"
  shows "get_by_target (ir_target_id row) r = Inr (identity_view r row)"
proof -
  have "required_text 256 (ir_target_id row) = Inr (ir_target_id row)"
    using registry_okD(4) [OF assms] by (simp add: required_text_Inr identity_ok_def text_ok_def)
  then show ?thesis
    using fetch_key [OF registry_okD(2) [OF assms(1)] assms(2)] identity_from_row_ok [OF assms] by (simp add: get_by_target_def)
qed

lemma get_certificate_row_key:
  assumes "registry_ok r" "c \<in> set (certs r)"
  shows "get_certificate_row r (cr_agent_id c) (cr_generation c) = Inr c"
proof -
  have "fetch_where (\<lambda>d. cr_agent_id d = cr_agent_id c \<and> cr_generation d = cr_generation c) (certs r) = Some c"
    by (rule fetch_where_unique [OF assms(2)]) (auto intro: cert_key [OF assms(1) _ assms(2)])
  then show ?thesis by (simp add: get_certificate_row_def)
qed

lemma get_certificate_view:
  assumes "registry_ok r" "c \<in> set (certs r)"
  shows "get_certificate (cr_agent_id c) (cr_generation c) r = Inr (cert_view c)"
proof -
  have ok: "cert_ok c" using registry_okD(6) [OF assms] .
  then show ?thesis
    using get_certificate_row_key [OF assms] certificate_from_row_ok [OF ok] by (auto simp: get_certificate_def cert_ok_def)
qed

lemma list_identities_view:
  assumes "registry_ok r" "1 \<le> n" "n \<le> 10000"
  shows "list_identities n r = Inr (map (identity_view r) (order_limit (\<lambda>i. (ir_created_at_us i, ir_agent_id i)) (nat n) (identities r)))"
proof -
  let ?rows = "order_limit (\<lambda>i. (ir_created_at_us i, ir_agent_id i)) (nat n) (identities r)"
  have "rmap_list (identity_from_row r) ?rows = Inr (map (identity_view r) ?rows)"
  proof (rule rmap_list_Inr)
    fix i assume "i \<in> set ?rows"
    then have "i \<in> set (identities r)" by (rule subsetD [OF order_limit_subset])
    then show "identity_from_row r i = Inr (identity_view r i)" by (rule identity_from_row_ok [OF assms(1)])
  qed
  then show ?thesis using assms(2,3) by (simp add: list_identities_def)
qed

section \<open>Rotation\<close>

lemma upd_where_hit: "x \<in> set xs \<Longrightarrow> P x \<Longrightarrow> f x \<in> set (upd_where P f xs)"
  by (auto simp: upd_where_def)

lemma upd_where_miss: "x \<in> set xs \<Longrightarrow> \<not> P x \<Longrightarrow> x \<in> set (upd_where P f xs)"
  by (auto simp: upd_where_def)

lemma rotate_mem_staged:
  assumes "c \<in> set cs" "cr_agent_id c = a" "cr_generation c = g" "cr_state c = CertStaged"
  shows "c \<in> set (retire_active a t u (close_overlaps a t cs))"
    "c\<lparr>cr_state := CertActive, cr_activated_at_us := Some t, cr_retired_at_us := None, cr_overlap_until_us := None\<rparr>
       \<in> set (promote_staged a g t (retire_active a t u (close_overlaps a t cs)))"
proof -
  have "c \<in> set (close_overlaps a t cs)" unfolding close_overlaps_def by (rule upd_where_miss [OF assms(1)]) (simp add: assms(4))
  then show m: "c \<in> set (retire_active a t u (close_overlaps a t cs))"
    unfolding retire_active_def by (rule upd_where_miss) (simp add: assms(4))
  show "c\<lparr>cr_state := CertActive, cr_activated_at_us := Some t, cr_retired_at_us := None, cr_overlap_until_us := None\<rparr>
       \<in> set (promote_staged a g t (retire_active a t u (close_overlaps a t cs)))"
    unfolding promote_staged_def by (rule upd_where_hit [OF m]) (simp add: assms)
qed

lemma rotate_mem_active:
  assumes "d \<in> set cs" "cr_agent_id d = a" "cr_state d = CertActive"
  shows "d\<lparr>cr_state := CertRetired, cr_retired_at_us := Some t, cr_overlap_until_us := Some (min (cr_not_after_us d) u)\<rparr>
       \<in> set (promote_staged a g t (retire_active a t u (close_overlaps a t cs)))" (is "?d \<in> _")
proof -
  have "d \<in> set (close_overlaps a t cs)" unfolding close_overlaps_def by (rule upd_where_miss [OF assms(1)]) (simp add: assms(3))
  then have "?d \<in> set (retire_active a t u (close_overlaps a t cs))"
    unfolding retire_active_def by (rule upd_where_hit) (simp add: assms)
  then show ?thesis unfolding promote_staged_def by (rule upd_where_miss) simp
qed

text \<open>An overlap that was open before an activation is closed by it.\<close>

lemma rotate_closes:
  assumes "e \<in> set cs" "cr_agent_id e = a" "cr_state e = CertRetired"
  shows "\<exists>e' \<in> set (promote_staged a g t (retire_active a t u (close_overlaps a t cs))).
    same_certificate e e' \<and> cr_state e' = CertRetired \<and> \<not> overlapping t e'"
proof -
  let ?open = "case cr_overlap_until_us e of None \<Rightarrow> False | Some u \<Rightarrow> t < u"
  let ?e = "if ?open then e\<lparr>cr_overlap_until_us := Some t\<rparr> else e"
  have e: "cr_state ?e = CertRetired" "same_certificate e ?e" "\<not> overlapping t ?e"
    using assms(3) by (auto simp: same_certificate_def overlapping_def split: option.splits)
  have "?e \<in> set (close_overlaps a t cs)"
    unfolding close_overlaps_def using assms upd_where_hit [OF assms(1)] upd_where_miss [OF assms(1)] by auto
  then have "?e \<in> set (retire_active a t u (close_overlaps a t cs))"
    unfolding retire_active_def by (rule upd_where_miss) (simp add: e(1))
  then have "?e \<in> set (promote_staged a g t (retire_active a t u (close_overlaps a t cs)))"
    unfolding promote_staged_def by (rule upd_where_miss) (simp add: e(1))
  then show ?thesis using e by blast
qed

lemma activate_staged:
  assumes ok: "registry_ok r" and c: "c \<in> set (certs r)" "cr_state c = CertStaged" "micros now < cr_not_after_us c"
    and i: "i \<in> set (identities r)" "ir_agent_id i = cr_agent_id c" "ir_state i = IdentityActive"
    and ov: "0 \<le> ov" "ov \<le> MAX_ROTATION_OVERLAP"
  defines "cs \<equiv> promote_staged (cr_agent_id c) (cr_generation c) (micros now)
      (retire_active (cr_agent_id c) (micros now) (micros (now + ov)) (close_overlaps (cr_agent_id c) (micros now) (certs r)))"
  shows "\<exists>r' v. activate (cr_agent_id c) (cr_generation c) ov now r = Inr (r', v) \<and> registry_ok r' \<and> certs r' = cs
     \<and> (\<exists>i' \<in> set (identities r'). id_step i i' \<and> ir_state i' = IdentityActive)"
proof -
  let ?a = "cr_agent_id c" and ?g = "cr_generation c" and ?t = "micros now" and ?u = "micros (now + ov)"
  let ?r = "touch_identity ?a ?t (r\<lparr>certs := cs\<rparr>)"
  let ?c1 = "close_overlaps ?a ?t (certs r)" let ?c2 = "retire_active ?a ?t ?u ?c1"
  have tab: "cert_table_ok (certs r)" by (rule registry_okD(5) [OF ok])
  have tabs: "cert_table_ok ?c1" "cert_table_ok ?c2" "cert_table_ok cs"
    using close_table [OF tab] retire_table [OF close_table [OF tab]] rotate_table [OF tab] by (simp_all add: cs_def)
  have ok': "registry_ok ?r"
    by (rule touch_ok [OF ok _ tabs(3)]) (auto simp: cs_def intro: rotate_moves)
  have st: "list_all2 (\<lambda>i i'. id_step i i' \<and> ir_state i' = ir_state i) (identities r) (identities ?r)"
    using touch_moves [of "r\<lparr>certs := cs\<rparr>" ?a ?t] by simp
  obtain i' where i': "i' \<in> set (identities ?r)" "id_step i i'" "ir_state i' = ir_state i" using all2_inD1 [OF st i(1)] by blast
  have "ir_agent_id i' = ?a" using i'(2) i(2) by (simp add: id_step_def)
  then have view: "with_view ?r ?a = Inr (?r, identity_view ?r i')" by (rule with_view_ok [OF ok' i'(1)])
  have one: "count_where (\<lambda>d. cr_agent_id d = ?a \<and> cr_generation d = ?g \<and> cr_state d = CertStaged) ?c2 = 1"
    by (rule count_key [where col = "\<lambda>d. (cr_agent_id d, cr_generation d)", OF _ rotate_mem_staged(1) [OF c(1) refl refl c(2)]])
      (use tabs(2) c(2) in \<open>auto simp: cert_table_ok_def unique_on_def\<close>)
  have cok: "cert_ok c" using registry_okD(6) [OF ok c(1)] .
  have "activate ?a ?g ov now r = with_view ?r ?a"
    using cok c ov i(3) fetch_identity [OF ok i(1)] get_certificate_row_key [OF ok c(1)] tabs one
    by (auto simp: activate_def put_certs_def cs_def i(2) cert_ok_def Let_def not_le)
  then show ?thesis using view ok' i' i(3) by (intro exI [of _ ?r]) auto
qed

lemma verify_row:
  assumes "registry_ok r" "c \<in> set (certs r)" "i \<in> set (identities r)" "ir_agent_id i = cr_agent_id c" "ir_state i = IdentityActive"
  shows "verify (Some (cr_cert_sha256 c)) None now st r = Inr None \<longleftrightarrow> \<not> accepted_at (micros now) st c"
  using verify_fingerprint [OF assms(1-4)] assms(5) by simp

lemma revoked_row:
  assumes "revoke agent_id gen now r = Inr (r', v)"
  shows "gen = None \<Longrightarrow> \<exists>i \<in> set (identities r'). ir_agent_id i = strip agent_id \<and> ir_state i = IdentityRevoked"
    "gen = Some g \<Longrightarrow> \<exists>c \<in> set (certs r'). cr_agent_id c = strip agent_id \<and> cr_generation c = g \<and> cr_state c = CertRevoked"
proof -
  show "\<exists>i \<in> set (identities r'). ir_agent_id i = strip agent_id \<and> ir_state i = IdentityRevoked" if gen: "gen = None"
    using assms
  proof (cases rule: revokeE)
    case (identity a ids cs)
    obtain idn where idn: "idn \<in> set (identities r)" "ir_agent_id idn = a"
      using assms identity(2) gen by (auto simp: revoke_def Let_def dest!: get_identity_row_Inr)
    have "idn\<lparr>ir_state := IdentityRevoked, ir_revoked_at_us := Some (micros now), ir_updated_at_us := micros now,
        ir_revision := Suc (ir_revision idn)\<rparr> \<in> set (identities r')" (is "?i \<in> _")
      using upd_where_hit [of idn "identities r" "\<lambda>i. ir_agent_id i = a"] idn by (simp add: identity(3,6))
    then show ?thesis using idn(2) identity(2) by (intro bexI [of _ ?i]) (simp_all add: normalize_agent_id_Inr)
  qed (use gen in \<open>auto simp: normalize_agent_id_Inr\<close>)
  show "\<exists>c \<in> set (certs r'). cr_agent_id c = strip agent_id \<and> cr_generation c = g \<and> cr_state c = CertRevoked" if gen: "gen = Some g"
    using assms
  proof (cases rule: revokeE)
    case (certificate a h c cs)
    have c: "c \<in> set (certs r)" "cr_agent_id c = a" "cr_generation c = g" using get_certificate_row_Inr [OF certificate(3)] gen certificate(1) by auto
    have "revoke_row (micros now) c \<in> set (certs r')"
      using upd_where_hit [of c "certs r" "\<lambda>c. cr_agent_id c = a \<and> cr_generation c = g"] c certificate(1,5,7) gen by simp
    then show ?thesis using c(2,3) certificate(2) by (intro bexI [of _ "revoke_row (micros now) c"]) (simp_all add: revoke_row_def normalize_agent_id_Inr)
  qed (use gen in \<open>auto simp: normalize_agent_id_Inr\<close>)
qed

lemma stage_view:
  assumes "stage_certificate sha q now r = Inr (r', v, True)" "normalize_agent_id (sq_agent_id q) = Inr a"
  shows "with_view r' a = Inr (r', v)"
  using assms unfolding stage_certificate_def rbind_eq_Inr
  by - (elim exE conjE, auto simp del: put_certs_Inr split: if_splits dest: with_view_Inr)

text \<open>Whether a request is valid does not depend on the time it is presented.\<close>

lemma stage_valid:
  assumes "stage_certificate sha q now r = Inr (r', v, b)" "normalize_agent_id (sq_agent_id q) = Inr a" "normalize_serial (sq_serial_number q) = Inr serial"
    "normalize_hex (Some 64) (sq_cert_sha256 q) = Inr fp" "normalize_hex (Some 64) (sq_spki_sha256 q) = Inr spki"
  shows "\<exists>vc. validate_certificate \<lparr>ac_agent_id = a, ac_generation = sq_generation q, ac_serial_number = serial, ac_cert_sha256 = fp, ac_spki_sha256 = spki,
         ac_state = CertStaged, ac_not_before = sq_not_before q, ac_not_after = sq_not_after q, ac_created_at = now', ac_activated_at = None,
         ac_retired_at = None, ac_overlap_until = None, ac_revoked_at = None\<rparr> = Inr vc"
  using assms unfolding stage_certificate_def rbind_eq_Inr
  by - (elim exE conjE, auto simp: validate_certificate_def Let_def split: if_splits)

section \<open>Properties\<close>

text \<open>C18: In every reachable registry the two tables are well-formed (unique bindings, unique certificates, at most one staged and one
  active certificate per agent, every certificate bound to an identity that reached its generation, only revoked certificates under a
  revoked identity), and every stored row can be read back: by agent, by target, by generation and in the listing, without an error.\<close>

theorem registry_well_formed:
  assumes "reg_reach sha t r"
  shows "registry_ok r
    \<and> (\<forall>row \<in> set (identities r). get_identity (ir_agent_id row) r = Inr (identity_view r row) \<and> get_by_target (ir_target_id row) r = Inr (identity_view r row))
    \<and> (\<forall>c \<in> set (certs r). get_certificate (cr_agent_id c) (cr_generation c) r = Inr (cert_view c))
    \<and> (\<forall>n. 1 \<le> n \<and> n \<le> 10000 \<longrightarrow> list_identities n r =
         Inr (map (identity_view r) (order_limit (\<lambda>i. (ir_created_at_us i, ir_agent_id i)) (nat n) (identities r))))"
proof -
  have ok: "registry_ok r" using reach_registry [OF assms] by simp
  show ?thesis
    using ok get_identity_view [OF ok] get_by_target_view [OF ok] get_certificate_view [OF ok] list_identities_view [OF ok] by simp
qed

text \<open>C16: At every moment an agent has at most two certificates that authenticate it: one active, and one retired certificate inside
  its rotation overlap; at most one further certificate is staged.\<close>

theorem accepted_certificates:
  assumes "reg_reach sha t r"
  shows "count_where (\<lambda>c. cr_agent_id c = a \<and> accepted_at t False c) (certs r) \<le> 2
    \<and> count_where (\<lambda>c. cr_agent_id c = a \<and> accepted_at t True c) (certs r) \<le> 3"
proof -
  have ok: "cert_table_ok (certs r)" "unique_on (overlapping t) cr_agent_id (certs r)"
    using reach_registry [OF assms] registry_okD(5) by (auto simp: single_overlap_def)
  have u: "unique_on (\<lambda>c. cr_state c = CertActive) cr_agent_id (certs r)" "unique_on (\<lambda>c. cr_state c = CertStaged) cr_agent_id (certs r)"
    using ok(1) by (simp_all add: cert_table_ok_def)
  have n: "count_where (\<lambda>c. cr_agent_id c = a \<and> cr_state c = CertActive) (certs r) \<le> 1"
    "count_where (\<lambda>c. cr_agent_id c = a \<and> cr_state c = CertStaged) (certs r) \<le> 1"
    "count_where (\<lambda>c. cr_agent_id c = a \<and> overlapping t c) (certs r) \<le> 1"
    using count_unique [OF u(1), of a] count_unique [OF u(2), of a] count_unique [OF ok(2), of a] by simp_all
  have "count_where (\<lambda>c. cr_agent_id c = a \<and> accepted_at t False c) cs
      \<le> count_where (\<lambda>c. cr_agent_id c = a \<and> cr_state c = CertActive) cs + count_where (\<lambda>c. cr_agent_id c = a \<and> overlapping t c) cs"
    "count_where (\<lambda>c. cr_agent_id c = a \<and> accepted_at t True c) cs
      \<le> count_where (\<lambda>c. cr_agent_id c = a \<and> cr_state c = CertActive) cs + count_where (\<lambda>c. cr_agent_id c = a \<and> overlapping t c) cs
        + count_where (\<lambda>c. cr_agent_id c = a \<and> cr_state c = CertStaged) cs" for cs
    by (induction cs) (auto simp: count_where_def accepted_at_def overlapping_def split: certificate_state.splits option.splits)
  from this(1) [of "certs r"] this(2) [of "certs r"] show ?thesis using n by linarith
qed

text \<open>C15: Revocation is final. After an identity or one of its generations is revoked, no later sequence of registry operations lets a
  certificate of it authenticate again, whatever fingerprint, serial number or time is presented.\<close>

theorem revocation_final:
  assumes "reg_reach sha t r" "revoke agent_id gen now r = Inr (r1, v)" "reg_run sha r1 r2" "verify f s now' st r2 = Inr (Some w)"
  shows "\<not> (vi_agent_id w = strip agent_id \<and> (gen = None \<or> gen = Some (ac_generation (vi_certificate w))))"
proof
  assume bad: "vi_agent_id w = strip agent_id \<and> (gen = None \<or> gen = Some (ac_generation (vi_certificate w)))"
  have ok1: "registry_ok r1" using revoke_ok [OF _ assms(2)] reach_registry [OF assms(1)] by simp
  have ok2: "registry_ok r2" "later r1 r2" using run_later [OF assms(3) ok1] by auto
  obtain c i where w: "c \<in> set (certs r2)" "i \<in> set (identities r2)" "ir_agent_id i = cr_agent_id c" "ir_state i = IdentityActive"
    "accepted_at (micros now') st c" "w = verified_view c i"
    using verify_Some [OF ok2(1) assms(4)] .
  have a: "cr_agent_id c = strip agent_id" using bad w(6) by (simp add: verified_view_def)
  show False
  proof (cases gen)
    case None
    obtain j where j: "j \<in> set (identities r1)" "ir_agent_id j = strip agent_id" "ir_state j = IdentityRevoked"
      using revoked_row(1) [OF assms(2) None] by blast
    obtain j' where j': "j' \<in> set (identities r2)" "id_step j j'" using ok2(2) j(1) unfolding later_def by blast
    have "j' = i" using key_inj [OF registry_okD(1) [OF ok2(1)] j'(1) w(2)] j'(2) j(2) w(3) a by (simp add: id_step_def)
    then show False using j'(2) j(3) w(4) by (simp add: id_step_def)
  next
    case (Some g)
    have g: "cr_generation c = g" using bad Some w(6) by (simp add: verified_view_def cert_view_def)
    obtain d where d: "d \<in> set (certs r1)" "cr_agent_id d = strip agent_id" "cr_generation d = g" "cr_state d = CertRevoked"
      using revoked_row(2) [OF assms(2) Some] by blast
    then have "d \<in> set (certs r2)" using ok2(2) unfolding later_def by metis
    then have "d = c" using cert_key [OF ok2(1) _ w(1)] d a g by simp
    then show False using w(5) d(4) by (simp add: accepted_at_def)
  qed
qed

text \<open>A binding never changes. Through any sequence of registry operations an agent keeps its target, host, scopes and creation time, its
  generation only grows, a revoked identity stays revoked, and every certificate it ever had is still there with the same serial number,
  fingerprints and validity.\<close>

theorem binding_stable:
  assumes "reg_reach sha t r" "get_identity a r = Inr v" "reg_run sha r r'"
  shows "\<exists>v'. get_identity a r' = Inr v' \<and> ai_agent_id v' = ai_agent_id v \<and> ai_target_id v' = ai_target_id v
    \<and> ai_canonical_host_id v' = ai_canonical_host_id v \<and> ai_scopes v' = ai_scopes v \<and> ai_created_at v' = ai_created_at v
    \<and> ai_generation v \<le> ai_generation v' \<and> (ai_state v = IdentityRevoked \<longrightarrow> ai_state v' = IdentityRevoked)
    \<and> (\<forall>k \<in> set (ai_certificates v). \<exists>k' \<in> set (ai_certificates v'). ac_generation k' = ac_generation k \<and> ac_serial_number k' = ac_serial_number k
         \<and> ac_cert_sha256 k' = ac_cert_sha256 k \<and> ac_spki_sha256 k' = ac_spki_sha256 k \<and> ac_not_before k' = ac_not_before k
         \<and> ac_not_after k' = ac_not_after k \<and> (ac_state k = CertRevoked \<longrightarrow> k' = k))"
proof -
  have ok: "registry_ok r" using reach_registry [OF assms(1)] by simp
  have ok': "registry_ok r'" "later r r'" using run_later [OF assms(3) ok] by auto
  obtain row where row: "row \<in> set (identities r)" "ir_agent_id row = strip a" "v = identity_view r row" using get_identity_Inr [OF ok assms(2)] .
  obtain row' where row': "row' \<in> set (identities r')" "id_step row row'" using ok'(2) row(1) unfolding later_def by blast
  have id': "ir_agent_id row' = strip a" using row'(2) row(2) by (simp add: id_step_def)
  have "get_identity a r' = Inr (identity_view r' row')"
    using get_identity_view [OF ok'(1) row'(1)] assms(2) id' by (auto simp: get_identity_def normalize_agent_id_Inr)
  moreover have "\<exists>c' \<in> set (certs r'). cr_agent_id c' = strip a \<and> same_certificate c c' \<and> (cr_state c = CertRevoked \<longrightarrow> c' = c)"
    if "c \<in> set (certs r)" "cr_agent_id c = strip a" for c
    using ok'(2) that unfolding later_def same_certificate_def by metis
  ultimately show ?thesis
    using row'(2) row(2,3) id' by (intro exI [of _ "identity_view r' row'"]) (fastforce simp: identity_view_def id_step_def cert_view_def same_certificate_def)
qed


text \<open>A staging request with an idempotency key can be replayed: presented again, at any time, to the registry it produced, it changes
  nothing and answers with the same identity; the key finds the staged certificate.\<close>

theorem stage_replay:
  assumes "reg_reach sha t r" "stage_certificate sha q now r = Inr (r', v, True)" "sq_idempotency_key q = Some k"
  shows "stage_certificate sha q now' r' = Inr (r', v, False)
    \<and> (\<exists>x. get_by_idempotency_key sha (sq_agent_id q) k r' = Inr (Some x) \<and> ac_state x = CertStaged \<and> ac_generation x = sq_generation q
         \<and> normalize_hex (Some 64) (sq_cert_sha256 q) = Inr (ac_cert_sha256 x))"
  using assms(2)
proof (cases rule: stageE)
  case (staged c idn)
  let ?a = "cr_agent_id c"
  have ok: "registry_ok r" using reach_registry [OF assms(1)] by simp
  have ok': "registry_ok r'" by (rule stage_ok [OF ok assms(2)])
  have idn: "idn \<in> set (identities r)" "ir_agent_id idn = ?a" using get_identity_row_Inr [OF staged(3)] by auto
  let ?i = "idn\<lparr>ir_generation := sq_generation q, ir_updated_at_us := micros now, ir_revision := Suc (ir_revision idn)\<rparr>"
  have i: "?i \<in> set (identities r')"
    using upd_where_hit [of idn "identities r" "\<lambda>i. ir_agent_id i = ?a \<and> ir_generation i = sq_generation q - 1 \<and> ir_state i = IdentityActive"] idn staged(4,5)
    by (simp add: staged(7))
  have v: "v = identity_view r' ?i" using stage_view [OF assms(2)] with_view_ok [OF ok' i] idn(2) staged(2) by (simp add: staged_row_def)
  have c: "c \<in> set (certs r')" by (simp add: staged(7))
  have kh: "cr_idempotency_key_sha256 c = Some (sha (strip k))"
    using staged(2) assms(3) by (auto simp: staged_row_def idempotency_hash_def Let_def split: if_splits)
  have found: "fetch_where (\<lambda>d. cr_agent_id d = ?a \<and> cr_idempotency_key_sha256 d = Some (sha (strip k))) (certs r') = Some c"
  proof (rule fetch_where_unique [OF c])
    fix d assume "d \<in> set (certs r')" "cr_agent_id d = ?a \<and> cr_idempotency_key_sha256 d = Some (sha (strip k))"
    then show "d = c" using registry_okD(5) [OF ok'] table_distinct [OF registry_okD(5) [OF ok']] c kh by (auto simp: cert_table_ok_def unique_on_inj)
  qed (simp add: kh)
  have "get_identity_row r' ?a = Inr ?i" using fetch_identity [OF ok' i] idn(2) by simp
  note facts = this staged_row_ok(2,3) [OF staged(2,6)] found kh staged(2,4) identity_from_row_ok [OF ok' i]
    certificate_from_row_ok [OF registry_okD(6) [OF ok' c]] stage_valid [OF assms(2), where now' = now']
  have "stage_certificate sha q now' r' = Inr (r', v, False)"
    using facts v by (auto simp: stage_certificate_def staged_row_def)
  moreover have "get_by_idempotency_key sha (sq_agent_id q) k r' = Inr (Some (cert_view c))"
    using facts assms(3) by (auto simp: get_by_idempotency_key_def staged_row_def)
  ultimately show ?thesis using facts by (simp add: cert_view_def staged_row_def)
qed simp

section \<open>Witnesses\<close>

definition ex_fp :: "char \<Rightarrow> string" where "ex_fp d = replicate 64 d"

definition ex_stage :: "int \<Rightarrow> char \<Rightarrow> stage_request" where
  "ex_stage g d = \<lparr>sq_agent_id = ''a1'', sq_generation = g, sq_serial_number = [d], sq_cert_sha256 = ex_fp d, sq_spki_sha256 = ex_fp d,
     sq_certificate_pem = ''pem'', sq_not_before = 1000, sq_not_after = 9000, sq_idempotency_key = Some [d]\<rparr>"

definition ex_allocate :: reg_op where
  "ex_allocate = Get_or_create ''t1'' ''h1'' [''guard-event'', ''asset-report''] (Some ''a1'') 1000 (replicate 32 (CHR ''0''))"

definition ex_identity :: "int \<Rightarrow> int \<Rightarrow> nat \<Rightarrow> identity_row" where
  "ex_identity g t n = \<lparr>ir_agent_id = ''a1'', ir_target_id = ''t1'', ir_canonical_host_id = ''h1'', ir_scopes = [ASSET_REPORT, GUARD_EVENT],
     ir_state = IdentityActive, ir_generation = g, ir_created_at_us = 1000, ir_updated_at_us = t, ir_revoked_at_us = None, ir_revision = n\<rparr>"

definition ex_cert :: "int \<Rightarrow> char \<Rightarrow> int \<Rightarrow> cert_row" where
  "ex_cert g d t = \<lparr>cr_agent_id = ''a1'', cr_generation = g, cr_serial_number = [d], cr_cert_sha256 = ex_fp d, cr_spki_sha256 = ex_fp d,
     cr_state = CertStaged, cr_certificate_pem = ''pem'', cr_idempotency_key_sha256 = Some [d], cr_not_before_us = 1000, cr_not_after_us = 9000,
     cr_created_at_us = t, cr_activated_at_us = None, cr_retired_at_us = None, cr_overlap_until_us = None, cr_revoked_at_us = None\<rparr>"

definition ex_active :: cert_row where
  "ex_active = (ex_cert 1 (CHR ''b'') 2000)\<lparr>cr_state := CertActive, cr_activated_at_us := Some 2400\<rparr>"

definition ex_reg1 :: registry where "ex_reg1 = \<lparr>identities = [ex_identity 0 1000 0], certs = []\<rparr>"
definition ex_reg2 :: registry where "ex_reg2 = \<lparr>identities = [ex_identity 1 2000 1], certs = [ex_cert 1 (CHR ''b'') 2000]\<rparr>"
definition ex_reg3 :: registry where "ex_reg3 = \<lparr>identities = [ex_identity 1 2400 2], certs = [ex_active]\<rparr>"
definition ex_reg4 :: registry where "ex_reg4 = \<lparr>identities = [ex_identity 2 2500 3], certs = [ex_active, ex_cert 2 (CHR ''c'') 2500]\<rparr>"
definition ex_reg5 :: registry where
  "ex_reg5 = \<lparr>identities = [ex_identity 2 3000 4], certs = [ex_active, revoke_row 3000 (ex_cert 2 (CHR ''c'') 2500)]\<rparr>"

lemma ex_reg_micros: "micros 1000 = 1000" "micros 2000 = 2000" "micros 2400 = 2400" "micros 2500 = 2500" "micros 3000 = 3000" "micros 9000 = 9000"
  by code_simp+

lemma ex_fp_neq: "ex_fp (CHR ''b'') \<noteq> ex_fp (CHR ''c'')"
  by (simp add: ex_fp_def)

lemma ex_fp_hex: "hex_char d \<Longrightarrow> hex_text 64 64 (ex_fp d)"
  by (simp add: hex_text_def ex_fp_def list_all_iff)

lemma ex_hex: "hex_char (CHR ''b'')" "hex_char (CHR ''c'')"
  by (simp_all add: hex_char_def)

lemma ex_norm: "normalize_agent_id ''a1'' = Inr ''a1''" "required_text 256 ''t1'' = Inr ''t1''" "required_text 256 ''h1'' = Inr ''h1''"
    "normalize_serial ''b'' = Inr ''b''" "normalize_serial ''c'' = Inr ''c''"
    "idempotency_hash id (Some ''b'') = Inr (Some ''b'')" "idempotency_hash id (Some ''c'') = Inr (Some ''c'')"
    "normalize_scopes [''guard-event'', ''asset-report''] = Inr [ASSET_REPORT, GUARD_EVENT]"
  by code_simp+

lemma ex_pem: "required_text 65536 ''pem'' = Inr ''pem''"
proof -
  have "strip ''pem'' = ''pem''" by code_simp
  then show ?thesis by (simp add: required_text_Inr)
qed

lemma ex_norm_fp: "hex_char d \<Longrightarrow> normalize_hex (Some 64) (ex_fp d) = Inr (ex_fp d)"
  by (rule normalize_hex_fix [OF ex_fp_hex]) (simp_all add: ex_fp_def)

lemma ex_valid_cert:
  assumes "hex_char d" "1 \<le> g"
  shows "validate_certificate \<lparr>ac_agent_id = ''a1'', ac_generation = g, ac_serial_number = [d], ac_cert_sha256 = ex_fp d, ac_spki_sha256 = ex_fp d,
      ac_state = st, ac_not_before = 1000, ac_not_after = 9000, ac_created_at = t, ac_activated_at = x, ac_retired_at = y, ac_overlap_until = u, ac_revoked_at = z\<rparr>
    = Inr \<lparr>ac_agent_id = ''a1'', ac_generation = g, ac_serial_number = [d], ac_cert_sha256 = ex_fp d, ac_spki_sha256 = ex_fp d,
      ac_state = st, ac_not_before = 1000, ac_not_after = 9000, ac_created_at = t, ac_activated_at = x, ac_retired_at = y, ac_overlap_until = u, ac_revoked_at = z\<rparr>"
proof -
  have "strip ''a1'' = ''a1''" by (rule strip_pattern) (simp add: agent_id_pattern_def id_char_def)
  moreover have "unprefix (lower (strip (ex_fp d))) = ex_fp d" "unprefix (lower (strip [d])) = [d]"
    using ex_fp_hex [OF assms(1)] assms(1) by (auto simp: hex_text_def intro!: unprefix_hex)
  ultimately show ?thesis
    using ex_fp_hex [OF assms(1)] assms by (simp add: validate_certificate_def hex_text_def Let_def)
qed

lemma ex_valid_identity:
  assumes "0 \<le> g" "list_all (\<lambda>c. ac_agent_id c = ''a1'' \<and> ac_generation c \<le> g) cs"
  shows "validate_identity \<lparr>ai_agent_id = ''a1'', ai_target_id = ''t1'', ai_canonical_host_id = ''h1'', ai_scopes = [ASSET_REPORT, GUARD_EVENT], ai_state = st,
      ai_generation = g, ai_created_at = 1000, ai_updated_at = t, ai_revoked_at = z, ai_certificates = cs\<rparr>
    = Inr \<lparr>ai_agent_id = ''a1'', ai_target_id = ''t1'', ai_canonical_host_id = ''h1'', ai_scopes = [ASSET_REPORT, GUARD_EVENT], ai_state = st,
      ai_generation = g, ai_created_at = 1000, ai_updated_at = t, ai_revoked_at = z, ai_certificates = cs\<rparr>"
proof -
  have "strip ''a1'' = ''a1''" "strip ''t1'' = ''t1''" "strip ''h1'' = ''h1''" by code_simp+
  moreover have "agent_id_pattern ''a1''" by (simp add: agent_id_pattern_def id_char_def)
  moreover have "sort_key scope_value (remdups [ASSET_REPORT, GUARD_EVENT]) = [ASSET_REPORT, GUARD_EVENT]" by code_simp
  ultimately show ?thesis using assms by (auto simp: validate_identity_def list_all_iff Let_def not_less)
qed

lemmas ex_reg_eval = get_or_create_def stage_certificate_def activate_def revoke_def put_certs_def insert_identity_def conflict_on_integrity_def
  with_view_def get_identity_row_def get_certificate_row_def identity_from_row_def certificate_from_row_def advance_generation_def touch_identity_def
  fetch_where_def first_row_def upd_where_def count_where_def cert_table_ok_def unique_on_def close_overlaps_def retire_active_def promote_staged_def
  stage_row_def Let_def ex_stage_def ex_identity_def ex_cert_def ex_active_def ex_reg1_def ex_reg2_def ex_reg3_def ex_reg4_def ex_reg5_def empty_registry_def
  ex_norm ex_pem ex_norm_fp ex_valid_cert ex_valid_identity ex_hex ex_fp_neq ex_fp_neq [symmetric] ex_reg_micros MAX_ROTATION_OVERLAP_def revoke_row_def

lemma ex_ops:
  "\<exists>v. get_or_create ''t1'' ''h1'' [''guard-event'', ''asset-report''] (Some ''a1'') 1000 u empty_registry = Inr (ex_reg1, v, True)"
  "\<exists>v. stage_certificate id (ex_stage 1 (CHR ''b'')) 2000 ex_reg1 = Inr (ex_reg2, v, True)"
  "\<exists>v. activate ''a1'' 1 0 2400 ex_reg2 = Inr (ex_reg3, v)"
  "\<exists>v. stage_certificate id (ex_stage 2 (CHR ''c'')) 2500 ex_reg3 = Inr (ex_reg4, v, True)"
  "\<exists>v. revoke ''a1'' (Some 2) 3000 ex_reg4 = Inr (ex_reg5, v)"
  by (simp_all add: ex_reg_eval)

lemma ex_steps: "reg_step id 1000 empty_registry ex_reg1" "reg_step id 2000 ex_reg1 ex_reg2" "reg_step id 2400 ex_reg2 ex_reg3" "reg_step id 2500 ex_reg3 ex_reg4"
proof -
  have "uuid_hex (replicate 32 (CHR ''0''))" by (simp add: uuid_hex_def hex_char_def list_all_iff)
  then have "reg_issued 1000 ex_allocate" by (simp add: ex_allocate_def ex_reg_micros)
  moreover have "ex_reg1 = fst (apply_reg id ex_allocate empty_registry)"
    using ex_ops(1) [of "replicate 32 (CHR ''0'')"] unfolding ex_allocate_def by (auto simp del: replicate.simps)
  ultimately show "reg_step id 1000 empty_registry ex_reg1" unfolding reg_step_def by blast
  show "reg_step id 2000 ex_reg1 ex_reg2" unfolding reg_step_def
    by (rule exI [of _ "Stage (ex_stage 1 (CHR ''b'')) 2000"]) (use ex_ops(2) in \<open>auto simp: ex_reg_micros\<close>)
  show "reg_step id 2400 ex_reg2 ex_reg3" unfolding reg_step_def
    by (rule exI [of _ "Activate ''a1'' 1 0 2400"]) (use ex_ops(3) in \<open>auto simp: ex_reg_micros\<close>)
  show "reg_step id 2500 ex_reg3 ex_reg4" unfolding reg_step_def
    by (rule exI [of _ "Stage (ex_stage 2 (CHR ''c'')) 2500"]) (use ex_ops(4) in \<open>auto simp: ex_reg_micros\<close>)
qed

lemma ex_reg_reach: "reg_reach id 2400 ex_reg2" "reg_reach id 2500 ex_reg3" "reg_reach id 2500 ex_reg4"
proof -
  let ?R = "clocked_reach (\<lambda>r. r = empty_registry) (reg_step id)"
  have "?R 1000 empty_registry" by (rule clocked_reach.start) simp
  then have "?R 1000 ex_reg1" using ex_steps(1) by (rule clocked_reach.step)
  then have "?R 2000 ex_reg1" by (rule clocked_reach.tick) simp
  then have "?R 2000 ex_reg2" using ex_steps(2) by (rule clocked_reach.step)
  then have r2: "?R 2400 ex_reg2" by (rule clocked_reach.tick) simp
  then have "?R 2400 ex_reg3" using ex_steps(3) by (rule clocked_reach.step)
  then have r3: "?R 2500 ex_reg3" by (rule clocked_reach.tick) simp
  then have "?R 2500 ex_reg4" using ex_steps(4) by (rule clocked_reach.step)
  with r2 r3 show "reg_reach id 2400 ex_reg2" "reg_reach id 2500 ex_reg3" "reg_reach id 2500 ex_reg4" by (simp_all add: reg_reach_def)
qed

lemma ex_run: "reg_run id ex_reg2 ex_reg4"
proof -
  have "reg_run id ex_reg2 ex_reg3" unfolding reg_run_def using ex_steps(3) by blast
  then show ?thesis unfolding reg_run_def by (rule rtranclp.rtrancl_into_rtrancl) (rule exI [of _ 2500], rule ex_steps(4))
qed

theorem registry_well_formed_witness:
  "get_by_target ''t1'' ex_reg4 = Inr (identity_view ex_reg4 (ex_identity 2 2500 3)) \<and> get_certificate ''a1'' 1 ex_reg4 = Inr (cert_view ex_active)"
  using registry_well_formed [OF ex_reg_reach(3)]
  by (simp add: ex_reg4_def) (simp add: ex_identity_def ex_active_def ex_cert_def)

theorem accepted_certificates_witness:
  "count_where (\<lambda>c. cr_agent_id c = ''a1'' \<and> accepted_at 2500 False c) (certs ex_reg4) \<le> 2
    \<and> count_where (\<lambda>c. cr_agent_id c = ''a1'' \<and> accepted_at 2500 False c) (certs ex_reg4) = 1"
  using accepted_certificates [OF ex_reg_reach(3), of "''a1''"]
  by (simp add: ex_reg4_def ex_active_def ex_cert_def count_where_def accepted_at_def)

lemma ex_verify: "\<exists>w. verify (Some (ex_fp (CHR ''b''))) None 3000 False ex_reg5 = Inr (Some w) \<and> vi_agent_id w = ''a1'' \<and> ac_generation (vi_certificate w) = 1"
proof -
  have "strip ''a1'' = ''a1''" by code_simp
  then show ?thesis by (simp add: verify_def joined_def accepted_at_def ex_reg_eval)
qed

theorem revocation_final_witness:
  "\<exists>w. verify (Some (ex_fp (CHR ''b''))) None 3000 False ex_reg5 = Inr (Some w) \<and> vi_agent_id w = ''a1'' \<and> ac_generation (vi_certificate w) \<noteq> 2"
proof -
  obtain v where v: "revoke ''a1'' (Some 2) 3000 ex_reg4 = Inr (ex_reg5, v)" using ex_ops(5) by blast
  obtain w where w: "verify (Some (ex_fp (CHR ''b''))) None 3000 False ex_reg5 = Inr (Some w)" "vi_agent_id w = ''a1''" using ex_verify by blast
  have "strip ''a1'' = ''a1''" by code_simp
  moreover have "reg_run id ex_reg5 ex_reg5" by (simp add: reg_run_def)
  ultimately show ?thesis using revocation_final [OF ex_reg_reach(3) v _ w(1)] w by force
qed

theorem binding_stable_witness:
  "\<exists>v'. get_identity ''a1'' ex_reg4 = Inr v' \<and> ai_target_id v' = ''t1'' \<and> 1 \<le> ai_generation v'"
proof -
  have "registry_ok ex_reg2" using reach_registry [OF ex_reg_reach(1)] by simp
  from get_identity_view [OF this, of "ex_identity 1 2000 1"]
  have "get_identity ''a1'' ex_reg2 = Inr (identity_view ex_reg2 (ex_identity 1 2000 1))" by (simp add: ex_reg2_def ex_identity_def)
  from binding_stable [OF ex_reg_reach(1) this ex_run] show ?thesis by (auto simp: identity_view_def ex_identity_def)
qed


theorem stage_replay_witness:
  "\<exists>v. stage_certificate id (ex_stage 2 (CHR ''c'')) 3000 ex_reg4 = Inr (ex_reg4, v, False)"
proof -
  obtain v where "stage_certificate id (ex_stage 2 (CHR ''c'')) 2500 ex_reg3 = Inr (ex_reg4, v, True)" using ex_ops(4) by blast
  from stage_replay [OF ex_reg_reach(2) this, of "''c''"] show ?thesis by (auto simp: ex_stage_def)
qed

end
