(* ===== verification/Micros_Bounds.thy ===== *)
theory Micros_Bounds
  imports Scan_Schemas
begin

text \<open>
  Accuracy of \<open>_micros\<close>: the conversion of an instant to whole microseconds divides and multiplies in binary64, so it is not the identity.
  A rounded ratio has a relative error of at most \<open>2 ^ -53\<close>; two roundings and a truncation keep a time until the year 2112 within two
  microseconds, so the order of instants that differ by more is kept.
\<close>

definition ulp :: real where "ulp = 1 / 2 ^ 53"

lemma round_div_error:
  assumes "0 < q"
  shows "\<bar>real_of_int (round_div p q) - real_of_int p / real_of_int q\<bar> \<le> 1 / 2"
proof -
  define d m where "d = p div q" and "m = p mod q"
  have p: "p = q * d + m" "0 \<le> m" "m < q" using assms by (simp_all add: d_def m_def)
  have "round_div p q = d \<and> 2 * m \<le> q \<or> round_div p q = d + 1 \<and> q \<le> 2 * m" by (auto simp: round_div_def Let_def d_def m_def)
  then have "\<bar>2 * (q * round_div p q - p)\<bar> \<le> q" using p by (auto simp: algebra_simps)
  define e where "e = real_of_int q * real_of_int (round_div p q) - real_of_int p"
  have "real_of_int \<bar>2 * (q * round_div p q - p)\<bar> \<le> real_of_int q" using \<open>\<bar>2 * (q * round_div p q - p)\<bar> \<le> q\<close> by (simp only: of_int_le_iff)
  then have "\<bar>2 * e\<bar> \<le> real_of_int q" unfolding e_def of_int_abs of_int_mult of_int_diff of_int_numeral .
  then have "\<bar>e\<bar> \<le> real_of_int q / 2" by linarith
  moreover have "real_of_int (round_div p q) - real_of_int p / real_of_int q = e / real_of_int q"
    using assms by (simp add: e_def field_simps)
  ultimately show ?thesis using assms by (simp only: abs_divide) (simp add: divide_le_eq)
qed

lemma scaled_div_error:
  assumes "0 < b"
  shows "\<bar>real_of_int (scaled_div a b k) - real_of_int a / real_of_int b / 2 powi k\<bar> \<le> 1 / 2"
proof (cases "0 \<le> k")
  case True
  have "0 < b * 2 ^ nat k" using assms by simp
  from round_div_error [OF this, of a] show ?thesis using True by (simp add: scaled_div_def power_int_def)
next
  case False
  then show ?thesis using round_div_error [OF assms, of "a * 2 ^ nat (- k)"] by (simp add: scaled_div_def power_int_def field_simps)
qed

lemma bitlen_powi:
  assumes "0 < a"
  shows "2 powi (bitlen a - 1) \<le> real_of_int a" "real_of_int a < 2 powi bitlen a"
proof -
  have n: "0 < bitlen a" using assms by (simp add: bitlen_eq_zero_iff less_le bitlen_nonneg)
  have "2 ^ nat (bitlen a - 1) \<le> a" "a < 2 ^ nat (bitlen a)" using bitlen_bounds [OF assms] by auto
  then have "real_of_int (2 ^ nat (bitlen a - 1)) \<le> real_of_int a" "real_of_int a < real_of_int (2 ^ nat (bitlen a))"
    by (simp_all only: of_int_le_iff of_int_less_iff)
  then show "2 powi (bitlen a - 1) \<le> real_of_int a" "real_of_int a < 2 powi bitlen a" using n by (simp_all add: power_int_def)
qed

text \<open>A rounded ratio is a normalised float within half a unit in the last place.\<close>

lemma float_ratio_error:
  assumes "0 < a" "0 < b" "float_ratio a b = (m, k)"
  shows "\<bar>real_of_int m * 2 powi k - real_of_int a / real_of_int b\<bar> \<le> real_of_int a / real_of_int b * ulp"
proof -
  define x where "x = real_of_int a / real_of_int b"
  define k0 where "k0 = bitlen a - bitlen b - 53"
  note la = bitlen_powi [OF assms(1)] and lb = bitlen_powi [OF assms(2)]
  have pos: "0 < x" using assms by (simp add: x_def)
  have "2 powi (bitlen a - 1) / 2 powi bitlen b < x"
    unfolding x_def using la(1) lb(2) assms by (intro frac_less2) auto
  moreover have "(2 :: real) powi (bitlen a - 1) / 2 powi bitlen b = 2 powi (k0 + 52)"
    by (simp add: k0_def power_int_diff [of 2 "bitlen a - 1" "bitlen b", symmetric] algebra_simps)
  moreover have "(2 :: real) powi (k0 + 52) = 2 powi k0 * 2 ^ 52" by (simp add: power_int_add)
  ultimately have low: "2 ^ 52 < x / 2 powi k0" by (simp add: pos_less_divide_eq mult.commute)
  have half: "\<bar>real_of_int (scaled_div a b j) - x / 2 powi j\<bar> \<le> 1 / 2" for j unfolding x_def by (rule scaled_div_error [OF assms(2)])
  have main: "\<bar>real_of_int (scaled_div a b j) * 2 powi j - x\<bar> \<le> x * ulp" if "2 ^ 52 \<le> x / 2 powi j" for j
  proof -
    have p: "0 < (2 :: real) powi j" by simp
    have "\<bar>real_of_int (scaled_div a b j) * 2 powi j - x\<bar> = \<bar>real_of_int (scaled_div a b j) - x / 2 powi j\<bar> * 2 powi j"
      using p by (simp add: abs_mult_pos field_simps flip: abs_mult_pos)
    also have "\<dots> \<le> 1 / 2 * 2 powi j" using half [of j] p by (intro mult_right_mono) auto
    also have "\<dots> \<le> x * ulp" using that p by (simp add: ulp_def field_simps)
    finally show ?thesis .
  qed
  show ?thesis
  proof (cases "scaled_div a b k0 < 2 ^ 52")
    case True
    then have "scaled_div a b k0 \<le> 2 ^ 52 - 1" by simp
    then have "real_of_int (scaled_div a b k0) \<le> real_of_int (2 ^ 52 - 1)" by (simp only: of_int_le_iff)
    then have "real_of_int (scaled_div a b k0) \<le> 2 ^ 52 - 1" unfolding of_int_diff of_int_power of_int_numeral of_int_1 .
    then have False using half [of k0] low by linarith
    then show ?thesis ..
  next
    case False
    show ?thesis
    proof (cases "2 ^ 53 < scaled_div a b k0")
      case True
      then have "2 ^ 53 + 1 \<le> scaled_div a b k0" by simp
      then have "real_of_int (2 ^ 53 + 1) \<le> real_of_int (scaled_div a b k0)" by (simp only: of_int_le_iff)
      then have "2 ^ 53 + 1 \<le> real_of_int (scaled_div a b k0)" unfolding of_int_add of_int_power of_int_numeral of_int_1 .
      then have "2 ^ 53 \<le> x / 2 powi k0" using half [of k0] by linarith
      then have "2 ^ 52 \<le> x / 2 powi (k0 + 1)" by (simp add: power_int_add field_simps)
      moreover have "m = scaled_div a b (k0 + 1)" "k = k0 + 1" using assms(3) True False by (auto simp: float_ratio_def Let_def k0_def)
      ultimately show ?thesis using main [of "k0 + 1"] by (simp only: x_def)
    next
      case no: False
      then have "m = scaled_div a b k0" "k = k0" using assms(3) False by (auto simp: float_ratio_def Let_def k0_def)
      then show ?thesis using main [of k0] low by (simp only: x_def less_imp_le)
    qed
  qed
qed

lemma float_ratio_pos: "0 < a \<Longrightarrow> 0 < b \<Longrightarrow> float_ratio a b = (m, k) \<Longrightarrow> 0 < m"
proof (rule ccontr)
  assume h: "0 < a" "0 < b" "float_ratio a b = (m, k)" "\<not> 0 < m"
  have x: "0 < real_of_int a / real_of_int b" using h by simp
  have "real_of_int m * 2 powi k \<le> 0" using h(4) by (intro mult_nonpos_nonneg) auto
  then have "real_of_int a / real_of_int b \<le> real_of_int a / real_of_int b * ulp" using float_ratio_error [OF h(1-3)] by linarith
  then show False using x by (simp add: ulp_def)
qed

text \<open>The truncated float.\<close>

definition float_floor :: "int \<Rightarrow> int \<Rightarrow> int" where
  "float_floor m k = (if 0 \<le> k then m * 2 ^ nat k else m div 2 ^ nat (- k))"

lemma float_floor_error: "real_of_int (float_floor m k) \<le> real_of_int m * 2 powi k" "real_of_int m * 2 powi k - 1 < real_of_int (float_floor m k)"
proof -
  show "real_of_int (float_floor m k) \<le> real_of_int m * 2 powi k"
    using real_of_int_div4 [of m "2 ^ nat (- k)"] by (simp add: float_floor_def power_int_def field_simps)
  show "real_of_int m * 2 powi k - 1 < real_of_int (float_floor m k)"
    using floor_correct [of "real_of_int m / 2 ^ nat (- k)"] floor_divide_of_int_eq [of m "2 ^ nat (- k)", where ?'a = real]
    by (simp add: float_floor_def power_int_def field_simps)
qed

lemma float_micros_error:
  assumes "0 < t" "t \<le> 2 ^ 52"
  shows "\<bar>float_micros t - t\<bar> \<le> 2"
proof -
  obtain m k where mk: "float_ratio t 1000000 = (m, k)" by (cases "float_ratio t 1000000")
  define q where "q = real_of_int m * 2 powi k"
  have m: "0 < m" using float_ratio_pos [OF assms(1) _ mk] by simp
  have q: "\<bar>q - real_of_int t / 1000000\<bar> \<le> real_of_int t / 1000000 * ulp" using float_ratio_error [OF assms(1) _ mk] by (simp add: q_def)
  let ?a = "if 0 \<le> k then m * 2 ^ nat k * 1000000 else m * 1000000" and ?b = "if 0 \<le> k then 1 else 2 ^ nat (- k) :: int"
  obtain m2 k2 where mk2: "float_ratio ?a ?b = (m2, k2)" by (cases "float_ratio ?a ?b")
  have ab: "real_of_int ?a / real_of_int ?b = q * 1000000" by (simp add: q_def power_int_def field_simps)
  define p where "p = real_of_int m2 * 2 powi k2"
  have "0 < ?a" "0 < ?b" using m by auto
  from float_ratio_error [OF this mk2] have p: "\<bar>p - q * 1000000\<bar> \<le> q * 1000000 * ulp" unfolding ab p_def .
  have fm: "float_micros t = float_floor m2 k2" using assms(1) mk mk2 by (auto simp: float_micros_def float_floor_def split: if_splits)
  have T: "0 < real_of_int t" "real_of_int t \<le> 2 ^ 52" using assms by (simp, metis of_int_le_iff of_int_numeral of_int_power)
  have u: "real_of_int t * ulp \<le> 1 / 2" using T by (simp add: ulp_def field_simps)
  have q1: "\<bar>q * 1000000 - real_of_int t\<bar> \<le> real_of_int t * ulp" using q by (simp add: abs_le_iff field_simps)
  then have "q * 1000000 \<le> 2 ^ 52 + 1" using T(2) u by linarith
  then have "q * 1000000 * ulp \<le> (2 ^ 52 + 1) * ulp" by (intro mult_right_mono) (simp_all add: ulp_def)
  then have "q * 1000000 * ulp \<le> 3 / 4" by (simp add: ulp_def)
  then have "\<bar>p - real_of_int t\<bar> \<le> 5 / 4" using p q1 u by linarith
  then have "\<bar>real_of_int (float_floor m2 k2) - real_of_int t\<bar> < 9 / 4 + 1 / 8" using float_floor_error [of m2 k2] unfolding p_def by linarith
  then have "\<bar>real_of_int (float_floor m2 k2 - t)\<bar> < 3" by simp
  then have "\<bar>float_floor m2 k2 - t\<bar> < 3" by linarith
  then show ?thesis unfolding fm by linarith
qed

lemma micros_error: "0 \<le> t \<Longrightarrow> t \<le> 2 ^ 52 \<Longrightarrow> \<bar>micros t - t\<bar> \<le> 2"
  using float_micros_error [of t] by (cases "t = 0") (auto simp: micros_def float_micros_def)

section \<open>Property\<close>

text \<open>A stored time is accurate. For every instant from 1970 until \<open>2 ^ 52\<close> microseconds later (September 2112), \<open>_micros\<close> is off by at most two microseconds,
  although it computes in binary64; so it keeps the order of instants more than four microseconds apart.\<close>

theorem micros_accurate:
  assumes "0 \<le> t" "t \<le> 2 ^ 52"
  shows "\<bar>micros t - t\<bar> \<le> 2"
  using assms by (rule micros_error)

theorem micros_accurate_witness: "\<bar>micros 1700000000123457 - 1700000000123457\<bar> \<le> 2"
  by (rule micros_accurate) simp_all

end
