(* ===== verification/Schedule_Store.thy ===== *)
theory Schedule_Store
  imports Job_System Micros_Bounds
begin

text \<open>
  Recurring scans: the durable registry of \<open>form/schedule_store.py\<close> and the ticker of \<open>form/schedule_worker.py\<close> that turns due schedules into
  jobs of the job repository. A store is the list of rows of \<open>scan_schedules\<close>; the payload of a row is the schedule itself and reading
  it is \<open>ScanSchedule.model_validate_json\<close>. The random part of a schedule identifier is an argument of \<open>create_schedule\<close>. The ticker reads the target
  registry through \<open>find_one\<close>, an argument: the target's stored address, itself possibly absent, or no target.
  \<open>keyed_store\<close> is the contract of a table with upsert by primary key, the interface the ticker relies on.
\<close>

section \<open>Schedules\<close>

record scan_schedule =
  sd_schedule_id :: string
  sd_target_id :: string
  sd_capability :: scan_capability
  sd_interval_minutes :: int
  sd_enabled :: bool
  sd_options :: scan_job_options
  sd_created_at :: datetime
  sd_updated_at :: datetime
  sd_next_run_at :: datetime
  sd_last_job_id :: "string option"
  sd_last_enqueued_at :: "datetime option"

record scan_schedule_input =
  si_target_id :: string
  si_capability :: scan_capability
  si_interval_minutes :: int
  si_enabled :: bool
  si_options :: scan_job_options

definition validate_schedule :: "scan_schedule \<Rightarrow> scan_schedule result" where
  "validate_schedule s =
     rbind (valid_str (sd_schedule_id s)) (\<lambda>sid.
     rbind (valid_str (sd_target_id s)) (\<lambda>tid.
     rbind (validate_options (sd_options s)) (\<lambda>opts.
     rbind (valid_opt_str (sd_last_job_id s)) (\<lambda>jid.
       if sd_interval_minutes s < 1 \<or> 60 * 24 * 30 < sd_interval_minutes s then Inl ValidationError
       else Inr (s\<lparr>sd_schedule_id := sid, sd_target_id := tid, sd_options := opts, sd_last_job_id := jid\<rparr>)))))"

record schedule_row =
  sr_schedule_id :: string
  sr_payload :: scan_schedule
  sr_next_run_at_us :: int
  sr_enabled :: bool

definition minutes_delta :: "int \<Rightarrow> timedelta" where
  "minutes_delta m = m * 60 * 1000000"

definition row_of :: "scan_schedule \<Rightarrow> schedule_row" where
  "row_of s = \<lparr>sr_schedule_id = sd_schedule_id s, sr_payload = s, sr_next_run_at_us = micros (sd_next_run_at s), sr_enabled = sd_enabled s\<rparr>"

definition upsert :: "scan_schedule \<Rightarrow> schedule_row list \<Rightarrow> schedule_row list" where
  "upsert s rows =
     (if \<exists>row \<in> set rows. sr_schedule_id row = sd_schedule_id s
      then upd_where (\<lambda>row. sr_schedule_id row = sd_schedule_id s)
             (\<lambda>row. row\<lparr>sr_payload := s, sr_next_run_at_us := micros (sd_next_run_at s), sr_enabled := sd_enabled s\<rparr>) rows
      else rows @ [row_of s])"

definition list_schedules :: "schedule_row list \<Rightarrow> scan_schedule list result" where
  "list_schedules rows = rmap_list (\<lambda>row. validate_schedule (sr_payload row)) (sort_key sr_schedule_id rows)"

definition get_schedule :: "schedule_row list \<Rightarrow> string \<Rightarrow> scan_schedule option result" where
  "get_schedule rows sid =
     (case fetch_where (\<lambda>row. sr_schedule_id row = sid) rows of None \<Rightarrow> Inr None
      | Some row \<Rightarrow> rbind (validate_schedule (sr_payload row)) (\<lambda>s. Inr (Some s)))"

definition create_schedule :: "scan_schedule_input \<Rightarrow> string \<Rightarrow> datetime \<Rightarrow> schedule_row list \<Rightarrow> (schedule_row list \<times> scan_schedule) result" where
  "create_schedule body hex12 now rows =
     rbind (validate_schedule \<lparr>sd_schedule_id = ''sched-'' @ hex12, sd_target_id = si_target_id body, sd_capability = si_capability body,
         sd_interval_minutes = si_interval_minutes body, sd_enabled = si_enabled body, sd_options = si_options body, sd_created_at = now,
         sd_updated_at = now, sd_next_run_at = now, sd_last_job_id = None, sd_last_enqueued_at = None\<rparr>)
       (\<lambda>s. Inr (upsert s rows, s))"

definition delete_schedule :: "string \<Rightarrow> schedule_row list \<Rightarrow> schedule_row list \<times> bool" where
  "delete_schedule sid rows =
     (del_where (\<lambda>row. sr_schedule_id row = sid) rows, count_where (\<lambda>row. sr_schedule_id row = sid) rows = 1)"

definition due_row :: "datetime \<Rightarrow> schedule_row \<Rightarrow> bool" where
  "due_row now row = (sr_enabled row \<and> sr_next_run_at_us row \<le> micros now)"

definition due :: "datetime \<Rightarrow> schedule_row list \<Rightarrow> scan_schedule list result" where
  "due now rows =
     rmap_list (\<lambda>row. validate_schedule (sr_payload row))
       (sort_key (\<lambda>row. (sr_next_run_at_us row, sr_schedule_id row)) (filter (due_row now) rows))"

definition enqueued :: "string \<Rightarrow> datetime \<Rightarrow> scan_schedule \<Rightarrow> scan_schedule" where
  "enqueued jid now s = s\<lparr>sd_last_job_id := Some jid, sd_last_enqueued_at := Some now, sd_updated_at := now,
     sd_next_run_at := now + minutes_delta (sd_interval_minutes s)\<rparr>"

definition mark_enqueued :: "scan_schedule \<Rightarrow> string \<Rightarrow> datetime \<Rightarrow> schedule_row list \<Rightarrow> schedule_row list \<times> scan_schedule" where
  "mark_enqueued s jid now rows = (let updated = enqueued jid now s in (upsert updated rows, updated))"

definition snoozed :: "datetime \<Rightarrow> int option \<Rightarrow> scan_schedule \<Rightarrow> scan_schedule" where
  "snoozed now minutes s =
     (let m = (case minutes of None \<Rightarrow> sd_interval_minutes s | Some n \<Rightarrow> if n = 0 then sd_interval_minutes s else n) in
      s\<lparr>sd_updated_at := now, sd_next_run_at := now + minutes_delta m\<rparr>)"

definition snooze :: "scan_schedule \<Rightarrow> datetime \<Rightarrow> int option \<Rightarrow> schedule_row list \<Rightarrow> schedule_row list \<times> scan_schedule" where
  "snooze s now minutes rows = (let updated = snoozed now minutes s in (upsert updated rows, updated))"

section \<open>The ticker\<close>

text \<open>\<open>int(now.timestamp())\<close>: the quotient by a million rounded to a double, truncated towards zero.\<close>

definition timestamp_seconds :: "datetime \<Rightarrow> int" where
  "timestamp_seconds t =
     (if t = 0 then 0
      else let (m, k) = float_ratio \<bar>t\<bar> 1000000; v = (if 0 \<le> k then m * 2 ^ nat k else m div 2 ^ nat (- k)) in
           if t < 0 then - v else v)"

definition schedule_job_id :: "scan_schedule \<Rightarrow> datetime \<Rightarrow> string" where
  "schedule_job_id s now = ''job-'' @ sd_schedule_id s @ ''-'' @ int_str (timestamp_seconds now)"

definition scheduled_job :: "scan_schedule \<Rightarrow> string option \<Rightarrow> datetime \<Rightarrow> scan_job" where
  "scheduled_job s addr now =
     \<lparr>job_id = schedule_job_id s now, target_id = sd_target_id s,
      address = (case addr of None \<Rightarrow> sd_target_id s | Some a \<Rightarrow> if a = [] then sd_target_id s else a),
      capability = sd_capability s, mode = Some (mode_for_capability (sd_capability s)), state = PENDING, options = sd_options s,
      created_at = now, updated_at = Some now, available_at = Some now, started_at = None, finished_at = None, cancel_requested_at = None,
      attempt = 0, max_attempts = 3, result = None, job_error = None\<rparr>"

text \<open>The loop keeps what it has written when a job model cannot be built; a refused creation is logged and skipped.\<close>

fun tick_loop :: "job_config \<Rightarrow> (string \<Rightarrow> string option option) \<Rightarrow> datetime \<Rightarrow> scan_schedule list \<Rightarrow> schedule_row list \<Rightarrow> repo \<Rightarrow> nat
    \<Rightarrow> schedule_row list \<times> repo \<times> nat result" where
  "tick_loop c find_one now [] rows r created = (rows, r, Inr created)"
| "tick_loop c find_one now (s # ss) rows r created =
     (case find_one (sd_target_id s) of
        None \<Rightarrow> tick_loop c find_one now ss (fst (snooze s now None rows)) r created
      | Some addr \<Rightarrow>
          (case validate_job (scheduled_job s addr now) of
             Inl e \<Rightarrow> (rows, r, Inl e)
           | Inr job \<Rightarrow>
               (case create c job None None r of
                  Inl _ \<Rightarrow> tick_loop c find_one now ss rows r created
                | Inr (r', _) \<Rightarrow> tick_loop c find_one now ss (fst (mark_enqueued s (job_id job) now rows)) r' (Suc created))))"

definition schedule_tick :: "job_config \<Rightarrow> (string \<Rightarrow> string option option) \<Rightarrow> datetime \<Rightarrow> schedule_row list \<Rightarrow> repo
    \<Rightarrow> schedule_row list \<times> repo \<times> nat result" where
  "schedule_tick c find_one now rows r =
     (case due now rows of Inl e \<Rightarrow> (rows, r, Inl e) | Inr ss \<Rightarrow> tick_loop c find_one now ss rows r 0)"

section \<open>The keyed table\<close>

locale keyed_store =
  fixes look :: "'t \<Rightarrow> 'k \<Rightarrow> 'v option" and put :: "'v \<Rightarrow> 't \<Rightarrow> 't" and remove :: "'k \<Rightarrow> 't \<Rightarrow> 't"
    and key :: "'v \<Rightarrow> 'k" and ok :: "'t \<Rightarrow> bool" and good :: "'v \<Rightarrow> bool"
  assumes put_ok: "ok t \<Longrightarrow> good v \<Longrightarrow> ok (put v t)"
    and remove_ok: "ok t \<Longrightarrow> ok (remove k t)"
    and look_put: "ok t \<Longrightarrow> look (put v t) k = (if k = key v then Some v else look t k)"
    and look_remove: "ok t \<Longrightarrow> look (remove k t) k' = (if k' = k then None else look t k')"
begin

text \<open>A write with the key of a removed row brings the row back, whatever the order the writers meant.\<close>

lemma put_after_remove: "ok t \<Longrightarrow> look (put v (remove (key v) t)) k = look (put v t) k"
  by (simp add: remove_ok look_put look_remove)

lemma remove_after_put: "ok t \<Longrightarrow> good v \<Longrightarrow> look (remove (key v) (put v t)) k = look (remove (key v) t) k"
  by (simp add: put_ok look_put look_remove)

text \<open>A batch of writes with distinct keys, in any order.\<close>

lemma look_puts:
  assumes "ok t" "distinct (map key vs)" "\<forall>v \<in> set vs. good v"
  shows "ok (fold put vs t) \<and> look (fold put vs t) k = (case fetch_where (\<lambda>v. key v = k) vs of None \<Rightarrow> look t k | Some v \<Rightarrow> Some v)"
  using assms
proof (induction vs arbitrary: t)
  case (Cons v vs)
  have "ok (put v t)" using Cons.prems put_ok by simp
  note IH = Cons.IH [OF this]
  have "fetch_where (\<lambda>v'. key v' = key v) vs = None" using Cons.prems(2) by (auto simp: fetch_where_None image_iff)
  then show ?case using IH Cons.prems look_put by (auto simp: fetch_where_def first_row_def split: option.splits list.splits)
qed (simp add: fetch_where_def first_row_def)

end

section \<open>Invariant\<close>

definition schedule_ok :: "scan_schedule \<Rightarrow> bool" where
  "schedule_ok s = (validate_schedule s = Inr s)"

definition schedules_ok :: "schedule_row list \<Rightarrow> bool" where
  "schedules_ok rows = (distinct (map sr_schedule_id rows) \<and> (\<forall>row \<in> set rows. row = row_of (sr_payload row) \<and> schedule_ok (sr_payload row)))"

definition look_schedule :: "schedule_row list \<Rightarrow> string \<Rightarrow> scan_schedule option" where
  "look_schedule rows sid = map_option sr_payload (fetch_where (\<lambda>row. sr_schedule_id row = sid) rows)"

lemma row_of_simps [simp]: "sr_schedule_id (row_of s) = sd_schedule_id s" "sr_payload (row_of s) = s"
  "sr_next_run_at_us (row_of s) = micros (sd_next_run_at s)" "sr_enabled (row_of s) = sd_enabled s"
  by (simp_all add: row_of_def)

lemma look_row: "schedules_ok rows \<Longrightarrow> row \<in> set rows \<Longrightarrow> look_schedule rows (sr_schedule_id row) = Some (sr_payload row)"
  using fetch_key [of sr_schedule_id rows row] by (simp add: schedules_ok_def look_schedule_def)

lemma look_SomeE:
  assumes "schedules_ok rows" "look_schedule rows sid = Some s"
  shows "row_of s \<in> set rows \<and> sd_schedule_id s = sid \<and> schedule_ok s"
proof -
  obtain row where row: "fetch_where (\<lambda>row. sr_schedule_id row = sid) rows = Some row" "sr_payload row = s"
    using assms(2) by (auto simp: look_schedule_def)
  note mem = fetch_where_Some [OF row(1)]
  then have "row = row_of s" "schedule_ok s" using assms(1) row(2) by (auto simp: schedules_ok_def)
  then show ?thesis using mem by (metis row_of_simps(1))
qed

lemma look_None: "look_schedule rows sid = None \<longleftrightarrow> sid \<notin> sr_schedule_id ` set rows"
  by (auto simp: look_schedule_def fetch_where_None)

lemma look_eqI:
  assumes "schedules_ok rows"
  shows "look_schedule rows sid = Some s \<longleftrightarrow> row_of s \<in> set rows \<and> sd_schedule_id s = sid"
  using look_SomeE [OF assms] look_row [OF assms, of "row_of s"] by auto

text \<open>The upsert leaves every other row and one row for the schedule.\<close>

lemma upsert_rows:
  assumes "schedules_ok rows"
  shows "set (upsert s rows) = insert (row_of s) {row \<in> set rows. sr_schedule_id row \<noteq> sd_schedule_id s}"
    "distinct (map sr_schedule_id (upsert s rows))"
proof -
  have row: "row\<lparr>sr_payload := s, sr_next_run_at_us := micros (sd_next_run_at s), sr_enabled := sd_enabled s\<rparr> = row_of s"
    if "sr_schedule_id row = sd_schedule_id s" for row
    using that by (cases row) (simp add: row_of_def)
  show "set (upsert s rows) = insert (row_of s) {row \<in> set rows. sr_schedule_id row \<noteq> sd_schedule_id s}"
  proof (cases "\<exists>row \<in> set rows. sr_schedule_id row = sd_schedule_id s")
    case True
    then show ?thesis by (auto simp: upsert_def set_upd_where row)
  qed (auto simp: upsert_def)
  show "distinct (map sr_schedule_id (upsert s rows))"
    using assms by (auto simp: upsert_def schedules_ok_def map_upd_where image_iff)
qed

interpretation schedules: keyed_store look_schedule upsert "\<lambda>sid rows. fst (delete_schedule sid rows)" sd_schedule_id schedules_ok schedule_ok
proof
  fix t :: "schedule_row list" and v :: scan_schedule and k k' :: string
  show put: "schedules_ok (upsert v t)" if "schedules_ok t" "schedule_ok v"
    using that upsert_rows [OF that(1), of v] by (auto simp: schedules_ok_def)
  show del: "schedules_ok (fst (delete_schedule k t))" if "schedules_ok t"
    using that by (auto simp: schedules_ok_def delete_schedule_def distinct_del_where)
  show "look_schedule (upsert v t) k = (if k = sd_schedule_id v then Some v else look_schedule t k)" if t: "schedules_ok t"
  proof -
    have "fetch_where (\<lambda>row. sr_schedule_id row = k) (upsert v t)
      = (if k = sd_schedule_id v then Some (row_of v) else fetch_where (\<lambda>row. sr_schedule_id row = k) t)"
    proof (cases "k = sd_schedule_id v")
      case True
      then show ?thesis using fetch_key [OF upsert_rows(2) [OF t, of v], of "row_of v"] upsert_rows(1) [OF t, of v] by simp
    next
      case False
      have "filter (\<lambda>row. sr_schedule_id row = k) (upsert v t) = filter (\<lambda>row. sr_schedule_id row = k) t"
        using False by (simp add: upsert_def filter_upd_where_other)
      then show ?thesis using False by (simp add: fetch_where_def)
    qed
    then show ?thesis by (simp add: look_schedule_def)
  qed
  show "look_schedule (fst (delete_schedule k t)) k' = (if k' = k then None else look_schedule t k')" if "schedules_ok t"
  proof -
    have "filter (\<lambda>row. sr_schedule_id row = k') (del_where (\<lambda>row. sr_schedule_id row = k) t)
      = (if k' = k then [] else filter (\<lambda>row. sr_schedule_id row = k') t)"
      by (induction t) (auto simp: del_where_def)
    then show ?thesis by (simp add: look_schedule_def delete_schedule_def fetch_where_def first_row_def)
  qed
qed

end
