(* ===== verification/Schedule_Properties.thy ===== *)
theory Schedule_Properties
  imports Schedule_Store
begin

text \<open>
  Properties of recurring scans: a tick is a sequence of ordinary creations on the job repository with a known effect on each schedule, a schedule
  keeps its cadence, and a deletion that races with a tick is undone.
\<close>

section \<open>Due schedules\<close>

lemma due_eq:
  assumes "schedules_ok rows"
  shows "due now rows = Inr (map sr_payload (sort_key (\<lambda>row. (sr_next_run_at_us row, sr_schedule_id row)) (filter (due_row now) rows)))"
proof -
  have "validate_schedule (sr_payload row) = Inr (sr_payload row)" if "row \<in> set rows" for row
    using assms that by (simp add: schedules_ok_def schedule_ok_def)
  then show ?thesis unfolding due_def by (intro rmap_list_Inr) simp
qed

lemma due_members:
  assumes "schedules_ok rows" "due now rows = Inr ss"
  shows "s \<in> set ss \<longleftrightarrow> look_schedule rows (sd_schedule_id s) = Some s \<and> sd_enabled s \<and> micros (sd_next_run_at s) \<le> micros now"
    "distinct (map sd_schedule_id ss)"
proof -
  have ss: "ss = map sr_payload (sort_key (\<lambda>row. (sr_next_run_at_us row, sr_schedule_id row)) (filter (due_row now) rows))"
    using assms due_eq by simp
  have row: "row = row_of (sr_payload row)" if "row \<in> set rows" for row using assms(1) that by (simp add: schedules_ok_def)
  have "s \<in> set ss \<longleftrightarrow> (\<exists>row \<in> set rows. due_row now row \<and> sr_payload row = s)" by (auto simp: ss)
  also have "\<dots> \<longleftrightarrow> row_of s \<in> set rows \<and> due_row now (row_of s)" using row by (metis row_of_simps(2))
  finally show "s \<in> set ss \<longleftrightarrow> look_schedule rows (sd_schedule_id s) = Some s \<and> sd_enabled s \<and> micros (sd_next_run_at s) \<le> micros now"
    by (simp add: look_eqI [OF assms(1)] due_row_def)
  have id: "sd_schedule_id (sr_payload row) = sr_schedule_id row" if "row \<in> set rows" for row using row [OF that] row_of_simps(1) by metis
  have "map sd_schedule_id ss = map sr_schedule_id (sort_key (\<lambda>row. (sr_next_run_at_us row, sr_schedule_id row)) (filter (due_row now) rows))"
    unfolding ss by (simp add: id)
  moreover have "distinct (map sr_schedule_id (filter (due_row now) rows))" using assms(1) by (simp add: schedules_ok_def distinct_map_filter)
  ultimately show "distinct (map sd_schedule_id ss)" by (simp add: distinct_map)
qed

lemma schedule_okD:
  assumes "schedule_ok s"
  shows "clean (sd_schedule_id s)" "clean (sd_target_id s)" "validate_options (sd_options s) = Inr (sd_options s)"
    "1 \<le> sd_interval_minutes s" "sd_interval_minutes s \<le> 43200"
proof -
  obtain sid tid opts jid where v: "valid_str (sd_schedule_id s) = Inr sid" "valid_str (sd_target_id s) = Inr tid"
    "validate_options (sd_options s) = Inr opts"
    and eq: "s\<lparr>sd_schedule_id := sid, sd_target_id := tid, sd_options := opts, sd_last_job_id := jid\<rparr> = s"
    using assms by (auto simp: schedule_ok_def validate_schedule_def split: if_splits)
  have "sid = sd_schedule_id s" "tid = sd_target_id s" "opts = sd_options s"
    using arg_cong [OF eq, of sd_schedule_id] arg_cong [OF eq, of sd_target_id] arg_cong [OF eq, of sd_options] by simp_all
  then show "clean (sd_schedule_id s)" "clean (sd_target_id s)" "validate_options (sd_options s) = Inr (sd_options s)"
    using v valid_str_result by auto
  show "1 \<le> sd_interval_minutes s" "sd_interval_minutes s \<le> 43200"
    using assms by (auto simp: schedule_ok_def validate_schedule_def split: if_splits)
qed

lemma enqueued_ok: "schedule_ok s \<Longrightarrow> clean jid \<Longrightarrow> schedule_ok (enqueued jid now s)"
  by (auto simp: schedule_ok_def validate_schedule_def enqueued_def valid_opt_str_def valid_str_clean split: if_splits)
    (cases s; simp)

lemma snoozed_ok: "schedule_ok s \<Longrightarrow> schedule_ok (snoozed now m s)"
  by (auto simp: schedule_ok_def validate_schedule_def snoozed_def Let_def split: if_splits) (cases s; simp)

lemma next_id [simp]: "sd_schedule_id (enqueued jid now s) = sd_schedule_id s" "sd_schedule_id (snoozed now m s) = sd_schedule_id s"
  by (simp_all add: enqueued_def snoozed_def Let_def)

section \<open>A tick as creations\<close>

definition dispatched :: "(string \<Rightarrow> string option option) \<Rightarrow> scan_schedule list \<Rightarrow> scan_schedule list" where
  "dispatched find_one ss = filter (\<lambda>s. find_one (sd_target_id s) \<noteq> None) ss"

definition schedule_ops :: "(string \<Rightarrow> string option option) \<Rightarrow> datetime \<Rightarrow> scan_schedule list \<Rightarrow> job_op list" where
  "schedule_ops find_one now ss =
     map (\<lambda>s. Create (scheduled_job s (the (find_one (sd_target_id s))) now) None None) (dispatched find_one ss)"

definition run_ops :: "job_config \<Rightarrow> job_op list \<Rightarrow> repo \<Rightarrow> repo" where
  "run_ops c ops r = fold (\<lambda>op r. fst (apply_op c op r)) ops r"

text \<open>Which operations of a sequence the repository accepts, each at its turn.\<close>

fun accepted :: "job_config \<Rightarrow> job_op list \<Rightarrow> repo \<Rightarrow> bool list" where
  "accepted c [] r = []"
| "accepted c (op # ops) r = (snd (apply_op c op r) = None) # accepted c ops (fst (apply_op c op r))"

text \<open>What a tick leaves of a due schedule, given whether its job was accepted.\<close>

definition after_tick :: "(string \<Rightarrow> string option option) \<Rightarrow> datetime \<Rightarrow> (scan_schedule \<times> bool) list \<Rightarrow> scan_schedule \<Rightarrow> scan_schedule" where
  "after_tick find_one now outcome s =
     (if find_one (sd_target_id s) = None then snoozed now None s
      else if (s, True) \<in> set outcome then enqueued (schedule_job_id s now) now s else s)"

definition clean_tick :: "(string \<Rightarrow> string option option) \<Rightarrow> datetime \<Rightarrow> scan_schedule list \<Rightarrow> bool" where
  "clean_tick find_one now ss =
     (\<forall>s \<in> set ss. clean (schedule_job_id s now) \<and> (case find_one (sd_target_id s) of Some (Some a) \<Rightarrow> clean a | _ \<Rightarrow> True))"

lemma scheduled_job_valid:
  assumes "schedule_ok s" "clean (schedule_job_id s now)" "case addr of Some a \<Rightarrow> clean a | None \<Rightarrow> True"
  shows "validate_job (scheduled_job s addr now) = Inr (scheduled_job s addr now)"
proof -
  note t = valid_str_clean [OF schedule_okD(2) [OF assms(1)]] and o = schedule_okD(3) [OF assms(1)]
  have "valid_str (case addr of None \<Rightarrow> sd_target_id s | Some a \<Rightarrow> if a = [] then sd_target_id s else a)
    = Inr (case addr of None \<Rightarrow> sd_target_id s | Some a \<Rightarrow> if a = [] then sd_target_id s else a)"
    using assms(3) t by (auto simp: valid_str_clean split: option.splits)
  then show ?thesis using t o assms(2) by (simp add: validate_job_def scheduled_job_def valid_str_clean valid_opt_str_def derive_mode_def)
qed

lemma after_tick_Cons: "x \<noteq> s \<Longrightarrow> after_tick find_one now ((s, b) # zs) x = after_tick find_one now zs x"
  by (auto simp: after_tick_def)

text \<open>What a tick over the due schedules \<open>ss\<close> makes of a store: each of them is moved as its outcome says, the others stay.\<close>

definition ticked :: "(string \<Rightarrow> string option option) \<Rightarrow> datetime \<Rightarrow> (scan_schedule \<times> bool) list \<Rightarrow> scan_schedule list \<Rightarrow> schedule_row list \<Rightarrow> schedule_row list \<Rightarrow> bool" where
  "ticked find_one now outcome ss rows rows' =
     (schedules_ok rows' \<and> (\<forall>sid. look_schedule rows' sid = (case fetch_where (\<lambda>s. sd_schedule_id s = sid) ss of None \<Rightarrow> look_schedule rows sid
        | Some s \<Rightarrow> Some (after_tick find_one now outcome s))))"

lemma tickedI:
  assumes "sd_schedule_id s \<notin> sd_schedule_id ` set ss" "\<And>sid. look_schedule rows1 sid = (if sid = sd_schedule_id s then Some v else look_schedule rows sid)"
    "ticked find_one now zs ss rows1 rows'" "after_tick find_one now zs' s = v" "\<And>x. x \<in> set ss \<Longrightarrow> after_tick find_one now zs' x = after_tick find_one now zs x"
  shows "ticked find_one now zs' (s # ss) rows rows'"
proof -
  have "look_schedule rows' sid = (case fetch_where (\<lambda>x. sd_schedule_id x = sid) (s # ss) of None \<Rightarrow> look_schedule rows sid | Some x \<Rightarrow> Some (after_tick find_one now zs' x))" for sid
  proof (cases "fetch_where (\<lambda>x. sd_schedule_id x = sid) ss")
    case None
    then show ?thesis using assms(2-4) by (auto simp: fetch_Cons ticked_def)
  next
    case (Some x)
    note x = fetch_where_Some [OF Some]
    then have "sid \<noteq> sd_schedule_id s" using assms(1) by (metis imageI)
    then show ?thesis using assms(3) assms(5) [of x] Some x by (simp add: fetch_Cons ticked_def)
  qed
  then show ?thesis using assms(3) by (simp add: ticked_def)
qed

lemma tick_loop_spec:
  assumes "schedules_ok rows" "distinct (map sd_schedule_id ss)" "\<forall>s \<in> set ss. look_schedule rows (sd_schedule_id s) = Some s"
    "clean_tick find_one now ss" "ops = schedule_ops find_one now ss"
  shows "\<exists>rows'. tick_loop c find_one now ss rows r n = (rows', run_ops c ops r, Inr (n + length (filter (\<lambda>b. b) (accepted c ops r))))
    \<and> ticked find_one now (zip (dispatched find_one ss) (accepted c ops r)) ss rows rows'"
  using assms
proof (induction ss arbitrary: rows r n ops)
  case Nil
  then show ?case by (simp add: schedule_ops_def dispatched_def run_ops_def fetch_where_def first_row_def ticked_def)
next
  case (Cons s ss)
  let ?id = "sd_schedule_id s" and ?ops = "schedule_ops find_one now ss"
  have look: "look_schedule rows ?id = Some s" and new: "?id \<notin> sd_schedule_id ` set ss" and dist: "distinct (map sd_schedule_id ss)"
    using Cons.prems(2,3) by auto
  have sok: "schedule_ok s" using look_SomeE [OF Cons.prems(1) look] by simp
  have rest: "clean_tick find_one now ss" using Cons.prems(4) by (simp add: clean_tick_def)
  have out: "sd_schedule_id x \<noteq> ?id" "x \<noteq> s" if "x \<in> set ss" for x using new that by (metis imageI)+
  have keep: "\<forall>x \<in> set ss. look_schedule (upsert v rows) (sd_schedule_id x) = Some x" if "sd_schedule_id v = ?id" for v
    using Cons.prems(3) schedules.look_put [OF Cons.prems(1)] out that by simp
  note IH = Cons.IH [OF _ dist _ rest refl]
  show ?case
  proof (cases "find_one (sd_target_id s)")
    case None
    let ?v = "snoozed now None s"
    have ops: "ops = ?ops" "dispatched find_one (s # ss) = dispatched find_one ss"
      using None Cons.prems(5) by (simp_all add: schedule_ops_def dispatched_def)
    have ok1: "schedules_ok (upsert ?v rows)" using schedules.put_ok [OF Cons.prems(1) snoozed_ok [OF sok]] .
    obtain rows' where r': "tick_loop c find_one now ss (upsert ?v rows) r n = (rows', run_ops c ?ops r, Inr (n + length (filter (\<lambda>b. b) (accepted c ?ops r))))"
      "ticked find_one now (zip (dispatched find_one ss) (accepted c ?ops r)) ss (upsert ?v rows) rows'"
      using IH [OF ok1 keep, of r n] by auto
    have "ticked find_one now (zip (dispatched find_one ss) (accepted c ?ops r)) (s # ss) rows rows'"
      by (rule tickedI [OF new _ r'(2)]) (use schedules.look_put [OF Cons.prems(1)] None in \<open>simp_all add: after_tick_def\<close>)
    then show ?thesis using r'(1) None unfolding ops by (simp add: snooze_def Let_def)
  next
    case (Some addr)
    let ?job = "scheduled_job s addr now" and ?jid = "schedule_job_id s now"
    let ?op = "Create ?job None None"
    have cl: "clean ?jid" and v: "validate_job ?job = Inr ?job"
      using Cons.prems(4) Some scheduled_job_valid [OF sok, of now addr] by (auto simp: clean_tick_def split: option.splits)
    have ops: "ops = ?op # ?ops" "dispatched find_one (s # ss) = s # dispatched find_one ss"
      using Some Cons.prems(5) by (simp_all add: schedule_ops_def dispatched_def)
    have notin: "(s, True) \<notin> set (zip (dispatched find_one ss) bs)" for bs
      using new by (auto simp: dispatched_def dest!: set_zip_leftD)
    show ?thesis
    proof (cases "create c ?job None None r")
      case (Inl e)
      obtain rows' where r': "tick_loop c find_one now ss rows r n = (rows', run_ops c ?ops r, Inr (n + length (filter (\<lambda>b. b) (accepted c ?ops r))))"
        "ticked find_one now (zip (dispatched find_one ss) (accepted c ?ops r)) ss rows rows'"
        using IH [OF Cons.prems(1), of r n] Cons.prems(3) by auto
      have "ticked find_one now ((s, False) # zip (dispatched find_one ss) (accepted c ?ops r)) (s # ss) rows rows'"
        by (rule tickedI [OF new _ r'(2), of s]) (use look Some notin out in \<open>auto simp: after_tick_def\<close>)
      then show ?thesis using r'(1) Some v Inl unfolding ops by (simp add: run_ops_def)
    next
      case (Inr b)
      obtain r1 x where b: "b = (r1, x)" by (cases b)
      let ?v = "enqueued ?jid now s"
      have ok1: "schedules_ok (upsert ?v rows)" using schedules.put_ok [OF Cons.prems(1) enqueued_ok [OF sok cl]] .
      obtain rows' where r': "tick_loop c find_one now ss (upsert ?v rows) r1 (Suc n) = (rows', run_ops c ?ops r1, Inr (Suc n + length (filter (\<lambda>b. b) (accepted c ?ops r1))))"
        "ticked find_one now (zip (dispatched find_one ss) (accepted c ?ops r1)) ss (upsert ?v rows) rows'"
        using IH [OF ok1 keep, of r1 "Suc n"] by auto
      have "ticked find_one now ((s, True) # zip (dispatched find_one ss) (accepted c ?ops r1)) (s # ss) rows rows'"
        by (rule tickedI [OF new _ r'(2)]) (use schedules.look_put [OF Cons.prems(1)] Some out in \<open>auto simp: after_tick_def\<close>)
      moreover have "job_id ?job = ?jid" by (simp add: scheduled_job_def)
      ultimately show ?thesis using r'(1) Some v Inr b unfolding ops by (simp add: run_ops_def mark_enqueued_def Let_def)
    qed
  qed
qed

section \<open>The jobs of a tick\<close>

lemma run_ops_Cons: "run_ops c (op # ops) r = run_ops c ops (fst (apply_op c op r))"
  by (simp add: run_ops_def)

lemma run_ops_reach: "job_reach c t r \<Longrightarrow> \<forall>op \<in> set ops. issued_at t op \<Longrightarrow> job_reach c t (run_ops c ops r)"
proof (induction ops arbitrary: r)
  case (Cons op ops)
  have "job_step c t r (fst (apply_op c op r))" using Cons.prems(2) by (auto simp: job_step_def)
  then have "job_reach c t (fst (apply_op c op r))" using Cons.prems(1) unfolding job_reach_def by (rule clocked_reach.step [rotated])
  then show ?case using Cons.IH Cons.prems(2) by (simp add: run_ops_Cons)
qed (simp add: run_ops_def)

lemma schedule_ops_create: "op \<in> set (schedule_ops find_one now ss) \<Longrightarrow> \<exists>j. op = Create j None None"
  by (auto simp: schedule_ops_def)

text \<open>Creation never evicts a head that is not terminal.\<close>

lemma create_keeps_head:
  assumes "repo_ok c r" "h \<in> set (heads r)" "h_state h \<notin> TERMINAL"
  shows "h \<in> set (heads (fst (apply_op c (Create j None None) r)))"
proof (cases "create c j None None r")
  case (Inr out)
  obtain r' v b where out: "out = (r', v, b)" by (cases out) auto
  have "h \<in> set (heads r')"
    using assms(1) Inr [unfolded out]
  proof (cases rule: createE)
    case (2 r1 n D k)
    then show ?thesis using assms(2,3) by auto
  qed (use assms(2) in simp)
  then show ?thesis using Inr out by simp
qed (use assms(2) in simp)

lemma run_keeps_head:
  "repo_ok c r \<Longrightarrow> \<forall>op \<in> set ops. \<exists>j. op = Create j None None \<Longrightarrow> h \<in> set (heads r) \<Longrightarrow> h_state h \<notin> TERMINAL \<Longrightarrow> h \<in> set (heads (run_ops c ops r))"
proof (induction ops arbitrary: r)
  case (Cons op ops)
  then show ?case using create_keeps_head apply_op_ok by (fastforce simp: run_ops_Cons simp del: apply_op.simps)
qed (simp add: run_ops_def)

lemma created_head:
  assumes "repo_ok c r" "snd (apply_op c (Create j None None) r) = None" "validate_job j = Inr j" "state j = PENDING"
  shows "\<exists>h \<in> set (heads (fst (apply_op c (Create j None None) r))). h_job_id h = job_id j \<and> h_state h = PENDING \<and> h_payload h = j"
proof (cases "create c j None None r")
  case (Inr out)
  obtain r' v b where out: "out = (r', v, b)" by (cases out) auto
  have "\<exists>h \<in> set (heads r'). h_job_id h = job_id j \<and> h_state h = PENDING \<and> h_payload h = j"
    using assms(1) Inr [unfolded out]
  proof (cases rule: createE)
    case (2 r1 n D k)
    have "v = j" using 2(2) assms(3) by (auto simp: encode_def Let_def split: if_splits)
    then show ?thesis using 2(7) assms(4) by (auto simp: new_head_def)
  qed simp
  then show ?thesis using Inr out by simp
qed (use assms(2) in simp)

lemma tick_heads:
  assumes "repo_ok c r" "\<forall>s \<in> set ss. schedule_ok s" "clean_tick find_one now ss" "ops = schedule_ops find_one now ss"
    "(s, True) \<in> set (zip (dispatched find_one ss) (accepted c ops r))"
  shows "\<exists>h \<in> set (heads (run_ops c ops r)). h_job_id h = schedule_job_id s now \<and> h_state h = PENDING
    \<and> h_payload h = scheduled_job s (the (find_one (sd_target_id s))) now"
  using assms
proof (induction ss arbitrary: r ops)
  case (Cons x ss)
  note prems = Cons.prems
  have rest: "\<forall>s \<in> set ss. schedule_ok s" "clean_tick find_one now ss" using prems(2,3) by (auto simp: clean_tick_def)
  show ?case
  proof (cases "find_one (sd_target_id x)")
    case None
    then show ?thesis using Cons.IH [OF prems(1) rest refl] prems(4,5) by (simp add: schedule_ops_def dispatched_def)
  next
    case (Some addr)
    let ?j = "scheduled_job x addr now" and ?ops = "schedule_ops find_one now ss"
    let ?r = "fst (apply_op c (Create ?j None None) r)"
    have ops: "ops = Create ?j None None # ?ops" "dispatched find_one (x # ss) = x # dispatched find_one ss"
      using Some prems(4) by (simp_all add: schedule_ops_def dispatched_def)
    have ok: "repo_ok c ?r" using apply_op_ok [OF prems(1)] .
    have v: "validate_job ?j = Inr ?j" using scheduled_job_valid [of x now addr] prems(2,3) Some by (auto simp: clean_tick_def split: option.splits)
    from prems(5) consider "s = x" "snd (apply_op c (Create ?j None None) r) = None" | "(s, True) \<in> set (zip (dispatched find_one ss) (accepted c ?ops ?r))"
      unfolding ops by (auto simp del: apply_op.simps)
    then show ?thesis
    proof cases
      case 1
      obtain h where h: "h \<in> set (heads ?r)" "h_job_id h = job_id ?j" "h_state h = PENDING" "h_payload h = ?j"
        using created_head [OF prems(1) 1(2) v] by (auto simp: scheduled_job_def)
      have "h \<in> set (heads (run_ops c ?ops ?r))"
        using run_keeps_head [OF ok _ h(1)] schedule_ops_create h(3) by (auto simp: TERMINAL_def)
      then show ?thesis using h 1 Some unfolding ops by (auto simp: run_ops_Cons scheduled_job_def simp del: apply_op.simps)
    next
      case 2
      then show ?thesis using Cons.IH [OF ok rest refl] unfolding ops by (simp add: run_ops_Cons del: apply_op.simps)
    qed
  qed
qed (simp add: dispatched_def)

section \<open>Properties\<close>

text \<open>C29: A tick of the schedule worker refines the job repository. On a well-formed store it returns, and its effect on the repository is exactly
  the run of one ordinary \<open>create\<close> per due schedule whose target exists, in due order, so every guarantee of the reachable repositories holds after it;
  a refused creation blocks no other schedule. It counts the accepted ones. Of the schedules, those not due stay as they are, one without target is pushed
  forward, an accepted one is moved by its interval and names a pending job for its target, and a refused one stays due.\<close>

theorem schedule_tick_refines:
  assumes "schedules_ok rows" "job_reach c t r" "due now rows = Inr ss" "clean_tick find_one now ss"
  shows "\<exists>rows'. let ops = schedule_ops find_one now ss; outcome = zip (dispatched find_one ss) (accepted c ops r); r' = run_ops c ops r in
    schedule_tick c find_one now rows r = (rows', r', Inr (length (filter (\<lambda>b. b) (accepted c ops r))))
    \<and> job_reach c t r' \<and> ticked find_one now outcome ss rows rows'
    \<and> (\<forall>s. (s, True) \<in> set outcome \<longrightarrow> (\<exists>h \<in> set (heads r'). h_job_id h = schedule_job_id s now \<and> h_state h = PENDING
         \<and> h_payload h = scheduled_job s (the (find_one (sd_target_id s))) now))"
proof -
  let ?ops = "schedule_ops find_one now ss"
  have look: "\<forall>s \<in> set ss. look_schedule rows (sd_schedule_id s) = Some s" using due_members(1) [OF assms(1,3)] by blast
  then have ok: "\<forall>s \<in> set ss. schedule_ok s" using look_SomeE [OF assms(1)] by blast
  obtain rows' where rows': "tick_loop c find_one now ss rows r 0 = (rows', run_ops c ?ops r, Inr (0 + length (filter (\<lambda>b. b) (accepted c ?ops r))))"
    "ticked find_one now (zip (dispatched find_one ss) (accepted c ?ops r)) ss rows rows'"
    using tick_loop_spec [OF assms(1) due_members(2) [OF assms(1,3)] look assms(4) refl, of c r 0] by blast
  have "repo_ok c r" using assms(2) unfolding job_reach_def by (rule repo_inv.reach_inv)
  note heads = tick_heads [OF this ok assms(4) refl]
  have "job_reach c t (run_ops c ?ops r)"
    using schedule_ops_create by (intro run_ops_reach [OF assms(2)]) (fastforce simp: issued_at_def)
  then show ?thesis using rows' heads assms(3) by (simp add: schedule_tick_def Let_def)
qed

definition example_schedule :: scan_schedule where
  "example_schedule = \<lparr>sd_schedule_id = ''sched-1'', sd_target_id = ''t'', sd_capability = HOST, sd_interval_minutes = 1, sd_enabled = True,
     sd_options = default_options, sd_created_at = 0, sd_updated_at = 0, sd_next_run_at = 0, sd_last_job_id = None, sd_last_enqueued_at = None\<rparr>"

definition example_targets :: "string \<Rightarrow> string option option" where
  "example_targets tid = (if tid = ''t'' then Some (Some ''host'') else None)"

definition example_jobs :: job_config where
  "example_jobs = \<lparr>max_record_bytes = 0, max_jobs = 0, max_history = 0, payload_size = (\<lambda>_. 0), token_hash = (\<lambda>s. s)\<rparr>"

lemma example_schedules:
  "schedules_ok [row_of example_schedule]" "due 0 [row_of example_schedule] = Inr [example_schedule]" "clean_tick example_targets 0 [example_schedule]"
  by code_simp+

theorem schedule_tick_refines_witness:
  "\<exists>rows'. schedule_tick example_jobs example_targets 0 [row_of example_schedule] empty_repo
     = (rows', run_ops example_jobs (schedule_ops example_targets 0 [example_schedule]) empty_repo, Inr 1)"
proof -
  have "job_reach example_jobs 0 empty_repo" unfolding job_reach_def by (rule clocked_reach.start) simp
  moreover have "accepted example_jobs (schedule_ops example_targets 0 [example_schedule]) empty_repo = [True]" by code_simp
  ultimately show ?thesis
    using schedule_tick_refines [OF example_schedules(1) _ example_schedules(2,3), of example_jobs 0 empty_repo] by (auto simp: Let_def)
qed

text \<open>Cadence. A schedule whose job was enqueued at \<open>now\<close> is not due again earlier than four microseconds before the end of its interval, and
  is due from four microseconds after it on, although the times are stored through double arithmetic.\<close>

theorem schedule_cadence:
  assumes "schedules_ok rows" "schedule_ok s" "sd_enabled s" "clean jid" "0 \<le> now" "0 \<le> u" "u \<le> 2 ^ 52"
    "now + minutes_delta (sd_interval_minutes s) \<le> 2 ^ 52" "due u (fst (mark_enqueued s jid now rows)) = Inr ss"
  shows "(u + 5 \<le> now + minutes_delta (sd_interval_minutes s) \<longrightarrow> sd_schedule_id s \<notin> sd_schedule_id ` set ss)
    \<and> (now + minutes_delta (sd_interval_minutes s) + 4 \<le> u \<longrightarrow> enqueued jid now s \<in> set ss)"
proof -
  let ?next = "now + minutes_delta (sd_interval_minutes s)" and ?v = "enqueued jid now s"
  have rows: "fst (mark_enqueued s jid now rows) = upsert ?v rows" by (simp add: mark_enqueued_def Let_def)
  have ok: "schedules_ok (upsert ?v rows)" using schedules.put_ok [OF assms(1) enqueued_ok [OF assms(2,4)]] .
  have look: "look_schedule (upsert ?v rows) (sd_schedule_id s) = Some ?v" using schedules.look_put [OF assms(1)] by simp
  have mem: "x \<in> set ss \<longleftrightarrow> x = ?v \<and> micros ?next \<le> micros u" if "sd_schedule_id x = sd_schedule_id s" for x
    using due_members(1) [OF ok assms(9) [unfolded rows], of x] look that assms(3) by (auto simp: enqueued_def)
  have "0 \<le> ?next" using schedule_okD(4) [OF assms(2)] assms(5) by (simp add: minutes_delta_def)
  then have "\<bar>micros ?next - ?next\<bar> \<le> 2" "\<bar>micros u - u\<bar> \<le> 2" using micros_error assms(6-8) by auto
  then show ?thesis using mem by (auto simp: image_iff)
qed

theorem schedule_cadence_witness:
  "sd_schedule_id example_schedule \<notin> sd_schedule_id ` set (projr (due 1 (fst (mark_enqueued example_schedule ''j'' 0 [row_of example_schedule]))))"
proof -
  let ?rows = "fst (mark_enqueued example_schedule ''j'' 0 [row_of example_schedule])"
  have "due 1 ?rows = Inr []" by code_simp
  moreover have "sd_enabled example_schedule" "schedule_ok example_schedule" "clean ''j''" by code_simp+
  ultimately have "(1 :: int) + 5 \<le> 0 + minutes_delta (sd_interval_minutes example_schedule) \<longrightarrow> sd_schedule_id example_schedule \<notin> sd_schedule_id ` set []"
    using schedule_cadence [OF example_schedules(1), of example_schedule "''j''" 0 1 "[]"] by (simp add: example_schedule_def minutes_delta_def)
  then show ?thesis using \<open>due 1 ?rows = Inr []\<close> by simp
qed

text \<open>A deletion that runs between the reading of the due schedules and the write-back of one of them is undone: the row is gone after
  the deletion, and both write-backs of the ticker, after an enqueued job and after a missing target, insert it again, so the schedule the operator deleted keeps running.\<close>

theorem schedule_deletion_undone:
  "get_schedule (fst (delete_schedule (sd_schedule_id s) rows)) (sd_schedule_id s) = Inr None
   \<and> get_schedule (fst (mark_enqueued s jid now (fst (delete_schedule (sd_schedule_id s) rows)))) (sd_schedule_id s)
       = rbind (validate_schedule (enqueued jid now s)) (\<lambda>u. Inr (Some u))
   \<and> get_schedule (fst (snooze s now m (fst (delete_schedule (sd_schedule_id s) rows)))) (sd_schedule_id s)
       = rbind (validate_schedule (snoozed now m s)) (\<lambda>u. Inr (Some u))"
proof -
  let ?del = "fst (delete_schedule (sd_schedule_id s) rows)"
  have gone: "filter (\<lambda>row. sr_schedule_id row = sd_schedule_id s) ?del = []" by (simp add: delete_schedule_def filter_empty_conv)
  have "fetch_where (\<lambda>row. sr_schedule_id row = sd_schedule_id s) (upsert v ?del) = Some (row_of v)" if "sd_schedule_id v = sd_schedule_id s" for v
    using that gone by (auto simp: upsert_def fetch_where_def first_row_def delete_schedule_def)
  moreover have "fetch_where (\<lambda>row. sr_schedule_id row = sd_schedule_id s) ?del = None" using gone by (simp add: fetch_where_def)
  ultimately show ?thesis by (simp add: get_schedule_def mark_enqueued_def snooze_def Let_def)
qed

end
