(* ===== verification/Simulation.thy ===== *)
theory Simulation
  imports Py_Prelude
begin

text \<open>
  The interface between a component and its abstract specification: a forward simulation. The provider gives an invariant of its states,
  an abstraction function, and a proof that each concrete step is matched by abstract ones; runs of the component are then runs of the
  specification, and what every abstract step keeps, the component keeps.
\<close>

locale forward_simulation =
  fixes inv :: "'s \<Rightarrow> bool" and step :: "'s \<Rightarrow> 's \<Rightarrow> bool" and abs :: "'s \<Rightarrow> 'a" and astep :: "'a \<Rightarrow> 'a \<Rightarrow> bool"
  assumes inv_step: "inv s \<Longrightarrow> step s s' \<Longrightarrow> inv s'"
    and sim_step: "inv s \<Longrightarrow> step s s' \<Longrightarrow> astep\<^sup>*\<^sup>* (abs s) (abs s')"
begin

lemma run_simulated:
  assumes "step\<^sup>*\<^sup>* s s'" "inv s"
  shows "inv s' \<and> astep\<^sup>*\<^sup>* (abs s) (abs s')"
  using assms
proof (induction rule: rtranclp_induct)
  case (step y z)
  then have "inv z" "astep\<^sup>*\<^sup>* (abs y) (abs z)" using inv_step sim_step by blast+
  then show ?case using step by (meson rtranclp_trans)
qed simp

text \<open>A property of abstract states that is stable under abstract steps is stable under runs of the component.\<close>

lemma run_keeps:
  assumes "\<And>a b. P a \<Longrightarrow> astep a b \<Longrightarrow> P b" "step\<^sup>*\<^sup>* s s'" "inv s" "P (abs s)"
  shows "P (abs s')"
proof -
  have "astep\<^sup>*\<^sup>* (abs s) (abs s')" using run_simulated assms(2,3) by blast
  then show ?thesis using assms(1,4) by (induction rule: rtranclp_induct) auto
qed

end

end
