(* ===== verification/Ingest_Ledger.thy ===== *)
theory Ingest_Ledger
  imports Scan_Schemas Sql_Table Simulation
begin

text \<open>
  The durable ingest ledger and its derived-work queue, \<open>analyzer/api/ingest_queue.py\<close>: the table \<open>ingest_tasks\<close>, the transactions of
  \<open>IngestLedger\<close>, and what a \<open>DerivedWorker\<close> does with a claimed task. Times are doubles of seconds, kept as the rational they denote;
  \<open>float_round\<close> is the rounding of a sum. Arguments of the operations stand for what the process draws from outside: the clock reading, the claim
  token, and at insertion the bytes the database files occupy less their free pages. SHA-256 is a parameter. Where SQL leaves the order of equal
  keys open, rows keep their order.
\<close>

section \<open>Data\<close>

type_synonym seconds = rat

datatype task_kind = ASSET_REPORT | TRACE_BATCH | GUARD_EVENT

fun kind_value :: "task_kind \<Rightarrow> string" where
  "kind_value ASSET_REPORT = ''asset-report''"
| "kind_value TRACE_BATCH = ''trace-batch''"
| "kind_value GUARD_EVENT = ''guard-event''"

datatype task_state = T_PENDING | T_PROCESSING | T_COMPLETE | T_PARTIAL

definition final_state :: "task_state \<Rightarrow> bool" where
  "final_state s = (s = T_COMPLETE \<or> s = T_PARTIAL)"

record ledger_row =
  lr_key :: string
  lr_kind :: task_kind
  lr_envelope_id :: string
  lr_payload :: string
  lr_payload_sha256 :: string
  lr_state :: task_state
  lr_attempts :: nat
  lr_next_attempt_at :: seconds
  lr_lease_until :: "seconds option"
  lr_lease_token :: "string option"
  lr_derived_records :: int
  lr_derived_truncated :: bool
  lr_derived_reason :: "string option"
  lr_last_error :: "string option"
  lr_created_at :: seconds
  lr_updated_at :: seconds

record ledger_task =
  lt_key :: string
  lt_kind :: task_kind
  lt_envelope_id :: string
  lt_payload :: string
  lt_payload_sha256 :: string
  lt_state :: task_state
  lt_attempts :: nat
  lt_next_attempt_at :: seconds
  lt_lease_token :: "string option"
  lt_derived_records :: int
  lt_derived_truncated :: bool
  lt_derived_reason :: "string option"
  lt_last_error :: "string option"
  lt_updated_at :: seconds

record ledger_config =
  lc_max_completed :: nat
  lc_max_bytes :: nat
  lc_sha256 :: "string \<Rightarrow> string"

text \<open>\<open>str(row[c]) if row[c] else None\<close>: the empty string reads as absent.\<close>

definition task_of :: "ledger_row \<Rightarrow> ledger_task" where
  "task_of r = \<lparr>lt_key = lr_key r, lt_kind = lr_kind r, lt_envelope_id = lr_envelope_id r, lt_payload = lr_payload r,
     lt_payload_sha256 = lr_payload_sha256 r, lt_state = lr_state r, lt_attempts = lr_attempts r, lt_next_attempt_at = lr_next_attempt_at r,
     lt_lease_token = truthy (lr_lease_token r), lt_derived_records = lr_derived_records r, lt_derived_truncated = lr_derived_truncated r,
     lt_derived_reason = truthy (lr_derived_reason r), lt_last_error = truthy (lr_last_error r), lt_updated_at = lr_updated_at r\<rparr>"

section \<open>Transactions\<close>

definition utf8_len :: "string \<Rightarrow> nat" where
  "utf8_len s = sum_list (map (\<lambda>c. if code c < 128 then 1 else 2) s)"

definition insert_budget :: "ledger_config \<Rightarrow> nat \<Rightarrow> nat \<Rightarrow> bool" where
  "insert_budget c used payload_bytes = (lc_max_bytes c = 0 \<or> used + (payload_bytes * 2 + 64 * 1024) \<le> lc_max_bytes c)"

definition new_row :: "ledger_config \<Rightarrow> seconds \<Rightarrow> string \<Rightarrow> task_kind \<Rightarrow> string \<Rightarrow> string \<Rightarrow> ledger_row" where
  "new_row c now key kind envelope_id payload =
     \<lparr>lr_key = key, lr_kind = kind, lr_envelope_id = envelope_id, lr_payload = payload, lr_payload_sha256 = lc_sha256 c payload,
      lr_state = T_PENDING, lr_attempts = 0, lr_next_attempt_at = 0, lr_lease_until = None, lr_lease_token = None, lr_derived_records = 0,
      lr_derived_truncated = False, lr_derived_reason = None, lr_last_error = None, lr_created_at = now, lr_updated_at = now\<rparr>"

definition submit :: "ledger_config \<Rightarrow> nat \<Rightarrow> seconds \<Rightarrow> string \<Rightarrow> task_kind \<Rightarrow> string \<Rightarrow> string \<Rightarrow> ledger_row list
    \<Rightarrow> (ledger_row list \<times> ledger_task \<times> bool) result" where
  "submit c used now key kind envelope_id payload rows =
     (case fetch_where (\<lambda>r. lr_key r = key) rows of
        Some r \<Rightarrow>
          if \<not> final_state (lr_state r) \<and> lr_payload_sha256 r \<noteq> lc_sha256 c payload then Inl LedgerConflictError
          else Inr (rows, task_of r, False)
      | None \<Rightarrow>
          if \<not> insert_budget c used (utf8_len payload) then Inl StorageCapacityError
          else let r = new_row c now key kind envelope_id payload in Inr (rows @ [r], task_of r, True))"

definition get_task :: "string \<Rightarrow> ledger_row list \<Rightarrow> ledger_task option" where
  "get_task key rows = map_option task_of (fetch_where (\<lambda>r. lr_key r = key) rows)"

text \<open>SQLite's \<open>LIKE\<close> ignores the case of ASCII letters; the prefix is escaped, so the only wildcard is the final \<open>%\<close>.\<close>

definition ascii_fold :: "char \<Rightarrow> char" where
  "ascii_fold ch = (if 65 \<le> code ch \<and> code ch \<le> 90 then char_of (of_char ch + (32 :: nat)) else ch)"

definition like_prefix :: "string \<Rightarrow> string \<Rightarrow> bool" where
  "like_prefix p s = (length p \<le> length s \<and> map ascii_fold (take (length p) s) = map ascii_fold p)"

definition base_key :: "task_kind \<Rightarrow> string \<Rightarrow> string \<Rightarrow> string" where
  "base_key kind source envelope_id = kind_value kind @ '':'' @ source @ '':'' @ envelope_id"

definition lineage :: "task_kind \<Rightarrow> string \<Rightarrow> string \<Rightarrow> ledger_row list \<Rightarrow> ledger_task list" where
  "lineage kind source envelope_id rows =
     (let base = base_key kind source envelope_id in
      map task_of (order_limit lr_created_at 4096
        (filter (\<lambda>r. lr_key r = base \<or> like_prefix (base @ ''::chunk-'') (lr_key r)) rows)))"

definition due_task :: "seconds \<Rightarrow> ledger_row \<Rightarrow> bool" where
  "due_task now r = ((lr_state r = T_PENDING \<and> lr_next_attempt_at r \<le> now)
     \<or> (lr_state r = T_PROCESSING \<and> (case lr_lease_until r of None \<Rightarrow> 0 | Some u \<Rightarrow> u) \<le> now))"

definition lease_row :: "seconds \<Rightarrow> seconds \<Rightarrow> string \<Rightarrow> ledger_row \<Rightarrow> ledger_row" where
  "lease_row now lease_seconds token r =
     r\<lparr>lr_state := T_PROCESSING, lr_attempts := lr_attempts r + 1, lr_lease_until := Some (float_round (now + lease_seconds)),
       lr_lease_token := Some token, lr_updated_at := now\<rparr>"

definition claim_where :: "(ledger_row \<Rightarrow> bool) \<Rightarrow> seconds \<Rightarrow> seconds \<Rightarrow> string \<Rightarrow> ledger_row list \<Rightarrow> ledger_row list \<times> ledger_task option" where
  "claim_where sel now lease_seconds token rows =
     (case first_row (order_limit lr_created_at 1 (filter (\<lambda>r. sel r \<and> due_task now r) rows)) of
        None \<Rightarrow> (rows, None)
      | Some row \<Rightarrow>
          let rows' = upd_where (\<lambda>r. lr_key r = lr_key row) (lease_row now lease_seconds token) rows in
          (rows', map_option task_of (fetch_where (\<lambda>r. lr_key r = lr_key row) rows')))"

definition claim_task :: "string \<Rightarrow> seconds \<Rightarrow> seconds \<Rightarrow> string \<Rightarrow> ledger_row list \<Rightarrow> ledger_row list \<times> ledger_task option" where
  "claim_task key = claim_where (\<lambda>r. lr_key r = key)"

definition claim_next_task :: "seconds \<Rightarrow> seconds \<Rightarrow> string \<Rightarrow> ledger_row list \<Rightarrow> ledger_row list \<times> ledger_task option" where
  "claim_next_task = claim_where (\<lambda>_. True)"

definition held_by :: "string \<Rightarrow> string \<Rightarrow> ledger_row \<Rightarrow> bool" where
  "held_by key token r = (lr_key r = key \<and> lr_state r = T_PROCESSING \<and> lr_lease_token r = Some token)"

definition extend_lease :: "seconds \<Rightarrow> string \<Rightarrow> string \<Rightarrow> seconds \<Rightarrow> ledger_row list \<Rightarrow> ledger_row list \<times> bool" where
  "extend_lease now key token lease_seconds rows =
     (upd_where (held_by key token) (\<lambda>r. r\<lparr>lr_lease_until := Some (float_round (now + lease_seconds)), lr_updated_at := now\<rparr>) rows,
      count_where (held_by key token) rows = 1)"

definition prune_completed :: "ledger_config \<Rightarrow> ledger_row list \<Rightarrow> ledger_row list" where
  "prune_completed c rows =
     (let old = drop (lc_max_completed c) (sort_key (\<lambda>r. - lr_updated_at r) (filter (\<lambda>r. final_state (lr_state r)) rows)) in
      del_where (\<lambda>r. lr_key r \<in> set (map lr_key old)) rows)"

definition finish_row :: "seconds \<Rightarrow> task_state \<Rightarrow> int \<Rightarrow> bool \<Rightarrow> string option \<Rightarrow> ledger_row \<Rightarrow> ledger_row" where
  "finish_row now status records truncated reason r =
     r\<lparr>lr_state := status, lr_payload := [], lr_derived_records := records, lr_derived_truncated := truncated, lr_derived_reason := reason,
       lr_last_error := None, lr_lease_until := None, lr_lease_token := None, lr_updated_at := now\<rparr>"

datatype final_status = S_COMPLETE | S_PARTIAL

fun status_state :: "final_status \<Rightarrow> task_state" where
  "status_state S_COMPLETE = T_COMPLETE"
| "status_state S_PARTIAL = T_PARTIAL"

definition complete_task :: "ledger_config \<Rightarrow> seconds \<Rightarrow> string \<Rightarrow> string \<Rightarrow> final_status \<Rightarrow> int \<Rightarrow> bool \<Rightarrow> string option \<Rightarrow> ledger_row list \<Rightarrow> ledger_row list \<times> bool" where
  "complete_task c now key token status records truncated reason rows =
     (let changed = count_where (held_by key token) rows;
          rows1 = upd_where (held_by key token) (finish_row now (status_state status) records truncated reason) rows in
      (if changed \<noteq> 0 then prune_completed c rows1 else rows1, changed = 1))"

definition retry_task :: "seconds \<Rightarrow> string \<Rightarrow> string \<Rightarrow> string \<Rightarrow> seconds \<Rightarrow> ledger_row list \<Rightarrow> ledger_row list \<times> bool" where
  "retry_task now key token reason delay_seconds rows =
     (upd_where (held_by key token) (\<lambda>r. r\<lparr>lr_state := T_PENDING, lr_next_attempt_at := float_round (now + max 0 delay_seconds),
        lr_last_error := Some (take 2048 reason), lr_lease_until := None, lr_lease_token := None, lr_updated_at := now\<rparr>) rows,
      count_where (held_by key token) rows = 1)"

definition task_counts :: "ledger_row list \<Rightarrow> task_state \<Rightarrow> nat" where
  "task_counts rows s = count_where (\<lambda>r. lr_state r = s) rows"

section \<open>The worker\<close>

datatype run_status = R_COMPLETE | R_PARTIAL | R_FAILED

record derived_outcome =
  do_status :: run_status
  do_records :: int
  do_truncated :: bool
  do_reason :: "string option"

record worker_config =
  wc_lease_seconds :: seconds
  wc_retry_base_seconds :: seconds
  wc_retry_max_seconds :: seconds

definition retry_delay :: "worker_config \<Rightarrow> nat \<Rightarrow> seconds" where
  "retry_delay w attempts = min (wc_retry_max_seconds w) (wc_retry_base_seconds w * 2 ^ min (attempts - 1) 20)"

text \<open>\<open>_process\<close> after the processor has returned an outcome or raised an exception of the given name.\<close>

definition settle_task :: "ledger_config \<Rightarrow> worker_config \<Rightarrow> seconds \<Rightarrow> ledger_task \<Rightarrow> string + derived_outcome \<Rightarrow> ledger_row list \<Rightarrow> ledger_row list \<times> bool" where
  "settle_task c w now task res rows =
     (let key = lt_key task; token = the (lt_lease_token task) in
      case res of
        Inl raised \<Rightarrow> retry_task now key token raised (retry_delay w (lt_attempts task)) rows
      | Inr out \<Rightarrow>
          (case do_status out of
             R_FAILED \<Rightarrow> retry_task now key token
               (case truthy (do_reason out) of None \<Rightarrow> ''derived_processing_failed'' | Some x \<Rightarrow> x) (retry_delay w (lt_attempts task)) rows
           | R_COMPLETE \<Rightarrow> complete_task c now key token S_COMPLETE (do_records out) (do_truncated out) (do_reason out) rows
           | R_PARTIAL \<Rightarrow> complete_task c now key token S_PARTIAL (do_records out) (do_truncated out) (do_reason out) rows))"

end
