(* ===== verification/Ledger_Properties.thy ===== *)
theory Ledger_Properties
  imports Ingest_Ledger
begin

text \<open>
  Properties of the ingest ledger. The abstract specification is an outbox: a key is unknown, holds an accepted payload, or is done; an accepted payload
  leaves the outbox only by being finished, and only finished keys are forgotten. Every sequence of ledger operations is a run of the
  outbox. Further: a superseded claim token is refused for ever, a due task is claimed in order and by one worker at a time,
  outcomes are replayed within the retention bound, and the lineage query confuses keys that differ in case.
\<close>

section \<open>Operations as values\<close>

datatype ledger_op =
    Submit nat seconds string task_kind string string
  | Claim_key string seconds seconds string
  | Claim_any seconds seconds string
  | Extend seconds string string seconds
  | Finish seconds string string final_status int bool "string option"
  | Defer seconds string string string seconds

fun apply_ledger :: "ledger_config \<Rightarrow> ledger_op \<Rightarrow> ledger_row list \<Rightarrow> ledger_row list" where
  "apply_ledger c (Submit used now key kind eid payload) rows = fst (commit rows (submit c used now key kind eid payload rows))"
| "apply_ledger c (Claim_key key now lease token) rows = fst (claim_task key now lease token rows)"
| "apply_ledger c (Claim_any now lease token) rows = fst (claim_next_task now lease token rows)"
| "apply_ledger c (Extend now key token lease) rows = fst (extend_lease now key token lease rows)"
| "apply_ledger c (Finish now key token status records truncated reason) rows = fst (complete_task c now key token status records truncated reason rows)"
| "apply_ledger c (Defer now key token reason delay) rows = fst (retry_task now key token reason delay rows)"

definition ledger_step :: "ledger_config \<Rightarrow> ledger_row list \<Rightarrow> ledger_row list \<Rightarrow> bool" where
  "ledger_step c rows rows' = (\<exists>op. rows' = apply_ledger c op rows)"

definition ledger_ok :: "ledger_row list \<Rightarrow> bool" where
  "ledger_ok rows = distinct (map lr_key rows)"

section \<open>The outbox\<close>

datatype outbox_entry = Accepted string | Done task_state int bool "string option"

definition entry_of :: "ledger_row \<Rightarrow> outbox_entry" where
  "entry_of r = (if final_state (lr_state r) then Done (lr_state r) (lr_derived_records r) (lr_derived_truncated r) (lr_derived_reason r)
     else Accepted (lr_payload r))"

definition outbox :: "ledger_row list \<Rightarrow> string \<Rightarrow> outbox_entry option" where
  "outbox rows key = map_option entry_of (fetch_where (\<lambda>r. lr_key r = key) rows)"

inductive outbox_step :: "(string \<Rightarrow> outbox_entry option) \<Rightarrow> (string \<Rightarrow> outbox_entry option) \<Rightarrow> bool" where
  accept: "m key = None \<Longrightarrow> outbox_step m (m(key \<mapsto> Accepted payload))"
| finish: "m key = Some (Accepted payload) \<Longrightarrow> outbox_step m (m(key \<mapsto> Done s n b r))"
| forget: "\<forall>key \<in> K. \<exists>s n b r. m key = Some (Done s n b r) \<Longrightarrow> outbox_step m (m |` (- K))"

inductive_cases outbox_stepE: "outbox_step m m'"

lemma fetch_upd_where:
  assumes "\<And>r. lr_key (f r) = lr_key r"
  shows "fetch_where (\<lambda>r. lr_key r = key) (upd_where P f rows) = map_option (\<lambda>r. if P r then f r else r) (fetch_where (\<lambda>r. lr_key r = key) rows)"
  using assms by (induction rows) (auto simp: upd_where_def fetch_where_def first_row_def)

lemma outbox_quiet:
  assumes "\<And>r. lr_key (f r) = lr_key r" "\<And>r. r \<in> set rows \<Longrightarrow> P r \<Longrightarrow> entry_of (f r) = entry_of r"
  shows "outbox (upd_where P f rows) = outbox rows"
proof
  fix key
  show "outbox (upd_where P f rows) key = outbox rows key"
    using fetch_where_Some [of "\<lambda>r. lr_key r = key" rows] assms
    by (cases "fetch_where (\<lambda>r. lr_key r = key) rows") (auto simp: outbox_def fetch_upd_where)
qed

lemma ledger_ok_upd: "(\<And>r. lr_key (f r) = lr_key r) \<Longrightarrow> ledger_ok rows \<Longrightarrow> ledger_ok (upd_where P f rows)"
  by (simp add: ledger_ok_def map_upd_where)

lemma fetch_row: "ledger_ok rows \<Longrightarrow> r \<in> set rows \<Longrightarrow> fetch_where (\<lambda>x. lr_key x = lr_key r) rows = Some r"
  unfolding ledger_ok_def by (rule fetch_key)

text \<open>A submission accepts a new key or changes nothing.\<close>

lemma submit_sim:
  assumes "ledger_ok rows" "submit c used now key kind eid payload rows = Inr (rows', t, b)"
  shows "ledger_ok rows' \<and> (if b then outbox rows key = None \<and> outbox rows' = (outbox rows)(key \<mapsto> Accepted payload) else rows' = rows)"
proof (cases "fetch_where (\<lambda>r. lr_key r = key) rows")
  case None
  then have b: "b" "rows' = rows @ [new_row c now key kind eid payload]" using assms(2) by (auto simp: submit_def Let_def split: if_splits)
  have new: "key \<notin> lr_key ` set rows" using None by (auto simp: fetch_where_None)
  have "fetch_where (\<lambda>r. lr_key r = k) rows' = (if k = key then Some (new_row c now key kind eid payload) else fetch_where (\<lambda>r. lr_key r = k) rows)" for k
    using None by (auto simp: b(2) fetch_where_def first_row_def new_row_def split: list.splits)
  then have "outbox rows' = (outbox rows)(key \<mapsto> Accepted payload)"
    by (auto simp: fun_eq_iff outbox_def entry_of_def new_row_def final_state_def)
  then show ?thesis using None new b assms(1) by (simp add: outbox_def ledger_ok_def new_row_def)
next
  case (Some r)
  then show ?thesis using assms by (auto simp: submit_def split: if_splits)
qed

lemma claim_whereE:
  assumes "ledger_ok rows"
  obtains "\<forall>r \<in> set rows. \<not> (sel r \<and> due_task now r)" "claim_where sel now lease token rows = (rows, None)"
  | row where "row \<in> set rows" "sel row" "due_task now row" "\<forall>r \<in> set rows. sel r \<and> due_task now r \<longrightarrow> lr_created_at row \<le> lr_created_at r"
    "claim_where sel now lease token rows = (upd_where (\<lambda>r. lr_key r = lr_key row) (lease_row now lease token) rows, Some (task_of (lease_row now lease token row)))"
proof (cases "first_row (order_limit lr_created_at 1 (filter (\<lambda>r. sel r \<and> due_task now r) rows))")
  case None
  from this have "filter (\<lambda>r. sel r \<and> due_task now r) rows = []" unfolding first_row_None One_nat_def order_limit_Nil .
  moreover have "claim_where sel now lease token rows = (rows, None)" unfolding claim_where_def None by simp
  ultimately show thesis using that(1) by (auto simp: filter_empty_conv)
next
  case (Some row)
  have row: "row \<in> set rows" "sel row" "due_task now row" using first_row_Some [OF Some] order_limit_subset by fastforce+
  have "fetch_where (\<lambda>r. lr_key r = lr_key row) (upd_where (\<lambda>r. lr_key r = lr_key row) (lease_row now lease token) rows) = Some (lease_row now lease token row)"
    by (simp add: fetch_upd_where fetch_row [OF assms row(1)] lease_row_def)
  then show thesis using that(2) [OF row] order_limit_first [OF Some] unfolding claim_where_def Some by (simp add: Let_def)
qed

lemma claim_quiet:
  assumes "ledger_ok rows"
  shows "outbox (fst (claim_where sel now lease token rows)) = outbox rows \<and> ledger_ok (fst (claim_where sel now lease token rows))"
  using assms
proof (cases rule: claim_whereE [of rows sel now lease token])
  case (2 row)
  have "entry_of (lease_row now lease token r) = entry_of r" if r: "r \<in> set rows" "lr_key r = lr_key row" for r
  proof -
    have "r = row" using key_inj [of lr_key rows r row] assms r 2(1) by (simp add: ledger_ok_def)
    then show ?thesis using 2(3) by (auto simp: due_task_def entry_of_def final_state_def lease_row_def)
  qed
  then have "outbox (upd_where (\<lambda>r. lr_key r = lr_key row) (lease_row now lease token) rows) = outbox rows"
    by (intro outbox_quiet) (simp_all add: lease_row_def)
  then show ?thesis using 2(5) assms by (simp add: ledger_ok_upd lease_row_def)
qed (use assms in simp)

lemma held_quiet:
  assumes "\<And>r. lr_key (f r) = lr_key r" "\<And>r. lr_payload (f r) = lr_payload r" "\<And>r. lr_state r = T_PROCESSING \<Longrightarrow> \<not> final_state (lr_state (f r))"
  shows "outbox (upd_where (held_by key token) f rows) = outbox rows"
  using assms by (intro outbox_quiet) (auto simp: held_by_def entry_of_def final_state_def)

text \<open>Pruning forgets finished keys only.\<close>

lemma prune_outbox:
  assumes "ledger_ok rows"
  shows "\<exists>K. (\<forall>key \<in> K. \<exists>s n b r. outbox rows key = Some (Done s n b r)) \<and> outbox (prune_completed c rows) = outbox rows |` (- K)"
proof -
  let ?old = "drop (lc_max_completed c) (sort_key (\<lambda>r. - lr_updated_at r) (filter (\<lambda>r. final_state (lr_state r)) rows))"
  let ?K = "lr_key ` set ?old"
  have old: "r \<in> set rows" "final_state (lr_state r)" if "r \<in> set ?old" for r using in_set_dropD [OF that] by auto
  have "\<exists>s n b r. outbox rows key = Some (Done s n b r)" if k: "key \<in> ?K" for key
  proof -
    obtain r where r: "r \<in> set ?old" "key = lr_key r" using k by blast
    then show ?thesis using fetch_row [OF assms old(1) [OF r(1)]] old(2) [OF r(1)] by (simp add: outbox_def entry_of_def)
  qed
  moreover have "outbox (prune_completed c rows) key = (outbox rows |` (- ?K)) key" for key
  proof -
    have "filter (\<lambda>r. lr_key r = key) (del_where (\<lambda>r. lr_key r \<in> ?K) rows) = (if key \<in> ?K then [] else filter (\<lambda>r. lr_key r = key) rows)"
      by (auto simp: del_where_def filter_empty_conv intro: filter_cong)
    then show ?thesis by (auto simp: prune_completed_def Let_def outbox_def fetch_where_def restrict_map_def first_row_def)
  qed
  ultimately show ?thesis by blast
qed

lemma held_unique:
  assumes "ledger_ok rows" "count_where (held_by key token) rows \<noteq> 0"
  shows "\<exists>r. fetch_where (\<lambda>x. lr_key x = key) rows = Some r \<and> held_by key token r"
proof -
  obtain r where r: "r \<in> set rows" "held_by key token r" using assms(2) by (auto simp: count_where_0)
  then have "lr_key r = key" by (simp add: held_by_def)
  then show ?thesis using fetch_row [OF assms(1) r(1)] r(2) by simp
qed

lemma not_held: "count_where (held_by key token) rows = 0 \<Longrightarrow> upd_where (held_by key token) f rows = rows"
  by (simp add: count_where_0 upd_where_def map_idI)

lemma finish_outbox:
  assumes "ledger_ok rows" "fetch_where (\<lambda>x. lr_key x = key) rows = Some r0" "held_by key token r0"
  shows "outbox (upd_where (held_by key token) (finish_row now (status_state status) n b reason) rows)
    = (outbox rows)(key \<mapsto> Done (status_state status) n b reason)"
proof
  fix k
  have fin: "final_state (status_state status)" by (cases status) (simp_all add: final_state_def)
  show "outbox (upd_where (held_by key token) (finish_row now (status_state status) n b reason) rows) k = ((outbox rows)(key \<mapsto> Done (status_state status) n b reason)) k"
  proof (cases "k = key")
    case True
    then show ?thesis using assms(2,3) fin by (simp add: outbox_def fetch_upd_where finish_row_def entry_of_def)
  next
    case False
    have "\<not> held_by key token r" if "fetch_where (\<lambda>x. lr_key x = k) rows = Some r" for r
      using fetch_where_Some [OF that] False by (simp add: held_by_def)
    then show ?thesis using False by (cases "fetch_where (\<lambda>x. lr_key x = k) rows") (auto simp: outbox_def fetch_upd_where finish_row_def)
  qed
qed

lemma ledger_ok_prune: "ledger_ok rows \<Longrightarrow> ledger_ok (prune_completed c rows)"
  by (simp add: ledger_ok_def prune_completed_def Let_def distinct_del_where)

lemma complete_sim:
  assumes "ledger_ok rows"
  shows "outbox_step\<^sup>*\<^sup>* (outbox rows) (outbox (fst (complete_task c now key token status n b reason rows)))
    \<and> ledger_ok (fst (complete_task c now key token status n b reason rows))"
proof (cases "count_where (held_by key token) rows = 0")
  case True
  then show ?thesis using assms by (simp add: complete_task_def not_held)
next
  case False
  let ?rows = "upd_where (held_by key token) (finish_row now (status_state status) n b reason) rows"
  obtain r0 where r0: "fetch_where (\<lambda>x. lr_key x = key) rows = Some r0" "held_by key token r0" using held_unique [OF assms False] by blast
  have "outbox rows key = Some (Accepted (lr_payload r0))" using r0 by (simp add: outbox_def entry_of_def held_by_def final_state_def)
  then have "outbox_step (outbox rows) (outbox ?rows)" unfolding finish_outbox [OF assms r0] by (rule outbox_step.finish)
  moreover have ok: "ledger_ok ?rows" using assms by (simp add: ledger_ok_upd finish_row_def)
  moreover have "outbox_step (outbox ?rows) (outbox (prune_completed c ?rows))"
    using prune_outbox [OF ok, of c] by (auto intro: outbox_step.forget)
  ultimately have "outbox_step\<^sup>*\<^sup>* (outbox rows) (outbox (prune_completed c ?rows))" by (meson converse_rtranclp_into_rtranclp r_into_rtranclp)
  then show ?thesis using False ok ledger_ok_prune by (simp add: complete_task_def)
qed

lemma apply_ledger_sim:
  assumes "ledger_ok rows"
  shows "outbox_step\<^sup>*\<^sup>* (outbox rows) (outbox (apply_ledger c op rows)) \<and> ledger_ok (apply_ledger c op rows)"
proof (cases op)
  case (Submit used now key kind eid payload)
  show ?thesis
  proof (cases "submit c used now key kind eid payload rows")
    case (Inr out)
    obtain rows' t b where out: "out = (rows', t, b)" by (cases out) auto
    note s = submit_sim [OF assms Inr [unfolded out]]
    have "outbox_step\<^sup>*\<^sup>* (outbox rows) (outbox rows')" using s by (cases b) (auto intro!: r_into_rtranclp outbox_step.accept)
    then show ?thesis using s Inr out Submit by simp
  qed (use assms Submit in simp)
next
  case (Finish now key token status n b reason)
  then show ?thesis using complete_sim [OF assms] by simp
next
  case (Extend now key token lease)
  then show ?thesis using assms by (simp add: extend_lease_def held_quiet final_state_def ledger_ok_upd)
next
  case (Defer now key token reason delay)
  then show ?thesis using assms by (simp add: retry_task_def held_quiet final_state_def ledger_ok_upd)
qed (use claim_quiet [OF assms] in \<open>simp_all add: claim_task_def claim_next_task_def\<close>)

interpretation ledger: forward_simulation ledger_ok "ledger_step c" outbox outbox_step
  by unfold_locales (auto simp: ledger_step_def apply_ledger_sim)

section \<open>Durability of an accepted payload\<close>

lemma outbox_forget_accepted:
  assumes "outbox rows key = Some (Accepted p)" "ledger_ok rows"
  shows "outbox (prune_completed c rows) key = Some (Accepted p)"
proof -
  obtain K where K: "\<forall>k \<in> K. \<exists>s n b r. outbox rows k = Some (Done s n b r)" "outbox (prune_completed c rows) = outbox rows |` (- K)"
    using prune_outbox [OF assms(2)] by blast
  have "key \<notin> K" using K(1) assms(1) by force
  then show ?thesis using K(2) assms(1) by simp
qed

lemma accepted_stays:
  assumes ok: "ledger_ok rows" and acc: "outbox rows key = Some (Accepted p)"
  shows "outbox (apply_ledger c op rows) key = Some (Accepted p)
    \<or> (\<exists>now token status n b reason. op = Finish now key token status n b reason \<and> count_where (held_by key token) rows \<noteq> 0)"
proof (cases op)
  case (Submit used now k kind eid payload)
  show ?thesis
  proof (cases "submit c used now k kind eid payload rows")
    case (Inr out)
    obtain rows' t b where out: "out = (rows', t, b)" by (cases out) auto
    have "k \<noteq> key" if b using submit_sim [OF ok Inr [unfolded out]] acc that by auto
    then show ?thesis using submit_sim [OF ok Inr [unfolded out]] acc Submit Inr out by (cases b) auto
  qed (use acc Submit in simp)
next
  case (Finish now k token status n b reason)
  show ?thesis
  proof (cases "count_where (held_by k token) rows = 0")
    case True
    then show ?thesis using acc Finish by (simp add: complete_task_def not_held)
  next
    case False
    let ?rows = "upd_where (held_by k token) (finish_row now (status_state status) n b reason) rows"
    obtain r0 where r0: "fetch_where (\<lambda>x. lr_key x = k) rows = Some r0" "held_by k token r0" using held_unique [OF ok False] by blast
    have okr: "ledger_ok ?rows" using ok by (simp add: ledger_ok_upd finish_row_def)
    show ?thesis
    proof (cases "k = key")
      case True
      then show ?thesis using False Finish by blast
    next
      case ne: False
      then have "outbox ?rows key = Some (Accepted p)" using acc by (simp add: finish_outbox [OF ok r0])
      then show ?thesis using outbox_forget_accepted [OF _ okr] Finish False by (simp add: complete_task_def)
    qed
  qed
next
  case (Extend now k token lease)
  then show ?thesis using acc by (simp add: extend_lease_def held_quiet final_state_def)
next
  case (Defer now k token reason delay)
  then show ?thesis using acc by (simp add: retry_task_def held_quiet final_state_def)
qed (use claim_quiet [OF ok] acc in \<open>simp_all add: claim_task_def claim_next_task_def\<close>)

section \<open>Fencing\<close>

fun draws :: "ledger_op \<Rightarrow> string option" where
  "draws (Claim_key key now lease token) = Some token"
| "draws (Claim_any now lease token) = Some token"
| "draws _ = None"

definition token_free :: "string \<Rightarrow> string \<Rightarrow> ledger_row list \<Rightarrow> bool" where
  "token_free key token rows = (\<forall>r \<in> set rows. lr_key r = key \<longrightarrow> lr_lease_token r \<noteq> Some token)"

lemma token_free_upd:
  assumes "token_free key token rows" "\<And>r. lr_key (f r) = lr_key r" "\<And>r. lr_lease_token (f r) = lr_lease_token r \<or> lr_lease_token (f r) \<noteq> Some token"
  shows "token_free key token (upd_where P f rows)"
  unfolding token_free_def
proof (intro ballI impI)
  fix x assume "x \<in> set (upd_where P f rows)" "lr_key x = key"
  then show "lr_lease_token x \<noteq> Some token" using assms by (elim upd_whereE) (auto simp: token_free_def, metis)
qed

lemma token_free_claim:
  assumes "ledger_ok rows" "token_free key t rows" "token \<noteq> t"
  shows "token_free key t (fst (claim_where sel now lease token rows))"
  using assms(1)
proof (cases rule: claim_whereE [of rows sel now lease token])
  case (2 row)
  then show ?thesis using assms token_free_upd [OF assms(2), of "lease_row now lease token"] by (simp add: lease_row_def)
qed (use assms in simp)

lemma token_free_apply:
  assumes "ledger_ok rows" "token_free key t rows" "draws op \<noteq> Some t"
  shows "token_free key t (apply_ledger c op rows)"
proof (cases op)
  case (Submit used now k kind eid payload)
  show ?thesis
  proof (cases "submit c used now k kind eid payload rows")
    case (Inr out)
    obtain rows' tk b where out: "out = (rows', tk, b)" by (cases out) auto
    have "rows' = rows \<or> rows' = rows @ [new_row c now k kind eid payload]"
      using Inr out by (auto simp: submit_def Let_def split: option.splits if_splits)
    then show ?thesis using assms(2) Submit Inr out by (auto simp: token_free_def new_row_def)
  qed (use assms Submit in simp)
next
  case (Finish now k token status n b reason)
  have "token_free key t (upd_where (held_by k token) (finish_row now (status_state status) n b reason) rows)"
    by (rule token_free_upd [OF assms(2)]) (simp_all add: finish_row_def)
  then show ?thesis using Finish by (auto simp: complete_task_def Let_def prune_completed_def token_free_def)
next
  case (Extend now k token lease)
  then show ?thesis by (simp add: extend_lease_def) (rule token_free_upd [OF assms(2)]; simp)
next
  case (Defer now k token reason delay)
  then show ?thesis by (simp add: retry_task_def) (rule token_free_upd [OF assms(2)]; simp)
qed (use assms token_free_claim in \<open>simp_all add: claim_task_def claim_next_task_def\<close>)

lemma token_free_run:
  "ledger_ok rows \<Longrightarrow> token_free key t rows \<Longrightarrow> \<forall>op \<in> set ops. draws op \<noteq> Some t \<Longrightarrow> token_free key t (fold (apply_ledger c) ops rows)"
proof (induction ops arbitrary: rows)
  case (Cons op ops)
  then show ?case using apply_ledger_sim token_free_apply by simp
qed simp

lemma token_free_count: "token_free key t rows \<Longrightarrow> count_where (held_by key t) rows = 0"
  by (auto simp: token_free_def count_where_0 held_by_def)

section \<open>Retention\<close>

definition final_rows :: "ledger_row list \<Rightarrow> ledger_row list" where
  "final_rows rows = filter (\<lambda>r. final_state (lr_state r)) rows"

lemma prune_final:
  assumes "ledger_ok rows"
  shows "set (final_rows (prune_completed c rows)) = set (take (lc_max_completed c) (sort_key (\<lambda>r. - lr_updated_at r) (final_rows rows)))"
proof -
  let ?s = "sort_key (\<lambda>r. - lr_updated_at r) (final_rows rows)" and ?n = "lc_max_completed c"
  have "distinct (map lr_key (final_rows rows))" using assms by (simp add: ledger_ok_def final_rows_def distinct_map_filter)
  then have d: "distinct (map lr_key ?s)" by (simp add: distinct_map)
  have "distinct (map lr_key (take ?n ?s) @ map lr_key (drop ?n ?s))" using d by (simp flip: map_append)
  then have dis: "lr_key ` set (take ?n ?s) \<inter> lr_key ` set (drop ?n ?s) = {}" by simp
  have "r \<in> set (take ?n ?s) \<longleftrightarrow> r \<in> set rows \<and> final_state (lr_state r) \<and> lr_key r \<notin> lr_key ` set (drop ?n ?s)" for r
  proof -
    have "r \<in> set (take ?n ?s) \<or> r \<in> set (drop ?n ?s) \<longleftrightarrow> r \<in> set rows \<and> final_state (lr_state r)"
      unfolding Un_iff [symmetric] set_append [symmetric] append_take_drop_id by (simp add: final_rows_def)
    then show ?thesis using dis by blast
  qed
  then show ?thesis by (auto simp: final_rows_def prune_completed_def Let_def)
qed

lemma prune_bound:
  assumes "ledger_ok rows"
  shows "length (final_rows (prune_completed c rows)) \<le> lc_max_completed c"
proof -
  have "distinct (final_rows (prune_completed c rows))"
    using ledger_ok_prune [OF assms, of c] by (simp add: ledger_ok_def final_rows_def distinct_map)
  then have "length (final_rows (prune_completed c rows)) = card (set (final_rows (prune_completed c rows)))" by (simp add: distinct_card)
  also have "\<dots> \<le> lc_max_completed c" unfolding prune_final [OF assms] using card_length le_trans by (metis length_take min.cobounded2)
  finally show ?thesis .
qed

text \<open>The newest outcome survives pruning.\<close>

lemma prune_newest:
  assumes "ledger_ok rows" "r \<in> set (final_rows rows)" "\<And>x. x \<in> set (final_rows rows) \<Longrightarrow> x \<noteq> r \<Longrightarrow> lr_updated_at x < lr_updated_at r" "1 \<le> lc_max_completed c"
  shows "r \<in> set (prune_completed c rows)"
proof -
  let ?s = "sort_key (\<lambda>r. - lr_updated_at r) (final_rows rows)"
  have "r \<in> set ?s" using assms(2) by simp
  then obtain y ys where s: "?s = y # ys" by (cases ?s) auto
  have "y = r"
  proof (rule ccontr)
    assume ne: "y \<noteq> r"
    have "y \<in> set ?s" using s by simp
    then have "lr_updated_at y < lr_updated_at r" using assms(3) ne by simp
    moreover have "r \<in> set ys" using \<open>r \<in> set ?s\<close> ne s by simp
    moreover have "sorted (map (\<lambda>r. - lr_updated_at r) ?s)" by simp
    ultimately show False unfolding s by auto
  qed
  then have "r \<in> set (take (lc_max_completed c) ?s)" using s assms(4) by (cases "lc_max_completed c") auto
  then have "r \<in> set (final_rows (prune_completed c rows))" unfolding prune_final [OF assms(1)] .
  then show ?thesis by (simp add: final_rows_def)
qed

section \<open>Properties\<close>

definition example_ledger :: ledger_config where
  "example_ledger = \<lparr>lc_max_completed = 1, lc_max_bytes = 0, lc_sha256 = (\<lambda>s. s)\<rparr>"

definition example_task :: ledger_row where
  "example_task = new_row example_ledger 0 ''k'' TRACE_BATCH ''e'' ''p''"



text \<open>C28: Stale workers are fenced. After a claim hands a task to one worker, an earlier worker's token for the same task can never again extend the lease,
  commit an outcome or schedule a retry, whatever operations follow, as long as no claim draws that token anew: each attempt reports failure
  and leaves the ledger as it is.\<close>

theorem stale_token_fenced:
  assumes "ledger_ok rows" "claim_where sel now lease token rows = (rows1, Some task)" "old \<noteq> token" "\<forall>op \<in> set ops. draws op \<noteq> Some old"
    "rows2 = fold (apply_ledger c) ops rows1"
  shows "extend_lease u (lt_key task) old l rows2 = (rows2, False)
    \<and> complete_task c u (lt_key task) old status n b reason rows2 = (rows2, False)
    \<and> retry_task u (lt_key task) old err d rows2 = (rows2, False)"
proof -
  have "ledger_ok rows1 \<and> token_free (lt_key task) old rows1"
    using assms(1)
  proof (cases rule: claim_whereE [of rows sel now lease token])
    case (2 row)
    have rows1: "rows1 = upd_where (\<lambda>r. lr_key r = lr_key row) (lease_row now lease token) rows" "lt_key task = lr_key row"
      using 2(5) assms(2) by (auto simp: task_of_def lease_row_def)
    have "token_free (lr_key row) old rows1" unfolding rows1 token_free_def using assms(3) by (auto simp: lease_row_def elim!: upd_whereE)
    then show ?thesis using claim_quiet [OF assms(1), of sel now lease token] assms(2) rows1(2) by simp
  qed (use assms(2) in simp)
  then have "token_free (lt_key task) old rows2" unfolding assms(5) using token_free_run assms(4) by blast
  then have "count_where (held_by (lt_key task) old) rows2 = 0" by (rule token_free_count)
  then show ?thesis by (simp add: extend_lease_def complete_task_def retry_task_def not_held)
qed

theorem stale_token_fenced_witness:
  "retry_task 5 ''k'' ''old'' ''err'' 1 (fst (claim_next_task 0 0 ''new'' [example_task]))
     = (fst (claim_next_task 0 0 ''new'' [example_task]), False)"
proof -
  let ?t = "task_of (lease_row 0 0 ''new'' example_task)"
  have "claim_where (\<lambda>_. True) 0 0 ''new'' [example_task] = (fst (claim_next_task 0 0 ''new'' [example_task]), Some ?t)" by code_simp
  moreover have "ledger_ok [example_task]" by (simp add: ledger_ok_def)
  moreover have "lt_key ?t = ''k''" by code_simp
  ultimately show ?thesis
    using stale_token_fenced [of "[example_task]" "\<lambda>_. True" 0 0 "''new''" "fst (claim_next_task 0 0 ''new'' [example_task])" ?t "''old''" "[]" _ example_ledger 5 0 S_COMPLETE 0 False None "''err''" 1]
    by simp
qed

text \<open>A claim with the given filter hands out the task of the key.\<close>

definition hands_out :: "(ledger_row \<Rightarrow> bool) \<Rightarrow> seconds \<Rightarrow> string \<Rightarrow> ledger_row list \<Rightarrow> string \<Rightarrow> bool" where
  "hands_out sel now token rows key = (\<exists>lease t. snd (claim_where sel now lease token rows) = Some t \<and> lt_key t = key)"

lemma due_eventually: "\<not> final_state (lr_state r) \<Longrightarrow> \<exists>t0. \<forall>t \<ge> t0. due_task t r"
proof (intro exI [where x = "max (lr_next_attempt_at r) (case lr_lease_until r of None \<Rightarrow> 0 | Some u \<Rightarrow> u)"] allI impI)
  fix t assume "\<not> final_state (lr_state r)" "max (lr_next_attempt_at r) (case lr_lease_until r of None \<Rightarrow> 0 | Some u \<Rightarrow> u) \<le> t"
  then show "due_task t r" by (cases "lr_state r") (auto simp: due_task_def final_state_def)
qed

lemma lease_live:
  assumes "ledger_ok rows" "now' < float_round (now + lease)"
  shows "\<not> hands_out sel now' token' (upd_where (\<lambda>r. lr_key r = key) (lease_row now lease token) rows) key"
proof
  let ?rows = "upd_where (\<lambda>r. lr_key r = key) (lease_row now lease token) rows"
  assume "hands_out sel now' token' ?rows key"
  then obtain l t where t: "snd (claim_where sel now' l token' ?rows) = Some t" "lt_key t = key" by (auto simp: hands_out_def)
  have "ledger_ok ?rows" using assms(1) by (simp add: ledger_ok_upd lease_row_def)
  then show False
  proof (cases rule: claim_whereE [of ?rows sel now' l token'])
    case (2 row')
    have "lr_key row' = key" using t 2(5) by (auto simp: task_of_def lease_row_def)
    then have "lr_state row' = T_PROCESSING \<and> lr_lease_until row' = Some (float_round (now + lease))"
      using 2(1) by (elim upd_whereE) (auto simp: lease_row_def)
    then show False using 2(3) assms(2) by (simp add: due_task_def)
  qed (use t in simp)
qed

text \<open>Claims. The background worker gets a task exactly when one is due; it is a due task created no later than any other, read back as it was handed out with
  one more attempt, and until its lease ends no claim, general or for its key, hands it out again. No accepted task is stuck: from
  some time on it is due, whatever its state.\<close>

theorem claim_next_task_correct:
  assumes "ledger_ok rows" "claim_next_task now lease token rows = (rows', res)"
  shows "(res = None \<longleftrightarrow> (\<forall>r \<in> set rows. \<not> due_task now r))
    \<and> (\<forall>task. res = Some task \<longrightarrow> (\<exists>row \<in> set rows. due_task now row \<and> (\<forall>r \<in> set rows. due_task now r \<longrightarrow> lr_created_at row \<le> lr_created_at r)
        \<and> lt_key task = lr_key row \<and> lt_payload task = lr_payload row \<and> lt_attempts task = lr_attempts row + 1
        \<and> get_task (lr_key row) rows' = Some task
        \<and> (\<forall>now' sel token'. now' < float_round (now + lease) \<longrightarrow> \<not> hands_out sel now' token' rows' (lr_key row))))
    \<and> (\<forall>r \<in> set rows. \<not> final_state (lr_state r) \<longrightarrow> (\<exists>t0. \<forall>t \<ge> t0. due_task t r))"
  using assms(1)
proof (cases rule: claim_whereE [of rows "\<lambda>_. True" now lease token])
  case 1
  then show ?thesis using assms(2) due_eventually by (simp add: claim_next_task_def)
next
  case (2 row)
  have res: "rows' = upd_where (\<lambda>r. lr_key r = lr_key row) (lease_row now lease token) rows" "res = Some (task_of (lease_row now lease token row))"
    using 2(5) assms(2) by (auto simp: claim_next_task_def)
  have "get_task (lr_key row) rows' = res"
    using fetch_row [OF assms(1) 2(1)] unfolding res get_task_def by (subst fetch_upd_where) (simp_all add: lease_row_def)
  moreover have "\<forall>now' sel token'. now' < float_round (now + lease) \<longrightarrow> \<not> hands_out sel now' token' rows' (lr_key row)"
    unfolding res using lease_live [OF assms(1)] by blast
  moreover have "lt_key (task_of (lease_row now lease token row)) = lr_key row" "lt_payload (task_of (lease_row now lease token row)) = lr_payload row"
    "lt_attempts (task_of (lease_row now lease token row)) = lr_attempts row + 1" by (simp_all add: task_of_def lease_row_def)
  ultimately have "\<forall>task. res = Some task \<longrightarrow> (\<exists>row \<in> set rows. due_task now row \<and> (\<forall>r \<in> set rows. due_task now r \<longrightarrow> lr_created_at row \<le> lr_created_at r)
        \<and> lt_key task = lr_key row \<and> lt_payload task = lr_payload row \<and> lt_attempts task = lr_attempts row + 1
        \<and> get_task (lr_key row) rows' = Some task
        \<and> (\<forall>now' sel token'. now' < float_round (now + lease) \<longrightarrow> \<not> hands_out sel now' token' rows' (lr_key row)))"
    using 2(1,3,4) res(2) by auto
  moreover have "res = None \<longleftrightarrow> (\<forall>r \<in> set rows. \<not> due_task now r)" using res(2) 2(1,3) by auto
  ultimately show ?thesis using due_eventually by blast
qed

theorem claim_next_task_correct_witness:
  "get_task ''k'' (fst (claim_next_task 0 0 ''new'' [example_task])) = snd (claim_next_task 0 0 ''new'' [example_task])"
proof -
  let ?t = "task_of (lease_row 0 0 ''new'' example_task)"
  have c: "claim_next_task 0 0 ''new'' [example_task] = (fst (claim_next_task 0 0 ''new'' [example_task]), Some ?t)" by code_simp
  have "ledger_ok [example_task]" by (simp add: ledger_ok_def)
  from claim_next_task_correct [OF this c] have "get_task (lr_key example_task) (fst (claim_next_task 0 0 ''new'' [example_task])) = Some ?t" by simp
  moreover have "lr_key example_task = ''k''" by (simp add: example_task_def new_row_def)
  ultimately show ?thesis by (metis c snd_conv)
qed

lemma completed_replay:
  assumes "ledger_ok rows" "complete_task c now key token status n b reason rows = (rows', True)" "1 \<le> lc_max_completed c"
    "\<forall>r \<in> set (final_rows rows). lr_updated_at r < now"
  shows "(\<exists>task. submit c used u key kind eid payload rows' = Inr (rows', task, False)
      \<and> lt_state task = status_state status \<and> lt_derived_records task = n \<and> lt_derived_truncated task = b \<and> lt_derived_reason task = truthy reason)
    \<and> length (final_rows rows') \<le> lc_max_completed c"
proof -
  let ?f = "finish_row now (status_state status) n b reason"
  let ?rows = "upd_where (held_by key token) ?f rows"
  have fin: "final_state (status_state status)" by (cases status) (simp_all add: final_state_def)
  have held: "count_where (held_by key token) rows = 1" and rows': "rows' = prune_completed c ?rows" using assms(2) by (auto simp: complete_task_def Let_def)
  obtain r0 where r0: "fetch_where (\<lambda>x. lr_key x = key) rows = Some r0" "held_by key token r0" using held_unique [OF assms(1), of key token] unfolding held by auto
  have ok: "ledger_ok ?rows" using assms(1) by (simp add: ledger_ok_upd finish_row_def)
  have mem: "?f r0 \<in> set (final_rows ?rows)"
    using fetch_where_Some [OF r0(1)] r0(2) fin by (auto simp: final_rows_def set_upd_where finish_row_def)
  have "?f r0 \<in> set rows'"
    unfolding rows'
  proof (rule prune_newest [OF ok mem _ assms(3)])
    fix x assume x: "x \<in> set (final_rows ?rows)" "x \<noteq> ?f r0"
    then have "x \<in> set ?rows" by (simp add: final_rows_def)
    then show "lr_updated_at x < lr_updated_at (?f r0)"
    proof (cases rule: upd_whereE)
      case (1 r)
      then have "r = r0" using fetch_where_Some [OF r0(1)] key_inj [of lr_key rows r r0] assms(1) by (simp add: ledger_ok_def held_by_def)
      then show ?thesis using 1 x(2) by simp
    next
      case 2
      then have "x \<in> set (final_rows rows)" using x(1) by (simp add: final_rows_def)
      then show ?thesis using assms(4) by (simp add: finish_row_def)
    qed
  qed
  then have "fetch_where (\<lambda>r. lr_key r = lr_key (?f r0)) rows' = Some (?f r0)" by (rule fetch_row [OF ledger_ok_prune [OF ok, of c, folded rows']])
  moreover have "lr_key (?f r0) = key" using r0(2) by (simp add: finish_row_def held_by_def)
  ultimately show ?thesis using fin prune_bound [OF ok, of c] rows' by (simp add: submit_def finish_row_def task_of_def)
qed

text \<open>Outcomes are replayed within a bound. When a completion is accepted by a clock ahead of the recorded outcomes, a later submission of the same key
  with whatever payload creates nothing and returns the recorded outcome, and at most \<open>max_completed\<close> outcomes are retained.\<close>

theorem outcome_replayed:
  assumes "ledger_ok rows" "complete_task c now key token status n b reason rows = (rows', True)" "1 \<le> lc_max_completed c"
    "\<forall>r \<in> set (final_rows rows). lr_updated_at r < now"
  shows "(\<exists>task. submit c used u key kind eid payload rows' = Inr (rows', task, False)
      \<and> lt_state task = status_state status \<and> lt_derived_records task = n \<and> lt_derived_truncated task = b \<and> lt_derived_reason task = truthy reason)
    \<and> length (final_rows rows') \<le> lc_max_completed c"
  using assms by (rule completed_replay)

theorem outcome_replayed_witness:
  "\<exists>task. submit example_ledger 0 9 ''k'' TRACE_BATCH ''e'' ''other'' (fst (complete_task example_ledger 7 ''k'' ''new'' S_PARTIAL 3 True None (fst (claim_next_task 0 0 ''new'' [example_task]))))
     = Inr (fst (complete_task example_ledger 7 ''k'' ''new'' S_PARTIAL 3 True None (fst (claim_next_task 0 0 ''new'' [example_task]))), task, False) \<and> lt_state task = T_PARTIAL"
proof -
  let ?rows = "fst (claim_next_task 0 0 ''new'' [example_task])"
  have "ledger_ok ?rows" "\<forall>r \<in> set (final_rows ?rows). lr_updated_at r < 7" "1 \<le> lc_max_completed example_ledger" by code_simp+
  moreover have "snd (complete_task example_ledger 7 ''k'' ''new'' S_PARTIAL 3 True None ?rows)" by code_simp
  then have "complete_task example_ledger 7 ''k'' ''new'' S_PARTIAL 3 True None ?rows = (fst (complete_task example_ledger 7 ''k'' ''new'' S_PARTIAL 3 True None ?rows), True)"
    by (metis prod.collapse)
  ultimately show ?thesis using outcome_replayed [of ?rows example_ledger 7 "''k''" "''new''" S_PARTIAL 3 True None] by fastforce
qed

text \<open>The lineage query mixes envelopes. SQLite's \<open>LIKE\<close> ignores case, so the chunks of the envelope \<open>ab\<close> are returned as chunks of the different
  envelope \<open>AB\<close>, although no task of \<open>AB\<close> exists; the keys of the two are different rows of the ledger.\<close>

theorem lineage_ignores_case:
  "(let r = new_row example_ledger 0 (base_key TRACE_BATCH ''legacy'' ''ab::chunk-2-of-2'') TRACE_BATCH ''ab::chunk-2-of-2'' ''p'' in
     lineage TRACE_BATCH ''legacy'' ''AB'' [r] = [task_of r] \<and> get_task (base_key TRACE_BATCH ''legacy'' ''AB::chunk-2-of-2'') [r] = None)"
  by code_simp

end
