(* ===== verification/Telemetry_Chunks.thy ===== *)
theory Telemetry_Chunks
  imports Correlate_Limits
begin

text \<open>
  Splitting of aggregate telemetry before it is forwarded, \<open>form/telemetry_chunks.py\<close>: the greedy packer under a count and a byte budget,
  the lineage identifiers of the chunks, and the two envelopes. Both \<open>split_asset_report\<close> and \<open>split_trace_batch\<close> run the same packer, the first
  on two streams and the second on three; a packer state is the list of finished chunks, the streams of the open one and its size.
  The serialiser is a parameter: the bytes of an item, and of the header without identifier, counts and items (\<open>json_sizes\<close>). What it does
  with a string and a list is written out: \<open>json_len\<close> escapes as JSON does and encodes in UTF-8, a list has one comma between two items.
  Validation of a chunk checks what chunking can change, the identifier and the list lengths; items are validated before and keep their value.
\<close>

section \<open>Packing\<close>

definition MAX_ENVELOPE_ITEMS :: nat where "MAX_ENVELOPE_ITEMS = 4096"
definition MAX_THREAT_MATCHES :: nat where "MAX_THREAT_MATCHES = 64"

record 'i packer =
  packed :: "'i list list list"
  streams :: "'i list list"
  current_bytes :: nat

definition flush :: "nat \<Rightarrow> 'i packer \<Rightarrow> 'i packer" where
  "flush empty_bytes p =
     (if list_ex (\<lambda>s. s \<noteq> []) (streams p)
      then p\<lparr>packed := packed p @ [streams p], streams := map (\<lambda>_. []) (streams p), current_bytes := empty_bytes\<rparr>
      else p)"

definition separator :: "'i list \<Rightarrow> nat" where
  "separator s = (if s = [] then 0 else 1)"

definition put_item :: "nat \<Rightarrow> ('i \<Rightarrow> nat) \<Rightarrow> nat \<Rightarrow> nat \<Rightarrow> 'i \<Rightarrow> 'i packer \<Rightarrow> 'i packer result" where
  "put_item max_bytes size_of k sep item p =
     (if max_bytes < current_bytes p + sep + size_of item then Inl ValueError
      else Inr (p\<lparr>streams := (streams p)[k := streams p ! k @ [item]], current_bytes := current_bytes p + sep + size_of item\<rparr>))"

definition add_item :: "nat \<Rightarrow> nat \<Rightarrow> ('i \<Rightarrow> nat) \<Rightarrow> nat \<Rightarrow> 'i \<Rightarrow> 'i packer \<Rightarrow> 'i packer result" where
  "add_item max_bytes empty_bytes size_of k item p =
     (let target = streams p ! k; sep = separator target in
      if MAX_ENVELOPE_ITEMS \<le> length target \<or> max_bytes < current_bytes p + sep + size_of item
      then put_item max_bytes size_of k 0 item (flush empty_bytes p)
      else put_item max_bytes size_of k sep item p)"

fun add_streams :: "nat \<Rightarrow> nat \<Rightarrow> ('i \<Rightarrow> nat) \<Rightarrow> nat \<Rightarrow> 'i list list \<Rightarrow> 'i packer \<Rightarrow> 'i packer result" where
  "add_streams max_bytes empty_bytes size_of k [] p = Inr p"
| "add_streams max_bytes empty_bytes size_of k (items # rest) p =
     rbind (rfold (add_item max_bytes empty_bytes size_of k) items p) (add_streams max_bytes empty_bytes size_of (Suc k) rest)"

definition pack :: "nat \<Rightarrow> nat \<Rightarrow> ('i \<Rightarrow> nat) \<Rightarrow> 'i list list \<Rightarrow> 'i list list list result" where
  "pack max_bytes empty_bytes size_of inputs =
     rbind (add_streams max_bytes empty_bytes size_of 0 inputs \<lparr>packed = [], streams = map (\<lambda>_. []) inputs, current_bytes = empty_bytes\<rparr>) (\<lambda>p.
       let ps = packed (flush empty_bytes p) in Inr (if ps = [] then [map (\<lambda>_. []) inputs] else ps))"

section \<open>Identifiers\<close>

definition MAX_CORRELATION_ID_CHARS :: nat where "MAX_CORRELATION_ID_CHARS = 256"
definition HASH_LABEL :: string where "HASH_LABEL = ''~sha256:''"
definition LINEAGE_SUFFIX_RESERVE :: nat where "LINEAGE_SUFFIX_RESERVE = 40"

definition bounded_correlation_id :: "(string \<Rightarrow> string) \<Rightarrow> string \<Rightarrow> string" where
  "bounded_correlation_id sha v =
     (if length v \<le> MAX_CORRELATION_ID_CHARS then v
      else take (MAX_CORRELATION_ID_CHARS - length HASH_LABEL - length (sha v)) v @ HASH_LABEL @ sha v)"

definition child_id :: "(string \<Rightarrow> string) \<Rightarrow> string \<Rightarrow> string \<Rightarrow> nat \<Rightarrow> nat \<Rightarrow> string" where
  "child_id sha original kind index n = bounded_correlation_id sha (original @ ''::'' @ kind @ ''-'' @ nat_str index @ ''-of-'' @ nat_str n)"

definition lineage_root :: "(string \<Rightarrow> string) \<Rightarrow> string \<Rightarrow> string" where
  "lineage_root sha original =
     (if length original \<le> MAX_CORRELATION_ID_CHARS - LINEAGE_SUFFIX_RESERVE then original
      else take (MAX_CORRELATION_ID_CHARS - LINEAGE_SUFFIX_RESERVE - length HASH_LABEL - length (sha original)) original @ HASH_LABEL @ sha original)"

definition lineage_child :: "string \<Rightarrow> string \<Rightarrow> nat \<Rightarrow> nat \<Rightarrow> string result" where
  "lineage_child base kind index n =
     (let v = base @ ''::'' @ kind @ ''-'' @ nat_str index @ ''-of-'' @ nat_str n in
      if MAX_CORRELATION_ID_CHARS < length v then Inl RuntimeError else Inr v)"

definition chunk_root :: "(string \<Rightarrow> string) \<Rightarrow> string \<Rightarrow> nat \<Rightarrow> string" where
  "chunk_root sha original n = (if 1 < n then lineage_root sha original else original)"

definition chunk_id :: "string \<Rightarrow> nat \<Rightarrow> nat \<Rightarrow> string result" where
  "chunk_id base index n = (if index = 1 then Inr base else lineage_child base ''chunk'' index n)"

section \<open>Serialised sizes\<close>

definition json_char_len :: "char \<Rightarrow> nat" where
  "json_char_len c = (let n = code c in
     if n = 34 \<or> n = 92 \<or> n = 8 \<or> n = 9 \<or> n = 10 \<or> n = 12 \<or> n = 13 then 2 else if n < 32 then 6 else if 128 \<le> n then 2 else 1)"

definition json_len :: "string \<Rightarrow> nat" where
  "json_len s = 2 + sum_list (map json_char_len s)"

definition stream_len :: "('i \<Rightarrow> nat) \<Rightarrow> 'i list \<Rightarrow> nat" where
  "stream_len size_of s = sum_list (map size_of s) + (length s - 1)"

section \<open>Asset reports\<close>

datatype detector_kind = OSV | DEBIAN_TRACKER | DEFENDER | MALWARE | POSTURE | SECRET
datatype detector_run_status = RunComplete | RunPartial | RunFailed

record detector_run =
  run_detector :: detector_kind
  run_status :: detector_run_status
  run_finding_count :: nat
  run_reason :: "string option"

record 'v finding =
  fi_source :: string
  fi_fields :: 'v

record ('h, 'a, 'v) chunk_report =
  cp_report_id :: string
  cp_header :: 'h
  cp_assets :: "'a list"
  cp_vulnerabilities :: "'v finding list"
  cp_detector_runs :: "detector_run list option"

record ('h, 'a, 'v) json_sizes =
  header_bytes :: "'h \<Rightarrow> nat"
  asset_bytes :: "'a \<Rightarrow> nat"
  finding_bytes :: "'v finding \<Rightarrow> nat"
  run_bytes :: "detector_kind \<Rightarrow> detector_run_status \<Rightarrow> string option \<Rightarrow> nat"

definition runs_len :: "('h, 'a, 'v) json_sizes \<Rightarrow> detector_run list option \<Rightarrow> nat" where
  "runs_len z rs = (case rs of None \<Rightarrow> 4 | Some xs \<Rightarrow>
     2 + stream_len (\<lambda>x. run_bytes z (run_detector x) (run_status x) (run_reason x) + length (nat_str (run_finding_count x))) xs)"

definition report_len :: "('h, 'a, 'v) json_sizes \<Rightarrow> ('h, 'a, 'v) chunk_report \<Rightarrow> nat" where
  "report_len z r = header_bytes z (cp_header r) + json_len (cp_report_id r) + runs_len z (cp_detector_runs r)
     + stream_len (asset_bytes z) (cp_assets r) + stream_len (finding_bytes z) (cp_vulnerabilities r)"

datatype ('a, 'v) report_item = Asset_item 'a | Finding_item "'v finding"

fun item_bytes :: "('h, 'a, 'v) json_sizes \<Rightarrow> ('a, 'v) report_item \<Rightarrow> nat" where
  "item_bytes z (Asset_item x) = asset_bytes z x"
| "item_bytes z (Finding_item v) = finding_bytes z v"

definition assets_of :: "('a, 'v) report_item list \<Rightarrow> 'a list" where
  "assets_of s = concat (map (\<lambda>x. case x of Asset_item y \<Rightarrow> [y] | Finding_item _ \<Rightarrow> []) s)"

definition findings_of :: "('a, 'v) report_item list \<Rightarrow> 'v finding list" where
  "findings_of s = concat (map (\<lambda>x. case x of Asset_item _ \<Rightarrow> [] | Finding_item y \<Rightarrow> [y]) s)"

fun source_by_detector :: "detector_kind \<Rightarrow> string list" where
  "source_by_detector DEFENDER = [''microsoft-defender'', ''microsoft-defender-event'']"
| "source_by_detector MALWARE = [''kcatta-malware'', ''clamav'']"
| "source_by_detector POSTURE = [''posture'']"
| "source_by_detector SECRET = [''secret'']"
| "source_by_detector OSV = []"
| "source_by_detector DEBIAN_TRACKER = []"

definition finding_count :: "detector_kind \<Rightarrow> 'v finding list \<Rightarrow> nat" where
  "finding_count d vs = length (filter (\<lambda>v. fi_source v \<in> set (source_by_detector d)) vs)"

definition recount :: "'v finding list \<Rightarrow> detector_run \<Rightarrow> detector_run" where
  "recount vs run = run\<lparr>run_finding_count := finding_count (run_detector run) vs\<rparr>"

definition validate_envelope :: "string \<Rightarrow> nat list \<Rightarrow> string result" where
  "validate_envelope i lens = (let t = strip i in
     if length t \<le> MAX_CORRELATION_ID_CHARS \<and> list_all (\<lambda>l. l \<le> MAX_ENVELOPE_ITEMS) lens then Inr t else Inl ValidationError)"

definition report_chunk :: "('h, 'a, 'v) json_sizes \<Rightarrow> nat \<Rightarrow> ('h, 'a, 'v) chunk_report \<Rightarrow> string \<Rightarrow> nat \<Rightarrow> nat \<times> ('a, 'v) report_item list list
    \<Rightarrow> ('h, 'a, 'v) chunk_report result" where
  "report_chunk z limit r base n ic =
     rbind (chunk_id base (fst ic) n) (\<lambda>i.
       let xs = assets_of (snd ic ! 0); vs = findings_of (snd ic ! 1) in
       rbind (validate_envelope i [length xs, length vs]) (\<lambda>t.
         let r' = r\<lparr>cp_report_id := t, cp_assets := xs, cp_vulnerabilities := vs,
                    cp_detector_runs := map_option (map (recount vs)) (cp_detector_runs r)\<rparr> in
         if limit < report_len z r' then Inl RuntimeError else Inr r'))"

definition sizing_report :: "('h, 'a, 'v) chunk_report \<Rightarrow> ('h, 'a, 'v) chunk_report" where
  "sizing_report r = r\<lparr>cp_report_id := replicate MAX_CORRELATION_ID_CHARS (CHR ''x''), cp_assets := [], cp_vulnerabilities := []\<rparr>"

definition split_asset_report :: "(string \<Rightarrow> string) \<Rightarrow> ('h, 'a, 'v) json_sizes \<Rightarrow> int \<Rightarrow> ('h, 'a, 'v) chunk_report \<Rightarrow> ('h, 'a, 'v) chunk_report list result" where
  "split_asset_report sha z max_bytes r =
     (if max_bytes \<le> 0 then Inl ValueError
      else let limit = nat max_bytes; empty_bytes = report_len z (sizing_report r) in
        if limit < empty_bytes then Inl ValueError
        else rbind (pack limit empty_bytes (item_bytes z) [map Asset_item (cp_assets r), map Finding_item (cp_vulnerabilities r)]) (\<lambda>cs.
          rmap_list (report_chunk z limit r (chunk_root sha (cp_report_id r) (length cs)) (length cs)) (enumerate 1 cs)))"

section \<open>Trace batches\<close>

record ('h, 'i) chunk_batch =
  cb_batch_id :: string
  cb_header :: 'h
  cb_events :: "'i list"
  cb_file_events :: "'i list"
  cb_process_events :: "'i list"

definition batch_len :: "('h \<Rightarrow> nat) \<Rightarrow> ('i \<Rightarrow> nat) \<Rightarrow> ('h, 'i) chunk_batch \<Rightarrow> nat" where
  "batch_len header size_of b = header (cb_header b) + json_len (cb_batch_id b)
     + stream_len size_of (cb_events b) + stream_len size_of (cb_file_events b) + stream_len size_of (cb_process_events b)"

definition batch_chunk :: "('h \<Rightarrow> nat) \<Rightarrow> ('i \<Rightarrow> nat) \<Rightarrow> nat \<Rightarrow> ('h, 'i) chunk_batch \<Rightarrow> string \<Rightarrow> nat \<Rightarrow> nat \<times> 'i list list \<Rightarrow> ('h, 'i) chunk_batch result" where
  "batch_chunk header size_of limit b base n ic =
     rbind (chunk_id base (fst ic) n) (\<lambda>i.
       rbind (validate_envelope i (map length (snd ic))) (\<lambda>t.
         let b' = b\<lparr>cb_batch_id := t, cb_events := snd ic ! 0, cb_file_events := snd ic ! 1, cb_process_events := snd ic ! 2\<rparr> in
         if limit < batch_len header size_of b' then Inl RuntimeError else Inr b'))"

definition sizing_batch :: "('h, 'i) chunk_batch \<Rightarrow> ('h, 'i) chunk_batch" where
  "sizing_batch b = b\<lparr>cb_batch_id := replicate MAX_CORRELATION_ID_CHARS (CHR ''x''), cb_events := [], cb_file_events := [], cb_process_events := []\<rparr>"

definition split_trace_batch :: "(string \<Rightarrow> string) \<Rightarrow> ('h \<Rightarrow> nat) \<Rightarrow> ('i \<Rightarrow> nat) \<Rightarrow> int \<Rightarrow> ('h, 'i) chunk_batch \<Rightarrow> ('h, 'i) chunk_batch list result" where
  "split_trace_batch sha header size_of max_bytes b =
     (if max_bytes \<le> 0 then Inl ValueError
      else let limit = nat max_bytes; empty_bytes = batch_len header size_of (sizing_batch b) in
        if limit < empty_bytes then Inl ValueError
        else rbind (pack limit empty_bytes size_of [cb_events b, cb_file_events b, cb_process_events b]) (\<lambda>cs.
          rmap_list (batch_chunk header size_of limit b (chunk_root sha (cb_batch_id b) (length cs)) (length cs)) (enumerate 1 cs)))"

section \<open>Threat matches of one event\<close>

text \<open>A decoded JSON event: an object with an identifier and its matches, each possibly of the wrong shape, and its other fields.\<close>

datatype 'm raw_matches = Match_list "'m list" | Not_a_list

datatype ('m, 'f) raw_event = Raw_object "string option" "'m raw_matches" 'f | Not_an_object

definition match_chunks :: "'m list \<Rightarrow> nat" where
  "match_chunks ms = max 1 ((length ms + MAX_THREAT_MATCHES - 1) div MAX_THREAT_MATCHES)"

fun expand_threat_matches :: "(string \<Rightarrow> string) \<Rightarrow> (string option \<Rightarrow> 'm list \<Rightarrow> 'f \<Rightarrow> 'e result) \<Rightarrow> ('m, 'f) raw_event \<Rightarrow> 'e list result" where
  "expand_threat_matches sha validate Not_an_object = Inl ValueError"
| "expand_threat_matches sha validate (Raw_object tid Not_a_list fs) = Inl ValueError"
| "expand_threat_matches sha validate (Raw_object tid (Match_list ms) fs) =
     (let n = match_chunks ms in
      rmap_list (\<lambda>index. validate (if 1 < n then Some (child_id sha (case tid of None \<Rightarrow> [] | Some t \<Rightarrow> t) ''matches'' (index + 1) n) else tid)
        (take MAX_THREAT_MATCHES (drop (index * MAX_THREAT_MATCHES) ms)) fs) [0..<n])"

section \<open>Laws of the packer\<close>

definition open_bytes :: "('i \<Rightarrow> nat) \<Rightarrow> nat \<Rightarrow> 'i list list \<Rightarrow> nat" where
  "open_bytes size_of empty_bytes ss = empty_bytes + sum_list (map (stream_len size_of) ss)"

definition in_budget :: "nat \<Rightarrow> nat \<Rightarrow> ('i \<Rightarrow> nat) \<Rightarrow> nat \<Rightarrow> 'i list list \<Rightarrow> bool" where
  "in_budget max_bytes empty_bytes size_of n ss = (length ss = n \<and> (\<forall>s \<in> set ss. length s \<le> MAX_ENVELOPE_ITEMS) \<and> open_bytes size_of empty_bytes ss \<le> max_bytes)"

definition flat :: "nat \<Rightarrow> 'i list list list \<Rightarrow> 'i list" where
  "flat k cs = concat (map (\<lambda>c. c ! k) cs)"

text \<open>The packer invariant: \<open>done\<close> is what each stream has received.\<close>

definition packing :: "nat \<Rightarrow> nat \<Rightarrow> ('i \<Rightarrow> nat) \<Rightarrow> 'i list list \<Rightarrow> 'i packer \<Rightarrow> bool" where
  "packing max_bytes empty_bytes size_of received p =
     (length (streams p) = length received \<and> current_bytes p = open_bytes size_of empty_bytes (streams p)
      \<and> in_budget max_bytes empty_bytes size_of (length received) (streams p)
      \<and> (\<forall>c \<in> set (packed p). in_budget max_bytes empty_bytes size_of (length received) c \<and> (\<exists>s \<in> set c. s \<noteq> []))
      \<and> (\<forall>k < length received. flat k (packed p @ [streams p]) = received ! k))"

lemma flat_append [simp]: "flat k (cs @ ds) = flat k cs @ flat k ds"
  by (simp add: flat_def)

lemma flat_simps [simp]: "flat k [] = []" "flat k (c # cs) = c ! k @ flat k cs"
  by (simp_all add: flat_def)

lemma stream_len_Nil [simp]: "stream_len size_of [] = 0"
  by (simp add: stream_len_def)

lemma stream_len_snoc: "stream_len size_of (s @ [x]) = stream_len size_of s + separator s + size_of x"
  by (cases s) (auto simp: stream_len_def separator_def)

lemma sum_list_update_stream:
  assumes "k < length ss"
  shows "sum_list (map f (ss[k := s])) + f (ss ! k) = sum_list (map f ss) + (f s :: nat)"
  using assms by (induction ss arbitrary: k) (auto simp: nth_Cons less_Suc_eq_0_disj split: nat.splits)

lemma open_bytes_put:
  assumes "k < length ss"
  shows "open_bytes size_of e (ss[k := ss ! k @ [x]]) = open_bytes size_of e ss + separator (ss ! k) + size_of x"
  using sum_list_update_stream [OF assms, of "stream_len size_of" "ss ! k @ [x]"] by (simp add: open_bytes_def stream_len_snoc)

lemma open_bytes_empty: "(\<forall>s \<in> set ss. s = []) \<Longrightarrow> open_bytes size_of e ss = e"
  by (induction ss) (auto simp: open_bytes_def)

lemma packing_flush:
  assumes "packing m e size_of rs p" "e \<le> m"
  shows "packing m e size_of rs (flush e p)" "\<forall>s \<in> set (streams (flush e p)). s = []"
proof -
  show "\<forall>s \<in> set (streams (flush e p)). s = []" by (auto simp: flush_def list_ex_iff)
  show "packing m e size_of rs (flush e p)"
  proof (cases "list_ex (\<lambda>s. s \<noteq> []) (streams p)")
    case True
    have e: "open_bytes size_of e (map (\<lambda>_. []) (streams p)) = e" by (rule open_bytes_empty) simp
    have "in_budget m e size_of (length rs) (map (\<lambda>_. []) (streams p))"
      using assms e by (auto simp: in_budget_def packing_def)
    then show ?thesis
      using assms True e by (auto simp: packing_def flush_def list_ex_iff)
  qed (use assms in \<open>simp add: flush_def\<close>)
qed

lemma packing_put:
  assumes "packing m e size_of rs p" "k < length rs" "length (streams p ! k) < MAX_ENVELOPE_ITEMS" "current_bytes p + separator (streams p ! k) + size_of x \<le> m"
  shows "\<exists>p'. put_item m size_of k (separator (streams p ! k)) x p = Inr p' \<and> packing m e size_of (rs[k := rs ! k @ [x]]) p'"
proof -
  let ?ss = "(streams p)[k := streams p ! k @ [x]]"
  let ?p = "p\<lparr>streams := ?ss, current_bytes := current_bytes p + separator (streams p ! k) + size_of x\<rparr>"
  have k: "k < length (streams p)" using assms(1,2) by (simp add: packing_def)
  have b: "open_bytes size_of e ?ss = current_bytes p + separator (streams p ! k) + size_of x"
    using open_bytes_put [OF k] assms(1) by (simp add: packing_def)
  have "length s \<le> MAX_ENVELOPE_ITEMS" if "s \<in> set ?ss" for s
    using set_update_subset_insert [of "streams p" k] that assms(1,3) by (fastforce simp: packing_def in_budget_def)
  then have "in_budget m e size_of (length rs) ?ss" using assms(1,4) b by (simp add: in_budget_def packing_def)
  moreover have "flat j (packed p @ [?ss]) = rs[k := rs ! k @ [x]] ! j" if "j < length rs" for j
    using assms(1,2) k that by (cases "j = k") (auto simp: packing_def)
  ultimately have "packing m e size_of (rs[k := rs ! k @ [x]]) ?p" using assms(1) b by (simp add: packing_def)
  then show ?thesis using assms(4) by (simp add: put_item_def)
qed

lemma packing_add:
  assumes "packing m e size_of rs p" "k < length rs" "e \<le> m"
  shows "if m < e + size_of x then add_item m e size_of k x p = Inl ValueError
    else \<exists>p'. add_item m e size_of k x p = Inr p' \<and> packing m e size_of (rs[k := rs ! k @ [x]]) p'"
proof -
  let ?full = "MAX_ENVELOPE_ITEMS \<le> length (streams p ! k) \<or> m < current_bytes p + separator (streams p ! k) + size_of x"
  have ge: "e \<le> current_bytes p" using assms(1) by (simp add: packing_def open_bytes_def)
  show ?thesis
  proof (cases ?full)
    case True
    note f = packing_flush [OF assms(1,3)]
    have k: "k < length (streams (flush e p))" using f(1) assms(2) by (simp add: packing_def)
    then have nil: "streams (flush e p) ! k = []" using f(2) by simp
    have cur: "current_bytes (flush e p) = e" using f open_bytes_empty by (metis packing_def)
    have add: "add_item m e size_of k x p = put_item m size_of k (separator (streams (flush e p) ! k)) x (flush e p)"
      using True nil by (auto simp: add_item_def Let_def separator_def)
    show ?thesis
    proof (cases "m < e + size_of x")
      case True
      then show ?thesis unfolding add by (simp add: nil separator_def put_item_def cur)
    next
      case False
      then show ?thesis unfolding add using packing_put [OF f(1) assms(2)] by (simp add: nil separator_def cur MAX_ENVELOPE_ITEMS_def)
    qed
  next
    case False
    have "\<not> m < e + size_of x" using False ge by auto
    moreover have "\<exists>p'. add_item m e size_of k x p = Inr p' \<and> packing m e size_of (rs[k := rs ! k @ [x]]) p'"
      using packing_put [OF assms(1,2)] False by (auto simp: add_item_def Let_def)
    ultimately show ?thesis by simp
  qed
qed

lemma packing_adds:
  assumes "packing m e size_of rs p" "k < length rs" "e \<le> m"
  shows "if \<exists>x \<in> set xs. m < e + size_of x then rfold (add_item m e size_of k) xs p = Inl ValueError
    else \<exists>p'. rfold (add_item m e size_of k) xs p = Inr p' \<and> packing m e size_of (rs[k := rs ! k @ xs]) p'"
  using assms
proof (induction xs arbitrary: rs p)
  case (Cons x xs)
  note step = packing_add [OF Cons.prems, of x]
  show ?case
  proof (cases "m < e + size_of x")
    case False
    then obtain p1 where p1: "add_item m e size_of k x p = Inr p1" "packing m e size_of (rs[k := rs ! k @ [x]]) p1" using step by auto
    show ?thesis using Cons.IH [OF p1(2)] Cons.prems(2,3) p1(1) False by (auto split: if_splits)
  qed (use step in simp)
qed simp

lemma packing_streams:
  assumes "packing m e size_of rs p" "k + length rest = length rs" "drop k rs = map (\<lambda>_. []) rest" "e \<le> m"
  shows "if \<exists>xs \<in> set rest. \<exists>x \<in> set xs. m < e + size_of x then add_streams m e size_of k rest p = Inl ValueError
    else \<exists>p'. add_streams m e size_of k rest p = Inr p' \<and> packing m e size_of (take k rs @ rest) p'"
  using assms
proof (induction rest arbitrary: k rs p)
  case (Cons xs rest)
  have k: "k < length rs" using Cons.prems(2) by simp
  have nil: "rs ! k = []" using Cons.prems(3) k by (metis Cons_nth_drop_Suc list.inject list.simps(9))
  note step = packing_adds [OF Cons.prems(1) k Cons.prems(4), of xs]
  show ?case
  proof (cases "\<exists>x \<in> set xs. m < e + size_of x")
    case False
    then obtain p1 where p1: "rfold (add_item m e size_of k) xs p = Inr p1" "packing m e size_of (rs[k := xs]) p1" using step nil by auto
    have d: "drop (Suc k) (rs[k := xs]) = map (\<lambda>_. []) rest" using Cons.prems(3) k by (metis Cons_nth_drop_Suc drop_update_cancel lessI list.inject list.simps(9))
    have t: "take (Suc k) (rs[k := xs]) = take k rs @ [xs]" using k by (simp add: take_Suc_conv_app_nth)
    show ?thesis using Cons.IH [OF p1(2) _ d Cons.prems(4)] Cons.prems(2) p1(1) False by (auto simp: t split: if_splits)
  qed (use step in auto)
qed simp

lemma packing_start: "e \<le> m \<Longrightarrow> packing m e size_of (map (\<lambda>_. []) xs) \<lparr>packed = [], streams = map (\<lambda>_. []) xs, current_bytes = e\<rparr>"
  by (auto simp: packing_def in_budget_def open_bytes_empty)

text \<open>The packer refuses exactly an item that does not fit an envelope of its own; otherwise it loses nothing, keeps the order of every
  stream, respects both budgets, and makes no empty chunk beside another.\<close>

lemma pack_spec:
  assumes "e \<le> m"
  shows "if \<exists>xs \<in> set inputs. \<exists>x \<in> set xs. m < e + size_of x then pack m e size_of inputs = Inl ValueError
    else \<exists>cs. pack m e size_of inputs = Inr cs \<and> cs \<noteq> [] \<and> (\<forall>c \<in> set cs. in_budget m e size_of (length inputs) c)
      \<and> (\<forall>k < length inputs. flat k cs = inputs ! k) \<and> (1 < length cs \<longrightarrow> (\<forall>c \<in> set cs. \<exists>s \<in> set c. s \<noteq> []))"
proof (cases "\<exists>xs \<in> set inputs. \<exists>x \<in> set xs. m < e + size_of x")
  case True
  then show ?thesis using packing_streams [OF packing_start [OF assms, of size_of inputs], of 0 inputs] assms by (simp add: pack_def)
next
  case False
  obtain p where p: "add_streams m e size_of 0 inputs \<lparr>packed = [], streams = map (\<lambda>_. []) inputs, current_bytes = e\<rparr> = Inr p"
    "packing m e size_of inputs p"
    using packing_streams [OF packing_start [OF assms, of size_of inputs], of 0 inputs] assms False by auto
  note f = packing_flush [OF p(2) assms]
  let ?ps = "packed (flush e p)"
  have len: "length (streams (flush e p)) = length inputs" using f(1) by (simp add: packing_def)
  have nil: "streams (flush e p) ! k = []" if "k < length inputs" for k using f(2) that len by simp
  have flat: "flat k ?ps = inputs ! k" if "k < length inputs" for k using f(1) nil [OF that] that by (auto simp: packing_def)
  show ?thesis
  proof (cases "?ps = []")
    case True
    have "in_budget m e size_of (length inputs) (map (\<lambda>_. []) inputs)" using assms by (auto simp: in_budget_def open_bytes_empty)
    moreover have "inputs ! k = []" if "k < length inputs" for k using flat [OF that] True by (simp add: flat_def)
    ultimately show ?thesis using p(1) False True by (simp add: pack_def)
  next
    case ne: False
    then show ?thesis using p(1) False flat f(1) by (auto simp: pack_def packing_def)
  qed
qed

end
