(* ===== verification/Chunk_Properties.thy ===== *)
theory Chunk_Properties
  imports Telemetry_Chunks
begin

text \<open>
  Properties of telemetry chunking: splitting is lossless and keeps every budget, chunk identifiers are distinct and valid, and the one
  place where the size estimate is too small. Identifiers are \<open>plain\<close> when JSON encodes each character in one byte.
\<close>

section \<open>Decimal numerals\<close>

lemma nat_str_value: "decimal_value (nat_str n) = int n \<and> list_all isdecimal_char (nat_str n) \<and> nat_str n \<noteq> []"
proof (induction n rule: nat_str.induct)
  case (1 n)
  have digit: "code (char_of (48 + k)) = 48 + int k" if "k < 10" for k :: nat using that by simp
  show ?case
  proof (cases "n < 10")
    case True
    then show ?thesis using digit [of n] by (subst nat_str.simps, subst (2) nat_str.simps, subst (3) nat_str.simps) (simp add: decimal_value_def isdecimal_char_def)
  next
    case False
    have m: "n mod 10 < 10" by simp
    have eq: "nat_str n = nat_str (n div 10) @ [char_of (48 + n mod 10)]" using False by (subst nat_str.simps) simp
    have "int n = int (n div 10) * 10 + int (n mod 10)" by presburger
    then show ?thesis
      using 1 [OF False] digit [OF m] unfolding eq by (simp add: decimal_value_def isdecimal_char_def)
  qed
qed

lemma nat_str_inj: "nat_str m = nat_str n \<Longrightarrow> m = n"
  using nat_str_value [of m] nat_str_value [of n] by (metis of_nat_eq_iff)

lemma length_nat_str_mono: "m \<le> n \<Longrightarrow> length (nat_str m) \<le> length (nat_str n)"
proof (induction n arbitrary: m rule: nat_str.induct)
  case (1 n)
  show ?case
  proof (cases "m < 10")
    case True
    then have "length (nat_str m) = 1" by (subst nat_str.simps) simp
    then show ?thesis using nat_str_value [of n] by (simp add: Suc_leI)
  next
    case False
    then have n: "\<not> n < 10" using 1(2) by simp
    have "length (nat_str (m div 10)) \<le> length (nat_str (n div 10))" using 1(1) [OF n, of "m div 10"] 1(2) by (simp add: div_le_mono)
    then show ?thesis using False n by (subst nat_str.simps, subst (2) nat_str.simps) simp
  qed
qed

lemma length_nat_str: "n < 10 ^ d \<Longrightarrow> 0 < d \<Longrightarrow> length (nat_str n) \<le> d"
proof (induction d arbitrary: n)
  case (Suc d)
  show ?case
  proof (cases "n < 10")
    case True
    then show ?thesis by (subst nat_str.simps) simp
  next
    case False
    then have "0 < d" using Suc.prems(1) by (cases d) auto
    moreover have "n div 10 < 10 ^ d" using Suc.prems(1) by (simp add: div_less_iff_less_mult mult.commute)
    ultimately have "length (nat_str (n div 10)) \<le> d" using Suc.IH by simp
    then show ?thesis using False by (subst nat_str.simps) simp
  qed
qed simp

section \<open>Plain identifiers\<close>

definition plain :: "string \<Rightarrow> bool" where
  "plain s = list_all (\<lambda>c. json_char_len c = 1) s"

definition plain_digest :: "(string \<Rightarrow> string) \<Rightarrow> bool" where
  "plain_digest sha = (\<forall>x. length (sha x) = 64 \<and> plain (sha x) \<and> list_all (\<lambda>c. \<not> isspace_char c) (sha x))"

lemma plain_append [simp]: "plain (s @ t) \<longleftrightarrow> plain s \<and> plain t"
  by (simp add: plain_def)

lemma plain_take: "plain s \<Longrightarrow> plain (take n s)"
  by (auto simp: plain_def list_all_iff dest: in_set_takeD)

lemma json_len_plain: "plain s \<Longrightarrow> json_len s = 2 + length s"
  by (induction s) (auto simp: plain_def json_len_def)

lemma plain_nat_str: "plain (nat_str n)"
  using nat_str_value [of n] by (auto simp: plain_def list_all_iff isdecimal_char_def json_char_len_def Let_def)

lemma strip_ends: "s \<noteq> [] \<Longrightarrow> \<not> isspace_char (hd s) \<Longrightarrow> \<not> isspace_char (last s) \<Longrightarrow> strip s = s"
proof -
  have same: "dropWhile isspace_char t = t" if "t \<noteq> []" "\<not> isspace_char (hd t)" for t using that by (cases t) auto
  assume "s \<noteq> []" "\<not> isspace_char (hd s)" "\<not> isspace_char (last s)"
  then show ?thesis by (simp add: strip_def same hd_rev)
qed

lemma strip_hd: "strip s = s \<Longrightarrow> s \<noteq> [] \<Longrightarrow> \<not> isspace_char (hd s)"
  using dropWhile_strip [of s] by (metis hd_dropWhile)

lemma last_nat_str: "\<not> isspace_char (last (nat_str n))"
proof -
  have "isdecimal_char (last (nat_str n))" using nat_str_value [of n] by (auto simp: list_all_iff)
  then show ?thesis by (auto simp: isdecimal_char_def isspace_char_def Let_def)
qed

text \<open>What a chunk identifier needs: plain, within the limit, a fixed point of validation.\<close>

definition good_id :: "string \<Rightarrow> bool" where
  "good_id s = (plain s \<and> length s \<le> MAX_CORRELATION_ID_CHARS \<and> strip s = s)"

lemma good_base:
  assumes "good_id i" "plain_digest sha"
  shows "good_id (chunk_root sha i n)" "1 < n \<Longrightarrow> length (chunk_root sha i n) \<le> 216"
proof -
  have d0: "length (sha i) = 64" "plain (sha i)" "\<forall>c \<in> set (sha i). \<not> isspace_char c" using assms(2) by (auto simp: plain_digest_def list_all_iff)
  then have "sha i \<noteq> []" by auto
  with d0 have d: "length (sha i) = 64" "plain (sha i)" "sha i \<noteq> []" "\<not> isspace_char (last (sha i))" by auto
  have long: "i \<noteq> []" if "\<not> length i \<le> 216" using that by auto
  have t: "length (take 144 i) = 144" if "\<not> length i \<le> 216" using that by simp
  show "1 < n \<Longrightarrow> length (chunk_root sha i n) \<le> 216"
    using d t by (auto simp: chunk_root_def lineage_root_def MAX_CORRELATION_ID_CHARS_def LINEAGE_SUFFIX_RESERVE_def HASH_LABEL_def)
  have "strip (take 144 i @ HASH_LABEL @ sha i) = take 144 i @ HASH_LABEL @ sha i" if l: "\<not> length i \<le> 216"
  proof (rule strip_ends)
    have "take 144 i \<noteq> []" using t [OF l] by auto
    then have "hd (take 144 i @ HASH_LABEL @ sha i) = hd i" by (simp add: hd_append)
    then show "\<not> isspace_char (hd (take 144 i @ HASH_LABEL @ sha i))" using strip_hd [OF _ long [OF l]] assms(1) by (simp add: good_id_def)
  qed (use d in \<open>simp_all add: HASH_LABEL_def\<close>)
  moreover have "plain HASH_LABEL" by (simp add: plain_def HASH_LABEL_def json_char_len_def)
  moreover have "length HASH_LABEL = 8" by (simp add: HASH_LABEL_def)
  ultimately show "good_id (chunk_root sha i n)"
    using assms(1) d by (auto simp: good_id_def chunk_root_def lineage_root_def MAX_CORRELATION_ID_CHARS_def LINEAGE_SUFFIX_RESERVE_def plain_take)
qed

lemma good_child:
  assumes "good_id base" "length base \<le> 216" "k \<le> n" "n < 10 ^ 14"
  shows "\<exists>i. chunk_id base k n = Inr i \<and> good_id i"
proof (cases "k = 1")
  case False
  let ?v = "base @ ''::'' @ ''chunk'' @ ''-'' @ nat_str k @ ''-of-'' @ nat_str n"
  have l: "length (nat_str k) \<le> 14" "length (nat_str n) \<le> 14" using assms(3,4) by (auto intro!: length_nat_str)
  have "strip ?v = ?v"
  proof (rule strip_ends)
    show "\<not> isspace_char (hd ?v)" using strip_hd [of base] assms(1) by (cases base) (auto simp: good_id_def isspace_char_def)
    show "\<not> isspace_char (last ?v)" using last_nat_str [of n] nat_str_value [of n] by simp
  qed simp
  moreover have "plain ?v" using assms(1) plain_nat_str by (simp add: good_id_def) (simp add: plain_def json_char_len_def)
  ultimately show ?thesis
    using False l assms(2) by (simp add: chunk_id_def lineage_child_def good_id_def MAX_CORRELATION_ID_CHARS_def)
qed (use assms in \<open>simp add: chunk_id_def\<close>)

lemma chunk_id_inj: "chunk_id base j n = Inr i \<Longrightarrow> chunk_id base k n = Inr i \<Longrightarrow> j = k"
  by (auto simp: chunk_id_def lineage_child_def Let_def split: if_splits dest: nat_str_inj)

section \<open>Chunks\<close>

lemma sum_length_flat: "(\<forall>c \<in> set cs. length c = n) \<Longrightarrow> (\<Sum>k<n. length (flat k cs)) = sum_list (map (\<lambda>c. sum_list (map length c)) cs)"
proof (induction cs)
  case (Cons c cs)
  have "(\<Sum>k<n. length (c ! k)) = sum_list (map length c)"
    using Cons.prems by (simp add: sum_list_sum_nth atLeast0LessThan)
  then show ?case using Cons by (simp add: sum.distrib)
qed simp

lemma chunk_number:
  assumes "\<forall>c \<in> set cs. length c = n \<and> (\<exists>s \<in> set c. s \<noteq> [])"
  shows "length cs \<le> (\<Sum>k<n. length (flat k cs))"
proof -
  have "1 \<le> sum_list (map length c)" if c: "c \<in> set cs" for c
  proof -
    obtain s where "s \<in> set c" "s \<noteq> []" using assms c by blast
    then have "1 \<le> length s" "length s \<le> sum_list (map length c)" by (auto simp: Suc_leI member_le_sum_list)
    then show ?thesis by simp
  qed
  then have "sum_list (map (\<lambda>_. 1) cs) \<le> sum_list (map (\<lambda>c. sum_list (map length c)) cs)" by (intro sum_list_mono) simp
  then show ?thesis using sum_length_flat [of cs n] assms by (simp add: sum_list_triv)
qed

text \<open>The identifiers of \<open>n\<close> chunks.\<close>

lemma chunk_ids:
  assumes "good_id i" "plain_digest sha" "n < 10 ^ 14" "k \<le> n" "0 < k"
  shows "\<exists>j. chunk_id (chunk_root sha i n) k n = Inr j \<and> good_id j"
proof (cases "1 < n")
  case True
  then show ?thesis using good_child [OF good_base(1) [OF assms(1,2)] good_base(2) [OF assms(1,2) True] assms(4,3)] by simp
next
  case False
  then have "k = 1" using assms(4,5) by simp
  then show ?thesis using good_base(1) [OF assms(1,2)] by (simp add: chunk_id_def)
qed

lemma envelope_ok: "good_id i \<Longrightarrow> list_all (\<lambda>l. l \<le> MAX_ENVELOPE_ITEMS) lens \<Longrightarrow> validate_envelope i lens = Inr i"
  by (simp add: validate_envelope_def good_id_def Let_def)

lemma sizing_id: "good_id i \<Longrightarrow> json_len i \<le> json_len (replicate MAX_CORRELATION_ID_CHARS (CHR ''x''))"
proof -
  have "plain (replicate MAX_CORRELATION_ID_CHARS (CHR ''x''))" by (simp add: plain_def list_all_iff json_char_len_def)
  moreover assume "good_id i"
  ultimately show ?thesis by (simp add: json_len_plain good_id_def)
qed

lemma assets_of_map: "(\<forall>x \<in> set s. \<exists>y. x = Asset_item y) \<Longrightarrow> map Asset_item (assets_of s) = s"
  by (induction s) (auto simp: assets_of_def)

lemma findings_of_map: "(\<forall>x \<in> set s. \<exists>y. x = Finding_item y) \<Longrightarrow> map Finding_item (findings_of s) = s"
  by (induction s) (auto simp: findings_of_def)

lemma stream_len_map: "stream_len f (map g s) = stream_len (\<lambda>x. f (g x)) s"
  by (simp add: stream_len_def comp_def)

lemma stream_len_mono: "(\<And>x. x \<in> set s \<Longrightarrow> f (h x) \<le> g x) \<Longrightarrow> stream_len f (map h s) \<le> stream_len g s"
  by (auto simp: stream_len_def intro!: sum_list_mono)

lemma runs_len_recount:
  assumes "\<And>run. run \<in> set (case rs of None \<Rightarrow> [] | Some xs \<Rightarrow> xs) \<Longrightarrow> finding_count (run_detector run) vs \<le> run_finding_count run"
  shows "runs_len z (map_option (map (recount vs)) rs) \<le> runs_len z rs"
  using assms by (cases rs) (auto simp: runs_len_def recount_def intro!: stream_len_mono length_nat_str_mono)

lemma assets_of_append [simp]: "assets_of (s @ t) = assets_of s @ assets_of t"
  by (simp add: assets_of_def)

lemma findings_of_append [simp]: "findings_of (s @ t) = findings_of s @ findings_of t"
  by (simp add: findings_of_def)

lemma assets_of_items [simp]: "assets_of (map Asset_item xs) = xs"
  by (induction xs) (auto simp: assets_of_def)

lemma findings_of_items [simp]: "findings_of (map Finding_item vs) = vs"
  by (induction vs) (auto simp: findings_of_def)

lemma concat_assets: "concat (map (\<lambda>c. assets_of (c ! k)) cs) = assets_of (flat k cs)"
  by (induction cs) (auto simp: assets_of_def)

lemma concat_findings: "concat (map (\<lambda>c. findings_of (c ! k)) cs) = findings_of (flat k cs)"
  by (induction cs) (auto simp: findings_of_def)

lemma set_flat: "c \<in> set cs \<Longrightarrow> set (c ! k) \<subseteq> set (flat k cs)"
  by (auto simp: flat_def)

lemma finding_count_chunk: "c \<in> set cs \<Longrightarrow> finding_count d (findings_of (c ! k)) \<le> finding_count d (findings_of (flat k cs))"
  by (induction cs) (auto simp: finding_count_def)

lemma list_two: "length c = 2 \<Longrightarrow> c = [c ! 0, c ! 1]"
  by (cases c; cases "tl c") auto

text \<open>One chunk of a report.\<close>

lemma report_chunk_ok:
  assumes "good_id i" "chunk_id base k n = Inr i" "in_budget m (report_len z (sizing_report r)) (item_bytes z) 2 c"
    "\<forall>x \<in> set (c ! 0). \<exists>y. x = Asset_item y" "\<forall>x \<in> set (c ! 1). \<exists>y. x = Finding_item y"
    "\<And>run. run \<in> set (case cp_detector_runs r of None \<Rightarrow> [] | Some xs \<Rightarrow> xs) \<Longrightarrow> finding_count (run_detector run) (findings_of (c ! 1)) \<le> run_finding_count run"
  defines "x \<equiv> r\<lparr>cp_report_id := i, cp_assets := assets_of (c ! 0), cp_vulnerabilities := findings_of (c ! 1),
      cp_detector_runs := map_option (map (recount (findings_of (c ! 1)))) (cp_detector_runs r)\<rparr>"
  shows "report_chunk z m r base n (k, c) = Inr x" "report_len z x \<le> m" "length (cp_assets x) \<le> MAX_ENVELOPE_ITEMS" "length (cp_vulnerabilities x) \<le> MAX_ENVELOPE_ITEMS"
proof -
  have c: "c = [c ! 0, c ! 1]" "length c = 2" using assms(3) list_two by (auto simp: in_budget_def)
  note items = assets_of_map [OF assms(4)] findings_of_map [OF assms(5)]
  have "length (c ! 0) \<le> MAX_ENVELOPE_ITEMS \<and> length (c ! 1) \<le> MAX_ENVELOPE_ITEMS" using assms(3) c(2) by (auto simp: in_budget_def)
  then show lens: "length (cp_assets x) \<le> MAX_ENVELOPE_ITEMS" "length (cp_vulnerabilities x) \<le> MAX_ENVELOPE_ITEMS"
    using arg_cong [OF items(1), of length] arg_cong [OF items(2), of length] by (simp_all add: x_def)
  have sl: "stream_len (item_bytes z) (c ! 0) = stream_len (asset_bytes z) (assets_of (c ! 0))"
    "stream_len (item_bytes z) (c ! 1) = stream_len (finding_bytes z) (findings_of (c ! 1))"
    using arg_cong [OF items(1), of "stream_len (item_bytes z)"] arg_cong [OF items(2), of "stream_len (item_bytes z)"] by (simp_all add: stream_len_map)
  have "report_len z (sizing_report r) + stream_len (item_bytes z) (c ! 0) + stream_len (item_bytes z) (c ! 1) \<le> m"
    using assms(3) arg_cong [OF c(1), of "\<lambda>c. sum_list (map (stream_len (item_bytes z)) c)"] by (simp add: in_budget_def open_bytes_def)
  moreover have "runs_len z (map_option (map (recount (findings_of (c ! 1)))) (cp_detector_runs r)) \<le> runs_len z (cp_detector_runs r)"
    by (rule runs_len_recount) (rule assms(6))
  ultimately show len: "report_len z x \<le> m"
    using sizing_id [OF assms(1)] sl by (simp add: x_def report_len_def sizing_report_def)
  have "validate_envelope i [length (assets_of (c ! 0)), length (findings_of (c ! 1))] = Inr i"
    using lens by (intro envelope_ok [OF assms(1)]) (simp add: x_def)
  then show "report_chunk z m r base n (k, c) = Inr x"
    using assms(2) len by (simp add: report_chunk_def x_def Let_def)
qed

definition chunk_facts :: "('h, 'a, 'v) json_sizes \<Rightarrow> nat \<Rightarrow> ('h, 'a, 'v) chunk_report \<Rightarrow> ('h, 'a, 'v) chunk_report \<Rightarrow> bool" where
  "chunk_facts z m r x = (cp_header x = cp_header r \<and> report_len z x \<le> m \<and> length (cp_report_id x) \<le> MAX_CORRELATION_ID_CHARS
     \<and> length (cp_assets x) \<le> MAX_ENVELOPE_ITEMS \<and> length (cp_vulnerabilities x) \<le> MAX_ENVELOPE_ITEMS
     \<and> cp_detector_runs x = map_option (map (recount (cp_vulnerabilities x))) (cp_detector_runs r))"

lemma chunk_total:
  assumes "\<forall>c \<in> set cs. length c = n" "1 < length cs \<longrightarrow> (\<forall>c \<in> set cs. \<exists>s \<in> set c. s \<noteq> [])" "(\<Sum>k<n. length (flat k cs)) < 10 ^ 14"
  shows "length cs < 10 ^ 14"
proof (cases "1 < length cs")
  case True
  then have "length cs \<le> (\<Sum>k<n. length (flat k cs))" using assms(1,2) by (intro chunk_number) simp
  then show ?thesis using assms(3) by simp
qed (use zero_less_power [of "10 :: nat" 14] in simp)

text \<open>The identifiers of all chunks.\<close>

lemma chunk_id_list:
  assumes "good_id i" "plain_digest sha" "n < 10 ^ 14"
  obtains f where "\<And>k. 0 < k \<Longrightarrow> k \<le> n \<Longrightarrow> chunk_id (chunk_root sha i n) k n = Inr (f k) \<and> good_id (f k)" "distinct (map f [1..<1 + n])"
proof -
  have "\<forall>k. \<exists>j. 0 < k \<and> k \<le> n \<longrightarrow> chunk_id (chunk_root sha i n) k n = Inr j \<and> good_id j" using chunk_ids [OF assms] by blast
  then obtain f where f: "\<forall>k. 0 < k \<and> k \<le> n \<longrightarrow> chunk_id (chunk_root sha i n) k n = Inr (f k) \<and> good_id (f k)" by metis
  have "inj_on f {1..<1 + n}" using f chunk_id_inj by (intro inj_onI) (metis Suc_leI atLeastLessThan_iff less_Suc_eq_le plus_1_eq_Suc zero_less_Suc less_le_trans One_nat_def)
  then have "distinct (map f [1..<1 + n])" by (simp only: distinct_map distinct_upt set_upt simp_thms)
  with f show thesis using that [of f] by blast
qed

lemma map_enumerate_fst: "map (\<lambda>kc. f (fst kc)) (enumerate m cs) = map f [m..<m + length cs]"
  by (induction cs arbitrary: m) (simp_all add: upt_conv_Cons del: upt_Suc)

lemma map_enumerate_snd: "map (\<lambda>kc. g (snd kc)) (enumerate m cs) = map g cs"
  by (induction cs arbitrary: m) simp_all

lemma report_chunks:
  assumes "good_id (cp_report_id r)" "plain_digest sha" "\<forall>c \<in> set cs. in_budget m (report_len z (sizing_report r)) (item_bytes z) 2 c"
    "flat 0 cs = map Asset_item (cp_assets r)" "flat 1 cs = map Finding_item (cp_vulnerabilities r)" "1 < length cs \<longrightarrow> (\<forall>c \<in> set cs. \<exists>s \<in> set c. s \<noteq> [])"
    "length (cp_assets r) + length (cp_vulnerabilities r) < 10 ^ 14"
    "\<And>run. run \<in> set (case cp_detector_runs r of None \<Rightarrow> [] | Some xs \<Rightarrow> xs) \<Longrightarrow> finding_count (run_detector run) (cp_vulnerabilities r) \<le> run_finding_count run"
  shows "\<exists>out. rmap_list (report_chunk z m r (chunk_root sha (cp_report_id r) (length cs)) (length cs)) (enumerate 1 cs) = Inr out
    \<and> map cp_assets out = map (\<lambda>c. assets_of (c ! 0)) cs \<and> map cp_vulnerabilities out = map (\<lambda>c. findings_of (c ! 1)) cs
    \<and> distinct (map cp_report_id out) \<and> (\<forall>x \<in> set out. chunk_facts z m r x)"
proof -
  let ?n = "length cs" and ?b = "chunk_root sha (cp_report_id r) (length cs)"
  have "?n < 10 ^ 14"
    by (rule chunk_total [where n = 2]) (use assms(3-7) in \<open>auto simp: in_budget_def numeral_2_eq_2\<close>)
  then obtain f where f: "\<And>k. 0 < k \<Longrightarrow> k \<le> ?n \<Longrightarrow> chunk_id ?b k ?n = Inr (f k) \<and> good_id (f k)" "distinct (map f [1..<1 + ?n])"
    using chunk_id_list [OF assms(1,2)] by metis
  let ?g = "\<lambda>(k, c). r\<lparr>cp_report_id := f k, cp_assets := assets_of (c ! 0), cp_vulnerabilities := findings_of (c ! 1),
      cp_detector_runs := map_option (map (recount (findings_of (c ! 1)))) (cp_detector_runs r)\<rparr>"
  have ok: "report_chunk z m r ?b ?n kc = Inr (?g kc) \<and> chunk_facts z m r (?g kc)" if kc: "kc \<in> set (enumerate 1 cs)" for kc
  proof -
    obtain k c where p: "kc = (k, c)" by (cases kc)
    have e: "kc = (k, c)" "0 < k" "k \<le> ?n" "c \<in> set cs" using kc by (auto simp: p in_set_enumerate_eq)
    have "finding_count (run_detector run) (findings_of (c ! 1)) \<le> run_finding_count run"
      if "run \<in> set (case cp_detector_runs r of None \<Rightarrow> [] | Some xs \<Rightarrow> xs)" for run
      using finding_count_chunk [OF e(4), of "run_detector run" 1] assms(8) [OF that] unfolding assms(5) findings_of_items by simp
    moreover have "\<forall>x \<in> set (c ! 0). \<exists>y. x = Asset_item y" "\<forall>x \<in> set (c ! 1). \<exists>y. x = Finding_item y"
      using set_flat [OF e(4), of 0] set_flat [OF e(4), of 1] unfolding assms(4,5) by auto
    ultimately show ?thesis
      using report_chunk_ok [of "f k" ?b k ?n m z r c] f(1) [OF e(2,3)] assms(3) e(1,4) by (auto simp: chunk_facts_def good_id_def)
  qed
  have "rmap_list (report_chunk z m r ?b ?n) (enumerate 1 cs) = Inr (map ?g (enumerate 1 cs))" by (rule rmap_list_Inr) (simp add: ok)
  moreover have "map cp_report_id (map ?g (enumerate 1 cs)) = map f [1..<1 + ?n]"
    using map_enumerate_fst [of f 1 cs] by (simp add: comp_def split_def del: upt_Suc)
  moreover have "map cp_assets (map ?g (enumerate 1 cs)) = map (\<lambda>c. assets_of (c ! 0)) cs" "map cp_vulnerabilities (map ?g (enumerate 1 cs)) = map (\<lambda>c. findings_of (c ! 1)) cs"
    using map_enumerate_snd [of "\<lambda>c. assets_of (c ! 0)" 1 cs] map_enumerate_snd [of "\<lambda>c. findings_of (c ! 1)" 1 cs]
    by (simp_all add: comp_def split_def)
  ultimately show ?thesis using f(2) ok by (intro exI [of _ "map ?g (enumerate 1 cs)"]) auto
qed

definition batch_facts :: "('h \<Rightarrow> nat) \<Rightarrow> ('i \<Rightarrow> nat) \<Rightarrow> nat \<Rightarrow> ('h, 'i) chunk_batch \<Rightarrow> ('h, 'i) chunk_batch \<Rightarrow> bool" where
  "batch_facts header size_of m b x = (cb_header x = cb_header b \<and> batch_len header size_of x \<le> m \<and> length (cb_batch_id x) \<le> MAX_CORRELATION_ID_CHARS
     \<and> length (cb_events x) \<le> MAX_ENVELOPE_ITEMS \<and> length (cb_file_events x) \<le> MAX_ENVELOPE_ITEMS \<and> length (cb_process_events x) \<le> MAX_ENVELOPE_ITEMS)"

lemma list_three: "length c = 3 \<Longrightarrow> c = [c ! 0, c ! 1, c ! 2]"
  by (cases c; cases "tl c"; cases "tl (tl c)") auto

lemma batch_chunk_ok:
  assumes "good_id i" "chunk_id base k n = Inr i" "in_budget m (batch_len header size_of (sizing_batch b)) size_of 3 c"
  defines "x \<equiv> b\<lparr>cb_batch_id := i, cb_events := c ! 0, cb_file_events := c ! 1, cb_process_events := c ! 2\<rparr>"
  shows "batch_chunk header size_of m b base n (k, c) = Inr x \<and> batch_facts header size_of m b x"
proof -
  have c: "c = [c ! 0, c ! 1, c ! 2]" "\<forall>s \<in> set c. length s \<le> MAX_ENVELOPE_ITEMS" using assms(3) list_three by (auto simp: in_budget_def)
  have "batch_len header size_of (sizing_batch b) + stream_len size_of (c ! 0) + stream_len size_of (c ! 1) + stream_len size_of (c ! 2) \<le> m"
    using assms(3) arg_cong [OF c(1), of "\<lambda>c. sum_list (map (stream_len size_of) c)"] by (simp add: in_budget_def open_bytes_def)
  then have len: "batch_len header size_of x \<le> m"
    using sizing_id [OF assms(1)] by (simp add: x_def batch_len_def sizing_batch_def)
  moreover have "validate_envelope i (map length c) = Inr i" using c(2) by (intro envelope_ok [OF assms(1)]) (simp add: list_all_iff)
  ultimately have "batch_chunk header size_of m b base n (k, c) = Inr x" using assms(2) by (simp add: batch_chunk_def x_def Let_def)
  moreover have "length (c ! 0) \<le> MAX_ENVELOPE_ITEMS \<and> length (c ! 1) \<le> MAX_ENVELOPE_ITEMS \<and> length (c ! 2) \<le> MAX_ENVELOPE_ITEMS"
    using c(2) by (subst (asm) c(1)) simp
  ultimately show ?thesis using len assms(1) by (simp add: batch_facts_def x_def good_id_def)
qed

lemma batch_chunks:
  assumes "good_id (cb_batch_id b)" "plain_digest sha" "\<forall>c \<in> set cs. in_budget m (batch_len header size_of (sizing_batch b)) size_of 3 c"
    "1 < length cs \<longrightarrow> (\<forall>c \<in> set cs. \<exists>s \<in> set c. s \<noteq> [])" "(\<Sum>k<3. length (flat k cs)) < 10 ^ 14"
  shows "\<exists>out. rmap_list (batch_chunk header size_of m b (chunk_root sha (cb_batch_id b) (length cs)) (length cs)) (enumerate 1 cs) = Inr out
    \<and> map cb_events out = map (\<lambda>c. c ! 0) cs \<and> map cb_file_events out = map (\<lambda>c. c ! 1) cs \<and> map cb_process_events out = map (\<lambda>c. c ! 2) cs
    \<and> distinct (map cb_batch_id out) \<and> (\<forall>x \<in> set out. batch_facts header size_of m b x)"
proof -
  let ?n = "length cs" and ?b = "chunk_root sha (cb_batch_id b) (length cs)"
  have "?n < 10 ^ 14" by (rule chunk_total [where n = 3]) (use assms(3-5) in \<open>auto simp: in_budget_def\<close>)
  then obtain f where f: "\<And>k. 0 < k \<Longrightarrow> k \<le> ?n \<Longrightarrow> chunk_id ?b k ?n = Inr (f k) \<and> good_id (f k)" "distinct (map f [1..<1 + ?n])"
    using chunk_id_list [OF assms(1,2)] by metis
  let ?g = "\<lambda>(k, c). b\<lparr>cb_batch_id := f k, cb_events := c ! 0, cb_file_events := c ! 1, cb_process_events := c ! 2\<rparr>"
  have ok: "batch_chunk header size_of m b ?b ?n kc = Inr (?g kc) \<and> batch_facts header size_of m b (?g kc)" if kc: "kc \<in> set (enumerate 1 cs)" for kc
  proof -
    obtain k c where p: "kc = (k, c)" by (cases kc)
    have e: "0 < k" "k \<le> ?n" "c \<in> set cs" using kc by (auto simp: p in_set_enumerate_eq)
    show ?thesis using batch_chunk_ok [of "f k" ?b k ?n m header size_of b c] f(1) [OF e(1,2)] assms(3) e(3) p by simp
  qed
  have "rmap_list (batch_chunk header size_of m b ?b ?n) (enumerate 1 cs) = Inr (map ?g (enumerate 1 cs))" by (rule rmap_list_Inr) (simp add: ok)
  moreover have "map cb_batch_id (map ?g (enumerate 1 cs)) = map f [1..<1 + ?n]"
    using map_enumerate_fst [of f 1 cs] by (simp add: comp_def split_def del: upt_Suc)
  moreover have "map cb_events (map ?g (enumerate 1 cs)) = map (\<lambda>c. c ! 0) cs" "map cb_file_events (map ?g (enumerate 1 cs)) = map (\<lambda>c. c ! 1) cs"
      "map cb_process_events (map ?g (enumerate 1 cs)) = map (\<lambda>c. c ! 2) cs"
    using map_enumerate_snd [of "\<lambda>c. c ! 0" 1 cs] map_enumerate_snd [of "\<lambda>c. c ! 1" 1 cs] map_enumerate_snd [of "\<lambda>c. c ! 2" 1 cs]
    by (simp_all add: comp_def split_def)
  ultimately show ?thesis using f(2) ok by (intro exI [of _ "map ?g (enumerate 1 cs)"]) auto
qed

text \<open>The matches of one event are cut into slices of at most \<open>MAX_THREAT_MATCHES\<close>, none lost.\<close>

lemma concat_slices: "0 < w \<Longrightarrow> length ms \<le> n * w \<Longrightarrow> concat (map (\<lambda>i. take w (drop (i * w) ms)) [0..<n]) = ms"
proof (induction n arbitrary: ms)
  case (Suc n)
  have "concat (map (\<lambda>i. take w (drop (i * w) ms)) [0..<Suc n]) = take w ms @ concat (map (\<lambda>i. take w (drop (i * w) (drop w ms))) [0..<n])"
    by (simp only: upt_conv_Cons [of 0 "Suc n"] zero_less_Suc map_Suc_upt [symmetric]) (simp add: comp_def add.commute)
  then show ?case using Suc.IH [of "drop w ms"] Suc.prems by simp
qed simp

lemma expand_lossless:
  assumes "expand_threat_matches sha (\<lambda>i ms fs. Inr (i, ms, fs)) (Raw_object tid (Match_list ms) fs) = Inr out"
  shows "concat (map (\<lambda>(i, ms, fs). ms) out) = ms" "\<forall>(i, ms, fs) \<in> set out. length ms \<le> MAX_THREAT_MATCHES"
proof -
  let ?f = "\<lambda>index. (if 1 < match_chunks ms then Some (child_id sha (case tid of None \<Rightarrow> [] | Some t \<Rightarrow> t) ''matches'' (index + 1) (match_chunks ms)) else tid,
    take MAX_THREAT_MATCHES (drop (index * MAX_THREAT_MATCHES) ms), fs)"
  have out: "out = map ?f [0..<match_chunks ms]"
    using assms rmap_list_Inr [of "[0..<match_chunks ms]" "\<lambda>i. Inr (?f i)" ?f] by (simp add: Let_def)
  have "length ms \<le> match_chunks ms * MAX_THREAT_MATCHES" by (simp add: match_chunks_def MAX_THREAT_MATCHES_def)
  then show "concat (map (\<lambda>(i, ms, fs). ms) out) = ms"
    using concat_slices [of MAX_THREAT_MATCHES ms "match_chunks ms"] by (simp add: out comp_def MAX_THREAT_MATCHES_def)
  show "\<forall>(i, ms, fs) \<in> set out. length ms \<le> MAX_THREAT_MATCHES" by (auto simp: out)
qed

section \<open>Properties\<close>


text \<open>Splitting a trace batch refuses exactly an event that does not fit an envelope of its own, and otherwise the chunks carry all three
  streams in order, each within the item and byte budgets, under distinct valid identifiers.\<close>

theorem split_trace_batch_lossless:
  assumes "good_id (cb_batch_id b)" "plain_digest sha" "int (batch_len header size_of (sizing_batch b)) \<le> m"
    "length (cb_events b) + length (cb_file_events b) + length (cb_process_events b) < 10 ^ 14"
  shows "if \<exists>x \<in> set (cb_events b) \<union> set (cb_file_events b) \<union> set (cb_process_events b). m < int (batch_len header size_of (sizing_batch b) + size_of x)
    then split_trace_batch sha header size_of m b = Inl ValueError
    else \<exists>out. split_trace_batch sha header size_of m b = Inr out \<and> out \<noteq> [] \<and> concat (map cb_events out) = cb_events b
      \<and> concat (map cb_file_events out) = cb_file_events b \<and> concat (map cb_process_events out) = cb_process_events b
      \<and> distinct (map cb_batch_id out) \<and> (\<forall>x \<in> set out. batch_facts header size_of (nat m) b x)"
proof -
  let ?e = "batch_len header size_of (sizing_batch b)" and ?m = "nat m"
  let ?in = "[cb_events b, cb_file_events b, cb_process_events b]"
  have pos: "0 < ?e" by (simp add: batch_len_def json_len_def)
  then have m: "\<not> m \<le> 0" "?e \<le> ?m" "\<And>x. ?m < x \<longleftrightarrow> m < int x" using assms(3) by linarith+
  have split: "split_trace_batch sha header size_of m b = rbind (pack ?m ?e size_of ?in) (\<lambda>cs.
      rmap_list (batch_chunk header size_of ?m b (chunk_root sha (cb_batch_id b) (length cs)) (length cs)) (enumerate 1 cs))"
    using m(1,2) by (simp add: split_trace_batch_def Let_def)
  note spec = pack_spec [OF m(2), of ?in size_of]
  show ?thesis
  proof (cases "\<exists>x \<in> set (cb_events b) \<union> set (cb_file_events b) \<union> set (cb_process_events b). m < int (?e + size_of x)")
    case True
    then have "\<exists>xs \<in> set ?in. \<exists>x \<in> set xs. ?m < ?e + size_of x" by (auto simp: m(3))
    then show ?thesis using spec True by (simp add: split)
  next
    case False
    then have "\<not> (\<exists>xs \<in> set ?in. \<exists>x \<in> set xs. ?m < ?e + size_of x)" by (auto simp: m(3))
    then obtain cs where cs: "pack ?m ?e size_of ?in = Inr cs" "cs \<noteq> []" "\<forall>c \<in> set cs. in_budget ?m ?e size_of 3 c"
      "\<forall>k < 3. flat k cs = ?in ! k" "1 < length cs \<longrightarrow> (\<forall>c \<in> set cs. \<exists>s \<in> set c. s \<noteq> [])"
      using spec by (auto simp: numeral_3_eq_3)
    have fl: "flat 0 cs = cb_events b" "flat 1 cs = cb_file_events b" "flat 2 cs = cb_process_events b" using cs(4) by simp_all
    have n: "(\<Sum>k<3. length (flat k cs)) < 10 ^ 14" using assms(4) fl by (simp add: numeral_3_eq_3 lessThan_Suc numeral_2_eq_2)
    obtain out where "rmap_list (batch_chunk header size_of ?m b (chunk_root sha (cb_batch_id b) (length cs)) (length cs)) (enumerate 1 cs) = Inr out"
      "map cb_events out = map (\<lambda>c. c ! 0) cs" "map cb_file_events out = map (\<lambda>c. c ! 1) cs" "map cb_process_events out = map (\<lambda>c. c ! 2) cs"
      "distinct (map cb_batch_id out)" "\<forall>x \<in> set out. batch_facts header size_of ?m b x"
      using batch_chunks [OF assms(1,2) cs(3,5) n] by blast
    moreover from this have "out \<noteq> []" using cs(2) by auto
    ultimately show ?thesis using False cs(1) fl unfolding flat_def by (auto simp: split)
  qed
qed

definition ex_sizes :: "(unit, unit, unit) json_sizes" where
  "ex_sizes = \<lparr>header_bytes = \<lambda>_. 100, asset_bytes = \<lambda>_. 30, finding_bytes = \<lambda>_. 30, run_bytes = \<lambda>_ _ _. 40\<rparr>"

definition ex_id :: "char \<Rightarrow> string" where "ex_id c = replicate MAX_CORRELATION_ID_CHARS c"

definition ex_run :: detector_run where
  "ex_run = \<lparr>run_detector = POSTURE, run_status = RunComplete, run_finding_count = 0, run_reason = None\<rparr>"

definition ex_report :: "char \<Rightarrow> nat \<Rightarrow> detector_run list option \<Rightarrow> (unit, unit, unit) chunk_report" where
  "ex_report c n runs = \<lparr>cp_report_id = ex_id c, cp_header = (), cp_assets = [],
     cp_vulnerabilities = replicate n \<lparr>fi_source = ''posture'', fi_fields = ()\<rparr>, cp_detector_runs = runs\<rparr>"

lemma ex_id_len: "length (ex_id c) = MAX_CORRELATION_ID_CHARS" "json_len (ex_id c) = 2 + 256 * json_char_len c"
    "\<not> isspace_char c \<Longrightarrow> strip (ex_id c) = ex_id c"
  by (simp_all add: ex_id_def json_len_def sum_list_replicate MAX_CORRELATION_ID_CHARS_def strip_no_space list_all_iff)

lemma ex_char_len: "json_char_len (CHR 0x22) = 2" "json_char_len (CHR ''x'') = 1" "\<not> isspace_char (CHR 0x22)" "\<not> isspace_char (CHR ''x'')"
  by (simp_all add: json_char_len_def isspace_char_def)

lemma ex_numerals: "length (nat_str 0) = 1" "length (nat_str 10) = 2"
  by (simp_all add: nat_str.simps)

lemma ex_ten: "length (nat_str (Suc (Suc (Suc (Suc (Suc (Suc (Suc (Suc (Suc (Suc 0))))))))))) = Suc (Suc 0)"
  by (simp add: nat_str.simps [of "Suc _"] nat_str.simps [of 1])

lemma ex_sizing: "report_len ex_sizes (sizing_report (ex_report c n None)) = 362" "report_len ex_sizes (sizing_report (ex_report c n (Some [ex_run]))) = 401"
  using ex_id_len(2) [of "CHR ''x''", unfolded ex_id_def] 
  by (simp_all add: report_len_def sizing_report_def ex_report_def ex_sizes_def runs_len_def stream_len_def ex_run_def ex_numerals ex_char_len)

lemmas chunk_eval = split_asset_report_def pack_def add_item_def put_item_def flush_def separator_def MAX_ENVELOPE_ITEMS_def report_chunk_def chunk_id_def chunk_root_def
  validate_envelope_def Let_def ex_sizing ex_id_len ex_char_len

text \<open>The size estimate is not an upper bound. A valid report whose identifier needs escaping, and one whose declared finding count is
  smaller than its findings, are packed within the budget and then refused with the internal invariant error.\<close>

theorem split_size_estimate:
  "validate_envelope (ex_id (CHR 0x22)) [0, 0] = Inr (ex_id (CHR 0x22)) \<and> report_len ex_sizes (sizing_report (ex_report (CHR 0x22) 0 None)) \<le> 500
    \<and> split_asset_report sha ex_sizes 500 (ex_report (CHR 0x22) 0 None) = Inl RuntimeError
    \<and> report_len ex_sizes (sizing_report (ex_report (CHR ''x'') 10 (Some [ex_run]))) + 10 * 30 + 9 = 710
    \<and> split_asset_report sha ex_sizes 710 (ex_report (CHR ''x'') 10 (Some [ex_run])) = Inl RuntimeError"
proof (intro conjI)
  show "validate_envelope (ex_id (CHR 0x22)) [0, 0] = Inr (ex_id (CHR 0x22))" by (simp add: chunk_eval)
  show "report_len ex_sizes (sizing_report (ex_report (CHR 0x22) 0 None)) \<le> 500"
    "report_len ex_sizes (sizing_report (ex_report (CHR ''x'') 10 (Some [ex_run]))) + 10 * 30 + 9 = 710" by (simp_all add: ex_sizing)
  show "split_asset_report sha ex_sizes 500 (ex_report (CHR 0x22) 0 None) = Inl RuntimeError"
    by (simp add: chunk_eval) (simp add: ex_report_def chunk_eval report_len_def ex_sizes_def runs_len_def assets_of_def findings_of_def)
  show "split_asset_report sha ex_sizes 710 (ex_report (CHR ''x'') 10 (Some [ex_run])) = Inl RuntimeError"
    by (simp add: chunk_eval) (simp add: ex_report_def ex_sizes_def chunk_eval report_len_def runs_len_def assets_of_def findings_of_def recount_def ex_run_def
        finding_count_def stream_len_def ex_numerals ex_ten numeral_eq_Suc)
qed

section \<open>Witnesses\<close>

lemma ex_good: "good_id (ex_id (CHR ''x''))" "plain_digest (\<lambda>_. replicate 64 (CHR ''a''))"
  by (simp_all add: good_id_def ex_id_len ex_char_len) (simp_all add: plain_def ex_id_def plain_digest_def list_all_iff ex_char_len, simp add: json_char_len_def isspace_char_def)


definition ex_batch :: "(unit, unit) chunk_batch" where
  "ex_batch = \<lparr>cb_batch_id = ex_id (CHR ''x''), cb_header = (), cb_events = [()], cb_file_events = [()], cb_process_events = [()]\<rparr>"

theorem split_trace_batch_lossless_witness:
  "\<exists>out. split_trace_batch (\<lambda>_. replicate 64 (CHR ''a'')) (\<lambda>_. 100) (\<lambda>_. 30) 400 ex_batch = Inr out
     \<and> concat (map cb_events out) = [()] \<and> concat (map cb_process_events out) = [()] \<and> distinct (map cb_batch_id out)"
proof -
  have f: "cb_batch_id ex_batch = ex_id (CHR ''x'')" "cb_events ex_batch = [()]" "cb_file_events ex_batch = [()]" "cb_process_events ex_batch = [()]"
    by (simp_all add: ex_batch_def)
  have e: "batch_len (\<lambda>_. 100) (\<lambda>_. 30) (sizing_batch ex_batch) = 358"
    using ex_id_len(2) [of "CHR ''x''", unfolded ex_id_def] by (simp add: batch_len_def sizing_batch_def ex_char_len)
  have h: "good_id (cb_batch_id ex_batch)" "int (batch_len (\<lambda>_. 100) (\<lambda>_. 30) (sizing_batch ex_batch)) \<le> 400"
    "length (cb_events ex_batch) + length (cb_file_events ex_batch) + length (cb_process_events ex_batch) < 10 ^ 14"
    unfolding f e using ex_good(1) by simp_all
  show ?thesis using split_trace_batch_lossless [OF h(1) ex_good(2) h(2,3)] unfolding f e by auto
qed

end
