(* ===== verification/Lineage_Ids.thy ===== *)
theory Lineage_Ids
  imports Chunk_Properties
begin

text \<open>
  Reassembly of chunked uploads: the identifier grammar of \<open>analyzer/storage/lineage.py\<close> and the lineage view of \<open>analyzer/api/reports.py\<close>
  (\<open>_lineage_rows\<close>). Form names the chunks (\<open>Telemetry_Chunks\<close>), the Analyzer recognises them here; the two services share nothing but this grammar.
  A stored record is any value with its identifier field, read by \<open>id_of\<close>, which is absent when the field is no string. The regular expressions end in digits after a fixed
  separator, so reading them from the right is deterministic; \<open>$\<close> also matches before a final newline, and the dot matches no newline.
\<close>

section \<open>Grammar\<close>

datatype lineage_kind = L_ASSET | L_TRACE

definition LF :: char where "LF = CHR 0x0A"

definition digits_end :: "string \<Rightarrow> string" where
  "digits_end s = rev (takeWhile isdecimal_char (rev s))"

definition before_digits :: "string \<Rightarrow> string" where
  "before_digits s = rev (dropWhile isdecimal_char (rev s))"

definition strip_suffix :: "string \<Rightarrow> string \<Rightarrow> string option" where
  "strip_suffix p s = (if drop (length s - length p) s = p \<and> length p \<le> length s then Some (take (length s - length p) s) else None)"

definition positive_numeral :: "string \<Rightarrow> bool" where
  "positive_numeral s = (s \<noteq> [] \<and> hd s \<noteq> CHR ''0'')"

definition chop_newline :: "string \<Rightarrow> string" where
  "chop_newline s = (if s \<noteq> [] \<and> last s = LF then butlast s else s)"

definition root_group :: "string \<Rightarrow> bool" where
  "root_group s = (s \<noteq> [] \<and> LF \<notin> set s)"

definition FORM_CHUNK :: "string \<Rightarrow> (string \<times> nat \<times> nat option) option" where
  "FORM_CHUNK v =
     (let t = digits_end v in
      if \<not> positive_numeral t then None
      else case strip_suffix ''-of-'' (before_digits v) of None \<Rightarrow> None
      | Some v1 \<Rightarrow>
        let i = digits_end v1 in
        if \<not> positive_numeral i then None
        else case strip_suffix ''::chunk-'' (before_digits v1) of None \<Rightarrow> None
        | Some base \<Rightarrow> if root_group base then Some (base, nat (decimal_value i), Some (nat (decimal_value t))) else None)"

definition AGENT_CHUNK :: "string \<Rightarrow> string \<Rightarrow> (string \<times> nat \<times> nat option) option" where
  "AGENT_CHUNK label v =
     (let i = digits_end v in
      if \<not> (positive_numeral i \<or> i = ''0'') then None
      else case strip_suffix label (before_digits v) of None \<Rightarrow> None
      | Some base \<Rightarrow> if root_group base then Some (base, nat (decimal_value i), None) else None)"

definition parse_lineage_id :: "string \<Rightarrow> lineage_kind \<Rightarrow> (string \<times> nat \<times> nat option) option" where
  "parse_lineage_id v kind =
     (let s = chop_newline v in
      case FORM_CHUNK s of Some info \<Rightarrow> Some info
      | None \<Rightarrow> AGENT_CHUNK (case kind of L_ASSET \<Rightarrow> ''~report-part-'' | L_TRACE \<Rightarrow> ''~batch-part-'') s)"

definition stored_root :: "string \<Rightarrow> lineage_kind \<Rightarrow> string" where
  "stored_root v kind = (case parse_lineage_id v kind of Some (base, _) \<Rightarrow> base | None \<Rightarrow> v)"

section \<open>The lineage view\<close>

type_synonym 'r found_row = "nat \<times> string \<times> nat option \<times> 'r"

definition find_row :: "('r \<Rightarrow> string option) \<Rightarrow> lineage_kind \<Rightarrow> string \<Rightarrow> 'r \<Rightarrow> 'r found_row list" where
  "find_row id_of kind base row =
     (case id_of row of None \<Rightarrow> []
      | Some rid \<Rightarrow>
          if rid = base then [(1, rid, None, row)]
          else (case parse_lineage_id rid kind of None \<Rightarrow> []
                | Some (b, i, t) \<Rightarrow> if b = base then [(i, rid, t, row)] else []))"

definition setdefault :: "'k \<Rightarrow> 'v \<Rightarrow> ('k \<times> 'v) list \<Rightarrow> ('k \<times> 'v) list" where
  "setdefault k v m = (case map_of m k of None \<Rightarrow> m @ [(k, v)] | Some _ \<Rightarrow> m)"

definition unique_rows :: "'r found_row list \<Rightarrow> (string \<times> 'r found_row) list" where
  "unique_rows found = fold (\<lambda>item. setdefault (fst (snd item)) item) found []"

definition totals_of :: "'r found_row list \<Rightarrow> nat list" where
  "totals_of items = fromkeys (concat (map (\<lambda>item. case fst (snd (snd item)) of None \<Rightarrow> [] | Some t \<Rightarrow> [t]) items))"

definition expected_of :: "nat list \<Rightarrow> nat option" where
  "expected_of totals = (case totals of [] \<Rightarrow> None | [t] \<Rightarrow> Some t | _ \<Rightarrow> Some (Max (set totals)))"

definition complete_of :: "nat list \<Rightarrow> nat list \<Rightarrow> bool option" where
  "complete_of totals indices =
     (case expected_of totals of None \<Rightarrow> None | Some n \<Rightarrow> Some (length totals = 1 \<and> set indices = set [1..<Suc n]))"

definition lineage_rows :: "('r \<Rightarrow> string option) \<Rightarrow> lineage_kind \<Rightarrow> string \<Rightarrow> 'r list \<Rightarrow> string \<times> nat option \<times> bool option \<times> 'r list" where
  "lineage_rows id_of kind requested_id rows =
     (let base = stored_root requested_id kind;
          found = concat (map (find_row id_of kind base) rows);
          ordered = sort_key (\<lambda>item. (fst item, fst (snd item))) (map snd (unique_rows found));
          totals = totals_of ordered in
      (base, expected_of totals, complete_of totals (map fst ordered), map (\<lambda>item. snd (snd (snd item))) ordered))"

record 'r lineage_response =
  li_lineage_id :: string
  li_expected_chunks :: "nat option"
  li_received_chunks :: nat
  li_complete :: "bool option"
  li_records :: "'r list"

definition lineage_response_of :: "('r \<Rightarrow> string option) \<Rightarrow> lineage_kind \<Rightarrow> string \<Rightarrow> 'r list \<Rightarrow> 'r lineage_response result" where
  "lineage_response_of id_of kind requested_id rows =
     (case lineage_rows id_of kind requested_id rows of (base, expected, whole, rs) \<Rightarrow>
        if rs = [] then Inl (HTTPException 404)
        else Inr \<lparr>li_lineage_id = base, li_expected_chunks = expected, li_received_chunks = length rs, li_complete = whole, li_records = rs\<rparr>)"

section \<open>Chunk identifiers are recognised\<close>

lemma nat_str_digits: "\<forall>c \<in> set (nat_str n). isdecimal_char c" "nat_str n \<noteq> []"
  using nat_str_value [of n] by (auto simp: list_all_iff)

lemma nat_str_hd: "0 < n \<Longrightarrow> hd (nat_str n) \<noteq> CHR ''0''"
proof (induction n rule: nat_str.induct)
  case (1 n)
  show ?case
  proof (cases "n < 10")
    case True
    have "of_char (char_of (48 + n) :: char) = (48 + n :: nat)" "of_char (CHR ''0'') = (48 :: nat)" using True by simp_all
    then have "char_of (48 + n) \<noteq> CHR ''0''" using 1(2) by (metis add_cancel_left_right less_irrefl)
    then show ?thesis using True by (subst nat_str.simps) simp
  next
    case False
    then have "0 < n div 10" by simp
    then have "hd (nat_str (n div 10)) \<noteq> CHR ''0''" using 1(1) [OF False] by blast
    then show ?thesis using False nat_str_digits(2) [of "n div 10"] by (subst nat_str.simps) simp
  qed
qed

lemma digits_split:
  assumes "\<forall>c \<in> set d. isdecimal_char c" "s \<noteq> []" "\<not> isdecimal_char (last s)"
  shows "digits_end (s @ d) = d" "before_digits (s @ d) = s"
proof -
  obtain x s' where s: "rev s = x # s'" using assms(2) by (cases "rev s") auto
  then have x: "\<not> isdecimal_char x" using assms(2,3) by (metis hd_rev list.sel(1))
  have "takeWhile isdecimal_char (rev d @ x # s') = rev d" "dropWhile isdecimal_char (rev d @ x # s') = x # s'"
    using assms(1) x by (simp_all add: takeWhile_append dropWhile_append)
  then show "digits_end (s @ d) = d" "before_digits (s @ d) = s" using s by (simp_all add: digits_end_def before_digits_def rev_swap)
qed

lemma strip_suffix_append [simp]: "strip_suffix p (s @ p) = Some s"
  by (simp add: strip_suffix_def)

lemma positive_nat_str: "0 < n \<Longrightarrow> positive_numeral (nat_str n)"
  using nat_str_hd nat_str_digits(2) by (simp add: positive_numeral_def)

lemma parse_chunk:
  assumes "root_group base" "0 < k" "0 < n"
  shows "parse_lineage_id (base @ ''::chunk-'' @ nat_str k @ ''-of-'' @ nat_str n) kind = Some (base, k, Some n)"
proof -
  let ?v = "base @ ''::chunk-'' @ nat_str k @ ''-of-'' @ nat_str n"
  have dash: "\<not> isdecimal_char (CHR ''-'')" by code_simp
  have v: "?v = (base @ ''::chunk-'' @ nat_str k @ ''-of-'') @ nat_str n" "base @ ''::chunk-'' @ nat_str k @ ''-of-'' = (base @ ''::chunk-'' @ nat_str k) @ ''-of-''"
    "base @ ''::chunk-'' @ nat_str k = (base @ ''::chunk-'') @ nat_str k" by simp_all
  have t: "digits_end ?v = nat_str n" "before_digits ?v = base @ ''::chunk-'' @ nat_str k @ ''-of-''"
    unfolding v(1) using dash by (subst digits_split [OF nat_str_digits(1)]; simp)+
  have i: "digits_end (base @ ''::chunk-'' @ nat_str k) = nat_str k" "before_digits (base @ ''::chunk-'' @ nat_str k) = base @ ''::chunk-''"
    unfolding v(3) using dash by (subst digits_split [OF nat_str_digits(1)]; simp)+
  have "last ?v \<noteq> LF"
  proof -
    have "last ?v = last (nat_str n)" using nat_str_digits(2) by simp
    moreover have "isdecimal_char (last (nat_str n))" using nat_str_digits(1) last_in_set [OF nat_str_digits(2)] by blast
    moreover have "\<not> isdecimal_char LF" by code_simp
    ultimately show ?thesis by metis
  qed
  then have chop: "chop_newline ?v = ?v" by (simp add: chop_newline_def)
  have s1: "strip_suffix ''-of-'' (base @ ''::chunk-'' @ nat_str k @ ''-of-'') = Some (base @ ''::chunk-'' @ nat_str k)"
    unfolding v(2) by (rule strip_suffix_append)
  have "FORM_CHUNK ?v = Some (base, k, Some n)"
    using assms unfolding FORM_CHUNK_def t Let_def s1 option.case i strip_suffix_append by (simp add: positive_nat_str nat_str_value)
  then show ?thesis unfolding parse_lineage_id_def Let_def chop by simp
qed

section \<open>Reassembly\<close>

lemma setdefault_props:
  assumes "distinct (map fst m)"
  shows "distinct (map fst (setdefault k v m))" "fst ` set (setdefault k v m) = insert k (fst ` set m)" "set (setdefault k v m) \<subseteq> insert (k, v) (set m)"
proof -
  have "map_of m k = None \<longleftrightarrow> k \<notin> fst ` set m" by (rule map_of_eq_None_iff)
  then show "distinct (map fst (setdefault k v m))" "fst ` set (setdefault k v m) = insert k (fst ` set m)" "set (setdefault k v m) \<subseteq> insert (k, v) (set m)"
    using assms by (auto simp: setdefault_def split: option.splits dest: map_of_SomeD)
qed

lemma fold_setdefault:
  assumes "distinct (map fst m)"
  shows "distinct (map fst (fold (\<lambda>x. setdefault (key x) x) xs m)) \<and> fst ` set (fold (\<lambda>x. setdefault (key x) x) xs m) = fst ` set m \<union> key ` set xs
    \<and> set (fold (\<lambda>x. setdefault (key x) x) xs m) \<subseteq> set m \<union> (\<lambda>x. (key x, x)) ` set xs"
  using assms
proof (induction xs arbitrary: m)
  case (Cons x xs)
  note p = setdefault_props [OF Cons.prems, of "key x" x]
  show ?case using Cons.IH [OF p(1)] p(2,3) by auto
qed simp

lemma unique_rows_props:
  "distinct (map fst (unique_rows found))" "fst ` set (unique_rows found) = (\<lambda>x. fst (snd x)) ` set found"
  "y \<in> set (unique_rows found) \<Longrightarrow> snd y \<in> set found \<and> fst y = fst (snd (snd y))"
  using fold_setdefault [of "[]" "\<lambda>x. fst (snd x)" found] by (auto simp: unique_rows_def)

lemma sorted_fst_of_pairs: "sorted (map (\<lambda>x. (f x :: nat, g x :: string)) xs) \<Longrightarrow> sorted (map f xs)"
  by (induction xs) auto

lemma sorted_distinct_upt:
  assumes "sorted xs" "distinct xs" "set xs = {1..n :: nat}"
  shows "xs = [1..<Suc n]"
  using assms sorted_distinct_set_unique [of xs "[1..<Suc n]"] by (simp add: atLeastLessThanSuc_atLeastAtMost del: upt_Suc)

lemma distinct_singleton: "set xs = {x} \<Longrightarrow> distinct xs \<Longrightarrow> xs = [x]"
  by (cases xs; cases "tl xs") auto

lemma distinct_map_sort: "distinct (map g xs) \<Longrightarrow> distinct (map g (sort_key key xs))"
  by (simp add: distinct_map)

text \<open>The view of records whose identifiers name parts of one upload: ordered by part, one record per identifier.\<close>

lemma ordered_parts:
  assumes ids: "\<And>x. x \<in> set found \<Longrightarrow> fst x \<in> {1..n} \<and> fst (snd x) = f (fst x)" and inj: "inj_on f {1..n}"
    and all: "\<And>k. k \<in> {1..n} \<Longrightarrow> \<exists>x \<in> set found. fst x = k"
  shows "map fst (sort_key (\<lambda>x. (fst x, fst (snd x))) (map snd (unique_rows found))) = [1..<Suc n]"
    "set (sort_key (\<lambda>x. (fst x, fst (snd x))) (map snd (unique_rows found))) \<subseteq> set found"
proof -
  let ?u = "map snd (unique_rows found)" and ?s = "sort_key (\<lambda>x. (fst x, fst (snd x))) (map snd (unique_rows found))"
  have sub: "set ?u \<subseteq> set found" using unique_rows_props(3) [of _ found] by auto
  then show "set ?s \<subseteq> set found" by simp
  have fsts: "map fst (unique_rows found) = map (\<lambda>x. f (fst x)) ?u"
    using unique_rows_props(3) [of _ found] ids by (auto intro!: map_cong)
  have "distinct (map f (map fst ?u))" using unique_rows_props(1) [of found] unfolding fsts by (simp add: comp_def)
  then have d: "distinct (map fst ?u)" unfolding distinct_map [of f] by blast
  have "(\<lambda>x. f (fst x)) ` set ?u = fst ` set (unique_rows found)" using arg_cong [OF fsts, of set] by (metis list.set_map)
  also have "\<dots> = (\<lambda>x. f (fst x)) ` set found" unfolding unique_rows_props(2) using ids by (intro image_cong) auto
  finally have "f ` fst ` set ?u = f ` fst ` set found" by (simp only: image_image)
  moreover have "fst ` set found = {1..n}" using ids all by (auto simp: image_iff) metis+
  moreover have "fst ` set ?u \<subseteq> {1..n}" using sub ids by blast
  ultimately have "fst ` set ?u = {1..n}" using inj by (metis inj_on_image_eq_iff order_refl)
  moreover have "sorted (map fst ?s)" by (rule sorted_fst_of_pairs [of fst "\<lambda>x. fst (snd x)"]) simp
  moreover have "distinct (map fst ?s)" by (rule distinct_map_sort [OF d])
  ultimately show "map fst ?s = [1..<Suc n]" by (intro sorted_distinct_upt) simp_all
qed

text \<open>What the splitter returns: the parts of the upload in order, each under the identifier of its position.\<close>

lemma report_chunk_parts:
  assumes "report_chunk z m r b n (k, c) = Inr x"
  shows "\<exists>i. chunk_id b k n = Inr i \<and> cp_report_id x = strip i" "cp_assets x = assets_of (c ! 0)" "cp_vulnerabilities x = findings_of (c ! 1)"
  using assms by (auto simp: report_chunk_def validate_envelope_def Let_def split: if_splits)

lemma split_parts:
  assumes "split_asset_report sha z m r = Inr out" "good_id (cp_report_id r)" "plain_digest sha" "length out < 10 ^ 14"
  shows "concat (map cp_assets out) = cp_assets r" "concat (map cp_vulnerabilities out) = cp_vulnerabilities r"
    "\<And>k. k < length out \<Longrightarrow> chunk_id (chunk_root sha (cp_report_id r) (length out)) (Suc k) (length out) = Inr (cp_report_id (out ! k))"
proof -
  let ?e = "report_len z (sizing_report r)" and ?in = "[map Asset_item (cp_assets r), map Finding_item (cp_vulnerabilities r)]"
  obtain cs where e: "?e \<le> nat m" and cs: "pack (nat m) ?e (item_bytes z) ?in = Inr cs"
    and out: "rmap_list (report_chunk z (nat m) r (chunk_root sha (cp_report_id r) (length cs)) (length cs)) (enumerate 1 cs) = Inr out"
    using assms(1) by (auto simp: split_asset_report_def Let_def split: if_splits)
  have all2: "list_all2 (\<lambda>kc x. report_chunk z (nat m) r (chunk_root sha (cp_report_id r) (length cs)) (length cs) kc = Inr x) (enumerate 1 cs) out"
    using out by (simp add: rmap_list_eq_Inr)
  then have len: "length out = length cs" by (simp add: list_all2_lengthD [symmetric])
  have at: "report_chunk z (nat m) r (chunk_root sha (cp_report_id r) (length out)) (length out) (Suc k, cs ! k) = Inr (out ! k)" if "k < length out" for k
    using list_all2_nthD2 [OF all2 that] that len by (simp add: nth_enumerate_eq)
  have flat: "flat 0 cs = map Asset_item (cp_assets r)" "flat 1 cs = map Finding_item (cp_vulnerabilities r)"
    using pack_spec [OF e, of ?in "item_bytes z"] cs by (auto split: if_splits simp: less_Suc_eq_0_disj numeral_2_eq_2)
  have "map cp_assets out = map (\<lambda>c. assets_of (c ! 0)) cs" "map cp_vulnerabilities out = map (\<lambda>c. findings_of (c ! 1)) cs"
    using len report_chunk_parts(2,3) [OF at] by (auto intro!: nth_equalityI)
  then show "concat (map cp_assets out) = cp_assets r" "concat (map cp_vulnerabilities out) = cp_vulnerabilities r"
    unfolding concat_assets concat_findings by (simp_all add: concat_assets concat_findings flat [simplified])
  show "chunk_id (chunk_root sha (cp_report_id r) (length out)) (Suc k) (length out) = Inr (cp_report_id (out ! k))" if k: "k < length out" for k
    using report_chunk_parts(1) [OF at [OF k]] chunk_ids [OF assms(2,3,4), of "Suc k"] k by (auto simp: good_id_def)
qed

lemma find_part:
  assumes "root_group base" "parse_lineage_id base kind = None" "1 < n" "k \<in> {1..n}" "chunk_id base k n = Inr i" "id_of row = Some i"
  shows "find_row id_of kind base row = [(k, i, if k = 1 then None else Some n, row)]" "stored_root i kind = base"
proof -
  have i: "i = (if k = 1 then base else base @ ''::chunk-'' @ nat_str k @ ''-of-'' @ nat_str n)"
    using assms(5) by (auto simp: chunk_id_def lineage_child_def Let_def split: if_splits)
  have p: "parse_lineage_id (base @ ''::chunk-'' @ nat_str k @ ''-of-'' @ nat_str n) kind = Some (base, k, Some n)"
    using assms(1,3,4) by (intro parse_chunk) auto
  show "find_row id_of kind base row = [(k, i, if k = 1 then None else Some n, row)]"
  proof (cases "k = 1")
    case False
    then have "i \<noteq> base" "parse_lineage_id i kind = Some (base, k, Some n)" using i p by simp_all
    then show ?thesis using False assms(6) by (simp add: find_row_def)
  qed (use i assms(6) in \<open>simp add: find_row_def\<close>)
  show "stored_root i kind = base"
  proof (cases "k = 1")
    case False
    then have "parse_lineage_id i kind = Some (base, k, Some n)" using i p by simp
    then show ?thesis by (simp add: stored_root_def)
  qed (use i assms(2) in \<open>simp add: stored_root_def\<close>)
qed

section \<open>Property\<close>

text \<open>C30: Chunked uploads are reassembled across the two services. When Form splits a validated report into several chunks, the Analyzer, given the stored chunks in
  whatever order and however often each was delivered, and asked for any chunk's identifier, recognises the upload, knows its number of chunks, reports it as complete, and returns
  the chunks in their original order; put together they are the assets and findings of the report.\<close>

theorem chunks_reassembled:
  assumes "split_asset_report sha z m r = Inr out" "1 < length out" "length out < 10 ^ 14" "good_id (cp_report_id r)" "cp_report_id r \<noteq> []" "plain_digest sha"
    "base = chunk_root sha (cp_report_id r) (length out)" "parse_lineage_id base L_ASSET = None" "set stored = set out" "y \<in> set out"
  shows "lineage_rows (\<lambda>x. Some (cp_report_id x)) L_ASSET (cp_report_id y) stored = (base, Some (length out), Some True, out)
    \<and> concat (map cp_assets out) = cp_assets r \<and> concat (map cp_vulnerabilities out) = cp_vulnerabilities r"
proof -
  let ?n = "length out" and ?id = "\<lambda>x. Some (cp_report_id x)"
  note parts = split_parts [OF assms(1,4,6,3)]
  have group: "root_group base"
  proof -
    have "plain base" using good_base(1) [OF assms(4,6)] assms(7) by (simp add: good_id_def)
    moreover have "json_char_len LF \<noteq> 1" by code_simp
    ultimately have "LF \<notin> set base" by (auto simp: plain_def list_all_iff)
    moreover have "base \<noteq> []" using assms(5,7) by (simp add: chunk_root_def lineage_root_def HASH_LABEL_def)
    ultimately show ?thesis by (simp add: root_group_def)
  qed
  define f where "f k = cp_report_id (out ! (k - 1))" for k
  have f: "chunk_id base k ?n = Inr (f k)" if k: "k \<in> {1..?n}" for k
  proof -
    have "k - 1 < ?n" "Suc (k - 1) = k" using k by auto
    then show ?thesis using parts(3) [of "k - 1"] assms(7) by (simp add: f_def)
  qed
  have inj: "inj_on f {1..?n}" using f chunk_id_inj by (metis inj_onI)
  note part = find_part [OF group assms(8,2)]
  let ?item = "\<lambda>k x. (k :: nat, f k, if k = 1 then None else Some ?n, x)"
  have row: "\<exists>k \<in> {1..?n}. x = out ! (k - 1) \<and> find_row ?id L_ASSET base x = [?item k x]" if x: "x \<in> set out" for x
  proof -
    obtain j where j: "j < ?n" "x = out ! j" using x by (auto simp: in_set_conv_nth)
    then have "Suc j \<in> {1..?n}" by simp
    then show ?thesis using part(1) [OF _ f [OF \<open>Suc j \<in> {1..?n}\<close>], of ?id x] j by (intro bexI [of _ "Suc j"]) (auto simp: f_def)
  qed
  let ?found = "concat (map (find_row ?id L_ASSET base) stored)"
  have found: "v \<in> set ?found \<longleftrightarrow> (\<exists>k \<in> {1..?n}. v = ?item k (out ! (k - 1)))" for v
  proof
    assume "v \<in> set ?found"
    then obtain x where x: "x \<in> set out" "v \<in> set (find_row ?id L_ASSET base x)" using assms(9) by auto
    obtain k where k: "k \<in> {1..?n}" "x = out ! (k - 1)" "find_row ?id L_ASSET base x = [?item k x]" using row [OF x(1)] by blast
    have "v = ?item k (out ! (k - 1))" using x(2) unfolding k(3) by (simp add: k(2))
    then show "\<exists>k \<in> {1..?n}. v = ?item k (out ! (k - 1))" using k(1) by blast
  next
    assume "\<exists>k \<in> {1..?n}. v = ?item k (out ! (k - 1))"
    then obtain k where k: "k \<in> {1..?n}" "v = ?item k (out ! (k - 1))" by blast
    have "k - 1 < ?n" using k(1) by auto
    then have mem: "out ! (k - 1) \<in> set stored" unfolding assms(9) by (rule nth_mem)
    have "find_row ?id L_ASSET base (out ! (k - 1)) = [?item k (out ! (k - 1))]" by (rule part(1) [OF k(1) f [OF k(1)]]) (simp add: f_def)
    then have "v \<in> set (find_row ?id L_ASSET base (out ! (k - 1)))" unfolding k(2) by simp
    then show "v \<in> set ?found" using mem by auto
  qed
  let ?ord = "sort_key (\<lambda>item. (fst item, fst (snd item))) (map snd (unique_rows ?found))"
  have "fst v \<in> {1..?n} \<and> fst (snd v) = f (fst v)" if "v \<in> set ?found" for v using that unfolding found by auto
  moreover have "\<exists>v \<in> set ?found. fst v = k" if "k \<in> {1..?n}" for k using that found [of "?item k (out ! (k - 1))"] by (intro bexI [of _ "?item k (out ! (k - 1))"]) auto
  ultimately have ord: "map fst ?ord = [1..<Suc ?n]" "set ?ord \<subseteq> set ?found" using ordered_parts [of ?found ?n f] inj by blast+
  have "?ord = map (\<lambda>k. ?item k (out ! (k - 1))) (map fst ?ord)"
  proof -
    have "?item (fst v) (out ! (fst v - 1)) = v" if "v \<in> set ?ord" for v using ord(2) that found [of v] by auto
    then show ?thesis unfolding map_map comp_def by (intro map_idI [symmetric]) blast
  qed
  then have o: "?ord = map (\<lambda>k. ?item k (out ! (k - 1))) [1..<Suc ?n]" unfolding ord(1) .
  have records: "map (\<lambda>v. snd (snd (snd v))) ?ord = out" unfolding o by (rule nth_equalityI) (simp_all del: upt_Suc)
  have "set (totals_of ?ord) = {?n}" unfolding o using assms(2) by (auto simp: totals_of_def split: if_splits)
  moreover have "distinct (totals_of ?ord)" by (simp add: totals_of_def)
  ultimately have totals: "totals_of ?ord = [?n]" by (rule distinct_singleton)
  have root: "stored_root (cp_report_id y) L_ASSET = base"
  proof -
    obtain j where j: "j < ?n" "y = out ! j" using assms(10) by (auto simp: in_set_conv_nth)
    then show ?thesis using part(2) [of "Suc j" "f (Suc j)" "\<lambda>_. Some (f (Suc j))"] f [of "Suc j"] by (simp add: f_def)
  qed
  have "lineage_rows ?id L_ASSET (cp_report_id y) stored = (base, Some ?n, Some True, out)"
    unfolding lineage_rows_def Let_def root totals ord(1) records by (simp add: expected_of_def complete_of_def del: upt_Suc)
  then show ?thesis using parts(1,2) by blast
qed

definition small_report :: "(unit, unit, unit) chunk_report" where
  "small_report = \<lparr>cp_report_id = ''r'', cp_header = (), cp_assets = [], cp_vulnerabilities = replicate 2 \<lparr>fi_source = ''posture'', fi_fields = ()\<rparr>, cp_detector_runs = None\<rparr>"

definition small_chunks :: "(unit, unit, unit) chunk_report list" where
  "small_chunks = [small_report\<lparr>cp_report_id := ''r'', cp_vulnerabilities := [\<lparr>fi_source = ''posture'', fi_fields = ()\<rparr>]\<rparr>,
     small_report\<lparr>cp_report_id := ''r::chunk-2-of-2'', cp_vulnerabilities := [\<lparr>fi_source = ''posture'', fi_fields = ()\<rparr>]\<rparr>]"

lemma small_split: "split_asset_report (\<lambda>_. replicate 64 (CHR ''a'')) ex_sizes 400 small_report = Inr small_chunks"
proof -
  have "plain (replicate MAX_CORRELATION_ID_CHARS (CHR ''x''))" by (simp add: plain_def list_all_iff json_char_len_def)
  then have e: "report_len ex_sizes (sizing_report small_report) = 362"
    using ex_sizing(1) [of "CHR ''x''" 2] by (simp add: report_len_def sizing_report_def small_report_def ex_report_def)
  let ?f = "Finding_item \<lparr>fi_source = ''posture'', fi_fields = ()\<rparr> :: (unit, unit) report_item"
  have p: "pack 400 362 (item_bytes ex_sizes) [[], [?f, ?f]] = Inr [[[], [?f]], [[], [?f]]]"
    by (simp add: pack_def add_item_def put_item_def flush_def separator_def MAX_ENVELOPE_ITEMS_def Let_def ex_sizes_def)
  have c: "rmap_list (report_chunk ex_sizes 400 small_report ''r'' 2) (enumerate 1 [[[], [?f]], [[], [?f]]]) = Inr small_chunks" by code_simp
  have b: "chunk_root (\<lambda>_. replicate 64 (CHR ''a'')) ''r'' 2 = ''r''" by (simp add: chunk_root_def lineage_root_def MAX_CORRELATION_ID_CHARS_def LINEAGE_SUFFIX_RESERVE_def)
  have m: "map Asset_item (cp_assets small_report) = []" "map Finding_item (cp_vulnerabilities small_report) = [?f, ?f]" "cp_report_id small_report = ''r''"
    by (simp_all add: small_report_def numeral_2_eq_2)
  have l: "length [[[], [?f]], [[], [?f]]] = 2" by simp
  have "split_asset_report (\<lambda>_. replicate 64 (CHR ''a'')) ex_sizes 400 small_report = rbind (pack 400 362 (item_bytes ex_sizes) [[], [?f, ?f]]) (\<lambda>cs.
      rmap_list (report_chunk ex_sizes 400 small_report (chunk_root (\<lambda>_. replicate 64 (CHR ''a'')) ''r'' (length cs)) (length cs)) (enumerate 1 cs))"
    unfolding split_asset_report_def Let_def e m by simp
  then show ?thesis unfolding p rbind_simps l b c .
qed

theorem chunks_reassembled_witness:
  "lineage_rows (\<lambda>x. Some (cp_report_id x)) L_ASSET ''r'' (rev small_chunks @ small_chunks) = (''r'', Some 2, Some True, small_chunks)"
proof -
  have l: "length small_chunks = 2" and y: "hd small_chunks \<in> set small_chunks" "cp_report_id (hd small_chunks) = ''r''" "cp_report_id small_report = ''r''"
    by (simp_all add: small_chunks_def small_report_def)
  have g: "good_id ''r''" by code_simp
  have b: "''r'' = chunk_root (\<lambda>_. replicate 64 (CHR ''a'')) ''r'' 2" by (simp add: chunk_root_def lineage_root_def MAX_CORRELATION_ID_CHARS_def LINEAGE_SUFFIX_RESERVE_def)
  have p: "parse_lineage_id ''r'' L_ASSET = None" by code_simp
  show ?thesis
    using chunks_reassembled [OF small_split _ _ _ _ ex_good(2), unfolded y(3) l, OF _ _ g _ b p _ y(1), of "rev small_chunks @ small_chunks"] unfolding y(2) by simp
qed

end
