(* ===== verification/Record_Store.thy ===== *)
theory Record_Store
  imports Lineage_Ids Sql_Table
begin

text \<open>
  The SQLite record store, \<open>analyzer/storage/sqlite.py\<close>: an append-only table with row and byte retention, its statistics row kept by triggers, and the
  reads on it. A payload is the record itself; \<open>model_dump_json\<close> enters as the byte size of a record, and \<open>json_extract\<close> as the value of a top-level field.
  Arguments of \<open>append\<close> stand for the file sizes the process measures before and after a passive checkpoint, and for SQLite's answer at the page ceiling.
  Identifiers come from \<open>AUTOINCREMENT\<close>, so they are never reused.
\<close>

section \<open>State\<close>

record 'p store_row =
  s_id :: nat
  s_payload :: 'p
  s_bytes :: nat

record 'p record_store =
  s_rows :: "'p store_row list"
  s_next_id :: nat
  s_row_count :: nat
  s_total_bytes :: nat

definition empty_store :: "'p record_store" where
  "empty_store = \<lparr>s_rows = [], s_next_id = 1, s_row_count = 0, s_total_bytes = 0\<rparr>"

record 'p store_config =
  st_max_bytes :: nat
  st_max_table_bytes :: nat
  st_max_rows :: nat
  st_max_record_bytes :: nat
  st_read_max_bytes :: nat
  st_size :: "'p \<Rightarrow> nat"
  st_field :: "string \<Rightarrow> 'p \<Rightarrow> string option"

section \<open>Writing\<close>

definition WRITE_OVERHEAD_BYTES :: nat where "WRITE_OVERHEAD_BYTES = 64 * 1024"

definition write_budget :: "'p store_config \<Rightarrow> nat \<Rightarrow> nat \<Rightarrow> nat \<Rightarrow> bool" where
  "write_budget c used checkpointed payload_bytes =
     (let growth = payload_bytes * 2 + WRITE_OVERHEAD_BYTES in
      st_max_bytes c = 0 \<or> used + growth \<le> st_max_bytes c \<or> checkpointed + growth \<le> st_max_bytes c)"

text \<open>\<open>DELETE\<close> with its trigger, one row at a time.\<close>

definition delete_upto :: "nat \<Rightarrow> 'p record_store \<Rightarrow> 'p record_store" where
  "delete_upto cutoff s =
     (let gone = filter (\<lambda>r. s_id r \<le> cutoff) (s_rows s) in
      s\<lparr>s_rows := del_where (\<lambda>r. s_id r \<le> cutoff) (s_rows s), s_row_count := s_row_count s - length gone,
        s_total_bytes := s_total_bytes s - sum_list (map s_bytes gone)\<rparr>)"

definition insert_record :: "'p \<Rightarrow> nat \<Rightarrow> 'p record_store \<Rightarrow> 'p record_store" where
  "insert_record p n s =
     s\<lparr>s_rows := s_rows s @ [\<lparr>s_id = s_next_id s, s_payload = p, s_bytes = n\<rparr>], s_next_id := Suc (s_next_id s),
       s_row_count := s_row_count s + 1, s_total_bytes := s_total_bytes s + n\<rparr>"

fun prune_scan :: "nat \<Rightarrow> nat \<Rightarrow> nat \<Rightarrow> nat \<Rightarrow> nat option \<Rightarrow> 'p store_row list \<Rightarrow> nat option" where
  "prune_scan excess_rows excess_bytes removed_rows removed_bytes cutoff [] = cutoff"
| "prune_scan excess_rows excess_bytes removed_rows removed_bytes cutoff (old # rest) =
     (if excess_rows \<le> Suc removed_rows \<and> excess_bytes \<le> removed_bytes + s_bytes old then Some (s_id old)
      else prune_scan excess_rows excess_bytes (Suc removed_rows) (removed_bytes + s_bytes old) (Some (s_id old)) rest)"

definition prune_for_insert :: "'p store_config \<Rightarrow> nat \<Rightarrow> 'p record_store \<Rightarrow> 'p record_store" where
  "prune_for_insert c incoming s =
     (if st_max_rows c = 0 \<and> st_max_table_bytes c = 0 then s
      else
        let excess_rows = (if st_max_rows c \<noteq> 0 then s_row_count s + 1 - st_max_rows c else 0);
            excess_bytes = (if st_max_table_bytes c \<noteq> 0 then s_total_bytes s + incoming - st_max_table_bytes c else 0) in
        if excess_rows = 0 \<and> excess_bytes = 0 then s
        else case prune_scan excess_rows excess_bytes 0 0 None (sort_key s_id (s_rows s)) of
               None \<Rightarrow> s | Some cutoff \<Rightarrow> delete_upto cutoff s)"

definition append_record :: "'p store_config \<Rightarrow> nat \<Rightarrow> nat \<Rightarrow> bool \<Rightarrow> 'p \<Rightarrow> 'p record_store \<Rightarrow> 'p record_store result" where
  "append_record c used checkpointed page_full p s =
     (let n = st_size c p in
      if st_max_record_bytes c \<noteq> 0 \<and> st_max_record_bytes c < n then Inl StorageCapacityError
      else if st_max_table_bytes c \<noteq> 0 \<and> st_max_table_bytes c < n then Inl StorageCapacityError
      else if \<not> write_budget c used checkpointed n then Inl StorageCapacityError
      else if page_full then Inl StorageCapacityError
      else Inr (insert_record p n (prune_for_insert c n s)))"

section \<open>Reading\<close>

text \<open>Rows are taken while the byte budget of a read lasts.\<close>

fun take_bytes :: "'p store_config \<Rightarrow> nat \<Rightarrow> 'p store_row list \<Rightarrow> 'p store_row list" where
  "take_bytes c consumed [] = []"
| "take_bytes c consumed (r # rs) =
     (if st_read_max_bytes c \<noteq> 0 \<and> st_read_max_bytes c < consumed + s_bytes r then [] else r # take_bytes c (consumed + s_bytes r) rs)"

definition newest_first :: "'p store_row list \<Rightarrow> 'p store_row list" where
  "newest_first rows = rev (sort_key s_id rows)"

definition tail_records :: "'p store_config \<Rightarrow> int \<Rightarrow> int \<Rightarrow> 'p record_store \<Rightarrow> 'p list" where
  "tail_records c limit offset s =
     (if limit \<le> 0 \<or> offset < 0 then []
      else map s_payload (take_bytes c 0 (take (nat limit) (drop (nat offset) (newest_first (s_rows s))))))"

definition field_char :: "char \<Rightarrow> bool" where
  "field_char ch = ((65 \<le> code ch \<and> code ch \<le> 90) \<or> (97 \<le> code ch \<and> code ch \<le> 122) \<or> code ch = 95)"

definition FIELD_RE :: "string \<Rightarrow> bool" where
  "FIELD_RE f = (let s = chop_newline f in s \<noteq> [] \<and> field_char (hd s) \<and> list_all (\<lambda>ch. field_char ch \<or> isdecimal_char ch) (tl s))"

text \<open>The optional filter of a page: a field and the value it must have.\<close>

definition row_matches :: "'p store_config \<Rightarrow> (string \<times> string) option \<Rightarrow> 'p store_row \<Rightarrow> bool" where
  "row_matches c flt r = (case flt of None \<Rightarrow> True | Some (f, v) \<Rightarrow> st_field c f (s_payload r) = Some v)"

definition cursor_page :: "'p store_config \<Rightarrow> int \<Rightarrow> int option \<Rightarrow> (string \<times> string) option \<Rightarrow> 'p record_store \<Rightarrow> ('p list \<times> nat option \<times> bool) result" where
  "cursor_page c limit anchor flt s =
     (if limit \<le> 0 then Inr ([], None, False)
      else if (case flt of None \<Rightarrow> False | Some (f, v) \<Rightarrow> \<not> FIELD_RE f) then Inl StorageCursorError
      else if (case anchor of None \<Rightarrow> False | Some a \<Rightarrow> a \<le> 0) then Inl StorageCursorError
      else
        let page = take_bytes c 0 (take (nat limit) (newest_first (filter (\<lambda>r. (case anchor of None \<Rightarrow> True | Some a \<Rightarrow> int (s_id r) < a) \<and> row_matches c flt r) (s_rows s)))) in
        if page = [] then Inr ([], None, False)
        else let last_id = s_id (last page) in
          Inr (map s_payload page, Some last_id, \<exists>r \<in> set (s_rows s). s_id r < last_id \<and> row_matches c flt r))"

definition find_one :: "'p store_config \<Rightarrow> string \<Rightarrow> string \<Rightarrow> 'p record_store \<Rightarrow> 'p option" where
  "find_one c f v s =
     (if \<not> FIELD_RE f then None
      else map_option s_payload (first_row (order_desc_limit s_id 1 (filter (\<lambda>r. st_field c f (s_payload r) = Some v) (s_rows s)))))"

definition in_lineage :: "'p store_config \<Rightarrow> string \<Rightarrow> lineage_kind \<Rightarrow> string \<Rightarrow> 'p store_row \<Rightarrow> bool" where
  "in_lineage c f kind base r = (map_option (\<lambda>v. stored_root v kind) (st_field c f (s_payload r)) = Some base)"

definition find_lineage :: "'p store_config \<Rightarrow> (string \<times> lineage_kind) option \<Rightarrow> string \<Rightarrow> string \<Rightarrow> lineage_kind \<Rightarrow> 'p record_store \<Rightarrow> 'p list" where
  "find_lineage c configured f v kind s =
     (if configured \<noteq> Some (f, kind) \<or> \<not> FIELD_RE f then []
      else map s_payload (newest_first (filter (in_lineage c f kind (stored_root v kind)) (s_rows s))))"

definition max_id :: "'p store_row list \<Rightarrow> nat" where
  "max_id rows = (if rows = [] then 0 else Max (s_id ` set rows))"

definition lineage_fingerprint :: "'p store_config \<Rightarrow> (string \<times> lineage_kind) option \<Rightarrow> string \<Rightarrow> string \<Rightarrow> lineage_kind \<Rightarrow> 'p record_store \<Rightarrow> nat \<times> nat" where
  "lineage_fingerprint c configured f v kind s =
     (if configured \<noteq> Some (f, kind) \<or> \<not> FIELD_RE f then (0, 0)
      else let rows = filter (in_lineage c f kind (stored_root v kind)) (s_rows s) in (length rows, max_id rows))"

definition store_fingerprint :: "'p record_store \<Rightarrow> nat \<times> nat" where
  "store_fingerprint s = (length (s_rows s), max_id (s_rows s))"

end
