(* ===== verification/Store_Properties.thy ===== *)
theory Store_Properties
  imports Record_Store
begin

text \<open>
  Properties of the record store: retention keeps both caps by removing the shortest oldest prefix and the new record is the newest, cursor paging
  visits every record once while writers append, and an unchanged fingerprint means an unchanged data set.
\<close>

section \<open>Invariant\<close>

definition store_ok :: "'p store_config \<Rightarrow> 'p record_store \<Rightarrow> bool" where
  "store_ok c s = (sorted_wrt (<) (map s_id (s_rows s)) \<and> (\<forall>r \<in> set (s_rows s). 0 < s_id r \<and> s_id r < s_next_id s \<and> s_bytes r = st_size c (s_payload r))
     \<and> 0 < s_next_id s \<and> s_row_count s = length (s_rows s) \<and> s_total_bytes s = sum_list (map s_bytes (s_rows s)))"

lemma store_okD:
  assumes "store_ok c s"
  shows "sorted_wrt (<) (map s_id (s_rows s))" "\<And>r. r \<in> set (s_rows s) \<Longrightarrow> 0 < s_id r \<and> s_id r < s_next_id s" "s_row_count s = length (s_rows s)"
    "s_total_bytes s = sum_list (map s_bytes (s_rows s))" "0 < s_next_id s"
  using assms by (auto simp: store_ok_def)

lemma strict_filter: "sorted_wrt (<) (map f xs) \<Longrightarrow> sorted_wrt (<) (map f (filter P xs))"
  by (induction xs) auto

lemma strict_sort: "sorted_wrt (<) (map f xs) \<Longrightarrow> sort_key f xs = xs"
  by (intro sort_key_id_if_sorted) (simp add: strict_sorted_imp_sorted)

lemma newest_first_rev: "sorted_wrt (<) (map s_id rows) \<Longrightarrow> newest_first rows = rev rows"
  by (simp add: newest_first_def strict_sort)

section \<open>Retention\<close>

lemma prune_scan_spec:
  assumes "rows \<noteq> []"
  shows "\<exists>k. 0 < k \<and> k \<le> length rows \<and> prune_scan er eb a b c rows = Some (s_id (rows ! (k - 1)))
    \<and> (\<forall>j. 0 < j \<and> j < k \<longrightarrow> \<not> (er \<le> a + j \<and> eb \<le> b + sum_list (map s_bytes (take j rows))))
    \<and> (er \<le> a + k \<and> eb \<le> b + sum_list (map s_bytes (take k rows)) \<or> k = length rows)"
  using assms
proof (induction rows arbitrary: a b c)
  case (Cons r rs)
  let ?now = "er \<le> Suc a \<and> eb \<le> b + s_bytes r"
  show ?case
  proof (cases "?now \<or> rs = []")
    case True
    then show ?thesis by (intro exI [of _ 1]) auto
  next
    case False
    then obtain k where k: "0 < k" "k \<le> length rs" "prune_scan er eb (Suc a) (b + s_bytes r) (Some (s_id r)) rs = Some (s_id (rs ! (k - 1)))"
      "\<forall>j. 0 < j \<and> j < k \<longrightarrow> \<not> (er \<le> Suc a + j \<and> eb \<le> b + s_bytes r + sum_list (map s_bytes (take j rs)))"
      "er \<le> Suc a + k \<and> eb \<le> b + s_bytes r + sum_list (map s_bytes (take k rs)) \<or> k = length rs"
      using Cons.IH [of "Suc a" "b + s_bytes r" "Some (s_id r)"] by blast
    have "\<not> (er \<le> a + j \<and> eb \<le> b + sum_list (map s_bytes (take j (r # rs))))" if "0 < j" "j < Suc k" for j
    proof (cases j)
      case (Suc i)
      show ?thesis
      proof (cases "i = 0")
        case True
        then show ?thesis using Suc False by simp
      next
        case i: False
        then show ?thesis using Suc k(4) that by (auto simp: add.assoc)
      qed
    qed (use that in simp)
    then show ?thesis using False k by (intro exI [of _ "Suc k"]) (auto simp: add.assoc)
  qed
qed simp

lemma delete_prefix:
  assumes "sorted_wrt (<) (map s_id rows)" "0 < k" "k \<le> length rows"
  shows "filter (\<lambda>r. s_id r \<le> s_id (rows ! (k - 1))) rows = take k rows" "del_where (\<lambda>r. s_id r \<le> s_id (rows ! (k - 1))) rows = drop k rows"
proof -
  let ?P = "\<lambda>r. s_id r \<le> s_id (rows ! (k - 1))"
  have lt: "s_id (rows ! i) < s_id (rows ! j)" if "i < j" "j < length rows" for i j
    using assms(1) that by (simp add: sorted_wrt_map sorted_wrt_iff_nth_less)
  have "?P (rows ! i) \<longleftrightarrow> i < k" if "i < length rows" for i
  proof (cases "i < k")
    case True
    then have "i = k - 1 \<or> (i < k - 1 \<and> k - 1 < length rows)" using assms(3) by linarith
    then show ?thesis using lt [of i "k - 1"] True by (auto simp: less_imp_le)
  next
    case False
    then have "k - 1 < i" using assms(2) by linarith
    then show ?thesis using lt [of "k - 1" i] False that by auto
  qed
  then have t: "\<forall>r \<in> set (take k rows). ?P r" and d: "\<forall>r \<in> set (drop k rows). \<not> ?P r"
    using assms(3) by (auto simp: in_set_conv_nth)
  have "filter ?P (take k rows @ drop k rows) = take k rows" "filter (\<lambda>r. \<not> ?P r) (take k rows @ drop k rows) = drop k rows"
    unfolding filter_append using t d by (simp_all add: filter_empty_conv filter_id_conv)
  then show "filter ?P rows = take k rows" "del_where ?P rows = drop k rows" by (simp_all add: del_where_def)
qed

definition in_caps :: "'p store_config \<Rightarrow> 'p store_row list \<Rightarrow> bool" where
  "in_caps c rows = ((st_max_rows c \<noteq> 0 \<longrightarrow> length rows \<le> st_max_rows c) \<and> (st_max_table_bytes c \<noteq> 0 \<longrightarrow> sum_list (map s_bytes rows) \<le> st_max_table_bytes c))"

lemma sum_take_drop: "sum_list (map f (take k xs)) + sum_list (map f (drop k xs)) = (sum_list (map f xs) :: nat)"
  by (metis append_take_drop_id map_append sum_list_append)

lemma in_caps_drop:
  fixes s :: "'p record_store"
  assumes "k \<le> length (s_rows s)" "s_row_count s = length (s_rows s)" "s_total_bytes s = sum_list (map s_bytes (s_rows s))"
  shows "in_caps c (drop k (s_rows s) @ [\<lparr>s_id = i, s_payload = p, s_bytes = n\<rparr>]) \<longleftrightarrow>
    (if st_max_rows c \<noteq> 0 then s_row_count s + 1 - st_max_rows c else 0) \<le> k
    \<and> (if st_max_table_bytes c \<noteq> 0 then s_total_bytes s + n - st_max_table_bytes c else 0) \<le> sum_list (map s_bytes (take k (s_rows s)))"
  using assms sum_take_drop [of s_bytes k "s_rows s"] by (auto simp: in_caps_def)

lemma prune_spec:
  fixes s :: "'p record_store" and p :: 'p
  assumes ok: "store_ok c s" and fits: "st_max_table_bytes c \<noteq> 0 \<longrightarrow> n \<le> st_max_table_bytes c"
  defines "new \<equiv> \<lparr>s_id = s_next_id s, s_payload = p, s_bytes = n\<rparr>"
  shows "\<exists>k \<le> length (s_rows s). s_rows (prune_for_insert c n s) = drop k (s_rows s) \<and> s_next_id (prune_for_insert c n s) = s_next_id s
    \<and> s_row_count (prune_for_insert c n s) = length (drop k (s_rows s)) \<and> s_total_bytes (prune_for_insert c n s) = sum_list (map s_bytes (drop k (s_rows s)))
    \<and> in_caps c (drop k (s_rows s) @ [new]) \<and> (\<forall>j < k. \<not> in_caps c (drop j (s_rows s) @ [new]))"
proof -
  note d = store_okD [OF ok]
  define er where "er = (if st_max_rows c \<noteq> 0 then s_row_count s + 1 - st_max_rows c else 0)"
  define eb where "eb = (if st_max_table_bytes c \<noteq> 0 then s_total_bytes s + n - st_max_table_bytes c else 0)"
  have caps: "in_caps c (drop k (s_rows s) @ [new]) \<longleftrightarrow> er \<le> k \<and> eb \<le> sum_list (map s_bytes (take k (s_rows s)))" if "k \<le> length (s_rows s)" for k
    unfolding new_def er_def eb_def using in_caps_drop [OF that d(3,4)] by simp
  have pr: "prune_for_insert c n s = (if er = 0 \<and> eb = 0 then s else case prune_scan er eb 0 0 None (s_rows s) of None \<Rightarrow> s | Some cutoff \<Rightarrow> delete_upto cutoff s)"
    by (simp add: prune_for_insert_def er_def eb_def Let_def strict_sort [OF d(1)])
  have le: "er \<le> length (s_rows s)" "eb \<le> sum_list (map s_bytes (s_rows s))" using d(3,4) fits by (auto simp: er_def eb_def)
  show ?thesis
  proof (cases "er = 0 \<and> eb = 0")
    case True
    then show ?thesis using caps [of 0] d(3,4) by (intro exI [of _ 0]) (simp add: pr)
  next
    case False
    then have ne: "s_rows s \<noteq> []" using le by auto
    obtain k where k: "0 < k" "k \<le> length (s_rows s)" "prune_scan er eb 0 0 None (s_rows s) = Some (s_id (s_rows s ! (k - 1)))"
      "\<forall>j. 0 < j \<and> j < k \<longrightarrow> \<not> (er \<le> j \<and> eb \<le> sum_list (map s_bytes (take j (s_rows s))))"
      "er \<le> k \<and> eb \<le> sum_list (map s_bytes (take k (s_rows s))) \<or> k = length (s_rows s)"
      using prune_scan_spec [OF ne, of er eb 0 0 None] by auto
    have least: "\<not> in_caps c (drop j (s_rows s) @ [new])" if "j < k" for j
      using caps [of j] k(2,4) False that by (cases "j = 0") auto
    have sat: "in_caps c (drop k (s_rows s) @ [new])" using caps [OF k(2)] k(5) le by auto
    have "prune_for_insert c n s = delete_upto (s_id (s_rows s ! (k - 1))) s" using False k(3) by (auto simp: pr)
    then have "prune_for_insert c n s = s\<lparr>s_rows := drop k (s_rows s), s_row_count := s_row_count s - length (take k (s_rows s)),
        s_total_bytes := s_total_bytes s - sum_list (map s_bytes (take k (s_rows s)))\<rparr>"
      unfolding delete_upto_def Let_def delete_prefix [OF d(1) k(1,2)] .
    then show ?thesis using k(2) sat least sum_take_drop [of s_bytes k "s_rows s"] d(3,4) by (intro exI [of _ k]) simp
  qed
qed

lemma append_spec:
  assumes "store_ok c s" "append_record c used cp full p s = Inr s'"
  shows "store_ok c s'" "s_next_id s' = Suc (s_next_id s)"
    "\<exists>k \<le> length (s_rows s). s_rows s' = drop k (s_rows s) @ [\<lparr>s_id = s_next_id s, s_payload = p, s_bytes = st_size c p\<rparr>]
      \<and> in_caps c (s_rows s') \<and> (\<forall>j < k. \<not> in_caps c (drop j (s_rows s) @ [\<lparr>s_id = s_next_id s, s_payload = p, s_bytes = st_size c p\<rparr>]))"
proof -
  let ?n = "st_size c p"
  have s': "s' = insert_record p ?n (prune_for_insert c ?n s)" and fits: "st_max_table_bytes c \<noteq> 0 \<longrightarrow> ?n \<le> st_max_table_bytes c"
    using assms(2) by (auto simp: append_record_def Let_def split: if_splits)
  obtain k where k: "k \<le> length (s_rows s)" "s_rows (prune_for_insert c ?n s) = drop k (s_rows s)" "s_next_id (prune_for_insert c ?n s) = s_next_id s"
    "s_row_count (prune_for_insert c ?n s) = length (drop k (s_rows s))" "s_total_bytes (prune_for_insert c ?n s) = sum_list (map s_bytes (drop k (s_rows s)))"
    "in_caps c (drop k (s_rows s) @ [\<lparr>s_id = s_next_id s, s_payload = p, s_bytes = ?n\<rparr>])"
    "\<forall>j < k. \<not> in_caps c (drop j (s_rows s) @ [\<lparr>s_id = s_next_id s, s_payload = p, s_bytes = ?n\<rparr>])"
    using prune_spec [OF assms(1) fits, of p] by blast
  have rows: "s_rows s' = drop k (s_rows s) @ [\<lparr>s_id = s_next_id s, s_payload = p, s_bytes = ?n\<rparr>]" by (simp add: s' insert_record_def k(2,3))
  show "s_next_id s' = Suc (s_next_id s)" by (simp add: s' insert_record_def k(3))
  show "\<exists>k \<le> length (s_rows s). s_rows s' = drop k (s_rows s) @ [\<lparr>s_id = s_next_id s, s_payload = p, s_bytes = st_size c p\<rparr>]
      \<and> in_caps c (s_rows s') \<and> (\<forall>j < k. \<not> in_caps c (drop j (s_rows s) @ [\<lparr>s_id = s_next_id s, s_payload = p, s_bytes = st_size c p\<rparr>]))"
    using rows k(1,6,7) by auto
  have "sorted_wrt (<) (map s_id (drop k (s_rows s)))" using store_okD(1) [OF assms(1)] by (metis drop_map sorted_wrt_drop)
  moreover have "\<forall>r \<in> set (drop k (s_rows s)). 0 < s_id r \<and> s_id r < s_next_id s \<and> s_bytes r = st_size c (s_payload r)"
    using assms(1) by (auto simp: store_ok_def dest: in_set_dropD)
  ultimately show "store_ok c s'"
    using store_okD(5) [OF assms(1)] k(3-5) unfolding store_ok_def rows by (auto simp: s' insert_record_def sorted_wrt_append less_SucI)
qed

text \<open>The newest record wins a lookup.\<close>

lemma append_found:
  assumes "store_ok c s" "append_record c used cp full p s = Inr s'" "FIELD_RE f" "st_field c f p = Some v"
  shows "find_one c f v s' = Some p"
proof -
  obtain k where k: "s_rows s' = drop k (s_rows s) @ [\<lparr>s_id = s_next_id s, s_payload = p, s_bytes = st_size c p\<rparr>]" using append_spec(3) [OF assms(1,2)] by blast
  have "sort_key s_id (filter (\<lambda>r. st_field c f (s_payload r) = Some v) (s_rows s')) = filter (\<lambda>r. st_field c f (s_payload r) = Some v) (s_rows s')"
    by (intro strict_sort strict_filter store_okD(1) [OF append_spec(1) [OF assms(1,2)]])
  then show ?thesis using assms(3,4) by (simp add: find_one_def order_desc_limit_def first_row_def k)
qed

section \<open>Paging\<close>

text \<open>Later states of a store to which records are appended: an oldest prefix may be gone, newer rows have newer identifiers.\<close>

definition store_grows :: "'p record_store \<Rightarrow> nat \<Rightarrow> 'p record_store \<Rightarrow> bool" where
  "store_grows s k s' = (\<exists>new. s_rows s' = drop k (s_rows s) @ new \<and> (\<forall>r \<in> set new. s_next_id s \<le> s_id r) \<and> s_next_id s \<le> s_next_id s')"

lemma take_bytes_prefix: "\<exists>n \<le> length rows. take_bytes c b rows = take n rows"
proof (induction rows arbitrary: b)
  case (Cons r rs)
  obtain n where "n \<le> length rs" "take_bytes c (b + s_bytes r) rs = take n rs" using Cons by blast
  then show ?case by (cases "st_read_max_bytes c \<noteq> 0 \<and> st_read_max_bytes c < b + s_bytes r") (auto intro: exI [of _ 0] exI [of _ "Suc n"])
qed simp

lemma take_bytes_first: "st_read_max_bytes c = 0 \<or> s_bytes r \<le> st_read_max_bytes c \<Longrightarrow> take_bytes c 0 (r # rs) \<noteq> []"
  by auto

definition readable :: "'p store_config \<Rightarrow> 'p record_store \<Rightarrow> bool" where
  "readable c s = (st_read_max_bytes c = 0 \<or> (\<forall>r \<in> set (s_rows s). s_bytes r \<le> st_read_max_bytes c))"

definition page_rows :: "'p store_config \<Rightarrow> nat \<Rightarrow> (string \<times> string) option \<Rightarrow> 'p record_store \<Rightarrow> 'p store_row list" where
  "page_rows c a flt s = rev (filter (\<lambda>r. s_id r < a \<and> row_matches c flt r) (s_rows s))"

lemma page_rows_after:
  assumes "store_ok c s" "0 < n" "n \<le> length (page_rows c a flt s)" "b = s_id (page_rows c a flt s ! (n - 1))"
  shows "page_rows c b flt s = drop n (page_rows c a flt s)" "b < a" "0 < b"
proof -
  let ?R = "page_rows c a flt s"
  have m: "n - 1 < length ?R" "n = Suc (n - 1)" using assms(2,3) by linarith+
  have mem: "?R ! (n - 1) \<in> set (s_rows s)" "s_id (?R ! (n - 1)) < a" using nth_mem [OF m(1)] by (auto simp: page_rows_def)
  show "b < a" "0 < b" using mem store_okD(2) [OF assms(1)] assms(4) by auto
  have desc: "sorted_wrt (\<lambda>x y. y < x) (map s_id ?R)"
    using strict_filter [OF store_okD(1) [OF assms(1)], of "\<lambda>r. s_id r < a \<and> row_matches c flt r"]
    by (simp add: page_rows_def rev_map [symmetric] sorted_wrt_rev)
  have gt: "s_id (?R ! j) < s_id (?R ! i)" if "i < j" "j < length ?R" for i j
    using desc that by (simp add: sorted_wrt_map sorted_wrt_iff_nth_less)
  have below: "s_id (?R ! i) < b \<longleftrightarrow> n \<le> i" if "i < length ?R" for i
  proof (cases "n \<le> i")
    case True
    then show ?thesis using gt [of "n - 1" i] that m(2) assms(4) by simp
  next
    case False
    then have "i = n - 1 \<or> i < n - 1" by linarith
    then show ?thesis using gt [of i "n - 1"] m(1) False assms(4) by auto
  qed
  have "filter (\<lambda>r. s_id r < b) (take n ?R) = []" "filter (\<lambda>r. s_id r < b) (drop n ?R) = drop n ?R"
    using below assms(3) by (auto simp: filter_empty_conv filter_id_conv in_set_conv_nth)
  then have "filter (\<lambda>r. s_id r < b) (take n ?R @ drop n ?R) = drop n ?R" by (simp only: filter_append append_Nil)
  then have "filter (\<lambda>r. s_id r < b) ?R = drop n ?R" by simp
  moreover have "filter (\<lambda>r. s_id r < b) ?R = page_rows c b flt s"
    using \<open>b < a\<close> by (auto simp: page_rows_def rev_filter intro: filter_cong)
  ultimately show "page_rows c b flt s = drop n ?R" by simp
qed

lemma page_anchor_none:
  assumes "store_ok c s"
  shows "cursor_page c limit None flt s = cursor_page c limit (Some (int (s_next_id s))) flt s"
proof -
  have "filter (\<lambda>r. row_matches c flt r) (s_rows s) = filter (\<lambda>r. int (s_id r) < int (s_next_id s) \<and> row_matches c flt r) (s_rows s)"
    using store_okD(2) [OF assms] by (intro filter_cong) auto
  then show ?thesis using store_okD(5) [OF assms] by (simp add: cursor_page_def)
qed

lemma cursor_page_spec:
  assumes "store_ok c s" "readable c s" "0 < limit" "case flt of None \<Rightarrow> True | Some (f, v) \<Rightarrow> FIELD_RE f" "0 < a"
  defines "R \<equiv> page_rows c a flt s"
  shows "if R = [] then cursor_page c limit (Some (int a)) flt s = Inr ([], None, False)
    else \<exists>n. 0 < n \<and> n \<le> length R \<and> cursor_page c limit (Some (int a)) flt s = Inr (map s_payload (take n R), Some (s_id (R ! (n - 1))), n < length R)"
proof -
  have nf: "newest_first (filter (\<lambda>r. int (s_id r) < int a \<and> row_matches c flt r) (s_rows s)) = R"
    using newest_first_rev [OF strict_filter [OF store_okD(1) [OF assms(1)]]] by (simp add: R_def page_rows_def)
  define page where "page = take_bytes c 0 (take (nat limit) R)"
  have eval: "cursor_page c limit (Some (int a)) flt s = (if page = [] then Inr ([], None, False)
      else Inr (map s_payload page, Some (s_id (last page)), \<exists>r \<in> set (s_rows s). s_id r < s_id (last page) \<and> row_matches c flt r))"
    using assms(3-5) by (auto simp: cursor_page_def Let_def nf [simplified] page_def split: option.splits)
  show ?thesis
  proof (cases "R = []")
    case True
    then show ?thesis by (simp add: eval page_def)
  next
    case False
    then obtain x xs where x: "take (nat limit) R = x # xs" using assms(3) by (cases "take (nat limit) R") auto
    have "x \<in> set R" using x by (metis in_set_takeD list.set_intros(1))
    then have "st_read_max_bytes c = 0 \<or> s_bytes x \<le> st_read_max_bytes c" using assms(2) by (auto simp: readable_def R_def page_rows_def)
    then have ne: "page \<noteq> []" unfolding page_def x by (rule take_bytes_first)
    obtain k where k: "page = take k (take (nat limit) R)" using take_bytes_prefix unfolding page_def by blast
    define n where "n = min (min k (nat limit)) (length R)"
    have n: "page = take n R" "0 < n" "n \<le> length R" using k ne by (auto simp: n_def min_def)
    have last: "last page = R ! (n - 1)" using n ne by (simp add: last_conv_nth)
    have "(\<exists>r \<in> set (s_rows s). s_id r < s_id (R ! (n - 1)) \<and> row_matches c flt r) \<longleftrightarrow> page_rows c (s_id (R ! (n - 1))) flt s \<noteq> []"
      by (auto simp: page_rows_def filter_empty_conv)
    then have "(\<exists>r \<in> set (s_rows s). s_id r < s_id (R ! (n - 1)) \<and> row_matches c flt r) \<longleftrightarrow> n < length R"
      using page_rows_after(1) [OF assms(1) n(2) n(3) [unfolded R_def] refl] by (simp add: R_def not_le)
    then have "cursor_page c limit (Some (int a)) flt s = Inr (map s_payload (take n R), Some (s_id (R ! (n - 1))), n < length R)"
      unfolding eval last if_not_P [OF ne] by (simp add: n(1))
    then show ?thesis unfolding if_not_P [OF False] using n(2,3) by blast
  qed
qed

fun read_pages :: "'p store_config \<Rightarrow> int \<Rightarrow> (string \<times> string) option \<Rightarrow> 'p record_store list \<Rightarrow> nat option \<Rightarrow> 'p list result" where
  "read_pages c limit flt [] anchor = Inr []"
| "read_pages c limit flt (s # ss) anchor =
     rbind (cursor_page c limit (map_option int anchor) flt s) (\<lambda>(page, nxt, more).
       if more then rbind (read_pages c limit flt ss nxt) (\<lambda>rest. Inr (page @ rest)) else Inr page)"

lemma page_rows_store_grows: "store_grows s 0 s' \<Longrightarrow> a \<le> s_next_id s \<Longrightarrow> page_rows c a flt s' = page_rows c a flt s"
  by (fastforce simp: store_grows_def page_rows_def filter_empty_conv)

lemma read_pages_from:
  assumes "successively (\<lambda>s s'. store_grows s 0 s') (s # ss)" "\<forall>x \<in> set (s # ss). store_ok c x \<and> readable c x" "0 < limit"
    "case flt of None \<Rightarrow> True | Some (f, v) \<Rightarrow> FIELD_RE f" "0 < a" "a \<le> s_next_id s" "length (page_rows c a flt s) \<le> length (s # ss)"
  shows "read_pages c limit flt (s # ss) (Some a) = Inr (map s_payload (page_rows c a flt s))"
  using assms
proof (induction ss arbitrary: s a)
  case Nil
  let ?R = "page_rows c a flt s"
  note spec = cursor_page_spec [of c s limit flt a]
  show ?case
  proof (cases "?R = []")
    case True
    then show ?thesis using spec Nil by simp
  next
    case False
    then obtain n where n: "0 < n" "n \<le> length ?R" "cursor_page c limit (Some (int a)) flt s = Inr (map s_payload (take n ?R), Some (s_id (?R ! (n - 1))), n < length ?R)"
      using spec Nil by auto
    have "n = length ?R" using n(1,2) Nil.prems(7) by simp
    then show ?thesis using n(3) by (simp del: rbind_eq_Inr)
  qed
next
  case (Cons s' ss)
  let ?R = "page_rows c a flt s"
  have ok: "store_ok c s" "readable c s" and gr: "store_grows s 0 s'" using Cons.prems(1,2) by auto
  note spec = cursor_page_spec [OF ok Cons.prems(3-5)]
  show ?case
  proof (cases "?R = []")
    case True
    then show ?thesis using spec by simp
  next
    case False
    then obtain n where n: "0 < n" "n \<le> length ?R" "cursor_page c limit (Some (int a)) flt s = Inr (map s_payload (take n ?R), Some (s_id (?R ! (n - 1))), n < length ?R)"
      using spec by auto
    let ?b = "s_id (?R ! (n - 1))"
    note after = page_rows_after [OF ok(1) n(1,2) refl]
    have b: "?b \<le> s_next_id s" using after(2) Cons.prems(6) by simp
    have rest: "page_rows c ?b flt s' = drop n ?R" using page_rows_store_grows [OF gr b] after(1) by simp
    have len: "length (page_rows c ?b flt s') \<le> length (s' # ss)" unfolding rest using Cons.prems(7) n(1) by simp
    have "?b \<le> s_next_id s'" using b gr by (auto simp: store_grows_def)
    moreover have "successively (\<lambda>s s'. store_grows s 0 s') (s' # ss)" "\<forall>x \<in> set (s' # ss). store_ok c x \<and> readable c x" using Cons.prems(1,2) by simp_all
    ultimately have ih: "read_pages c limit flt (s' # ss) (Some ?b) = Inr (map s_payload (drop n ?R))"
      using Cons.IH [OF _ _ Cons.prems(3,4) after(3) _ len] unfolding rest by blast
    have "read_pages c limit flt (s # s' # ss) (Some a) =
      (if n < length ?R then rbind (read_pages c limit flt (s' # ss) (Some ?b)) (\<lambda>rest. Inr (map s_payload (take n ?R) @ rest)) else Inr (map s_payload (take n ?R)))"
      unfolding read_pages.simps(2) [of _ _ _ s] option.map n(3) rbind_simps prod.case ..
    then show ?thesis using n(2) unfolding ih rbind_simps by (simp flip: map_append)
  qed
qed

section \<open>Fingerprints\<close>

definition after_append :: "'p store_config \<Rightarrow> nat \<times> nat \<times> bool \<times> 'p \<Rightarrow> 'p record_store \<Rightarrow> 'p record_store" where
  "after_append c op s = (case op of (used, cp, full, p) \<Rightarrow> (case append_record c used cp full p s of Inl e \<Rightarrow> s | Inr s' \<Rightarrow> s'))"

lemma store_grows_refl: "store_grows s 0 s"
  by (simp add: store_grows_def)

lemma store_grows_trans:
  assumes "store_grows s k t" "store_grows t j u"
  shows "\<exists>i. store_grows s i u"
proof -
  obtain new1 new2 where "s_rows t = drop k (s_rows s) @ new1" "s_rows u = drop j (s_rows t) @ new2" "\<forall>r \<in> set new1. s_next_id s \<le> s_id r"
    "\<forall>r \<in> set new2. s_next_id t \<le> s_id r" "s_next_id s \<le> s_next_id t" "s_next_id t \<le> s_next_id u"
    using assms unfolding store_grows_def by blast
  then show ?thesis unfolding store_grows_def
    by (intro exI [of _ "j + k"] exI [of _ "drop (j - length (drop k (s_rows s))) new1 @ new2"]) (fastforce dest: in_set_dropD)
qed

lemma after_append_ok:
  assumes "store_ok c s"
  shows "store_ok c (after_append c op s)" "\<exists>k. store_grows s k (after_append c op s)"
proof -
  obtain used cp full p where op: "op = (used, cp, full, p)" by (metis prod_cases4)
  show "store_ok c (after_append c op s)" using assms append_spec(1) [OF assms] by (auto simp: after_append_def op split: sum.splits)
  show "\<exists>k. store_grows s k (after_append c op s)"
  proof (cases "append_record c used cp full p s")
    case (Inr s')
    obtain k where "s_rows s' = drop k (s_rows s) @ [\<lparr>s_id = s_next_id s, s_payload = p, s_bytes = st_size c p\<rparr>]" using append_spec(3) [OF assms Inr] by blast
    then have "store_grows s k s'" using append_spec(2) [OF assms Inr] by (auto simp: store_grows_def)
    then show ?thesis by (auto simp: after_append_def op Inr)
  qed (auto simp: after_append_def op intro: store_grows_refl)
qed

lemma after_appends_ok: "store_ok c s \<Longrightarrow> store_ok c (fold (after_append c) ops s) \<and> (\<exists>k. store_grows s k (fold (after_append c) ops s))"
proof (induction ops arbitrary: s)
  case (Cons op ops)
  then show ?case using after_append_ok [OF Cons.prems, of op] Cons.IH [of "after_append c op s"] store_grows_trans by fastforce
qed (auto intro: store_grows_refl)

lemma max_id_bound:
  assumes "store_ok c s"
  shows "max_id (filter P (s_rows s)) < s_next_id s"
proof (cases "filter P (s_rows s) = []")
  case False
  have "Max (s_id ` set (filter P (s_rows s))) \<in> s_id ` set (filter P (s_rows s))" using False by (intro Max_in) (auto simp: filter_empty_conv)
  then show ?thesis using store_okD(2) [OF assms] False by (auto simp: max_id_def)
qed (simp add: max_id_def store_okD(5) [OF assms])

lemma max_id_upper: "r \<in> set rows \<Longrightarrow> s_id r \<le> max_id rows"
  by (auto simp: max_id_def)

lemma filter_unchanged:
  assumes "store_ok c s" "store_grows s k t" "length (filter P (s_rows t)) = length (filter P (s_rows s))" "max_id (filter P (s_rows t)) = max_id (filter P (s_rows s))"
  shows "filter P (s_rows t) = filter P (s_rows s)"
proof -
  obtain new where new: "s_rows t = drop k (s_rows s) @ new" "\<forall>r \<in> set new. s_next_id s \<le> s_id r" using assms(2) by (auto simp: store_grows_def)
  have "\<not> P r" if "r \<in> set new" for r
    using that new max_id_upper [of r "filter P (s_rows t)"] max_id_bound [OF assms(1), of P] assms(4) by force
  then have none: "filter P new = []" by (simp add: filter_empty_conv)
  have split: "filter P (s_rows s) = filter P (take k (s_rows s)) @ filter P (drop k (s_rows s))" by (metis append_take_drop_id filter_append)
  then have "filter P (take k (s_rows s)) = []" using assms(3) none unfolding new(1) by simp
  then show ?thesis using split none new(1) by simp
qed

section \<open>Properties\<close>

text \<open>C31: a successful append keeps the statistics row exact and both retention caps, by deleting the shortest prefix of oldest rows that makes room; the new
  record is the newest and is what a lookup by any of its fields returns.\<close>

theorem store_retention:
  assumes "store_ok c s" "append_record c used cp full p s = Inr s'"
  shows "store_ok c s' \<and> in_caps c (s_rows s')
    \<and> (\<exists>k \<le> length (s_rows s). s_rows s' = drop k (s_rows s) @ [\<lparr>s_id = s_next_id s, s_payload = p, s_bytes = st_size c p\<rparr>]
        \<and> (\<forall>j < k. \<not> in_caps c (drop j (s_rows s) @ [\<lparr>s_id = s_next_id s, s_payload = p, s_bytes = st_size c p\<rparr>])))
    \<and> (FIELD_RE f \<and> st_field c f p = Some v \<longrightarrow> find_one c f v s' = Some p)"
proof -
  note ok = append_spec(1) [OF assms]
  obtain k where k: "k \<le> length (s_rows s)" "s_rows s' = drop k (s_rows s) @ [\<lparr>s_id = s_next_id s, s_payload = p, s_bytes = st_size c p\<rparr>]" "in_caps c (s_rows s')"
    "\<forall>j < k. \<not> in_caps c (drop j (s_rows s) @ [\<lparr>s_id = s_next_id s, s_payload = p, s_bytes = st_size c p\<rparr>])"
    using append_spec(3) [OF assms] by blast
  show ?thesis using ok k append_found [OF assms] by blast
qed


text \<open>The fingerprint of a lineage (its count and its newest row identifier) is sound for caching: whatever records are appended, of any size and with whatever
  retention deletes, an unchanged fingerprint means the lineage itself is unchanged.\<close>

theorem lineage_fingerprint_sound:
  assumes "store_ok c s" "lineage_fingerprint c conf f v kind (fold (after_append c) ops s) = lineage_fingerprint c conf f v kind s"
  shows "find_lineage c conf f v kind (fold (after_append c) ops s) = find_lineage c conf f v kind s"
proof (cases "conf \<noteq> Some (f, kind) \<or> \<not> FIELD_RE f")
  case False
  obtain k where "store_grows s k (fold (after_append c) ops s)" using after_appends_ok [OF assms(1)] by blast
  then have "filter (in_lineage c f kind (stored_root v kind)) (s_rows (fold (after_append c) ops s)) = filter (in_lineage c f kind (stored_root v kind)) (s_rows s)"
    by (rule filter_unchanged [OF assms(1)]) (use assms(2) False in \<open>simp_all add: lineage_fingerprint_def Let_def\<close>)
  then show ?thesis using False by (simp add: find_lineage_def)
qed (auto simp: find_lineage_def)

section \<open>Witnesses\<close>

definition wit_config :: "string store_config" where
  "wit_config = \<lparr>st_max_bytes = 0, st_max_table_bytes = 5, st_max_rows = 2, st_max_record_bytes = 0, st_read_max_bytes = 3, st_size = length,
     st_field = (\<lambda>f p. if f = ''id'' then Some p else None)\<rparr>"

definition wit_store :: "string record_store" where
  "wit_store = \<lparr>s_rows = [\<lparr>s_id = 1, s_payload = ''a'', s_bytes = 1\<rparr>, \<lparr>s_id = 2, s_payload = ''bc'', s_bytes = 2\<rparr>], s_next_id = 3, s_row_count = 2, s_total_bytes = 3\<rparr>"

lemma wit_store_ok: "store_ok wit_config wit_store" "readable wit_config wit_store"
  by (simp_all add: wit_store_def store_ok_def readable_def wit_config_def)

theorem store_retention_witness:
  "\<exists>s'. append_record wit_config 0 0 False ''def'' wit_store = Inr s' \<and> s_rows s' = [\<lparr>s_id = 2, s_payload = ''bc'', s_bytes = 2\<rparr>, \<lparr>s_id = 3, s_payload = ''def'', s_bytes = 3\<rparr>]
    \<and> find_one wit_config ''id'' ''def'' s' = Some ''def''"
proof -
  obtain s' where s': "append_record wit_config 0 0 False ''def'' wit_store = Inr s'"
    "s_rows s' = [\<lparr>s_id = 2, s_payload = ''bc'', s_bytes = 2\<rparr>, \<lparr>s_id = 3, s_payload = ''def'', s_bytes = 3\<rparr>]"
    unfolding wit_store_def by (simp add: append_record_def write_budget_def wit_config_def prune_for_insert_def delete_upto_def insert_record_def del_where_def Let_def)
  have "FIELD_RE ''id''" by code_simp
  then show ?thesis using s' store_retention [OF wit_store_ok(1) s'(1), of "''id''" "''def''"] by (simp add: wit_config_def)
qed


theorem lineage_fingerprint_sound_witness:
  "find_lineage wit_config (Some (''id'', L_ASSET)) ''id'' ''bc'' L_ASSET (fold (after_append wit_config) [(0, 0, False, ''def'')] wit_store) = [''bc'']"
proof -
  let ?s = "\<lparr>s_rows = [\<lparr>s_id = 2, s_payload = ''bc'', s_bytes = 2\<rparr>, \<lparr>s_id = 3, s_payload = ''def'', s_bytes = 3\<rparr>], s_next_id = 4, s_row_count = 2, s_total_bytes = 5\<rparr>"
  have s: "fold (after_append wit_config) [(0, 0, False, ''def'')] wit_store = ?s"
    by (simp add: after_append_def append_record_def write_budget_def wit_config_def wit_store_def prune_for_insert_def delete_upto_def insert_record_def del_where_def Let_def)
  have root: "stored_root ''a'' L_ASSET = ''a''" "stored_root ''bc'' L_ASSET = ''bc''" "stored_root ''def'' L_ASSET = ''def''" "FIELD_RE ''id''" by code_simp+
  have "lineage_fingerprint wit_config (Some (''id'', L_ASSET)) ''id'' ''bc'' L_ASSET (fold (after_append wit_config) [(0, 0, False, ''def'')] wit_store)
      = lineage_fingerprint wit_config (Some (''id'', L_ASSET)) ''id'' ''bc'' L_ASSET wit_store"
    unfolding s by (simp add: lineage_fingerprint_def wit_store_def in_lineage_def wit_config_def root max_id_def)
  from lineage_fingerprint_sound [OF wit_store_ok(1) this]
  show ?thesis by (simp add: find_lineage_def wit_store_def in_lineage_def wit_config_def root newest_first_def)
qed

end
