(* ===== verification/Cvss_Severity.thy ===== *)
theory Cvss_Severity
  imports Osv_Match Scoring Micros_Bounds
begin

text \<open>
  Severity of an advisory: \<open>analyzer/detect/cvss.py\<close> and the parsing and severity side of \<open>OsvRecord\<close> in \<open>analyzer/detect/osv.py\<close>.

  The CVSS v3 base score is computed in binary64: every literal and every operation is rounded by \<open>float_round\<close>, and the power the changed-scope formula takes
  is the C library's \<open>pow\<close>, a parameter. An OSV document is a record of the keys the parser reads, an entry of the wrong type counting as absent.
\<close>

section \<open>CVSS v3\<close>

type_synonym metrics = "(string \<times> string) list"

definition metric_table :: "(string \<times> rat) list \<Rightarrow> string \<Rightarrow> rat option" where
  "metric_table t k = map_option float_round (map_of t k)"

definition AV :: "string \<Rightarrow> rat option" where "AV = metric_table [(''N'', 85/100), (''A'', 62/100), (''L'', 55/100), (''P'', 2/10)]"
definition AC :: "string \<Rightarrow> rat option" where "AC = metric_table [(''L'', 77/100), (''H'', 44/100)]"
definition UI :: "string \<Rightarrow> rat option" where "UI = metric_table [(''N'', 85/100), (''R'', 62/100)]"
definition IMPACT :: "string \<Rightarrow> rat option" where "IMPACT = metric_table [(''H'', 56/100), (''L'', 22/100), (''N'', 0)]"
definition PR_UNCHANGED :: "string \<Rightarrow> rat option" where "PR_UNCHANGED = metric_table [(''N'', 85/100), (''L'', 62/100), (''H'', 27/100)]"
definition PR_CHANGED :: "string \<Rightarrow> rat option" where "PR_CHANGED = metric_table [(''N'', 85/100), (''L'', 68/100), (''H'', 50/100)]"

definition REQUIRED :: "string list" where
  "REQUIRED = [''AV'', ''AC'', ''PR'', ''UI'', ''S'', ''C'', ''I'', ''A'']"

text \<open>The metric map of a vector: the last value of a repeated key stands.\<close>

definition vector_metrics :: "string \<Rightarrow> metrics" where
  "vector_metrics vector = fold (\<lambda>part m. case partition_at CHR '':'' part of (key, sep, val) \<Rightarrow>
     if sep \<and> key \<noteq> ''CVSS'' then AList.update key val m else m) (split_on CHR ''/'' vector) []"

definition parse_vector :: "string \<Rightarrow> metrics option" where
  "parse_vector vector = (let m = vector_metrics vector in
     if \<forall>k \<in> set REQUIRED. map_of m k \<noteq> None then Some m else None)"

text \<open>\<open>round\<close> to the nearest integer, ties to even.\<close>

definition round_even :: "rat \<Rightarrow> int" where
  "round_even x = (case quotient_of x of (p, q) \<Rightarrow> round_div p q)"

definition cvss_roundup :: "rat \<Rightarrow> rat" where
  "cvss_roundup value =
     (let scaled = round_even (float_round (value * 100000)) in
      if scaled mod 10000 = 0 then float_round (of_int scaled / 100000)
      else float_round (of_int (\<lfloor>float_round (of_int scaled / 10000)\<rfloor> + 1) / 10))"

abbreviation fmul :: "rat \<Rightarrow> rat \<Rightarrow> rat" where "fmul x y \<equiv> float_round (x * y)"
abbreviation fsub :: "rat \<Rightarrow> rat \<Rightarrow> rat" where "fsub x y \<equiv> float_round (x - y)"
abbreviation fadd :: "rat \<Rightarrow> rat \<Rightarrow> rat" where "fadd x y \<equiv> float_round (x + y)"
abbreviation flit :: "rat \<Rightarrow> rat" where "flit x \<equiv> float_round x"

definition cvss_impact :: "(rat \<Rightarrow> nat \<Rightarrow> rat) \<Rightarrow> rat \<Rightarrow> bool \<Rightarrow> rat" where
  "cvss_impact pow iss scope_changed =
     (if scope_changed
      then fsub (fmul (flit (752/100)) (fsub iss (flit (29/1000))))
                (fmul (flit (325/100)) (pow (fsub (fmul iss (flit (9731/10000))) (flit (2/100))) 13))
      else fmul (flit (642/100)) iss)"

definition lookup_metric :: "(string \<Rightarrow> rat option) \<Rightarrow> metrics \<Rightarrow> string \<Rightarrow> rat option" where
  "lookup_metric t m k = Option.bind (map_of m k) t"

definition base_score_from_vector :: "(rat \<Rightarrow> nat \<Rightarrow> rat) \<Rightarrow> string \<Rightarrow> rat option" where
  "base_score_from_vector pow vector =
     Option.bind (parse_vector vector) (\<lambda>m.
       let scope_changed = (map_of m ''S'' = Some ''C''); pr_table = (if scope_changed then PR_CHANGED else PR_UNCHANGED) in
       Option.bind (lookup_metric AV m ''AV'') (\<lambda>av.
       Option.bind (lookup_metric AC m ''AC'') (\<lambda>ac.
       Option.bind (lookup_metric UI m ''UI'') (\<lambda>ui.
       Option.bind (lookup_metric pr_table m ''PR'') (\<lambda>pr.
       Option.bind (lookup_metric IMPACT m ''C'') (\<lambda>conf.
       Option.bind (lookup_metric IMPACT m ''I'') (\<lambda>integ.
       Option.bind (lookup_metric IMPACT m ''A'') (\<lambda>avail.
         let iss = fsub 1 (fmul (fmul (fsub 1 conf) (fsub 1 integ)) (fsub 1 avail));
             impact = cvss_impact pow iss scope_changed in
         if impact \<le> 0 then Some 0
         else
           let exploitability = fmul (fmul (fmul (fmul (flit (822/100)) av) ac) pr) ui;
               raw = fadd impact exploitability;
               raw = (if scope_changed then fmul raw (flit (108/100)) else raw) in
           Some (cvss_roundup (min raw 10))))))))))"

definition severity_from_score :: "rat \<Rightarrow> severity" where
  "severity_from_score score =
     (if score \<le> 0 then INFO else if score < 4 then LOW else if score < 7 then MEDIUM else if score < 9 then HIGH else CRITICAL)"

section \<open>CVSS v4\<close>

definition V4_BASE_METRICS :: "(string \<times> string) list" where
  "V4_BASE_METRICS = [(''AV'', ''NALP''), (''AC'', ''LH''), (''AT'', ''NP''), (''PR'', ''NLH''), (''UI'', ''NPA''),
     (''VC'', ''HLN''), (''VI'', ''HLN''), (''VA'', ''HLN''), (''SC'', ''HLN''), (''SI'', ''HLN''), (''SA'', ''HLN'')]"

text \<open>\<open>str.upper\<close>: sharp s becomes two letters; the two characters whose upper case lies beyond Latin-1 are left alone.\<close>

definition upper :: "string \<Rightarrow> string" where
  "upper s = concat (map (\<lambda>c. let n = code c in
     if n = 223 then ''SS''
     else if (97 \<le> n \<and> n \<le> 122) \<or> (224 \<le> n \<and> n \<le> 254 \<and> n \<noteq> 247) then [char_of (of_char c - (32::nat))] else [c]) s)"

definition is_cvss_v4_vector :: "string \<Rightarrow> bool" where
  "is_cvss_v4_vector vector = startswith (upper (strip vector)) ''CVSS:4.0/''"

definition in_alphabet :: "string \<Rightarrow> string option \<Rightarrow> bool" where
  "in_alphabet allowed v = (case v of Some [c] \<Rightarrow> c \<in> set allowed | _ \<Rightarrow> False)"

definition parse_v4_vector :: "string \<Rightarrow> metrics option" where
  "parse_v4_vector vector =
     (if \<not> is_cvss_v4_vector vector then None
      else let m = vector_metrics vector in
        if \<forall>(k, allowed) \<in> set V4_BASE_METRICS. in_alphabet allowed (map_of m k)
        then Some (map (\<lambda>(k, allowed). (k, the (map_of m k))) V4_BASE_METRICS) else None)"

fun v4_impact_weight :: "string \<Rightarrow> nat" where
  "v4_impact_weight v = (if v = ''H'' then 2 else if v = ''L'' then 1 else 0)"

definition severity_from_v4_vector :: "string \<Rightarrow> severity option" where
  "severity_from_v4_vector vector =
     map_option (\<lambda>base.
       let val = (\<lambda>k. the (map_of base k));
           worst = Max (set (map (\<lambda>k. v4_impact_weight (val k)) [''VC'', ''VI'', ''VA'', ''SC'', ''SI'', ''SA'']));
           easily_reachable = (val ''AV'' = ''N'' \<and> val ''AC'' = ''L'' \<and> val ''AT'' = ''N'' \<and> val ''PR'' = ''N'' \<and> val ''UI'' = ''N'') in
       if worst = 0 then INFO
       else if worst = 2 then (if easily_reachable then CRITICAL else HIGH)
       else (if easily_reachable then HIGH else MEDIUM)) (parse_v4_vector vector)"

section \<open>Advisories\<close>

definition SEVERITY_WORDS :: "(string \<times> severity) list" where
  "SEVERITY_WORDS = [(''negligible'', INFO), (''info'', INFO), (''unimportant'', LOW), (''low'', LOW), (''minor'', LOW), (''moderate'', MEDIUM),
     (''medium'', MEDIUM), (''high'', HIGH), (''important'', HIGH), (''critical'', CRITICAL)]"

definition word_severity :: "string option \<Rightarrow> severity option" where
  "word_severity word = (case word of None \<Rightarrow> None | Some w \<Rightarrow> if w = [] then None else map_of SEVERITY_WORDS (lower w))"

record osv_advisory = osv_record +
  adv_references :: "string list"
  adv_severity_word :: "string option"
  adv_cvss_vector :: "string option"
  adv_cvss_v4_vector :: "string option"
  adv_withdrawn :: "string option"

record raw_severity =
  rs_type :: string
  rs_score :: "string option"
  rs_base_severity :: "string option"

record raw_advisory =
  ra_id :: "string option"
  ra_aliases :: "string list"
  ra_affected :: "osv_entry list"
  ra_urls :: "string option list"
  ra_database_severity :: "string option"
  ra_ecosystem_severity :: "string option"
  ra_severity :: "raw_severity list"
  ra_withdrawn :: "string option"

definition first_some :: "'a option list \<Rightarrow> 'a option" where
  "first_some xs = (case filter (\<lambda>x. x \<noteq> None) xs of [] \<Rightarrow> None | x # _ \<Rightarrow> x)"

definition raw_severity_word :: "raw_advisory \<Rightarrow> string option" where
  "raw_severity_word raw = first_some (truthy (ra_database_severity raw) # truthy (ra_ecosystem_severity raw)
     # map (\<lambda>e. truthy (rs_base_severity e)) (ra_severity raw))"

text \<open>The vector with the best rating, the first of equals; without a rated one, the first vector seen.\<close>

definition best_step :: "(string \<Rightarrow> 'k::linorder option) \<Rightarrow> string \<Rightarrow> string option \<times> 'k option \<Rightarrow> string option \<times> 'k option" where
  "best_step rate v = (\<lambda>(best_vector, best).
     let best_vector = (case best_vector of None \<Rightarrow> Some v | Some b \<Rightarrow> Some b) in
     case rate v of None \<Rightarrow> (best_vector, best)
     | Some r \<Rightarrow> if (case best of None \<Rightarrow> True | Some b \<Rightarrow> b < r) then (Some v, Some r) else (best_vector, best))"

definition vectors_of :: "string \<Rightarrow> raw_advisory \<Rightarrow> string list" where
  "vectors_of typ raw = concat (map (\<lambda>e. if startswith (rs_type e) typ then (case truthy (rs_score e) of None \<Rightarrow> [] | Some v \<Rightarrow> [v]) else []) (ra_severity raw))"

definition best_vector :: "(string \<Rightarrow> 'k::linorder option) \<Rightarrow> string list \<Rightarrow> string option" where
  "best_vector rate vs = fst (fold (best_step rate) vs (None, None))"

definition raw_cvss_vector :: "(rat \<Rightarrow> nat \<Rightarrow> rat) \<Rightarrow> raw_advisory \<Rightarrow> string option" where
  "raw_cvss_vector pow raw = best_vector (base_score_from_vector pow) (vectors_of ''CVSS_V3'' raw)"

definition raw_cvss_v4_vector :: "raw_advisory \<Rightarrow> string option" where
  "raw_cvss_v4_vector raw = best_vector (\<lambda>v. map_option severity_rank (severity_from_v4_vector v)) (vectors_of ''CVSS_V4'' raw)"

definition advisory_from_dict :: "(rat \<Rightarrow> nat \<Rightarrow> rat) \<Rightarrow> raw_advisory \<Rightarrow> osv_advisory result" where
  "advisory_from_dict pow raw =
     (case ra_id raw of None \<Rightarrow> Inl KeyError
      | Some i \<Rightarrow> Inr \<lparr>osv_id = i, osv_aliases = ra_aliases raw, osv_affected = ra_affected raw,
          adv_references = concat (map (\<lambda>u. case truthy u of None \<Rightarrow> [] | Some x \<Rightarrow> [x]) (ra_urls raw)),
          adv_severity_word = raw_severity_word raw, adv_cvss_vector = raw_cvss_vector pow raw,
          adv_cvss_v4_vector = raw_cvss_v4_vector raw, adv_withdrawn = truthy (ra_withdrawn raw)\<rparr>)"

definition cvss_score :: "(rat \<Rightarrow> nat \<Rightarrow> rat) \<Rightarrow> osv_advisory \<Rightarrow> rat option" where
  "cvss_score pow a = (case truthy (adv_cvss_vector a) of None \<Rightarrow> None | Some v \<Rightarrow> base_score_from_vector pow v)"

definition severity_signals :: "(rat \<Rightarrow> nat \<Rightarrow> rat) \<Rightarrow> osv_advisory \<Rightarrow> severity list" where
  "severity_signals pow a = concat (map (\<lambda>s. case s of None \<Rightarrow> [] | Some x \<Rightarrow> [x])
     [map_option severity_from_score (cvss_score pow a),
      (case truthy (adv_cvss_v4_vector a) of None \<Rightarrow> None | Some v \<Rightarrow> severity_from_v4_vector v),
      word_severity (adv_severity_word a)])"

definition advisory_severity :: "(rat \<Rightarrow> nat \<Rightarrow> rat) \<Rightarrow> osv_advisory \<Rightarrow> severity" where
  "advisory_severity pow a = (let cs = severity_signals pow a in if cs = [] then MEDIUM else Max (set cs))"

end
