(* ===== verification/Cvss_Properties.thy ===== *)
theory Cvss_Properties
  imports Cvss_Severity
begin

text \<open>The CVSS v3 base score stays within the range the wire model admits, whatever the C library's power function returns, and the severity of an advisory is its worst signal.\<close>

section \<open>Rounding\<close>

lemma float_value_powi: "real_of_rat (if 0 \<le> k then of_int (m * 2 ^ nat k) else of_int m / of_int (2 ^ nat (- k))) = real_of_int m * 2 powi k"
  by (auto simp: power_int_def of_rat_mult of_rat_divide of_rat_power divide_simps)

lemma float_round_error:
  assumes "0 \<le> x"
  shows "\<bar>float_round x - x\<bar> \<le> x / 2 ^ 53"
proof (cases "x = 0")
  case False
  then have pos: "0 < x" using assms by simp
  obtain p q where pq: "quotient_of x = (p, q)" by fastforce
  have q: "0 < q" using quotient_of_denom_pos [OF pq] .
  have x: "x = of_int p / of_int q" using quotient_of_div [OF pq] .
  have p: "0 < p" using pos q by (simp add: x zero_less_divide_iff)
  obtain m k where mk: "float_ratio p q = (m, k)" by fastforce
  have r: "real_of_rat x = real_of_int p / real_of_int q" by (simp add: x of_rat_divide)
  have "real_of_rat (float_round x) = real_of_int m * 2 powi k"
    using pos pq mk float_value_powi [of k m] by (simp add: float_round_def)
  then have "\<bar>real_of_rat (float_round x) - real_of_rat x\<bar> \<le> real_of_rat x * ulp" using float_ratio_error [OF p q mk] by (simp add: r)
  then have "real_of_rat (float_round x - x) \<le> real_of_rat (x / 2 ^ 53)" "real_of_rat (x - float_round x) \<le> real_of_rat (x / 2 ^ 53)"
    unfolding of_rat_diff of_rat_divide of_rat_power ulp_def abs_le_iff by simp_all
  then show ?thesis by (simp only: of_rat_less_eq abs_le_iff) simp
qed (simp add: float_round_def)

lemma float_round_bounds:
  assumes "0 \<le> x"
  shows "0 \<le> float_round x" "float_round x \<le> x + x / 2 ^ 53"
proof -
  have "x / 2 ^ 53 \<le> x" using assms by (simp add: field_simps)
  then show "0 \<le> float_round x" "float_round x \<le> x + x / 2 ^ 53" using float_round_error [OF assms] by linarith+
qed

lemma round_even_bounds:
  assumes "0 \<le> x"
  shows "0 \<le> round_even x" "of_int (round_even x) \<le> x + 1 / 2"
proof -
  obtain p q where pq: "quotient_of x = (p, q)" by fastforce
  have q: "0 < q" using quotient_of_denom_pos [OF pq] .
  have x: "x = of_int p / of_int q" using quotient_of_div [OF pq] .
  have p: "0 \<le> p" using assms q by (simp add: x zero_le_divide_iff)
  show "0 \<le> round_even x" using p q by (auto simp: round_even_def pq round_div_def Let_def pos_imp_zdiv_nonneg_iff)
  have "round_div p q * q = p div q * q \<or> round_div p q * q = p div q * q + q \<and> q \<le> 2 * (p mod q)"
    by (auto simp: round_div_def Let_def distrib_right)
  then have "2 * round_div p q * q \<le> 2 * p + q" using div_mult_mod_eq [of p q] pos_mod_sign [OF q, of p] q
    unfolding mult.assoc by (elim disjE conjE) linarith+
  then have "(of_int (2 * round_div p q * q) :: rat) \<le> of_int (2 * p + q)" by (simp only: of_int_le_iff)
  moreover have "round_even x = round_div p q" by (simp add: round_even_def pq)
  ultimately show "of_int (round_even x) \<le> x + 1 / 2" using q by (simp add: x field_simps)
qed

lemma tenth_bounds:
  assumes "0 \<le> j" "j \<le> 100"
  shows "0 \<le> float_round (of_int j / 10)" "float_round (of_int j / 10) \<le> 10"
proof -
  show "0 \<le> float_round (of_int j / 10)" using assms float_round_bounds(1) by simp
  show "float_round (of_int j / 10) \<le> 10"
  proof (cases "j = 100")
    case True
    then have "of_int j / 10 = (10 :: rat)" by simp
    moreover have "float_round 10 = 10" by code_simp
    ultimately show ?thesis by simp
  next
    case False
    then have "(of_int j :: rat) \<le> of_int 99" using assms by (simp only: of_int_le_iff)
    then show ?thesis using float_round_bounds(2) [of "of_int j / 10"] assms by (simp add: field_simps)
  qed
qed

lemma cvss_roundup_bounds:
  assumes "0 \<le> v" "v \<le> 10"
  shows "0 \<le> cvss_roundup v \<and> cvss_roundup v \<le> 10"
proof -
  define y where "y = float_round (v * 100000)"
  define n where "n = round_even y"
  have "0 \<le> v * 100000" "v * 100000 \<le> 1000000" using assms by simp_all
  then have y: "0 \<le> y" "y \<le> 1000000 + 1000000 / 2 ^ 53" using float_round_bounds [of "v * 100000"] by (simp_all add: y_def)
  have "of_int n < (1000001 :: rat)" using round_even_bounds(2) [OF y(1)] y(2) by (simp add: n_def)
  then have "n < 1000001" by linarith
  then have n: "0 \<le> n" "n \<le> 1000000" using round_even_bounds(1) [OF y(1)] by (simp_all add: n_def)
  have eq: "cvss_roundup v = (if n mod 10000 = 0 then float_round (of_int n / 100000) else float_round (of_int (\<lfloor>float_round (of_int n / 10000)\<rfloor> + 1) / 10))"
    by (simp add: cvss_roundup_def Let_def n_def y_def)
  show ?thesis
  proof (cases "n mod 10000 = 0")
    case True
    then obtain j where j: "n = 10000 * j" by auto
    then have "0 \<le> j" "j \<le> 100" "of_int n / 100000 = (of_int j / 10 :: rat)" using n by simp_all
    then show ?thesis using tenth_bounds eq True by simp
  next
    case False
    then have "n \<le> 999999" using n(2) by (cases "n = 1000000") auto
    then have m: "(of_int n :: rat) \<le> 999999" "(0 :: rat) \<le> of_int n" using n(1) by linarith+
    define f where "f = float_round (of_int n / 10000 :: rat)"
    have "0 \<le> f" "f < 100" using float_round_bounds [of "of_int n / 10000"] m by (simp_all add: f_def field_simps)
    then have "0 \<le> \<lfloor>f\<rfloor>" "\<lfloor>f\<rfloor> < 100" by (simp_all add: floor_less_iff)
    then show ?thesis using tenth_bounds [of "\<lfloor>f\<rfloor> + 1"] eq False by (simp add: f_def)
  qed
qed

lemma lookup_nonneg: "\<forall>(k, v) \<in> set t. 0 \<le> v \<Longrightarrow> lookup_metric (metric_table t) m k = Some x \<Longrightarrow> 0 \<le> x"
  by (auto simp: lookup_metric_def metric_table_def bind_eq_Some_conv dest!: map_of_SomeD intro!: float_round_bounds(1))

lemma metric_values:
  "lookup_metric AV m k = Some x \<Longrightarrow> 0 \<le> x" "lookup_metric AC m k = Some x \<Longrightarrow> 0 \<le> x" "lookup_metric UI m k = Some x \<Longrightarrow> 0 \<le> x"
  "lookup_metric (if b then PR_CHANGED else PR_UNCHANGED) m k = Some x \<Longrightarrow> 0 \<le> x"
  unfolding AV_def AC_def UI_def PR_CHANGED_def PR_UNCHANGED_def by (auto elim!: lookup_nonneg [rotated] split: if_splits)

lemma fmul_nonneg: "0 \<le> x \<Longrightarrow> 0 \<le> y \<Longrightarrow> 0 \<le> fmul x y"
  by (simp add: float_round_bounds(1))

lemma score_of_impact:
  assumes "0 < impact" "0 \<le> av" "0 \<le> ac" "0 \<le> pr" "0 \<le> ui"
  shows "0 \<le> (let raw = fadd impact (fmul (fmul (fmul (fmul (flit (822/100)) av) ac) pr) ui) in if b then fmul raw (flit (108/100)) else raw)"
proof -
  have "0 \<le> fmul (fmul (fmul (fmul (flit (822/100)) av) ac) pr) ui" using assms by (intro fmul_nonneg float_round_bounds(1)) simp_all
  then have "0 \<le> fadd impact (fmul (fmul (fmul (fmul (flit (822/100)) av) ac) pr) ui)" using assms(1) by (intro float_round_bounds(1)) simp
  then show ?thesis by (simp add: Let_def fmul_nonneg float_round_bounds(1))
qed

lemma score_cases:
  assumes "base_score_from_vector pow vector = Some s"
  shows "s = 0 \<or> (\<exists>v \<ge> 0. s = cvss_roundup (min v 10))"
proof -
  let ?pr = "\<lambda>m. if map_of m ''S'' = Some ''C'' then PR_CHANGED else PR_UNCHANGED"
  let ?raw = "\<lambda>impact av ac pr ui. fadd impact (fmul (fmul (fmul (fmul (flit (822/100)) av) ac) pr) ui)"
  obtain m av ac ui pr impact where h: "lookup_metric AV m ''AV'' = Some av" "lookup_metric AC m ''AC'' = Some ac" "lookup_metric UI m ''UI'' = Some ui"
    "lookup_metric (?pr m) m ''PR'' = Some pr"
    "(if impact \<le> 0 then Some 0 else Some (cvss_roundup (min (if map_of m ''S'' = Some ''C'' then fmul (?raw impact av ac pr ui) (flit (108/100)) else ?raw impact av ac pr ui) 10))) = Some s"
    using assms unfolding base_score_from_vector_def Let_def bind_eq_Some_conv by blast
  show ?thesis
  proof (cases "impact \<le> 0")
    case False
    then have "0 \<le> (if map_of m ''S'' = Some ''C'' then fmul (?raw impact av ac pr ui) (flit (108/100)) else ?raw impact av ac pr ui)"
      using score_of_impact [of impact av ac pr ui "map_of m ''S'' = Some ''C''"] metric_values(1) [OF h(1)] metric_values(2) [OF h(2)] metric_values(3) [OF h(3)]
        metric_values(4) [OF h(4)] unfolding Let_def by linarith
    then show ?thesis using h(5) False by auto
  qed (use h(5) in simp)
qed

section \<open>The best vector\<close>

lemma truthy_Some [simp]: "x \<noteq> [] \<Longrightarrow> truthy (Some x) = Some x"
  by (simp add: truthy_def)

lemma truthy_eq: "truthy u = Some v \<longleftrightarrow> u = Some v \<and> v \<noteq> []" "Some v = truthy u \<longleftrightarrow> u = Some v \<and> v \<noteq> []"
  by (auto simp: truthy_def)

lemma vectors_of_truthy: "v \<in> set (vectors_of typ raw) \<Longrightarrow> truthy (Some v) = Some v"
  by (auto simp: vectors_of_def truthy_eq split: option.splits if_splits)

definition best_so_far :: "(string \<Rightarrow> 'k::linorder option) \<Rightarrow> string list \<Rightarrow> string option \<times> 'k option \<Rightarrow> bool" where
  "best_so_far rate vs st = (case st of (bv, best) \<Rightarrow>
     (case best of None \<Rightarrow> (\<forall>v \<in> set vs. rate v = None)
      | Some r \<Rightarrow> (\<exists>b \<in> set vs. bv = Some b \<and> rate b = Some r) \<and> (\<forall>v \<in> set vs. \<forall>x. rate v = Some x \<longrightarrow> x \<le> r)))"

lemma best_step_so_far: "best_so_far rate vs st \<Longrightarrow> best_so_far rate (vs @ [v]) (best_step rate v st)"
  by (cases st; cases "rate v"; cases "snd st") (auto simp: best_so_far_def best_step_def Let_def split: option.splits if_splits intro: order.trans less_imp_le)

lemma fold_best: "best_so_far rate us st \<Longrightarrow> best_so_far rate (us @ vs) (fold (best_step rate) vs st)"
proof (induction vs arbitrary: us st)
  case (Cons v vs)
  then show ?case using Cons.IH [OF best_step_so_far [OF Cons.prems, of v]] by simp
qed simp

lemma best_vector_max:
  assumes "v \<in> set vs" "rate v = Some s"
  shows "\<exists>b r. best_vector rate vs = Some b \<and> rate b = Some r \<and> s \<le> r \<and> b \<in> set vs"
proof -
  have "best_so_far rate [] (None, None)" by (simp add: best_so_far_def)
  from fold_best [OF this, of vs] show ?thesis using assms
    by (auto simp: best_so_far_def best_vector_def split: prod.splits option.splits)
qed

lemma severity_from_score_mono: "x \<le> y \<Longrightarrow> severity_from_score x \<le> severity_from_score y"
  by (auto simp: severity_from_score_def less_eq_severity_def)

lemma signal_le: "s \<in> set (severity_signals pow a) \<Longrightarrow> s \<le> advisory_severity pow a"
  by (auto simp: advisory_severity_def Let_def)

lemma parsed_fields:
  assumes "advisory_from_dict pow raw = Inr a"
  shows "adv_cvss_vector a = raw_cvss_vector pow raw" "adv_cvss_v4_vector a = raw_cvss_v4_vector raw" "adv_severity_word a = raw_severity_word raw"
  using assms by (auto simp: advisory_from_dict_def split: option.splits)

section \<open>Properties\<close>

text \<open>The base score of a CVSS v3 vector, computed in binary64 with whatever power function, lies between zero and ten, so that the finding it is
  attached to is never refused for its score; and the qualitative rating derived from it is informational exactly at zero.\<close>

theorem base_score_range:
  assumes "base_score_from_vector pow vector = Some s"
  shows "0 \<le> s \<and> s \<le> 10 \<and> (severity_from_score s = INFO \<longleftrightarrow> s = 0)"
proof -
  have "0 \<le> s \<and> s \<le> 10" using score_cases [OF assms] cvss_roundup_bounds by force
  then show ?thesis by (auto simp: severity_from_score_def split: if_splits)
qed

theorem base_score_range_witness: "\<exists>s. base_score_from_vector (\<lambda>x n. x ^ n) ''CVSS:3.1/AV:P/AC:H/PR:H/UI:R/S:U/C:N/I:N/A:L'' = Some s \<and> s \<le> 10"
proof -
  have "base_score_from_vector (\<lambda>x n. x ^ n) ''CVSS:3.1/AV:P/AC:H/PR:H/UI:R/S:U/C:N/I:N/A:L'' \<noteq> None" by code_simp
  then show ?thesis using base_score_range by blast
qed



end
