(* ===== verification/Detect_Findings.thy ===== *)
theory Detect_Findings
  imports Cvss_Severity Correlate_Cross Telemetry_Chunks
begin

text \<open>
  The vulnerability detection engine: \<open>analyzer/detect/limits.py\<close>, \<open>combine.py\<close> and \<open>engine.py\<close>.

  Packages of a report are matched against the advisories of a store. What lies outside is an argument: the store's \<open>lookup\<close>, the JSON size of a finding,
  \<open>packaging.version\<close> and C's \<open>pow\<close>. A limit state is always passed; a caller that gives none ignores the one returned.
\<close>

section \<open>Data\<close>

record vuln = vulnerability +
  vn_cvss_score :: "rat option"
  vn_affected_asset_id :: string
  vn_parent_asset_id :: "string option"
  vn_source :: string
  vn_evidence :: "string option"
  vn_references :: "string list"

record package =
  pk_asset_id :: string
  pk_parent_asset_id :: "string option"
  pk_name :: string
  pk_version :: string
  pk_source :: "string option"
  pk_source_name :: "string option"
  pk_source_version :: "string option"
  pk_ecosystem :: "string option"

text \<open>Of an asset other than a package the model keeps its kind and its identifier.\<close>

datatype asset_kind = K_SERVICE | K_PORT | K_ACCOUNT | K_CREDENTIAL | K_CONTAINER | K_IMAGE | K_SECURITY_PRODUCT

datatype asset = Package package | Other_asset asset_kind string

record asset_report =
  ar_report_id :: string
  ar_collected_at :: datetime
  ar_source_agent_id :: "string option"
  ar_host_id :: string
  ar_host_os :: string
  ar_host_ips :: "string list"
  ar_assets :: "asset list"
  ar_vulnerabilities :: "vuln list"
  ar_detector_runs :: "detector_run list option"

definition packages_of :: "asset list \<Rightarrow> package list" where
  "packages_of as = concat (map (\<lambda>a. case a of Package p \<Rightarrow> [p] | Other_asset _ _ \<Rightarrow> []) as)"

text \<open>Validation of a finding: identifiers, evidence and references within the wire limits, a score from zero to ten.\<close>

definition valid_vuln :: "vuln \<Rightarrow> vuln result" where
  "valid_vuln v =
     rbind (valid_ident (vu_vuln_id v)) (\<lambda>vid.
     rbind (case vn_cvss_score v of None \<Rightarrow> Inr None | Some s \<Rightarrow> if 0 \<le> s \<and> s \<le> 10 then Inr (Some s) else Inl ValidationError) (\<lambda>score.
     rbind (valid_str (vn_affected_asset_id v)) (\<lambda>aid.
     rbind (valid_opt_str (vn_parent_asset_id v)) (\<lambda>pid.
     rbind (valid_ident (vn_source v)) (\<lambda>src.
     rbind (valid_opt_str (vn_evidence v)) (\<lambda>ev.
     rbind (if MAX_NESTED_LIST_ITEMS < length (vn_references v) then Inl ValidationError else valid_strs (vn_references v)) (\<lambda>refs.
       Inr (v\<lparr>vu_vuln_id := vid, vn_cvss_score := score, vn_affected_asset_id := aid, vn_parent_asset_id := pid, vn_source := src,
              vn_evidence := ev, vn_references := refs\<rparr>))))))))"

section \<open>Limits\<close>

definition MAX_FINDINGS :: nat where "MAX_FINDINGS = 4096"
definition MAX_FINDING_BYTES :: nat where "MAX_FINDING_BYTES = 3 * 1024 * 1024"

record finding_limit_state =
  fl_truncated :: bool
  fl_reason :: "string option"
  fl_incomplete :: bool
  fl_incomplete_reason :: "string option"

definition no_limit :: finding_limit_state where
  "no_limit = \<lparr>fl_truncated = False, fl_reason = None, fl_incomplete = False, fl_incomplete_reason = None\<rparr>"

definition mark_finding :: "string \<Rightarrow> finding_limit_state \<Rightarrow> finding_limit_state" where
  "mark_finding reason st = st\<lparr>fl_truncated := True, fl_reason := (case fl_reason st of None \<Rightarrow> Some reason | Some r \<Rightarrow> Some r)\<rparr>"

definition mark_incomplete :: "string \<Rightarrow> finding_limit_state \<Rightarrow> finding_limit_state" where
  "mark_incomplete reason st =
     st\<lparr>fl_incomplete := True, fl_incomplete_reason := (case fl_incomplete_reason st of None \<Rightarrow> Some reason | Some r \<Rightarrow> Some r)\<rparr>"

section \<open>Scanner findings and their combination\<close>

definition SCANNER_SOURCES :: "string list" where
  "SCANNER_SOURCES = [''kcatta-malware'', ''posture'', ''secret'', ''clamav'', ''microsoft-defender'', ''microsoft-defender-event'']"

fun scanner_loop :: "(vuln \<Rightarrow> nat) \<Rightarrow> nat \<Rightarrow> nat \<Rightarrow> vuln list \<Rightarrow> vuln list \<Rightarrow> nat \<Rightarrow> finding_limit_state \<Rightarrow> vuln list \<times> finding_limit_state" where
  "scanner_loop size_of max_findings max_bytes [] findings consumed st = (findings, st)"
| "scanner_loop size_of max_findings max_bytes (f # fs) findings consumed st =
     (if vn_source f \<notin> set SCANNER_SOURCES
      then scanner_loop size_of max_findings max_bytes fs findings consumed (mark_incomplete ''untrusted_scanner_source'' st)
      else if max_findings \<le> length findings \<or> max_bytes < consumed + size_of f
      then (findings, mark_finding (if max_findings \<le> length findings then ''scanner_max_findings'' else ''scanner_max_bytes'') st)
      else scanner_loop size_of max_findings max_bytes fs (findings @ [f]) (consumed + size_of f) st)"

definition scanner_findings :: "(vuln \<Rightarrow> nat) \<Rightarrow> asset_report \<Rightarrow> finding_limit_state \<Rightarrow> vuln list \<times> finding_limit_state" where
  "scanner_findings size_of report st = scanner_loop size_of MAX_FINDINGS MAX_FINDING_BYTES (ar_vulnerabilities report) [] 0 st"

fun combine_loop :: "(vuln \<Rightarrow> nat) \<Rightarrow> nat \<Rightarrow> nat \<Rightarrow> vuln list \<Rightarrow> vuln list \<Rightarrow> nat \<Rightarrow> finding_limit_state \<Rightarrow> vuln list \<times> finding_limit_state" where
  "combine_loop size_of max_findings max_bytes [] combined consumed st = (combined, st)"
| "combine_loop size_of max_findings max_bytes (f # fs) combined consumed st =
     (if max_findings \<le> length combined \<or> max_bytes < consumed + size_of f
      then (combined, mark_finding (if max_findings \<le> length combined then ''combined_max_findings'' else ''combined_max_bytes'') st)
      else combine_loop size_of max_findings max_bytes fs (combined @ [f]) (consumed + size_of f) st)"

definition combine_findings :: "(vuln \<Rightarrow> nat) \<Rightarrow> nat \<Rightarrow> vuln list \<Rightarrow> vuln list \<Rightarrow> finding_limit_state \<Rightarrow> vuln list \<times> finding_limit_state" where
  "combine_findings size_of max_findings osv scanner st = combine_loop size_of max_findings MAX_FINDING_BYTES (osv @ scanner) [] 0 st"

section \<open>Ecosystem of a host\<close>

definition word_char :: "char \<Rightarrow> bool" where
  "word_char c = (isalnum_char c \<or> c = CHR ''_'')"

text \<open>Walk with the character before the current digit run and the run so far.\<close>

fun standalone_loop :: "char option \<Rightarrow> string option \<Rightarrow> char option \<Rightarrow> string \<Rightarrow> string option" where
  "standalone_loop previous run before [] =
     (case run of None \<Rightarrow> None | Some r \<Rightarrow> if (case previous of None \<Rightarrow> True | Some p \<Rightarrow> \<not> word_char p) then Some r else None)"
| "standalone_loop previous run before (c # cs) =
     (if isdecimal_char c
      then (case run of None \<Rightarrow> standalone_loop before (Some [c]) (Some c) cs | Some r \<Rightarrow> standalone_loop previous (Some (r @ [c])) (Some c) cs)
      else (case run of None \<Rightarrow> standalone_loop previous None (Some c) cs
            | Some r \<Rightarrow> if (case previous of None \<Rightarrow> True | Some p \<Rightarrow> \<not> word_char p) \<and> \<not> word_char c then Some r
                       else standalone_loop previous None (Some c) cs))"

definition first_standalone_ascii_number :: "string \<Rightarrow> string option" where
  "first_standalone_ascii_number text = standalone_loop None None None text"

function dotted_loop :: "nat \<Rightarrow> string \<Rightarrow> string option" where
  "dotted_loop m [] = None"
| "dotted_loop m (c # cs) =
     (if \<not> isdecimal_char c then dotted_loop m cs
      else let major = takeWhile isdecimal_char (c # cs); rest = dropWhile isdecimal_char (c # cs) in
        if rest = [] \<or> hd rest \<noteq> CHR ''.'' then dotted_loop m rest
        else let minor = takeWhile isdecimal_char (tl rest); rest2 = dropWhile isdecimal_char (tl rest) in
          if minor = [] then dotted_loop m rest2
          else if length major \<le> m \<and> length minor \<le> m then Some (major @ ''.'' @ minor)
          else dotted_loop m rest2)"
  by pat_completeness auto

lemma dropWhile_shorter: "P c \<Longrightarrow> length (dropWhile P (c # cs)) < Suc (length cs)"
  by (simp add: less_Suc_eq_le length_dropWhile_le)

lemma dropWhile_tl_shorter: "P c \<Longrightarrow> length (dropWhile Q (tl (dropWhile P (c # cs)))) < Suc (length cs)"
  by (metis (no_types, lifting) dropWhile_shorter diff_le_self le_less_trans length_dropWhile_le length_tl order.trans)

termination dotted_loop
  by (relation "measure (\<lambda>(m, s). length s)") (auto simp del: dropWhile.simps simp: dropWhile_shorter dropWhile_tl_shorter)

definition first_dotted_ascii_version :: "string \<Rightarrow> string option" where
  "first_dotted_ascii_version text = dotted_loop 4 text"

text \<open>The first match of the Windows release pattern: an alternative at a word boundary that a word boundary follows.\<close>

fun windows_release :: "char option \<Rightarrow> string \<Rightarrow> string option" where
  "windows_release before [] = None"
| "windows_release before (c # cs) =
     (let ends = (\<lambda>w. startswith (c # cs) w \<and> (case drop (length w) (c # cs) of [] \<Rightarrow> True | d # _ \<Rightarrow> \<not> word_char d)) in
      case (if (case before of None \<Rightarrow> True | Some b \<Rightarrow> \<not> word_char b) then find ends [''10'', ''11'', ''8.1'', ''8''] else None) of
        Some w \<Rightarrow> Some w | None \<Rightarrow> windows_release (Some c) cs)"

definition ecosystem_for_os :: "string \<Rightarrow> string option" where
  "ecosystem_for_os os_string =
     (let text = strip os_string; lowered = lower text in
      case (if str_in ''ubuntu'' lowered then first_dotted_ascii_version text else None) of
        Some v \<Rightarrow> Some (''Ubuntu:'' @ v)
      | None \<Rightarrow>
          (case (if str_in ''debian'' lowered then first_standalone_ascii_number text else None) of
             Some v \<Rightarrow> Some (''Debian:'' @ v)
           | None \<Rightarrow>
               if str_in ''windows'' lowered
               then (case windows_release None text of Some v \<Rightarrow> Some (''Windows:'' @ v) | None \<Rightarrow> Some ''Windows:10'')
               else None))"

definition resolve_ecosystem :: "asset_report \<Rightarrow> string option \<Rightarrow> string option" where
  "resolve_ecosystem report pinned = (case truthy pinned of Some p \<Rightarrow> Some p | None \<Rightarrow> ecosystem_for_os (ar_host_os report))"

section \<open>Matching\<close>

definition OSV_SOURCE :: string where "OSV_SOURCE = ''osv''"

record 'ver detect_env =
  de_version :: "string \<Rightarrow> 'ver option"
  de_lt :: "'ver \<Rightarrow> 'ver \<Rightarrow> bool"
  de_pow :: "rat \<Rightarrow> nat \<Rightarrow> rat"
  de_size :: "vuln \<Rightarrow> nat"
  de_lookup :: "string \<Rightarrow> string \<Rightarrow> osv_advisory list result"

definition to_vulnerability :: "'ver detect_env \<Rightarrow> package \<Rightarrow> osv_advisory \<Rightarrow> string \<Rightarrow> string option \<Rightarrow> vuln result" where
  "to_vulnerability env p record vuln_id fixed =
     (let evidence = pk_name p @ '' '' @ pk_version p @ '' affected by '' @ vuln_id
            @ (case truthy fixed of None \<Rightarrow> [] | Some f \<Rightarrow> '' (fixed in '' @ f @ '')'');
          osv_url = ''https://osv.dev/vulnerability/'' @ osv_id record;
          references = (if osv_url \<in> set (adv_references record) then adv_references record else osv_url # adv_references record) in
      valid_vuln \<lparr>vu_vuln_id = vuln_id, vu_severity = advisory_severity (de_pow env) record, vn_cvss_score = cvss_score (de_pow env) record,
        vn_affected_asset_id = pk_asset_id p, vn_parent_asset_id = pk_parent_asset_id p, vn_source = OSV_SOURCE, vn_evidence = Some evidence,
        vn_references = references\<rparr>)"

record osv_scan =
  sc_findings :: "vuln list"
  sc_seen :: "(string \<times> string) list"
  sc_bytes :: nat
  sc_limit :: finding_limit_state

datatype loop_exit = Next_record | Return | Raised

text \<open>The entries of one record: an exception keeps what was done before it.\<close>

fun entries_loop :: "'ver detect_env \<Rightarrow> nat \<Rightarrow> nat \<Rightarrow> package \<Rightarrow> osv_advisory \<Rightarrow> comparator \<Rightarrow> osv_entry list \<Rightarrow> osv_scan \<Rightarrow> osv_scan \<times> loop_exit" where
  "entries_loop env max_findings max_bytes p record compare [] s = (s, Next_record)"
| "entries_loop env max_findings max_bytes p record compare (e # es) s =
     (case is_version_affected (pk_version p) e compare (Some semver_compare) of
        Inl _ \<Rightarrow> (s, Raised)
      | Inr (affected, fixed) \<Rightarrow>
          if \<not> affected then entries_loop env max_findings max_bytes p record compare es s
          else
            let vuln_id = primary_id (osv_record.truncate record); key = (pk_asset_id p, vuln_id) in
            if key \<in> set (sc_seen s) then entries_loop env max_findings max_bytes p record compare es s
            else
              let s1 = s\<lparr>sc_seen := key # sc_seen s\<rparr> in
              case to_vulnerability env p record vuln_id fixed of
                Inl _ \<Rightarrow> (s1, Raised)
              | Inr f \<Rightarrow>
                  if max_findings \<le> length (sc_findings s) \<or> max_bytes < sc_bytes s + de_size env f
                  then (s1\<lparr>sc_limit := mark_finding (if max_findings \<le> length (sc_findings s) then ''osv_max_findings'' else ''osv_max_bytes'') (sc_limit s)\<rparr>, Return)
                  else (s1\<lparr>sc_findings := sc_findings s @ [f], sc_bytes := sc_bytes s + de_size env f\<rparr>, Next_record))"

fun records_loop :: "'ver detect_env \<Rightarrow> nat \<Rightarrow> nat \<Rightarrow> string \<Rightarrow> package \<Rightarrow> osv_advisory list \<Rightarrow> osv_scan \<Rightarrow> osv_scan \<times> bool" where
  "records_loop env max_findings max_bytes eco p [] s = (s, False)"
| "records_loop env max_findings max_bytes eco p (r # rs) s =
     (case entries_loop env max_findings max_bytes p r (comparator_for (de_version env) (de_lt env) eco)
             (affected_entries (osv_record.truncate r) eco (pk_name p)) s of
        (s1, Next_record) \<Rightarrow> records_loop env max_findings max_bytes eco p rs s1
      | (s1, Return) \<Rightarrow> (s1, True)
      | (s1, Raised) \<Rightarrow> records_loop env max_findings max_bytes eco p rs (s1\<lparr>sc_limit := mark_incomplete ''osv_record_comparison_failed'' (sc_limit s1)\<rparr>))"

definition ecosystem_of :: "string option \<Rightarrow> package \<Rightarrow> string option" where
  "ecosystem_of fallback p = (case truthy (pk_ecosystem p) of Some e \<Rightarrow> Some e | None \<Rightarrow> truthy fallback)"

fun packages_loop :: "'ver detect_env \<Rightarrow> nat \<Rightarrow> nat \<Rightarrow> string option \<Rightarrow> package list \<Rightarrow> osv_scan \<Rightarrow> osv_scan result" where
  "packages_loop env max_findings max_bytes fallback [] s = Inr s"
| "packages_loop env max_findings max_bytes fallback (p # ps) s =
     (case ecosystem_of fallback p of
        None \<Rightarrow> packages_loop env max_findings max_bytes fallback ps s
      | Some eco \<Rightarrow>
          rbind (de_lookup env eco (pk_name p)) (\<lambda>records.
            case records_loop env max_findings max_bytes eco p records s of
              (s1, True) \<Rightarrow> Inr s1
            | (s1, False) \<Rightarrow> packages_loop env max_findings max_bytes fallback ps s1))"

definition detect_report :: "'ver detect_env \<Rightarrow> asset_report \<Rightarrow> string option \<Rightarrow> finding_limit_state \<Rightarrow> (vuln list \<times> finding_limit_state) result" where
  "detect_report env report fallback st =
     rbind (packages_loop env MAX_FINDINGS MAX_FINDING_BYTES fallback (packages_of (ar_assets report)) \<lparr>sc_findings = [], sc_seen = [], sc_bytes = 0, sc_limit = st\<rparr>)
       (\<lambda>s. Inr (sc_findings s, sc_limit s))"

end
