(* ===== verification/Detect_Coverage.thy ===== *)
theory Detect_Coverage
  imports Detect_Findings
begin

text \<open>
  Coverage accounting of a detection pass: \<open>analyzer/detect/coverage.py\<close>, which separates the packages that can be matched from those whose advisories were never
  synchronised, and \<open>matrix.py\<close>, the rows shown to operators. SHA-256 is an argument. The row models are validated as they are built.
\<close>

section \<open>Package coverage\<close>

definition UNSUPPORTED_COLLECTED_ECOSYSTEMS :: "string list" where
  "UNSUPPORTED_COLLECTED_ECOSYSTEMS = [''Windows'']"

definition ecosystem_family :: "string \<Rightarrow> string" where
  "ecosystem_family ecosystem = strip (fst (partition_at CHR '':'' ecosystem))"

record ecosystem_coverage =
  ec_ecosystem :: "string option"
  ec_total :: nat
  ec_covered :: nat
  ec_unresolved :: nat
  ec_uncovered :: nat
  ec_unsupported :: nat

record coverage_counts =
  cc_covered :: "package list"
  cc_unresolved :: nat
  cc_uncovered :: nat
  cc_unsupported :: nat
  cc_uncovered_ecosystems :: "string list"
  cc_unsupported_ecosystems :: "string list"
  cc_counts :: "(string option \<times> nat list) list"

record package_coverage =
  pc_report :: asset_report
  pc_total :: nat
  pc_resolved :: nat
  pc_covered :: nat
  pc_unresolved :: nat
  pc_uncovered :: nat
  pc_unsupported :: nat
  pc_uncovered_ecosystems :: "string list"
  pc_unsupported_ecosystems :: "string list"
  pc_ecosystems :: "ecosystem_coverage list"

definition bump :: "nat \<Rightarrow> nat list \<Rightarrow> nat list" where
  "bump i counts = counts[i := counts ! i + 1]"

definition count_package :: "string option \<Rightarrow> nat \<Rightarrow> (string option \<times> nat list) list \<Rightarrow> (string option \<times> nat list) list" where
  "count_package eco i d = (let counts = (case map_of d eco of None \<Rightarrow> [0, 0, 0, 0, 0] | Some c \<Rightarrow> c) in AList.update eco (bump i (bump 0 counts)) d)"

definition coverage_step :: "string option \<Rightarrow> string list option \<Rightarrow> package \<Rightarrow> coverage_counts \<Rightarrow> coverage_counts" where
  "coverage_step fallback synced p s =
     (case ecosystem_of fallback p of
        None \<Rightarrow> s\<lparr>cc_unresolved := cc_unresolved s + 1, cc_counts := count_package None 2 (cc_counts s)\<rparr>
      | Some eco \<Rightarrow>
          let family = ecosystem_family eco in
          if family \<in> set UNSUPPORTED_COLLECTED_ECOSYSTEMS
          then s\<lparr>cc_uncovered := cc_uncovered s + 1, cc_unsupported := cc_unsupported s + 1,
                 cc_uncovered_ecosystems := List.insert eco (cc_uncovered_ecosystems s),
                 cc_unsupported_ecosystems := List.insert eco (cc_unsupported_ecosystems s), cc_counts := count_package (Some eco) 4 (cc_counts s)\<rparr>
          else if (case synced of None \<Rightarrow> False | Some fams \<Rightarrow> family \<notin> set fams)
          then s\<lparr>cc_uncovered := cc_uncovered s + 1, cc_uncovered_ecosystems := List.insert eco (cc_uncovered_ecosystems s),
                 cc_counts := count_package (Some eco) 3 (cc_counts s)\<rparr>
          else s\<lparr>cc_covered := cc_covered s @ [p], cc_counts := count_package (Some eco) 1 (cc_counts s)\<rparr>)"

definition ecosystem_row :: "string option \<times> nat list \<Rightarrow> ecosystem_coverage" where
  "ecosystem_row item = (case item of (eco, counts) \<Rightarrow>
     \<lparr>ec_ecosystem = eco, ec_total = counts ! 0, ec_covered = counts ! 1, ec_unresolved = counts ! 2, ec_uncovered = counts ! 3 + counts ! 4,
      ec_unsupported = counts ! 4\<rparr>)"

definition package_coverage_of :: "asset_report \<Rightarrow> string option \<Rightarrow> string list option \<Rightarrow> package_coverage" where
  "package_coverage_of report fallback synced =
     (let packages = packages_of (ar_assets report);
          s = fold (coverage_step fallback synced) packages
                \<lparr>cc_covered = [], cc_unresolved = 0, cc_uncovered = 0, cc_unsupported = 0, cc_uncovered_ecosystems = [], cc_unsupported_ecosystems = [], cc_counts = []\<rparr> in
      \<lparr>pc_report = report\<lparr>ar_assets := map Package (cc_covered s)\<rparr>, pc_total = length packages, pc_resolved = length packages - cc_unresolved s,
       pc_covered = length (cc_covered s), pc_unresolved = cc_unresolved s, pc_uncovered = cc_uncovered s, pc_unsupported = cc_unsupported s,
       pc_uncovered_ecosystems = sort (cc_uncovered_ecosystems s), pc_unsupported_ecosystems = sort (cc_unsupported_ecosystems s),
       pc_ecosystems = map ecosystem_row (sort_key (\<lambda>item. case fst item of None \<Rightarrow> [] | Some e \<Rightarrow> e) (cc_counts s))\<rparr>)"

section \<open>The matrix\<close>

datatype detection_status = DS_COMPLETE | DS_PARTIAL | DS_DISABLED | DS_FAILED
datatype coverage_status = CS_COMPLETE | CS_PARTIAL | CS_DISABLED | CS_FAILED | CS_UNKNOWN

record detection_coverage =
  dc_detector :: detector_kind
  dc_ecosystem :: "string option"
  dc_status :: coverage_status
  dc_scanned_count :: nat
  dc_skipped_count :: nat
  dc_finding_count :: nat
  dc_reason :: "string option"

definition valid_coverage :: "detection_coverage \<Rightarrow> detection_coverage result" where
  "valid_coverage c =
     rbind (valid_opt_ident (dc_ecosystem c)) (\<lambda>eco. rbind (valid_opt_str (dc_reason c)) (\<lambda>reason. Inr (c\<lparr>dc_ecosystem := eco, dc_reason := reason\<rparr>)))"

definition MAX_OSV_ROWS :: nat where "MAX_OSV_ROWS = 250"

definition scope_label :: "(string \<Rightarrow> string) \<Rightarrow> string option \<Rightarrow> string option" where
  "scope_label sha256 v = (case v of None \<Rightarrow> None | Some s \<Rightarrow> if length s \<le> 256 then Some s else Some (take 183 s @ ''~sha256:'' @ sha256 s))"

record osv_context =
  ox_store_available :: bool
  ox_sync_known :: bool
  ox_detection_status :: detection_status
  ox_status_reason :: "string option"
  ox_incomplete_reason :: "string option"

definition osv_status :: "osv_context \<Rightarrow> ecosystem_coverage \<Rightarrow> coverage_status \<times> string option" where
  "osv_status cx item =
     (if \<not> ox_store_available cx then (CS_DISABLED, Some ''osv_store_empty'')
      else if ox_detection_status cx = DS_FAILED
      then (CS_FAILED, Some (case truthy (ox_status_reason cx) of None \<Rightarrow> ''osv_detection_failed'' | Some r \<Rightarrow> r))
      else if ec_ecosystem item = None then (CS_PARTIAL, Some ''ecosystem_unresolved'')
      else if ec_unsupported item \<noteq> 0 then (CS_PARTIAL, Some ''osv_ecosystem_unsupported'')
      else if ec_uncovered item \<noteq> 0 then (CS_PARTIAL, Some ''osv_ecosystem_not_synced'')
      else if \<not> ox_sync_known cx then (CS_PARTIAL, Some ''osv_sync_incomplete'')
      else (case truthy (ox_incomplete_reason cx) of Some r \<Rightarrow> (CS_PARTIAL, Some r) | None \<Rightarrow> (CS_COMPLETE, None)))"

definition osv_row :: "(string \<Rightarrow> string) \<Rightarrow> osv_context \<Rightarrow> nat \<Rightarrow> ecosystem_coverage \<Rightarrow> detection_coverage result" where
  "osv_row sha256 cx findings item =
     valid_coverage \<lparr>dc_detector = OSV, dc_ecosystem = scope_label sha256 (ec_ecosystem item), dc_status = fst (osv_status cx item),
       dc_scanned_count = (if ox_store_available cx then ec_covered item else 0),
       dc_skipped_count = (if ox_store_available cx then ec_total item - ec_covered item else ec_total item),
       dc_finding_count = findings, dc_reason = snd (osv_status cx item)\<rparr>"

text \<open>Attribution of a finding to an ecosystem: the last package with its asset identifier.\<close>

definition finding_ecosystem :: "asset_report \<Rightarrow> string option \<Rightarrow> vuln \<Rightarrow> string option" where
  "finding_ecosystem report fallback f =
     (case map_of (rev (map (\<lambda>p. (pk_asset_id p, case truthy (pk_ecosystem p) of Some e \<Rightarrow> Some e | None \<Rightarrow> fallback)) (packages_of (ar_assets report)))) (vn_affected_asset_id f) of
        None \<Rightarrow> None | Some e \<Rightarrow> e)"

definition osv_count :: "asset_report \<Rightarrow> string option \<Rightarrow> vuln list \<Rightarrow> string option \<Rightarrow> nat" where
  "osv_count report fallback findings eco = length (filter (\<lambda>f. finding_ecosystem report fallback f = eco) findings)"

definition grouped_row :: "(string option \<Rightarrow> nat) \<Rightarrow> ecosystem_coverage list \<Rightarrow> detection_coverage" where
  "grouped_row count omitted =
     \<lparr>dc_detector = OSV, dc_ecosystem = Some ''other'', dc_status = CS_PARTIAL, dc_scanned_count = sum_list (map ec_covered omitted),
      dc_skipped_count = sum_list (map (\<lambda>i. ec_total i - ec_covered i) omitted), dc_finding_count = sum_list (map (\<lambda>i. count (ec_ecosystem i)) omitted),
      dc_reason = Some ''coverage_matrix_grouped''\<rparr>"

definition SCANNER_KINDS :: "detector_kind list" where
  "SCANNER_KINDS = [DEFENDER, MALWARE, POSTURE, SECRET]"

definition scanner_count :: "vuln list \<Rightarrow> detector_kind \<Rightarrow> nat" where
  "scanner_count findings kind = length (filter (\<lambda>f. vn_source f \<in> set (source_by_detector kind)) findings)"

fun run_coverage :: "detector_run_status \<Rightarrow> coverage_status" where
  "run_coverage RunComplete = CS_COMPLETE"
| "run_coverage RunPartial = CS_PARTIAL"
| "run_coverage RunFailed = CS_FAILED"

definition declared_run :: "detector_run list \<Rightarrow> detector_kind \<Rightarrow> detector_run option" where
  "declared_run runs kind = map_of (rev (map (\<lambda>r. (run_detector r, r)) (filter (\<lambda>r. run_detector r \<noteq> OSV) runs))) kind"

definition scanner_status :: "detector_run list option \<Rightarrow> string option \<Rightarrow> nat \<Rightarrow> detector_kind \<Rightarrow> coverage_status \<times> string option" where
  "scanner_status runs incomplete actual kind =
     (case runs of None \<Rightarrow> (CS_UNKNOWN, Some ''producer_detector_coverage_unknown'')
      | Some rs \<Rightarrow>
          (case declared_run rs kind of None \<Rightarrow> (CS_DISABLED, Some ''detector_not_enabled'')
           | Some run \<Rightarrow>
               let (status, reason) = (if run_finding_count run \<noteq> actual then (CS_PARTIAL, Some ''detector_finding_count_mismatch'')
                                       else (run_coverage (run_status run), run_reason run)) in
               (case truthy incomplete of
                  Some r \<Rightarrow> if status = CS_COMPLETE then (CS_PARTIAL, Some r) else (status, reason)
                | None \<Rightarrow> (status, reason))))"

definition scanner_row :: "asset_report \<Rightarrow> string option \<Rightarrow> vuln list \<Rightarrow> detector_kind \<Rightarrow> detection_coverage result" where
  "scanner_row report incomplete findings kind =
     (let actual = scanner_count findings kind; st = scanner_status (ar_detector_runs report) incomplete actual kind in
      valid_coverage \<lparr>dc_detector = kind, dc_ecosystem = None, dc_status = fst st, dc_scanned_count = 0, dc_skipped_count = 0,
        dc_finding_count = actual, dc_reason = snd st\<rparr>)"

definition coverage_matrix :: "(string \<Rightarrow> string) \<Rightarrow> asset_report \<Rightarrow> package_coverage \<Rightarrow> vuln list \<Rightarrow> vuln list \<Rightarrow> string option \<Rightarrow> osv_context \<Rightarrow> string option
    \<Rightarrow> detection_coverage option \<Rightarrow> detection_coverage list result" where
  "coverage_matrix sha256 report cov osv_findings scanner fallback cx scanner_incomplete tracker =
     (let count = osv_count report fallback osv_findings;
          ecosystem_rows = (if pc_ecosystems cov = []
            then [\<lparr>ec_ecosystem = None, ec_total = 0, ec_covered = 0, ec_unresolved = 0, ec_uncovered = 0, ec_unsupported = 0\<rparr>] else pc_ecosystems cov);
          max_rows = (if tracker \<noteq> None then MAX_OSV_ROWS else MAX_OSV_ROWS + 1) in
      rbind (rmap_list (\<lambda>item. osv_row sha256 cx (count (ec_ecosystem item)) item) (take max_rows ecosystem_rows)) (\<lambda>rows.
      rbind (if max_rows < length ecosystem_rows then rbind (valid_coverage (grouped_row count (drop max_rows ecosystem_rows))) (\<lambda>r. Inr [r]) else Inr []) (\<lambda>grouped.
      rbind (rmap_list (scanner_row report scanner_incomplete scanner) SCANNER_KINDS) (\<lambda>detectors.
        Inr (rows @ grouped @ (case tracker of None \<Rightarrow> [] | Some t \<Rightarrow> [t]) @ detectors)))))"

end
