(* ===== verification/Kali_Tracker.thy ===== *)
theory Kali_Tracker
  imports Detect_Coverage
begin

text \<open>
  Matching of Kali packages against the Debian security tracker: \<open>analyzer/detect/kali.py\<close> and the reads of \<open>debian_tracker.py\<close>. Only source versions
  found literally in a Debian repository are judged. The clock is an argument.
\<close>

section \<open>The tracker index\<close>

record tracker_advisory =
  ta_advisory_id :: string
  ta_release :: string
  ta_status :: string
  ta_fixed_version :: "string option"
  ta_urgency :: "string option"
  ta_scope :: "string option"

record tracker_store =
  ts_present :: bool
  ts_record_count :: int
  ts_synced_at :: "datetime option"
  ts_max_age_seconds :: "rat option"
  ts_rows :: "((string \<times> string) \<times> tracker_advisory) list"

definition tracker_available :: "tracker_store \<Rightarrow> bool" where
  "tracker_available s = (ts_present s \<and> 0 < ts_record_count s)"

definition age_seconds :: "datetime \<Rightarrow> tracker_store \<Rightarrow> rat option" where
  "age_seconds now s = map_option (\<lambda>t. max 0 (float_round (of_int (now - t) / 1000000))) (ts_synced_at s)"

definition tracker_stale :: "datetime \<Rightarrow> tracker_store \<Rightarrow> bool" where
  "tracker_stale now s = (tracker_available s \<and> (case ts_max_age_seconds s of None \<Rightarrow> False
     | Some m \<Rightarrow> (case age_seconds now s of None \<Rightarrow> True | Some a \<Rightarrow> m < a)))"

definition tracker_lookup :: "tracker_store \<Rightarrow> string \<Rightarrow> string \<Rightarrow> tracker_advisory list" where
  "tracker_lookup s source_package source_version =
     (if \<not> ts_present s then []
      else sort_key (\<lambda>r. (ta_advisory_id r, ta_release r)) (map snd (filter (\<lambda>r. fst r = (source_package, source_version)) (ts_rows s))))"

section \<open>Matching\<close>

definition TRACKER_SOURCE :: string where "TRACKER_SOURCE = ''debian-security-tracker''"

definition URGENCY :: "(string \<times> severity) list" where
  "URGENCY = [(''unimportant'', INFO), (''low'', LOW), (''medium'', MEDIUM), (''high'', HIGH), (''not yet assigned'', MEDIUM)]"

record kali_detection =
  kd_osv_report :: asset_report
  kd_findings :: "vuln list"
  kd_candidate_count :: nat
  kd_verified_count :: nat
  kd_unverified_count :: nat
  kd_incomplete_count :: nat

definition is_kali_package :: "asset_report \<Rightarrow> package \<Rightarrow> bool" where
  "is_kali_package report p = (pk_source p = Some ''dpkg'' \<and> (str_in ''kali'' (lower (ar_host_os report))
     \<or> fst (partition_at CHR '':'' (case pk_ecosystem p of None \<Rightarrow> [] | Some e \<Rightarrow> e)) = ''Kali''))"

definition tracker_affected :: "tracker_advisory \<Rightarrow> string \<Rightarrow> bool option result" where
  "tracker_affected row source_version =
     (if ta_status row = ''open'' then Inr (Some True)
      else if ta_status row = ''resolved''
      then (case truthy (ta_fixed_version row) of None \<Rightarrow> Inr (Some False)
            | Some v \<Rightarrow> if v = ''0'' then Inr (Some False) else rbind (dpkg_compare source_version v) (\<lambda>c. Inr (Some (c < 0))))
      else Inr None)"

definition tracker_severity :: "tracker_advisory list \<Rightarrow> severity" where
  "tracker_severity rows = (if rows = [] then MEDIUM
     else Max (set (map (\<lambda>r. case map_of URGENCY (case ta_urgency r of None \<Rightarrow> [] | Some u \<Rightarrow> u) of None \<Rightarrow> MEDIUM | Some s \<Rightarrow> s) rows)))"

definition binary_summary :: "package list \<Rightarrow> string" where
  "binary_summary ps =
     (let labels = sort (fromkeys (map (\<lambda>p. pk_name p @ '' '' @ pk_version p) ps)); shown = join '', '' (take 5 labels) in
      if 5 < length labels then shown @ '', and '' @ nat_str (length labels - 5) @ '' more'' else shown)"

text \<open>A dictionary of lists filled in a loop: keys in the order of their first item.\<close>

definition group_by :: "('a \<Rightarrow> 'k) \<Rightarrow> 'a list \<Rightarrow> ('k \<times> 'a list) list" where
  "group_by key xs = map (\<lambda>k. (k, filter (\<lambda>x. key x = k) xs)) (fromkeys (map key xs))"

text \<open>Insertion of a version into a sorted list; equal versions keep their order.\<close>

fun insert_version :: "string \<Rightarrow> string list \<Rightarrow> string list result" where
  "insert_version v [] = Inr [v]"
| "insert_version v (w # ws) = rbind (dpkg_compare v w) (\<lambda>c. if c < 0 then Inr (v # w # ws) else rbind (insert_version v ws) (\<lambda>r. Inr (w # r)))"

fun sort_versions :: "string list \<Rightarrow> string list \<Rightarrow> string list result" where
  "sort_versions [] acc = Inr acc"
| "sort_versions (v # vs) acc = rbind (insert_version v acc) (sort_versions vs)"

definition tracker_evidence :: "string \<Rightarrow> string \<Rightarrow> package list \<Rightarrow> tracker_advisory list \<Rightarrow> string list \<Rightarrow> string" where
  "tracker_evidence source_name source_version ps rows fixed =
     ''Debian source '' @ source_name @ '' '' @ source_version @ '' (installed binaries: '' @ binary_summary ps @ ''); vulnerable in ''
       @ join '', '' (sort (fromkeys (map ta_release rows))) @ (case fixed of [] \<Rightarrow> [] | f # _ \<Rightarrow> '' (fixed in '' @ f @ '')'')"

record kali_scan =
  ks_findings :: "vuln list"
  ks_consumed :: nat
  ks_incomplete :: nat
  ks_limit :: finding_limit_state

definition fixed_candidates :: "tracker_advisory list \<Rightarrow> string list" where
  "fixed_candidates rows = fromkeys (concat (map (\<lambda>r. case truthy (ta_fixed_version r) of None \<Rightarrow> [] | Some v \<Rightarrow> if v = ''0'' then [] else [v]) rows))"

definition tracker_finding :: "string option \<Rightarrow> string \<Rightarrow> string \<Rightarrow> package list \<Rightarrow> string \<Rightarrow> tracker_advisory list \<Rightarrow> vuln result" where
  "tracker_finding parent source_name source_version ps advisory_id rows =
     rbind (sort_versions (fixed_candidates rows) []) (\<lambda>fixed.
       valid_vuln \<lparr>vu_vuln_id = advisory_id, vu_severity = tracker_severity rows, vn_cvss_score = None, vn_affected_asset_id = pk_asset_id (hd ps),
         vn_parent_asset_id = parent, vn_source = TRACKER_SOURCE, vn_evidence = Some (tracker_evidence source_name source_version ps rows fixed),
         vn_references = [''https://security-tracker.debian.org/tracker/'' @ advisory_id]\<rparr>)"

fun advisories_loop :: "(vuln \<Rightarrow> nat) \<Rightarrow> nat \<Rightarrow> nat \<Rightarrow> string option \<Rightarrow> string \<Rightarrow> string \<Rightarrow> package list \<Rightarrow> (string \<times> tracker_advisory list) list \<Rightarrow> kali_scan
    \<Rightarrow> (kali_scan \<times> bool) result" where
  "advisories_loop size_of max_findings max_bytes parent sname sver ps [] s = Inr (s, False)"
| "advisories_loop size_of max_findings max_bytes parent sname sver ps ((aid, rows) # rest) s =
     rbind (rmap_list (\<lambda>r. tracker_affected r sver) rows) (\<lambda>verdicts.
       let affected_rows = map fst (filter (\<lambda>(r, v). v = Some True) (zip rows verdicts));
           s1 = (if None \<in> set verdicts then s\<lparr>ks_incomplete := ks_incomplete s + 1\<rparr> else s) in
       if affected_rows = [] \<or> \<not> startswith aid ''CVE-'' then advisories_loop size_of max_findings max_bytes parent sname sver ps rest s1
       else rbind (tracker_finding parent sname sver ps aid affected_rows) (\<lambda>f.
         if max_findings \<le> length (ks_findings s1) \<or> max_bytes < ks_consumed s1 + size_of f
         then Inr (s1\<lparr>ks_limit := mark_finding (if max_findings \<le> length (ks_findings s1) then ''debian_tracker_max_findings'' else ''debian_tracker_max_bytes'') (ks_limit s1)\<rparr>, True)
         else advisories_loop size_of max_findings max_bytes parent sname sver ps rest
                (s1\<lparr>ks_findings := ks_findings s1 @ [f], ks_consumed := ks_consumed s1 + size_of f\<rparr>)))"

type_synonym source_key = "string option \<times> string \<times> string"

fun groups_loop :: "(vuln \<Rightarrow> nat) \<Rightarrow> nat \<Rightarrow> nat \<Rightarrow> tracker_store \<Rightarrow> (source_key \<times> package list) list \<Rightarrow> nat \<Rightarrow> kali_scan \<Rightarrow> (nat \<times> kali_scan \<times> bool) result" where
  "groups_loop size_of max_findings max_bytes store [] verified s = Inr (verified, s, False)"
| "groups_loop size_of max_findings max_bytes store (((parent, sname, sver), ps) # rest) verified s =
     (let rows = tracker_lookup store sname sver in
      if rows = [] then groups_loop size_of max_findings max_bytes store rest verified s
      else rbind (advisories_loop size_of max_findings max_bytes parent sname sver ps (group_by ta_advisory_id rows) s) (\<lambda>(s1, returned).
        if returned then Inr (verified + length ps, s1, True) else groups_loop size_of max_findings max_bytes store rest (verified + length ps) s1))"

definition source_key_of :: "package \<Rightarrow> source_key" where
  "source_key_of p = (pk_parent_asset_id p, (case truthy (pk_source_name p) of Some n \<Rightarrow> n | None \<Rightarrow> pk_name p),
     (case truthy (pk_source_version p) of Some v \<Rightarrow> v | None \<Rightarrow> pk_version p))"

definition is_candidate :: "asset_report \<Rightarrow> asset \<Rightarrow> bool" where
  "is_candidate report a = (case a of Package p \<Rightarrow> is_kali_package report p | Other_asset _ _ \<Rightarrow> False)"

definition detect_kali_packages :: "(vuln \<Rightarrow> nat) \<Rightarrow> asset_report \<Rightarrow> tracker_store \<Rightarrow> finding_limit_state \<Rightarrow> (kali_detection \<times> finding_limit_state) result" where
  "detect_kali_packages size_of report store st =
     (let candidates = packages_of (filter (is_candidate report) (ar_assets report));
          remaining = filter (\<lambda>a. \<not> is_candidate report a) (ar_assets report) in
      rbind (groups_loop size_of MAX_FINDINGS MAX_FINDING_BYTES store (group_by source_key_of candidates) 0
               \<lparr>ks_findings = [], ks_consumed = 0, ks_incomplete = 0, ks_limit = st\<rparr>) (\<lambda>(verified, s, returned).
        Inr (\<lparr>kd_osv_report = report\<lparr>ar_assets := remaining\<rparr>, kd_findings = ks_findings s, kd_candidate_count = length candidates,
               kd_verified_count = verified, kd_unverified_count = length candidates - verified, kd_incomplete_count = ks_incomplete s\<rparr>,
             if ks_incomplete s \<noteq> 0 \<and> \<not> returned then mark_incomplete ''debian_tracker_advisory_undetermined'' (ks_limit s) else ks_limit s)))"

section \<open>Status\<close>

definition merge_kali_tracker_status :: "datetime \<Rightarrow> detection_status \<Rightarrow> string option \<Rightarrow> kali_detection \<Rightarrow> tracker_store \<Rightarrow> finding_limit_state \<Rightarrow> nat
    \<Rightarrow> detection_status \<times> string option" where
  "merge_kali_tracker_status now current reason res store st osv_candidates =
     (if kd_candidate_count res = 0 \<or> current = DS_FAILED then (current, reason)
      else if \<not> tracker_available store then (DS_PARTIAL, Some ''debian_tracker_empty'')
      else if tracker_stale now store then (DS_PARTIAL, Some ''debian_tracker_stale'')
      else
        let (current, reason) = (if current = DS_DISABLED then (if osv_candidates = 0 then (DS_COMPLETE, None) else (DS_PARTIAL, reason)) else (current, reason)) in
        if fl_truncated st then (DS_PARTIAL, fl_reason st)
        else if kd_incomplete_count res \<noteq> 0 then (DS_PARTIAL, Some ''debian_tracker_advisory_undetermined'')
        else if kd_unverified_count res \<noteq> 0 then (DS_PARTIAL, Some ''some_kali_package_origins_unverified'')
        else (current, reason))"

definition kali_status :: "datetime \<Rightarrow> kali_detection \<Rightarrow> tracker_store \<Rightarrow> finding_limit_state \<Rightarrow> coverage_status \<times> string option" where
  "kali_status now res store st =
     (if \<not> tracker_available store then (CS_DISABLED, Some ''debian_tracker_empty'')
      else if tracker_stale now store then (CS_PARTIAL, Some ''debian_tracker_stale'')
      else if fl_truncated st then (CS_PARTIAL, fl_reason st)
      else if kd_incomplete_count res \<noteq> 0 then (CS_PARTIAL, Some ''debian_tracker_advisory_undetermined'')
      else if kd_unverified_count res \<noteq> 0 then (CS_PARTIAL, Some ''kali_package_origin_unverified'')
      else (CS_COMPLETE, None))"

definition kali_tracker_coverage :: "datetime \<Rightarrow> kali_detection \<Rightarrow> tracker_store \<Rightarrow> finding_limit_state \<Rightarrow> detection_coverage option result" where
  "kali_tracker_coverage now res store st =
     (if kd_candidate_count res = 0 then Inr None
      else rbind (valid_coverage \<lparr>dc_detector = DEBIAN_TRACKER, dc_ecosystem = Some ''Kali:rolling'', dc_status = fst (kali_status now res store st),
             dc_scanned_count = kd_verified_count res, dc_skipped_count = kd_unverified_count res, dc_finding_count = length (kd_findings res),
             dc_reason = snd (kali_status now res store st)\<rparr>) (\<lambda>c. Inr (Some c)))"

end
