(* ===== verification/Derived_Budget.thy ===== *)
theory Derived_Budget
  imports Ingest_Ledger Record_Store
begin

text \<open>
  The persistence budget of one ingest and its outcome, \<open>_DerivedBudget\<close>, \<open>_DerivedOutcome\<close> and \<open>_budget_outcome\<close> of \<open>analyzer/api/ingest.py\<close>. A derived record
  whose deterministic alert identifier is stored already is not stored again. The answers of the disk to one append (file sizes before and after a checkpoint, page
  ceiling reached) are arguments.
\<close>

definition MAX_DERIVED_RECORDS_PER_INGEST :: nat where "MAX_DERIVED_RECORDS_PER_INGEST = 256"
definition MAX_DERIVED_BYTES_PER_INGEST :: nat where "MAX_DERIVED_BYTES_PER_INGEST = 4 * 1024 * 1024"

type_synonym disk = "nat \<times> nat \<times> bool"

record derived_budget =
  db_records :: nat
  db_bytes :: nat
  db_truncated :: bool
  db_truncation_reason :: "string option"

definition fresh_budget :: derived_budget where
  "fresh_budget = \<lparr>db_records = 0, db_bytes = 0, db_truncated = False, db_truncation_reason = None\<rparr>"

definition store_append :: "'p store_config \<Rightarrow> disk \<Rightarrow> 'p \<Rightarrow> 'p record_store \<Rightarrow> 'p record_store result" where
  "store_append c d p s = (case d of (used, checkpointed, full) \<Rightarrow> append_record c used checkpointed full p s)"

definition budget_append :: "'p store_config \<Rightarrow> ('p \<Rightarrow> string option) \<Rightarrow> disk \<Rightarrow> 'p \<Rightarrow> derived_budget \<times> 'p record_store \<Rightarrow> ((derived_budget \<times> 'p record_store) \<times> bool) result" where
  "budget_append c alert_id d p bs =
     (case bs of (b, s) \<Rightarrow>
        if (case alert_id p of None \<Rightarrow> False | Some i \<Rightarrow> find_one c ''alert_id'' i s \<noteq> None) then Inr ((b, s), True)
        else
          let encoded = st_size c p in
          if MAX_DERIVED_RECORDS_PER_INGEST \<le> db_records b \<or> MAX_DERIVED_BYTES_PER_INGEST < db_bytes b + encoded
          then Inr ((b\<lparr>db_truncated := True, db_truncation_reason :=
                       Some (if MAX_DERIVED_RECORDS_PER_INGEST \<le> db_records b then ''max_records'' else ''max_bytes'')\<rparr>, s), False)
          else rbind (store_append c d p s) (\<lambda>s'. Inr ((b\<lparr>db_records := db_records b + 1, db_bytes := db_bytes b + encoded\<rparr>, s'), True)))"

text \<open>\<open>for alert in alerts: if not budget.append(...): break; persisted.append(alert)\<close>. An exception leaves what was stored before it.\<close>

fun persist_loop :: "'p store_config \<Rightarrow> ('p \<Rightarrow> string option) \<Rightarrow> (nat \<Rightarrow> disk) \<Rightarrow> nat \<Rightarrow> 'p list \<Rightarrow> derived_budget \<times> 'p record_store \<Rightarrow> 'p list
    \<Rightarrow> (derived_budget \<times> 'p record_store) \<times> 'p list \<times> exn option" where
  "persist_loop c alert_id disks i [] bs persisted = (bs, persisted, None)"
| "persist_loop c alert_id disks i (a # as) bs persisted =
     (case budget_append c alert_id (disks i) a bs of
        Inl e \<Rightarrow> (bs, persisted, Some e)
      | Inr (bs', False) \<Rightarrow> (bs', persisted, None)
      | Inr (bs', True) \<Rightarrow> persist_loop c alert_id disks (Suc i) as bs' (persisted @ [a]))"

definition budget_outcome :: "derived_budget \<Rightarrow> string list \<Rightarrow> derived_outcome" where
  "budget_outcome b reasons =
     (let reason = (case reasons of r # _ \<Rightarrow> Some r | [] \<Rightarrow> db_truncation_reason b) in
      \<lparr>do_status = (if truthy reason \<noteq> None \<or> db_truncated b then R_PARTIAL else R_COMPLETE), do_records = int (db_records b),
       do_truncated = db_truncated b, do_reason = reason\<rparr>)"

end
