(* ===== verification/Auto_Detect.thy ===== *)
theory Auto_Detect
  imports Kali_Tracker Derived_Budget
begin

text \<open>
  Detection at ingest, \<open>_auto_detect\<close> and \<open>store_asset_report\<close> of \<open>analyzer/api/ingest.py\<close>: scanner findings, the tracker, package coverage, OSV matching, the merged
  status, the coverage matrix, and the one derived record that is stored. The clock readings, the disk's answers and SHA-256 are arguments. When the OSV lookup raises,
  the marks its limit state got before are not read any more, so the model keeps none.
\<close>

definition MAX_DERIVED_VULNERABILITIES :: nat where "MAX_DERIVED_VULNERABILITIES = 4096"

record detector_state =
  dt_osv_ecosystem :: "string option"
  dt_tracker :: tracker_store
  dt_synced_ecosystems :: "string list option"
  dt_record_count :: int

record detection_record =
  dx_report_id :: string
  dx_host_id :: string
  dx_collected_at :: datetime
  dx_ecosystem :: string
  dx_vulnerabilities :: "vuln list"
  dx_status :: detection_status
  dx_status_reason :: "string option"
  dx_scanned_package_count :: nat
  dx_unresolved_package_count :: nat
  dx_uncovered_package_count :: nat
  dx_truncated :: bool
  dx_truncation_reason :: "string option"
  dx_coverage :: "detection_coverage list"

definition valid_detection :: "detection_record \<Rightarrow> detection_record result" where
  "valid_detection d =
     rbind (valid_ident (dx_report_id d)) (\<lambda>rid.
     rbind (valid_ident (dx_host_id d)) (\<lambda>hid.
     rbind (valid_ident (dx_ecosystem d)) (\<lambda>eco.
     rbind (valid_opt_str (dx_status_reason d)) (\<lambda>reason.
     rbind (valid_opt_str (dx_truncation_reason d)) (\<lambda>trunc.
       if 4096 < length (dx_vulnerabilities d) \<or> MAX_NESTED_LIST_ITEMS < length (dx_coverage d) then Inl ValidationError
       else Inr (d\<lparr>dx_report_id := rid, dx_host_id := hid, dx_ecosystem := eco, dx_status_reason := reason, dx_truncation_reason := trunc\<rparr>))))))"

record osv_pass =
  op_vulns :: "vuln list"
  op_limit :: finding_limit_state
  op_status :: detection_status
  op_reason :: "string option"
  op_scanned :: nat

definition osv_skipped :: "detection_status \<Rightarrow> string option \<Rightarrow> osv_pass" where
  "osv_skipped status reason = \<lparr>op_vulns = [], op_limit = no_limit, op_status = status, op_reason = reason, op_scanned = 0\<rparr>"

definition run_osv :: "'ver detect_env \<Rightarrow> detector_state \<Rightarrow> string option \<Rightarrow> package_coverage \<Rightarrow> nat \<Rightarrow> osv_pass" where
  "run_osv env st fallback cov candidates =
     (if dt_record_count st \<le> 0 then osv_skipped DS_DISABLED (Some ''osv_store_empty'')
      else
        let (status, reason) = (if pc_total cov = 0 \<and> candidates = 0 then (DS_PARTIAL, Some ''no_package_inventory'')
                                else if dt_synced_ecosystems st = None then (DS_PARTIAL, Some ''osv_sync_incomplete'') else (DS_COMPLETE, None)) in
        if pc_total cov \<noteq> 0 \<and> pc_resolved cov = 0 then osv_skipped DS_PARTIAL (Some ''ecosystem_unresolved'')
        else if pc_unsupported cov = pc_resolved cov \<and> 0 < pc_unsupported cov then osv_skipped DS_PARTIAL (Some ''osv_ecosystem_unsupported'')
        else if pc_uncovered cov = pc_resolved cov \<and> 0 < pc_uncovered cov
        then osv_skipped DS_PARTIAL (Some (if pc_unsupported cov \<noteq> 0 then ''some_osv_ecosystems_unsupported'' else ''osv_ecosystem_not_synced''))
        else (case detect_report env (pc_report cov) fallback no_limit of
                Inl _ \<Rightarrow> osv_skipped DS_FAILED (Some ''osv_detection_failed'')
              | Inr (vulns, limit) \<Rightarrow>
                  let (status, reason) = (if pc_unsupported cov \<noteq> 0 then (DS_PARTIAL, Some ''some_osv_ecosystems_unsupported'')
                                          else if pc_uncovered cov \<noteq> 0 then (DS_PARTIAL, Some ''some_osv_ecosystems_not_synced'')
                                          else if pc_unresolved cov \<noteq> 0 then (DS_PARTIAL, Some ''some_package_ecosystems_unresolved'') else (status, reason)) in
                  \<lparr>op_vulns = vulns, op_limit = limit, op_status = status, op_reason = reason, op_scanned = pc_covered cov\<rparr>))"

definition first_truthy :: "string option list \<Rightarrow> string option" where
  "first_truthy xs = first_some (map truthy xs)"

definition row_settled :: "detection_coverage \<Rightarrow> bool" where
  "row_settled row = (dc_status row = CS_COMPLETE \<or> dc_status row = CS_DISABLED)"

definition detection_outcome :: "detection_record \<Rightarrow> detection_coverage list \<Rightarrow> derived_outcome" where
  "detection_outcome d matrix =
     \<lparr>do_status = (if dx_status d = DS_FAILED then R_FAILED
                   else if dx_status d = DS_COMPLETE \<and> \<not> dx_truncated d \<and> (\<forall>row \<in> set matrix. row_settled row) then R_COMPLETE else R_PARTIAL),
      do_records = 1, do_truncated = dx_truncated d,
      do_reason = first_truthy [dx_status_reason d, dx_truncation_reason d, first_truthy (map dc_reason (filter (\<lambda>row. \<not> row_settled row) matrix))]\<rparr>"

text \<open>The detection pass proper: the record it builds.\<close>

definition build_detection :: "'ver detect_env \<Rightarrow> (string \<Rightarrow> string) \<Rightarrow> detector_state \<Rightarrow> datetime \<Rightarrow> datetime \<Rightarrow> asset_report \<Rightarrow> detection_record result" where
  "build_detection env sha256 st now1 now2 report =
     (let size_of = de_size env;
          (malware, scanner_limit) = scanner_findings size_of report no_limit;
          fallback = truthy (resolve_ecosystem report (dt_osv_ecosystem st)) in
      rbind (detect_kali_packages size_of report (dt_tracker st) no_limit) (\<lambda>(tracker, tracker_limit).
        let cov = package_coverage_of (kd_osv_report tracker) fallback (dt_synced_ecosystems st);
            osv = run_osv env st fallback cov (kd_candidate_count tracker);
            (status, reason) = merge_kali_tracker_status now1 (op_status osv) (op_reason osv) tracker (dt_tracker st) tracker_limit (pc_total cov);
            (vulns, combine_limit) = combine_findings size_of MAX_DERIVED_VULNERABILITIES (op_vulns osv @ kd_findings tracker) malware no_limit;
            limits = [op_limit osv, tracker_limit, scanner_limit, combine_limit];
            incomplete_reason = first_truthy (map fl_incomplete_reason limits);
            (status, reason) = (if incomplete_reason \<noteq> None \<and> status \<noteq> DS_DISABLED \<and> status \<noteq> DS_FAILED then (DS_PARTIAL, incomplete_reason) else (status, reason)) in
        rbind (kali_tracker_coverage now2 tracker (dt_tracker st) tracker_limit) (\<lambda>tracker_row.
        rbind (coverage_matrix sha256 report cov (op_vulns osv) malware fallback
            \<lparr>ox_store_available = 0 < dt_record_count st, ox_sync_known = (dt_synced_ecosystems st \<noteq> None), ox_detection_status = status, ox_status_reason = reason,
             ox_incomplete_reason = first_truthy [fl_incomplete_reason (op_limit osv), fl_reason (op_limit osv)]\<rparr>
            (first_truthy [fl_incomplete_reason scanner_limit, fl_reason scanner_limit]) tracker_row) (\<lambda>matrix.
          valid_detection \<lparr>dx_report_id = ar_report_id report, dx_host_id = ar_host_id report, dx_collected_at = ar_collected_at report,
            dx_ecosystem = (case fallback of None \<Rightarrow> [] | Some e \<Rightarrow> e), dx_vulnerabilities = vulns, dx_status = status, dx_status_reason = reason,
            dx_scanned_package_count = op_scanned osv + kd_verified_count tracker, dx_unresolved_package_count = pc_unresolved cov + kd_unverified_count tracker,
            dx_uncovered_package_count = pc_uncovered cov, dx_truncated = list_ex fl_truncated limits, dx_truncation_reason = first_truthy (map fl_reason limits),
            dx_coverage = matrix\<rparr>))))"

definition auto_detect :: "'ver detect_env \<Rightarrow> (string \<Rightarrow> string) \<Rightarrow> detection_record store_config \<Rightarrow> disk \<Rightarrow> detector_state \<Rightarrow> datetime \<Rightarrow> datetime \<Rightarrow> asset_report
    \<Rightarrow> detection_record record_store \<Rightarrow> (detection_record record_store \<times> derived_outcome) result" where
  "auto_detect env sha256 c d st now1 now2 report store =
     rbind (build_detection env sha256 st now1 now2 report) (\<lambda>result.
     rbind (budget_append c (\<lambda>_. None) d result (fresh_budget, store)) (\<lambda>((b, store'), persisted).
       if \<not> persisted then Inl RuntimeError else Inr (store', detection_outcome result (dx_coverage result))))"

section \<open>Storing a report\<close>

fun exn_name :: "exn \<Rightarrow> string" where
  "exn_name ValueError = ''ValueError''"
| "exn_name KeyError = ''KeyError''"
| "exn_name IndexError = ''IndexError''"
| "exn_name RuntimeError = ''RuntimeError''"
| "exn_name ValidationError = ''ValidationError''"
| "exn_name StorageCapacityError = ''StorageCapacityError''"
| "exn_name _ = ''Exception''"

definition failed_outcome :: "exn \<Rightarrow> derived_outcome" where
  "failed_outcome e = \<lparr>do_status = R_FAILED, do_records = 0, do_truncated = False, do_reason = Some (exn_name e)\<rparr>"

text \<open>Crash recovery: a derived row that was stored before the ledger outcome is replayed, not computed again.\<close>

definition replayed_outcome :: "detection_record \<Rightarrow> derived_outcome option" where
  "replayed_outcome d =
     (if dx_status d = DS_FAILED then None
      else Some \<lparr>do_status = (if dx_status d = DS_COMPLETE \<and> \<not> dx_truncated d then R_COMPLETE else R_PARTIAL), do_records = 1, do_truncated = dx_truncated d,
                 do_reason = (case truthy (dx_status_reason d) of Some r \<Rightarrow> Some r | None \<Rightarrow> dx_truncation_reason d)\<rparr>)"

definition store_asset_report :: "'ver detect_env \<Rightarrow> (string \<Rightarrow> string) \<Rightarrow> asset_report store_config \<Rightarrow> detection_record store_config \<Rightarrow> disk \<Rightarrow> disk \<Rightarrow> detector_state \<Rightarrow> datetime
    \<Rightarrow> datetime \<Rightarrow> bool \<Rightarrow> asset_report \<Rightarrow> asset_report record_store \<times> detection_record record_store
    \<Rightarrow> ((asset_report record_store \<times> detection_record record_store) \<times> derived_outcome) result" where
  "store_asset_report env sha256 rc dc d1 d2 st now1 now2 persist_raw report stores =
     (case stores of (reports, detections) \<Rightarrow>
        rbind (if persist_raw then store_append rc d1 report reports else Inr reports) (\<lambda>reports'.
          case (if persist_raw then None else Option.bind (find_one dc ''report_id'' (ar_report_id report) detections) replayed_outcome) of
            Some outcome \<Rightarrow> Inr ((reports', detections), outcome)
          | None \<Rightarrow>
              (case auto_detect env sha256 dc d2 st now1 now2 report detections of
                 Inl e \<Rightarrow> Inr ((reports', detections), failed_outcome e)
               | Inr (detections', outcome) \<Rightarrow> Inr ((reports', detections'), outcome))))"

end
