(* ===== verification/Detect_Laws.thy ===== *)
theory Detect_Laws
  imports Kali_Tracker
begin

text \<open>
  What the detection engine reports: the nested loops over packages, advisories and entries, with their early return and their isolated failures, compute the findings
  of the affected package and advisory pairs, one per asset and vulnerability, and say so when they do not.
\<close>

section \<open>The relation the engine decides\<close>

definition advisory_vid :: "osv_advisory \<Rightarrow> string" where
  "advisory_vid r = primary_id (osv_record.truncate r)"

definition affects :: "'ver detect_env \<Rightarrow> string \<Rightarrow> package \<Rightarrow> osv_advisory \<Rightarrow> string option \<Rightarrow> bool" where
  "affects env eco p r fixed = (\<exists>e \<in> set (affected_entries (osv_record.truncate r) eco (pk_name p)).
     is_version_affected (pk_version p) e (comparator_for (de_version env) (de_lt env) eco) (Some semver_compare) = Inr (True, fixed))"

definition from_key :: "'ver detect_env \<Rightarrow> string \<times> string \<Rightarrow> vuln \<Rightarrow> bool" where
  "from_key env key f = (\<exists>p r fixed. key = (pk_asset_id p, advisory_vid r) \<and> to_vulnerability env p r (advisory_vid r) fixed = Inr f)"

definition matched :: "'ver detect_env \<Rightarrow> string option \<Rightarrow> package \<Rightarrow> osv_advisory \<Rightarrow> string option \<Rightarrow> bool" where
  "matched env fb p r fixed = (\<exists>eco rs. ecosystem_of fb p = Some eco \<and> de_lookup env eco (pk_name p) = Inr rs \<and> r \<in> set rs \<and> affects env eco p r fixed)"

definition clean_limit :: "finding_limit_state \<Rightarrow> bool" where
  "clean_limit st = (\<not> fl_truncated st \<and> \<not> fl_incomplete st)"

lemma mark_clean [simp]: "\<not> clean_limit (mark_finding x st)" "\<not> clean_limit (mark_incomplete x st)"
  by (simp_all add: clean_limit_def mark_finding_def mark_incomplete_def)

section \<open>Invariant of the scan\<close>

definition scan_ok :: "'ver detect_env \<Rightarrow> nat \<Rightarrow> nat \<Rightarrow> osv_scan \<Rightarrow> bool" where
  "scan_ok env mf mb s = (length (sc_findings s) \<le> mf \<and> sc_bytes s = sum_list (map (de_size env) (sc_findings s)) \<and> sc_bytes s \<le> mb
     \<and> (\<exists>keys. distinct keys \<and> set keys \<subseteq> set (sc_seen s) \<and> list_all2 (from_key env) keys (sc_findings s)))"

definition seen_ok :: "'ver detect_env \<Rightarrow> osv_scan \<Rightarrow> bool" where
  "seen_ok env s = (clean_limit (sc_limit s) \<longrightarrow> (\<forall>key \<in> set (sc_seen s). \<exists>f \<in> set (sc_findings s). from_key env key f))"

text \<open>What a piece of the scan does: it extends the findings by ones of a given kind, extends the seen keys, and never clears a mark.\<close>

definition extends :: "(vuln \<Rightarrow> bool) \<Rightarrow> osv_scan \<Rightarrow> osv_scan \<Rightarrow> bool" where
  "extends good s s' = ((\<exists>new. sc_findings s' = sc_findings s @ new \<and> (\<forall>f \<in> set new. good f)) \<and> set (sc_seen s) \<subseteq> set (sc_seen s')
     \<and> (clean_limit (sc_limit s') \<longrightarrow> clean_limit (sc_limit s)))"

lemma extends_refl [simp]: "extends good s s"
  by (simp add: extends_def)

lemma extends_trans: "extends good s t \<Longrightarrow> extends good t u \<Longrightarrow> extends good s u"
  unfolding extends_def by (elim conjE exE) (intro conjI; force)

lemma extends_mono: "extends good s t \<Longrightarrow> (\<And>f. good f \<Longrightarrow> good' f) \<Longrightarrow> extends good' s t"
  unfolding extends_def by blast

lemma extends_mark [simp]: "extends good s (t\<lparr>sc_limit := mark_incomplete x (sc_limit t)\<rparr>) \<longleftrightarrow> (\<exists>new. sc_findings t = sc_findings s @ new \<and> (\<forall>f \<in> set new. good f)) \<and> set (sc_seen s) \<subseteq> set (sc_seen t)"
  by (simp add: extends_def)

lemma scan_ok_mark [simp]: "scan_ok env mf mb (s\<lparr>sc_limit := l\<rparr>) = scan_ok env mf mb s"
  by (simp add: scan_ok_def)

lemma seen_ok_mark [simp]: "seen_ok env (s\<lparr>sc_limit := mark_incomplete x l\<rparr>)"
  by (simp add: seen_ok_def)

lemma scan_ok_see: "scan_ok env mf mb s \<Longrightarrow> scan_ok env mf mb (s\<lparr>sc_seen := key # sc_seen s\<rparr>)"
  unfolding scan_ok_def by (auto intro: exI)

lemma scan_ok_add:
  assumes "scan_ok env mf mb s" "key \<notin> set (sc_seen s)" "from_key env key f" "\<not> (mf \<le> length (sc_findings s) \<or> mb < sc_bytes s + de_size env f)"
  shows "scan_ok env mf mb (s\<lparr>sc_seen := key # sc_seen s, sc_findings := sc_findings s @ [f], sc_bytes := sc_bytes s + de_size env f\<rparr>)"
proof -
  obtain keys where "distinct keys" "set keys \<subseteq> set (sc_seen s)" "list_all2 (from_key env) keys (sc_findings s)" using assms(1) by (auto simp: scan_ok_def)
  then have "distinct (keys @ [key])" "set (keys @ [key]) \<subseteq> set (key # sc_seen s)" "list_all2 (from_key env) (keys @ [key]) (sc_findings s @ [f])"
    using assms(2,3) by (auto simp: list_all2_appendI)
  then have "\<exists>ks. distinct ks \<and> set ks \<subseteq> set (key # sc_seen s) \<and> list_all2 (from_key env) ks (sc_findings s @ [f])" by blast
  then show ?thesis using assms(1,4) by (simp add: scan_ok_def)
qed

section \<open>The loops\<close>

definition entry_hit :: "package \<Rightarrow> comparator \<Rightarrow> osv_entry list \<Rightarrow> string option \<Rightarrow> bool" where
  "entry_hit p cmp es fixed = (\<exists>e \<in> set es. is_version_affected (pk_version p) e cmp (Some semver_compare) = Inr (True, fixed))"

lemma entries_spec:
  assumes "entries_loop env mf mb p r cmp es s = (s', x)" "scan_ok env mf mb s"
  shows "scan_ok env mf mb s' \<and> extends (\<lambda>f. \<exists>fixed. entry_hit p cmp es fixed \<and> to_vulnerability env p r (advisory_vid r) fixed = Inr f) s s'
    \<and> (x \<noteq> Raised \<longrightarrow> seen_ok env s \<longrightarrow> seen_ok env s') \<and> (x = Return \<longrightarrow> \<not> clean_limit (sc_limit s'))
    \<and> (x = Next_record \<longrightarrow> (\<exists>fixed. entry_hit p cmp es fixed) \<longrightarrow> (pk_asset_id p, advisory_vid r) \<in> set (sc_seen s'))"
  using assms
proof (induction es)
  case Nil
  then show ?case by (simp add: entry_hit_def)
next
  case (Cons e es)
  let ?key = "(pk_asset_id p, advisory_vid r)"
  have weak: "extends (\<lambda>f. \<exists>fixed. entry_hit p cmp es fixed \<and> to_vulnerability env p r (advisory_vid r) fixed = Inr f) s s' \<Longrightarrow>
      extends (\<lambda>f. \<exists>fixed. entry_hit p cmp (e # es) fixed \<and> to_vulnerability env p r (advisory_vid r) fixed = Inr f) s s'"
    by (erule extends_mono) (auto simp: entry_hit_def)
  show ?case
  proof (cases "is_version_affected (pk_version p) e cmp (Some semver_compare)")
    case (Inl ex)
    then show ?thesis using Cons.prems by simp
  next
    case (Inr v)
    obtain affected fixed where v: "v = (affected, fixed)" by fastforce
    consider (skip) "\<not> affected" | (dup) "affected" "?key \<in> set (sc_seen s)" | (new) "affected" "?key \<notin> set (sc_seen s)" by blast
    then show ?thesis
    proof cases
      case skip
      then have "entries_loop env mf mb p r cmp es s = (s', x)" using Cons.prems(1) Inr v by simp
      moreover have "entry_hit p cmp (e # es) fx \<longleftrightarrow> entry_hit p cmp es fx" for fx using Inr v skip by (simp add: entry_hit_def)
      ultimately show ?thesis using Cons.IH Cons.prems(2) weak by simp
    next
      case dup
      then have "entries_loop env mf mb p r cmp es s = (s', x)" using Cons.prems(1) Inr v by (simp add: advisory_vid_def Let_def)
      then have ih: "scan_ok env mf mb s'" "extends (\<lambda>f. \<exists>fixed. entry_hit p cmp es fixed \<and> to_vulnerability env p r (advisory_vid r) fixed = Inr f) s s'"
          "x \<noteq> Raised \<longrightarrow> seen_ok env s \<longrightarrow> seen_ok env s'" "x = Return \<longrightarrow> \<not> clean_limit (sc_limit s')"
        using Cons.IH Cons.prems(2) by blast+
      moreover have "?key \<in> set (sc_seen s')" using ih(2) dup(2) by (auto simp: extends_def)
      ultimately show ?thesis using weak by blast
    next
      case new
      let ?s1 = "s\<lparr>sc_seen := ?key # sc_seen s\<rparr>"
      have hit: "entry_hit p cmp (e # es) fixed" using Inr v new(1) by (simp add: entry_hit_def)
      note ev = Cons.prems(1) [simplified Let_def entries_loop.simps Inr v, simplified, folded advisory_vid_def]
      show ?thesis
      proof (cases "to_vulnerability env p r (advisory_vid r) fixed")
        case (Inl ex)
        then have "s' = ?s1" "x = Raised" using ev new by simp_all
        then show ?thesis using scan_ok_see [OF Cons.prems(2)] by (auto simp: extends_def)
      next
        case f: (Inr f)
        have key: "from_key env ?key f" using f by (auto simp: from_key_def)
        show ?thesis
        proof (cases "mf \<le> length (sc_findings s) \<or> mb < sc_bytes s + de_size env f")
          case True
          then obtain t where "s' = ?s1\<lparr>sc_limit := mark_finding t (sc_limit s)\<rparr>" "x = Return" using ev new f by auto
          then show ?thesis using scan_ok_see [OF Cons.prems(2), of ?key] by (auto simp: extends_def seen_ok_def)
        next
          case False
          then have s': "s' = s\<lparr>sc_seen := ?key # sc_seen s, sc_findings := sc_findings s @ [f], sc_bytes := sc_bytes s + de_size env f\<rparr>" and x: "x = Next_record"
            using ev new f by simp_all
          have "extends (\<lambda>f. \<exists>fixed. entry_hit p cmp (e # es) fixed \<and> to_vulnerability env p r (advisory_vid r) fixed = Inr f) s s'"
            using hit f by (auto simp: s' extends_def)
          moreover have "seen_ok env s \<longrightarrow> seen_ok env s'" using key by (auto simp: s' seen_ok_def)
          ultimately show ?thesis using scan_ok_add [OF Cons.prems(2) new(2) key False] by (simp add: s' x)
        qed
      qed
    qed
  qed
qed

lemma records_spec:
  assumes "records_loop env mf mb eco p rs s = (s', ret)" "scan_ok env mf mb s" "seen_ok env s"
  shows "scan_ok env mf mb s' \<and> seen_ok env s' \<and> extends (\<lambda>f. \<exists>r \<in> set rs. \<exists>fixed. affects env eco p r fixed \<and> to_vulnerability env p r (advisory_vid r) fixed = Inr f) s s'
    \<and> (ret \<longrightarrow> \<not> clean_limit (sc_limit s'))
    \<and> (clean_limit (sc_limit s') \<longrightarrow> (\<forall>r \<in> set rs. \<forall>fixed. affects env eco p r fixed \<longrightarrow> (pk_asset_id p, advisory_vid r) \<in> set (sc_seen s')))"
  using assms
proof (induction rs arbitrary: s)
  case (Cons r rs)
  let ?cmp = "comparator_for (de_version env) (de_lt env) eco" and ?es = "affected_entries (osv_record.truncate r) eco (pk_name p)"
  let ?good = "\<lambda>rs f. \<exists>r \<in> set rs. \<exists>fixed. affects env eco p r fixed \<and> to_vulnerability env p r (advisory_vid r) fixed = Inr f"
  obtain s1 x where e: "entries_loop env mf mb p r ?cmp ?es s = (s1, x)" by fastforce
  have hit: "entry_hit p ?cmp ?es fixed \<longleftrightarrow> affects env eco p r fixed" for fixed by (simp add: entry_hit_def affects_def)
  note sp = entries_spec [OF e Cons.prems(2), unfolded hit]
  have s1: "extends (?good (r # rs)) s s1" using sp by (auto intro: extends_mono)
  show ?case
  proof (cases x)
    case Return
    then have "s' = s1" "ret" using Cons.prems(1) e by simp_all
    then show ?thesis using sp s1 Return Cons.prems(3) by simp
  next
    case Next_record
    then have l: "records_loop env mf mb eco p rs s1 = (s', ret)" using Cons.prems(1) e by simp
    note ih = Cons.IH [OF l] sp
    then have "extends (?good (r # rs)) s1 s'" using Next_record Cons.prems(3) by (auto intro: extends_mono)
    moreover have "set (sc_seen s1) \<subseteq> set (sc_seen s')" using ih Next_record Cons.prems(3) by (auto simp: extends_def)
    ultimately show ?thesis using ih Next_record Cons.prems(3) s1 by (auto intro: extends_trans)
  next
    case Raised
    let ?m = "s1\<lparr>sc_limit := mark_incomplete ''osv_record_comparison_failed'' (sc_limit s1)\<rparr>"
    have l: "records_loop env mf mb eco p rs ?m = (s', ret)" using Cons.prems(1) e Raised by simp
    have ih: "scan_ok env mf mb s'" "seen_ok env s'" "extends (?good rs) ?m s'" "ret \<longrightarrow> \<not> clean_limit (sc_limit s')"
      using Cons.IH [OF l] sp by simp_all
    have "extends (?good (r # rs)) s ?m" using s1 by (auto simp: extends_def)
    moreover have "extends (?good (r # rs)) ?m s'" using ih(3) by (auto intro: extends_mono)
    ultimately have "extends (?good (r # rs)) s s'" by (rule extends_trans)
    moreover have "\<not> clean_limit (sc_limit s')" using ih(3) by (auto simp: extends_def)
    ultimately show ?thesis using ih by simp
  qed
qed simp

lemma packages_spec:
  assumes "packages_loop env mf mb fb ps s = Inr s'" "scan_ok env mf mb s" "seen_ok env s"
  shows "scan_ok env mf mb s' \<and> seen_ok env s'
    \<and> extends (\<lambda>f. \<exists>p \<in> set ps. \<exists>r fixed. matched env fb p r fixed \<and> to_vulnerability env p r (advisory_vid r) fixed = Inr f) s s'
    \<and> (clean_limit (sc_limit s') \<longrightarrow> (\<forall>p \<in> set ps. \<forall>r fixed. matched env fb p r fixed \<longrightarrow> (pk_asset_id p, advisory_vid r) \<in> set (sc_seen s')))"
  using assms
proof (induction ps arbitrary: s)
  case (Cons p ps)
  let ?good = "\<lambda>ps f. \<exists>p \<in> set ps. \<exists>r fixed. matched env fb p r fixed \<and> to_vulnerability env p r (advisory_vid r) fixed = Inr f"
  show ?case
  proof (cases "ecosystem_of fb p")
    case None
    then have "\<not> matched env fb p r fixed" for r fixed by (simp add: matched_def)
    then show ?thesis using Cons None by (auto intro: extends_mono)
  next
    case (Some eco)
    then obtain rs where rs: "de_lookup env eco (pk_name p) = Inr rs" using Cons.prems(1) by auto
    have mt: "matched env fb p r fixed \<longleftrightarrow> r \<in> set rs \<and> affects env eco p r fixed" for r fixed by (simp add: matched_def Some rs)
    obtain s1 ret where e: "records_loop env mf mb eco p rs s = (s1, ret)" by fastforce
    note sp = records_spec [OF e Cons.prems(2,3)]
    have s1: "extends (?good (p # ps)) s s1" using sp by (auto simp: mt elim!: extends_mono)
    show ?thesis
    proof (cases ret)
      case True
      then have "s' = s1" using Cons.prems(1) Some rs e by simp
      then show ?thesis using sp s1 True by simp
    next
      case False
      then have "packages_loop env mf mb fb ps s1 = Inr s'" using Cons.prems(1) Some rs e by simp
      note ih = Cons.IH [OF this]
      have "extends (?good (p # ps)) s1 s'" using ih sp by (auto elim!: extends_mono)
      then have ex: "extends (?good (p # ps)) s s'" using extends_trans [OF s1] by blast
      have "set (sc_seen s1) \<subseteq> set (sc_seen s')" "clean_limit (sc_limit s') \<longrightarrow> clean_limit (sc_limit s1)" using ih sp by (auto simp: extends_def)
      then have "clean_limit (sc_limit s') \<longrightarrow> (\<forall>r fixed. matched env fb p r fixed \<longrightarrow> (pk_asset_id p, advisory_vid r) \<in> set (sc_seen s'))"
        using sp unfolding mt by blast
      then show ?thesis using ih sp ex by simp
    qed
  qed
qed simp

lemma detect_report_spec:
  assumes "detect_report env report fb no_limit = Inr (fs, st)"
  shows "(\<forall>f \<in> set fs. \<exists>p \<in> set (packages_of (ar_assets report)). \<exists>r fixed. matched env fb p r fixed \<and> to_vulnerability env p r (advisory_vid r) fixed = Inr f)
    \<and> length fs \<le> MAX_FINDINGS \<and> sum_list (map (de_size env) fs) \<le> MAX_FINDING_BYTES \<and> (\<exists>keys. distinct keys \<and> list_all2 (from_key env) keys fs)
    \<and> (clean_limit st \<longrightarrow> (\<forall>p \<in> set (packages_of (ar_assets report)). \<forall>r fixed. matched env fb p r fixed \<longrightarrow>
          (\<exists>f \<in> set fs. from_key env (pk_asset_id p, advisory_vid r) f)))"
proof -
  let ?s = "\<lparr>sc_findings = [], sc_seen = [], sc_bytes = 0, sc_limit = no_limit\<rparr>"
  obtain s' where s': "packages_loop env MAX_FINDINGS MAX_FINDING_BYTES fb (packages_of (ar_assets report)) ?s = Inr s'" "fs = sc_findings s'" "st = sc_limit s'"
    using assms by (auto simp: detect_report_def)
  have "scan_ok env MAX_FINDINGS MAX_FINDING_BYTES ?s" "seen_ok env ?s" by (simp_all add: scan_ok_def seen_ok_def)
  note sp = packages_spec [OF s'(1) this]
  then show ?thesis unfolding s'(2,3) scan_ok_def extends_def seen_ok_def by (elim conjE) (intro conjI; auto)
qed

end
