(* ===== verification/Coverage_Laws.thy ===== *)
theory Coverage_Laws
  imports Detect_Laws
begin

text \<open>
  Coverage accounting: the counters kept while the packages are classified are the sizes of the classes, per ecosystem and in total, and the rows of the matrix
  add up to them.
\<close>

section \<open>Classes of packages\<close>

definition unsupported_pkg :: "string option \<Rightarrow> package \<Rightarrow> bool" where
  "unsupported_pkg fb p = (case ecosystem_of fb p of None \<Rightarrow> False | Some eco \<Rightarrow> ecosystem_family eco \<in> set UNSUPPORTED_COLLECTED_ECOSYSTEMS)"

definition unsynced_pkg :: "string option \<Rightarrow> string list option \<Rightarrow> package \<Rightarrow> bool" where
  "unsynced_pkg fb synced p = (case ecosystem_of fb p of None \<Rightarrow> False | Some eco \<Rightarrow> \<not> unsupported_pkg fb p \<and> (case synced of None \<Rightarrow> False | Some fams \<Rightarrow> ecosystem_family eco \<notin> set fams))"

definition covered_pkg :: "string option \<Rightarrow> string list option \<Rightarrow> package \<Rightarrow> bool" where
  "covered_pkg fb synced p = (ecosystem_of fb p \<noteq> None \<and> \<not> unsupported_pkg fb p \<and> \<not> unsynced_pkg fb synced p)"

abbreviation count_of :: "('a \<Rightarrow> bool) \<Rightarrow> 'a list \<Rightarrow> nat" where
  "count_of P xs \<equiv> length (filter P xs)"

definition class_counts :: "string option \<Rightarrow> string list option \<Rightarrow> string option \<Rightarrow> package list \<Rightarrow> nat list" where
  "class_counts fb synced eco ps = (let qs = filter (\<lambda>p. ecosystem_of fb p = eco) ps in
     [length qs, count_of (covered_pkg fb synced) qs, count_of (\<lambda>p. ecosystem_of fb p = None) qs, count_of (unsynced_pkg fb synced) qs, count_of (unsupported_pkg fb) qs])"

definition counts_ok :: "string option \<Rightarrow> string list option \<Rightarrow> package list \<Rightarrow> (string option \<times> nat list) list \<Rightarrow> bool" where
  "counts_ok fb synced ps d = (distinct (map fst d) \<and> (\<forall>eco. map_of d eco = (if eco \<in> ecosystem_of fb ` set ps then Some (class_counts fb synced eco ps) else None)))"

definition class_index :: "string option \<Rightarrow> string list option \<Rightarrow> package \<Rightarrow> nat" where
  "class_index fb synced p = (if ecosystem_of fb p = None then 2 else if unsupported_pkg fb p then 4 else if unsynced_pkg fb synced p then 3 else 1)"

lemma class_counts_none: "eco \<notin> ecosystem_of fb ` set ps \<Longrightarrow> class_counts fb synced eco ps = [0, 0, 0, 0, 0]"
proof -
  assume "eco \<notin> ecosystem_of fb ` set ps"
  then have "filter (\<lambda>p. ecosystem_of fb p = eco) ps = []" by (auto simp: filter_empty_conv)
  then show ?thesis by (simp add: class_counts_def)
qed

lemma class_counts_snoc:
  "class_counts fb synced eco (ps @ [p]) = (if ecosystem_of fb p = eco then bump (class_index fb synced p) (bump 0 (class_counts fb synced eco ps)) else class_counts fb synced eco ps)"
  by (auto simp: class_counts_def bump_def class_index_def covered_pkg_def unsynced_pkg_def unsupported_pkg_def Let_def split: option.splits)

lemma counts_ok_step:
  assumes "counts_ok fb synced ps d"
  shows "counts_ok fb synced (ps @ [p]) (count_package (ecosystem_of fb p) (class_index fb synced p) d)"
proof -
  let ?e = "ecosystem_of fb p"
  have m: "map_of d eco = (if eco \<in> ecosystem_of fb ` set ps then Some (class_counts fb synced eco ps) else None)" for eco using assms by (simp add: counts_ok_def)
  have "(case map_of d ?e of None \<Rightarrow> [0, 0, 0, 0, 0] | Some c \<Rightarrow> c) = class_counts fb synced ?e ps" by (simp add: m class_counts_none)
  then have "count_package ?e (class_index fb synced p) d = AList.update ?e (class_counts fb synced ?e (ps @ [p])) d"
    by (simp add: count_package_def class_counts_snoc)
  moreover have "distinct (map fst d)" using assms by (simp add: counts_ok_def)
  ultimately show ?thesis by (auto simp: counts_ok_def distinct_update update_conv' m class_counts_snoc)
qed

lemma coverage_step_eq:
  "coverage_step fb synced p s = s\<lparr>cc_covered := cc_covered s @ (if covered_pkg fb synced p then [p] else []),
     cc_unresolved := cc_unresolved s + (if ecosystem_of fb p = None then 1 else 0),
     cc_uncovered := cc_uncovered s + (if unsupported_pkg fb p \<or> unsynced_pkg fb synced p then 1 else 0),
     cc_unsupported := cc_unsupported s + (if unsupported_pkg fb p then 1 else 0),
     cc_uncovered_ecosystems := cc_uncovered_ecosystems (coverage_step fb synced p s),
     cc_unsupported_ecosystems := cc_unsupported_ecosystems (coverage_step fb synced p s),
     cc_counts := count_package (ecosystem_of fb p) (class_index fb synced p) (cc_counts s)\<rparr>"
  by (auto simp: coverage_step_def class_index_def covered_pkg_def unsynced_pkg_def unsupported_pkg_def Let_def split: option.splits)

definition counted :: "string option \<Rightarrow> string list option \<Rightarrow> package list \<Rightarrow> coverage_counts \<Rightarrow> bool" where
  "counted fb synced ps s = (cc_covered s = filter (covered_pkg fb synced) ps \<and> cc_unresolved s = count_of (\<lambda>p. ecosystem_of fb p = None) ps
     \<and> cc_uncovered s = count_of (\<lambda>p. unsupported_pkg fb p \<or> unsynced_pkg fb synced p) ps \<and> cc_unsupported s = count_of (unsupported_pkg fb) ps
     \<and> counts_ok fb synced ps (cc_counts s))"

lemma counted_step: "counted fb synced ps s \<Longrightarrow> counted fb synced (ps @ [p]) (coverage_step fb synced p s)"
  by (subst coverage_step_eq) (simp add: counted_def counts_ok_step)

lemma counted_fold: "counted fb synced us s \<Longrightarrow> counted fb synced (us @ ps) (fold (coverage_step fb synced) ps s)"
proof (induction ps arbitrary: us s)
  case (Cons p ps)
  show ?case using Cons.IH [OF counted_step [OF Cons.prems, of p]] by simp
qed simp

lemma coverage_counts:
  fixes report fb synced
  defines "ps \<equiv> packages_of (ar_assets report)" and "cov \<equiv> package_coverage_of report fb synced"
  shows "pc_report cov = report\<lparr>ar_assets := map Package (filter (covered_pkg fb synced) ps)\<rparr>" "pc_total cov = length ps"
    "pc_covered cov = count_of (covered_pkg fb synced) ps" "pc_unresolved cov = count_of (\<lambda>p. ecosystem_of fb p = None) ps"
    "pc_uncovered cov = count_of (\<lambda>p. unsupported_pkg fb p \<or> unsynced_pkg fb synced p) ps" "pc_unsupported cov = count_of (unsupported_pkg fb) ps"
    "pc_resolved cov = length ps - pc_unresolved cov"
    "\<exists>d. counts_ok fb synced ps d \<and> pc_ecosystems cov = map ecosystem_row (sort_key (\<lambda>item. case fst item of None \<Rightarrow> [] | Some e \<Rightarrow> e) d)"
proof -
  let ?z = "\<lparr>cc_covered = [], cc_unresolved = 0, cc_uncovered = 0, cc_unsupported = 0, cc_uncovered_ecosystems = [], cc_unsupported_ecosystems = [], cc_counts = []\<rparr>"
  have "counted fb synced [] ?z" by (simp add: counted_def counts_ok_def)
  from counted_fold [OF this, of ps] have c: "counted fb synced ps (fold (coverage_step fb synced) ps ?z)" by simp
  note d = c [unfolded counted_def]
  show "pc_report cov = report\<lparr>ar_assets := map Package (filter (covered_pkg fb synced) ps)\<rparr>" "pc_total cov = length ps"
    "pc_covered cov = count_of (covered_pkg fb synced) ps" "pc_unresolved cov = count_of (\<lambda>p. ecosystem_of fb p = None) ps"
    "pc_uncovered cov = count_of (\<lambda>p. unsupported_pkg fb p \<or> unsynced_pkg fb synced p) ps" "pc_unsupported cov = count_of (unsupported_pkg fb) ps"
    "pc_resolved cov = length ps - pc_unresolved cov"
    using d by (simp_all add: cov_def package_coverage_of_def Let_def ps_def)
  show "\<exists>d. counts_ok fb synced ps d \<and> pc_ecosystems cov = map ecosystem_row (sort_key (\<lambda>item. case fst item of None \<Rightarrow> [] | Some e \<Rightarrow> e) d)"
    using d by (auto simp: cov_def package_coverage_of_def Let_def ps_def)
qed

lemma packages_of_packages [simp]: "packages_of (map Package ps) = ps"
  by (induction ps) (simp_all add: packages_of_def)

section \<open>Sums over the rows\<close>

lemma sum_by_key:
  assumes "distinct ks" "key ` set xs \<subseteq> set ks"
  shows "sum_list (map (\<lambda>k. count_of P (filter (\<lambda>x. key x = k) xs)) ks) = count_of P xs"
  using assms(2)
proof (induction xs)
  case (Cons x xs)
  have "sum_list (map (\<lambda>k. count_of P (filter (\<lambda>y. key y = k) (x # xs))) ks)
      = sum_list (map (\<lambda>k. (if P x \<and> key x = k then 1 else 0) + count_of P (filter (\<lambda>y. key y = k) xs)) ks)"
    by (intro arg_cong [of _ _ sum_list] map_cong refl) auto
  also have "\<dots> = sum_list (map (\<lambda>k. if P x \<and> key x = k then 1 else 0) ks) + count_of P xs"
    using Cons by (simp add: sum_list_addf)
  also have "sum_list (map (\<lambda>k. if P x \<and> key x = k then 1 else 0) ks) = (if P x then 1 else 0 :: nat)"
    using assms(1) Cons.prems by (simp add: sum_list_distinct_conv_sum_set sum.delta')
  finally show ?case by simp
qed simp

lemma rows_sum:
  fixes report fb synced
  defines "ps \<equiv> packages_of (ar_assets report)" and "rows \<equiv> pc_ecosystems (package_coverage_of report fb synced)"
  shows "sum_list (map ec_total rows) = length ps" "sum_list (map ec_covered rows) = count_of (covered_pkg fb synced) ps"
    "distinct (map ec_ecosystem rows)" "set (map ec_ecosystem rows) = ecosystem_of fb ` set ps"
    "\<And>row. row \<in> set rows \<Longrightarrow> ec_covered row \<le> ec_total row
       \<and> ec_uncovered row = count_of (\<lambda>p. ecosystem_of fb p = ec_ecosystem row \<and> (unsupported_pkg fb p \<or> unsynced_pkg fb synced p)) ps"
proof -
  obtain d where d: "counts_ok fb synced ps d" "rows = map ecosystem_row (sort_key (\<lambda>item. case fst item of None \<Rightarrow> [] | Some e \<Rightarrow> e) d)"
    using coverage_counts(8) [of fb synced report] by (auto simp: ps_def rows_def)
  define e where "e = sort_key (\<lambda>item. case fst item of None \<Rightarrow> [] | Some e \<Rightarrow> e) d"
  have dist: "distinct (map fst d)" using d(1) by (simp add: counts_ok_def)
  have disj: "distinct (map fst e)" using dist by (simp add: e_def distinct_map)
  have item: "counts = class_counts fb synced eco ps \<and> eco \<in> ecosystem_of fb ` set ps" if "(eco, counts) \<in> set e" for eco counts
  proof -
    have "map_of d eco = Some counts" using that dist by (simp add: e_def map_of_is_SomeI)
    moreover have "map_of d eco = (if eco \<in> ecosystem_of fb ` set ps then Some (class_counts fb synced eco ps) else None)" using d(1) by (simp add: counts_ok_def)
    ultimately show ?thesis by (auto split: if_splits)
  qed
  have keys: "set (map fst e) = ecosystem_of fb ` set ps"
  proof -
    have "fst ` set d = dom (map_of d)" by (simp add: dom_map_of_conv_image_fst)
    also have "\<dots> = ecosystem_of fb ` set ps" using d(1) by (auto simp: counts_ok_def dom_def split: if_splits)
    finally show ?thesis by (simp add: e_def)
  qed
  have rows: "rows = map (\<lambda>eco. ecosystem_row (eco, class_counts fb synced eco ps)) (map fst e)"
    unfolding d(2) e_def [symmetric] map_map comp_def by (intro map_cong refl) (auto dest: item)
  have row: "ecosystem_row (eco, class_counts fb synced eco ps) =
      \<lparr>ec_ecosystem = eco, ec_total = count_of (\<lambda>_. True) (filter (\<lambda>p. ecosystem_of fb p = eco) ps),
       ec_covered = count_of (covered_pkg fb synced) (filter (\<lambda>p. ecosystem_of fb p = eco) ps),
       ec_unresolved = count_of (\<lambda>p. ecosystem_of fb p = None) (filter (\<lambda>p. ecosystem_of fb p = eco) ps),
       ec_uncovered = count_of (unsynced_pkg fb synced) (filter (\<lambda>p. ecosystem_of fb p = eco) ps) + count_of (unsupported_pkg fb) (filter (\<lambda>p. ecosystem_of fb p = eco) ps),
       ec_unsupported = count_of (unsupported_pkg fb) (filter (\<lambda>p. ecosystem_of fb p = eco) ps)\<rparr>" for eco
    by (simp add: ecosystem_row_def class_counts_def Let_def)
  have sub: "ecosystem_of fb ` set ps \<subseteq> set (map fst e)" using keys by simp
  show "sum_list (map ec_total rows) = length ps" using sum_by_key [OF disj sub, of "\<lambda>_. True"] by (simp add: rows row comp_def)
  show "sum_list (map ec_covered rows) = count_of (covered_pkg fb synced) ps" using sum_by_key [OF disj sub, of "covered_pkg fb synced"] by (simp add: rows row comp_def)
  have "map ec_ecosystem rows = map fst e" by (simp add: rows row comp_def)
  then show "distinct (map ec_ecosystem rows)" "set (map ec_ecosystem rows) = ecosystem_of fb ` set ps" using disj keys by simp_all
  have split: "count_of (unsynced_pkg fb synced) qs + count_of (unsupported_pkg fb) qs = count_of (\<lambda>p. unsupported_pkg fb p \<or> unsynced_pkg fb synced p) qs" for qs
    by (induction qs) (auto simp: unsynced_pkg_def split: option.splits)
  show "ec_covered r \<le> ec_total r \<and> ec_uncovered r = count_of (\<lambda>p. ecosystem_of fb p = ec_ecosystem r \<and> (unsupported_pkg fb p \<or> unsynced_pkg fb synced p)) ps" if mem: "r \<in> set rows" for r
  proof -
    obtain eco where r: "r = ecosystem_row (eco, class_counts fb synced eco ps)" using mem unfolding rows by auto
    let ?qs = "filter (\<lambda>p. ecosystem_of fb p = eco) ps"
    have "count_of (covered_pkg fb synced) ?qs \<le> length ?qs" by (rule length_filter_le)
    moreover have "count_of (\<lambda>p. unsupported_pkg fb p \<or> unsynced_pkg fb synced p) ?qs = count_of (\<lambda>p. ecosystem_of fb p = eco \<and> (unsupported_pkg fb p \<or> unsynced_pkg fb synced p)) ps"
      by (simp only: filter_filter)
    ultimately show ?thesis unfolding r row using split [of ?qs] by simp
  qed
qed

end
