(* ===== verification/Kali_Laws.thy ===== *)
theory Kali_Laws
  imports Auto_Detect Coverage_Laws
begin

text \<open>What the tracker pass reports: when it was not cut short and left no candidate unverified, every candidate's source version is in the index and its affected CVEs are findings.\<close>

definition tracker_hit :: "tracker_store \<Rightarrow> source_key \<Rightarrow> tracker_advisory \<Rightarrow> bool" where
  "tracker_hit store key row = (case key of (parent, sname, sver) \<Rightarrow>
     row \<in> set (tracker_lookup store sname sver) \<and> tracker_affected row sver = Inr (Some True) \<and> startswith (ta_advisory_id row) ''CVE-'')"

definition tracker_reported :: "source_key \<Rightarrow> tracker_advisory \<Rightarrow> vuln list \<Rightarrow> bool" where
  "tracker_reported key row fs = (case key of (parent, sname, sver) \<Rightarrow> \<exists>f \<in> set fs. \<exists>ps rows. tracker_finding parent sname sver ps (ta_advisory_id row) rows = Inr f)"

lemma tracker_reported_append: "tracker_reported key row fs \<Longrightarrow> tracker_reported key row (fs @ new)"
  by (auto simp: tracker_reported_def)

lemma verdict_row:
  assumes "rmap_list (\<lambda>r. tracker_affected r sver) rows = Inr verdicts" "row \<in> set rows" "tracker_affected row sver = Inr (Some True)"
  shows "map fst (filter (\<lambda>(r, v). v = Some True) (zip rows verdicts)) \<noteq> []"
  using assms
proof (induction rows arbitrary: verdicts)
  case (Cons r rows)
  then obtain v vs where "verdicts = v # vs" "tracker_affected r sver = Inr v" "rmap_list (\<lambda>r. tracker_affected r sver) rows = Inr vs" by auto
  then show ?case using Cons by auto
qed simp

lemma advisories_spec:
  assumes "advisories_loop size_of mf mb parent sname sver ps as s = Inr (s', ret)"
  shows "(\<exists>new. ks_findings s' = ks_findings s @ new) \<and> (ret \<longrightarrow> fl_truncated (ks_limit s')) \<and> (fl_truncated (ks_limit s) \<longrightarrow> fl_truncated (ks_limit s'))
    \<and> (\<not> ret \<longrightarrow> (\<forall>(aid, rows) \<in> set as. \<forall>row \<in> set rows. tracker_affected row sver = Inr (Some True) \<and> startswith aid ''CVE-'' \<longrightarrow>
          (\<exists>f \<in> set (ks_findings s'). \<exists>rs. tracker_finding parent sname sver ps aid rs = Inr f)))"
  using assms
proof (induction as arbitrary: s)
  case (Cons a as)
  obtain aid rows where a: "a = (aid, rows)" by fastforce
  obtain verdicts where v: "rmap_list (\<lambda>r. tracker_affected r sver) rows = Inr verdicts" using Cons.prems a by auto
  define hit where "hit = map fst (filter (\<lambda>(r, v). v = Some True) (zip rows verdicts))"
  define s1 where "s1 = (if None \<in> set verdicts then s\<lparr>ks_incomplete := ks_incomplete s + 1\<rparr> else s)"
  have s1 [simp]: "ks_findings s1 = ks_findings s" "ks_limit s1 = ks_limit s" by (simp_all add: s1_def)
  note ev = Cons.prems [unfolded a advisories_loop.simps v rbind_simps Let_def, folded hit_def s1_def]
  show ?case
  proof (cases "hit = [] \<or> \<not> startswith aid ''CVE-''")
    case True
    then have "advisories_loop size_of mf mb parent sname sver ps as s1 = Inr (s', ret)" using ev by simp
    moreover have "\<not> (tracker_affected row sver = Inr (Some True) \<and> startswith aid ''CVE-'')" if "row \<in> set rows" for row
      using True verdict_row [OF v that] by (auto simp: hit_def)
    ultimately show ?thesis using Cons.IH [of s1] by (auto simp: a)
  next
    case False
    then obtain f where f: "tracker_finding parent sname sver ps aid hit = Inr f" using ev by auto
    show ?thesis
    proof (cases "mf \<le> length (ks_findings s1) \<or> mb < ks_consumed s1 + size_of f")
      case True
      then show ?thesis using ev False f by (auto simp: mark_finding_def)
    next
      case False2: False
      let ?s2 = "s1\<lparr>ks_findings := ks_findings s1 @ [f], ks_consumed := ks_consumed s1 + size_of f\<rparr>"
      have "advisories_loop size_of mf mb parent sname sver ps as ?s2 = Inr (s', ret)" using ev False f False2 by simp
      note ih = Cons.IH [OF this]
      then obtain new where "ks_findings s' = (ks_findings s @ [f]) @ new" by auto
      then show ?thesis using ih f by (auto simp: a)
    qed
  qed
qed simp

lemma group_by_mem: "(k, ys) \<in> set (group_by key xs) \<longleftrightarrow> ys = filter (\<lambda>x. key x = k) xs \<and> k \<in> key ` set xs"
  by (auto simp: group_by_def)

lemma groups_spec:
  assumes "groups_loop size_of mf mb store gs v s = Inr (v', s', ret)"
  shows "(\<exists>new. ks_findings s' = ks_findings s @ new) \<and> (ret \<longrightarrow> fl_truncated (ks_limit s'))
    \<and> (\<not> ret \<longrightarrow> v' = v + sum_list (map (\<lambda>((parent, sname, sver), ps). if tracker_lookup store sname sver = [] then 0 else length ps) gs)
        \<and> (\<forall>(key, ps) \<in> set gs. \<forall>row. tracker_hit store key row \<longrightarrow> tracker_reported key row (ks_findings s')))"
  using assms
proof (induction gs arbitrary: v s)
  case (Cons g gs)
  obtain parent sname sver ps where g: "g = ((parent, sname, sver), ps)" by (metis prod_cases4 surj_pair)
  let ?rows = "tracker_lookup store sname sver"
  show ?case
  proof (cases "?rows = []")
    case True
    then have "\<not> tracker_hit store (parent, sname, sver) row" for row by (simp add: tracker_hit_def)
    then show ?thesis using Cons.IH [of v s] Cons.prems True by (simp add: g)
  next
    case False
    then obtain s1 r1 where a: "advisories_loop size_of mf mb parent sname sver ps (group_by ta_advisory_id ?rows) s = Inr (s1, r1)"
      and l: "if r1 then (v', s', ret) = (v + length ps, s1, True) else groups_loop size_of mf mb store gs (v + length ps) s1 = Inr (v', s', ret)"
      using Cons.prems by (auto simp: g Let_def split: if_splits)
    note sp = advisories_spec [OF a]
    show ?thesis
    proof (cases r1)
      case True
      then show ?thesis using l sp by simp
    next
      case r1: False
      note ih = Cons.IH [OF l [simplified r1 if_False]]
      obtain new where new: "ks_findings s' = ks_findings s1 @ new" using ih by blast
      have "tracker_reported (parent, sname, sver) row (ks_findings s1)" if "tracker_hit store (parent, sname, sver) row" for row
      proof -
        have "(ta_advisory_id row, filter (\<lambda>x. ta_advisory_id x = ta_advisory_id row) ?rows) \<in> set (group_by ta_advisory_id ?rows)"
          using that by (simp add: group_by_mem tracker_hit_def)
        then show ?thesis using that sp r1 by (fastforce simp: tracker_hit_def tracker_reported_def)
      qed
      then have "tracker_hit store (parent, sname, sver) row \<longrightarrow> tracker_reported (parent, sname, sver) row (ks_findings s')" for row
        unfolding new using tracker_reported_append by blast
      then show ?thesis using ih sp new False by (auto simp: g)
    qed
  qed
qed simp

lemma sum_list_all_nonzero:
  fixes g :: "'a \<Rightarrow> nat"
  assumes "sum_list (map (\<lambda>x. if P x then 0 else g x) xs) = sum_list (map g xs)" "x \<in> set xs" "0 < g x"
  shows "\<not> P x"
proof
  assume "P x"
  have "sum_list (map (\<lambda>x. if P x then 0 else g x) xs) < sum_list (map g xs)"
    using assms(2)
  proof (induction xs)
    case (Cons y ys)
    have "sum_list (map (\<lambda>x. if P x then 0 else g x) ys) \<le> sum_list (map g ys)" by (intro sum_list_mono) simp
    then show ?case using Cons \<open>P x\<close> assms(3) by (cases "x = y") auto
  qed simp
  then show False using assms(1) by simp
qed

lemma detect_kali_spec:
  assumes "detect_kali_packages size_of report store no_limit = Inr (k, st)"
  defines "cands \<equiv> packages_of (filter (is_candidate report) (ar_assets report))"
  shows "kd_candidate_count k = length cands" "kd_osv_report k = report\<lparr>ar_assets := filter (\<lambda>a. \<not> is_candidate report a) (ar_assets report)\<rparr>"
    "\<not> fl_truncated st \<Longrightarrow> kd_unverified_count k = 0 \<Longrightarrow> p \<in> set cands \<Longrightarrow> tracker_lookup store (fst (snd (source_key_of p))) (snd (snd (source_key_of p))) \<noteq> []"
    "\<not> fl_truncated st \<Longrightarrow> p \<in> set cands \<Longrightarrow> tracker_hit store (source_key_of p) row \<Longrightarrow> tracker_reported (source_key_of p) row (kd_findings k)"
proof -
  let ?gs = "group_by source_key_of cands"
  obtain v s ret where g: "groups_loop size_of MAX_FINDINGS MAX_FINDING_BYTES store ?gs 0 \<lparr>ks_findings = [], ks_consumed = 0, ks_incomplete = 0, ks_limit = no_limit\<rparr> = Inr (v, s, ret)"
    and k: "k = \<lparr>kd_osv_report = report\<lparr>ar_assets := filter (\<lambda>a. \<not> is_candidate report a) (ar_assets report)\<rparr>, kd_findings = ks_findings s, kd_candidate_count = length cands,
               kd_verified_count = v, kd_unverified_count = length cands - v, kd_incomplete_count = ks_incomplete s\<rparr>"
    and st: "st = (if ks_incomplete s \<noteq> 0 \<and> \<not> ret then mark_incomplete ''debian_tracker_advisory_undetermined'' (ks_limit s) else ks_limit s)"
    using assms(1) unfolding cands_def by (auto simp: detect_kali_packages_def Let_def)
  show "kd_candidate_count k = length cands" "kd_osv_report k = report\<lparr>ar_assets := filter (\<lambda>a. \<not> is_candidate report a) (ar_assets report)\<rparr>" by (simp_all add: k)
  note sp = groups_spec [OF g]
  have ret: "\<not> ret" if "\<not> fl_truncated st" using that sp by (auto simp: st mark_incomplete_def split: if_splits)
  have mem: "(source_key_of p, filter (\<lambda>x. source_key_of x = source_key_of p) cands) \<in> set ?gs" if "p \<in> set cands" for p using that by (simp add: group_by_mem)
  show "tracker_reported (source_key_of p) row (kd_findings k)" if "\<not> fl_truncated st" "p \<in> set cands" "tracker_hit store (source_key_of p) row"
    using sp ret [OF that(1)] mem [OF that(2)] that(3) by (fastforce simp: k)
  show "tracker_lookup store (fst (snd (source_key_of p))) (snd (snd (source_key_of p))) \<noteq> []" if h: "\<not> fl_truncated st" "kd_unverified_count k = 0" "p \<in> set cands"
  proof -
    let ?empty = "\<lambda>g. tracker_lookup store (fst (snd (fst g))) (snd (snd (fst g))) = []"
    have "sum_list (map (\<lambda>g. length (snd g)) ?gs) = length cands"
      using sum_by_key [of "fromkeys (map source_key_of cands)" source_key_of cands "\<lambda>_. True"] by (simp add: group_by_def comp_def)
    moreover have le: "sum_list (map (\<lambda>g. if ?empty g then 0 else length (snd g)) ?gs) \<le> sum_list (map (\<lambda>g. length (snd g)) ?gs)" by (intro sum_list_mono) simp
    moreover have "v = sum_list (map (\<lambda>g. if ?empty g then 0 else length (snd g)) ?gs)" using sp ret [OF h(1)] by (simp add: case_prod_beta')
    moreover have "length cands \<le> v" using h(2) by (simp add: k)
    ultimately have eq: "sum_list (map (\<lambda>g. if ?empty g then 0 else length (snd g)) ?gs) = sum_list (map (\<lambda>g. length (snd g)) ?gs)" by simp
    have "0 < length (filter (\<lambda>x. source_key_of x = source_key_of p) cands)" using h(3) by (auto simp: filter_empty_conv)
    then show ?thesis using sum_list_all_nonzero [OF eq mem [OF h(3)]] by simp
  qed
qed

end
