(* ===== verification/Detect_Properties.thy ===== *)
theory Detect_Properties
  imports Kali_Laws
begin

text \<open>
  Properties of vulnerability detection: the engine reports exactly the affected pairs, the coverage matrix accounts for every package, a complete outcome means every package was
  checked, and how the recovery path differs from the first run.
\<close>

section \<open>Limit states\<close>

text \<open>A reason is only ever set together with its flag, so the first reason given stays.\<close>

definition limit_inv :: "finding_limit_state \<Rightarrow> bool" where
  "limit_inv st = (fl_incomplete st = (fl_incomplete_reason st \<noteq> None) \<and> fl_incomplete_reason st \<noteq> Some [])"

lemma limit_inv_marks [simp]: "limit_inv no_limit" "limit_inv (mark_finding x st) = limit_inv st" "x \<noteq> [] \<Longrightarrow> limit_inv st \<Longrightarrow> limit_inv (mark_incomplete x st)"
  by (auto simp: limit_inv_def no_limit_def mark_finding_def mark_incomplete_def split: option.splits)

lemma entries_limit: "entries_loop env mf mb p r cmp es s = (s', x) \<Longrightarrow> limit_inv (sc_limit s) \<Longrightarrow> limit_inv (sc_limit s')"
  by (induction es) (auto simp: Let_def split: sum.splits prod.splits if_splits)

lemma records_limit: "records_loop env mf mb eco p rs s = (s', ret) \<Longrightarrow> limit_inv (sc_limit s) \<Longrightarrow> limit_inv (sc_limit s')"
proof (induction rs arbitrary: s)
  case (Cons r rs)
  obtain s1 x where e: "entries_loop env mf mb p r (comparator_for (de_version env) (de_lt env) eco) (affected_entries (osv_record.truncate r) eco (pk_name p)) s = (s1, x)" by fastforce
  then show ?case using Cons entries_limit [OF e] by (cases x) auto
qed simp

lemma packages_limit: "packages_loop env mf mb fb ps s = Inr s' \<Longrightarrow> limit_inv (sc_limit s) \<Longrightarrow> limit_inv (sc_limit s')"
proof (induction ps arbitrary: s)
  case (Cons p ps)
  show ?case
  proof (cases "ecosystem_of fb p")
    case (Some eco)
    then obtain rs where rs: "de_lookup env eco (pk_name p) = Inr rs" using Cons.prems(1) by auto
    obtain s1 ret where r: "records_loop env mf mb eco p rs s = (s1, ret)" by fastforce
    then show ?thesis using Cons.IH Cons.prems Some rs records_limit [OF r] by (cases ret) auto
  qed (use Cons in auto)
qed simp

lemma detect_report_limit: "detect_report env report fb no_limit = Inr (fs, st) \<Longrightarrow> limit_inv st"
  using packages_limit by (fastforce simp: detect_report_def)

section \<open>The pass\<close>

lemma osv_skipped_simps [simp]: "op_status (osv_skipped a b) = a" "op_vulns (osv_skipped a b) = []" "op_limit (osv_skipped a b) = no_limit"
  by (simp_all add: osv_skipped_def)

lemma run_osv_complete:
  assumes "op_status (run_osv env st fb cov n) = DS_COMPLETE"
  shows "0 < dt_record_count st \<and> dt_synced_ecosystems st \<noteq> None \<and> pc_unsupported cov = 0 \<and> pc_uncovered cov = 0 \<and> pc_unresolved cov = 0
    \<and> detect_report env (pc_report cov) fb no_limit = Inr (op_vulns (run_osv env st fb cov n), op_limit (run_osv env st fb cov n))"
proof -
  have a: "\<not> dt_record_count st \<le> 0" using assms by (auto simp: run_osv_def)
  have b: "\<not> (pc_total cov \<noteq> 0 \<and> pc_resolved cov = 0)"
  proof
    assume "pc_total cov \<noteq> 0 \<and> pc_resolved cov = 0"
    then show False using assms a by (simp add: run_osv_def case_prod_beta)
  qed
  have c: "\<not> (pc_unsupported cov = pc_resolved cov \<and> 0 < pc_unsupported cov)"
  proof
    assume "pc_unsupported cov = pc_resolved cov \<and> 0 < pc_unsupported cov"
    then show False using assms a b by (simp add: run_osv_def case_prod_beta)
  qed
  have d: "\<not> (pc_uncovered cov = pc_resolved cov \<and> 0 < pc_uncovered cov)"
  proof
    assume "pc_uncovered cov = pc_resolved cov \<and> 0 < pc_uncovered cov"
    then show False using assms a b c by (simp add: run_osv_def case_prod_beta)
  qed
  note ev = run_osv_def [of env st fb cov n, unfolded if_not_P [OF a] if_not_P [OF b] if_not_P [OF c] if_not_P [OF d] Let_def case_prod_beta]
  show ?thesis
  proof (cases "detect_report env (pc_report cov) fb no_limit")
    case (Inl e)
    then show ?thesis using assms by (simp add: ev)
  next
    case (Inr x)
    then show ?thesis using assms a by (cases x) (auto simp: ev split: if_splits)
  qed
qed

lemma merge_complete:
  assumes "merge_kali_tracker_status now cur why k store st n = (DS_COMPLETE, r)"
  shows "(cur = DS_COMPLETE \<or> cur = DS_DISABLED \<and> n = 0)
    \<and> (kd_candidate_count k \<noteq> 0 \<longrightarrow> tracker_available store \<and> \<not> tracker_stale now store \<and> \<not> fl_truncated st \<and> kd_incomplete_count k = 0 \<and> kd_unverified_count k = 0)"
  using assms by (auto simp: merge_kali_tracker_status_def Let_def split: if_splits)

lemma combine_all:
  assumes "combine_loop size_of mf mb fs acc n st = (out, st')" "\<not> fl_truncated st'"
  shows "out = acc @ fs"
  using assms by (induction fs arbitrary: acc n) (fastforce simp: mark_finding_def split: if_splits)+

lemma first_some_None: "first_some xs = None \<longleftrightarrow> (\<forall>x \<in> set xs. x = None)"
  by (auto simp: first_some_def filter_empty_conv split: list.splits dest: filter_eq_ConsD)

lemma build_detectionE:
  assumes "build_detection env sha256 st now1 now2 report = Inr d"
  obtains malware sl k tl cov osv status reason vulns cl tr rows where
    "scanner_findings (de_size env) report no_limit = (malware, sl)"
    "detect_kali_packages (de_size env) report (dt_tracker st) no_limit = Inr (k, tl)"
    "cov = package_coverage_of (kd_osv_report k) (truthy (resolve_ecosystem report (dt_osv_ecosystem st))) (dt_synced_ecosystems st)"
    "osv = run_osv env st (truthy (resolve_ecosystem report (dt_osv_ecosystem st))) cov (kd_candidate_count k)"
    "merge_kali_tracker_status now1 (op_status osv) (op_reason osv) k (dt_tracker st) tl (pc_total cov) = (status, reason)"
    "combine_findings (de_size env) MAX_DERIVED_VULNERABILITIES (op_vulns osv @ kd_findings k) malware no_limit = (vulns, cl)"
    "dx_vulnerabilities d = vulns" "dx_truncated d = list_ex fl_truncated [op_limit osv, tl, sl, cl]"
    "dx_status d = (if first_truthy (map fl_incomplete_reason [op_limit osv, tl, sl, cl]) \<noteq> None \<and> status \<noteq> DS_DISABLED \<and> status \<noteq> DS_FAILED then DS_PARTIAL else status)"
    "kali_tracker_coverage now2 k (dt_tracker st) tl = Inr tr" "dx_coverage d = rows"
proof -
  obtain malware sl where m: "scanner_findings (de_size env) report no_limit = (malware, sl)" by fastforce
  obtain k tl where k: "detect_kali_packages (de_size env) report (dt_tracker st) no_limit = Inr (k, tl)"
    using assms by (auto simp: build_detection_def Let_def m)
  define cov where "cov = package_coverage_of (kd_osv_report k) (truthy (resolve_ecosystem report (dt_osv_ecosystem st))) (dt_synced_ecosystems st)"
  define osv where "osv = run_osv env st (truthy (resolve_ecosystem report (dt_osv_ecosystem st))) cov (kd_candidate_count k)"
  obtain status reason where s: "merge_kali_tracker_status now1 (op_status osv) (op_reason osv) k (dt_tracker st) tl (pc_total cov) = (status, reason)" by fastforce
  obtain vulns cl where v: "combine_findings (de_size env) MAX_DERIVED_VULNERABILITIES (op_vulns osv @ kd_findings k) malware no_limit = (vulns, cl)" by fastforce
  have "dx_vulnerabilities d = vulns \<and> dx_truncated d = list_ex fl_truncated [op_limit osv, tl, sl, cl]
      \<and> dx_status d = (if first_truthy (map fl_incomplete_reason [op_limit osv, tl, sl, cl]) \<noteq> None \<and> status \<noteq> DS_DISABLED \<and> status \<noteq> DS_FAILED then DS_PARTIAL else status)
      \<and> (\<exists>tr. kali_tracker_coverage now2 k (dt_tracker st) tl = Inr tr)"
    using assms unfolding build_detection_def Let_def m k prod.case rbind_simps cov_def [symmetric] osv_def [symmetric] s v
    by (auto simp: valid_detection_def split: if_splits)
  then show thesis using that [OF m k cov_def osv_def s v] by blast
qed

section \<open>What a complete pass has checked\<close>

definition osv_checked :: "'ver detect_env \<Rightarrow> detector_state \<Rightarrow> string option \<Rightarrow> vuln list \<Rightarrow> package \<Rightarrow> bool" where
  "osv_checked env st fb vulns p = (\<exists>eco fams rs. ecosystem_of fb p = Some eco \<and> dt_synced_ecosystems st = Some fams \<and> ecosystem_family eco \<in> set fams
     \<and> ecosystem_family eco \<notin> set UNSUPPORTED_COLLECTED_ECOSYSTEMS \<and> 0 < dt_record_count st \<and> de_lookup env eco (pk_name p) = Inr rs
     \<and> (\<forall>r \<in> set rs. \<forall>fixed. affects env eco p r fixed \<longrightarrow> (\<exists>f \<in> set vulns. from_key env (pk_asset_id p, advisory_vid r) f)))"

definition tracker_checked :: "detector_state \<Rightarrow> datetime \<Rightarrow> vuln list \<Rightarrow> package \<Rightarrow> bool" where
  "tracker_checked st now vulns p = (tracker_available (dt_tracker st) \<and> \<not> tracker_stale now (dt_tracker st)
     \<and> tracker_lookup (dt_tracker st) (fst (snd (source_key_of p))) (snd (snd (source_key_of p))) \<noteq> []
     \<and> (\<forall>row. tracker_hit (dt_tracker st) (source_key_of p) row \<longrightarrow> tracker_reported (source_key_of p) row vulns))"

lemma packages_lookup:
  assumes "packages_loop env mf mb fb ps s = Inr s'" "scan_ok env mf mb s" "seen_ok env s" "clean_limit (sc_limit s')" "p \<in> set ps" "ecosystem_of fb p = Some eco"
  shows "\<exists>rs. de_lookup env eco (pk_name p) = Inr rs"
  using assms(1-3,5)
proof (induction ps arbitrary: s)
  case (Cons q ps)
  show ?case
  proof (cases "ecosystem_of fb q")
    case None
    then show ?thesis using Cons assms(6) by auto
  next
    case (Some e)
    then obtain rs where rs: "de_lookup env e (pk_name q) = Inr rs" using Cons.prems(1) by auto
    obtain s1 ret where r: "records_loop env mf mb e q rs s = (s1, ret)" by fastforce
    note sp = records_spec [OF r Cons.prems(2,3)]
    show ?thesis
    proof (cases ret)
      case True
      then have "s' = s1" using Cons.prems(1) Some rs r by simp
      then show ?thesis using sp True assms(4) by simp
    next
      case False
      then have "packages_loop env mf mb fb ps s1 = Inr s'" using Cons.prems(1) Some rs r by simp
      then show ?thesis using Cons.IH [of s1] sp Cons.prems(4) rs Some assms(6) by auto
    qed
  qed
qed simp

lemma osv_pass_checked:
  assumes "op_status (run_osv env st fb cov n) = DS_COMPLETE" "cov = package_coverage_of report fb (dt_synced_ecosystems st)"
    "clean_limit (op_limit (run_osv env st fb cov n))" "p \<in> set (packages_of (ar_assets report))"
  shows "osv_checked env st fb (op_vulns (run_osv env st fb cov n)) p"
proof -
  let ?ps = "packages_of (ar_assets report)" and ?synced = "dt_synced_ecosystems st"
  note c = run_osv_complete [OF assms(1)]
  note counts = coverage_counts [where report = report and fb = fb and synced = ?synced, folded assms(2)]
  have none: "ecosystem_of fb q \<noteq> None" "\<not> unsupported_pkg fb q" "\<not> unsynced_pkg fb ?synced q" if "q \<in> set ?ps" for q
    using c that unfolding counts(4,5) by (auto simp: filter_empty_conv)
  then have "filter (covered_pkg fb ?synced) ?ps = ?ps" by (auto simp: filter_id_conv covered_pkg_def)
  then have ps: "packages_of (ar_assets (pc_report cov)) = ?ps" by (simp add: counts(1))
  obtain eco where eco: "ecosystem_of fb p = Some eco" using none(1) [OF assms(4)] by blast
  obtain fams where fams: "?synced = Some fams" using c by blast
  have d: "detect_report env (pc_report cov) fb no_limit = Inr (op_vulns (run_osv env st fb cov n), op_limit (run_osv env st fb cov n))" using c by blast
  then obtain s' where s': "packages_loop env MAX_FINDINGS MAX_FINDING_BYTES fb ?ps \<lparr>sc_findings = [], sc_seen = [], sc_bytes = 0, sc_limit = no_limit\<rparr> = Inr s'"
    "clean_limit (sc_limit s')" using assms(3) by (auto simp: detect_report_def ps)
  obtain rs where rs: "de_lookup env eco (pk_name p) = Inr rs" using packages_lookup [OF s'(1) _ _ s'(2) assms(4) eco] by (auto simp: scan_ok_def seen_ok_def)
  have "\<exists>f \<in> set (op_vulns (run_osv env st fb cov n)). from_key env (pk_asset_id p, advisory_vid r) f" if "r \<in> set rs" "affects env eco p r fixed" for r fixed
  proof -
    have "matched env fb p r fixed" using that eco rs by (simp add: matched_def)
    then show ?thesis using detect_report_spec [OF d] assms(3,4) unfolding ps by blast
  qed
  then show ?thesis using eco fams rs c none(2,3) [OF assms(4)] by (auto simp: osv_checked_def unsupported_pkg_def unsynced_pkg_def)
qed

lemma osv_checked_mono: "osv_checked env st fb vs p \<Longrightarrow> set vs \<subseteq> set ws \<Longrightarrow> osv_checked env st fb ws p"
  unfolding osv_checked_def by (elim exE conjE) (intro exI conjI; blast)

lemma tracker_reported_mono: "tracker_reported key row vs \<Longrightarrow> set vs \<subseteq> set ws \<Longrightarrow> tracker_reported key row ws"
  unfolding tracker_reported_def by (auto split: prod.splits)

lemma build_complete:
  assumes "build_detection env sha256 st now1 now2 report = Inr d" "dx_status d = DS_COMPLETE" "\<not> dx_truncated d" "p \<in> set (packages_of (ar_assets report))"
  shows "if is_kali_package report p then tracker_checked st now1 (dx_vulnerabilities d) p
    else osv_checked env st (truthy (resolve_ecosystem report (dt_osv_ecosystem st))) (dx_vulnerabilities d) p"
proof -
  let ?fb = "truthy (resolve_ecosystem report (dt_osv_ecosystem st))"
  obtain malware sl k tl cov osv status reason vulns cl where b:
    "detect_kali_packages (de_size env) report (dt_tracker st) no_limit = Inr (k, tl)"
    "cov = package_coverage_of (kd_osv_report k) ?fb (dt_synced_ecosystems st)" "osv = run_osv env st ?fb cov (kd_candidate_count k)"
    "merge_kali_tracker_status now1 (op_status osv) (op_reason osv) k (dt_tracker st) tl (pc_total cov) = (status, reason)"
    "combine_findings (de_size env) MAX_DERIVED_VULNERABILITIES (op_vulns osv @ kd_findings k) malware no_limit = (vulns, cl)"
    "dx_vulnerabilities d = vulns" "dx_truncated d = list_ex fl_truncated [op_limit osv, tl, sl, cl]"
    "dx_status d = (if first_truthy (map fl_incomplete_reason [op_limit osv, tl, sl, cl]) \<noteq> None \<and> status \<noteq> DS_DISABLED \<and> status \<noteq> DS_FAILED then DS_PARTIAL else status)"
    by (rule build_detectionE [OF assms(1)])
  have status: "status = DS_COMPLETE" and reasons: "first_truthy (map fl_incomplete_reason [op_limit osv, tl, sl, cl]) = None"
    using b(8) assms(2) by (auto split: if_splits)
  have trunc: "\<not> fl_truncated (op_limit osv)" "\<not> fl_truncated tl" "\<not> fl_truncated cl" using b(7) assms(3) by auto
  have v: "vulns = op_vulns osv @ kd_findings k @ malware" using combine_all b(5) trunc(3) unfolding combine_findings_def by fastforce
  note m = merge_complete [OF b(4) [unfolded status]]
  note kali = detect_kali_spec [OF b(1)]
  have cand: "is_kali_package report p \<Longrightarrow> p \<in> set (packages_of (filter (is_candidate report) (ar_assets report)))"
    and rest: "\<not> is_kali_package report p \<Longrightarrow> p \<in> set (packages_of (ar_assets (kd_osv_report k)))"
    using assms(4) by (auto simp: packages_of_def is_candidate_def kali(2) split: asset.splits)
  show ?thesis
  proof (cases "is_kali_package report p")
    case True
    then have "kd_candidate_count k \<noteq> 0" using cand kali(1) by (metis length_0_conv list.set(1) empty_iff)
    moreover have "tracker_reported (source_key_of p) row vulns" if "tracker_hit (dt_tracker st) (source_key_of p) row" for row
      by (rule tracker_reported_mono [OF kali(4) [OF trunc(2) cand [OF True] that]]) (auto simp: v)
    ultimately show ?thesis using True m kali(3) [OF trunc(2) _ cand [OF True]] by (simp add: tracker_checked_def b(6))
  next
    case False
    then have "pc_total cov \<noteq> 0" using rest coverage_counts(2) [where report = "kd_osv_report k" and fb = ?fb and synced = "dt_synced_ecosystems st"] b(2) by auto
    then have "op_status osv = DS_COMPLETE" using m by auto
    moreover have "clean_limit (op_limit osv)"
    proof -
      have "detect_report env (pc_report cov) ?fb no_limit = Inr (op_vulns osv, op_limit osv)" using run_osv_complete calculation b(3) by blast
      then have "limit_inv (op_limit osv)" by (rule detect_report_limit)
      then show ?thesis using reasons trunc(1) by (auto simp: clean_limit_def limit_inv_def first_truthy_def first_some_None truthy_def split: if_splits)
    qed
    ultimately have "osv_checked env st ?fb (op_vulns osv) p" using osv_pass_checked [OF _ b(2)] rest [OF False] b(3) by blast
    then show ?thesis using False osv_checked_mono [of env st ?fb "op_vulns osv" p vulns] by (auto simp: b(6) v)
  qed
qed

section \<open>The matrix\<close>

lemma valid_coverage_Inr:
  assumes "valid_coverage c = Inr c'"
  shows "dc_detector c' = dc_detector c" "dc_status c' = dc_status c" "dc_scanned_count c' = dc_scanned_count c" "dc_skipped_count c' = dc_skipped_count c"
  using assms by (auto simp: valid_coverage_def)

lemma osv_row_Inr:
  assumes "osv_row sha256 cx n i = Inr r"
  shows "dc_detector r = OSV" "dc_status r = fst (osv_status cx i)" "dc_scanned_count r = (if ox_store_available cx then ec_covered i else 0)"
    "dc_skipped_count r = (if ox_store_available cx then ec_total i - ec_covered i else ec_total i)"
  using valid_coverage_Inr [OF assms [unfolded osv_row_def]] by simp_all

lemma osv_rows:
  assumes "rmap_list (\<lambda>item. osv_row sha256 cx (count (ec_ecosystem item)) item) items = Inr rows" "\<forall>i \<in> set items. ec_covered i \<le> ec_total i"
  shows "(\<forall>x \<in> set rows. dc_detector x = OSV) \<and> length rows = length items
    \<and> sum_list (map (\<lambda>x. dc_scanned_count x + dc_skipped_count x) rows) = sum_list (map ec_total items)
    \<and> (ox_store_available cx \<longrightarrow> sum_list (map dc_scanned_count rows) = sum_list (map ec_covered items))
    \<and> map dc_status rows = map (\<lambda>i. fst (osv_status cx i)) items"
  using assms unfolding rmap_list_eq_Inr
proof (induction items rows rule: list_all2_induct)
  case (Cons i items r rows)
  then show ?case using osv_row_Inr [OF Cons.hyps(1)] by auto
qed simp

lemma scanner_rows:
  assumes "rmap_list (scanner_row report inc fs) kinds = Inr rows" "OSV \<notin> set kinds"
  shows "length rows = length kinds \<and> (\<forall>x \<in> set rows. dc_detector x \<noteq> OSV)"
  using assms unfolding rmap_list_eq_Inr
proof (induction kinds rows rule: list_all2_induct)
  case (Cons k kinds r rows)
  then show ?case using valid_coverage_Inr(1) [OF Cons.hyps(1) [unfolded scanner_row_def Let_def]] by auto
qed simp

lemma osv_status_complete: "fst (osv_status cx i) = CS_COMPLETE \<Longrightarrow> ec_ecosystem i \<noteq> None \<and> ec_uncovered i = 0"
  by (auto simp: osv_status_def split: if_splits option.splits)

lemma all_covered:
  assumes "\<forall>i \<in> set (pc_ecosystems (package_coverage_of report fb synced)). ec_ecosystem i \<noteq> None \<and> ec_uncovered i = 0" "p \<in> set (packages_of (ar_assets report))"
  shows "covered_pkg fb synced p"
proof -
  note r = rows_sum [where report = report and fb = fb and synced = synced]
  obtain i where i: "i \<in> set (pc_ecosystems (package_coverage_of report fb synced))" "ec_ecosystem i = ecosystem_of fb p"
    using r(4) assms(2) by (metis (no_types, lifting) image_iff list.set_map)
  then have "ecosystem_of fb p \<noteq> None" using assms(1) by metis
  moreover have "filter (\<lambda>q. ecosystem_of fb q = ec_ecosystem i \<and> (unsupported_pkg fb q \<or> unsynced_pkg fb synced q)) (packages_of (ar_assets report)) = []"
    using r(5) [OF i(1)] assms(1) i(1) by simp
  ultimately show ?thesis using assms(2) i(2) by (auto simp: covered_pkg_def filter_empty_conv)
qed

lemma sum_list_complement: "\<forall>i \<in> set xs. c i \<le> t i \<Longrightarrow> sum_list (map c xs) + sum_list (map (\<lambda>i. t i - c i) xs) = (sum_list (map t xs) :: nat)"
  by (induction xs) auto

lemma matrix_spec:
  assumes "coverage_matrix sha256 report (package_coverage_of r fb synced) fs sc fb' cx inc tr = Inr rows" "\<forall>t. tr = Some t \<longrightarrow> dc_detector t = DEBIAN_TRACKER"
  defines "osv \<equiv> filter (\<lambda>x. dc_detector x = OSV) rows"
  shows "length rows \<le> MAX_NESTED_LIST_ITEMS" "sum_list (map (\<lambda>x. dc_scanned_count x + dc_skipped_count x) osv) = length (packages_of (ar_assets r))"
    "ox_store_available cx \<Longrightarrow> sum_list (map dc_scanned_count osv) = count_of (covered_pkg fb synced) (packages_of (ar_assets r))"
    "(\<forall>x \<in> set osv. dc_status x = CS_COMPLETE) \<Longrightarrow> p \<in> set (packages_of (ar_assets r)) \<Longrightarrow> covered_pkg fb synced p"
proof -
  let ?cov = "package_coverage_of r fb synced" and ?count = "osv_count report fb' fs"
  define E where "E = (if pc_ecosystems ?cov = [] then [\<lparr>ec_ecosystem = None, ec_total = 0, ec_covered = 0, ec_unresolved = 0, ec_uncovered = 0, ec_unsupported = 0\<rparr>] else pc_ecosystems ?cov)"
  define mx where "mx = (if tr \<noteq> None then MAX_OSV_ROWS else MAX_OSV_ROWS + 1)"
  let ?tr = "case tr of None \<Rightarrow> [] | Some t \<Rightarrow> [t]"
  obtain os gs ds where o: "rmap_list (\<lambda>item. osv_row sha256 cx (?count (ec_ecosystem item)) item) (take mx E) = Inr os"
    and g: "(if mx < length E then rbind (valid_coverage (grouped_row ?count (drop mx E))) (\<lambda>x. Inr [x]) else Inr []) = Inr gs"
    and d: "rmap_list (scanner_row report inc sc) SCANNER_KINDS = Inr ds" and rows: "rows = os @ gs @ ?tr @ ds"
    using assms(1) unfolding coverage_matrix_def Let_def E_def [symmetric] mx_def [symmetric] by auto
  note r = rows_sum [where report = r and fb = fb and synced = synced]
  have E: "sum_list (map ec_total E) = length (packages_of (ar_assets r))" "sum_list (map ec_covered E) = count_of (covered_pkg fb synced) (packages_of (ar_assets r))"
    "\<forall>i \<in> set E. ec_covered i \<le> ec_total i" using r(1,2,5) by (auto simp: E_def)
  have le: "\<forall>i \<in> set (take mx E). ec_covered i \<le> ec_total i" "\<forall>i \<in> set (drop mx E). ec_covered i \<le> ec_total i" using E(3) by (auto dest: in_set_takeD in_set_dropD)
  note os = osv_rows [OF o le(1)]
  have ds: "length ds = 4" "\<forall>x \<in> set ds. dc_detector x \<noteq> OSV" using scanner_rows [OF d] by (simp_all add: SCANNER_KINDS_def)
  have gs: "length gs \<le> 1" "\<forall>x \<in> set gs. dc_detector x = OSV \<and> dc_status x = CS_PARTIAL" "gs = [] \<longleftrightarrow> length E \<le> mx"
    "sum_list (map dc_scanned_count gs) = sum_list (map ec_covered (drop mx E))"
    "sum_list (map dc_skipped_count gs) = sum_list (map (\<lambda>i. ec_total i - ec_covered i) (drop mx E))"
    using g by (auto simp: grouped_row_def dest: valid_coverage_Inr split: if_splits)
  have f: "osv = os @ gs" using os gs(2) ds(2) assms(2) by (auto simp: osv_def rows filter_id_conv split: option.splits)
  have len: "length os \<le> mx" using os by simp
  show "length rows \<le> MAX_NESTED_LIST_ITEMS" using len gs(1) ds(1) by (cases tr) (auto simp: rows mx_def MAX_OSV_ROWS_def MAX_NESTED_LIST_ITEMS_def)
  have sum: "sum_list (map h (take mx E)) + sum_list (map h (drop mx E)) = (sum_list (map h E) :: nat)" for h by (metis append_take_drop_id map_append sum_list_append)
  have "sum_list (map (\<lambda>i. ec_covered i) (drop mx E)) + sum_list (map (\<lambda>i. ec_total i - ec_covered i) (drop mx E)) = sum_list (map ec_total (drop mx E))"
    by (rule sum_list_complement [OF le(2)])
  then show "sum_list (map (\<lambda>x. dc_scanned_count x + dc_skipped_count x) osv) = length (packages_of (ar_assets r))"
    using os gs(4,5) sum [of ec_total] E(1) by (simp add: f sum_list_addf)
  show "sum_list (map dc_scanned_count osv) = count_of (covered_pkg fb synced) (packages_of (ar_assets r))" if "ox_store_available cx"
    using os gs(4) sum [of ec_covered] E(2) that by (simp add: f)
  show "covered_pkg fb synced p" if c: "\<forall>x \<in> set osv. dc_status x = CS_COMPLETE" "p \<in> set (packages_of (ar_assets r))"
  proof (rule all_covered [OF _ c(2)])
    have "gs = []" using c(1) gs(2) by (cases gs) (auto simp: f)
    then have t: "take mx E = E" using gs(3) by simp
    have "\<forall>s \<in> set (map dc_status os). s = CS_COMPLETE" using c(1) by (auto simp: f)
    then have "\<forall>i \<in> set E. fst (osv_status cx i) = CS_COMPLETE" using os unfolding t by (metis (no_types, lifting) imageI list.set_map)
    then show "\<forall>i \<in> set (pc_ecosystems ?cov). ec_ecosystem i \<noteq> None \<and> ec_uncovered i = 0" using osv_status_complete by (auto simp: E_def split: if_splits)
  qed
qed

section \<open>An example\<close>

definition dex_package :: package where
  "dex_package = \<lparr>pk_asset_id = ''a'', pk_parent_asset_id = None, pk_name = ''p'', pk_version = ''1'', pk_source = None, pk_source_name = None, pk_source_version = None, pk_ecosystem = Some ''npm''\<rparr>"

definition dex_advisory :: osv_advisory where
  "dex_advisory = \<lparr>osv_id = ''X'', osv_aliases = [], osv_affected = [\<lparr>pkg_ecosystem = Some ''npm'', pkg_name = Some ''p'', ent_versions = [''1''], ent_ranges = []\<rparr>], adv_references = [],
     adv_severity_word = Some ''high'', adv_cvss_vector = None, adv_cvss_v4_vector = None, adv_withdrawn = None\<rparr>"

definition dex_env :: "unit detect_env" where
  "dex_env = \<lparr>de_version = (\<lambda>_. None), de_lt = (\<lambda>_ _. False), de_pow = (\<lambda>x n. x ^ n), de_size = (\<lambda>_. 1), de_lookup = (\<lambda>eco n. Inr (if eco = ''npm'' \<and> n = ''p'' then [dex_advisory] else []))\<rparr>"

definition dex_state :: detector_state where
  "dex_state = \<lparr>dt_osv_ecosystem = None, dt_tracker = \<lparr>ts_present = False, ts_record_count = 0, ts_synced_at = None, ts_max_age_seconds = None, ts_rows = []\<rparr>,
     dt_synced_ecosystems = Some [''npm''], dt_record_count = 1\<rparr>"

definition dex_report :: "detector_run list option \<Rightarrow> asset_report" where
  "dex_report runs = \<lparr>ar_report_id = ''r'', ar_collected_at = 0, ar_source_agent_id = None, ar_host_id = ''h'', ar_host_os = [], ar_host_ips = [], ar_assets = [Package dex_package, Other_asset K_SERVICE ''s''], ar_vulnerabilities = [], ar_detector_runs = runs\<rparr>"

definition dex_config :: "('p \<Rightarrow> string) \<Rightarrow> 'p store_config" where
  "dex_config rid = \<lparr>st_max_bytes = 0, st_max_table_bytes = 0, st_max_rows = 0, st_max_record_bytes = 0, st_read_max_bytes = 0, st_size = (\<lambda>_. 1), st_field = (\<lambda>f d. if f = ''report_id'' then Some (rid d) else None)\<rparr>"

definition dex_vuln :: vuln where
  "dex_vuln = \<lparr>vu_vuln_id = ''X'', vu_severity = HIGH, vn_cvss_score = None, vn_affected_asset_id = ''a'', vn_parent_asset_id = None, vn_source = ''osv'', vn_evidence = Some ''p 1 affected by X'',
     vn_references = [''https://osv.dev/vulnerability/X'']\<rparr>"

lemma dex_valid: "valid_vuln dex_vuln = Inr dex_vuln"
  by code_simp

lemma dex_severity: "advisory_severity pow dex_advisory = HIGH"
  by (simp add: advisory_severity_def severity_signals_def cvss_score_def dex_advisory_def truthy_def word_severity_def SEVERITY_WORDS_def lower_def lower_char_def)

lemma dex_finding: "to_vulnerability dex_env dex_package dex_advisory ''X'' None = Inr dex_vuln"
  using dex_valid dex_severity [of "de_pow dex_env"]
  by (simp add: to_vulnerability_def cvss_score_def truthy_def dex_package_def OSV_SOURCE_def dex_vuln_def) (simp add: dex_advisory_def)

lemma dex_detect: "detect_report dex_env \<lparr>ar_report_id = ''r'', ar_collected_at = 0, ar_source_agent_id = None, ar_host_id = ''h'', ar_host_os = [], ar_host_ips = [], ar_assets = [Package dex_package], ar_vulnerabilities = [], ar_detector_runs = runs\<rparr> None no_limit = Inr ([dex_vuln], no_limit)"
proof -
  have "osv_record.truncate dex_advisory = \<lparr>osv_id = ''X'', osv_aliases = [], osv_affected = osv_affected dex_advisory\<rparr>" by (simp add: dex_advisory_def osv_record.truncate_def)
  moreover have "affected_entries \<lparr>osv_id = ''X'', osv_aliases = [], osv_affected = osv_affected dex_advisory\<rparr> ''npm'' ''p'' = osv_affected dex_advisory" by (simp add: affected_entries_def dex_advisory_def)
  moreover have "is_version_affected ''1'' \<lparr>pkg_ecosystem = Some ''npm'', pkg_name = Some ''p'', ent_versions = [''1''], ent_ranges = []\<rparr> cmp sem = Inr (True, None)" for cmp sem by (simp add: is_version_affected_def)
  moreover have "osv_affected dex_advisory = [\<lparr>pkg_ecosystem = Some ''npm'', pkg_name = Some ''p'', ent_versions = [''1''], ent_ranges = []\<rparr>]" by (simp add: dex_advisory_def)
  moreover have "pk_version dex_package = ''1''" "pk_name dex_package = ''p''" "ecosystem_of None dex_package = Some ''npm''" "pk_asset_id dex_package = ''a''" by (simp_all add: dex_package_def ecosystem_of_def truthy_def)
  moreover have "de_lookup dex_env ''npm'' ''p'' = Inr [dex_advisory]" "de_size dex_env f = 1" for f by (simp_all add: dex_env_def)
  ultimately show ?thesis using dex_finding by (simp add: detect_report_def packages_of_def primary_id_def MAX_FINDINGS_def MAX_FINDING_BYTES_def del: rbind_eq_Inr)
qed

lemma dex_kali: "detect_kali_packages (de_size dex_env) (dex_report runs) (dt_tracker dex_state) no_limit =
    Inr (\<lparr>kd_osv_report = dex_report runs, kd_findings = [], kd_candidate_count = 0, kd_verified_count = 0, kd_unverified_count = 0, kd_incomplete_count = 0\<rparr>, no_limit)"
  by (simp add: detect_kali_packages_def dex_report_def is_candidate_def is_kali_package_def dex_package_def packages_of_def group_by_def del: rbind_eq_Inr)

definition dex_coverage :: "detector_run list option \<Rightarrow> package_coverage" where
  "dex_coverage runs = \<lparr>pc_report = (dex_report runs)\<lparr>ar_assets := [Package dex_package]\<rparr>, pc_total = 1, pc_resolved = 1, pc_covered = 1, pc_unresolved = 0, pc_uncovered = 0, pc_unsupported = 0,
     pc_uncovered_ecosystems = [], pc_unsupported_ecosystems = [],
     pc_ecosystems = [\<lparr>ec_ecosystem = Some ''npm'', ec_total = 1, ec_covered = 1, ec_unresolved = 0, ec_uncovered = 0, ec_unsupported = 0\<rparr>]\<rparr>"

lemma dex_cov: "package_coverage_of (dex_report runs) None (Some [''npm'']) = dex_coverage runs"
proof -
  have "ecosystem_family ''npm'' = ''npm''" by code_simp
  moreover have "ecosystem_of None dex_package = Some ''npm''" by (simp add: dex_package_def ecosystem_of_def truthy_def)
  ultimately show ?thesis
    by (simp add: package_coverage_of_def dex_coverage_def dex_report_def packages_of_def coverage_step_def UNSUPPORTED_COLLECTED_ECOSYSTEMS_def count_package_def bump_def ecosystem_row_def)
qed

lemma dex_osv: "run_osv dex_env dex_state None (dex_coverage runs) 0 = \<lparr>op_vulns = [dex_vuln], op_limit = no_limit, op_status = DS_COMPLETE, op_reason = None, op_scanned = 1\<rparr>"
  using dex_detect [of runs] by (simp add: run_osv_def dex_state_def dex_coverage_def dex_report_def)

definition dex_row :: "detector_kind \<Rightarrow> coverage_status \<Rightarrow> string \<Rightarrow> detection_coverage" where
  "dex_row k cs why = \<lparr>dc_detector = k, dc_ecosystem = None, dc_status = cs, dc_scanned_count = 0, dc_skipped_count = 0, dc_finding_count = 0, dc_reason = Some why\<rparr>"

definition dex_rows :: "coverage_status \<Rightarrow> string \<Rightarrow> detection_coverage list" where
  "dex_rows cs why = \<lparr>dc_detector = OSV, dc_ecosystem = Some ''npm'', dc_status = CS_COMPLETE, dc_scanned_count = 1, dc_skipped_count = 0, dc_finding_count = 1, dc_reason = None\<rparr>
     # map (\<lambda>k. dex_row k cs why) SCANNER_KINDS"

lemma dex_matrix:
  assumes "runs = None \<and> cs = CS_UNKNOWN \<and> why = ''producer_detector_coverage_unknown'' \<or> runs = Some [] \<and> cs = CS_DISABLED \<and> why = ''detector_not_enabled''"
  shows "coverage_matrix sha (dex_report runs) (dex_coverage runs) [dex_vuln] [] None
      \<lparr>ox_store_available = True, ox_sync_known = True, ox_detection_status = DS_COMPLETE, ox_status_reason = None, ox_incomplete_reason = None\<rparr> None None = Inr (dex_rows cs why)"
proof -
  have v: "valid_ident ''npm'' = Inr ''npm''" "valid_str ''producer_detector_coverage_unknown'' = Inr ''producer_detector_coverage_unknown''" "valid_str ''detector_not_enabled'' = Inr ''detector_not_enabled''"
    by code_simp+
  have "osv_count (dex_report runs) None [dex_vuln] (Some ''npm'') = 1"
    by (simp add: osv_count_def finding_ecosystem_def dex_report_def packages_of_def dex_package_def dex_vuln_def truthy_def)
  then show ?thesis using assms v
    by (auto simp: coverage_matrix_def dex_coverage_def MAX_OSV_ROWS_def osv_row_def osv_status_def scope_label_def valid_coverage_def valid_opt_ident_def valid_opt_str_def truthy_def
      SCANNER_KINDS_def scanner_row_def scanner_status_def scanner_count_def declared_run_def dex_report_def dex_rows_def dex_row_def simp del: rbind_eq_Inr)
qed

definition dex_record :: "coverage_status \<Rightarrow> string \<Rightarrow> detection_record" where
  "dex_record cs why = \<lparr>dx_report_id = ''r'', dx_host_id = ''h'', dx_collected_at = 0, dx_ecosystem = [], dx_vulnerabilities = [dex_vuln], dx_status = DS_COMPLETE, dx_status_reason = None,
     dx_scanned_package_count = 1, dx_unresolved_package_count = 0, dx_uncovered_package_count = 0, dx_truncated = False, dx_truncation_reason = None, dx_coverage = dex_rows cs why\<rparr>"

lemma dex_build:
  assumes "runs = None \<and> cs = CS_UNKNOWN \<and> why = ''producer_detector_coverage_unknown'' \<or> runs = Some [] \<and> cs = CS_DISABLED \<and> why = ''detector_not_enabled''"
  shows "build_detection dex_env sha dex_state 0 0 (dex_report runs) = Inr (dex_record cs why)"
proof -
  have a: "scanner_findings (de_size dex_env) (dex_report runs) no_limit = ([], no_limit)" by (simp add: scanner_findings_def dex_report_def)
  have "ecosystem_for_os [] = None" by code_simp
  then have b: "truthy (resolve_ecosystem (dex_report runs) (dt_osv_ecosystem dex_state)) = None" by (simp add: resolve_ecosystem_def dex_report_def dex_state_def truthy_def)
  have c: "combine_findings (de_size dex_env) MAX_DERIVED_VULNERABILITIES ([dex_vuln] @ []) [] no_limit = ([dex_vuln], no_limit)"
    by (simp add: combine_findings_def MAX_DERIVED_VULNERABILITIES_def MAX_FINDING_BYTES_def dex_env_def)
  have d: "dt_synced_ecosystems dex_state = Some [''npm'']" "dt_record_count dex_state = 1" by (simp_all add: dex_state_def)
  have e: "valid_ident ''r'' = Inr ''r''" "valid_ident ''h'' = Inr ''h''" "valid_ident [] = Inr []" by code_simp+
  have n: "fl_truncated no_limit = False" "fl_reason no_limit = None" "fl_incomplete_reason no_limit = None" by (simp_all add: no_limit_def)
  have len: "length (dex_rows cs why) = 5" by (simp add: dex_rows_def SCANNER_KINDS_def)
  show ?thesis using dex_matrix [OF assms] unfolding build_detection_def Let_def a prod.case b dex_kali rbind_simps kali_detection.simps d(1) dex_cov dex_osv osv_pass.simps
    by (simp add: merge_kali_tracker_status_def c [simplified] n first_truthy_def truthy_def first_some_def kali_tracker_coverage_def d dex_record_def valid_detection_def e valid_opt_str_def len
      MAX_NESTED_LIST_ITEMS_def dex_report_def dex_coverage_def del: rbind_eq_Inr)
qed

section \<open>Properties\<close>

text \<open>C12: The engine reports exactly the affected pairs. Every finding comes from a package of the report and an advisory the store holds for it whose range contains the
  installed version, with at most one finding per asset and vulnerability and within both budgets; and when the limit state carries no mark, every affected pair has its finding.\<close>

theorem detect_report_exact:
  assumes "detect_report env report fb no_limit = Inr (fs, st)"
  shows "(\<forall>f \<in> set fs. \<exists>p \<in> set (packages_of (ar_assets report)). \<exists>r fixed. matched env fb p r fixed \<and> to_vulnerability env p r (advisory_vid r) fixed = Inr f)
    \<and> length fs \<le> MAX_FINDINGS \<and> sum_list (map (de_size env) fs) \<le> MAX_FINDING_BYTES \<and> (\<exists>keys. distinct keys \<and> list_all2 (from_key env) keys fs)
    \<and> (clean_limit st \<longrightarrow> (\<forall>p \<in> set (packages_of (ar_assets report)). \<forall>r fixed. matched env fb p r fixed \<longrightarrow>
          (\<exists>f \<in> set fs. from_key env (pk_asset_id p, advisory_vid r) f)))"
  using assms by (rule detect_report_spec)


text \<open>C11: Complete means checked. When detection of a report is acknowledged as complete, the stored record says so, nothing was cut off, and every package of the inventory was
  judged: a Kali package's source version is in a fresh tracker index and its affected CVEs are findings; any other package has a synchronised, supported
  ecosystem, the advisories the store holds for it were read, and each that affects the installed version has a finding.\<close>

theorem complete_means_checked:
  assumes "auto_detect env sha256 c disk st now1 now2 report store = Inr (store', out)" "do_status out = R_COMPLETE"
  shows "\<exists>d. s_payload (last (s_rows store')) = d \<and> dx_status d = DS_COMPLETE \<and> \<not> dx_truncated d \<and> (\<forall>p \<in> set (packages_of (ar_assets report)).
    if is_kali_package report p then tracker_checked st now1 (dx_vulnerabilities d) p
    else osv_checked env st (truthy (resolve_ecosystem report (dt_osv_ecosystem st))) (dx_vulnerabilities d) p)"
proof -
  obtain d where d: "build_detection env sha256 st now1 now2 report = Inr d" "out = detection_outcome d (dx_coverage d)" "\<exists>b. budget_append c (\<lambda>_. None) disk d (fresh_budget, store) = Inr ((b, store'), True)"
    using assms(1) by (auto simp: auto_detect_def split: if_splits)
  have st: "dx_status d = DS_COMPLETE" "\<not> dx_truncated d" using assms(2) by (auto simp: d(2) detection_outcome_def split: if_splits)
  have "s_payload (last (s_rows store')) = d"
    using d(3) by (auto simp: budget_append_def store_append_def append_record_def insert_record_def Let_def split: if_splits prod.splits)
  then show ?thesis using st build_complete [OF d(1) st] by blast
qed

definition dex_stored :: "'p \<Rightarrow> 'p record_store" where
  "dex_stored p = \<lparr>s_rows = [\<lparr>s_id = 1, s_payload = p, s_bytes = 1\<rparr>], s_next_id = 2, s_row_count = 1, s_total_bytes = 1\<rparr>"

lemma dex_append: "store_append (dex_config f) (0, 0, False) p empty_store = Inr (dex_stored p)"
  by (simp add: store_append_def append_record_def dex_config_def write_budget_def prune_for_insert_def insert_record_def empty_store_def dex_stored_def Let_def)

lemma dex_auto:
  assumes "runs = None \<and> cs = CS_UNKNOWN \<and> why = ''producer_detector_coverage_unknown'' \<or> runs = Some [] \<and> cs = CS_DISABLED \<and> why = ''detector_not_enabled''"
  shows "auto_detect dex_env sha (dex_config dx_report_id) (0, 0, False) dex_state 0 0 (dex_report runs) empty_store =
    Inr (dex_stored (dex_record cs why), detection_outcome (dex_record cs why) (dex_rows cs why))"
proof -
  have "st_size (dex_config dx_report_id) d = 1" for d :: detection_record by (simp add: dex_config_def)
  then have "budget_append (dex_config dx_report_id) (\<lambda>_. None) (0, 0, False) d (fresh_budget, empty_store) = Inr ((fresh_budget\<lparr>db_records := 1, db_bytes := 1\<rparr>, dex_stored d), True)" for d :: detection_record
    using dex_append [of dx_report_id d] by (simp add: budget_append_def fresh_budget_def MAX_DERIVED_RECORDS_PER_INGEST_def MAX_DERIVED_BYTES_PER_INGEST_def Let_def)
  moreover have "dx_coverage (dex_record cs why) = dex_rows cs why" by (simp add: dex_record_def)
  ultimately show ?thesis using dex_build [OF assms] by (simp add: auto_detect_def del: rbind_eq_Inr)
qed


section \<open>Witnesses\<close>

theorem detect_report_exact_witness:
  "\<exists>f. detect_report dex_env ((dex_report None)\<lparr>ar_assets := [Package dex_package]\<rparr>) None no_limit = Inr ([f], no_limit) \<and> from_key dex_env (''a'', ''X'') f"
proof -
  have d: "detect_report dex_env ((dex_report None)\<lparr>ar_assets := [Package dex_package]\<rparr>) None no_limit = Inr ([dex_vuln], no_limit)"
    using dex_detect [of None] by (simp add: dex_report_def)
  have "affects dex_env ''npm'' dex_package dex_advisory None"
    by (simp add: affects_def affected_entries_def osv_record.truncate_def dex_advisory_def dex_package_def is_version_affected_def)
  then have "matched dex_env None dex_package dex_advisory None"
    by (auto simp: matched_def ecosystem_of_def truthy_def dex_env_def) (simp_all add: dex_package_def)
  moreover have "clean_limit no_limit" "dex_package \<in> set (packages_of (ar_assets ((dex_report None)\<lparr>ar_assets := [Package dex_package]\<rparr>)))" by (simp_all add: clean_limit_def no_limit_def packages_of_def)
  moreover have "advisory_vid dex_advisory = ''X''" "pk_asset_id dex_package = ''a''" by (simp_all add: advisory_vid_def dex_advisory_def osv_record.truncate_def primary_id_def dex_package_def)
  ultimately show ?thesis using detect_report_exact [OF d] d by (metis list.set_intros(1) list.set(1,2) singletonD)
qed


theorem complete_means_checked_witness:
  "\<exists>store' out. auto_detect dex_env id (dex_config dx_report_id) (0, 0, False) dex_state 0 0 (dex_report (Some [])) empty_store = Inr (store', out) \<and> do_status out = R_COMPLETE
    \<and> osv_checked dex_env dex_state None (dx_vulnerabilities (s_payload (last (s_rows store')))) dex_package"
proof -
  let ?d = "dex_record CS_DISABLED ''detector_not_enabled''" and ?rows = "dex_rows CS_DISABLED ''detector_not_enabled''"
  have a: "auto_detect dex_env id (dex_config dx_report_id) (0, 0, False) dex_state 0 0 (dex_report (Some [])) empty_store = Inr (dex_stored ?d, detection_outcome ?d ?rows)"
    using dex_auto [of "Some []" CS_DISABLED "''detector_not_enabled''" id] by simp
  have c: "do_status (detection_outcome ?d ?rows) = R_COMPLETE"
    by (simp add: detection_outcome_def dex_record_def dex_rows_def dex_row_def SCANNER_KINDS_def row_settled_def)
  have "ecosystem_for_os [] = None" by code_simp
  then have "truthy (resolve_ecosystem (dex_report (Some [])) (dt_osv_ecosystem dex_state)) = None" by (simp add: resolve_ecosystem_def dex_report_def dex_state_def truthy_def)
  moreover have "dex_package \<in> set (packages_of (ar_assets (dex_report (Some []))))" "\<not> is_kali_package (dex_report (Some [])) dex_package"
    by (simp_all add: dex_report_def packages_of_def is_kali_package_def dex_package_def)
  ultimately show ?thesis using complete_means_checked [OF a c] a c by auto
qed

end
