(* ===== verification/Ingest_Pipeline.thy ===== *)
theory Ingest_Pipeline
  imports Auto_Detect Correlate_Guard
begin

text \<open>
  The ingest pipeline, \<open>analyzer/api/ingest.py\<close>: an envelope is submitted to the durable ledger, claimed, its raw form stored once, detection or correlation derives records under
  a budget, and the outcome is recorded in the ledger and acknowledged.

  A stored row is the record it was made from, so reading it back needs no failure case. JSON decoding of a queued payload and the JSON sizes are arguments, as are the
  clock readings, the claim token and the disk's answers. The heartbeat thread is not modelled: a lease that runs out shows as a completion that is refused.
\<close>

section \<open>State\<close>

record 'b sourced =
  sb_source :: "string option"
  sb_batch :: 'b

record app_state =
  ap_reports :: "asset_report record_store"
  ap_traces :: "trace_batch sourced record_store"
  ap_guards :: "guard_event_batch sourced record_store"
  ap_detections :: "detection_record record_store"
  ap_alerts :: "alert record_store"

record 'ver app_config =
  ac_env :: "'ver detect_env"
  ac_detector :: detector_state
  ac_sha1 :: "string \<Rightarrow> string"
  ac_sha256 :: "string \<Rightarrow> string"
  ac_reports :: "asset_report store_config"
  ac_traces :: "trace_batch sourced store_config"
  ac_guards :: "guard_event_batch sourced store_config"
  ac_detections :: "detection_record store_config"
  ac_alerts :: "alert store_config"
  ac_decode_report :: "string \<Rightarrow> asset_report option"
  ac_decode_trace :: "string \<Rightarrow> trace_batch sourced option"
  ac_decode_guard :: "string \<Rightarrow> guard_event_batch sourced option"
  ac_ledger :: ledger_config
  ac_lease_seconds :: seconds
  ac_async :: bool

definition CROSS_SOURCE_WINDOW :: int where "CROSS_SOURCE_WINDOW = 500"

section \<open>Correlation\<close>

definition host_of :: "asset_report \<Rightarrow> asset_report_host" where
  "host_of r = \<lparr>rh_host_id = ar_host_id r, rh_ip_addrs = ar_host_ips r\<rparr>"

definition detection_view :: "detection_record \<Rightarrow> detection_result" where
  "detection_view d = \<lparr>dr_host_id = dx_host_id d, dr_vulnerabilities = map vulnerability.truncate (dx_vulnerabilities d)\<rparr>"

definition recent_index :: "'ver app_config \<Rightarrow> app_state \<Rightarrow> (string \<times> string) list" where
  "recent_index c s = ip_host_index (map host_of (tail_records (ac_reports c) CROSS_SOURCE_WINDOW 0 (ap_reports s)))"

definition recent_detections :: "'ver app_config \<Rightarrow> app_state \<Rightarrow> detection_result list" where
  "recent_detections c s = map detection_view (tail_records (ac_detections c) CROSS_SOURCE_WINDOW 0 (ap_detections s))"

definition limit_truncated :: "correlation_limit_state option \<Rightarrow> bool" where
  "limit_truncated ls = (case ls of None \<Rightarrow> False | Some l \<Rightarrow> cl_truncated l)"

definition limit_reason :: "correlation_limit_state option \<Rightarrow> string option" where
  "limit_reason ls = (case ls of None \<Rightarrow> None | Some l \<Rightarrow> cl_reason l)"

text \<open>The common shape of \<open>_correlate\<close> and \<open>_correlate_guard\<close>: base alerts are persisted first, then the alerts joined_reasons with historical detections.\<close>

definition correlate_with :: "'ver app_config \<Rightarrow> (nat \<Rightarrow> disk) \<Rightarrow> (alert list \<times> correlation_limit_state option) result
    \<Rightarrow> (alert list \<Rightarrow> correlation_limit_state option \<Rightarrow> (alert list \<times> correlation_limit_state option) result) \<Rightarrow> string \<Rightarrow> string \<Rightarrow> app_state
    \<Rightarrow> app_state \<times> derived_outcome result" where
  "correlate_with c disks base cross base_reason cross_reason s =
     (case base of
        Inl _ \<Rightarrow> (s, Inr \<lparr>do_status = R_FAILED, do_records = 0, do_truncated = False, do_reason = Some base_reason\<rparr>)
      | Inr (alerts, ls) \<Rightarrow>
          let b0 = (if limit_truncated ls then fresh_budget\<lparr>db_truncated := True, db_truncation_reason := limit_reason ls\<rparr> else fresh_budget);
              ((b1, al1), persisted, err) = persist_loop (ac_alerts c) (\<lambda>a. Some (al_alert_id a)) disks 0 alerts (b0, ap_alerts s) [];
              s1 = s\<lparr>ap_alerts := al1\<rparr> in
          (case err of
             Some e \<Rightarrow> (s1, Inl e)
           | None \<Rightarrow>
               (case cross persisted ls of
                  Inl _ \<Rightarrow> (s1, Inr (budget_outcome b1 [cross_reason]))
                | Inr (extra, ls2) \<Rightarrow>
                    let b2 = (if limit_truncated ls2
                              then b1\<lparr>db_truncated := True, db_truncation_reason :=
                                     (case truthy (db_truncation_reason b1) of Some r \<Rightarrow> Some r | None \<Rightarrow> limit_reason ls2)\<rparr> else b1);
                        ((b3, al3), _, err3) = persist_loop (ac_alerts c) (\<lambda>a. Some (al_alert_id a)) disks (length alerts) extra (b2, al1) [];
                        s3 = s1\<lparr>ap_alerts := al3\<rparr> in
                    (s3, case err3 of Some e \<Rightarrow> Inl e | None \<Rightarrow> Inr (budget_outcome b3 []))))) "

definition correlate_ingest :: "'ver app_config \<Rightarrow> (nat \<Rightarrow> disk) \<Rightarrow> trace_batch \<Rightarrow> app_state \<Rightarrow> app_state \<times> derived_outcome result" where
  "correlate_ingest c disks batch s =
     correlate_with c disks (correlate_trace_batch (ac_sha1 c) (ac_sha256 c) batch (Some (recent_index c s)) (Some new_limit_state))
       (\<lambda>persisted ls. cross_source_alerts (ac_sha1 c) (ac_sha256 c) (tb_batch_id batch) (tb_collected_at batch) persisted (recent_detections c s) ls)
       ''ioc_correlation_failed'' ''cross_source_correlation_failed'' s"

definition correlate_guard_ingest :: "'ver app_config \<Rightarrow> (nat \<Rightarrow> disk) \<Rightarrow> guard_event_batch \<Rightarrow> app_state \<Rightarrow> app_state \<times> derived_outcome result" where
  "correlate_guard_ingest c disks batch s =
     correlate_with c disks (correlate_guard_batch (ac_sha1 c) (ac_sha256 c) batch (Some new_limit_state))
       (\<lambda>persisted ls. guard_compound_alerts (ac_sha1 c) (ac_sha256 c) (gb_batch_id batch) (gb_collected_at batch) persisted (recent_detections c s) ls)
       ''guard_correlation_failed'' ''guard_cross_source_correlation_failed'' s"

section \<open>Storing an envelope\<close>

text \<open>Whatever derivation raises becomes a failed outcome; storing the raw envelope may raise.\<close>

definition absorb :: "app_state \<times> derived_outcome result \<Rightarrow> app_state \<times> derived_outcome result" where
  "absorb x = (fst x, Inr (case snd x of Inl e \<Rightarrow> failed_outcome e | Inr out \<Rightarrow> out))"

definition store_trace_batch :: "'ver app_config \<Rightarrow> disk \<Rightarrow> (nat \<Rightarrow> disk) \<Rightarrow> bool \<Rightarrow> trace_batch sourced \<Rightarrow> app_state \<Rightarrow> app_state \<times> derived_outcome result" where
  "store_trace_batch c raw disks persist_raw b s =
     (case (if persist_raw then store_append (ac_traces c) raw b (ap_traces s) else Inr (ap_traces s)) of
        Inl e \<Rightarrow> (s, Inl e) | Inr t \<Rightarrow> absorb (correlate_ingest c disks (sb_batch b) (s\<lparr>ap_traces := t\<rparr>)))"

definition store_guard_batch :: "'ver app_config \<Rightarrow> disk \<Rightarrow> (nat \<Rightarrow> disk) \<Rightarrow> bool \<Rightarrow> guard_event_batch sourced \<Rightarrow> app_state \<Rightarrow> app_state \<times> derived_outcome result" where
  "store_guard_batch c raw disks persist_raw b s =
     (case (if persist_raw then store_append (ac_guards c) raw b (ap_guards s) else Inr (ap_guards s)) of
        Inl e \<Rightarrow> (s, Inl e) | Inr g \<Rightarrow> absorb (correlate_guard_ingest c disks (sb_batch b) (s\<lparr>ap_guards := g\<rparr>)))"

definition source_name :: "string option \<Rightarrow> string" where
  "source_name src = (case truthy src of Some x \<Rightarrow> x | None \<Rightarrow> ''legacy'')"

definition raw_already_stored :: "'p store_config \<Rightarrow> ('p \<Rightarrow> string option) \<Rightarrow> string \<Rightarrow> string \<Rightarrow> string \<Rightarrow> 'p record_store \<Rightarrow> bool" where
  "raw_already_stored c source_of id_field envelope_id source s =
     (case find_one c id_field envelope_id s of None \<Rightarrow> False | Some r \<Rightarrow> source_name (source_of r) = source)"

definition process_ingest_task :: "'ver app_config \<Rightarrow> datetime \<Rightarrow> datetime \<Rightarrow> disk \<Rightarrow> (nat \<Rightarrow> disk) \<Rightarrow> ledger_task \<Rightarrow> app_state \<Rightarrow> app_state \<times> derived_outcome result" where
  "process_ingest_task c now1 now2 raw disks task s =
     (case lt_kind task of
        ASSET_REPORT \<Rightarrow>
          (case ac_decode_report c (lt_payload task) of None \<Rightarrow> (s, Inl ValidationError)
           | Some r \<Rightarrow>
               let exists_raw = raw_already_stored (ac_reports c) ar_source_agent_id ''report_id'' (ar_report_id r) (source_name (ar_source_agent_id r)) (ap_reports s) in
               (case store_asset_report (ac_env c) (ac_sha256 c) (ac_reports c) (ac_detections c) raw (disks 0) (ac_detector c) now1 now2 (\<not> exists_raw) r (ap_reports s, ap_detections s) of
                  Inl e \<Rightarrow> (s, Inl e)
                | Inr ((reports, detections), out) \<Rightarrow> (s\<lparr>ap_reports := reports, ap_detections := detections\<rparr>, Inr out)))
      | TRACE_BATCH \<Rightarrow>
          (case ac_decode_trace c (lt_payload task) of None \<Rightarrow> (s, Inl ValidationError)
           | Some b \<Rightarrow> store_trace_batch c raw disks
               (\<not> raw_already_stored (ac_traces c) sb_source ''batch_id'' (tb_batch_id (sb_batch b)) (source_name (sb_source b)) (ap_traces s)) b s)
      | GUARD_EVENT \<Rightarrow>
          (case ac_decode_guard c (lt_payload task) of None \<Rightarrow> (s, Inl ValidationError)
           | Some b \<Rightarrow> store_guard_batch c raw disks
               (\<not> raw_already_stored (ac_guards c) sb_source ''batch_id'' (gb_batch_id (sb_batch b)) (source_name (sb_source b)) (ap_guards s)) b s))"

section \<open>Acknowledgement\<close>

datatype ack_state = A_PENDING | A_COMPLETE | A_PARTIAL

record ingest_ack =
  ack_id :: string
  ack_duplicate :: bool
  ack_queued :: bool
  ack_status :: ack_state
  ack_records :: int
  ack_truncated :: bool
  ack_reason :: "string option"

definition make_ack :: "string \<Rightarrow> bool \<Rightarrow> derived_outcome \<Rightarrow> ingest_ack result" where
  "make_ack i duplicate out =
     (case do_status out of R_FAILED \<Rightarrow> Inl (HTTPException 503)
      | st \<Rightarrow> Inr \<lparr>ack_id = i, ack_duplicate = duplicate, ack_queued = False, ack_status = (if st = R_COMPLETE then A_COMPLETE else A_PARTIAL),
               ack_records = do_records out, ack_truncated = do_truncated out, ack_reason = do_reason out\<rparr>)"

definition pending_ack :: "string \<Rightarrow> bool \<Rightarrow> ingest_ack" where
  "pending_ack i duplicate = \<lparr>ack_id = i, ack_duplicate = duplicate, ack_queued = True, ack_status = A_PENDING, ack_records = 0, ack_truncated = False, ack_reason = None\<rparr>"

definition task_outcome :: "ledger_task \<Rightarrow> derived_outcome option" where
  "task_outcome t =
     (if \<not> final_state (lt_state t) then None
      else Some \<lparr>do_status = (if lt_state t = T_COMPLETE then R_COMPLETE else R_PARTIAL), do_records = lt_derived_records t,
                 do_truncated = lt_derived_truncated t, do_reason = lt_derived_reason t\<rparr>)"

text \<open>What the world supplies to one request: the bytes the ledger uses, clock readings, a claim token, and the disk.\<close>

record world =
  w_used :: nat
  w_now :: seconds
  w_claim :: seconds
  w_done :: seconds
  w_token :: string
  w_clock :: "datetime \<times> datetime"
  w_raw :: disk
  w_disks :: "nat \<Rightarrow> disk"

definition run_inline :: "'ver app_config \<Rightarrow> world \<Rightarrow> ledger_task \<Rightarrow> ledger_row list \<Rightarrow> app_state \<Rightarrow> ledger_row list \<times> app_state \<times> ingest_ack result" where
  "run_inline c w task rows s =
     (let key = lt_key task; token = the (lt_lease_token task);
          (s', res) = process_ingest_task c (fst (w_clock w)) (snd (w_clock w)) (w_raw w) (w_disks w) task s in
      case res of
        Inl e \<Rightarrow> (fst (retry_task (w_done w) key token (exn_name e) 0 rows), s', Inl e)
      | Inr out \<Rightarrow>
          if do_status out = R_FAILED
          then (fst (retry_task (w_done w) key token (case truthy (do_reason out) of None \<Rightarrow> ''derived_processing_failed'' | Some r \<Rightarrow> r) 0 rows), s', make_ack (lt_envelope_id task) False out)
          else
            let (rows', committed) = complete_task (ac_ledger c) (w_done w) key token (if do_status out = R_COMPLETE then S_COMPLETE else S_PARTIAL)
                  (do_records out) (do_truncated out) (do_reason out) rows in
            (rows', s', if committed then make_ack (lt_envelope_id task) False out else Inl (HTTPException 503)))"

definition ingest_envelope :: "'ver app_config \<Rightarrow> world \<Rightarrow> string \<Rightarrow> task_kind \<Rightarrow> string \<Rightarrow> string \<Rightarrow> ledger_row list \<Rightarrow> app_state \<Rightarrow> ledger_row list \<times> app_state \<times> ingest_ack result" where
  "ingest_envelope c w key kind envelope_id payload rows s =
     (case submit (ac_ledger c) (w_used w) (w_now w) key kind envelope_id payload rows of
        Inl e \<Rightarrow> (rows, s, Inl (if e = LedgerConflictError then HTTPException 409 else e))
      | Inr (rows1, task, created) \<Rightarrow>
          (case task_outcome task of
             Some out \<Rightarrow> (rows1, s, make_ack envelope_id True out)
           | None \<Rightarrow>
               if ac_async c then (rows1, s, Inr (pending_ack envelope_id (\<not> created)))
               else
                 (case claim_task key (w_claim w) (ac_lease_seconds c) (w_token w) rows1 of
                    (rows2, None) \<Rightarrow>
                      (rows2, s, case Option.bind (get_task key rows2) task_outcome of Some out \<Rightarrow> make_ack envelope_id True out | None \<Rightarrow> Inl (HTTPException 503))
                  | (rows2, Some claimed) \<Rightarrow> run_inline c w claimed rows2 s)))"

text \<open>One round of the background worker: the next due task is claimed, processed and settled.\<close>

definition work_once :: "'ver app_config \<Rightarrow> worker_config \<Rightarrow> world \<Rightarrow> ledger_row list \<Rightarrow> app_state \<Rightarrow> ledger_row list \<times> app_state" where
  "work_once c wc w rows s =
     (case claim_next_task (w_claim w) (wc_lease_seconds wc) (w_token w) rows of
        (rows1, None) \<Rightarrow> (rows1, s)
      | (rows1, Some task) \<Rightarrow>
          let (s', res) = process_ingest_task c (fst (w_clock w)) (snd (w_clock w)) (w_raw w) (w_disks w) task s in
          (fst (settle_task (ac_ledger c) wc (w_done w) task (map_sum exn_name id res) rows1), s'))"

definition envelope_key :: "task_kind \<Rightarrow> string option \<Rightarrow> string \<Rightarrow> string" where
  "envelope_key kind source envelope_id = kind_value kind @ '':'' @ source_name source @ '':'' @ envelope_id"

definition ingest_asset_report :: "'ver app_config \<Rightarrow> (asset_report \<Rightarrow> string) \<Rightarrow> world \<Rightarrow> asset_report \<Rightarrow> ledger_row list \<Rightarrow> app_state \<Rightarrow> ledger_row list \<times> app_state \<times> ingest_ack result" where
  "ingest_asset_report c encode w r rows s =
     ingest_envelope c w (envelope_key ASSET_REPORT (ar_source_agent_id r) (ar_report_id r)) ASSET_REPORT (ar_report_id r) (encode r) rows s"

definition ingest_trace_batch :: "'ver app_config \<Rightarrow> (trace_batch sourced \<Rightarrow> string) \<Rightarrow> world \<Rightarrow> trace_batch sourced \<Rightarrow> ledger_row list \<Rightarrow> app_state \<Rightarrow> ledger_row list \<times> app_state \<times> ingest_ack result" where
  "ingest_trace_batch c encode w b rows s =
     ingest_envelope c w (envelope_key TRACE_BATCH (sb_source b) (tb_batch_id (sb_batch b))) TRACE_BATCH (tb_batch_id (sb_batch b)) (encode b) rows s"

definition ingest_guard_event :: "'ver app_config \<Rightarrow> (guard_event_batch sourced \<Rightarrow> string) \<Rightarrow> world \<Rightarrow> guard_event_batch sourced \<Rightarrow> ledger_row list \<Rightarrow> app_state \<Rightarrow> ledger_row list \<times> app_state \<times> ingest_ack result" where
  "ingest_guard_event c encode w b rows s =
     ingest_envelope c w (envelope_key GUARD_EVENT (sb_source b) (gb_batch_id (sb_batch b))) GUARD_EVENT (gb_batch_id (sb_batch b)) (encode b) rows s"

section \<open>The status route\<close>

definition state_rank :: "task_state \<Rightarrow> nat" where
  "state_rank st = (case st of T_COMPLETE \<Rightarrow> 0 | T_PARTIAL \<Rightarrow> 1 | T_PENDING \<Rightarrow> 2 | T_PROCESSING \<Rightarrow> 3)"

record derived_status_view =
  iv_kind :: task_kind
  iv_id :: string
  iv_source :: string
  iv_state :: task_state
  iv_children :: nat
  iv_attempts :: nat
  iv_records :: int
  iv_truncated :: bool
  iv_reason :: "string option"
  iv_error :: "string option"
  iv_next_attempt_at :: "seconds option"
  iv_updated_at :: seconds

definition joined_reasons :: "string option list \<Rightarrow> string option" where
  "joined_reasons xs = truthy (Some (take 2048 (join '', '' (fromkeys (concat (map (\<lambda>x. case truthy x of None \<Rightarrow> [] | Some v \<Rightarrow> [v]) xs))))))"

text \<open>\<open>max\<close> with a rank returns the first of equals; the ranks are distinct.\<close>

definition worst_state :: "task_state list \<Rightarrow> task_state" where
  "worst_state xs = hd (filter (\<lambda>x. \<forall>y \<in> set xs. state_rank y \<le> state_rank x) xs)"

definition aggregate_task_state :: "ledger_task list \<Rightarrow> string \<Rightarrow> string \<Rightarrow> derived_status_view" where
  "aggregate_task_state tasks envelope_id source =
     (let due_at = map lt_next_attempt_at (filter (\<lambda>t. lt_state t = T_PENDING) tasks) in
      \<lparr>iv_kind = lt_kind (hd tasks), iv_id = envelope_id, iv_source = source, iv_state = worst_state (map lt_state tasks), iv_children = length tasks,
       iv_attempts = sum_list (map lt_attempts tasks), iv_records = sum_list (map lt_derived_records tasks), iv_truncated = list_ex lt_derived_truncated tasks,
       iv_reason = joined_reasons (map lt_derived_reason tasks), iv_error = joined_reasons (map lt_last_error tasks),
       iv_next_attempt_at = (if due_at = [] then None else Some (Min (set due_at))), iv_updated_at = Max (set (map lt_updated_at tasks))\<rparr>)"

definition get_ingest_status :: "task_kind \<Rightarrow> string \<Rightarrow> string \<Rightarrow> ledger_row list \<Rightarrow> derived_status_view result" where
  "get_ingest_status kind envelope_id source rows =
     (let tasks = lineage kind source envelope_id rows in
      if tasks = [] then Inl (HTTPException 404) else Inr (aggregate_task_state tasks envelope_id source))"

end
