(* ===== verification/Defender_Ingest.thy ===== *)
theory Defender_Ingest
  imports Ingest_Pipeline
begin

text \<open>
  The Microsoft Defender routes of \<open>analyzer/api/ingest.py\<close>: alerts and incidents of Defender for Endpoint become alerts of the common store, and device snapshots of
  Defender Vulnerability Management become asset reports and detections. These routes do not use the ledger; a batch is recognised by its row in the raw store.
  The comparison with the stored batch is on every field.
\<close>

section \<open>Timestamps\<close>

text \<open>\<open>datetime.isoformat\<close> of a UTC instant: the proleptic Gregorian date, the time, the microseconds when there are any.\<close>

fun zero_pad :: "nat \<Rightarrow> int \<Rightarrow> string" where
  "zero_pad w n = (let s = nat_str (nat n) in replicate (w - length s) (CHR ''0'') @ s)"

definition civil_of_days :: "int \<Rightarrow> int \<times> int \<times> int" where
  "civil_of_days days =
     (let z = days + 719468; era = z div 146097; doe = z mod 146097;
          yoe = (doe - doe div 1460 + doe div 36524 - doe div 146096) div 365;
          doy = doe - (365 * yoe + yoe div 4 - yoe div 100);
          mp = (5 * doy + 2) div 153; d = doy - (153 * mp + 2) div 5 + 1;
          m = (if mp < 10 then mp + 3 else mp - 9) in
      (yoe + era * 400 + (if m \<le> 2 then 1 else 0), m, d))"

definition isoformat :: "datetime \<Rightarrow> string" where
  "isoformat t =
     (let micro = t mod 1000000; secs = t div 1000000; day = secs div 86400; r = secs mod 86400 in
      case civil_of_days day of (y, m, d) \<Rightarrow>
        zero_pad 4 y @ ''-'' @ zero_pad 2 m @ ''-'' @ zero_pad 2 d @ ''T'' @ zero_pad 2 (r div 3600) @ '':'' @ zero_pad 2 (r mod 3600 div 60) @ '':'' @ zero_pad 2 (r mod 60)
          @ (if micro = 0 then [] else ''.'' @ zero_pad 6 micro) @ ''+00:00'')"

section \<open>Defender for Endpoint\<close>

record mde_evidence =
  me_evidence_type :: string
  me_created_at :: "datetime option"
  me_verdict :: "string option"
  me_remediation_status :: "string option"
  me_roles :: "string list"
  me_summary :: "string option"
  me_mde_device_id :: "string option"
  me_azure_ad_device_id :: "string option"
  me_device_dns_name :: "string option"
  me_hostname :: "string option"
  me_os_platform :: "string option"
  me_os_build :: "string option"
  me_ip_addresses :: "string list"
  me_canonical_host_id :: "string option"

record mde_alert =
  md_alert_id :: string
  md_provider_alert_id :: "string option"
  md_incident_id :: "string option"
  md_title :: string
  md_description :: string
  md_severity :: severity
  md_provider_status :: string
  md_classification :: "string option"
  md_determination :: "string option"
  md_service_source :: "string option"
  md_product_name :: "string option"
  md_detection_source :: "string option"
  md_created_at :: datetime
  md_first_activity_at :: "datetime option"
  md_last_activity_at :: "datetime option"
  md_last_updated_at :: datetime
  md_resolved_at :: "datetime option"
  md_portal_url :: "string option"
  md_mitre_techniques :: "string list"
  md_related_asset_ids :: "string list"
  md_evidence :: "mde_evidence list"
  md_evidence_truncated :: bool

record mde_incident =
  mi_incident_id :: string
  mi_display_name :: string
  mi_description :: string
  mi_severity :: severity
  mi_provider_status :: string
  mi_classification :: "string option"
  mi_determination :: "string option"
  mi_created_at :: datetime
  mi_last_updated_at :: datetime
  mi_resolved_at :: "datetime option"
  mi_portal_url :: "string option"
  mi_alert_ids :: "string list"
  mi_related_asset_ids :: "string list"
  mi_relationships_truncated :: bool

record mde_security_batch =
  mb_batch_id :: string
  mb_collected_at :: datetime
  mb_tenant_id :: string
  mb_query_started_at :: datetime
  mb_alerts :: "mde_alert list"
  mb_incidents :: "mde_incident list"

fun MDE_SCORE :: "severity \<Rightarrow> rat" where
  "MDE_SCORE INFO = 15"
| "MDE_SCORE LOW = 40"
| "MDE_SCORE MEDIUM = 65"
| "MDE_SCORE HIGH = 85"
| "MDE_SCORE CRITICAL = 95"

definition NUL :: string where "NUL = [CHR 0x00]"

definition mde_identifier :: "(string \<Rightarrow> string) \<Rightarrow> string \<Rightarrow> string \<Rightarrow> string \<Rightarrow> string \<Rightarrow> string" where
  "mde_identifier sha256 kind tenant_id external_id version = ''mde-'' @ kind @ ''-'' @ sha256 (kind @ NUL @ tenant_id @ NUL @ external_id @ NUL @ version)"

definition mde_status :: "string \<Rightarrow> alert_status" where
  "mde_status provider_status = (if lower (strip provider_status) \<in> {''resolved'', ''redirected''} then CLOSED else OPEN)"

definition bounded_description :: "string list \<Rightarrow> string" where
  "bounded_description parts = take 4096 (join [CHR 0x0A] (filter (\<lambda>p. p \<noteq> []) parts))"

text \<open>\<open>if value: details.append(label + value)\<close>\<close>

definition detail :: "string \<Rightarrow> string option \<Rightarrow> string list" where
  "detail label v = (case truthy v of None \<Rightarrow> [] | Some x \<Rightarrow> [label @ x])"

definition mde_occurrence :: "string \<Rightarrow> string \<Rightarrow> severity \<Rightarrow> string \<Rightarrow> string \<Rightarrow> string \<Rightarrow> string list \<Rightarrow> bool \<Rightarrow> datetime \<Rightarrow> datetime \<Rightarrow> datetime \<Rightarrow> alert result" where
  "mde_occurrence alert_id alert_key sev provider_status title description assets truncated created updated seen =
     validate_alert \<lparr>al_alert_id = alert_id, al_alert_key = Some alert_key, al_severity = sev, al_status = mde_status provider_status, al_score = MDE_SCORE sev,
       al_title = take 4096 title, al_description = description, al_related_asset_ids = assets, al_related_vuln_ids = [], al_related_trace_ids = [],
       al_evidence_truncated = truncated, al_assignee = None, al_note = None, al_suppressed = False, al_occurrence_count = 1, al_last_seen = Some seen,
       al_created_at = created, al_updated_at = Some updated\<rparr>"

definition alert_from_mde_alert :: "(string \<Rightarrow> string) \<Rightarrow> string \<Rightarrow> mde_alert \<Rightarrow> alert result" where
  "alert_from_mde_alert sha256 tenant_id item =
     mde_occurrence (mde_identifier sha256 ''alert-occurrence'' tenant_id (md_alert_id item) (isoformat (md_last_updated_at item)))
       (mde_identifier sha256 ''alert'' tenant_id (md_alert_id item) []) (md_severity item) (md_provider_status item) (''[MDE] '' @ md_title item)
       (bounded_description ([md_description item, ''Microsoft Defender alert: '' @ md_alert_id item, ''Provider status: '' @ md_provider_status item]
          @ detail ''Classification: '' (md_classification item) @ detail ''Determination: '' (md_determination item)
          @ detail ''Source: '' (case truthy (md_product_name item) of Some p \<Rightarrow> Some p | None \<Rightarrow> md_service_source item)
          @ (if md_mitre_techniques item = [] then [] else [''MITRE ATT&CK: '' @ join '', '' (md_mitre_techniques item)])
          @ detail ''Microsoft portal: '' (md_portal_url item)))
       (md_related_asset_ids item) (md_evidence_truncated item) (md_created_at item) (md_last_updated_at item)
       (case md_last_activity_at item of Some t \<Rightarrow> t | None \<Rightarrow> md_last_updated_at item)"

definition alert_from_mde_incident :: "(string \<Rightarrow> string) \<Rightarrow> string \<Rightarrow> mde_incident \<Rightarrow> alert result" where
  "alert_from_mde_incident sha256 tenant_id item =
     mde_occurrence (mde_identifier sha256 ''incident-occurrence'' tenant_id (mi_incident_id item) (isoformat (mi_last_updated_at item)))
       (mde_identifier sha256 ''incident'' tenant_id (mi_incident_id item) []) (mi_severity item) (mi_provider_status item) (''[MDE Incident] '' @ mi_display_name item)
       (bounded_description ([mi_description item, ''Microsoft Defender incident: '' @ mi_incident_id item, ''Provider status: '' @ mi_provider_status item]
          @ detail ''Classification: '' (mi_classification item) @ detail ''Determination: '' (mi_determination item)
          @ (if mi_alert_ids item = [] then [] else [''Related provider alerts: '' @ join '', '' (mi_alert_ids item)])
          @ detail ''Microsoft portal: '' (mi_portal_url item)))
       (mi_related_asset_ids item) (mi_relationships_truncated item) (mi_created_at item) (mi_last_updated_at item) (mi_last_updated_at item)"

text \<open>\<open>for item in items: if not budget.append(store, build(item)): break\<close>\<close>

fun derive_loop :: "alert store_config \<Rightarrow> ('i \<Rightarrow> alert result) \<Rightarrow> (nat \<Rightarrow> disk) \<Rightarrow> nat \<Rightarrow> 'i list \<Rightarrow> derived_budget \<times> alert record_store
    \<Rightarrow> (derived_budget \<times> alert record_store) \<times> exn option" where
  "derive_loop c build disks i [] bs = (bs, None)"
| "derive_loop c build disks i (item # items) bs =
     (case build item of Inl e \<Rightarrow> (bs, Some e)
      | Inr a \<Rightarrow>
          (case budget_append c (\<lambda>a. Some (al_alert_id a)) (disks i) a bs of
             Inl e \<Rightarrow> (bs, Some e)
           | Inr (bs', False) \<Rightarrow> (bs', None)
           | Inr (bs', True) \<Rightarrow> derive_loop c build disks (Suc i) items bs'))"

definition store_mde_security_batch :: "(string \<Rightarrow> string) \<Rightarrow> mde_security_batch store_config \<Rightarrow> alert store_config \<Rightarrow> disk \<Rightarrow> (nat \<Rightarrow> disk) \<Rightarrow> bool \<Rightarrow> mde_security_batch
    \<Rightarrow> mde_security_batch record_store \<times> alert record_store \<Rightarrow> (mde_security_batch record_store \<times> alert record_store) \<times> derived_outcome result" where
  "store_mde_security_batch sha256 cm ca raw disks persist_raw batch stores =
     (case (if persist_raw then store_append cm raw batch (fst stores) else Inr (fst stores)) of
        Inl e \<Rightarrow> (stores, Inl e)
      | Inr mde \<Rightarrow>
          let ((b1, al1), err1) = derive_loop ca (alert_from_mde_alert sha256 (mb_tenant_id batch)) disks 0 (mb_alerts batch) (fresh_budget, snd stores) in
          (case err1 of Some e \<Rightarrow> ((mde, al1), Inl e)
           | None \<Rightarrow>
               if db_truncated b1 then ((mde, al1), Inr (budget_outcome b1 []))
               else
                 let ((b2, al2), err2) = derive_loop ca (alert_from_mde_incident sha256 (mb_tenant_id batch)) disks (length (mb_alerts batch)) (mb_incidents batch) (b1, al1) in
                 ((mde, al2), case err2 of Some e \<Rightarrow> Inl e | None \<Rightarrow> Inr (budget_outcome b2 []))))"

definition settle_ack :: "string \<Rightarrow> bool \<Rightarrow> derived_outcome result \<Rightarrow> ingest_ack result" where
  "settle_ack i duplicate res = make_ack i duplicate (case res of Inl e \<Rightarrow> failed_outcome e | Inr out \<Rightarrow> out)"

definition ingest_mde_security_batch :: "(string \<Rightarrow> string) \<Rightarrow> mde_security_batch store_config \<Rightarrow> alert store_config \<Rightarrow> disk \<Rightarrow> (nat \<Rightarrow> disk) \<Rightarrow> mde_security_batch
    \<Rightarrow> mde_security_batch record_store \<times> alert record_store \<Rightarrow> (mde_security_batch record_store \<times> alert record_store) \<times> ingest_ack result" where
  "ingest_mde_security_batch sha256 cm ca raw disks batch stores =
     (let existing = find_one cm ''batch_id'' (mb_batch_id batch) (fst stores) in
      if (case existing of None \<Rightarrow> False | Some stored \<Rightarrow> stored \<noteq> batch) then (stores, Inl (HTTPException 409))
      else let (stores', res) = store_mde_security_batch sha256 cm ca raw disks (existing = None) batch stores in
        (stores', settle_ack (mb_batch_id batch) (existing \<noteq> None) res))"

section \<open>Defender Vulnerability Management\<close>

record mdvm_vulnerability =
  mv_record_id :: string
  mv_cve_id :: string
  mv_software_vendor :: string
  mv_software_name :: string
  mv_software_version :: string
  mv_severity :: severity
  mv_cvss_score :: "rat option"
  mv_exploitability_level :: "string option"
  mv_recommended_security_update :: "string option"
  mv_recommended_security_update_id :: "string option"
  mv_recommended_security_update_url :: "string option"
  mv_recommendation_reference :: "string option"
  mv_security_update_available :: "bool option"
  mv_first_seen_at :: "datetime option"
  mv_last_seen_at :: "datetime option"
  mv_last_event_at :: "datetime option"
  mv_rbac_group_id :: "string option"
  mv_rbac_group_name :: "string option"
  mv_disk_paths :: "string list"
  mv_registry_paths :: "string list"
  mv_evidence_truncated :: bool

record mdvm_snapshot =
  ms_report_id :: string
  ms_device_id :: string
  ms_host_id :: string
  ms_device_name :: string
  ms_os_platform :: string
  ms_os_version :: "string option"
  ms_os_architecture :: "string option"
  ms_observed_at :: datetime
  ms_part_index :: nat
  ms_part_total :: nat
  ms_vulnerabilities :: "mdvm_vulnerability list"

datatype mdvm_mode = BASELINE | DELTA

record mdvm_vulnerability_batch =
  vb_batch_id :: string
  vb_collected_at :: datetime
  vb_tenant_id :: string
  vb_mode :: mdvm_mode
  vb_snapshots :: "mdvm_snapshot list"

definition MDVM_SOURCE :: string where "MDVM_SOURCE = ''microsoft-defender-vulnerability-management''"

definition mdvm_asset_id :: "(string \<Rightarrow> string) \<Rightarrow> mdvm_vulnerability \<Rightarrow> string" where
  "mdvm_asset_id sha256 item = ''mdvm-pkg-'' @ sha256 (mv_software_vendor item @ NUL @ mv_software_name item @ NUL @ mv_software_version item)"

definition mdvm_evidence :: "mdvm_vulnerability \<Rightarrow> string" where
  "mdvm_evidence item = take 4096 (join ''; ''
     ([mv_software_vendor item @ '' '' @ mv_software_name item @ '' '' @ mv_software_version item]
      @ detail ''exploitability='' (mv_exploitability_level item) @ detail ''update='' (mv_recommended_security_update item)
      @ detail ''update_id='' (mv_recommended_security_update_id item)
      @ (case mv_first_seen_at item of None \<Rightarrow> [] | Some t \<Rightarrow> [''first_seen='' @ isoformat t])
      @ (case mv_last_seen_at item of None \<Rightarrow> [] | Some t \<Rightarrow> [''last_seen='' @ isoformat t])
      @ (if mv_evidence_truncated item then [''provider_evidence_truncated=true''] else [])))"

definition mdvm_references :: "mdvm_vulnerability \<Rightarrow> string list" where
  "mdvm_references item = take 256 (fromkeys
     (detail [] (mv_recommended_security_update_url item) @ detail [] (mv_recommended_security_update_id item) @ detail [] (mv_recommendation_reference item)
      @ (if startswith (upper (mv_cve_id item)) ''CVE-'' then [''https://msrc.microsoft.com/update-guide/vulnerability/'' @ upper (mv_cve_id item)] else [])))"

definition valid_package :: "package \<Rightarrow> package result" where
  "valid_package p =
     rbind (valid_str (pk_asset_id p)) (\<lambda>i. rbind (valid_str (pk_name p)) (\<lambda>n. rbind (valid_str (pk_version p)) (\<lambda>v.
       Inr (p\<lparr>pk_asset_id := i, pk_name := n, pk_version := v\<rparr>))))"

definition mdvm_package :: "(string \<Rightarrow> string) \<Rightarrow> mdvm_vulnerability \<Rightarrow> package result" where
  "mdvm_package sha256 item = valid_package \<lparr>pk_asset_id = mdvm_asset_id sha256 item, pk_parent_asset_id = None, pk_name = mv_software_vendor item @ ''/'' @ mv_software_name item,
     pk_version = mv_software_version item, pk_source = Some ''mdvm'', pk_source_name = None, pk_source_version = None, pk_ecosystem = None\<rparr>"

definition mdvm_finding :: "(string \<Rightarrow> string) \<Rightarrow> mdvm_vulnerability \<Rightarrow> vuln result" where
  "mdvm_finding sha256 item = valid_vuln \<lparr>vu_vuln_id = mv_cve_id item, vu_severity = mv_severity item, vn_cvss_score = mv_cvss_score item,
     vn_affected_asset_id = mdvm_asset_id sha256 item, vn_parent_asset_id = None, vn_source = MDVM_SOURCE, vn_evidence = Some (mdvm_evidence item), vn_references = mdvm_references item\<rparr>"

text \<open>The package of an item is built before \<open>setdefault\<close> drops it, so an invalid one fails even when its identifier is known.\<close>

fun mdvm_items :: "(string \<Rightarrow> string) \<Rightarrow> mdvm_vulnerability list \<Rightarrow> (string \<times> package) list \<times> vuln list \<Rightarrow> ((string \<times> package) list \<times> vuln list) result" where
  "mdvm_items sha256 [] acc = Inr acc"
| "mdvm_items sha256 (item # items) acc =
     rbind (mdvm_package sha256 item) (\<lambda>p. rbind (mdvm_finding sha256 item) (\<lambda>f.
       mdvm_items sha256 items (dict_setdefault (mdvm_asset_id sha256 item) p (fst acc), snd acc @ [f])))"

definition derive_mdvm_snapshot :: "(string \<Rightarrow> string) \<Rightarrow> mdvm_snapshot \<Rightarrow> (asset_report \<times> detection_record) result" where
  "derive_mdvm_snapshot sha256 snap =
     rbind (mdvm_items sha256 (ms_vulnerabilities snap) ([], [])) (\<lambda>(packages, findings).
       let os_name = join '' '' (filter (\<lambda>v. v \<noteq> []) [ms_os_platform snap, case ms_os_version snap of None \<Rightarrow> [] | Some v \<Rightarrow> v]);
           package_rows = map snd packages in
       rbind (valid_str (if os_name = [] then ''Microsoft Defender managed device'' else os_name)) (\<lambda>os.
       rbind (valid_coverage \<lparr>dc_detector = DEFENDER, dc_ecosystem = Some ''mdvm'', dc_status = CS_COMPLETE, dc_scanned_count = length package_rows, dc_skipped_count = 0,
           dc_finding_count = length findings, dc_reason = None\<rparr>) (\<lambda>row.
       rbind (valid_detection \<lparr>dx_report_id = ms_report_id snap, dx_host_id = ms_host_id snap, dx_collected_at = ms_observed_at snap, dx_ecosystem = ''MicrosoftDefenderVM'',
           dx_vulnerabilities = findings, dx_status = DS_COMPLETE, dx_status_reason = None, dx_scanned_package_count = length package_rows, dx_unresolved_package_count = 0,
           dx_uncovered_package_count = 0, dx_truncated = False, dx_truncation_reason = None, dx_coverage = [row]\<rparr>) (\<lambda>detection.
         Inr (\<lparr>ar_report_id = ms_report_id snap, ar_collected_at = ms_observed_at snap, ar_source_agent_id = None, ar_host_id = ms_host_id snap, ar_host_os = os, ar_host_ips = [],
           ar_assets = map Package package_rows, ar_vulnerabilities = findings,
           ar_detector_runs = Some [\<lparr>run_detector = DEFENDER, run_status = RunComplete, run_finding_count = length findings, run_reason = Some ''mdvm_cloud_snapshot''\<rparr>]\<rparr>, detection)))))"

type_synonym mdvm_stores = "asset_report record_store \<times> detection_record record_store"

text \<open>\<open>if store.find_one("report_id", id) is None: store.append(record); records += 1\<close>\<close>

definition append_once :: "'p store_config \<Rightarrow> disk \<Rightarrow> string \<Rightarrow> 'p \<Rightarrow> nat \<times> 'p record_store \<Rightarrow> (nat \<times> 'p record_store) result" where
  "append_once c d i p ns =
     (if find_one c ''report_id'' i (snd ns) = None then rbind (store_append c d p (snd ns)) (\<lambda>s. Inr (fst ns + 1, s)) else Inr ns)"

fun mdvm_loop :: "(string \<Rightarrow> string) \<Rightarrow> asset_report store_config \<Rightarrow> detection_record store_config \<Rightarrow> (nat \<Rightarrow> disk) \<Rightarrow> nat \<Rightarrow> mdvm_snapshot list \<Rightarrow> nat \<Rightarrow> mdvm_stores
    \<Rightarrow> mdvm_stores \<times> nat result" where
  "mdvm_loop sha256 cr cd disks i [] n stores = (stores, Inr n)"
| "mdvm_loop sha256 cr cd disks i (snap # snaps) n stores =
     (case derive_mdvm_snapshot sha256 snap of Inl e \<Rightarrow> (stores, Inl e)
      | Inr (report, detection) \<Rightarrow>
          (case append_once cr (disks i) (ar_report_id report) report (n, fst stores) of Inl e \<Rightarrow> (stores, Inl e)
           | Inr (n1, reports) \<Rightarrow>
               (case append_once cd (disks (Suc i)) (dx_report_id detection) detection (n1, snd stores) of Inl e \<Rightarrow> ((reports, snd stores), Inl e)
                | Inr (n2, detections) \<Rightarrow> mdvm_loop sha256 cr cd disks (i + 2) snaps n2 (reports, detections))))"

definition ingest_mdvm_vulnerability_batch :: "(string \<Rightarrow> string) \<Rightarrow> mdvm_vulnerability_batch store_config \<Rightarrow> asset_report store_config \<Rightarrow> detection_record store_config \<Rightarrow> disk \<Rightarrow> (nat \<Rightarrow> disk)
    \<Rightarrow> mdvm_vulnerability_batch \<Rightarrow> mdvm_vulnerability_batch record_store \<times> mdvm_stores \<Rightarrow> (mdvm_vulnerability_batch record_store \<times> mdvm_stores) \<times> ingest_ack result" where
  "ingest_mdvm_vulnerability_batch sha256 cv cr cd raw disks batch stores =
     (let existing = find_one cv ''batch_id'' (vb_batch_id batch) (fst stores) in
      if (case existing of None \<Rightarrow> False | Some stored \<Rightarrow> stored \<noteq> batch) then (stores, Inl (HTTPException 409))
      else
        case (if existing = None then store_append cv raw batch (fst stores) else Inr (fst stores)) of
          Inl e \<Rightarrow> (stores, settle_ack (vb_batch_id batch) (existing \<noteq> None) (Inl e))
        | Inr mdvm \<Rightarrow>
            let (derived, res) = mdvm_loop sha256 cr cd disks 0 (vb_snapshots batch) 0 (snd stores) in
            ((mdvm, derived), settle_ack (vb_batch_id batch) (existing \<noteq> None)
               (rbind res (\<lambda>n. Inr \<lparr>do_status = R_COMPLETE, do_records = int n, do_truncated = False, do_reason = None\<rparr>))))"

end
