(* ===== verification/Budget_Laws.thy ===== *)
theory Budget_Laws
  imports Derived_Budget Store_Properties
begin

text \<open>
  Laws of the derived-record budget: what one \<open>budget.append\<close> does to the store, and from it what a whole persist loop does. Identifiers stay unique, the
  budget stays within its ceilings, and while the store has room for one more budget retention removes nothing, so every persisted record is there.
\<close>

section \<open>Identifiers\<close>

definition row_ids :: "('p \<Rightarrow> string) \<Rightarrow> 'p record_store \<Rightarrow> string list" where
  "row_ids uid s = map (\<lambda>r. uid (s_payload r)) (s_rows s)"

text \<open>The column \<open>find_one\<close> reads is the identifier, as \<open>json_extract\<close> on the serialised model gives it.\<close>

definition id_column :: "'p store_config \<Rightarrow> ('p \<Rightarrow> string) \<Rightarrow> bool" where
  "id_column c uid = (\<forall>p. st_field c ''alert_id'' p = Some (uid p))"

definition budget_ok :: "derived_budget \<Rightarrow> bool" where
  "budget_ok b = (db_records b \<le> MAX_DERIVED_RECORDS_PER_INGEST \<and> db_bytes b \<le> MAX_DERIVED_BYTES_PER_INGEST)"

lemma fresh_budget_ok [simp]: "budget_ok fresh_budget"
  by (simp add: budget_ok_def fresh_budget_def)

lemma budget_ok_flags [simp]: "budget_ok (b\<lparr>db_truncated := x, db_truncation_reason := y\<rparr>) = budget_ok b"
  by (simp add: budget_ok_def)

lemma alert_id_field: "FIELD_RE ''alert_id''"
  by code_simp

lemma order_desc_empty: "first_row (order_desc_limit key 1 xs) = None \<longleftrightarrow> xs = []"
  using set_sort [of key xs] by (cases "rev (sort_key key xs)") (auto simp: first_row_def order_desc_limit_def simp del: set_sort)

lemma find_id: "id_column c uid \<Longrightarrow> find_one c ''alert_id'' i s = None \<longleftrightarrow> i \<notin> set (row_ids uid s)"
  using alert_id_field order_desc_empty [of s_id "filter (\<lambda>r. uid (s_payload r) = i) (s_rows s)"]
  by (auto simp: find_one_def id_column_def row_ids_def filter_empty_conv)

lemma id_found: "id_column c uid \<Longrightarrow> i \<in> set (row_ids uid s) \<Longrightarrow> \<exists>p. find_one c ''alert_id'' i s = Some p"
  using find_id [of c uid i s] by (cases "find_one c ''alert_id'' i s") auto

section \<open>One append\<close>

text \<open>The store has room for what is left of the budget.\<close>

definition budget_room :: "'p store_config \<Rightarrow> derived_budget \<Rightarrow> 'p record_store \<Rightarrow> bool" where
  "budget_room c b s =
     ((st_max_rows c = 0 \<or> s_row_count s + (MAX_DERIVED_RECORDS_PER_INGEST - db_records b) \<le> st_max_rows c)
      \<and> (st_max_table_bytes c = 0 \<or> s_total_bytes s + (MAX_DERIVED_BYTES_PER_INGEST - db_bytes b) \<le> st_max_table_bytes c))"

text \<open>The four ways one \<open>budget.append\<close> ends.\<close>

lemma budget_append_cases [consumes 1, case_names known full refused stored]:
  assumes "id_column c uid"
  obtains (known) "uid p \<in> set (row_ids uid s)" "budget_append c (\<lambda>p. Some (uid p)) d p (b, s) = Inr ((b, s), True)"
  | (full) r where "budget_append c (\<lambda>p. Some (uid p)) d p (b, s) = Inr ((b\<lparr>db_truncated := True, db_truncation_reason := r\<rparr>, s), False)"
  | (refused) e where "budget_append c (\<lambda>p. Some (uid p)) d p (b, s) = Inl e"
  | (stored) s' where "uid p \<notin> set (row_ids uid s)" "db_records b < MAX_DERIVED_RECORDS_PER_INGEST" "db_bytes b + st_size c p \<le> MAX_DERIVED_BYTES_PER_INGEST"
      "store_append c d p s = Inr s'"
      "budget_append c (\<lambda>p. Some (uid p)) d p (b, s) = Inr ((b\<lparr>db_records := db_records b + 1, db_bytes := db_bytes b + st_size c p\<rparr>, s'), True)"
proof (cases "uid p \<in> set (row_ids uid s)")
  case True
  with known id_found [OF assms True] show ?thesis by (auto simp: budget_append_def)
next
  case new: False
  then have none: "find_one c ''alert_id'' (uid p) s = None" using find_id [OF assms] by blast
  show ?thesis
  proof (cases "MAX_DERIVED_RECORDS_PER_INGEST \<le> db_records b \<or> MAX_DERIVED_BYTES_PER_INGEST < db_bytes b + st_size c p")
    case True
    with full none show ?thesis by (simp add: budget_append_def Let_def)
  next
    case False
    with refused stored new none show ?thesis by (cases "store_append c d p s") (auto simp: budget_append_def Let_def rbind_def)
  qed
qed

lemma store_append_rows:
  assumes "store_ok c s" "store_append c d p s = Inr s'"
  shows "store_ok c s'" "\<exists>k. row_ids uid s' = drop k (row_ids uid s) @ [uid p]"
proof -
  obtain u k f where ap: "append_record c u k f p s = Inr s'" using assms(2) by (auto simp: store_append_def split: prod.splits)
  show "store_ok c s'" using append_spec(1) [OF assms(1) ap] .
  show "\<exists>k. row_ids uid s' = drop k (row_ids uid s) @ [uid p]" using append_spec(3) [OF assms(1) ap] by (auto simp: row_ids_def drop_map)
qed

lemma store_append_room:
  assumes "store_append c d p s = Inr s'" "budget_room c b s" "db_records b < MAX_DERIVED_RECORDS_PER_INGEST" "db_bytes b + st_size c p \<le> MAX_DERIVED_BYTES_PER_INGEST"
  shows "s' = insert_record p (st_size c p) s" "budget_room c (b\<lparr>db_records := db_records b + 1, db_bytes := db_bytes b + st_size c p\<rparr>) s'"
proof -
  have "prune_for_insert c (st_size c p) s = s" using assms(2-4) by (auto simp: prune_for_insert_def budget_room_def Let_def)
  then show s': "s' = insert_record p (st_size c p) s" using assms(1) by (auto simp: store_append_def append_record_def Let_def split: prod.splits if_splits)
  show "budget_room c (b\<lparr>db_records := db_records b + 1, db_bytes := db_bytes b + st_size c p\<rparr>) s'"
    using assms(2-4) by (auto simp: s' budget_room_def insert_record_def)
qed

section \<open>The persist loop\<close>

lemma persist_invariant:
  assumes "id_column c uid" "persist_loop c (\<lambda>p. Some (uid p)) disks i as (b, s) acc = ((b', s'), persisted, err)"
    "store_ok c s" "distinct (row_ids uid s)" "budget_ok b"
  shows "store_ok c s' \<and> distinct (row_ids uid s') \<and> budget_ok b'"
  using assms(2-5)
proof (induction as arbitrary: i b s acc)
  case (Cons a as)
  show ?case
    using assms(1)
  proof (cases rule: budget_append_cases [where p = a and s = s and d = "disks i" and b = b])
    case (stored s1)
    obtain k where k: "row_ids uid s1 = drop k (row_ids uid s) @ [uid a]" using store_append_rows(2) [OF Cons.prems(2) stored(4)] by blast
    have "distinct (row_ids uid s1)" using Cons.prems(3) stored(1) unfolding k by (auto dest: in_set_dropD)
    moreover have "budget_ok (b\<lparr>db_records := db_records b + 1, db_bytes := db_bytes b + st_size c a\<rparr>)" using stored(2,3) by (simp add: budget_ok_def)
    ultimately show ?thesis using Cons.IH Cons.prems(1) store_append_rows(1) [OF Cons.prems(2) stored(4)] stored(5) by simp
  qed (use Cons in auto)
qed simp

lemma persist_room:
  assumes "id_column c uid" "persist_loop c (\<lambda>p. Some (uid p)) disks i as (b, s) acc = ((b', s'), persisted, err)"
    "budget_room c b s" "budget_ok b"
  shows "(\<exists>new. s_rows s' = s_rows s @ new \<and> db_records b' = db_records b + length new) \<and> budget_room c b' s' \<and> budget_ok b'
    \<and> (\<exists>k. persisted = acc @ take k as \<and> (\<forall>a \<in> set (take k as). uid a \<in> set (row_ids uid s')) \<and> (err = None \<and> \<not> db_truncated b' \<longrightarrow> length as \<le> k))
    \<and> (db_truncated b \<longrightarrow> db_truncated b')"
  using assms(2-4)
proof (induction as arbitrary: i b s acc)
  case (Cons a as)
  show ?case
    using assms(1)
  proof (cases rule: budget_append_cases [where p = a and s = s and d = "disks i" and b = b])
    case known
    then have run: "persist_loop c (\<lambda>p. Some (uid p)) disks (Suc i) as (b, s) (acc @ [a]) = ((b', s'), persisted, err)" using Cons.prems(1) by simp
    from Cons.IH [OF run Cons.prems(2,3)] obtain new k where IH: "s_rows s' = s_rows s @ new" "db_records b' = db_records b + length new" "budget_room c b' s'" "budget_ok b'"
      "persisted = (acc @ [a]) @ take k as" "\<forall>a \<in> set (take k as). uid a \<in> set (row_ids uid s')" "err = None \<and> \<not> db_truncated b' \<longrightarrow> length as \<le> k" "db_truncated b \<longrightarrow> db_truncated b'"
      by blast
    have "uid a \<in> set (row_ids uid s')" using known(1) IH(1) by (simp add: row_ids_def)
    then show ?thesis using IH by (intro conjI exI [of _ new] exI [of _ "Suc k"]) auto
  next
    case (full r)
    then show ?thesis using Cons.prems by (auto simp: budget_room_def intro!: exI [of _ 0])
  next
    case (refused e)
    then show ?thesis using Cons.prems by (auto intro!: exI [of _ 0])
  next
    case (stored s1)
    let ?b = "b\<lparr>db_records := db_records b + 1, db_bytes := db_bytes b + st_size c a\<rparr>"
    note room = store_append_room [OF stored(4) Cons.prems(2) stored(2,3)]
    have run: "persist_loop c (\<lambda>p. Some (uid p)) disks (Suc i) as (?b, s1) (acc @ [a]) = ((b', s'), persisted, err)" using Cons.prems(1) stored(5) by simp
    have ok: "budget_ok ?b" using stored(2,3) by (simp add: budget_ok_def)
    from Cons.IH [OF run room(2) ok] obtain new k where IH: "s_rows s' = s_rows s1 @ new" "db_records b' = db_records ?b + length new" "budget_room c b' s'" "budget_ok b'"
      "persisted = (acc @ [a]) @ take k as" "\<forall>a \<in> set (take k as). uid a \<in> set (row_ids uid s')" "err = None \<and> \<not> db_truncated b' \<longrightarrow> length as \<le> k" "db_truncated ?b \<longrightarrow> db_truncated b'"
      by blast
    obtain row where row: "s_rows s1 = s_rows s @ [row]" "s_payload row = a" by (simp add: room(1) insert_record_def)
    have "uid a \<in> set (row_ids uid s')" using IH(1) row by (simp add: row_ids_def)
    then show ?thesis using IH row by (intro conjI exI [of _ "row # new"] exI [of _ "Suc k"]) auto
  qed
qed (auto intro: exI [of _ 0])

end
