(* ===== verification/Ingest_Properties.thy ===== *)
theory Ingest_Properties
  imports Ingest_Pipeline Budget_Laws Ledger_Properties Correlate_Properties
begin

text \<open>
  Properties of the ingest pipeline as a whole: alert identifiers stay unique through every sequence of requests and worker rounds, an acknowledgement means that the
  envelope and, when complete, all its alerts are stored, and an acknowledged envelope is answered again without being processed.
\<close>

section \<open>Alerts\<close>

definition alerts_ok :: "'ver app_config \<Rightarrow> app_state \<Rightarrow> bool" where
  "alerts_ok c s = (store_ok (ac_alerts c) (ap_alerts s) \<and> distinct (row_ids al_alert_id (ap_alerts s)))"

lemma alerts_ok_other [simp]:
  "alerts_ok c (s\<lparr>ap_traces := t\<rparr>) = alerts_ok c s" "alerts_ok c (s\<lparr>ap_guards := g\<rparr>) = alerts_ok c s" "alerts_ok c (s\<lparr>ap_reports := r\<rparr>) = alerts_ok c s"
  "alerts_ok c (s\<lparr>ap_detections := d\<rparr>) = alerts_ok c s"
  by (simp_all add: alerts_ok_def)

lemma budget_ok_seed [simp]: "budget_ok (if x then b\<lparr>db_truncated := True, db_truncation_reason := r\<rparr> else b) = budget_ok b"
  by simp

text \<open>What correlation does: nothing, one persist loop, or two in a row.\<close>

lemma correlate_with_cases [case_names failed base cross]:
  fixes c :: "'ver app_config"
  obtains e where "base = Inl e" "correlate_with c disks base cross br cr s = (s, Inr \<lparr>do_status = R_FAILED, do_records = 0, do_truncated = False, do_reason = Some br\<rparr>)"
  | alerts ls b1 al1 persisted err res b0 where "base = Inr (alerts, ls)"
      "b0 = (if limit_truncated ls then fresh_budget\<lparr>db_truncated := True, db_truncation_reason := limit_reason ls\<rparr> else fresh_budget)"
      "persist_loop (ac_alerts c) (\<lambda>a. Some (al_alert_id a)) disks 0 alerts (b0, ap_alerts s) [] = ((b1, al1), persisted, err)"
      "correlate_with c disks base cross br cr s = (s\<lparr>ap_alerts := al1\<rparr>, res)" "res = Inl (the err) \<or> res = Inr (budget_outcome b1 [cr])"
  | alerts ls b1 al1 persisted extra ls2 b2 b3 al3 p3 err3 res r b0 where "base = Inr (alerts, ls)"
      "b0 = (if limit_truncated ls then fresh_budget\<lparr>db_truncated := True, db_truncation_reason := limit_reason ls\<rparr> else fresh_budget)"
      "persist_loop (ac_alerts c) (\<lambda>a. Some (al_alert_id a)) disks 0 alerts (b0, ap_alerts s) [] = ((b1, al1), persisted, None)"
      "cross persisted ls = Inr (extra, ls2)" "b2 = (if limit_truncated ls2 then b1\<lparr>db_truncated := True, db_truncation_reason := r\<rparr> else b1)"
      "persist_loop (ac_alerts c) (\<lambda>a. Some (al_alert_id a)) disks (length alerts) extra (b2, al1) [] = ((b3, al3), p3, err3)"
      "correlate_with c disks base cross br cr s = (s\<lparr>ap_alerts := al3\<rparr>, res)" "res = (case err3 of Some e \<Rightarrow> Inl e | None \<Rightarrow> Inr (budget_outcome b3 []))"
proof (cases base)
  case (Inl e)
  then show thesis using that(1) by (simp add: correlate_with_def)
next
  case (Inr x)
  obtain alerts ls where x: "x = (alerts, ls)" by (cases x)
  define b0 where b0: "b0 = (if limit_truncated ls then fresh_budget\<lparr>db_truncated := True, db_truncation_reason := limit_reason ls\<rparr> else fresh_budget)"
  obtain b1 al1 persisted err where run: "persist_loop (ac_alerts c) (\<lambda>a. Some (al_alert_id a)) disks 0 alerts (b0, ap_alerts s) [] = ((b1, al1), persisted, err)"
    by (metis prod.collapse)
  note base = Inr [unfolded x]
  note eq = correlate_with_def [of c disks base cross br cr s] base run [unfolded b0]
  show thesis
  proof (cases err)
    case (Some e)
    then show thesis using eq by (intro that(2) [OF base b0 run, of "Inl e"]) (simp_all add: Let_def)
  next
    case None
    show thesis
    proof (cases "cross persisted ls")
      case (Inl e)
      then show thesis using eq None by (intro that(2) [OF base b0 run, of "Inr (budget_outcome b1 [cr])"]) (simp_all add: Let_def)
    next
      case (Inr y)
      obtain extra ls2 where y: "y = (extra, ls2)" by (cases y)
      define r where "r = (case truthy (db_truncation_reason b1) of Some r \<Rightarrow> Some r | None \<Rightarrow> limit_reason ls2)"
      define b2 where b2: "b2 = (if limit_truncated ls2 then b1\<lparr>db_truncated := True, db_truncation_reason := r\<rparr> else b1)"
      obtain b3 al3 p3 err3 where run2: "persist_loop (ac_alerts c) (\<lambda>a. Some (al_alert_id a)) disks (length alerts) extra (b2, al1) [] = ((b3, al3), p3, err3)"
        by (metis prod.collapse)
      show thesis
        using eq None Inr [unfolded y] run2 [unfolded b2 r_def]
        by (intro that(3) [OF base b0 run [unfolded None] Inr [unfolded y] b2 run2]) (simp_all add: Let_def)
    qed
  qed
qed

lemma correlate_with_ok:
  assumes "id_column (ac_alerts c) al_alert_id" "alerts_ok c s"
  shows "alerts_ok c (fst (correlate_with c disks base cross br cr s))"
proof (cases rule: correlate_with_cases [where c = c and disks = disks and base = base and cross = cross and br = br and cr = cr and s = s])
  case failed
  then show ?thesis using assms(2) by simp
next
  case (base alerts ls b1 al1 persisted err res b0)
  then show ?thesis using persist_invariant [OF assms(1) base(3)] assms(2) by (simp add: alerts_ok_def)
next
  case (cross alerts ls b1 al1 persisted extra ls2 b2 b3 al3 p3 err3 res r b0)
  have "store_ok (ac_alerts c) al1 \<and> distinct (row_ids al_alert_id al1) \<and> budget_ok b1"
    using persist_invariant [OF assms(1) cross(3)] assms(2) cross(2) by (simp add: alerts_ok_def)
  then show ?thesis using persist_invariant [OF assms(1) cross(6)] cross(5,7) by (simp add: alerts_ok_def)
qed

text \<open>With room for one budget, correlation only adds rows, at most a budget of them, and reports their number; a complete outcome covers every alert.\<close>

lemma correlate_with_stored:
  assumes "id_column (ac_alerts c) al_alert_id" "budget_room (ac_alerts c) fresh_budget (ap_alerts s)" "cr \<noteq> []"
    "correlate_with c disks base cross br cr s = (s', Inr out)" "do_status out \<noteq> R_FAILED"
  shows "\<exists>new. s_rows (ap_alerts s') = s_rows (ap_alerts s) @ new \<and> do_records out = int (length new) \<and> length new \<le> MAX_DERIVED_RECORDS_PER_INGEST
    \<and> (do_status out = R_COMPLETE \<longrightarrow> (\<exists>alerts ls extra ls2. base = Inr (alerts, ls) \<and> \<not> limit_truncated ls \<and> cross alerts ls = Inr (extra, ls2) \<and> \<not> limit_truncated ls2
        \<and> (\<forall>a \<in> set (alerts @ extra). al_alert_id a \<in> set (row_ids al_alert_id (ap_alerts s')))))"
proof (cases rule: correlate_with_cases [where c = c and disks = disks and base = base and cross = cross and br = br and cr = cr and s = s])
  case failed
  then show ?thesis using assms(4,5) by auto
next
  case (base alerts ls b1 al1 persisted err res b0)
  have b0: "budget_room (ac_alerts c) b0 (ap_alerts s)" "budget_ok b0" "db_records b0 = 0" using assms(2) base(2) by (simp_all add: budget_room_def fresh_budget_def budget_ok_def)
  have out: "out = budget_outcome b1 [cr]" "ap_alerts s' = al1" using base(4,5) assms(4) by auto
  from persist_room [OF assms(1) base(3) b0(1,2)] obtain new where "s_rows al1 = s_rows (ap_alerts s) @ new" "db_records b1 = db_records b0 + length new" "budget_ok b1" by blast
  then show ?thesis using out b0(3) assms(3) by (intro exI [of _ new]) (simp add: budget_outcome_def truthy_def budget_ok_def)
next
  case (cross alerts ls b1 al1 persisted extra ls2 b2 b3 al3 p3 err3 res r b0)
  have b0: "budget_room (ac_alerts c) b0 (ap_alerts s)" "budget_ok b0" "db_records b0 = 0" "limit_truncated ls \<longrightarrow> db_truncated b0"
    using assms(2) cross(2) by (simp_all add: budget_room_def fresh_budget_def budget_ok_def)
  from persist_room [OF assms(1) cross(3) b0(1,2)] obtain new k where one: "s_rows al1 = s_rows (ap_alerts s) @ new" "db_records b1 = db_records b0 + length new" "budget_room (ac_alerts c) b1 al1"
    "budget_ok b1" "persisted = take k alerts" "\<forall>a \<in> set (take k alerts). al_alert_id a \<in> set (row_ids al_alert_id al1)" "\<not> db_truncated b1 \<longrightarrow> length alerts \<le> k"
    "db_truncated b0 \<longrightarrow> db_truncated b1" by auto
  have b2: "budget_room (ac_alerts c) b2 al1" "budget_ok b2" "db_records b2 = db_records b1" "limit_truncated ls2 \<or> db_truncated b1 \<longrightarrow> db_truncated b2"
    using one(3,4) cross(5) by (simp_all add: budget_room_def)
  from persist_room [OF assms(1) cross(6) b2(1,2)] obtain new' k' where two: "s_rows al3 = s_rows al1 @ new'" "db_records b3 = db_records b2 + length new'" "budget_ok b3"
    "\<forall>a \<in> set (take k' extra). al_alert_id a \<in> set (row_ids al_alert_id al3)" "err3 = None \<and> \<not> db_truncated b3 \<longrightarrow> length extra \<le> k'" "db_truncated b2 \<longrightarrow> db_truncated b3" by blast
  have out: "err3 = None" "out = budget_outcome b3 []" "ap_alerts s' = al3" using cross(7,8) assms(4) by (auto split: option.splits)
  have whole: "\<not> limit_truncated ls \<and> \<not> limit_truncated ls2 \<and> persisted = alerts \<and> (\<forall>a \<in> set (alerts @ extra). al_alert_id a \<in> set (row_ids al_alert_id al3))"
    if "do_status out = R_COMPLETE"
  proof -
    have "\<not> db_truncated b3" using that out(2) by (auto simp: budget_outcome_def Let_def split: if_splits)
    then show ?thesis using one two b0(4) b2(4) out(1) by (auto simp: row_ids_def)
  qed
  show ?thesis
    using one(1,2) two(1-3) b0(3) b2(3) out whole cross(1,4)
    by (intro exI [of _ "new @ new'"]) (auto simp: budget_outcome_def budget_ok_def Let_def)
qed

lemma absorb_fst [simp]: "fst (absorb x) = fst x"
  by (simp add: absorb_def)

lemma process_ok:
  assumes "id_column (ac_alerts c) al_alert_id" "alerts_ok c s"
  shows "alerts_ok c (fst (process_ingest_task c n1 n2 raw disks task s))"
  using correlate_with_ok [OF assms(1)] assms(2)
  by (auto simp: process_ingest_task_def store_trace_batch_def store_guard_batch_def correlate_ingest_def correlate_guard_ingest_def Let_def
      split: task_kind.splits option.splits sum.splits prod.splits)

section \<open>The ledger through the pipeline\<close>

lemma retry_ledger_ok: "ledger_ok rows \<Longrightarrow> ledger_ok (fst (retry_task now key token reason d rows))"
  by (simp add: retry_task_def ledger_ok_upd)

lemma complete_ledger_ok: "ledger_ok rows \<Longrightarrow> ledger_ok (fst (complete_task c now key token st n b r rows))"
  by (simp add: complete_task_def Let_def ledger_ok_upd finish_row_def ledger_ok_prune)

lemma settle_ok: "ledger_ok rows \<Longrightarrow> ledger_ok (fst (settle_task c wc now task res rows))"
  by (auto simp: settle_task_def Let_def retry_ledger_ok complete_ledger_ok split: sum.splits run_status.splits)

lemma run_inline_ok:
  assumes "ledger_ok rows"
  shows "ledger_ok (fst (run_inline c w task rows s))"
    "fst (snd (run_inline c w task rows s)) = fst (process_ingest_task c (fst (w_clock w)) (snd (w_clock w)) (w_raw w) (w_disks w) task s)"
  using retry_ledger_ok [OF assms] complete_ledger_ok [OF assms] by (auto simp: run_inline_def Let_def split: sum.splits prod.splits) (metis fst_conv)+

text \<open>A run of the service: requests and worker rounds in any order.\<close>

datatype ingest_event = Request world string task_kind string string | Round worker_config world

fun serve :: "'ver app_config \<Rightarrow> ingest_event \<Rightarrow> ledger_row list \<times> app_state \<Rightarrow> ledger_row list \<times> app_state" where
  "serve c (Request w key kind envelope_id payload) (rows, s) =
     (fst (ingest_envelope c w key kind envelope_id payload rows s), fst (snd (ingest_envelope c w key kind envelope_id payload rows s)))"
| "serve c (Round wc w) (rows, s) = work_once c wc w rows s"

lemma claim_ok: "ledger_ok rows \<Longrightarrow> ledger_ok (fst (claim_task key now lease token rows))" "ledger_ok rows \<Longrightarrow> ledger_ok (fst (claim_next_task now lease token rows))"
  using claim_quiet by (simp_all add: claim_task_def claim_next_task_def)

lemma ingest_ok:
  assumes "id_column (ac_alerts c) al_alert_id" "ledger_ok rows" "alerts_ok c s"
  shows "ledger_ok (fst (ingest_envelope c w key kind eid payload rows s)) \<and> alerts_ok c (fst (snd (ingest_envelope c w key kind eid payload rows s)))"
proof (cases "submit (ac_ledger c) (w_used w) (w_now w) key kind eid payload rows")
  case (Inl e)
  then show ?thesis using assms by (simp add: ingest_envelope_def)
next
  case (Inr x)
  obtain rows1 task created where x: "x = (rows1, task, created)" by (cases x)
  have ok1: "ledger_ok rows1" using submit_sim [OF assms(2)] Inr x by blast
  obtain rows2 claimed where claim: "claim_task key (w_claim w) (ac_lease_seconds c) (w_token w) rows1 = (rows2, claimed)" by fastforce
  then have ok2: "ledger_ok rows2" using claim_ok(1) [OF ok1] by (metis fst_conv)
  note eq = ingest_envelope_def [of c w key kind eid payload rows s] Inr x
  show ?thesis
  proof (cases "task_outcome task = None \<and> \<not> ac_async c")
    case True
    show ?thesis
    proof (cases claimed)
      case None
      then show ?thesis using eq claim True ok2 assms(3) by simp
    next
      case (Some t)
      then have "ingest_envelope c w key kind eid payload rows s = run_inline c w t rows2 s" using eq claim True by simp
      then show ?thesis using run_inline_ok [OF ok2, of c w t s] process_ok [OF assms(1,3)] by simp
    qed
  next
    case False
    then show ?thesis using eq ok1 assms(3) by (cases "task_outcome task") simp_all
  qed
qed

lemma work_ok:
  assumes "id_column (ac_alerts c) al_alert_id" "ledger_ok rows" "alerts_ok c s"
  shows "ledger_ok (fst (work_once c wc w rows s)) \<and> alerts_ok c (snd (work_once c wc w rows s))"
proof -
  obtain rows1 claimed where claim: "claim_next_task (w_claim w) (wc_lease_seconds wc) (w_token w) rows = (rows1, claimed)" by fastforce
  then have ok1: "ledger_ok rows1" using claim_ok(2) [OF assms(2)] by (metis fst_conv)
  show ?thesis
    using claim ok1 settle_ok [OF ok1] process_ok [OF assms(1,3)] assms(3)
    by (cases claimed) (simp_all add: work_once_def split_beta Let_def)
qed

lemma serve_ok:
  assumes "id_column (ac_alerts c) al_alert_id" "ledger_ok rows" "alerts_ok c s" "serve c ev (rows, s) = (rows', s')"
  shows "ledger_ok rows' \<and> alerts_ok c s'"
proof (cases ev)
  case (Request w key kind eid payload)
  then show ?thesis using ingest_ok [OF assms(1-3)] assms(4) by auto
next
  case (Round wc w)
  then show ?thesis using work_ok [OF assms(1-3)] assms(4) by (metis fst_conv serve.simps(2) snd_conv)
qed

section \<open>Replay\<close>

definition again :: "string \<Rightarrow> ingest_ack \<Rightarrow> ingest_ack" where
  "again i ack = ack\<lparr>ack_id := i, ack_duplicate := True, ack_reason := truthy (ack_reason ack)\<rparr>"

lemma make_ack_again: "make_ack i d out = Inr ack \<Longrightarrow> make_ack j True (out\<lparr>do_reason := truthy (do_reason out)\<rparr>) = Inr (again j ack)"
  by (auto simp: make_ack_def again_def split: run_status.splits)

lemma task_outcome_reason: "task_outcome (task_of r) = Some out \<Longrightarrow> out\<lparr>do_reason := truthy (do_reason out)\<rparr> = out"
  by (auto simp: task_outcome_def task_of_def truthy_def split: if_splits option.splits)

lemma replay_final:
  assumes "get_task key rows = Some t" "task_outcome t = Some out" "make_ack i d out = Inr ack"
  shows "ingest_envelope c w key kind eid payload rows s = (rows, s, Inr (again eid ack))"
proof -
  obtain r where r: "fetch_where (\<lambda>r. lr_key r = key) rows = Some r" "t = task_of r" using assms(1) by (auto simp: get_task_def)
  have fin: "final_state (lr_state r)" using assms(2) r(2) by (auto simp: task_outcome_def task_of_def split: if_splits)
  have "make_ack eid True out = Inr (again eid ack)" using make_ack_again [OF assms(3)] task_outcome_reason [of r out] assms(2) r(2) by simp
  then show ?thesis using fin r assms(2) by (simp add: ingest_envelope_def submit_def)
qed

lemma run_inline_acknowledged:
  assumes "run_inline c w task rows s = (rows', s', Inr ack)"
  obtains out where "process_ingest_task c (fst (w_clock w)) (snd (w_clock w)) (w_raw w) (w_disks w) task s = (s', Inr out)" "do_status out \<noteq> R_FAILED"
    "make_ack (lt_envelope_id task) False out = Inr ack"
    "complete_task (ac_ledger c) (w_done w) (lt_key task) (the (lt_lease_token task)) (if do_status out = R_COMPLETE then S_COMPLETE else S_PARTIAL)
       (do_records out) (do_truncated out) (do_reason out) rows = (rows', True)"
proof -
  obtain s1 res where pr: "process_ingest_task c (fst (w_clock w)) (snd (w_clock w)) (w_raw w) (w_disks w) task s = (s1, res)" by fastforce
  then obtain out where out: "res = Inr out" "do_status out \<noteq> R_FAILED" "s1 = s'"
    using assms by (auto simp: run_inline_def Let_def make_ack_def split: sum.splits prod.splits if_splits)
  then show thesis using assms pr by (intro that [of out]) (auto simp: run_inline_def Let_def split: prod.splits if_splits)
qed

lemma replay_completed:
  assumes "ledger_ok rows" "1 \<le> lc_max_completed (ac_ledger c)" "\<forall>r \<in> set (final_rows rows). lr_updated_at r < w_done w"
    "run_inline c w task rows s = (rows', s', Inr ack)" "key' = lt_key task"
  shows "ingest_envelope c w' key' kind eid payload rows' s' = (rows', s', Inr (again eid ack))"
proof -
  obtain out where out: "do_status out \<noteq> R_FAILED" "make_ack (lt_envelope_id task) False out = Inr ack"
    "complete_task (ac_ledger c) (w_done w) (lt_key task) (the (lt_lease_token task)) (if do_status out = R_COMPLETE then S_COMPLETE else S_PARTIAL)
       (do_records out) (do_truncated out) (do_reason out) rows = (rows', True)"
    by (rule run_inline_acknowledged [OF assms(4)])
  obtain t where t: "submit (ac_ledger c) (w_used w') (w_now w') key' kind eid payload rows' = Inr (rows', t, False)"
    "lt_state t = status_state (if do_status out = R_COMPLETE then S_COMPLETE else S_PARTIAL)" "lt_derived_records t = do_records out"
    "lt_derived_truncated t = do_truncated out" "lt_derived_reason t = truthy (do_reason out)"
    using completed_replay [OF assms(1) out(3) assms(2,3), of "w_used w'" "w_now w'" kind eid payload] assms(5) by blast
  have "task_outcome t = Some (out\<lparr>do_reason := truthy (do_reason out)\<rparr>)"
    using t(2-5) out(1) by (cases "do_status out") (simp_all add: task_outcome_def final_state_def)
  then show ?thesis using t(1) make_ack_again [OF out(2), of eid] by (simp add: ingest_envelope_def)
qed

lemma claimed_key: "claim_task key now lease token rows = (rows', Some t) \<Longrightarrow> ledger_ok rows \<Longrightarrow> lt_key t = key"
  unfolding claim_task_def by (cases rule: claim_whereE [of rows "\<lambda>r. lr_key r = key" now lease token]) (auto simp: task_of_def lease_row_def)

lemma final_rows_submit: "submit c used now key kind eid payload rows = Inr (rows', t, b) \<Longrightarrow> final_rows rows' = final_rows rows"
  by (auto simp: submit_def final_rows_def new_row_def final_state_def Let_def split: option.splits if_splits)

lemma final_rows_claim:
  assumes "claim_task key now lease token rows = (rows', t)" "ledger_ok rows" "r \<in> set (final_rows rows')"
  shows "r \<in> set (final_rows rows)"
  using assms(2)
proof (cases rule: claim_whereE [of rows "\<lambda>r. lr_key r = key" now lease token])
  case (2 row)
  then have rows': "rows' = upd_where (\<lambda>r. lr_key r = lr_key row) (lease_row now lease token) rows" using assms(1) by (simp add: claim_task_def)
  have "r \<in> set rows'" "final_state (lr_state r)" using assms(3) by (simp_all add: final_rows_def)
  then show ?thesis unfolding rows' by (elim upd_whereE) (auto simp: lease_row_def final_state_def final_rows_def)
qed (use assms in \<open>simp add: claim_task_def\<close>)

section \<open>First acknowledgement\<close>

lemma get_new: "get_task key rows = None \<Longrightarrow> get_task key (rows @ [new_row c now key kind eid payload]) = Some (task_of (new_row c now key kind eid payload))"
  by (auto simp: get_task_def fetch_where_def first_row_def new_row_def split: list.splits)

text \<open>A new key that is acknowledged was processed by this request, with this payload.\<close>

lemma ingest_new:
  assumes "ledger_ok rows" "get_task key rows = None" "\<not> ac_async c" "ingest_envelope c w key kind eid payload rows s = (rows', s', Inr ack)"
  obtains task out where "lt_kind task = kind" "lt_payload task = payload" "do_status out \<noteq> R_FAILED" "make_ack eid False out = Inr ack"
    "process_ingest_task c (fst (w_clock w)) (snd (w_clock w)) (w_raw w) (w_disks w) task s = (s', Inr out)"
proof -
  let ?r = "new_row (ac_ledger c) (w_now w) key kind eid payload"
  have none: "fetch_where (\<lambda>r. lr_key r = key) rows = None" using assms(2) by (simp add: get_task_def)
  then have sub: "submit (ac_ledger c) (w_used w) (w_now w) key kind eid payload rows = Inr (rows @ [?r], task_of ?r, True)"
    using assms(4) by (auto simp: ingest_envelope_def submit_def Let_def split: if_splits)
  have pend: "task_outcome (task_of ?r) = None" by (simp add: task_outcome_def task_of_def new_row_def final_state_def)
  have ok: "ledger_ok (rows @ [?r])" using submit_sim [OF assms(1) sub] by blast
  show thesis
    using ok
  proof (cases rule: claim_whereE [of "rows @ [?r]" "\<lambda>r. lr_key r = key" "w_claim w" "ac_lease_seconds c" "w_token w"])
    case 1
    then show thesis using assms(3,4) sub pend get_new [OF assms(2)] by (simp add: ingest_envelope_def claim_task_def)
  next
    case (2 row)
    have "row = ?r" using key_inj [of lr_key "rows @ [?r]" row ?r] ok 2(1,2) by (simp add: ledger_ok_def new_row_def)
    then have "ingest_envelope c w key kind eid payload rows s
        = run_inline c w (task_of (lease_row (w_claim w) (ac_lease_seconds c) (w_token w) ?r)) (upd_where (\<lambda>r. lr_key r = lr_key row) (lease_row (w_claim w) (ac_lease_seconds c) (w_token w)) (rows @ [?r])) s"
      using 2(5) assms(3) sub pend by (simp add: ingest_envelope_def claim_task_def)
    from this [symmetric, unfolded assms(4)] show thesis
      by (rule run_inline_acknowledged) (rule that, auto simp: task_of_def lease_row_def new_row_def)
  qed
qed

lemma raw_stored:
  assumes "store_ok c s" "FIELD_RE f" "st_field c f p = Some v"
    "(if \<not> raw_already_stored c source_of f v (source_name (source_of p)) s then store_append c d p s else Inr s) = Inr s'"
  shows "\<exists>q. find_one c f v s' = Some q \<and> source_name (source_of q) = source_name (source_of p)"
proof (cases "raw_already_stored c source_of f v (source_name (source_of p)) s")
  case True
  then show ?thesis using assms(4) by (auto simp: raw_already_stored_def split: option.splits)
next
  case False
  then obtain u k x where "append_record c u k x p s = Inr s'" using assms(4) by (auto simp: store_append_def split: prod.splits)
  then show ?thesis using append_found [OF assms(1) _ assms(2,3)] by blast
qed

lemma absorb_acknowledged: "absorb x = (s', Inr out) \<Longrightarrow> do_status out \<noteq> R_FAILED \<Longrightarrow> x = (s', Inr out)"
  by (cases x) (auto simp: absorb_def failed_outcome_def split: sum.splits)

lemma correlate_with_traces: "correlate_with c disks base cross br cr s = (s', res) \<Longrightarrow> ap_traces s' = ap_traces s"
  by (auto simp: correlate_with_def Let_def split: sum.splits prod.splits option.splits)

lemma batch_id_field: "FIELD_RE ''batch_id''"
  by code_simp

section \<open>Properties\<close>

text \<open>C8: Alert identifiers stay unique. Whatever requests and worker rounds run in whatever order, with retries after failed derivations, lost leases, full
  disks and retention, no alert identifier occurs twice in the alert store, its statistics stay exact, and the keys of the ledger stay unique.\<close>

theorem alerts_stay_unique:
  assumes "id_column (ac_alerts c) al_alert_id" "ledger_ok rows" "store_ok (ac_alerts c) (ap_alerts s)" "distinct (row_ids al_alert_id (ap_alerts s))"
    "fold (serve c) events (rows, s) = (rows', s')"
  shows "ledger_ok rows' \<and> store_ok (ac_alerts c) (ap_alerts s') \<and> distinct (row_ids al_alert_id (ap_alerts s'))"
proof -
  have "ledger_ok rows \<Longrightarrow> alerts_ok c s \<Longrightarrow> fold (serve c) events (rows, s) = (rows', s') \<Longrightarrow> ledger_ok rows' \<and> alerts_ok c s'"
  proof (induction events arbitrary: rows s)
    case (Cons ev events)
    obtain rows1 s1 where one: "serve c ev (rows, s) = (rows1, s1)" by fastforce
    have "ledger_ok rows1 \<and> alerts_ok c s1" using serve_ok [OF assms(1) Cons.prems(1,2) one] .
    then show ?case using Cons.IH [of rows1 s1] Cons.prems(3) one by simp
  qed simp
  then show ?thesis using assms(2-5) by (simp add: alerts_ok_def)
qed

text \<open>C9: An acknowledged envelope is answered again. Once a synchronous request has been acknowledged, by a clock ahead of the outcomes recorded before, any later
  request with the same key, whatever its payload and whatever the clock and the disk then answer, gets the same acknowledgement marked as a duplicate, and
  neither the ledger nor any store changes.\<close>

theorem acknowledged_replayed:
  assumes "ledger_ok rows" "\<not> ac_async c" "1 \<le> lc_max_completed (ac_ledger c)" "\<forall>r \<in> set (final_rows rows). lr_updated_at r < w_done w"
    "ingest_envelope c w key kind eid payload rows s = (rows', s', Inr ack)"
  shows "ingest_envelope c w' key kind' eid' payload' rows' s'
    = (rows', s', Inr (ack\<lparr>ack_id := eid', ack_duplicate := True, ack_reason := truthy (ack_reason ack)\<rparr>))"
proof -
  obtain rows1 task created where sub: "submit (ac_ledger c) (w_used w) (w_now w) key kind eid payload rows = Inr (rows1, task, created)"
    using assms(5) by (cases "submit (ac_ledger c) (w_used w) (w_now w) key kind eid payload rows") (auto simp: ingest_envelope_def)
  have ok1: "ledger_ok rows1" using submit_sim [OF assms(1) sub] by blast
  have get: "get_task key rows1 = Some task"
    using sub by (auto simp: submit_def get_task_def fetch_where_def first_row_def new_row_def Let_def split: option.splits if_splits list.splits)
  obtain rows2 claimed where claim: "claim_task key (w_claim w) (ac_lease_seconds c) (w_token w) rows1 = (rows2, claimed)" by fastforce
  have ok2: "ledger_ok rows2" using claim_ok(1) [OF ok1] claim by (metis fst_conv)
  have old: "\<forall>r \<in> set (final_rows rows2). lr_updated_at r < w_done w"
    using final_rows_claim [OF claim ok1] final_rows_submit [OF sub] assms(4) by simp
  note eq = ingest_envelope_def [of c w key kind eid payload rows s] sub claim assms(2,5)
  have "ingest_envelope c w' key kind' eid' payload' rows' s' = (rows', s', Inr (again eid' ack))"
  proof (cases "task_outcome task")
    case (Some out)
    then show ?thesis using eq replay_final [OF get Some, of eid True ack c w' kind' eid' payload' s] by simp
  next
    case None
    show ?thesis
    proof (cases claimed)
      case c: None
      then obtain t out where "get_task key rows2 = Some t" "task_outcome t = Some out" "make_ack eid True out = Inr ack" "rows' = rows2" "s' = s"
        using eq None by (auto split: option.splits simp: bind_eq_Some_conv dest: sym)
      then show ?thesis using replay_final by simp
    next
      case (Some t)
      then have run: "run_inline c w t rows2 s = (rows', s', Inr ack)" using eq None by simp
      show ?thesis by (rule replay_completed [OF ok2 assms(3) old run]) (use claimed_key [OF claim [unfolded Some] ok1] in simp)
    qed
  qed
  then show ?thesis by (simp add: again_def)
qed


section \<open>Witnesses\<close>

definition iex_env :: "unit detect_env" where
  "iex_env = \<lparr>de_version = (\<lambda>_. None), de_lt = (\<lambda>_ _. False), de_pow = (\<lambda>x n. x ^ n), de_size = (\<lambda>_. 1), de_lookup = (\<lambda>_ _. Inr [])\<rparr>"

definition iex_detector :: detector_state where
  "iex_detector = \<lparr>dt_osv_ecosystem = None, dt_tracker = \<lparr>ts_present = False, ts_record_count = 0, ts_synced_at = None, ts_max_age_seconds = None, ts_rows = []\<rparr>,
     dt_synced_ecosystems = None, dt_record_count = 0\<rparr>"

definition iex_store :: "(string \<Rightarrow> 'p \<Rightarrow> string option) \<Rightarrow> 'p store_config" where
  "iex_store fld = \<lparr>st_max_bytes = 0, st_max_table_bytes = 0, st_max_rows = 1000, st_max_record_bytes = 0, st_read_max_bytes = 0, st_size = (\<lambda>_. 1), st_field = fld\<rparr>"

definition iex_batch :: "trace_batch sourced" where
  "iex_batch = \<lparr>sb_source = Some ''agent-1'', sb_batch = ex_trace\<rparr>"

definition iex_config :: "unit app_config" where
  "iex_config = \<lparr>ac_env = iex_env, ac_detector = iex_detector, ac_sha1 = ex_sha1, ac_sha256 = ex_sha256, ac_reports = iex_store (\<lambda>_ r. Some (ar_report_id r)),
     ac_traces = iex_store (\<lambda>_ b. Some (tb_batch_id (sb_batch b))), ac_guards = iex_store (\<lambda>_ b. Some (gb_batch_id (sb_batch b))),
     ac_detections = iex_store (\<lambda>_ d. Some (dx_report_id d)), ac_alerts = iex_store (\<lambda>_ a. Some (al_alert_id a)), ac_decode_report = (\<lambda>_. None),
     ac_decode_trace = (\<lambda>_. Some iex_batch), ac_decode_guard = (\<lambda>_. None), ac_ledger = example_ledger, ac_lease_seconds = 60, ac_async = False\<rparr>"

definition iex_state :: app_state where
  "iex_state = \<lparr>ap_reports = empty_store, ap_traces = empty_store, ap_guards = empty_store, ap_detections = empty_store, ap_alerts = empty_store\<rparr>"

definition iex_world :: world where
  "iex_world = \<lparr>w_used = 0, w_now = 1, w_claim = 2, w_done = 3, w_token = ''t'', w_clock = (0, 0), w_raw = (0, 0, False), w_disks = (\<lambda>_. (0, 0, False))\<rparr>"

definition iex_key :: string where "iex_key = envelope_key TRACE_BATCH (Some ''agent-1'') ''b1''"

lemma iex_stores: "store_ok (ac_alerts iex_config) (ap_alerts iex_state)" "store_ok (ac_traces iex_config) (ap_traces iex_state)" "row_ids al_alert_id (ap_alerts iex_state) = []"
  "id_column (ac_alerts iex_config) al_alert_id" "budget_room (ac_alerts iex_config) fresh_budget (ap_alerts iex_state)"
  by (simp_all add: store_ok_def iex_state_def empty_store_def row_ids_def id_column_def iex_config_def iex_store_def budget_room_def fresh_budget_def MAX_DERIVED_RECORDS_PER_INGEST_def)

lemma iex_fields: "ac_ledger iex_config = example_ledger" "ac_lease_seconds iex_config = 60" "\<not> ac_async iex_config" "ac_alerts iex_config = iex_store (\<lambda>_ a. Some (al_alert_id a))"
  "ac_sha1 iex_config = ex_sha1" "ac_sha256 iex_config = ex_sha256"
  by (simp_all add: iex_config_def)

lemma iex_trace_fields: "tb_batch_id ex_trace = ''b1''" "tb_collected_at ex_trace = 5"
  by (simp_all add: ex_trace_def)

lemma iex_alerts:
  "case correlate_trace_batch ex_sha1 ex_sha256 ex_trace (Some []) (Some new_limit_state) of
     Inl _ \<Rightarrow> False | Inr (alerts, ls) \<Rightarrow> length alerts = 1 \<and> \<not> limit_truncated ls \<and> cross_source_alerts ex_sha1 ex_sha256 ''b1'' 5 alerts [] ls = Inr ([], ls)"
  by code_simp

lemma iex_recent: "recent_index iex_config iex_state = []" "recent_detections iex_config iex_state = []"
  by (simp_all add: recent_index_def recent_detections_def tail_records_def iex_state_def empty_store_def newest_first_def ip_host_index_def)

text \<open>The first request of the batch stores it and one alert.\<close>

lemma iex_process:
  assumes "lt_kind task = TRACE_BATCH"
  shows "\<exists>s' a. process_ingest_task iex_config 0 0 (0, 0, False) (\<lambda>_. (0, 0, False)) task iex_state
      = (s', Inr \<lparr>do_status = R_COMPLETE, do_records = 1, do_truncated = False, do_reason = None\<rparr>) \<and> s_rows (ap_alerts s') = [\<lparr>s_id = 1, s_payload = a, s_bytes = 1\<rparr>]"
proof -
  obtain a ls where al: "correlate_trace_batch ex_sha1 ex_sha256 ex_trace (Some []) (Some new_limit_state) = Inr ([a], ls)" "\<not> limit_truncated ls"
    "cross_source_alerts ex_sha1 ex_sha256 ''b1'' 5 [a] [] ls = Inr ([], ls)"
    using iex_alerts by (auto simp: length_Suc_conv split: sum.splits)
  let ?t = "insert_record iex_batch 1 empty_store" and ?al = "insert_record a 1 empty_store"
  have none: "find_one (iex_store fld) f v empty_store = None" for fld :: "string \<Rightarrow> 'p \<Rightarrow> string option" and f v
    by (simp add: find_one_def empty_store_def order_desc_limit_def first_row_def)
  have ap: "store_append (iex_store fld) (0, 0, False) p empty_store = Inr (insert_record p 1 empty_store)" for fld :: "string \<Rightarrow> 'p \<Rightarrow> string option" and p
    by (simp add: store_append_def append_record_def iex_store_def write_budget_def prune_for_insert_def empty_store_def)
  have recent: "recent_index iex_config (iex_state\<lparr>ap_traces := ?t\<rparr>) = []" "recent_detections iex_config (iex_state\<lparr>ap_traces := ?t\<rparr>) = []"
    using iex_recent by (simp_all add: recent_index_def recent_detections_def)
  have persist: "persist_loop (iex_store fld) (\<lambda>a. Some (al_alert_id a)) (\<lambda>_. (0, 0, False)) 0 [a] (fresh_budget, empty_store) []
      = ((fresh_budget\<lparr>db_records := 1, db_bytes := 1\<rparr>, ?al), [a], None)" for fld
    by (simp add: budget_append_def none ap fresh_budget_def MAX_DERIVED_RECORDS_PER_INGEST_def MAX_DERIVED_BYTES_PER_INGEST_def Let_def rbind_def) (simp add: iex_store_def)
  have flds: "db_truncated fresh_budget = False" "db_truncation_reason fresh_budget = None" by (simp_all add: fresh_budget_def)
  have "correlate_ingest iex_config (\<lambda>_. (0, 0, False)) ex_trace (iex_state\<lparr>ap_traces := ?t\<rparr>)
      = (iex_state\<lparr>ap_traces := ?t, ap_alerts := ?al\<rparr>, Inr \<lparr>do_status = R_COMPLETE, do_records = 1, do_truncated = False, do_reason = None\<rparr>)"
    unfolding correlate_ingest_def recent correlate_with_def using al persist flds
    by (simp add: iex_fields iex_trace_fields iex_state_def Let_def budget_outcome_def truthy_def del: persist_loop.simps(2))
  then have "process_ingest_task iex_config 0 0 (0, 0, False) (\<lambda>_. (0, 0, False)) task iex_state
      = (iex_state\<lparr>ap_traces := ?t, ap_alerts := ?al\<rparr>, Inr \<lparr>do_status = R_COMPLETE, do_records = 1, do_truncated = False, do_reason = None\<rparr>)"
    using assms by (simp add: process_ingest_task_def store_trace_batch_def raw_already_stored_def iex_config_def iex_state_def none ap iex_batch_def absorb_def)
  then show ?thesis by (simp add: insert_record_def empty_store_def)
qed

lemma iex_run:
  "\<exists>rows' s' ack. ingest_envelope iex_config iex_world iex_key TRACE_BATCH ''b1'' ''p'' [] iex_state = (rows', s', Inr ack) \<and> ack_status ack = A_COMPLETE \<and> ack_records ack = 1"
proof -
  let ?r = "new_row example_ledger 1 iex_key TRACE_BATCH ''b1'' ''p''"
  let ?c = "lease_row 2 60 ''t'' ?r"
  obtain s' where pr: "process_ingest_task iex_config 0 0 (0, 0, False) (\<lambda>_. (0, 0, False)) (task_of ?c) iex_state
      = (s', Inr \<lparr>do_status = R_COMPLETE, do_records = 1, do_truncated = False, do_reason = None\<rparr>)"
    using iex_process [of "task_of ?c"] by (auto simp: task_of_def lease_row_def new_row_def)
  have sub: "submit example_ledger 0 1 iex_key TRACE_BATCH ''b1'' ''p'' [] = Inr ([?r], task_of ?r, True)"
    by (simp add: submit_def fetch_where_def first_row_def insert_budget_def example_ledger_def Let_def)
  have claim: "claim_task iex_key 2 60 ''t'' [?r] = ([?c], Some (task_of ?c))"
    by (simp add: claim_task_def claim_where_def due_task_def new_row_def first_row_def order_limit_def upd_where_def fetch_where_def lease_row_def Let_def)
  have fin: "snd (complete_task example_ledger 3 iex_key ''t'' S_COMPLETE 1 False None [?c])"
    by (simp add: complete_task_def count_where_def held_by_def lease_row_def new_row_def Let_def)
  have "task_outcome (task_of ?r) = None" "lt_key (task_of ?c) = iex_key" "lt_lease_token (task_of ?c) = Some ''t''" "lt_envelope_id (task_of ?c) = ''b1''"
    by (simp_all add: task_outcome_def task_of_def lease_row_def new_row_def final_state_def truthy_def)
  then have "ingest_envelope iex_config iex_world iex_key TRACE_BATCH ''b1'' ''p'' [] iex_state
      = (fst (complete_task example_ledger 3 iex_key ''t'' S_COMPLETE 1 False None [?c]), s',
         make_ack ''b1'' False \<lparr>do_status = R_COMPLETE, do_records = 1, do_truncated = False, do_reason = None\<rparr>)"
    using sub claim pr fin by (simp add: ingest_envelope_def run_inline_def iex_world_def split_beta iex_fields Let_def)
  then show ?thesis by (simp add: make_ack_def)
qed

theorem alerts_stay_unique_witness:
  "distinct (row_ids al_alert_id (ap_alerts (snd (fold (serve iex_config)
     [Request iex_world iex_key TRACE_BATCH ''b1'' ''p'', Request iex_world iex_key TRACE_BATCH ''b1'' ''p''] ([], iex_state)))))"
  using alerts_stay_unique [OF iex_stores(4) _ iex_stores(1) _ prod.collapse [symmetric], of "[]"
    "[Request iex_world iex_key TRACE_BATCH ''b1'' ''p'', Request iex_world iex_key TRACE_BATCH ''b1'' ''p'']"] iex_stores(3)
  by (simp add: ledger_ok_def del: fold_simps serve.simps)

theorem acknowledged_replayed_witness:
  "\<exists>rows' s' ack. ingest_envelope iex_config iex_world iex_key TRACE_BATCH ''b1'' ''p'' [] iex_state = (rows', s', Inr ack)
     \<and> ingest_envelope iex_config iex_world iex_key TRACE_BATCH ''b1'' ''q'' rows' s' = (rows', s', Inr (ack\<lparr>ack_id := ''b1'', ack_duplicate := True, ack_reason := truthy (ack_reason ack)\<rparr>))"
proof -
  obtain rows' s' ack where run: "ingest_envelope iex_config iex_world iex_key TRACE_BATCH ''b1'' ''p'' [] iex_state = (rows', s', Inr ack)" using iex_run by blast
  then show ?thesis
    using acknowledged_replayed [OF _ _ _ _ run, of iex_world TRACE_BATCH "''b1''" "''q''"] by (simp add: ledger_ok_def final_rows_def iex_config_def example_ledger_def)
qed


end
