(* ===== verification/Defender_Properties.thy ===== *)
theory Defender_Properties
  imports Defender_Ingest Ingest_Properties
begin

text \<open>
  Properties of the Defender routes: a batch is safe to send again. A vulnerability batch that failed half way is completed by a retry without a second copy of
  anything, and one that completed is answered again without a write; alerts and incidents keep unique identifiers and a complete answer means all of them are stored.
\<close>

section \<open>Appending once\<close>

definition unbounded :: "'p store_config \<Rightarrow> bool" where
  "unbounded c = (st_max_rows c = 0 \<and> st_max_table_bytes c = 0)"

definition column :: "'p store_config \<Rightarrow> string \<Rightarrow> ('p \<Rightarrow> string) \<Rightarrow> bool" where
  "column c f uid = (FIELD_RE f \<and> (\<forall>p. st_field c f p = Some (uid p)))"

lemma find_column: "column c f uid \<Longrightarrow> find_one c f i s = None \<longleftrightarrow> i \<notin> set (row_ids uid s)"
  using order_desc_empty [of s_id "filter (\<lambda>r. uid (s_payload r) = i) (s_rows s)"]
  by (auto simp: find_one_def column_def row_ids_def filter_empty_conv)

lemma append_unbounded: "unbounded c \<Longrightarrow> store_append c d p s = Inr s' \<Longrightarrow> s' = insert_record p (st_size c p) s"
  by (auto simp: store_append_def append_record_def Let_def unbounded_def prune_for_insert_def split: prod.splits if_splits)

definition grown_by :: "('p \<Rightarrow> string) \<Rightarrow> 'p record_store \<Rightarrow> nat \<Rightarrow> 'p record_store \<Rightarrow> bool" where
  "grown_by uid s n s' = ((\<exists>new. s_rows s' = s_rows s @ new \<and> length new = n) \<and> (distinct (row_ids uid s) \<longrightarrow> distinct (row_ids uid s')))"

lemma grown_refl [simp]: "grown_by uid s 0 s"
  by (simp add: grown_by_def)

lemma grown_trans: "grown_by uid s m t \<Longrightarrow> grown_by uid t n u \<Longrightarrow> grown_by uid s (m + n) u"
  by (fastforce simp: grown_by_def)

lemma grown_ids: "grown_by uid s n s' \<Longrightarrow> i \<in> set (row_ids uid s) \<Longrightarrow> i \<in> set (row_ids uid s')"
  by (auto simp: grown_by_def row_ids_def)

lemma append_once_spec:
  assumes "column c ''report_id'' uid" "unbounded c" "append_once c d (uid p) p (n, s) = Inr (n', s')"
  shows "uid p \<in> set (row_ids uid s')" "\<exists>k. n' = n + k \<and> grown_by uid s k s'"
proof -
  have "uid p \<in> set (row_ids uid s') \<and> (\<exists>k. n' = n + k \<and> grown_by uid s k s')"
  proof (cases "uid p \<in> set (row_ids uid s)")
    case True
    then show ?thesis using assms(3) find_column [OF assms(1)] by (auto simp: append_once_def)
  next
    case False
    then have "store_append c d p s = Inr s'" and n': "n' = n + 1"
      using assms(3) find_column [OF assms(1)] by (auto simp: append_once_def rbind_def split: sum.splits)
    then have "s' = insert_record p (st_size c p) s" using append_unbounded [OF assms(2)] by blast
    then show ?thesis using False n' by (intro conjI exI [of _ 1]) (auto simp: grown_by_def insert_record_def row_ids_def)
  qed
  then show "uid p \<in> set (row_ids uid s')" "\<exists>k. n' = n + k \<and> grown_by uid s k s'" by blast+
qed

lemma append_once_known:
  "column c ''report_id'' uid \<Longrightarrow> uid p \<in> set (row_ids uid s) \<Longrightarrow> append_once c d (uid p) p (n, s) = Inr (n, s)"
  using find_column by (fastforce simp: append_once_def)

section \<open>Snapshots\<close>

text \<open>Both records of a snapshot are stored.\<close>

definition snapshot_stored :: "(string \<Rightarrow> string) \<Rightarrow> mdvm_stores \<Rightarrow> mdvm_snapshot \<Rightarrow> bool" where
  "snapshot_stored sha256 stores snap = (case derive_mdvm_snapshot sha256 snap of Inl e \<Rightarrow> False
     | Inr (report, detection) \<Rightarrow> ar_report_id report \<in> set (row_ids ar_report_id (fst stores)) \<and> dx_report_id detection \<in> set (row_ids dx_report_id (snd stores)))"

lemma mdvm_loop_known:
  assumes "column cr ''report_id'' ar_report_id" "column cd ''report_id'' dx_report_id"
  shows "\<forall>snap \<in> set snaps. snapshot_stored sha256 stores snap \<Longrightarrow> mdvm_loop sha256 cr cd disks i snaps n stores = (stores, Inr n)"
proof (induction snaps arbitrary: i)
  case (Cons snap snaps)
  then show ?case
    by (auto simp: snapshot_stored_def append_once_known [OF assms(1)] append_once_known [OF assms(2)] split: sum.splits)
qed simp

text \<open>However far the loop gets, it only adds records that were missing; when it ends, every snapshot is stored.\<close>

lemma mdvm_loop_extends:
  assumes cols: "column cr ''report_id'' ar_report_id" "column cd ''report_id'' dx_report_id" and unb: "unbounded cr" "unbounded cd"
  shows "mdvm_loop sha256 cr cd disks i snaps n (r, d) = ((r', d'), res)
    \<Longrightarrow> \<exists>k j. grown_by ar_report_id r k r' \<and> grown_by dx_report_id d j d' \<and> (\<forall>m. res = Inr m \<longrightarrow> m = n + k + j \<and> (\<forall>snap \<in> set snaps. snapshot_stored sha256 (r', d') snap))"
proof (induction snaps arbitrary: i n r d)
  case Nil
  then show ?case by (intro exI [of _ 0]) auto
next
  case (Cons snap snaps)
  show ?case
  proof (cases "derive_mdvm_snapshot sha256 snap")
    case (Inl e)
    then show ?thesis using Cons.prems by (intro exI [of _ 0]) auto
  next
    case (Inr x)
    obtain report detection where x: "x = (report, detection)" by (cases x)
    show ?thesis
    proof (cases "append_once cr (disks i) (ar_report_id report) report (n, r)")
      case (Inl e)
      then show ?thesis using Cons.prems Inr x by (intro exI [of _ 0]) auto
    next
      case one: (Inr y)
      obtain n1 r1 where y: "y = (n1, r1)" by (cases y)
      note first = append_once_spec [OF cols(1) unb(1) one [unfolded y]]
      then obtain k1 where k1: "n1 = n + k1" "grown_by ar_report_id r k1 r1" by blast
      show ?thesis
      proof (cases "append_once cd (disks (Suc i)) (dx_report_id detection) detection (n1, d)")
        case (Inl e)
        then show ?thesis using Cons.prems Inr x one y k1(2) by (intro exI [of _ k1] exI [of _ 0]) auto
      next
        case two: (Inr z)
        obtain n2 d2 where z: "z = (n2, d2)" by (cases z)
        note second = append_once_spec [OF cols(2) unb(2) two [unfolded z]]
        then obtain j1 where j1: "n2 = n1 + j1" "grown_by dx_report_id d j1 d2" by blast
        have "mdvm_loop sha256 cr cd disks (i + 2) snaps n2 (r1, d2) = ((r', d'), res)" using Cons.prems Inr x one y two z by simp
        from Cons.IH [OF this] obtain k2 j2 where IH: "grown_by ar_report_id r1 k2 r'" "grown_by dx_report_id d2 j2 d'"
          "\<forall>m. res = Inr m \<longrightarrow> m = n2 + k2 + j2 \<and> (\<forall>snap \<in> set snaps. snapshot_stored sha256 (r', d') snap)" by blast
        have "snapshot_stored sha256 (r', d') snap"
          using grown_ids [OF IH(1) first(1)] grown_ids [OF IH(2) second(1)] Inr x by (simp add: snapshot_stored_def)
        then show ?thesis
          using IH(3) k1(1) j1(1) grown_trans [OF k1(2) IH(1)] grown_trans [OF j1(2) IH(2)] by (intro exI [of _ "k1 + k2"] exI [of _ "j1 + j2"]) auto
      qed
    qed
  qed
qed

text \<open>What an acknowledged batch leaves behind: both records of every snapshot and the batch itself.\<close>

definition mdvm_acknowledged :: "(string \<Rightarrow> string) \<Rightarrow> mdvm_vulnerability_batch store_config \<Rightarrow> mdvm_vulnerability_batch \<Rightarrow> nat \<Rightarrow> nat \<Rightarrow> ingest_ack
    \<Rightarrow> mdvm_vulnerability_batch record_store \<times> mdvm_stores \<Rightarrow> bool" where
  "mdvm_acknowledged sha256 cv batch k j ack stores =
     ((\<exists>dup. ack = \<lparr>ack_id = vb_batch_id batch, ack_duplicate = dup, ack_queued = False, ack_status = A_COMPLETE, ack_records = int (k + j), ack_truncated = False, ack_reason = None\<rparr>)
      \<and> (\<forall>snap \<in> set (vb_snapshots batch). snapshot_stored sha256 (snd stores) snap) \<and> find_one cv ''batch_id'' (vb_batch_id batch) (fst stores) = Some batch)"

lemma mdvm_ingest_spec:
  assumes "column cv ''batch_id'' vb_batch_id" "column cr ''report_id'' ar_report_id" "column cd ''report_id'' dx_report_id" "unbounded cr" "unbounded cd" "store_ok cv m"
    and run: "ingest_mdvm_vulnerability_batch sha256 cv cr cd raw disks batch (m, r, d) = ((m', r', d'), answer)"
  shows "\<exists>k j. grown_by ar_report_id r k r' \<and> grown_by dx_report_id d j d' \<and> store_ok cv m' \<and> (\<forall>ack. answer = Inr ack \<longrightarrow> mdvm_acknowledged sha256 cv batch k j ack (m', r', d'))"
proof -
  let ?old = "find_one cv ''batch_id'' (vb_batch_id batch) m"
  let ?raw = "if ?old = None then store_append cv raw batch m else Inr m"
  let ?done = "\<lambda>res. rbind res (\<lambda>n. Inr \<lparr>do_status = R_COMPLETE, do_records = int n, do_truncated = False, do_reason = None\<rparr>)"
  consider "m' = m" "(r', d') = (r, d)" "\<exists>e. answer = Inl e" | "?old \<noteq> None \<longrightarrow> ?old = Some batch" "?raw = Inr m'"
      "\<exists>res. mdvm_loop sha256 cr cd disks 0 (vb_snapshots batch) 0 (r, d) = ((r', d'), res) \<and> answer = settle_ack (vb_batch_id batch) (?old \<noteq> None) (?done res)"
    using run by (auto simp: ingest_mdvm_vulnerability_batch_def settle_ack_def make_ack_def failed_outcome_def Let_def split: option.splits sum.splits prod.splits if_splits)
  then show ?thesis
  proof cases
    case 1
    then show ?thesis using assms(6) by (intro exI [of _ 0]) auto
  next
    case 2
    then obtain res where loop: "mdvm_loop sha256 cr cd disks 0 (vb_snapshots batch) 0 (r, d) = ((r', d'), res)"
      and answer: "answer = settle_ack (vb_batch_id batch) (?old \<noteq> None) (?done res)" by blast
    from mdvm_loop_extends [OF assms(2-5) loop] obtain k j where kj: "grown_by ar_report_id r k r'" "grown_by dx_report_id d j d'"
      "\<forall>n. res = Inr n \<longrightarrow> n = 0 + k + j \<and> (\<forall>snap \<in> set (vb_snapshots batch). snapshot_stored sha256 (r', d') snap)" by blast
    have found: "find_one cv ''batch_id'' (vb_batch_id batch) m' = Some batch"
      using 2(1,2) append_found [OF assms(6) _ _ , of _ _ _ batch m' "''batch_id''" "vb_batch_id batch"] assms(1)
      by (auto simp: store_append_def column_def split: if_splits prod.splits)
    have "store_ok cv m'" using 2(2) assms(6) store_append_rows(1) [OF assms(6)] by (auto split: if_splits)
    moreover have "mdvm_acknowledged sha256 cv batch k j ack (m', r', d')" if "answer = Inr ack" for ack
      using that answer kj(3) found by (cases res) (auto simp: mdvm_acknowledged_def settle_ack_def make_ack_def failed_outcome_def rbind_def)
    ultimately show ?thesis using kj(1,2) by blast
  qed
qed

lemma settle_ack_complete: "settle_ack i b res = Inr ack \<Longrightarrow> ack_status ack = A_COMPLETE \<Longrightarrow>
    \<exists>out. res = Inr out \<and> do_status out = R_COMPLETE \<and> make_ack i b out = Inr ack"
  by (cases res) (auto simp: settle_ack_def make_ack_def failed_outcome_def split: run_status.splits if_splits)

section \<open>Alerts and incidents\<close>

text \<open>The derive loop is a persist loop over the alerts it manages to build.\<close>

lemma derive_loop_persist:
  assumes "id_column c al_alert_id"
  shows "derive_loop c build disks i items (b, s) = ((b', s'), err)
    \<Longrightarrow> \<exists>k as persisted err'. map build (take k items) = map Inr as \<and> persist_loop c (\<lambda>a. Some (al_alert_id a)) disks i as (b, s) acc = ((b', s'), persisted, err')
      \<and> (err = None \<longrightarrow> err' = None \<and> (length items \<le> k \<or> db_truncated b'))"
proof (induction items arbitrary: i b s acc)
  case Nil
  then show ?case by - (rule exI [of _ 0], rule exI [of _ "[]"], auto)
next
  case (Cons item items)
  show ?case
  proof (cases "build item")
    case (Inl e)
    then show ?thesis using Cons.prems by - (rule exI [of _ 0], rule exI [of _ "[]"], auto)
  next
    case (Inr a)
    show ?thesis
      using assms
    proof (cases rule: budget_append_cases [where p = a and s = s and d = "disks i" and b = b])
      case known
      then have "derive_loop c build disks (Suc i) items (b, s) = ((b', s'), err)" using Cons.prems Inr by simp
      from Cons.IH [OF this, of "acc @ [a]"] obtain k as persisted err' where "map build (take k items) = map Inr as"
        "persist_loop c (\<lambda>a. Some (al_alert_id a)) disks (Suc i) as (b, s) (acc @ [a]) = ((b', s'), persisted, err')"
        "err = None \<longrightarrow> err' = None \<and> (length items \<le> k \<or> db_truncated b')" by blast
      then show ?thesis using known Inr by - (rule exI [of _ "Suc k"], rule exI [of _ "a # as"], auto)
    next
      case (full r)
      then show ?thesis using Cons.prems Inr by - (rule exI [of _ 1], rule exI [of _ "[a]"], auto)
    next
      case (refused e)
      then show ?thesis using Cons.prems Inr by - (rule exI [of _ 1], rule exI [of _ "[a]"], auto)
    next
      case (stored s1)
      let ?b = "b\<lparr>db_records := db_records b + 1, db_bytes := db_bytes b + st_size c a\<rparr>"
      have "derive_loop c build disks (Suc i) items (?b, s1) = ((b', s'), err)" using stored(5) Cons.prems Inr by simp
      from Cons.IH [OF this, of "acc @ [a]"] obtain k as persisted err' where "map build (take k items) = map Inr as"
        "persist_loop c (\<lambda>a. Some (al_alert_id a)) disks (Suc i) as (?b, s1) (acc @ [a]) = ((b', s'), persisted, err')"
        "err = None \<longrightarrow> err' = None \<and> (length items \<le> k \<or> db_truncated b')" by blast
      then show ?thesis using stored(5) Inr by - (rule exI [of _ "Suc k"], rule exI [of _ "a # as"], auto)
    qed
  qed
qed

definition occurrence_stored :: "('i \<Rightarrow> alert result) \<Rightarrow> alert record_store \<Rightarrow> 'i \<Rightarrow> bool" where
  "occurrence_stored build s item = (case build item of Inl e \<Rightarrow> False | Inr a \<Rightarrow> al_alert_id a \<in> set (row_ids al_alert_id s))"

lemma map_Inr_stored: "map build items = map Inr as \<Longrightarrow> \<forall>a \<in> set as. al_alert_id a \<in> set (row_ids al_alert_id s) \<Longrightarrow> \<forall>item \<in> set items. occurrence_stored build s item"
proof (induction items arbitrary: as)
  case (Cons item items)
  then show ?case by (cases as) (auto simp: occurrence_stored_def)
qed simp

lemma derive_loop_ok:
  assumes "id_column c al_alert_id" "derive_loop c build disks i items (b, s) = ((b', s'), err)" "store_ok c s" "distinct (row_ids al_alert_id s)" "budget_ok b"
  shows "store_ok c s' \<and> distinct (row_ids al_alert_id s') \<and> budget_ok b'"
  using derive_loop_persist [OF assms(1,2), of "[]"] persist_invariant [OF assms(1) _ assms(3-5)] by blast

lemma derive_loop_room:
  assumes "id_column c al_alert_id" "derive_loop c build disks i items (b, s) = ((b', s'), err)" "budget_room c b s" "budget_ok b"
  shows "(\<exists>new. s_rows s' = s_rows s @ new \<and> db_records b' = db_records b + length new) \<and> budget_room c b' s' \<and> budget_ok b'
    \<and> (err = None \<and> \<not> db_truncated b' \<longrightarrow> (\<forall>item \<in> set items. occurrence_stored build s' item))"
proof -
  obtain k as persisted err' where run: "map build (take k items) = map Inr as"
    "persist_loop c (\<lambda>a. Some (al_alert_id a)) disks i as (b, s) [] = ((b', s'), persisted, err')" "err = None \<longrightarrow> err' = None \<and> (length items \<le> k \<or> db_truncated b')"
    using derive_loop_persist [OF assms(1,2)] by blast
  note room = persist_room [OF assms(1) run(2) assms(3,4)]
  have "\<forall>item \<in> set items. occurrence_stored build s' item" if whole: "err = None \<and> \<not> db_truncated b'"
  proof -
    have "\<forall>a \<in> set as. al_alert_id a \<in> set (row_ids al_alert_id s')" using room run(3) whole by (metis take_all)
    then show ?thesis using map_Inr_stored [OF run(1)] run(3) whole by simp
  qed
  then show ?thesis using room by blast
qed

text \<open>How a batch of alerts and incidents ends: refused, stopped among the alerts, out of budget after them, or through the incidents.\<close>

lemma mde_ends [case_names refused failed full through]:
  assumes "derive_loop ca (alert_from_mde_alert sha256 (mb_tenant_id batch)) disks 0 (mb_alerts batch) (fresh_budget, s) = ((b1, s1), err1)"
    "derive_loop ca (alert_from_mde_incident sha256 (mb_tenant_id batch)) disks (length (mb_alerts batch)) (mb_incidents batch) (b1, s1) = ((b2, s2), err2)"
    "ingest_mde_security_batch sha256 cm ca raw disks batch (m, s) = ((m', s'), answer)"
  obtains e where "s' = s" "answer = Inl e"
  | e where "s' = s1" "answer = Inl e"
  | dup where "s' = s1" "answer = make_ack (mb_batch_id batch) dup (budget_outcome b1 [])" "db_truncated b1"
  | dup where "s' = s2" "err1 = None" "\<not> db_truncated b1" "answer = settle_ack (mb_batch_id batch) dup (case err2 of Some e \<Rightarrow> Inl e | None \<Rightarrow> Inr (budget_outcome b2 []))"
proof -
  let ?old = "find_one cm ''batch_id'' (mb_batch_id batch) m"
  have failed: "settle_ack i b (Inl e) = Inl (HTTPException 503)" for i b e by (simp add: settle_ack_def make_ack_def failed_outcome_def)
  note eq = assms(3) [unfolded ingest_mde_security_batch_def store_mde_security_batch_def Let_def fst_conv snd_conv]
  show thesis
  proof (cases "case ?old of None \<Rightarrow> False | Some stored \<Rightarrow> stored \<noteq> batch")
    case True
    then show thesis using eq that(1) [of "HTTPException 409"] by simp
  next
    case new: False
    show thesis
    proof (cases "if ?old = None then store_append cm raw batch m else Inr m")
      case (Inl e)
      then show thesis using eq new that(1) [of "HTTPException 503"] failed by (simp add: Let_def)
    next
      case (Inr m1)
      then show thesis
        using eq new assms(1,2) that(2) [of "HTTPException 503"] that(3,4) [of "?old \<noteq> None"] failed by (cases err1; cases "db_truncated b1") (simp_all add: Let_def settle_ack_def)
    qed
  qed
qed

section \<open>Properties\<close>


text \<open>Alerts and incidents of Defender for Endpoint. While the alert store has room for one budget, a batch only adds alerts, at most 256, their identifiers stay unique
  however often batches are sent, an acknowledgement counts them, and a complete one means that the occurrence of every alert and incident of the batch is stored.\<close>

theorem mde_batch_stored:
  assumes "id_column ca al_alert_id" "store_ok ca s" "distinct (row_ids al_alert_id s)" "budget_room ca fresh_budget s"
    and run: "ingest_mde_security_batch sha256 cm ca raw disks batch (m, s) = ((m', s'), answer)"
  shows "store_ok ca s' \<and> distinct (row_ids al_alert_id s') \<and> (\<exists>new. s_rows s' = s_rows s @ new \<and> length new \<le> 256
    \<and> (\<forall>ack. answer = Inr ack \<longrightarrow> ack_records ack = int (length new) \<and> (ack_status ack = A_COMPLETE \<longrightarrow>
        (\<forall>item \<in> set (mb_alerts batch). occurrence_stored (alert_from_mde_alert sha256 (mb_tenant_id batch)) s' item)
        \<and> (\<forall>item \<in> set (mb_incidents batch). occurrence_stored (alert_from_mde_incident sha256 (mb_tenant_id batch)) s' item))))"
proof -
  let ?A = "alert_from_mde_alert sha256 (mb_tenant_id batch)" and ?I = "alert_from_mde_incident sha256 (mb_tenant_id batch)"
  obtain b1 s1 err1 where one: "derive_loop ca ?A disks 0 (mb_alerts batch) (fresh_budget, s) = ((b1, s1), err1)" by (metis prod.collapse)
  obtain b2 s2 err2 where two: "derive_loop ca ?I disks (length (mb_alerts batch)) (mb_incidents batch) (b1, s1) = ((b2, s2), err2)" by (metis prod.collapse)
  note ok1 = derive_loop_ok [OF assms(1) one assms(2,3) fresh_budget_ok]
  then have ok2: "store_ok ca s2 \<and> distinct (row_ids al_alert_id s2) \<and> budget_ok b2" using derive_loop_ok [OF assms(1) two] by blast
  obtain new1 where r1: "s_rows s1 = s_rows s @ new1" "db_records b1 = length new1" "budget_room ca b1 s1" "budget_ok b1"
    "err1 = None \<and> \<not> db_truncated b1 \<longrightarrow> (\<forall>item \<in> set (mb_alerts batch). occurrence_stored ?A s1 item)"
    using derive_loop_room [OF assms(1) one assms(4) fresh_budget_ok] by (auto simp: fresh_budget_def)
  obtain new2 where r2: "s_rows s2 = s_rows s1 @ new2" "db_records b2 = db_records b1 + length new2" "budget_ok b2"
    "err2 = None \<and> \<not> db_truncated b2 \<longrightarrow> (\<forall>item \<in> set (mb_incidents batch). occurrence_stored ?I s2 item)"
    using derive_loop_room [OF assms(1) two r1(3,4)] by auto
  have kept: "occurrence_stored ?A s1 item \<Longrightarrow> occurrence_stored ?A s2 item" for item
    using r2(1) by (auto simp: occurrence_stored_def row_ids_def split: sum.splits)
  from one two run show ?thesis
  proof (cases rule: mde_ends)
    case refused
    then show ?thesis using assms(2,3) by auto
  next
    case failed
    then show ?thesis using ok1 r1(1,2,4) by (auto simp: budget_ok_def MAX_DERIVED_RECORDS_PER_INGEST_def)
  next
    case full
    then show ?thesis using ok1 r1(1,2,4) by (auto simp: budget_ok_def MAX_DERIVED_RECORDS_PER_INGEST_def make_ack_def budget_outcome_def)
  next
    case through
    have "ack_records ack = int (length (new1 @ new2)) \<and> (ack_status ack = A_COMPLETE \<longrightarrow> (\<forall>item \<in> set (mb_alerts batch). occurrence_stored ?A s2 item)
        \<and> (\<forall>item \<in> set (mb_incidents batch). occurrence_stored ?I s2 item))" if "answer = Inr ack" for ack
      using that through r1(2,5) r2(2,4) kept
      by (cases err2) (auto simp: settle_ack_def make_ack_def failed_outcome_def budget_outcome_def Let_def split: if_splits)
    moreover have "s_rows s' = s_rows s @ new1 @ new2" "length (new1 @ new2) \<le> 256" using through(1) r1(1,2) r2(1-3) by (simp_all add: budget_ok_def MAX_DERIVED_RECORDS_PER_INGEST_def)
    ultimately show ?thesis using ok2 through(1) by blast
  qed
qed

section \<open>Witnesses\<close>

definition dfx_store :: "(string \<Rightarrow> 'p \<Rightarrow> string option) \<Rightarrow> 'p store_config" where
  "dfx_store fld = \<lparr>st_max_bytes = 0, st_max_table_bytes = 0, st_max_rows = 0, st_max_record_bytes = 0, st_read_max_bytes = 0, st_size = (\<lambda>_. 1), st_field = fld\<rparr>"

definition dfx_sha256 :: "string \<Rightarrow> string" where "dfx_sha256 s = take 64 s"

definition dfx_snapshot :: mdvm_snapshot where
  "dfx_snapshot = \<lparr>ms_report_id = ''r1'', ms_device_id = ''d1'', ms_host_id = ''h1'', ms_device_name = ''pc'', ms_os_platform = ''Windows'', ms_os_version = None,
     ms_os_architecture = None, ms_observed_at = 7, ms_part_index = 1, ms_part_total = 1,
     ms_vulnerabilities = [\<lparr>mv_record_id = ''x'', mv_cve_id = ''CVE-1'', mv_software_vendor = ''v'', mv_software_name = ''n'', mv_software_version = ''1'', mv_severity = HIGH,
       mv_cvss_score = None, mv_exploitability_level = None, mv_recommended_security_update = None, mv_recommended_security_update_id = None,
       mv_recommended_security_update_url = None, mv_recommendation_reference = None, mv_security_update_available = None, mv_first_seen_at = Some 5, mv_last_seen_at = None,
       mv_last_event_at = None, mv_rbac_group_id = None, mv_rbac_group_name = None, mv_disk_paths = [], mv_registry_paths = [], mv_evidence_truncated = False\<rparr>]\<rparr>"

definition dfx_batch :: mdvm_vulnerability_batch where
  "dfx_batch = \<lparr>vb_batch_id = ''b1'', vb_collected_at = 7, vb_tenant_id = ''t'', vb_mode = BASELINE, vb_snapshots = [dfx_snapshot]\<rparr>"

definition dfx_mde :: mde_security_batch where
  "dfx_mde = \<lparr>mb_batch_id = ''b1'', mb_collected_at = 4, mb_tenant_id = ''t'', mb_query_started_at = 0, mb_alerts = [\<lparr>md_alert_id = ''a1'', md_provider_alert_id = None,
     md_incident_id = None, md_title = ''T'', md_description = ''D'', md_severity = HIGH, md_provider_status = ''new'', md_classification = None, md_determination = None,
     md_service_source = None, md_product_name = None, md_detection_source = None, md_created_at = 3, md_first_activity_at = None, md_last_activity_at = None, md_last_updated_at = 4,
     md_resolved_at = None, md_portal_url = None, md_mitre_techniques = [], md_related_asset_ids = [], md_evidence = [], md_evidence_truncated = False\<rparr>], mb_incidents = []\<rparr>"

lemma dfx_columns:
  "column (dfx_store (\<lambda>_ b. Some (vb_batch_id b))) ''batch_id'' vb_batch_id" "column (dfx_store (\<lambda>_ r. Some (ar_report_id r))) ''report_id'' ar_report_id"
  "column (dfx_store (\<lambda>_ d. Some (dx_report_id d))) ''report_id'' dx_report_id"
  using batch_id_field by (simp_all add: column_def dfx_store_def) (code_simp+)

lemma dfx_empty: "store_ok (dfx_store fld) empty_store" "unbounded (dfx_store fld)" "find_one c f i empty_store = None" "row_ids uid empty_store = []"
  by (simp_all add: store_ok_def empty_store_def dfx_store_def unbounded_def find_one_def first_row_def order_desc_limit_def row_ids_def)

lemma dfx_append: "store_append (dfx_store fld) (0, 0, False) p s = Inr (insert_record p 1 s)"
  by (simp add: store_append_def append_record_def write_budget_def prune_for_insert_def dfx_store_def Let_def)

lemma dfx_derived: "\<exists>rep det. derive_mdvm_snapshot dfx_sha256 dfx_snapshot = Inr (rep, det) \<and> length (ar_vulnerabilities rep) = 1"
proof -
  have "length (mdvm_evidence item) \<le> 4096" for item by (simp add: mdvm_evidence_def)
  then show ?thesis
    by (simp add: derive_mdvm_snapshot_def dfx_snapshot_def mdvm_package_def mdvm_finding_def valid_package_def valid_vuln_def valid_coverage_def valid_detection_def valid_str_short valid_ident_short
        valid_opt_str_def valid_opt_ident_def rbind_def Let_def mdvm_asset_id_def dfx_sha256_def NUL_def MDVM_SOURCE_def MAX_WIRE_STRING_CHARS_def MAX_CORRELATION_IDENTIFIER_CHARS_def MAX_NESTED_LIST_ITEMS_def
        mdvm_references_def detail_def truthy_def startswith_def upper_def valid_strs_def)
qed

lemma dfx_run:
  "\<exists>m' r' d' ack. ingest_mdvm_vulnerability_batch dfx_sha256 (dfx_store (\<lambda>_ b. Some (vb_batch_id b))) (dfx_store (\<lambda>_ r. Some (ar_report_id r))) (dfx_store (\<lambda>_ d. Some (dx_report_id d)))
     (0, 0, False) (\<lambda>_. (0, 0, False)) dfx_batch (empty_store, empty_store, empty_store) = ((m', r', d'), Inr ack) \<and> ack_records ack = 2"
proof -
  obtain rep det where "derive_mdvm_snapshot dfx_sha256 dfx_snapshot = Inr (rep, det)" using dfx_derived by blast
  then show ?thesis
    by (simp add: ingest_mdvm_vulnerability_batch_def dfx_batch_def dfx_empty dfx_append append_once_def rbind_def settle_ack_def make_ack_def)
qed

lemma dfx_alert: "\<exists>a. alert_from_mde_alert dfx_sha256 ''t'' (hd (mb_alerts dfx_mde)) = Inr a"
proof -
  have "length (dfx_sha256 w) \<le> 64" for w by (simp add: dfx_sha256_def)
  then have ident: "length (mde_identifier dfx_sha256 kind tenant x v) \<le> 68 + length kind + 1" for kind tenant x v by (simp add: mde_identifier_def)
  have "length (bounded_description ps) \<le> 4096" for ps by (simp add: bounded_description_def)
  then show ?thesis
    using order_trans [OF ident [of "''alert''"], of 256] order_trans [OF ident [of "''alert-occurrence''"], of 256]
    by (simp add: alert_from_mde_alert_def dfx_mde_def mde_occurrence_def validate_alert_def valid_str_short valid_ident_short valid_opt_str_def valid_opt_ident_def valid_idents_def
        rbind_def Let_def MAX_WIRE_STRING_CHARS_def MAX_CORRELATION_IDENTIFIER_CHARS_def MAX_NESTED_LIST_ITEMS_def)
qed

lemma dfx_mde_run:
  "\<exists>m' s' ack. ingest_mde_security_batch dfx_sha256 (dfx_store (\<lambda>_ b. Some (mb_batch_id b))) (dfx_store (\<lambda>_ a. Some (al_alert_id a)))
     (0, 0, False) (\<lambda>_. (0, 0, False)) dfx_mde (empty_store, empty_store) = ((m', s'), Inr ack) \<and> ack_status ack = A_COMPLETE \<and> ack_records ack = 1"
proof -
  obtain a where a: "alert_from_mde_alert dfx_sha256 ''t'' (hd (mb_alerts dfx_mde)) = Inr a" using dfx_alert by blast
  have "derive_loop (dfx_store (\<lambda>_ a. Some (al_alert_id a))) (alert_from_mde_alert dfx_sha256 ''t'') (\<lambda>_. (0, 0, False)) 0 (mb_alerts dfx_mde) (fresh_budget, empty_store)
      = ((fresh_budget\<lparr>db_records := 1, db_bytes := 1\<rparr>, insert_record a 1 empty_store), None)"
    using a by (simp add: dfx_mde_def budget_append_def dfx_empty dfx_append rbind_def fresh_budget_def MAX_DERIVED_RECORDS_PER_INGEST_def MAX_DERIVED_BYTES_PER_INGEST_def Let_def)
      (simp add: dfx_store_def)
  moreover have "budget_outcome (fresh_budget\<lparr>db_records := 1, db_bytes := 1\<rparr>) [] = \<lparr>do_status = R_COMPLETE, do_records = 1, do_truncated = False, do_reason = None\<rparr>"
    "db_truncated (fresh_budget\<lparr>db_records := 1, db_bytes := 1\<rparr>) = False" "mb_incidents dfx_mde = []" "mb_tenant_id dfx_mde = ''t''"
    by (simp_all add: budget_outcome_def fresh_budget_def truthy_def dfx_mde_def)
  ultimately show ?thesis
    by (simp add: ingest_mde_security_batch_def store_mde_security_batch_def dfx_empty dfx_append settle_ack_def make_ack_def Let_def)
qed


theorem mde_batch_stored_witness:
  "\<exists>m' s' ack. ingest_mde_security_batch dfx_sha256 (dfx_store (\<lambda>_ b. Some (mb_batch_id b))) (dfx_store (\<lambda>_ a. Some (al_alert_id a)))
     (0, 0, False) (\<lambda>_. (0, 0, False)) dfx_mde (empty_store, empty_store) = ((m', s'), Inr ack) \<and> length (s_rows s') = 1
   \<and> occurrence_stored (alert_from_mde_alert dfx_sha256 ''t'') s' (hd (mb_alerts dfx_mde))"
proof -
  obtain m' s' ack where run: "ingest_mde_security_batch dfx_sha256 (dfx_store (\<lambda>_ b. Some (mb_batch_id b))) (dfx_store (\<lambda>_ a. Some (al_alert_id a)))
     (0, 0, False) (\<lambda>_. (0, 0, False)) dfx_mde (empty_store, empty_store) = ((m', s'), Inr ack)" "ack_status ack = A_COMPLETE" "ack_records ack = 1" using dfx_mde_run by blast
  have "id_column (dfx_store (\<lambda>_ a. Some (al_alert_id a))) al_alert_id" "budget_room (dfx_store (\<lambda>_ a. Some (al_alert_id a))) fresh_budget empty_store"
    "distinct (row_ids al_alert_id empty_store)" by (simp_all add: id_column_def budget_room_def dfx_store_def dfx_empty)
  from mde_batch_stored [OF this(1) dfx_empty(1) this(3,2) run(1)] run have "length (s_rows s') = 1 \<and> occurrence_stored (alert_from_mde_alert dfx_sha256 ''t'') s' (hd (mb_alerts dfx_mde))"
    by (auto simp: dfx_mde_def empty_store_def)
  then show ?thesis using run(1) by blast
qed

end
