(* ===== verification/Projection_Cache.thy ===== *)
theory Projection_Cache
  imports Py_Prelude
begin

text \<open>
  The in-process cache of report projections, \<open>analyzer/api/report_projection_cache.py\<close>: an \<open>OrderedDict\<close> in order of last use, bounded by entries and by estimated
  bytes. An entry carries the fingerprint of the data it was computed from. The lock makes every call atomic; the metrics are left out.

  The locale \<open>fingerprinted\<close> is what a client needs of the data behind the cache: an unchanged fingerprint means an unchanged projection.
\<close>

section \<open>State\<close>

record ('f, 'v) cache_entry =
  ce_value :: 'v
  ce_bytes :: int
  ce_fingerprint :: 'f

record ('f, 'v) projection_cache =
  pj_max_entries :: nat
  pj_max_bytes :: nat
  pj_entries :: "(string \<times> ('f, 'v) cache_entry) list"
  pj_bytes :: int

definition new_cache :: "int \<Rightarrow> int \<Rightarrow> ('f, 'v) projection_cache result" where
  "new_cache max_entries max_bytes =
     (if max_entries < 0 then Inl ValueError else if max_bytes < 0 then Inl ValueError
      else Inr \<lparr>pj_max_entries = nat max_entries, pj_max_bytes = nat max_bytes, pj_entries = [], pj_bytes = 0\<rparr>)"

definition cache_enabled :: "('f, 'v) projection_cache \<Rightarrow> bool" where
  "cache_enabled c = (0 < pj_max_entries c \<and> 0 < pj_max_bytes c)"

section \<open>Operations\<close>

definition drop_key :: "string \<Rightarrow> (string \<times> 'e) list \<Rightarrow> (string \<times> 'e) list" where
  "drop_key k es = filter (\<lambda>e. fst e \<noteq> k) es"

definition cache_get :: "string \<Rightarrow> 'f \<Rightarrow> ('f, 'v) projection_cache \<Rightarrow> ('f, 'v) projection_cache \<times> 'v option" where
  "cache_get k fp c =
     (case map_of (pj_entries c) k of
        None \<Rightarrow> (c, None)
      | Some e \<Rightarrow>
          if ce_fingerprint e \<noteq> fp then (c\<lparr>pj_entries := drop_key k (pj_entries c), pj_bytes := pj_bytes c - ce_bytes e\<rparr>, None)
          else (c\<lparr>pj_entries := drop_key k (pj_entries c) @ [(k, e)]\<rparr>, Some (ce_value e)))"

fun evict :: "nat \<Rightarrow> nat \<Rightarrow> int \<Rightarrow> (string \<times> ('f, 'v) cache_entry) list \<Rightarrow> int \<Rightarrow> (string \<times> ('f, 'v) cache_entry) list \<times> int" where
  "evict max_entries max_bytes n [] bytes = ([], bytes)"
| "evict max_entries max_bytes n (e # es) bytes =
     (if max_entries \<le> length (e # es) \<or> int max_bytes < bytes + n then evict max_entries max_bytes n es (bytes - ce_bytes (snd e)) else (e # es, bytes))"

definition cache_put :: "string \<Rightarrow> 'f \<Rightarrow> 'v \<Rightarrow> int \<Rightarrow> ('f, 'v) projection_cache \<Rightarrow> (('f, 'v) projection_cache \<times> bool) result" where
  "cache_put k fp v n c =
     (if n < 0 then Inl ValueError
      else if \<not> cache_enabled c \<or> int (pj_max_bytes c) < n then Inr (c, False)
      else
        let bytes = (case map_of (pj_entries c) k of None \<Rightarrow> pj_bytes c | Some e \<Rightarrow> pj_bytes c - ce_bytes e);
            (es, bytes') = evict (pj_max_entries c) (pj_max_bytes c) n (drop_key k (pj_entries c)) bytes in
        Inr (c\<lparr>pj_entries := es @ [(k, \<lparr>ce_value = v, ce_bytes = n, ce_fingerprint = fp\<rparr>)], pj_bytes := bytes' + n\<rparr>, True))"

definition cache_snapshot :: "('f, 'v) projection_cache \<Rightarrow> nat \<times> int" where
  "cache_snapshot c = (length (pj_entries c), pj_bytes c)"

section \<open>Bounds\<close>

definition entry_sum :: "(string \<times> ('f, 'v) cache_entry) list \<Rightarrow> int" where
  "entry_sum es = sum_list (map (\<lambda>e. ce_bytes (snd e)) es)"

definition cache_ok :: "('f, 'v) projection_cache \<Rightarrow> bool" where
  "cache_ok c = (distinct (map fst (pj_entries c)) \<and> (\<forall>e \<in> set (pj_entries c). 0 \<le> ce_bytes (snd e)) \<and> pj_bytes c = entry_sum (pj_entries c)
     \<and> length (pj_entries c) \<le> pj_max_entries c \<and> pj_bytes c \<le> int (pj_max_bytes c))"

lemma entry_sum_simps [simp]: "entry_sum [] = 0" "entry_sum (e # es) = ce_bytes (snd e) + entry_sum es" "entry_sum (es @ fs) = entry_sum es + entry_sum fs"
  by (simp_all add: entry_sum_def)

lemma drop_key_absent: "k \<notin> fst ` set es \<Longrightarrow> drop_key k es = es"
  by (auto simp: drop_key_def filter_id_conv)

lemma drop_key_counts:
  assumes "distinct (map fst es)" "map_of es k = Some e"
  shows "entry_sum (drop_key k es) = entry_sum es - ce_bytes e \<and> length (drop_key k es) = length es - 1"
  using assms
proof (induction es)
  case (Cons x xs)
  show ?case
  proof (cases "fst x = k")
    case True
    then have "drop_key k xs = xs" using Cons.prems(1) by (intro drop_key_absent) auto
    then show ?thesis using True Cons.prems by (cases x) (simp add: drop_key_def)
  next
    case False
    then have m: "map_of xs k = Some e" "distinct (map fst xs)" using Cons.prems by (cases x, auto)+
    then have "xs \<noteq> []" by auto
    then show ?thesis using Cons.IH [OF m(2,1)] False by (simp add: drop_key_def)
  qed
qed simp

lemmas drop_key_sum = drop_key_counts [THEN conjunct1] drop_key_counts [THEN conjunct2]

lemma drop_key_set [simp]: "set (drop_key k es) = {e \<in> set es. fst e \<noteq> k}"
  by (auto simp: drop_key_def)

lemma drop_key_distinct: "distinct (map fst es) \<Longrightarrow> distinct (map fst (drop_key k es))"
  by (simp add: drop_key_def distinct_map_filter)

lemma drop_key_length: "length (drop_key k es) \<le> length es"
  by (simp add: drop_key_def)

text \<open>Eviction keeps a suffix, the longest that leaves room.\<close>

lemma evict_spec:
  assumes "evict m b n es bytes = (es', bytes')" "bytes = entry_sum es" "\<forall>e \<in> set es. 0 \<le> ce_bytes (snd e)" "0 < m" "n \<le> int b"
  shows "(\<exists>k. es' = drop k es \<and> (\<forall>j < k. m \<le> length (drop j es) \<or> int b < entry_sum (drop j es) + n)) \<and> bytes' = entry_sum es' \<and> length es' < m \<and> bytes' + n \<le> int b"
  using assms
proof (induction es arbitrary: bytes)
  case (Cons e es)
  show ?case
  proof (cases "m \<le> length (e # es) \<or> int b < bytes + n")
    case True
    then have "evict m b n es (bytes - ce_bytes (snd e)) = (es', bytes')" using Cons.prems(1) by simp
    from Cons.IH [OF this] Cons.prems obtain k where k: "es' = drop k es" "\<forall>j < k. m \<le> length (drop j es) \<or> int b < entry_sum (drop j es) + n"
      "bytes' = entry_sum es'" "length es' < m" "bytes' + n \<le> int b" by auto
    have "m \<le> length (drop j (e # es)) \<or> int b < entry_sum (drop j (e # es)) + n" if "j < Suc k" for j
      using that k(2) True Cons.prems(2) by (cases j) auto
    then show ?thesis using k by (intro conjI exI [of _ "Suc k"]) auto
  next
    case False
    then show ?thesis using Cons.prems by (auto intro: exI [of _ 0])
  qed
qed auto

lemma cache_get_ok:
  assumes "cache_ok c"
  shows "cache_ok (fst (cache_get k fp c))"
proof (cases "map_of (pj_entries c) k")
  case None
  then show ?thesis using assms by (simp add: cache_get_def)
next
  case (Some e)
  note d = drop_key_sum [OF _ Some] drop_key_distinct [of "pj_entries c" k]
  have "e \<in> snd ` set (pj_entries c)" using map_of_SomeD [OF Some] by force
  moreover have "pj_entries c \<noteq> []" using Some by auto
  ultimately show ?thesis using assms d Some by (auto simp: cache_get_def cache_ok_def)
qed

lemma cache_put_ok:
  assumes "cache_ok c" "cache_put k fp v n c = Inr (c', b)"
  shows "cache_ok c' \<and> (b \<longleftrightarrow> cache_enabled c \<and> n \<le> int (pj_max_bytes c))
    \<and> (b \<longrightarrow> (\<exists>j. pj_entries c' = drop j (drop_key k (pj_entries c)) @ [(k, \<lparr>ce_value = v, ce_bytes = n, ce_fingerprint = fp\<rparr>)]))
    \<and> (\<not> b \<longrightarrow> c' = c)"
proof (cases "cache_enabled c \<and> n \<le> int (pj_max_bytes c)")
  case True
  let ?es = "drop_key k (pj_entries c)" and ?bytes = "case map_of (pj_entries c) k of None \<Rightarrow> pj_bytes c | Some e \<Rightarrow> pj_bytes c - ce_bytes e"
  have n: "0 \<le> n" using assms(2) by (auto simp: cache_put_def split: if_splits)
  obtain es bytes' where ev: "evict (pj_max_entries c) (pj_max_bytes c) n ?es ?bytes = (es, bytes')" by fastforce
  have bytes: "?bytes = entry_sum ?es"
    using assms(1) drop_key_sum(1) [of "pj_entries c" k] drop_key_absent [of k "pj_entries c"]
    by (auto simp: cache_ok_def map_of_eq_None_iff split: option.splits)
  have pos: "\<forall>e \<in> set ?es. 0 \<le> ce_bytes (snd e)" "0 < pj_max_entries c" using assms(1) True by (auto simp: cache_ok_def cache_enabled_def)
  from evict_spec [OF ev bytes pos] True obtain j where j: "es = drop j ?es" "bytes' = entry_sum es" "length es < pj_max_entries c" "bytes' + n \<le> int (pj_max_bytes c)" by blast
  have c': "c' = c\<lparr>pj_entries := es @ [(k, \<lparr>ce_value = v, ce_bytes = n, ce_fingerprint = fp\<rparr>)], pj_bytes := bytes' + n\<rparr>" "b"
    using assms(2) True n ev by (auto simp: cache_put_def Let_def split: prod.splits if_splits)
  have "distinct (map fst es)" using drop_key_distinct [of "pj_entries c" k] assms(1) by (simp add: j(1) cache_ok_def drop_map [symmetric])
  moreover have "set es \<subseteq> set ?es" unfolding j(1) by (rule set_drop_subset)
  then have "k \<notin> fst ` set es" "\<forall>e \<in> set es. 0 \<le> ce_bytes (snd e)" using pos(1) by auto
  ultimately have "cache_ok c'" using j n by (auto simp: c'(1) cache_ok_def)
  then show ?thesis using c' True j(1) by auto
next
  case False
  then have "c' = c" "\<not> b" using assms(2) by (auto simp: cache_put_def split: if_splits)
  then show ?thesis using assms(1) False by auto
qed

section \<open>Coherence\<close>

text \<open>Data that evolves, and whose fingerprint tells when a projection of it changed.\<close>

locale fingerprinted =
  fixes later :: "'s \<Rightarrow> 's \<Rightarrow> bool" and good_key :: "string \<Rightarrow> bool" and fp :: "string \<Rightarrow> 's \<Rightarrow> 'f" and project :: "string \<Rightarrow> 's \<Rightarrow> 'v result"
  assumes later_trans: "later s t \<Longrightarrow> later t u \<Longrightarrow> later s u"
    and unchanged: "good_key k \<Longrightarrow> later s t \<Longrightarrow> fp k t = fp k s \<Longrightarrow> project k t = project k s"
begin

text \<open>Every entry was computed from an earlier state with its fingerprint.\<close>

definition coherent :: "'s \<Rightarrow> ('f, 'v) projection_cache \<Rightarrow> bool" where
  "coherent s c = (\<forall>(k, e) \<in> set (pj_entries c). good_key k \<and> (\<exists>s0. later s0 s \<and> ce_fingerprint e = fp k s0 \<and> project k s0 = Inr (ce_value e)))"

lemma coherent_later: "coherent s c \<Longrightarrow> later s t \<Longrightarrow> coherent t c"
  unfolding coherent_def using later_trans by fast

lemma coherent_subset: "coherent s c \<Longrightarrow> set (pj_entries c') \<subseteq> set (pj_entries c) \<Longrightarrow> coherent s c'"
  unfolding coherent_def by fast

lemma get_coherent: "coherent s c \<Longrightarrow> coherent s (fst (cache_get k f c))"
  by (rule coherent_subset) (auto simp: cache_get_def dest: map_of_SomeD split: option.splits)

text \<open>A hit is what would be computed now.\<close>

lemma hit_current:
  assumes "coherent s c" "cache_get k (fp k s) c = (c', Some v)"
  shows "project k s = Inr v"
proof -
  obtain e where e: "map_of (pj_entries c) k = Some e" "ce_fingerprint e = fp k s" "v = ce_value e"
    using assms(2) by (auto simp: cache_get_def split: option.splits if_splits)
  then obtain s0 where "good_key k" "later s0 s" "fp k s = fp k s0" "project k s0 = Inr v" using assms(1) map_of_SomeD [OF e(1)] by (auto simp: coherent_def)
  then show ?thesis using unchanged by metis
qed

text \<open>A projection may be stored under the fingerprint of the earlier state it belongs to.\<close>

lemma put_coherent:
  assumes "coherent s c" "cache_ok c" "good_key k" "later s0 s" "project k s0 = Inr v" "cache_put k (fp k s0) v n c = Inr (c', b)"
  shows "coherent s c'"
proof (cases b)
  case True
  let ?e = "(k, \<lparr>ce_value = v, ce_bytes = n, ce_fingerprint = fp k s0\<rparr>)"
  obtain j where "pj_entries c' = drop j (drop_key k (pj_entries c)) @ [?e]" using cache_put_ok [OF assms(2,6)] True by blast
  then have "x \<in> set (pj_entries c) \<or> x = ?e" if "x \<in> set (pj_entries c')" for x using that by (auto dest: in_set_dropD)
  then show ?thesis using assms(1,3-5) unfolding coherent_def by fastforce
next
  case False
  then show ?thesis using cache_put_ok [OF assms(2,6)] assms(1) by simp
qed

end

end
