(* ===== verification/Report_Detail.thy ===== *)
theory Report_Detail
  imports Auto_Detect Record_Store Projection_Cache
begin

text \<open>
  The report detail read model of \<open>analyzer/api/reports.py\<close>: the chunks of a report and of its detections are collected from their stores, their assets and findings
  merged and ordered, the projection cached, and pages cut from it. Of a report header the model keeps the fields of \<open>asset_report\<close>; the JSON size of a projection is an
  argument. The two stores are read at different moments while ingests append to them; a snapshot is the pair of what was read.
\<close>

section \<open>Merging\<close>

definition ASSET_KIND_ORDER :: "string list" where
  "ASSET_KIND_ORDER = [''security_product'', ''service'', ''port'', ''account'', ''credential'', ''container'', ''image'', ''package'']"

fun kind_name :: "asset_kind \<Rightarrow> string" where
  "kind_name K_SERVICE = ''service''"
| "kind_name K_PORT = ''port''"
| "kind_name K_ACCOUNT = ''account''"
| "kind_name K_CREDENTIAL = ''credential''"
| "kind_name K_CONTAINER = ''container''"
| "kind_name K_IMAGE = ''image''"
| "kind_name K_SECURITY_PRODUCT = ''security_product''"

fun asset_id_of :: "asset \<Rightarrow> string" where
  "asset_id_of (Package p) = pk_asset_id p"
| "asset_id_of (Other_asset k i) = i"

fun asset_kind_of :: "asset \<Rightarrow> string" where
  "asset_kind_of (Package p) = ''package''"
| "asset_kind_of (Other_asset k i) = kind_name k"

text \<open>The position in the order; its length for a kind that is not there.\<close>

definition kind_rank :: "string \<Rightarrow> nat" where
  "kind_rank k = length (takeWhile (\<lambda>x. x \<noteq> k) ASSET_KIND_ORDER)"

definition merged_assets :: "asset_report list \<Rightarrow> asset list" where
  "merged_assets reports = sort_key (\<lambda>a. kind_rank (asset_kind_of a))
     (map snd (fold (\<lambda>a. AList.update (asset_id_of a) a) (concat (map ar_assets reports)) []))"

type_synonym finding_key = "string \<times> string \<times> string \<times> string \<times> string"

definition or_empty :: "string option \<Rightarrow> string" where
  "or_empty x = (case truthy x of None \<Rightarrow> [] | Some s \<Rightarrow> s)"

definition vulnerability_key :: "vuln \<Rightarrow> finding_key" where
  "vulnerability_key f = (vn_source f, vu_vuln_id f, vn_affected_asset_id f, or_empty (vn_parent_asset_id f), or_empty (vn_evidence f))"

definition merge_finding :: "vuln \<Rightarrow> vuln \<Rightarrow> vuln" where
  "merge_finding current item =
     item\<lparr>vn_cvss_score := (case vn_cvss_score item of None \<Rightarrow> vn_cvss_score current | Some s \<Rightarrow> Some s),
          vn_evidence := (case vn_evidence item of None \<Rightarrow> vn_evidence current | Some e \<Rightarrow> Some e),
          vn_references := take MAX_NESTED_LIST_ITEMS (fromkeys (vn_references current @ vn_references item))\<rparr>"

definition absorb_finding :: "vuln \<Rightarrow> (finding_key \<times> vuln) list \<Rightarrow> (finding_key \<times> vuln) list" where
  "absorb_finding item d =
     (case map_of d (vulnerability_key item) of
        None \<Rightarrow> AList.update (vulnerability_key item) item d
      | Some current \<Rightarrow> AList.update (vulnerability_key item) (merge_finding current item) d)"

definition finding_order :: "vuln \<Rightarrow> int \<times> rat" where
  "finding_order f = (- int (severity_rank (vu_severity f)), - (case vn_cvss_score f of None \<Rightarrow> 0 | Some s \<Rightarrow> s))"

definition merged_vulnerabilities :: "asset_report list \<Rightarrow> detection_record list \<Rightarrow> vuln list" where
  "merged_vulnerabilities reports detections = sort_key finding_order
     (map snd (fold absorb_finding (concat (map ar_vulnerabilities reports @ map dx_vulnerabilities detections)) []))"

section \<open>The projection\<close>

record lineage_summary =
  ls_lineage_id :: string
  ls_expected_chunks :: "nat option"
  ls_received_chunks :: nat
  ls_complete :: "bool option"

record report_projection =
  rp_report_id :: string
  rp_first :: asset_report
  rp_asset_lineage :: lineage_summary
  rp_assets :: "asset list"
  rp_asset_kind_totals :: "(string \<times> nat) list"
  rp_detection_lineage :: lineage_summary
  rp_detection_records :: "detection_record list"
  rp_vulnerabilities :: "vuln list"

definition detection_summary :: "detection_record \<Rightarrow> detection_record" where
  "detection_summary d = d\<lparr>dx_vulnerabilities := []\<rparr>"

text \<open>The projection as a function of the lineage rows of both stores.\<close>

definition build_report_projection :: "string \<Rightarrow> asset_report list \<Rightarrow> (string \<Rightarrow> detection_record list) \<Rightarrow> report_projection result" where
  "build_report_projection rid asset_rows detection_rows =
     (case lineage_rows (\<lambda>r. Some (ar_report_id r)) L_ASSET rid asset_rows of (asset_root, asset_expected, asset_complete, reports) \<Rightarrow>
        if reports = [] then Inl (HTTPException 404)
        else
          (case lineage_rows (\<lambda>d. Some (dx_report_id d)) L_ASSET asset_root (detection_rows asset_root) of (detection_root, detection_expected, detection_complete, detections) \<Rightarrow>
             let expected = (case asset_expected of Some n \<Rightarrow> Some n | None \<Rightarrow> detection_expected);
                 combined = (case expected of Some n \<Rightarrow> Some (length detections = n \<and> asset_complete \<noteq> Some False) | None \<Rightarrow> detection_complete);
                 assets = merged_assets reports in
             Inr \<lparr>rp_report_id = asset_root, rp_first = hd reports,
               rp_asset_lineage = \<lparr>ls_lineage_id = asset_root, ls_expected_chunks = asset_expected, ls_received_chunks = length reports, ls_complete = asset_complete\<rparr>,
               rp_assets = assets, rp_asset_kind_totals = map (\<lambda>k. (k, length (filter (\<lambda>a. asset_kind_of a = k) assets))) ASSET_KIND_ORDER,
               rp_detection_lineage = \<lparr>ls_lineage_id = detection_root, ls_expected_chunks = expected, ls_received_chunks = length detections, ls_complete = combined\<rparr>,
               rp_detection_records = map detection_summary detections, rp_vulnerabilities = merged_vulnerabilities reports detections\<rparr>))"

section \<open>Reading through the cache\<close>

type_synonym snapshot = "asset_report record_store \<times> detection_record record_store"
type_synonym report_stores = "asset_report store_config \<times> detection_record store_config"
type_synonym store_fingerprint = "(nat \<times> nat) \<times> (nat \<times> nat)"

definition LINEAGE_FIELD :: "(string \<times> lineage_kind) option" where "LINEAGE_FIELD = Some (''report_id'', L_ASSET)"

definition projection_of :: "report_stores \<Rightarrow> string \<Rightarrow> snapshot \<Rightarrow> report_projection result" where
  "projection_of cs i s = build_report_projection i (find_lineage (fst cs) LINEAGE_FIELD ''report_id'' i L_ASSET (fst s))
     (\<lambda>j. find_lineage (snd cs) LINEAGE_FIELD ''report_id'' j L_ASSET (snd s))"

definition projection_fingerprint :: "report_stores \<Rightarrow> string \<Rightarrow> snapshot \<Rightarrow> store_fingerprint" where
  "projection_fingerprint cs i s = (lineage_fingerprint (fst cs) LINEAGE_FIELD ''report_id'' i L_ASSET (fst s), lineage_fingerprint (snd cs) LINEAGE_FIELD ''report_id'' i L_ASSET (snd s))"

definition projection_estimated_bytes :: "(report_projection \<Rightarrow> nat) \<Rightarrow> report_projection \<Rightarrow> int" where
  "projection_estimated_bytes json_bytes p = max 1 (2 * int (json_bytes p))"

text \<open>The attempts of one request (two, so the initial value is never returned): each has the snapshots of the first fingerprint, of the projection and of the second fingerprint.\<close>

fun projection_tries :: "report_stores \<Rightarrow> (report_projection \<Rightarrow> nat) \<Rightarrow> string \<Rightarrow> (snapshot \<times> snapshot \<times> snapshot) list \<Rightarrow> report_projection result
    \<Rightarrow> (store_fingerprint, report_projection) projection_cache \<Rightarrow> (store_fingerprint, report_projection) projection_cache \<times> report_projection result" where
  "projection_tries cs json_bytes base [] unstable cache = (cache, unstable)"
| "projection_tries cs json_bytes base ((before, built, after) # tries) unstable cache =
     (let fp = projection_fingerprint cs base before in
      case cache_get base fp cache of
        (cache1, Some hit) \<Rightarrow> (cache1, Inr hit)
      | (cache1, None) \<Rightarrow>
          (case projection_of cs base built of
             Inl e \<Rightarrow> (cache1, Inl e)
           | Inr p \<Rightarrow>
               if fp = projection_fingerprint cs base after
               then (case cache_put base fp p (projection_estimated_bytes json_bytes p) cache1 of Inl e \<Rightarrow> (cache1, Inl e) | Inr (cache2, _) \<Rightarrow> (cache2, Inr p))
               else projection_tries cs json_bytes base tries (Inr p) cache1))"

definition get_report_projection :: "report_stores \<Rightarrow> (report_projection \<Rightarrow> nat) \<Rightarrow> string \<Rightarrow> (snapshot \<times> snapshot \<times> snapshot) \<Rightarrow> (snapshot \<times> snapshot \<times> snapshot)
    \<Rightarrow> (store_fingerprint, report_projection) projection_cache \<Rightarrow> (store_fingerprint, report_projection) projection_cache \<times> report_projection result" where
  "get_report_projection cs json_bytes rid try1 try2 cache =
     (let base = stored_root rid L_ASSET in
      if \<not> cache_enabled cache then (cache, projection_of cs base (fst (snd try1)))
      else projection_tries cs json_bytes base [try1, try2] (Inl RuntimeError) cache)"

section \<open>Pages\<close>

definition bounded_page :: "nat \<Rightarrow> nat \<Rightarrow> nat \<Rightarrow> nat" where
  "bounded_page requested count page_size = min requested (nat (max 0 ((int count - 1) div int page_size)))"

definition page_of :: "'a list \<Rightarrow> nat \<Rightarrow> nat \<Rightarrow> nat \<times> 'a list \<times> bool" where
  "page_of xs requested page_size =
     (let actual = bounded_page requested (length xs) page_size; start = actual * page_size; paged = take page_size (drop start xs) in
      (actual, paged, start + length paged < length xs))"

record report_detail_page =
  dp_projection :: report_projection
  dp_assets :: "asset list"
  dp_asset_total :: nat
  dp_asset_page :: nat
  dp_asset_has_more :: bool
  dp_vulnerabilities :: "vuln list"
  dp_vulnerability_total :: nat
  dp_finding_page :: nat
  dp_finding_has_more :: bool

definition report_detail_page_of :: "report_projection \<Rightarrow> nat \<Rightarrow> nat \<Rightarrow> nat \<Rightarrow> nat \<Rightarrow> report_detail_page" where
  "report_detail_page_of p asset_page asset_page_size finding_page finding_page_size =
     (case (page_of (rp_assets p) asset_page asset_page_size, page_of (rp_vulnerabilities p) finding_page finding_page_size) of
        ((ap, as, am), (fp, fs, fm)) \<Rightarrow>
          \<lparr>dp_projection = p, dp_assets = as, dp_asset_total = length (rp_assets p), dp_asset_page = ap, dp_asset_has_more = am,
           dp_vulnerabilities = fs, dp_vulnerability_total = length (rp_vulnerabilities p), dp_finding_page = fp, dp_finding_has_more = fm\<rparr>)"

end
