(* ===== verification/Report_Properties.thy ===== *)
theory Report_Properties
  imports Report_Detail Store_Properties
begin

text \<open>
  Properties of the report detail read model: the cache never serves a projection older than the request and stays within its bounds, whatever is ingested meanwhile, and
  the pages of a projection together show every asset and every finding of the report once.
\<close>

section \<open>Snapshots between two fingerprints\<close>

definition store_later :: "'p store_config \<Rightarrow> 'p record_store \<Rightarrow> 'p record_store \<Rightarrow> bool" where
  "store_later c s t = (store_ok c s \<and> store_ok c t \<and> (\<exists>k. store_grows s k t))"

lemma store_later_refl: "store_ok c s \<Longrightarrow> store_later c s s"
  using store_grows_refl by (auto simp: store_later_def)

lemma store_later_trans: "store_later c s t \<Longrightarrow> store_later c t u \<Longrightarrow> store_later c s u"
  using store_grows_trans by (fastforce simp: store_later_def)

text \<open>Rows read between two equal fingerprints, and still there at the second, are the rows of the first.\<close>

lemma filter_between:
  assumes "store_later c s m" "store_later c m t" "\<forall>r \<in> set (s_rows m). P r \<longrightarrow> r \<in> set (s_rows t)"
    "length (filter P (s_rows t)) = length (filter P (s_rows s))" "max_id (filter P (s_rows t)) = max_id (filter P (s_rows s))"
  shows "filter P (s_rows m) = filter P (s_rows s)"
proof -
  obtain k j new new2 where m: "s_rows m = drop k (s_rows s) @ new" "\<forall>r \<in> set new. s_next_id s \<le> s_id r" "s_next_id s \<le> s_next_id m"
    and t: "s_rows t = drop j (s_rows m) @ new2" "\<forall>r \<in> set new2. s_next_id m \<le> s_id r"
    using assms(1,2) unfolding store_later_def store_grows_def by blast
  have ok: "store_ok c s" using assms(1) by (simp add: store_later_def)
  obtain i where "store_grows s i t" using store_later_trans [OF assms(1,2)] by (auto simp: store_later_def)
  then have eq: "filter P (s_rows t) = filter P (s_rows s)" using filter_unchanged [OF ok _ assms(4,5)] by blast
  have old: "s_id r < s_next_id s" if "r \<in> set (s_rows s)" for r using store_okD(2) [OF ok that] by simp
  have "filter P new = []"
  proof (rule ccontr)
    assume "filter P new \<noteq> []"
    then obtain r where r: "r \<in> set new" "P r" by (auto simp: filter_empty_conv)
    then have "r \<in> set (filter P (s_rows s))" using assms(3) m(1) unfolding eq [symmetric] by simp
    then show False using old [of r] m(2) r(1) by fastforce
  qed
  moreover have "filter P (take k (s_rows s)) = []"
  proof (rule ccontr)
    assume "filter P (take k (s_rows s)) \<noteq> []"
    then obtain r where r: "r \<in> set (take k (s_rows s))" "P r" by (auto simp: filter_empty_conv)
    then have s: "r \<in> set (s_rows s)" by (meson in_set_takeD)
    then have "r \<in> set (filter P (s_rows t))" unfolding eq using r(2) by simp
    then have "r \<in> set (s_rows t)" by simp
    moreover have "r \<notin> set new2" "r \<notin> set new" using t(2) m(2,3) old [OF s] by fastforce+
    ultimately have "r \<in> set (s_rows m)" unfolding t(1) by (auto simp del: drop_append dest: in_set_dropD)
    then have "r \<in> set (drop k (s_rows s))" using \<open>r \<notin> set new\<close> m(1) by simp
    moreover have "distinct (s_rows s)" using store_okD(1) [OF ok] by (metis distinct_map strict_sorted_iff)
    ultimately show False using r(1) set_take_disj_set_drop_if_distinct [of "s_rows s" k k] by blast
  qed
  ultimately show ?thesis using m(1) by (metis append_take_drop_id filter_append append_Nil append_Nil2)
qed

lemma lineage_between:
  assumes "store_later c s m" "store_later c m t" "set (s_rows m) \<subseteq> set (s_rows t)" "lineage_fingerprint c conf f v kind t = lineage_fingerprint c conf f v kind s"
    "stored_root w kind = stored_root v kind"
  shows "find_lineage c conf f w kind m = find_lineage c conf f w kind s"
proof (cases "conf \<noteq> Some (f, kind) \<or> \<not> FIELD_RE f")
  case False
  have "filter (in_lineage c f kind (stored_root v kind)) (s_rows m) = filter (in_lineage c f kind (stored_root v kind)) (s_rows s)"
    by (rule filter_between [OF assms(1,2)]) (use assms(3,4) False in \<open>auto simp: lineage_fingerprint_def Let_def\<close>)
  then show ?thesis using False assms(5) by (simp add: find_lineage_def)
qed (auto simp: find_lineage_def)

section \<open>The cache over the stores\<close>

definition snapshot_later :: "report_stores \<Rightarrow> snapshot \<Rightarrow> snapshot \<Rightarrow> bool" where
  "snapshot_later cs s t = (store_later (fst cs) (fst s) (fst t) \<and> store_later (snd cs) (snd s) (snd t))"

text \<open>An identifier whose root is no chunk identifier itself.\<close>

definition flat_id :: "string \<Rightarrow> bool" where
  "flat_id i = (stored_root (stored_root i L_ASSET) L_ASSET = stored_root i L_ASSET)"

lemma projection_between:
  assumes "flat_id i" "snapshot_later cs s m" "snapshot_later cs m t" "set (s_rows (fst m)) \<subseteq> set (s_rows (fst t))" "set (s_rows (snd m)) \<subseteq> set (s_rows (snd t))"
    "projection_fingerprint cs i t = projection_fingerprint cs i s"
  shows "projection_of cs i m = projection_of cs i s"
proof -
  have "find_lineage (fst cs) LINEAGE_FIELD ''report_id'' i L_ASSET (fst m) = find_lineage (fst cs) LINEAGE_FIELD ''report_id'' i L_ASSET (fst s)"
    using assms(2-4,6) by (intro lineage_between [of _ _ _ "fst t"]) (auto simp: snapshot_later_def projection_fingerprint_def)
  moreover have "find_lineage (snd cs) LINEAGE_FIELD ''report_id'' (stored_root i L_ASSET) L_ASSET (snd m) = find_lineage (snd cs) LINEAGE_FIELD ''report_id'' (stored_root i L_ASSET) L_ASSET (snd s)"
    using assms(1-3,5,6) by (intro lineage_between [of _ _ _ "snd t" _ _ i]) (auto simp: snapshot_later_def projection_fingerprint_def flat_id_def)
  ultimately show ?thesis by (simp add: projection_of_def build_report_projection_def lineage_rows_def Let_def)
qed

lemma snapshot_later_okD: "snapshot_later cs s t \<Longrightarrow> snapshot_later cs t t"
  by (auto simp: snapshot_later_def store_later_def intro: store_grows_refl)

interpretation rc: fingerprinted "snapshot_later cs" flat_id "projection_fingerprint cs" "projection_of cs" for cs :: report_stores
proof
  fix s t u
  assume "snapshot_later cs s t" "snapshot_later cs t u"
  then show "snapshot_later cs s u" unfolding snapshot_later_def by (auto intro: store_later_trans)
next
  fix k s t
  assume "flat_id k" "snapshot_later cs s t" "projection_fingerprint cs k t = projection_fingerprint cs k s"
  then show "projection_of cs k t = projection_of cs k s" by (intro projection_between [of k cs s t t] snapshot_later_okD) auto
qed

text \<open>One attempt: what is read in between is still there at the second fingerprint, that is, retention removes nothing during the attempt.\<close>

definition attempt_ok :: "report_stores \<Rightarrow> snapshot \<times> snapshot \<times> snapshot \<Rightarrow> bool" where
  "attempt_ok cs a = (case a of (before, built, after) \<Rightarrow> snapshot_later cs before built \<and> snapshot_later cs built after
     \<and> set (s_rows (fst built)) \<subseteq> set (s_rows (fst after)) \<and> set (s_rows (snd built)) \<subseteq> set (s_rows (snd after)))"

definition cache_coherent :: "report_stores \<Rightarrow> snapshot \<Rightarrow> (store_fingerprint, report_projection) projection_cache \<Rightarrow> bool" where
  "cache_coherent cs s c = (\<forall>(k, e) \<in> set (pj_entries c). flat_id k
     \<and> (\<exists>s0. snapshot_later cs s0 s \<and> ce_fingerprint e = projection_fingerprint cs k s0 \<and> projection_of cs k s0 = Inr (ce_value e)))"

lemma cache_coherent_rc: "cache_coherent cs = rc.coherent cs"
  by (simp add: fun_eq_iff cache_coherent_def rc.coherent_def)

fun tries_ok :: "report_stores \<Rightarrow> snapshot \<Rightarrow> (snapshot \<times> snapshot \<times> snapshot) list \<Rightarrow> bool" where
  "tries_ok cs s [] = True"
| "tries_ok cs s (a # as) = (snapshot_later cs s (fst a) \<and> attempt_ok cs a \<and> tries_ok cs (snd (snd a)) as)"

fun tries_end :: "snapshot \<Rightarrow> (snapshot \<times> snapshot \<times> snapshot) list \<Rightarrow> snapshot" where
  "tries_end s [] = s"
| "tries_end s (a # as) = tries_end (snd (snd a)) as"

lemma tries_later: "tries_ok cs s as \<Longrightarrow> snapshot_later cs s s \<Longrightarrow> snapshot_later cs s (tries_end s as)"
proof (induction as arbitrary: s)
  case (Cons a as)
  obtain x y z where a: "a = (x, y, z)" by (cases a)
  have "snapshot_later cs s z" using Cons.prems(1) unfolding a by (auto simp: attempt_ok_def intro: rc.later_trans)
  moreover have "snapshot_later cs z (tries_end z as)" using Cons.IH [of z] Cons.prems(1) snapshot_later_okD [OF calculation] by (simp add: a)
  ultimately show ?case using rc.later_trans by (simp add: a)
qed simp

lemma tries_current:
  assumes "flat_id base" "cache_ok cache" "cache_coherent cs s cache" "tries_ok cs s tries" "snapshot_later cs s s"
    "projection_tries cs json base tries unstable cache = (cache', res)"
  shows "cache_ok cache' \<and> cache_coherent cs (tries_end s tries) cache'
    \<and> (\<forall>p. res = Inr p \<longrightarrow> res = unstable \<or> (\<exists>(x, y, z) \<in> set tries. projection_of cs base x = Inr p \<or> projection_of cs base y = Inr p))"
  using assms(2-)
proof (induction tries arbitrary: s unstable cache)
  case (Cons a tries)
  obtain x y z where a: "a = (x, y, z)" by (cases a)
  let ?fp = "projection_fingerprint cs base"
  have t: "snapshot_later cs s x" "snapshot_later cs x y" "snapshot_later cs y z" "set (s_rows (fst y)) \<subseteq> set (s_rows (fst z))" "set (s_rows (snd y)) \<subseteq> set (s_rows (snd z))"
    and rest: "tries_ok cs z tries" using Cons.prems(3) by (simp_all add: a attempt_ok_def)
  have xz: "snapshot_later cs x z" and zz: "snapshot_later cs z z" using t rc.later_trans snapshot_later_okD by blast+
  have ze: "snapshot_later cs z (tries_end z tries)" by (rule tries_later [OF rest zz])
  obtain c1 hit where get: "cache_get base (?fp x) cache = (c1, hit)" by fastforce
  have cx: "rc.coherent cs x cache" using rc.coherent_later [OF Cons.prems(2) [unfolded cache_coherent_rc] t(1)] .
  have c1: "cache_ok c1" "rc.coherent cs z c1"
    using cache_get_ok [OF Cons.prems(1), of base "?fp x"] rc.coherent_later [OF rc.get_coherent [OF cx, of base "?fp x"] xz] get by simp_all
  note finish = rc.coherent_later [OF _ ze]
  show ?case
  proof (cases hit)
    case (Some p)
    then have "cache' = c1" "res = Inr p" using Cons.prems(5) get by (simp_all add: a)
    moreover have "projection_of cs base x = Inr p" using rc.hit_current [OF cx] get Some by blast
    ultimately show ?thesis using c1 finish by (auto simp: a cache_coherent_rc)
  next
    case None
    note run = Cons.prems(5) [unfolded a projection_tries.simps Let_def get None]
    show ?thesis
    proof (cases "projection_of cs base y")
      case (Inl e)
      then show ?thesis using run c1 finish by (auto simp: a cache_coherent_rc)
    next
      case (Inr p)
      show ?thesis
      proof (cases "?fp x = ?fp z")
        case True
        have px: "projection_of cs base x = Inr p" using projection_between [OF assms(1) t(2,3,4,5)] True Inr by simp
        show ?thesis
        proof (cases "cache_put base (?fp x) p (projection_estimated_bytes json p) c1")
          case (Inl e)
          then show ?thesis using run True Inr c1 finish by (auto simp: a cache_coherent_rc \<open>projection_of cs base y = Inr p\<close>)
        next
          case put: (Inr r)
          obtain c2 b where r: "r = (c2, b)" by (cases r)
          have "cache' = c2" "res = Inr p" using run True put r \<open>projection_of cs base y = Inr p\<close> by simp_all
          moreover have "cache_ok c2" using cache_put_ok [OF c1(1) put [unfolded r]] by blast
          moreover have "rc.coherent cs z c2" by (rule rc.put_coherent [OF c1(2,1) assms(1) xz px put [unfolded r]])
          ultimately show ?thesis using px finish by (auto simp: a cache_coherent_rc)
        qed
      next
        case False
        then have "projection_tries cs json base tries (Inr p) c1 = (cache', res)" using run Inr by simp
        from Cons.IH [OF c1(1) c1(2) [folded cache_coherent_rc] rest zz this] Inr show ?thesis by (fastforce simp: a)
      qed
    qed
  qed
qed simp

section \<open>Merging\<close>

definition last_with :: "('a \<Rightarrow> 'k) \<Rightarrow> 'a list \<Rightarrow> 'a \<Rightarrow> bool" where
  "last_with key xs x = (find (\<lambda>y. key y = key x) (rev xs) = Some x)"

lemma update_mem:
  assumes "distinct (map fst d)"
  shows "(j, x) \<in> set (AList.update k v d) \<longleftrightarrow> (if j = k then x = v else (j, x) \<in> set d)"
proof -
  have "(j, x) \<in> set (AList.update k v d) \<longleftrightarrow> map_of (AList.update k v d) j = Some x" using map_of_eq_Some_iff [OF distinct_update [OF assms]] by metis
  also have "\<dots> \<longleftrightarrow> (if j = k then x = v else map_of d j = Some x)" by (auto simp: update_conv')
  finally show ?thesis using map_of_eq_Some_iff [OF assms] by simp
qed

lemma fold_update_spec:
  "let d = fold (\<lambda>x. AList.update (key x) x) xs [] in distinct (map fst d) \<and> (\<forall>k x. (k, x) \<in> set d \<longrightarrow> k = key x \<and> last_with key xs x) \<and> fst ` set d = key ` set xs"
proof (induction xs rule: rev_induct)
  case (snoc y xs)
  let ?d = "fold (\<lambda>x. AList.update (key x) x) xs []"
  have d: "distinct (map fst ?d)" "\<And>k x. (k, x) \<in> set ?d \<Longrightarrow> k = key x \<and> last_with key xs x" "fst ` set ?d = key ` set xs" using snoc unfolding Let_def by blast+
  note mem = update_mem [OF d(1), of _ _ "key y" y]
  have "k = key x \<and> last_with key (xs @ [y]) x" if "(k, x) \<in> set (AList.update (key y) y ?d)" for k x
    using that d(2) [of k x] unfolding mem last_with_def by (cases "k = key y") auto
  moreover have "fst ` set (AList.update (key y) y ?d) = key ` set (xs @ [y])" using d(3) by (auto simp: dom_update)
  moreover have eq: "fold (\<lambda>x. AList.update (key x) x) (xs @ [y]) [] = AList.update (key y) y ?d" by simp
  ultimately show ?case unfolding Let_def eq using distinct_update [OF d(1)] by blast
qed (simp add: Let_def)

lemma map_snd_keys: "(\<And>k x. (k, x) \<in> set d \<Longrightarrow> k = key x) \<Longrightarrow> map key (map snd d) = map fst d"
  by (induction d) force+

lemma sort_key_distinct: "distinct (map key xs) \<Longrightarrow> distinct (map key (sort_key f xs))"
  by (metis distinct_map set_sort distinct_sort)

lemma merged_assets_spec:
  "distinct (map asset_id_of (merged_assets rs)) \<and> asset_id_of ` set (merged_assets rs) = asset_id_of ` set (concat (map ar_assets rs))
    \<and> (\<forall>a \<in> set (merged_assets rs). last_with asset_id_of (concat (map ar_assets rs)) a) \<and> sorted (map (\<lambda>a. kind_rank (asset_kind_of a)) (merged_assets rs))"
proof -
  let ?d = "fold (\<lambda>a. AList.update (asset_id_of a) a) (concat (map ar_assets rs)) []"
  note d = fold_update_spec [of asset_id_of "concat (map ar_assets rs)", unfolded Let_def]
  have keys: "map asset_id_of (map snd ?d) = map fst ?d" using d by (intro map_snd_keys) blast
  have "asset_id_of ` set (map snd ?d) = fst ` set ?d" using arg_cong [OF keys, of set] by (simp add: image_image)
  moreover have "distinct (map asset_id_of (map snd ?d))" unfolding keys using d by blast
  ultimately show ?thesis using d unfolding merged_assets_def by (auto simp: sort_key_distinct simp del: map_map)
qed

lemma vulnerability_key_merge: "vulnerability_key cur = vulnerability_key item \<Longrightarrow> vulnerability_key (merge_finding cur item) = vulnerability_key item"
  by (auto simp: vulnerability_key_def merge_finding_def or_empty_def truthy_def split: option.splits if_splits)

lemma fold_absorb_spec:
  "let d = fold absorb_finding fs [] in distinct (map fst d) \<and> (\<forall>k x. (k, x) \<in> set d \<longrightarrow> k = vulnerability_key x) \<and> fst ` set d = vulnerability_key ` set fs"
proof (induction fs rule: rev_induct)
  case (snoc f fs)
  let ?d = "fold absorb_finding fs []"
  have d: "distinct (map fst ?d)" "\<And>k x. (k, x) \<in> set ?d \<Longrightarrow> k = vulnerability_key x" "fst ` set ?d = vulnerability_key ` set fs" using snoc unfolding Let_def by blast+
  obtain v where v: "absorb_finding f ?d = AList.update (vulnerability_key f) v ?d" "vulnerability_key v = vulnerability_key f"
  proof (cases "map_of ?d (vulnerability_key f)")
    case None
    then show ?thesis using that [of f] by (simp add: absorb_finding_def)
  next
    case (Some cur)
    then show ?thesis using that [of "merge_finding cur f"] vulnerability_key_merge [of cur f] d(2) [OF map_of_SomeD [OF Some]] by (simp add: absorb_finding_def)
  qed
  have "k = vulnerability_key x" if "(k, x) \<in> set (AList.update (vulnerability_key f) v ?d)" for k x
    using that d(2) [of k x] v(2) unfolding update_mem [OF d(1)] by (cases "k = vulnerability_key f") simp_all
  moreover have "fst ` set (AList.update (vulnerability_key f) v ?d) = vulnerability_key ` set (fs @ [f])" using d(3) by (auto simp: dom_update)
  moreover have eq: "fold absorb_finding (fs @ [f]) [] = AList.update (vulnerability_key f) v ?d" using v(1) by simp
  ultimately show ?case unfolding Let_def eq using distinct_update [OF d(1)] by blast
qed (simp add: Let_def)

lemma merged_vulnerabilities_spec:
  "distinct (map vulnerability_key (merged_vulnerabilities rs ds))
    \<and> vulnerability_key ` set (merged_vulnerabilities rs ds) = vulnerability_key ` set (concat (map ar_vulnerabilities rs @ map dx_vulnerabilities ds))
    \<and> sorted (map finding_order (merged_vulnerabilities rs ds))"
proof -
  let ?d = "fold absorb_finding (concat (map ar_vulnerabilities rs @ map dx_vulnerabilities ds)) []"
  note d = fold_absorb_spec [of "concat (map ar_vulnerabilities rs @ map dx_vulnerabilities ds)", unfolded Let_def]
  have keys: "map vulnerability_key (map snd ?d) = map fst ?d" using d by (intro map_snd_keys) blast
  have "vulnerability_key ` set (map snd ?d) = fst ` set ?d" using arg_cong [OF keys, of set] by (simp add: image_image)
  moreover have "distinct (map vulnerability_key (map snd ?d))" unfolding keys using d by blast
  ultimately show ?thesis using d unfolding merged_vulnerabilities_def by (auto simp: sort_key_distinct simp del: map_map)
qed

section \<open>Paging\<close>

lemma take_pages: "0 < n \<Longrightarrow> concat (map (\<lambda>i. take n (drop (i * n) xs)) [0..<m]) = take (m * n) xs"
proof (induction m)
  case (Suc m)
  have "Suc m * n = m * n + n" by simp
  then show ?case using Suc by (simp only: take_add upt_Suc_append map_append concat_append) simp
qed simp

definition page_count :: "nat \<Rightarrow> nat \<Rightarrow> nat" where
  "page_count len n = (len + n - 1) div n"

lemma bounded_page_below:
  assumes "0 < n" "i < page_count len n"
  shows "bounded_page i len n = i"
proof -
  have pos: "0 < len" using assms by (cases "len = 0") (simp_all add: page_count_def)
  have "int len - 1 = int (len - 1)" using pos by simp
  then have "(int len - 1) div int n = int ((len - 1) div n)" by (simp only: zdiv_int)
  moreover have "page_count len n = Suc ((len - 1) div n)"
  proof -
    have "len + n - 1 = (len - 1) + n" using pos assms(1) by simp
    moreover have "((len - 1) + n) div n = Suc ((len - 1) div n)" using assms(1) by simp
    ultimately show ?thesis by (simp only: page_count_def)
  qed
  ultimately show ?thesis using assms(2) by (simp add: bounded_page_def)
qed

lemma pages_cover:
  assumes "0 < n"
  shows "concat (map (\<lambda>i. fst (snd (page_of xs i n))) [0..<page_count (length xs) n]) = xs"
proof -
  have "map (\<lambda>i. fst (snd (page_of xs i n))) [0..<page_count (length xs) n] = map (\<lambda>i. take n (drop (i * n) xs)) [0..<page_count (length xs) n]"
    using bounded_page_below [OF assms] by (intro map_cong) (simp_all add: page_of_def Let_def)
  moreover have "length xs \<le> page_count (length xs) n * n"
  proof -
    have "(length xs + n - 1) mod n < n" using assms by simp
    then show ?thesis using div_mult_mod_eq [of "length xs + n - 1" n] assms unfolding page_count_def by linarith
  qed
  ultimately show ?thesis by (simp only: take_pages [OF assms] take_all)
qed

section \<open>Properties\<close>

text \<open>C34: the report cache is never stale. Starting from a cache that is within its bounds and whose entries belong to earlier states of the stores, a request, while ingests
  append to both stores and retention spares what the request reads, returns only a projection of the stores as they were during the request, never an older one,
  and leaves a cache that is again within its bounds and coherent.\<close>

theorem projection_never_stale:
  assumes "flat_id (stored_root rid L_ASSET)" "cache_ok cache" "cache_coherent cs s cache" "snapshot_later cs s x1" "attempt_ok cs (x1, y1, z1)" "snapshot_later cs z1 x2"
    "attempt_ok cs (x2, y2, z2)" "get_report_projection cs json rid (x1, y1, z1) (x2, y2, z2) cache = (cache', res)"
  shows "cache_coherent cs z2 cache' \<and> length (pj_entries cache') \<le> pj_max_entries cache' \<and> pj_bytes cache' \<le> int (pj_max_bytes cache') \<and> cache_ok cache'
    \<and> (\<forall>p. res = Inr p \<longrightarrow> (\<exists>t \<in> {x1, y1, x2, y2}. projection_of cs (stored_root rid L_ASSET) t = Inr p))"
proof -
  let ?base = "stored_root rid L_ASSET" and ?tries = "[(x1, y1, z1), (x2, y2, z2)]"
  have ok: "tries_ok cs s ?tries" using assms(4-7) by simp
  have s: "snapshot_later cs s s" using assms(4) by (auto simp: snapshot_later_def store_later_def intro: store_grows_refl)
  have "cache_ok cache' \<and> cache_coherent cs z2 cache' \<and> (\<forall>p. res = Inr p \<longrightarrow> (\<exists>t \<in> {x1, y1, x2, y2}. projection_of cs ?base t = Inr p))"
  proof (cases "cache_enabled cache")
    case True
    then have "projection_tries cs json ?base ?tries (Inl RuntimeError) cache = (cache', res)" using assms(8) by (simp add: get_report_projection_def Let_def del: projection_tries.simps)
    from tries_current [OF assms(1-3) ok s this] show ?thesis by auto
  next
    case False
    then show ?thesis using assms(2,3,8) rc.coherent_later tries_later [OF ok s] by (auto simp: get_report_projection_def cache_coherent_rc)
  qed
  then show ?thesis by (simp add: cache_ok_def)
qed

text \<open>All pages of a projection, one request per page.\<close>

definition asset_pages :: "report_projection \<Rightarrow> nat \<Rightarrow> asset list" where
  "asset_pages p n = concat (map (\<lambda>i. dp_assets (report_detail_page_of p i n 0 1)) [0..<page_count (dp_asset_total (report_detail_page_of p 0 n 0 1)) n])"

definition finding_pages :: "report_projection \<Rightarrow> nat \<Rightarrow> vuln list" where
  "finding_pages p n = concat (map (\<lambda>i. dp_vulnerabilities (report_detail_page_of p 0 1 i n)) [0..<page_count (dp_vulnerability_total (report_detail_page_of p 0 1 0 n)) n])"

text \<open>C35: the pages of a report show everything once. When a projection can be built, reading all its pages, of whatever size, gives each asset of the retained chunks exactly
  once, with the value of its last occurrence and grouped by kind, and each finding of the chunks and of their detections exactly once, most severe first; the totals per
  kind count them, and a report none of whose chunks is retained is refused.\<close>

theorem report_detail_complete:
  assumes "build_report_projection rid arows drows = Inr p" "lineage_rows (\<lambda>r. Some (ar_report_id r)) L_ASSET rid arows = (base, expected, whole, reports)"
    "lineage_rows (\<lambda>d. Some (dx_report_id d)) L_ASSET base (drows base) = (base', expected', whole', detections)" "0 < n"
    "assets = asset_pages p n" "findings = finding_pages p n"
  shows "reports \<noteq> [] \<and> distinct (map asset_id_of assets) \<and> asset_id_of ` set assets = asset_id_of ` set (concat (map ar_assets reports))
    \<and> (\<forall>a \<in> set assets. last_with asset_id_of (concat (map ar_assets reports)) a) \<and> sorted (map (\<lambda>a. kind_rank (asset_kind_of a)) assets)
    \<and> distinct (map vulnerability_key findings)
    \<and> vulnerability_key ` set findings = vulnerability_key ` set (concat (map ar_vulnerabilities reports @ map dx_vulnerabilities detections)) \<and> sorted (map finding_order findings)
    \<and> (\<forall>(k, c) \<in> set (rp_asset_kind_totals p). c = length (filter (\<lambda>a. asset_kind_of a = k) assets))"
proof -
  have p: "reports \<noteq> []" "rp_assets p = merged_assets reports" "rp_vulnerabilities p = merged_vulnerabilities reports detections"
    "rp_asset_kind_totals p = map (\<lambda>k. (k, length (filter (\<lambda>a. asset_kind_of a = k) (merged_assets reports)))) ASSET_KIND_ORDER"
    using assms(1-3) by (auto simp: build_report_projection_def Let_def split: if_splits)
  have "assets = rp_assets p" using pages_cover [OF assms(4), of "rp_assets p"] by (simp add: assms(5) asset_pages_def report_detail_page_of_def split_beta)
  moreover have "findings = rp_vulnerabilities p" using pages_cover [OF assms(4), of "rp_vulnerabilities p"] by (simp add: assms(6) finding_pages_def report_detail_page_of_def split_beta)
  ultimately show ?thesis using p merged_assets_spec [of reports] merged_vulnerabilities_spec [of reports detections] by auto
qed

section \<open>Witnesses\<close>

definition rex_report :: "string \<Rightarrow> asset_report" where
  "rex_report i = \<lparr>ar_report_id = i, ar_collected_at = 0, ar_source_agent_id = None, ar_host_id = ''h'', ar_host_os = [], ar_host_ips = [],
     ar_assets = [Other_asset K_PORT ''p'', Other_asset K_SERVICE ''s'', Other_asset K_IMAGE ''p''], ar_vulnerabilities = [], ar_detector_runs = None\<rparr>"

definition rex_config :: "(string \<Rightarrow> 'p \<Rightarrow> string option) \<Rightarrow> 'p store_config" where
  "rex_config fld = \<lparr>st_max_bytes = 0, st_max_table_bytes = 0, st_max_rows = 1, st_max_record_bytes = 0, st_read_max_bytes = 0, st_size = (\<lambda>_. 1), st_field = fld\<rparr>"

definition rex_stores :: report_stores where
  "rex_stores = (rex_config (\<lambda>_ r. Some (ar_report_id r)), rex_config (\<lambda>_ d. Some (dx_report_id d)))"

definition rex_snap :: snapshot where
  "rex_snap = (insert_record (rex_report ''r'') 1 empty_store, empty_store)"

definition rex_cache :: "(store_fingerprint, report_projection) projection_cache" where
  "rex_cache = \<lparr>pj_max_entries = 1, pj_max_bytes = 9, pj_entries = [], pj_bytes = 0\<rparr>"

lemma rex_later: "snapshot_later rex_stores rex_snap rex_snap"
  by (auto simp: snapshot_later_def store_later_def rex_snap_def rex_stores_def store_ok_def insert_record_def empty_store_def rex_config_def intro: store_grows_refl)

lemma rex_built: "case projection_of rex_stores ''r'' rex_snap of Inl _ \<Rightarrow> False | Inr p \<Rightarrow> map asset_id_of (rp_assets p) = [''s'', ''p'']"
  by code_simp

theorem projection_never_stale_witness:
  "\<exists>c p. get_report_projection rex_stores (\<lambda>_. 4) ''r'' (rex_snap, rex_snap, rex_snap) (rex_snap, rex_snap, rex_snap) rex_cache = (c, Inr p)
     \<and> projection_of rex_stores ''r'' rex_snap = Inr p \<and> length (pj_entries c) \<le> pj_max_entries c"
proof -
  have root: "stored_root ''r'' L_ASSET = ''r''" "flat_id ''r''" by code_simp+
  obtain q where q: "projection_of rex_stores ''r'' rex_snap = Inr q" using rex_built by (auto split: sum.splits)
  obtain c res where run: "get_report_projection rex_stores (\<lambda>_. 4) ''r'' (rex_snap, rex_snap, rex_snap) (rex_snap, rex_snap, rex_snap) rex_cache = (c, res)" by fastforce
  have "attempt_ok rex_stores (rex_snap, rex_snap, rex_snap)" using rex_later by (simp add: attempt_ok_def)
  moreover have "cache_ok rex_cache" "cache_coherent rex_stores rex_snap rex_cache" by (simp_all add: cache_ok_def rex_cache_def cache_coherent_def)
  moreover have "res = Inr q"
    using run q by (simp add: get_report_projection_def root rex_cache_def cache_enabled_def cache_get_def cache_put_def Let_def projection_estimated_bytes_def drop_key_def)
  ultimately show ?thesis using projection_never_stale [OF _ _ _ rex_later _ rex_later _ run] root q run by fastforce
qed

theorem report_detail_complete_witness:
  "\<exists>p. projection_of rex_stores ''r'' rex_snap = Inr p
     \<and> distinct (map asset_id_of (asset_pages p 1)) \<and> sorted (map finding_order (finding_pages p 1))"
proof -
  obtain p where p: "projection_of rex_stores ''r'' rex_snap = Inr p" using rex_built by (auto split: sum.splits)
  obtain a b c d where l: "lineage_rows (\<lambda>r. Some (ar_report_id r)) L_ASSET ''r'' (find_lineage (fst rex_stores) LINEAGE_FIELD ''report_id'' ''r'' L_ASSET (fst rex_snap)) = (a, b, c, d)"
    by (metis prod_cases4)
  obtain a' b' c' d' where l': "lineage_rows (\<lambda>r. Some (dx_report_id r)) L_ASSET a (find_lineage (snd rex_stores) LINEAGE_FIELD ''report_id'' a L_ASSET (snd rex_snap)) = (a', b', c', d')"
    by (metis prod_cases4)
  have "(0 :: nat) < 1" by simp
  from report_detail_complete [OF p [unfolded projection_of_def] l l' this refl refl] p show ?thesis by blast
qed

text \<open>Retention during an attempt defeats the fingerprint: the lineage is empty before and after, because the chunk that was read in between has been removed by then, and
  the projection of the removed report is cached under the fingerprint of the empty lineage. The next request finds it, while the stores answer that the report is gone.\<close>

theorem evicted_report_served:
  "let s1 = (empty_store, empty_store); s2 = rex_snap; s3 = (insert_record (rex_report ''q'') 1 (prune_for_insert (fst rex_stores) 1 (fst rex_snap)), empty_store);
       c1 = fst (get_report_projection rex_stores (\<lambda>_. 4) ''r'' (s1, s2, s3) (s3, s3, s3) rex_cache) in
   projection_of rex_stores ''r'' s3 = Inl (HTTPException 404) \<and> (\<exists>p. snd (get_report_projection rex_stores (\<lambda>_. 4) ''r'' (s3, s3, s3) (s3, s3, s3) c1) = Inr p)"
proof -
  let ?s1 = "(empty_store, empty_store) :: snapshot" and ?s3 = "(insert_record (rex_report ''q'') 1 (prune_for_insert (fst rex_stores) 1 (fst rex_snap)), empty_store) :: snapshot"
  obtain p where p: "projection_of rex_stores ''r'' rex_snap = Inr p" using rex_built by (auto split: sum.splits)
  have root: "stored_root ''r'' L_ASSET = ''r''" by code_simp
  have gone: "projection_of rex_stores ''r'' ?s3 = Inl (HTTPException 404)" "projection_fingerprint rex_stores ''r'' ?s3 = projection_fingerprint rex_stores ''r'' ?s1" by code_simp+
  show ?thesis
    unfolding Let_def using gone p
    by (simp add: get_report_projection_def root rex_cache_def cache_enabled_def cache_get_def cache_put_def Let_def projection_estimated_bytes_def drop_key_def)
qed

end
