(* ===== verification/Graph_Records.thy ===== *)
theory Graph_Records
  imports Defender_Ingest
begin

text \<open>
  Reading Microsoft Graph records, the shared part of \<open>kcatta_form/mde.py\<close> and \<open>kcatta_form/mdvm.py\<close>: JSON values, the text, timestamp and list readers, and the host mapper
  that gives a cloud device its host identifier.

  \<open>datetime.fromisoformat\<close> (with a naive result read as UTC), \<open>float\<close> of a text, \<open>urlsplit\<close> and SHA-256 are fields of \<open>graph_env\<close>.
\<close>

section \<open>JSON\<close>

text \<open>A decoded value. A float is \<open>None\<close> when it is not finite.\<close>

datatype json = JNull | JBool bool | JInt int | JFloat "rat option" | JStr string | JList "json list" | JObj "(string \<times> json) list"

text \<open>\<open>raw.get(key)\<close>, where \<open>None\<close> is \<open>JNull\<close>.\<close>

definition json_get :: "string \<Rightarrow> (string \<times> json) list \<Rightarrow> json" where
  "json_get k raw = (case map_of raw k of None \<Rightarrow> JNull | Some v \<Rightarrow> v)"

record graph_env =
  ge_sha256 :: "string \<Rightarrow> string"
  ge_fromisoformat :: "string \<Rightarrow> datetime option"
  ge_float :: "string \<Rightarrow> rat option"
  ge_https :: "string \<Rightarrow> bool"

section \<open>Readers\<close>

definition optional_text :: "json \<Rightarrow> string option" where
  "optional_text v = (case v of JStr s \<Rightarrow> if strip s \<noteq> [] then Some (take 4096 (strip s)) else None | _ \<Rightarrow> None)"

definition graph_text :: "json \<Rightarrow> string option \<Rightarrow> string result" where
  "graph_text v default_text =
     (if v = JNull \<and> default_text \<noteq> None then Inr (the default_text)
      else case v of JStr s \<Rightarrow> if strip s = [] then Inl MdeUpstreamError else Inr (take 4096 (strip s)) | _ \<Rightarrow> Inl MdeUpstreamError)"

definition timestamp_of :: "graph_env \<Rightarrow> json \<Rightarrow> datetime result" where
  "timestamp_of env v =
     rbind (graph_text v None) (\<lambda>raw.
       case ge_fromisoformat env (concat (map (\<lambda>c. if c = CHR ''Z'' then ''+00:00'' else [c]) raw)) of None \<Rightarrow> Inl MdeUpstreamError | Some t \<Rightarrow> Inr t)"

definition optional_timestamp :: "graph_env \<Rightarrow> json \<Rightarrow> datetime option result" where
  "optional_timestamp env v = (if v = JNull then Inr None else rbind (timestamp_of env v) (\<lambda>t. Inr (Some t)))"

text \<open>\<open>_optional_time\<close> of \<open>mdvm.py\<close> also accepts a blank text; the text of any value that is not a string is not blank.\<close>

definition optional_time :: "graph_env \<Rightarrow> json \<Rightarrow> datetime option result" where
  "optional_time env v = (case v of JNull \<Rightarrow> Inr None | JStr s \<Rightarrow> if strip s = [] then Inr None else rbind (timestamp_of env v) (\<lambda>t. Inr (Some t))
     | _ \<Rightarrow> rbind (timestamp_of env v) (\<lambda>t. Inr (Some t)))"

definition stripped_strings :: "nat \<Rightarrow> json \<Rightarrow> string list" where
  "stripped_strings n v = (case v of JList vs \<Rightarrow> concat (map (\<lambda>x. case x of JStr s \<Rightarrow> if strip s \<noteq> [] then [take n (strip s)] else [] | _ \<Rightarrow> []) vs) | _ \<Rightarrow> [])"

definition MAX_EVIDENCE :: nat where "MAX_EVIDENCE = 256"
definition MAX_RELATIONSHIPS :: nat where "MAX_RELATIONSHIPS = 256"

definition string_list :: "json \<Rightarrow> string list" where
  "string_list v = take MAX_RELATIONSHIPS (stripped_strings 4096 v)"

definition path_list :: "json \<Rightarrow> string list" where
  "path_list v = take 64 (stripped_strings 1024 v)"

definition https_url :: "graph_env \<Rightarrow> json \<Rightarrow> string option" where
  "https_url env v = (case optional_text v of None \<Rightarrow> None | Some t \<Rightarrow> if ge_https env t then Some t else None)"

text \<open>\<open>isinstance(value, (str, int))\<close> holds of booleans too.\<close>

definition graph_identifier :: "json \<Rightarrow> string option" where
  "graph_identifier v =
     (let cut = (\<lambda>s. if strip s \<noteq> [] then Some (take 4096 (strip s)) else None) in
      case v of JStr s \<Rightarrow> cut s | JInt i \<Rightarrow> cut (int_str i) | JBool b \<Rightarrow> cut (if b then ''True'' else ''False'') | _ \<Rightarrow> None)"

definition cvss_of :: "graph_env \<Rightarrow> json \<Rightarrow> rat option result" where
  "cvss_of env v =
     (let number = (case v of JNull \<Rightarrow> Some 0 | JBool b \<Rightarrow> Some (if b then 1 else 0) | JInt i \<Rightarrow> Some (of_int i) | JFloat x \<Rightarrow> x | JStr s \<Rightarrow> ge_float env s | _ \<Rightarrow> None) in
      if v = JNull then Inr None
      else case number of None \<Rightarrow> Inl MdeUpstreamError | Some x \<Rightarrow> if 0 \<le> x \<and> x \<le> 10 then Inr (Some x) else Inl MdeUpstreamError)"

text \<open>The lower-cased text of a value that is not a string is the name of no level and of no status.\<close>

definition lowered :: "json \<Rightarrow> string" where
  "lowered v = (case v of JStr s \<Rightarrow> lower (strip s) | _ \<Rightarrow> [])"

definition graph_severity :: "json \<Rightarrow> severity" where
  "graph_severity v = (case map_of [(''informational'', INFO), (''info'', INFO), (''low'', LOW), (''medium'', MEDIUM), (''high'', HIGH), (''critical'', CRITICAL)] (lowered v) of
     None \<Rightarrow> INFO | Some s \<Rightarrow> s)"

section \<open>Hosts\<close>

text \<open>\<open>MdeHostMapper.entries\<close>: a later entry of the file replaces an earlier one with the same key.\<close>

definition host_mapper :: "(string \<times> string) list \<Rightarrow> (string \<times> string) list" where
  "host_mapper entries = foldl (\<lambda>d (k, v). AList.update (lower (strip k)) (strip v) d) [] entries"

definition host_fallback :: "graph_env \<Rightarrow> string \<Rightarrow> string \<Rightarrow> string" where
  "host_fallback env label v =
     (let candidate = label @ '':'' @ lower (strip v) in
      if length candidate \<le> 256 then candidate else label @ '':sha256:'' @ ge_sha256 env v)"

fun mapped_host :: "(string \<times> string) list \<Rightarrow> (string \<times> string option) list \<Rightarrow> string option" where
  "mapped_host entries [] = None"
| "mapped_host entries ((label, v) # cs) =
     (case truthy v of None \<Rightarrow> mapped_host entries cs
      | Some x \<Rightarrow> (case truthy (map_of entries (lower (label @ '':'' @ x))) of Some h \<Rightarrow> Some h | None \<Rightarrow> mapped_host entries cs))"

definition resolve_host :: "graph_env \<Rightarrow> (string \<times> string) list \<Rightarrow> string option \<Rightarrow> string option \<Rightarrow> string option \<Rightarrow> string option \<Rightarrow> string option" where
  "resolve_host env entries mde_device_id azure_ad_device_id dns_name hostname =
     (case mapped_host entries [(''mde'', mde_device_id), (''aad'', azure_ad_device_id), (''dns'', dns_name), (''host'', hostname)] of
        Some h \<Rightarrow> Some h
      | None \<Rightarrow>
          (case truthy mde_device_id of Some x \<Rightarrow> Some (host_fallback env ''mde'' x)
           | None \<Rightarrow>
               (case truthy azure_ad_device_id of Some x \<Rightarrow> Some (host_fallback env ''aad'' x)
                | None \<Rightarrow> map_option (host_fallback env ''mde-dns'') (truthy dns_name))))"

end
