(* ===== verification/Mdvm_Sync.thy ===== *)
theory Mdvm_Sync
  imports Graph_Records Sql_Table
begin

text \<open>
  The Microsoft Defender Vulnerability Management connector of Form, \<open>kcatta_form/mdvm.py\<close>: provider records become changes, the changes are materialised in a SQLite
  state with a lease and a watermark, and the affected devices are handed to the Analyzer as snapshots in bounded batches.

  Every method of \<open>MdvmSyncState\<close> is one transaction and one function. The canonical JSON dumps that are hashed and the sizes of the dumps are fields of \<open>mdvm_env\<close>; the provider and
  the Analyzer are arguments of \<open>mdvm_sync_once\<close>. Timestamps are stored as UTC ISO texts, whose order is that of the instants; the model keeps the instant.
\<close>

section \<open>Changes\<close>

datatype mdvm_action = UPSERT | FIXED

record mdvm_change =
  mc_record_key :: string
  mc_action :: mdvm_action
  mc_device_id :: string
  mc_device_name :: string
  mc_os_platform :: string
  mc_os_version :: "string option"
  mc_os_architecture :: "string option"
  mc_observed_at :: datetime
  mc_finding :: mdvm_vulnerability

definition is_cve :: "string \<Rightarrow> bool" where
  "is_cve s = (let r = drop 4 s in
     startswith s ''CVE-'' \<and> 9 \<le> length r \<and> list_all isdecimal_char (take 4 r) \<and> r ! 4 = CHR ''-'' \<and> list_all isdecimal_char (drop 5 r))"

definition or_else :: "'a option \<Rightarrow> 'a option \<Rightarrow> 'a option" where
  "or_else x y = (case x of None \<Rightarrow> y | Some v \<Rightarrow> Some v)"

definition text_or :: "json \<Rightarrow> string \<Rightarrow> string" where
  "text_or v d = (case optional_text v of None \<Rightarrow> d | Some t \<Rightarrow> t)"

definition listed_more :: "json \<Rightarrow> string list \<Rightarrow> bool" where
  "listed_more v kept = (case v of JList vs \<Rightarrow> length kept < length vs | _ \<Rightarrow> False)"

text \<open>The validation of the model: every text is cut to the wire limit before, so only the shorter limit of \<open>cve_id\<close> can fail; all texts are stripped once more.\<close>

definition valid_mdvm_vulnerability :: "mdvm_vulnerability \<Rightarrow> mdvm_vulnerability result" where
  "valid_mdvm_vulnerability v =
     rbind (valid_ident (mv_cve_id v)) (\<lambda>cve. Inr (v\<lparr>mv_record_id := strip (mv_record_id v), mv_cve_id := cve, mv_software_vendor := strip (mv_software_vendor v),
       mv_software_name := strip (mv_software_name v), mv_software_version := strip (mv_software_version v), mv_exploitability_level := map_option strip (mv_exploitability_level v),
       mv_recommended_security_update := map_option strip (mv_recommended_security_update v), mv_recommended_security_update_id := map_option strip (mv_recommended_security_update_id v),
       mv_recommended_security_update_url := map_option strip (mv_recommended_security_update_url v), mv_recommendation_reference := map_option strip (mv_recommendation_reference v),
       mv_rbac_group_id := map_option strip (mv_rbac_group_id v), mv_rbac_group_name := map_option strip (mv_rbac_group_name v),
       mv_disk_paths := map strip (mv_disk_paths v), mv_registry_paths := map strip (mv_registry_paths v)\<rparr>))"

definition normalize_mdvm_record :: "graph_env \<Rightarrow> mdvm_mode \<Rightarrow> datetime \<Rightarrow> (string \<times> json) list \<Rightarrow> mdvm_change option result" where
  "normalize_mdvm_record env md fallback_time raw =
     (case graph_identifier (json_get ''cveId'' raw) of None \<Rightarrow> Inr None
      | Some cve \<Rightarrow>
          let cve_id = upper cve; status = lowered (json_get ''status'' raw) in
          if \<not> is_cve cve_id then Inl MdeUpstreamError
          else (case (graph_identifier (json_get ''id'' raw), graph_identifier (json_get ''deviceId'' raw)) of
              (Some record_id, Some device_id) \<Rightarrow>
                if md = DELTA \<and> status \<notin> {''new'', ''updated'', ''fixed''} then Inl MdeUpstreamError
                else
                  rbind (optional_time env (json_get ''eventTimestamp'' raw)) (\<lambda>event_at.
                  rbind (optional_time env (json_get ''lastSeenTimestamp'' raw)) (\<lambda>last_seen.
                  rbind (optional_time env (json_get ''firstSeenTimestamp'' raw)) (\<lambda>first_seen.
                  let rbac_id = graph_identifier (json_get ''rbacGroupId'' raw); rbac_name = optional_text (json_get ''rbacGroupName'' raw);
                      scope = (case or_else rbac_id rbac_name of None \<Rightarrow> [] | Some t \<Rightarrow> t);
                      disk_paths = path_list (json_get ''diskPaths'' raw); registry_paths = path_list (json_get ''registryPaths'' raw) in
                  rbind (cvss_of env (json_get ''cvssScore'' raw)) (\<lambda>cvss.
                  rbind (valid_mdvm_vulnerability \<lparr>mv_record_id = record_id, mv_cve_id = cve_id,
                      mv_software_vendor = text_or (json_get ''softwareVendor'' raw) ''unknown'', mv_software_name = text_or (json_get ''softwareName'' raw) ''unknown'',
                      mv_software_version = text_or (json_get ''softwareVersion'' raw) ''unknown'', mv_severity = graph_severity (json_get ''vulnerabilitySeverityLevel'' raw),
                      mv_cvss_score = cvss, mv_exploitability_level = optional_text (json_get ''exploitabilityLevel'' raw),
                      mv_recommended_security_update = optional_text (json_get ''recommendedSecurityUpdate'' raw),
                      mv_recommended_security_update_id = graph_identifier (json_get ''recommendedSecurityUpdateId'' raw),
                      mv_recommended_security_update_url = https_url env (json_get ''recommendedSecurityUpdateUrl'' raw),
                      mv_recommendation_reference = graph_identifier (json_get ''recommendationReference'' raw),
                      mv_security_update_available = (case json_get ''securityUpdateAvailable'' raw of JBool b \<Rightarrow> Some b | _ \<Rightarrow> None),
                      mv_first_seen_at = first_seen, mv_last_seen_at = last_seen, mv_last_event_at = event_at, mv_rbac_group_id = rbac_id, mv_rbac_group_name = rbac_name,
                      mv_disk_paths = disk_paths, mv_registry_paths = registry_paths,
                      mv_evidence_truncated = (listed_more (json_get ''diskPaths'' raw) disk_paths \<or> listed_more (json_get ''registryPaths'' raw) registry_paths)\<rparr>) (\<lambda>finding.
                    Inr (Some \<lparr>mc_record_key = ge_sha256 env (record_id @ NUL @ scope), mc_action = (if md = DELTA \<and> status = ''fixed'' then FIXED else UPSERT),
                      mc_device_id = device_id, mc_device_name = text_or (json_get ''deviceName'' raw) device_id,
                      mc_os_platform = text_or (json_get ''osPlatform'' raw) ''Microsoft Defender device'', mc_os_version = optional_text (json_get ''osVersion'' raw),
                      mc_os_architecture = optional_text (json_get ''osArchitecture'' raw),
                      mc_observed_at = (case or_else event_at (or_else last_seen first_seen) of None \<Rightarrow> fallback_time | Some t \<Rightarrow> t), mc_finding = finding\<rparr>))))))
            | _ \<Rightarrow> Inl MdeUpstreamError))"

section \<open>The state\<close>

record sync_meta =
  sm_watermark :: "datetime option"
  sm_last_baseline_at :: "datetime option"
  sm_lease_owner :: "string option"
  sm_lease_until :: "datetime option"
  sm_last_attempt_at :: "datetime option"
  sm_last_success_at :: "datetime option"
  sm_last_error :: "string option"
  sm_device_count :: nat
  sm_finding_count :: nat
  sm_change_count :: nat

record device_row =
  dv_device_id :: string
  dv_device_name :: string
  dv_os_platform :: string
  dv_os_version :: "string option"
  dv_os_architecture :: "string option"
  dv_observed_at :: datetime

record finding_row =
  fr_record_key :: string
  fr_device_id :: string
  fr_payload :: mdvm_vulnerability

record mdvm_state =
  vs_meta :: sync_meta
  vs_devices :: "device_row list"
  vs_findings :: "finding_row list"

definition empty_meta :: sync_meta where
  "empty_meta = \<lparr>sm_watermark = None, sm_last_baseline_at = None, sm_lease_owner = None, sm_lease_until = None, sm_last_attempt_at = None, sm_last_success_at = None,
     sm_last_error = None, sm_device_count = 0, sm_finding_count = 0, sm_change_count = 0\<rparr>"

definition new_mdvm_state :: mdvm_state where
  "new_mdvm_state = \<lparr>vs_meta = empty_meta, vs_devices = [], vs_findings = []\<rparr>"

text \<open>The dumps that are hashed: of one snapshot part (tenant, device, observation, part, parts, findings) and of a batch (tenant, mode, snapshots).\<close>

record mdvm_env =
  ve_graph :: graph_env
  ve_dump_part :: "string \<Rightarrow> string \<Rightarrow> datetime \<Rightarrow> nat \<Rightarrow> nat \<Rightarrow> mdvm_vulnerability list \<Rightarrow> string"
  ve_dump_batch :: "string \<Rightarrow> mdvm_mode \<Rightarrow> mdvm_snapshot list \<Rightarrow> string"
  ve_finding_size :: "mdvm_vulnerability \<Rightarrow> nat"
  ve_snapshot_size :: "mdvm_snapshot \<Rightarrow> nat"

record mdvm_config =
  vc_tenant_id :: string
  vc_poll_time :: timedelta
  vc_baseline_refresh :: timedelta
  vc_delta_overlap :: timedelta
  vc_findings_per_snapshot :: nat
  vc_snapshots_per_batch :: nat
  vc_batch_max_bytes :: nat
  vc_state_max_findings :: nat
  vc_state_max_bytes :: nat

definition meta_acquire :: "string \<Rightarrow> datetime \<Rightarrow> timedelta \<Rightarrow> sync_meta \<Rightarrow> sync_meta \<times> bool" where
  "meta_acquire owner now lease m =
     (if sm_lease_owner m = None \<or> (case sm_lease_until m of None \<Rightarrow> 0 | Some t \<Rightarrow> t) \<le> now \<or> sm_lease_owner m = Some owner
      then (m\<lparr>sm_lease_owner := Some owner, sm_lease_until := Some (now + lease), sm_last_attempt_at := Some now\<rparr>, True) else (m, False))"

definition acquire_sync :: "string \<Rightarrow> datetime \<Rightarrow> timedelta \<Rightarrow> mdvm_state \<Rightarrow> mdvm_state \<times> bool" where
  "acquire_sync owner now lease s = (let (m, ok) = meta_acquire owner now lease (vs_meta s) in (s\<lparr>vs_meta := m\<rparr>, ok))"

definition assert_owner :: "string \<Rightarrow> mdvm_state \<Rightarrow> unit result" where
  "assert_owner owner s = (if sm_lease_owner (vs_meta s) \<noteq> Some owner then Inl RuntimeError else Inr ())"

definition device_of :: "mdvm_change \<Rightarrow> device_row" where
  "device_of c = \<lparr>dv_device_id = mc_device_id c, dv_device_name = mc_device_name c, dv_os_platform = mc_os_platform c, dv_os_version = mc_os_version c,
     dv_os_architecture = mc_os_architecture c, dv_observed_at = mc_observed_at c\<rparr>"

definition upsert_device :: "mdvm_change \<Rightarrow> device_row list \<Rightarrow> device_row list" where
  "upsert_device c rows =
     (if count_where (\<lambda>r. dv_device_id r = mc_device_id c) rows = 0 then rows @ [device_of c]
      else upd_where (\<lambda>r. dv_device_id r = mc_device_id c) (\<lambda>r. (device_of c)\<lparr>dv_observed_at := max (mc_observed_at c) (dv_observed_at r)\<rparr>) rows)"

text \<open>\<open>INSERT OR REPLACE\<close> removes the row with the same key and appends the new one.\<close>

definition put_finding :: "mdvm_change \<Rightarrow> finding_row list \<Rightarrow> finding_row list" where
  "put_finding c rows = del_where (\<lambda>r. fr_record_key r = mc_record_key c) rows @ [\<lparr>fr_record_key = mc_record_key c, fr_device_id = mc_device_id c, fr_payload = mc_finding c\<rparr>]"

definition apply_change :: "mdvm_change \<Rightarrow> mdvm_state \<Rightarrow> mdvm_state" where
  "apply_change c s = s\<lparr>vs_devices := upsert_device c (vs_devices s),
     vs_findings := (case mc_action c of FIXED \<Rightarrow> del_where (\<lambda>r. fr_record_key r = mc_record_key c) (vs_findings s) | UPSERT \<Rightarrow> put_finding c (vs_findings s))\<rparr>"

definition ensure_capacity :: "mdvm_env \<Rightarrow> mdvm_config \<Rightarrow> mdvm_state \<Rightarrow> unit result" where
  "ensure_capacity env c s =
     (if vc_state_max_findings c < length (vs_findings s) then Inl MdeUpstreamError
      else if vc_state_max_bytes c < sum_list (map (\<lambda>r. ve_finding_size env (fr_payload r)) (vs_findings s)) then Inl MdeUpstreamError else Inr ())"

text \<open>A baseline ignores the action of a change: it is \<open>UPSERT\<close> there.\<close>

definition replace_baseline :: "mdvm_env \<Rightarrow> mdvm_config \<Rightarrow> string \<Rightarrow> mdvm_change list \<Rightarrow> mdvm_state \<Rightarrow> (mdvm_state \<times> string list) result" where
  "replace_baseline env c owner changes s =
     rbind (assert_owner owner s) (\<lambda>_.
       let s' = fold (\<lambda>ch s. s\<lparr>vs_devices := upsert_device ch (vs_devices s), vs_findings := put_finding ch (vs_findings s)\<rparr>) changes (s\<lparr>vs_devices := [], vs_findings := []\<rparr>) in
       rbind (ensure_capacity env c s') (\<lambda>_. Inr (s', remdups (map mc_device_id changes))))"

fun ambiguous :: "((string \<times> datetime) \<times> mdvm_action) list \<Rightarrow> mdvm_change list \<Rightarrow> bool" where
  "ambiguous actions [] = False"
| "ambiguous actions (c # cs) =
     (let key = (mc_record_key c, mc_observed_at c) in
      case map_of actions key of
        Some previous \<Rightarrow> if previous \<noteq> mc_action c then True else ambiguous (AList.update key (mc_action c) actions) cs
      | None \<Rightarrow> ambiguous (AList.update key (mc_action c) actions) cs)"

fun action_rank :: "mdvm_action \<Rightarrow> nat" where
  "action_rank UPSERT = 0"
| "action_rank FIXED = 1"

definition apply_delta :: "mdvm_env \<Rightarrow> mdvm_config \<Rightarrow> string \<Rightarrow> mdvm_change list \<Rightarrow> mdvm_state \<Rightarrow> (mdvm_state \<times> string list) result" where
  "apply_delta env c owner changes s =
     (if ambiguous [] changes then Inl MdeUpstreamError
      else
        rbind (assert_owner owner s) (\<lambda>_.
          let s' = fold apply_change (sort_key (\<lambda>ch. (mc_observed_at ch, action_rank (mc_action ch))) changes) s in
          rbind (ensure_capacity env c s') (\<lambda>_. Inr (s', remdups (map mc_device_id changes)))))"

section \<open>Snapshots and batches\<close>

definition part_count :: "nat \<Rightarrow> nat \<Rightarrow> nat" where
  "part_count n sz = max 1 ((n + sz - 1) div sz)"

definition snapshot_part :: "mdvm_env \<Rightarrow> string \<Rightarrow> (string \<times> string) list \<Rightarrow> nat \<Rightarrow> device_row \<Rightarrow> mdvm_vulnerability list \<Rightarrow> nat \<Rightarrow> mdvm_snapshot" where
  "snapshot_part env tenant mapper sz d rows i =
     (let parts = part_count (length rows) sz; part = take sz (drop (i * sz) rows); g = ve_graph env in
      \<lparr>ms_report_id = ''mdvm-report-'' @ ge_sha256 g (ve_dump_part env tenant (dv_device_id d) (dv_observed_at d) (i + 1) parts part), ms_device_id = dv_device_id d,
       ms_host_id = (case truthy (resolve_host g mapper (Some (dv_device_id d)) None (Some (dv_device_name d)) (Some (takeWhile (\<lambda>c. c \<noteq> CHR ''.'') (dv_device_name d)))) of
           Some h \<Rightarrow> h | None \<Rightarrow> host_fallback g ''mde'' (dv_device_id d)),
       ms_device_name = dv_device_name d, ms_os_platform = dv_os_platform d, ms_os_version = dv_os_version d, ms_os_architecture = dv_os_architecture d,
       ms_observed_at = dv_observed_at d, ms_part_index = i + 1, ms_part_total = parts, ms_vulnerabilities = part\<rparr>)"

definition device_findings :: "string \<Rightarrow> mdvm_state \<Rightarrow> mdvm_vulnerability list" where
  "device_findings device s = map fr_payload (filter (\<lambda>r. fr_device_id r = device) (sort_key fr_record_key (vs_findings s)))"

text \<open>The constructor of a snapshot strips its texts and checks the shorter limits of the two correlation identifiers; the stored texts are stripped and within the wire limit.\<close>

definition valid_snapshot :: "mdvm_snapshot \<Rightarrow> mdvm_snapshot result" where
  "valid_snapshot s =
     rbind (valid_ident (ms_report_id s)) (\<lambda>rid. rbind (valid_str (ms_device_id s)) (\<lambda>did. rbind (valid_ident (ms_host_id s)) (\<lambda>hid. rbind (valid_str (ms_device_name s)) (\<lambda>name.
     rbind (valid_str (ms_os_platform s)) (\<lambda>os. rbind (valid_opt_str (ms_os_version s)) (\<lambda>ver. rbind (valid_opt_str (ms_os_architecture s)) (\<lambda>arch.
       if 4096 < length (ms_vulnerabilities s) then Inl ValidationError
       else Inr (s\<lparr>ms_report_id := rid, ms_device_id := did, ms_host_id := hid, ms_device_name := name, ms_os_platform := os, ms_os_version := ver, ms_os_architecture := arch\<rparr>))))))))"

definition device_snapshots :: "mdvm_env \<Rightarrow> mdvm_config \<Rightarrow> (string \<times> string) list \<Rightarrow> string list \<Rightarrow> mdvm_state \<Rightarrow> mdvm_snapshot list result" where
  "device_snapshots env c mapper device_ids s =
     (let sz = vc_findings_per_snapshot c; devices = sort_key dv_device_id (filter (\<lambda>d. dv_device_id d \<in> set device_ids) (vs_devices s)) in
      rmap_list valid_snapshot (concat (map (\<lambda>d. let rows = device_findings (dv_device_id d) s in
        map (snapshot_part env (vc_tenant_id c) mapper sz d rows) [0..<part_count (length rows) sz]) devices)))"

text \<open>The loop of \<open>_batches\<close> with its open group and the bytes of it.\<close>

fun snapshot_groups :: "mdvm_env \<Rightarrow> mdvm_config \<Rightarrow> mdvm_snapshot list \<Rightarrow> mdvm_snapshot list \<Rightarrow> nat \<Rightarrow> mdvm_snapshot list list result" where
  "snapshot_groups env c [] cur bytes = Inr (if cur = [] then [] else [cur])"
| "snapshot_groups env c (s # ss) cur bytes =
     (let sz = ve_snapshot_size env s in
      if vc_batch_max_bytes c < sz then Inl MdeUpstreamError
      else if cur \<noteq> [] \<and> (vc_snapshots_per_batch c \<le> length cur \<or> vc_batch_max_bytes c < bytes + sz)
      then rbind (snapshot_groups env c ss [s] sz) (\<lambda>gs. Inr (cur # gs))
      else snapshot_groups env c ss (cur @ [s]) (bytes + sz))"

definition mdvm_batches :: "mdvm_env \<Rightarrow> mdvm_config \<Rightarrow> mdvm_mode \<Rightarrow> mdvm_snapshot list \<Rightarrow> mdvm_vulnerability_batch list result" where
  "mdvm_batches env c md snapshots =
     rbind (snapshot_groups env c snapshots [] 0) (\<lambda>groups.
       Inr (map (\<lambda>g. \<lparr>vb_batch_id = ''mdvm-sync-'' @ ge_sha256 (ve_graph env) (ve_dump_batch env (vc_tenant_id c) md g), vb_collected_at = Max (set (map ms_observed_at g)),
         vb_tenant_id = vc_tenant_id c, vb_mode = md, vb_snapshots = g\<rparr>) groups))"

section \<open>One synchronisation\<close>

definition meta_success :: "string \<Rightarrow> datetime \<Rightarrow> datetime \<Rightarrow> mdvm_mode \<Rightarrow> nat \<Rightarrow> nat \<Rightarrow> nat \<Rightarrow> sync_meta \<Rightarrow> sync_meta result" where
  "meta_success owner watermark now md changes devices findings m =
     (if sm_lease_owner m \<noteq> Some owner then Inl RuntimeError
      else Inr (m\<lparr>sm_watermark := Some watermark, sm_last_baseline_at := (if md = BASELINE then Some watermark else sm_last_baseline_at m), sm_last_success_at := Some now,
        sm_last_error := None, sm_device_count := devices, sm_finding_count := findings, sm_change_count := changes, sm_lease_owner := None, sm_lease_until := None\<rparr>))"

definition sync_success :: "string \<Rightarrow> datetime \<Rightarrow> datetime \<Rightarrow> mdvm_mode \<Rightarrow> nat \<Rightarrow> mdvm_state \<Rightarrow> mdvm_state result" where
  "sync_success owner watermark now md changes s =
     rbind (meta_success owner watermark now md changes (card (fr_device_id ` set (vs_findings s))) (length (vs_findings s)) (vs_meta s)) (\<lambda>m. Inr (s\<lparr>vs_meta := m\<rparr>))"

definition meta_failure :: "string \<Rightarrow> string \<Rightarrow> sync_meta \<Rightarrow> sync_meta" where
  "meta_failure owner err m = (if sm_lease_owner m = Some owner then m\<lparr>sm_last_error := Some (take 2048 err), sm_lease_owner := None, sm_lease_until := None\<rparr> else m)"

text \<open>The recorded error; the model leaves out the message after the name of the class.\<close>

fun error_text :: "exn \<Rightarrow> string" where
  "error_text MdeUpstreamError = ''MdeUpstreamError''"
| "error_text AnalyzerUpstreamError = ''AnalyzerUpstreamError''"
| "error_text e = exn_name e"

definition sync_failure :: "string \<Rightarrow> string \<Rightarrow> mdvm_state \<Rightarrow> mdvm_state" where
  "sync_failure owner err s = s\<lparr>vs_meta := meta_failure owner err (vs_meta s)\<rparr>"

definition baseline_due :: "mdvm_config \<Rightarrow> datetime \<Rightarrow> sync_meta \<Rightarrow> bool" where
  "baseline_due c started m =
     (case (sm_watermark m, sm_last_baseline_at m) of
        (Some w, Some b) \<Rightarrow> vc_baseline_refresh c \<le> started - b \<or> 13 * 86400 * 1000000 \<le> started - w
      | _ \<Rightarrow> True)"

fun concat_some :: "'a option list \<Rightarrow> 'a list" where
  "concat_some [] = []"
| "concat_some (x # xs) = (case x of None \<Rightarrow> concat_some xs | Some v \<Rightarrow> v # concat_some xs)"

text \<open>\<open>for batch in batches\<close>: the Analyzer, a state of its own, answers each batch; anything but complete ends the attempt.\<close>

fun deliver_all :: "('b \<Rightarrow> 'a \<Rightarrow> 'a \<times> bool result) \<Rightarrow> 'b list \<Rightarrow> 'a \<Rightarrow> 'a \<times> unit result" where
  "deliver_all ingest [] a = (a, Inr ())"
| "deliver_all ingest (b # bs) a =
     (case ingest b a of (a', Inl e) \<Rightarrow> (a', Inl e) | (a', Inr ok) \<Rightarrow> if ok then deliver_all ingest bs a' else (a', Inl AnalyzerUpstreamError))"

text \<open>What an attempt prepares before it delivers: the new state, the changes it read, the devices and the batches.\<close>

definition prepare_sync :: "mdvm_env \<Rightarrow> mdvm_config \<Rightarrow> (string \<times> string) list result \<Rightarrow> (mdvm_mode \<Rightarrow> datetime option \<Rightarrow> (string \<times> json) list list result) \<Rightarrow> string \<Rightarrow> datetime
    \<Rightarrow> mdvm_state \<Rightarrow> mdvm_state \<times> (mdvm_mode \<times> mdvm_change list \<times> string list \<times> mdvm_vulnerability_batch list) result" where
  "prepare_sync env c mapper fetch owner started s =
     (let m = vs_meta s; md = (if baseline_due c started m then BASELINE else DELTA);
          since = (if md = BASELINE then None else map_option (\<lambda>w. w - vc_delta_overlap c) (sm_watermark m)) in
      case rbind (fetch md since) (\<lambda>raw. rmap_list (normalize_mdvm_record (ve_graph env) md started) raw) of
        Inl e \<Rightarrow> (s, Inl e)
      | Inr normalized \<Rightarrow>
          let changes = concat_some normalized in
          (case (if md = BASELINE then replace_baseline env c owner changes s else apply_delta env c owner changes s) of
             Inl e \<Rightarrow> (s, Inl e)
           | Inr (s', affected) \<Rightarrow>
               (s', rbind mapper (\<lambda>mp. rbind (device_snapshots env c mp affected s') (\<lambda>snaps. rbind (mdvm_batches env c md snaps) (\<lambda>batches. Inr (md, changes, affected, batches)))))))"

text \<open>\<open>sync_once\<close> of one worker: \<open>None\<close> when another one holds the lease, otherwise the exception or the numbers of the outcome.\<close>

definition mdvm_sync_once :: "mdvm_env \<Rightarrow> mdvm_config \<Rightarrow> (string \<times> string) list result \<Rightarrow> (mdvm_mode \<Rightarrow> datetime option \<Rightarrow> (string \<times> json) list list result)
    \<Rightarrow> (mdvm_vulnerability_batch \<Rightarrow> 'a \<Rightarrow> 'a \<times> bool result) \<Rightarrow> string \<Rightarrow> datetime \<Rightarrow> datetime \<Rightarrow> mdvm_state \<times> 'a \<Rightarrow> (mdvm_state \<times> 'a) \<times> (mdvm_mode \<times> nat \<times> nat \<times> nat) option result" where
  "mdvm_sync_once env c mapper fetch ingest owner started now sa =
     (let (s1, acquired) = acquire_sync owner started (max (900 * 1000000) (3 * vc_poll_time c)) (fst sa) in
      if \<not> acquired then ((s1, snd sa), Inr None)
      else case prepare_sync env c mapper fetch owner started s1 of
        (s2, Inl e) \<Rightarrow> ((sync_failure owner (error_text e) s2, snd sa), Inl e)
      | (s2, Inr (md, changes, affected, batches)) \<Rightarrow>
          (case deliver_all ingest batches (snd sa) of
             (a', Inl e) \<Rightarrow> ((sync_failure owner (error_text e) s2, a'), Inl e)
           | (a', Inr _) \<Rightarrow>
               (case sync_success owner started now md (length changes) s2 of
                  Inl e \<Rightarrow> ((sync_failure owner (error_text e) s2, a'), Inl e)
                | Inr s3 \<Rightarrow> ((s3, a'), Inr (Some (md, length changes, length affected, length batches))))))"

end
