(* ===== verification/Sync_Lease.thy ===== *)
theory Sync_Lease
  imports Mdvm_Sync
begin

text \<open>
  The lease of a cloud connector. Both connectors keep one row with an owner, an expiry and a watermark: an attempt takes the lease under a fresh owner name, works only while the row names
  it, and gives the lease back on success or failure. The locale states that contract once and derives from it that an attempt whose lease went to another one can change nothing more.
\<close>

datatype 'op lease_event = Acquire string datetime timedelta | Work string 'op | Fail string string

locale sync_lease =
  fixes holder :: "'s \<Rightarrow> string option"
    and mark :: "'s \<Rightarrow> datetime option"
    and acquire :: "string \<Rightarrow> datetime \<Rightarrow> timedelta \<Rightarrow> 's \<Rightarrow> 's \<times> bool"
    and work :: "string \<Rightarrow> 'op \<Rightarrow> 's \<Rightarrow> 's result"
    and fail :: "string \<Rightarrow> string \<Rightarrow> 's \<Rightarrow> 's"
    and commits :: "'op \<Rightarrow> bool"
  assumes acquire_won: "acquire owner now lease s = (s', True) \<Longrightarrow> holder s' = Some owner \<and> mark s' = mark s"
    and acquire_lost: "acquire owner now lease s = (s', False) \<Longrightarrow> s' = s"
    and work_held: "work owner op s = Inr s' \<Longrightarrow> holder s = Some owner \<and> (holder s' = None \<or> holder s' = Some owner) \<and> (mark s' \<noteq> mark s \<longrightarrow> commits op)"
    and fail_own: "holder s = Some owner \<Longrightarrow> holder (fail owner e s) = None \<and> mark (fail owner e s) = mark s"
    and fail_other: "holder s \<noteq> Some owner \<Longrightarrow> fail owner e s = s"
begin

fun happen :: "'op lease_event \<Rightarrow> 's \<Rightarrow> 's" where
  "happen (Acquire owner now lease) s = fst (acquire owner now lease s)"
| "happen (Work owner op) s = (case work owner op s of Inl e \<Rightarrow> s | Inr s' \<Rightarrow> s')"
| "happen (Fail owner e) s = fail owner e s"

definition acquires :: "string \<Rightarrow> 'op lease_event \<Rightarrow> bool" where
  "acquires owner ev = (\<exists>now lease. ev = Acquire owner now lease)"

lemma happen_holder:
  assumes "holder s \<noteq> Some owner" "\<not> acquires owner ev"
  shows "holder (happen ev s) \<noteq> Some owner"
proof (cases ev)
  case (Acquire other now lease)
  then have "other \<noteq> owner" using assms(2) by (auto simp: acquires_def)
  then show ?thesis
    using Acquire assms(1) acquire_won [of other now lease s] acquire_lost [of other now lease s] by (cases "acquire other now lease s"; cases "snd (acquire other now lease s)") auto
next
  case (Work other op)
  show ?thesis
  proof (cases "work other op s")
    case (Inr s')
    then show ?thesis using Work assms(1) work_held [OF Inr] by auto
  qed (use Work assms(1) in simp)
next
  case (Fail other e)
  then show ?thesis using assms(1) fail_own [of s other e] fail_other [of s other e] by (cases "holder s = Some other") auto
qed

lemma fenced:
  assumes "holder s \<noteq> Some owner" "\<forall>ev \<in> set evs. \<not> acquires owner ev"
  shows "holder (fold happen evs s) \<noteq> Some owner"
  using assms by (induction evs arbitrary: s) (auto simp: happen_holder)

lemma fenced_work:
  assumes "holder s \<noteq> Some owner" "\<forall>ev \<in> set evs. \<not> acquires owner ev"
  shows "(\<exists>e. work owner op (fold happen evs s) = Inl e) \<and> fail owner e (fold happen evs s) = fold happen evs s"
  using fenced [OF assms] work_held fail_other by (cases "work owner op (fold happen evs s)") auto

lemma mark_moves:
  assumes "mark (happen ev s) \<noteq> mark s"
  obtains owner op s' where "ev = Work owner op" "commits op" "holder s = Some owner" "work owner op s = Inr s'"
proof (cases ev)
  case (Acquire owner now lease)
  then show thesis
    using assms acquire_won [of owner now lease s] acquire_lost [of owner now lease s] by (cases "acquire owner now lease s"; cases "snd (acquire owner now lease s)") auto
next
  case (Work owner op)
  show thesis
  proof (cases "work owner op s")
    case (Inr s')
    then show thesis using that Work assms work_held [OF Inr] by simp
  qed (use Work assms in simp)
next
  case (Fail owner e)
  then show thesis using assms fail_own [of s owner e] fail_other [of s owner e] by (cases "holder s = Some owner") auto
qed

end

section \<open>The vulnerability connector\<close>

datatype mdvm_op = Replace_baseline mdvm_env mdvm_config "mdvm_change list" | Apply_delta mdvm_env mdvm_config "mdvm_change list" | Success datetime datetime mdvm_mode nat

fun mdvm_work :: "string \<Rightarrow> mdvm_op \<Rightarrow> mdvm_state \<Rightarrow> mdvm_state result" where
  "mdvm_work owner (Replace_baseline env c changes) s = rbind (replace_baseline env c owner changes s) (\<lambda>r. Inr (fst r))"
| "mdvm_work owner (Apply_delta env c changes) s = rbind (apply_delta env c owner changes s) (\<lambda>r. Inr (fst r))"
| "mdvm_work owner (Success watermark now md n) s = sync_success owner watermark now md n s"

fun mdvm_commits :: "mdvm_op \<Rightarrow> bool" where
  "mdvm_commits (Success watermark now md n) = True"
| "mdvm_commits _ = False"

definition mdvm_holder :: "mdvm_state \<Rightarrow> string option" where "mdvm_holder s = sm_lease_owner (vs_meta s)"
definition mdvm_mark :: "mdvm_state \<Rightarrow> datetime option" where "mdvm_mark s = sm_watermark (vs_meta s)"

lemma fold_meta:
  assumes "\<And>x s. vs_meta (f x s) = vs_meta s"
  shows "vs_meta (fold f xs s) = vs_meta s"
  by (induction xs arbitrary: s) (simp_all add: assms)

lemma baseline_meta: "replace_baseline env c owner changes s = Inr (s', affected) \<Longrightarrow> vs_meta s' = vs_meta s \<and> sm_lease_owner (vs_meta s) = Some owner"
  by (auto simp: replace_baseline_def assert_owner_def Let_def rbind_def fold_meta split: sum.splits if_splits)

lemma delta_meta: "apply_delta env c owner changes s = Inr (s', affected) \<Longrightarrow> vs_meta s' = vs_meta s \<and> sm_lease_owner (vs_meta s) = Some owner"
  by (auto simp: apply_delta_def assert_owner_def apply_change_def Let_def rbind_def fold_meta split: sum.splits if_splits)

lemma success_meta:
  "sync_success owner watermark now md n s = Inr s' \<Longrightarrow> sm_lease_owner (vs_meta s) = Some owner \<and> sm_lease_owner (vs_meta s') = None \<and> sm_watermark (vs_meta s') = Some watermark
     \<and> vs_devices s' = vs_devices s \<and> vs_findings s' = vs_findings s"
  by (auto simp: sync_success_def meta_success_def rbind_def split: sum.splits if_splits)

interpretation mdvm_lease: sync_lease mdvm_holder mdvm_mark acquire_sync mdvm_work sync_failure mdvm_commits
proof unfold_locales
  fix owner op s s'
  assume "mdvm_work owner op s = Inr s'"
  then show "mdvm_holder s = Some owner \<and> (mdvm_holder s' = None \<or> mdvm_holder s' = Some owner) \<and> (mdvm_mark s' \<noteq> mdvm_mark s \<longrightarrow> mdvm_commits op)"
    by (cases op) (auto simp: mdvm_holder_def mdvm_mark_def rbind_def dest: baseline_meta delta_meta success_meta split: sum.splits)
qed (auto simp: mdvm_holder_def mdvm_mark_def acquire_sync_def meta_acquire_def sync_failure_def meta_failure_def split: if_splits)

end
