(* ===== verification/Mde_Sync.thy ===== *)
theory Mde_Sync
  imports Sync_Lease
begin

text \<open>
  The Microsoft Defender for Endpoint connector of Form, \<open>kcatta_form/mde.py\<close>: Graph alerts and incidents are normalised, deduplicated and delivered to the Analyzer in chunks, under the lease
  and the watermark of one SQLite row. The texts of a model are stripped once more by its constructor, which matters only where the reader cut a long text.
\<close>

section \<open>Normalisation\<close>

definition tidy :: "json \<Rightarrow> string option" where
  "tidy v = map_option strip (optional_text v)"

definition tidy_text :: "json \<Rightarrow> string option \<Rightarrow> string result" where
  "tidy_text v d = rbind (graph_text v d) (\<lambda>t. Inr (strip t))"

definition evidence_type :: "(string \<times> json) list \<Rightarrow> string" where
  "evidence_type raw =
     (let v = text_or (json_get ''@odata.type'' raw) ''unknown''; ws = split_on (CHR ''.'') v in dropWhile (\<lambda>c. c = CHR ''#'') (last ws))"

definition first_text :: "string list \<Rightarrow> (string \<times> json) list \<Rightarrow> string option" where
  "first_text keys raw = first_some (map (\<lambda>k. optional_text (json_get k raw)) keys)"

definition normalize_evidence :: "graph_env \<Rightarrow> (string \<times> string) list \<Rightarrow> (string \<times> json) list \<Rightarrow> mde_evidence result" where
  "normalize_evidence env mapper raw =
     (let mde_id = optional_text (json_get ''mdeDeviceId'' raw); aad_id = optional_text (json_get ''azureAdDeviceId'' raw);
          dns_name = optional_text (json_get ''deviceDnsName'' raw); hostname = optional_text (json_get ''hostName'' raw);
          listed = string_list (json_get ''ipInterfaces'' raw);
          ips = (case optional_text (json_get ''ipAddress'' raw) of None \<Rightarrow> listed | Some ip \<Rightarrow> take MAX_RELATIONSHIPS (fromkeys (ip # listed)));
          summary = first_text [''displayName'', ''fileName'', ''accountName'', ''userPrincipalName'', ''processCommandLine'', ''url''] raw in
      rbind (optional_timestamp env (json_get ''createdDateTime'' raw)) (\<lambda>created.
      rbind (valid_opt_ident (resolve_host env mapper mde_id aad_id dns_name hostname)) (\<lambda>canonical.
        Inr \<lparr>me_evidence_type = strip (evidence_type raw), me_created_at = created, me_verdict = tidy (json_get ''verdict'' raw),
          me_remediation_status = tidy (json_get ''remediationStatus'' raw), me_roles = map strip (string_list (json_get ''roles'' raw)), me_summary = map_option strip summary,
          me_mde_device_id = map_option strip mde_id, me_azure_ad_device_id = map_option strip aad_id, me_device_dns_name = map_option strip dns_name, me_hostname = map_option strip hostname,
          me_os_platform = tidy (json_get ''osPlatform'' raw), me_os_build = tidy (json_get ''osBuild'' raw), me_ip_addresses = map strip ips, me_canonical_host_id = canonical\<rparr>)))"

definition objects :: "json list \<Rightarrow> (string \<times> json) list list" where
  "objects vs = concat (map (\<lambda>v. case v of JObj o1 \<Rightarrow> [o1] | _ \<Rightarrow> []) vs)"

definition rows_of :: "json \<Rightarrow> json list" where
  "rows_of v = (case v of JList vs \<Rightarrow> vs | _ \<Rightarrow> [])"

definition normalize_alert :: "graph_env \<Rightarrow> (string \<times> string) list \<Rightarrow> (string \<times> json) list \<Rightarrow> mde_alert result" where
  "normalize_alert env mapper raw =
     (let rows = rows_of (json_get ''evidence'' raw) in
      rbind (rmap_list (normalize_evidence env mapper) (objects (take MAX_EVIDENCE rows))) (\<lambda>evidence.
      rbind (timestamp_of env (json_get ''lastUpdateDateTime'' raw)) (\<lambda>updated.
      rbind (tidy_text (json_get ''id'' raw) None) (\<lambda>alert_id.
      rbind (tidy_text (json_get ''title'' raw) (Some ''Untitled Microsoft alert'')) (\<lambda>title.
      rbind (tidy_text (json_get ''status'' raw) (Some ''unknown'')) (\<lambda>status.
      rbind (optional_timestamp env (json_get ''createdDateTime'' raw)) (\<lambda>created.
      rbind (optional_timestamp env (json_get ''firstActivityDateTime'' raw)) (\<lambda>first_activity.
      rbind (optional_timestamp env (json_get ''lastActivityDateTime'' raw)) (\<lambda>last_activity.
      rbind (optional_timestamp env (json_get ''resolvedDateTime'' raw)) (\<lambda>resolved.
        Inr \<lparr>md_alert_id = alert_id, md_provider_alert_id = tidy (json_get ''providerAlertId'' raw), md_incident_id = tidy (json_get ''incidentId'' raw), md_title = title,
          md_description = (case tidy (json_get ''description'' raw) of None \<Rightarrow> [] | Some t \<Rightarrow> t), md_severity = graph_severity (json_get ''severity'' raw), md_provider_status = status,
          md_classification = tidy (json_get ''classification'' raw), md_determination = tidy (json_get ''determination'' raw), md_service_source = tidy (json_get ''serviceSource'' raw),
          md_product_name = tidy (json_get ''productName'' raw), md_detection_source = tidy (json_get ''detectionSource'' raw),
          md_created_at = (case created of None \<Rightarrow> updated | Some t \<Rightarrow> t), md_first_activity_at = first_activity, md_last_activity_at = last_activity, md_last_updated_at = updated,
          md_resolved_at = resolved, md_portal_url = map_option strip (https_url env (json_get ''alertWebUrl'' raw)), md_mitre_techniques = map strip (string_list (json_get ''mitreTechniques'' raw)),
          md_related_asset_ids = take MAX_RELATIONSHIPS (fromkeys (concat (map (\<lambda>e. case truthy (me_canonical_host_id e) of None \<Rightarrow> [] | Some h \<Rightarrow> [h]) evidence))),
          md_evidence = evidence, md_evidence_truncated = MAX_EVIDENCE < length rows\<rparr>))))))))))"

text \<open>\<open>alerts_by_id\<close> is a dict in the order of the alerts.\<close>

definition incident_alert_ids :: "string \<Rightarrow> (string \<times> mde_alert) list \<Rightarrow> (string \<times> json) list \<Rightarrow> string list" where
  "incident_alert_ids incident_id alerts_by_id raw =
     (let ids = concat (map (\<lambda>o1. case optional_text (json_get ''id'' o1) of None \<Rightarrow> [] | Some i \<Rightarrow> [i]) (objects (rows_of (json_get ''alerts'' raw)))) in
      fromkeys (if ids = [] then map (md_alert_id \<circ> snd) (filter (\<lambda>e. md_incident_id (snd e) = Some incident_id) alerts_by_id) else ids))"

definition normalize_incident :: "graph_env \<Rightarrow> (string \<times> mde_alert) list \<Rightarrow> (string \<times> json) list \<Rightarrow> mde_incident result" where
  "normalize_incident env alerts_by_id raw =
     rbind (graph_text (json_get ''id'' raw) None) (\<lambda>incident_id.
     let ids = incident_alert_ids incident_id alerts_by_id raw;
         assets = concat (map (\<lambda>i. case map_of alerts_by_id i of None \<Rightarrow> [] | Some a \<Rightarrow> md_related_asset_ids a) ids) in
     rbind (timestamp_of env (json_get ''lastUpdateDateTime'' raw)) (\<lambda>updated.
     rbind (tidy_text (json_get ''displayName'' raw) (Some ''Untitled Microsoft incident'')) (\<lambda>name.
     rbind (tidy_text (json_get ''status'' raw) (Some ''unknown'')) (\<lambda>status.
     rbind (optional_timestamp env (json_get ''createdDateTime'' raw)) (\<lambda>created.
     rbind (optional_timestamp env (json_get ''resolvedDateTime'' raw)) (\<lambda>resolved.
       Inr \<lparr>mi_incident_id = strip incident_id, mi_display_name = name, mi_description = (case tidy (json_get ''description'' raw) of None \<Rightarrow> [] | Some t \<Rightarrow> t),
         mi_severity = graph_severity (json_get ''severity'' raw), mi_provider_status = status, mi_classification = tidy (json_get ''classification'' raw),
         mi_determination = tidy (json_get ''determination'' raw), mi_created_at = (case created of None \<Rightarrow> updated | Some t \<Rightarrow> t), mi_last_updated_at = updated, mi_resolved_at = resolved,
         mi_portal_url = map_option strip (https_url env (json_get ''incidentWebUrl'' raw)), mi_alert_ids = map strip (take MAX_RELATIONSHIPS ids),
         mi_related_asset_ids = take MAX_RELATIONSHIPS (fromkeys assets),
         mi_relationships_truncated = (MAX_RELATIONSHIPS < length ids \<or> MAX_RELATIONSHIPS < card (set assets))\<rparr>))))))"

section \<open>Duplicates and chunks\<close>

text \<open>\<open>(isinstance(updated, str), updated or "", len(row))\<close>\<close>

definition row_rank :: "(string \<times> json) list \<Rightarrow> nat \<times> string \<times> nat" where
  "row_rank row = (case json_get ''lastUpdateDateTime'' row of JStr t \<Rightarrow> (1, t, length row) | _ \<Rightarrow> (0, [], length row))"

definition dedupe_step :: "(string \<times> (string \<times> json) list) list \<Rightarrow> (string \<times> json) list \<Rightarrow> (string \<times> (string \<times> json) list) list" where
  "dedupe_step by_id row =
     (case optional_text (json_get ''id'' row) of None \<Rightarrow> by_id
      | Some i \<Rightarrow> (case map_of by_id i of None \<Rightarrow> AList.update i row by_id
                  | Some current \<Rightarrow> if row_rank current < row_rank row then AList.update i row by_id else by_id))"

definition dedupe_alert_rows :: "(string \<times> json) list list \<Rightarrow> (string \<times> json) list list" where
  "dedupe_alert_rows rows = map snd (foldl dedupe_step [] rows)"

record mde_env =
  de_graph :: graph_env
  de_dump :: "string \<Rightarrow> datetime \<Rightarrow> mde_alert list \<Rightarrow> mde_incident list \<Rightarrow> string"

record mde_config =
  dg_tenant_id :: string
  dg_poll_time :: timedelta
  dg_initial_lookback :: timedelta
  dg_overlap :: timedelta
  dg_max_items :: nat
  dg_chunk_size :: nat

definition mde_batch :: "mde_env \<Rightarrow> mde_config \<Rightarrow> datetime \<Rightarrow> (mde_alert + mde_incident) list \<Rightarrow> mde_security_batch" where
  "mde_batch env c since part =
     (let alerts = concat (map (\<lambda>x. case x of Inl a \<Rightarrow> [a] | Inr _ \<Rightarrow> []) part); incidents = concat (map (\<lambda>x. case x of Inl _ \<Rightarrow> [] | Inr i \<Rightarrow> [i]) part) in
      \<lparr>mb_batch_id = ''mde-sync-'' @ ge_sha256 (de_graph env) (de_dump env (dg_tenant_id c) since alerts incidents),
       mb_collected_at = Max (set (map (case_sum md_last_updated_at mi_last_updated_at) part)), mb_tenant_id = dg_tenant_id c, mb_query_started_at = since,
       mb_alerts = alerts, mb_incidents = incidents\<rparr>)"

definition mde_batches :: "mde_env \<Rightarrow> mde_config \<Rightarrow> datetime \<Rightarrow> mde_alert list \<Rightarrow> mde_incident list \<Rightarrow> mde_security_batch list" where
  "mde_batches env c since alerts incidents =
     (let items = map Inl alerts @ map Inr incidents; n = dg_chunk_size c in
      map (\<lambda>i. mde_batch env c since (take n (drop (i * n) items))) [0..<(length items + n - 1) div n])"

section \<open>The state\<close>

record mde_state =
  es_watermark :: "datetime option"
  es_lease_owner :: "string option"
  es_lease_until :: "datetime option"
  es_last_attempt_at :: "datetime option"
  es_last_success_at :: "datetime option"
  es_last_error :: "string option"
  es_alert_count :: nat
  es_incident_count :: nat

definition new_mde_state :: mde_state where
  "new_mde_state = \<lparr>es_watermark = None, es_lease_owner = None, es_lease_until = None, es_last_attempt_at = None, es_last_success_at = None, es_last_error = None, es_alert_count = 0,
     es_incident_count = 0\<rparr>"

definition mde_acquire :: "string \<Rightarrow> datetime \<Rightarrow> timedelta \<Rightarrow> mde_state \<Rightarrow> mde_state \<times> bool" where
  "mde_acquire owner now lease s =
     (if es_lease_owner s = None \<or> (case es_lease_until s of None \<Rightarrow> 0 | Some t \<Rightarrow> t) \<le> now \<or> es_lease_owner s = Some owner
      then (s\<lparr>es_lease_owner := Some owner, es_lease_until := Some (now + lease), es_last_attempt_at := Some now\<rparr>, True) else (s, False))"

definition mde_success :: "string \<Rightarrow> datetime \<Rightarrow> datetime \<Rightarrow> nat \<Rightarrow> nat \<Rightarrow> mde_state \<Rightarrow> mde_state result" where
  "mde_success owner watermark now alerts incidents s =
     (if es_lease_owner s \<noteq> Some owner then Inl RuntimeError
      else Inr (s\<lparr>es_watermark := Some watermark, es_last_success_at := Some now, es_last_error := None, es_alert_count := alerts, es_incident_count := incidents,
        es_lease_owner := None, es_lease_until := None\<rparr>))"

definition mde_failure :: "string \<Rightarrow> string \<Rightarrow> mde_state \<Rightarrow> mde_state" where
  "mde_failure owner err s = (if es_lease_owner s = Some owner then s\<lparr>es_last_error := Some (take 2048 err), es_lease_owner := None, es_lease_until := None\<rparr> else s)"

section \<open>One synchronisation\<close>

definition embedded_alerts :: "(string \<times> json) list list \<Rightarrow> (string \<times> json) list list" where
  "embedded_alerts incidents = concat (map (\<lambda>i. objects (rows_of (json_get ''alerts'' i))) incidents)"

definition mde_since :: "mde_config \<Rightarrow> datetime \<Rightarrow> mde_state \<Rightarrow> datetime" where
  "mde_since c started s = (case es_watermark s of None \<Rightarrow> started - dg_initial_lookback c | Some w \<Rightarrow> w - dg_overlap c)"

definition mde_collect :: "mde_env \<Rightarrow> mde_config \<Rightarrow> (string \<times> string) list result \<Rightarrow> (datetime \<Rightarrow> (string \<times> json) list list result) \<Rightarrow> (datetime \<Rightarrow> (string \<times> json) list list result) \<Rightarrow> datetime
    \<Rightarrow> (mde_alert list \<times> mde_incident list) result" where
  "mde_collect env c mapper fetch_alerts fetch_incidents since =
     rbind mapper (\<lambda>mp. rbind (fetch_alerts since) (\<lambda>raw_alerts. rbind (fetch_incidents since) (\<lambda>raw_incidents.
       let rows = dedupe_alert_rows (raw_alerts @ embedded_alerts raw_incidents) in
       if dg_max_items c < length rows + length raw_incidents then Inl MdeUpstreamError
       else rbind (rmap_list (normalize_alert (de_graph env) mp) rows) (\<lambda>unsorted.
         let alerts = sort_key (\<lambda>a. (md_last_updated_at a, md_alert_id a)) unsorted; by_id = foldl (\<lambda>d a. AList.update (md_alert_id a) a d) [] alerts in
         rbind (rmap_list (normalize_incident (de_graph env) by_id) raw_incidents) (\<lambda>incidents.
           Inr (alerts, sort_key (\<lambda>i. (mi_last_updated_at i, mi_incident_id i)) incidents))))))"

definition mde_sync_once :: "mde_env \<Rightarrow> mde_config \<Rightarrow> (string \<times> string) list result \<Rightarrow> (datetime \<Rightarrow> (string \<times> json) list list result) \<Rightarrow> (datetime \<Rightarrow> (string \<times> json) list list result)
    \<Rightarrow> (mde_security_batch \<Rightarrow> 'a \<Rightarrow> 'a \<times> bool result) \<Rightarrow> string \<Rightarrow> datetime \<Rightarrow> datetime \<Rightarrow> mde_state \<times> 'a \<Rightarrow> (mde_state \<times> 'a) \<times> (nat \<times> nat \<times> nat) option result" where
  "mde_sync_once env c mapper fetch_alerts fetch_incidents ingest owner started now sa =
     (let (s1, acquired) = mde_acquire owner started (max (300 * 1000000) (3 * dg_poll_time c)) (fst sa) in
      if \<not> acquired then ((s1, snd sa), Inr None)
      else
        let since = mde_since c started s1 in
        case mde_collect env c mapper fetch_alerts fetch_incidents since of
          Inl e \<Rightarrow> ((mde_failure owner (error_text e) s1, snd sa), Inl e)
        | Inr (alerts, incidents) \<Rightarrow>
            let batches = mde_batches env c since alerts incidents in
            (case deliver_all ingest batches (snd sa) of
               (a', Inl e) \<Rightarrow> ((mde_failure owner (error_text e) s1, a'), Inl e)
             | (a', Inr _) \<Rightarrow>
                 (case mde_success owner started now (length alerts) (length incidents) s1 of
                    Inl e \<Rightarrow> ((mde_failure owner (error_text e) s1, a'), Inl e)
                  | Inr s2 \<Rightarrow> ((s2, a'), Inr (Some (length alerts, length incidents, length batches))))))"

section \<open>The lease\<close>

datatype mde_op = Mde_success datetime datetime nat nat

fun mde_work :: "string \<Rightarrow> mde_op \<Rightarrow> mde_state \<Rightarrow> mde_state result" where
  "mde_work owner (Mde_success watermark now alerts incidents) s = mde_success owner watermark now alerts incidents s"

interpretation mde_lease: sync_lease es_lease_owner es_watermark mde_acquire mde_work mde_failure "\<lambda>_. True"
proof unfold_locales
  fix owner op s s'
  assume "mde_work owner op s = Inr s'"
  then show "es_lease_owner s = Some owner \<and> (es_lease_owner s' = None \<or> es_lease_owner s' = Some owner) \<and> (es_watermark s' \<noteq> es_watermark s \<longrightarrow> True)"
    by (cases op) (auto simp: mde_success_def split: if_splits)
qed (auto simp: mde_acquire_def mde_failure_def split: if_splits)

end
