(* ===== verification/Mdvm_Properties.thy ===== *)
theory Mdvm_Properties
  imports Sync_Lease Report_Properties Defender_Properties
begin

text \<open>
  Properties of the vulnerability connector: what a delta leaves active, that the snapshots of the affected devices carry exactly the active findings within every bound, that a successful
  synchronisation has delivered them to the Analyzer, and that a failed one keeps its watermark.
\<close>

section \<open>Active findings\<close>

definition active :: "mdvm_state \<Rightarrow> string \<Rightarrow> (string \<times> mdvm_vulnerability) option" where
  "active s k = map_option (\<lambda>r. (fr_device_id r, fr_payload r)) (fetch_where (\<lambda>r. fr_record_key r = k) (vs_findings s))"

text \<open>Keys are unique, as the primary keys demand, and every finding belongs to a known device.\<close>

definition mdvm_ok :: "mdvm_state \<Rightarrow> bool" where
  "mdvm_ok s = (distinct (map fr_record_key (vs_findings s)) \<and> distinct (map dv_device_id (vs_devices s))
     \<and> (\<forall>r \<in> set (vs_findings s). fr_device_id r \<in> dv_device_id ` set (vs_devices s)))"

definition outcome_of :: "mdvm_change \<Rightarrow> (string \<times> mdvm_vulnerability) option" where
  "outcome_of c = (case mc_action c of FIXED \<Rightarrow> None | UPSERT \<Rightarrow> Some (mc_device_id c, mc_finding c))"

lemma fetch_del: "fetch_where (\<lambda>r. key r = k) (del_where (\<lambda>r. key r = j) rows) = (if k = j then None else fetch_where (\<lambda>r. key r = k) rows)"
proof (cases "k = j")
  case True
  then show ?thesis by (simp add: fetch_where_def del_where_def first_row_def)
next
  case False
  then have "(\<lambda>r. key r \<noteq> j \<and> key r = k) = (\<lambda>r. key r = k)" by auto
  with False show ?thesis by (simp add: fetch_where_def del_where_def conj_commute)
qed

lemma fetch_snoc: "fetch_where P (rows @ [r]) = (case fetch_where P rows of None \<Rightarrow> if P r then Some r else None | Some x \<Rightarrow> Some x)"
  by (auto simp: fetch_where_def first_row_def split: list.splits)

lemma active_apply: "active (apply_change c s) k = (if k = mc_record_key c then outcome_of c else active s k)"
  by (auto simp: active_def apply_change_def outcome_of_def put_finding_def fetch_snoc fetch_del split: mdvm_action.splits option.splits)

lemma active_fold: "active (fold apply_change cs s) k = (if filter (\<lambda>c. mc_record_key c = k) cs = [] then active s k else outcome_of (last (filter (\<lambda>c. mc_record_key c = k) cs)))"
  by (induction cs arbitrary: s) (auto simp: active_apply)

lemma upsert_devices:
  "dv_device_id ` set (upsert_device c rows) = insert (mc_device_id c) (dv_device_id ` set rows)"
  "distinct (map dv_device_id rows) \<Longrightarrow> distinct (map dv_device_id (upsert_device c rows))"
proof -
  have did: "dv_device_id (device_of c) = mc_device_id c" by (simp add: device_of_def)
  have same: "map dv_device_id (upd_where (\<lambda>r. dv_device_id r = mc_device_id c) (\<lambda>r. (device_of c)\<lparr>dv_observed_at := x r\<rparr>) rows) = map dv_device_id rows" for x
    by (simp add: upd_where_def device_of_def)
  then have ids: "dv_device_id ` set (upd_where (\<lambda>r. dv_device_id r = mc_device_id c) (\<lambda>r. (device_of c)\<lparr>dv_observed_at := x r\<rparr>) rows) = dv_device_id ` set rows" for x
    by (metis set_map)
  show "dv_device_id ` set (upsert_device c rows) = insert (mc_device_id c) (dv_device_id ` set rows)"
    using ids [of "\<lambda>r. max (mc_observed_at c) (dv_observed_at r)"] did by (auto simp: upsert_device_def count_where_def filter_empty_conv intro: rev_image_eqI)
  show "distinct (map dv_device_id rows) \<Longrightarrow> distinct (map dv_device_id (upsert_device c rows))"
    using same [of "\<lambda>r. max (mc_observed_at c) (dv_observed_at r)"] did by (auto simp: upsert_device_def count_where_def filter_empty_conv)
qed

lemma distinct_del: "distinct (map f rows) \<Longrightarrow> distinct (map f (del_where P rows))"
  by (simp add: del_where_def distinct_map_filter)

lemma put_finding_keys: "distinct (map fr_record_key rows) \<Longrightarrow> distinct (map fr_record_key (put_finding c rows))"
  by (auto simp: put_finding_def distinct_del)

lemma mdvm_ok_put:
  "mdvm_ok s \<Longrightarrow> mdvm_ok (s\<lparr>vs_devices := upsert_device c (vs_devices s), vs_findings := put_finding c (vs_findings s)\<rparr>)"
  by (auto simp: mdvm_ok_def upsert_devices put_finding_keys) (auto simp: put_finding_def)

lemma mdvm_ok_apply: "mdvm_ok s \<Longrightarrow> mdvm_ok (apply_change c s)"
  using mdvm_ok_put [of s c] by (cases "mc_action c") (auto simp: apply_change_def mdvm_ok_def upsert_devices distinct_del)

lemma mdvm_ok_fold: "mdvm_ok s \<Longrightarrow> (\<And>x s. mdvm_ok s \<Longrightarrow> mdvm_ok (f x s)) \<Longrightarrow> mdvm_ok (fold f xs s)"
  by (induction xs arbitrary: s) auto

lemma fold_devices:
  assumes "\<And>c s. vs_devices (f c s) = upsert_device c (vs_devices s)"
  shows "dv_device_id ` set (vs_devices (fold f cs s)) = mc_device_id ` set cs \<union> dv_device_id ` set (vs_devices s)"
  by (induction cs arbitrary: s) (auto simp: assms upsert_devices)

lemma sorted_filter_last:
  assumes "sorted (map f xs)" "filter P xs \<noteq> []"
  shows "last (filter P xs) \<in> set xs" "P (last (filter P xs))" "\<forall>x \<in> set xs. P x \<longrightarrow> f x \<le> f (last (filter P xs))"
proof -
  show "last (filter P xs) \<in> set xs" "P (last (filter P xs))" using last_in_set [OF assms(2)] by auto
  define ys z where "ys = butlast (filter P xs)" and "z = last (filter P xs)"
  then have split: "filter P xs = ys @ [z]" using assms(2) by simp
  have "sorted (map f (ys @ [z]))" using assms(1) unfolding split [symmetric] by (rule sorted_filter)
  then have "\<forall>x \<in> set (filter P xs). f x \<le> f z" by (auto simp: split sorted_append)
  then show "\<forall>x \<in> set xs. P x \<longrightarrow> f x \<le> f (last (filter P xs))" by (simp add: z_def)
qed

section \<open>Same-time changes\<close>

lemma ambiguous_free:
  "\<not> ambiguous actions cs \<Longrightarrow> c \<in> set cs \<Longrightarrow> map_of actions (mc_record_key c, mc_observed_at c) = Some a \<Longrightarrow> mc_action c = a"
proof (induction cs arbitrary: actions)
  case (Cons d cs)
  show ?case
  proof (cases "c = d")
    case True
    then show ?thesis using Cons.prems by (auto simp: Let_def split: if_splits)
  next
    case False
    let ?acts = "AList.update (mc_record_key d, mc_observed_at d) (mc_action d) actions"
    have free: "\<not> ambiguous ?acts cs" and agree: "\<forall>p. map_of actions (mc_record_key d, mc_observed_at d) = Some p \<longrightarrow> p = mc_action d"
      using Cons.prems(1) by (auto simp: Let_def split: option.splits if_splits)
    have "map_of ?acts (mc_record_key c, mc_observed_at c) = Some a" using Cons.prems(3) agree by (auto simp: update_conv')
    then show ?thesis using Cons.IH [OF free] Cons.prems(2) False by simp
  qed
qed simp

lemma unambiguous:
  assumes "\<not> ambiguous actions cs" "c \<in> set cs" "d \<in> set cs" "mc_record_key c = mc_record_key d" "mc_observed_at c = mc_observed_at d"
  shows "mc_action c = mc_action d"
  using assms
proof (induction cs arbitrary: actions)
  case (Cons e cs)
  let ?acts = "AList.update (mc_record_key e, mc_observed_at e) (mc_action e) actions"
  have free: "\<not> ambiguous ?acts cs" using Cons.prems(1) by (auto simp: Let_def split: option.splits if_splits)
  have head: "mc_action x = mc_action e" if "x \<in> set cs" "mc_record_key x = mc_record_key e" "mc_observed_at x = mc_observed_at e" for x
    using ambiguous_free [OF free that(1), of "mc_action e"] that(2,3) by (simp add: update_conv')
  show ?case
    using Cons.IH [OF free] Cons.prems(2-5) head by (metis set_ConsD)
qed simp

section \<open>Snapshots\<close>

text \<open>What a snapshot says about its device: the device, the part, the parts, the findings.\<close>

definition core :: "mdvm_snapshot \<Rightarrow> string \<times> nat \<times> nat \<times> mdvm_vulnerability list" where
  "core p = (ms_device_id p, ms_part_index p, ms_part_total p, ms_vulnerabilities p)"

definition device_core :: "nat \<Rightarrow> mdvm_state \<Rightarrow> device_row \<Rightarrow> (string \<times> nat \<times> nat \<times> mdvm_vulnerability list) list" where
  "device_core sz s d = (let rows = device_findings (dv_device_id d) s; n = part_count (length rows) sz in map (\<lambda>i. (dv_device_id d, i + 1, n, take sz (drop (i * sz) rows))) [0..<n])"

lemma valid_snapshot_core: "valid_snapshot p = Inr q \<Longrightarrow> strip (ms_device_id p) = ms_device_id p \<Longrightarrow> core q = core p"
  by (auto simp: valid_snapshot_def core_def valid_str_eq rbind_def split: sum.splits if_splits)

lemma valid_snapshots_core:
  "list_all2 (\<lambda>p q. valid_snapshot p = Inr q) ps qs \<Longrightarrow> \<forall>p \<in> set ps. strip (ms_device_id p) = ms_device_id p \<Longrightarrow> map core qs = map core ps"
  by (induction rule: list_all2_induct) (auto dest: valid_snapshot_core)

lemma device_snapshots_core:
  assumes "device_snapshots env c mapper ids s = Inr snaps" "\<forall>d \<in> set (vs_devices s). strip (dv_device_id d) = dv_device_id d"
  shows "map core snaps = concat (map (device_core (vc_findings_per_snapshot c) s) (sort_key dv_device_id (filter (\<lambda>d. dv_device_id d \<in> set ids) (vs_devices s))))"
proof -
  let ?sz = "vc_findings_per_snapshot c" and ?ds = "sort_key dv_device_id (filter (\<lambda>d. dv_device_id d \<in> set ids) (vs_devices s))"
  let ?g = "\<lambda>d. map (snapshot_part env (vc_tenant_id c) mapper ?sz d (device_findings (dv_device_id d) s)) [0..<part_count (length (device_findings (dv_device_id d) s)) ?sz]"
  have g: "map core (?g d) = device_core ?sz s d" for d by (simp add: device_core_def core_def snapshot_part_def Let_def)
  have "list_all2 (\<lambda>p q. valid_snapshot p = Inr q) (concat (map ?g ?ds)) snaps" using assms(1) by (simp add: device_snapshots_def Let_def rmap_list_eq_Inr)
  then have "map core snaps = map core (concat (map ?g ?ds))" using assms(2) by (intro valid_snapshots_core) (auto simp: snapshot_part_def Let_def)
  also have "\<dots> = concat (map (\<lambda>d. map core (?g d)) ?ds)" by (simp add: map_concat comp_def)
  finally show ?thesis unfolding g .
qed

lemma filter_concat_one:
  assumes "distinct (map key xs)" "x \<in> set xs" "\<And>y q. y \<in> set xs \<Longrightarrow> q \<in> set (g y) \<Longrightarrow> tag q = key y"
  shows "filter (\<lambda>q. tag q = key x) (concat (map g xs)) = g x"
  using assms
proof (induction xs)
  case (Cons y ys)
  show ?case
  proof (cases "x = y")
    case True
    have "\<forall>z \<in> set ys. \<forall>q \<in> set (g z). tag q \<noteq> key x" using Cons.prems(1,3) True by (metis image_eqI distinct.simps(2) list.simps(9) set_map list.set_intros(2))
    then have "filter (\<lambda>q. tag q = key x) (concat (map g ys)) = []" by (auto simp: filter_empty_conv)
    moreover have "filter (\<lambda>q. tag q = key x) (g y) = g y" using Cons.prems(3) True by (auto intro: filter_True)
    ultimately show ?thesis using True by simp
  next
    case False
    then have x: "x \<in> set ys" using Cons.prems(2) by simp
    then have "key x \<noteq> key y" using Cons.prems(1) by (metis distinct.simps(2) image_eqI list.simps(9) set_map)
    then have "filter (\<lambda>q. tag q = key x) (g y) = []" using Cons.prems(3) [of y] by (fastforce simp: filter_empty_conv)
    then show ?thesis using Cons.IH [OF _ x] Cons.prems by simp
  qed
qed simp

lemma part_count_covers: "0 < sz \<Longrightarrow> n \<le> part_count n sz * sz"
proof -
  assume "0 < sz"
  then have "n \<le> (n + sz - 1) div sz * sz" using mod_less_divisor [of sz "n + sz - 1"] div_mult_mod_eq [of "n + sz - 1" sz] by linarith
  also have "\<dots> \<le> part_count n sz * sz" by (intro mult_le_mono1) (simp add: part_count_def)
  finally show ?thesis .
qed

lemma device_core_lossless:
  assumes "0 < sz"
  shows "concat (map (\<lambda>q. snd (snd (snd q))) (device_core sz s d)) = device_findings (dv_device_id d) s"
  using take_pages [OF assms, of "device_findings (dv_device_id d) s" "part_count (length (device_findings (dv_device_id d) s)) sz"] part_count_covers [OF assms, of "length (device_findings (dv_device_id d) s)"]
  by (simp add: device_core_def Let_def comp_def)

section \<open>Batches\<close>

lemma snapshot_groups_spec:
  assumes "snapshot_groups env c ss cur bytes = Inr gs" "0 < vc_snapshots_per_batch c" "length cur \<le> vc_snapshots_per_batch c"
    "bytes = sum_list (map (ve_snapshot_size env) cur)" "bytes \<le> vc_batch_max_bytes c"
  shows "concat gs = cur @ ss \<and> (\<forall>g \<in> set gs. g \<noteq> [] \<and> length g \<le> vc_snapshots_per_batch c \<and> sum_list (map (ve_snapshot_size env) g) \<le> vc_batch_max_bytes c)"
  using assms(1,3-5)
proof (induction ss arbitrary: cur bytes gs)
  case (Cons s ss)
  let ?sz = "ve_snapshot_size env s"
  have small: "?sz \<le> vc_batch_max_bytes c" using Cons.prems(1) by (auto simp: Let_def split: if_splits)
  show ?case
  proof (cases "cur \<noteq> [] \<and> (vc_snapshots_per_batch c \<le> length cur \<or> vc_batch_max_bytes c < bytes + ?sz)")
    case True
    then obtain gs' where gs': "snapshot_groups env c ss [s] ?sz = Inr gs'" "gs = cur # gs'" using Cons.prems(1) small by (auto simp: rbind_def Let_def split: sum.splits)
    then show ?thesis using Cons.IH [OF gs'(1)] Cons.prems(2-4) small assms(2) True by simp
  next
    case False
    then have "snapshot_groups env c ss (cur @ [s]) (bytes + ?sz) = Inr gs" using Cons.prems(1) small by (auto simp: Let_def split: if_splits)
    then show ?thesis using Cons.IH Cons.prems(2,3) small False assms(2) by fastforce
  qed
qed (auto split: if_splits)

section \<open>Delivery\<close>

text \<open>Form's uplink to the Analyzer: the route of the Analyzer on its stores, and whether its acknowledgement says complete.\<close>

definition mdvm_uplink :: "(string \<Rightarrow> string) \<Rightarrow> mdvm_vulnerability_batch store_config \<Rightarrow> asset_report store_config \<Rightarrow> detection_record store_config
    \<Rightarrow> (mdvm_vulnerability_batch \<Rightarrow> disk \<times> (nat \<Rightarrow> disk)) \<Rightarrow> mdvm_vulnerability_batch \<Rightarrow> mdvm_vulnerability_batch record_store \<times> mdvm_stores
    \<Rightarrow> (mdvm_vulnerability_batch record_store \<times> mdvm_stores) \<times> bool result" where
  "mdvm_uplink sha256 cv cr cd world b stores =
     (let (stores', answer) = ingest_mdvm_vulnerability_batch sha256 cv cr cd (fst (world b)) (snd (world b)) b stores in
      (stores', case answer of Inl e \<Rightarrow> Inl AnalyzerUpstreamError | Inr ack \<Rightarrow> Inr (ack_status ack = A_COMPLETE)))"

lemma snapshot_stored_grown:
  "grown_by ar_report_id r k r' \<Longrightarrow> grown_by dx_report_id d j d' \<Longrightarrow> snapshot_stored sha256 (r, d) snap \<Longrightarrow> snapshot_stored sha256 (r', d') snap"
  by (auto simp: snapshot_stored_def dest: grown_ids split: sum.splits)

lemma deliver_stored:
  assumes "column cv ''batch_id'' vb_batch_id" "column cr ''report_id'' ar_report_id" "column cd ''report_id'' dx_report_id" "unbounded cr" "unbounded cd"
  shows "store_ok cv m \<Longrightarrow> deliver_all (mdvm_uplink sha256 cv cr cd world) batches (m, r, d) = ((m', r', d'), Inr u)
    \<Longrightarrow> \<exists>k j. grown_by ar_report_id r k r' \<and> grown_by dx_report_id d j d' \<and> (\<forall>b \<in> set batches. \<forall>snap \<in> set (vb_snapshots b). snapshot_stored sha256 (r', d') snap)"
proof (induction batches arbitrary: m r d)
  case Nil
  then show ?case by (intro exI [of _ 0]) auto
next
  case (Cons b bs)
  obtain m1 r1 d1 answer where run: "ingest_mdvm_vulnerability_batch sha256 cv cr cd (fst (world b)) (snd (world b)) b (m, r, d) = ((m1, r1, d1), answer)" by (metis prod.collapse)
  from mdvm_ingest_spec [OF assms Cons.prems(1) run] obtain k j where one: "grown_by ar_report_id r k r1" "grown_by dx_report_id d j d1" "store_ok cv m1"
    "\<forall>ack. answer = Inr ack \<longrightarrow> mdvm_acknowledged sha256 cv b k j ack (m1, r1, d1)" by blast
  have "mdvm_uplink sha256 cv cr cd world b (m, r, d) = ((m1, r1, d1), case answer of Inl e \<Rightarrow> Inl AnalyzerUpstreamError | Inr ack \<Rightarrow> Inr (ack_status ack = A_COMPLETE))"
    by (simp add: mdvm_uplink_def run)
  then have rest: "deliver_all (mdvm_uplink sha256 cv cr cd world) bs (m1, r1, d1) = ((m', r', d'), Inr u)" and "\<exists>ack. answer = Inr ack"
    using Cons.prems(2) by (auto split: sum.splits if_splits)
  then have here: "\<forall>snap \<in> set (vb_snapshots b). snapshot_stored sha256 (r1, d1) snap" using one(4) by (auto simp: mdvm_acknowledged_def)
  from Cons.IH [OF one(3) rest] obtain k2 j2 where "grown_by ar_report_id r1 k2 r'" "grown_by dx_report_id d1 j2 d'"
    "\<forall>b \<in> set bs. \<forall>snap \<in> set (vb_snapshots b). snapshot_stored sha256 (r', d') snap" by blast
  then show ?case using grown_trans [OF one(1)] grown_trans [OF one(2)] here snapshot_stored_grown by fastforce
qed

lemma batches_concat:
  assumes "mdvm_batches env c md snaps = Inr batches" "0 < vc_snapshots_per_batch c"
  shows "concat (map vb_snapshots batches) = snaps"
    "\<forall>b \<in> set batches. vb_snapshots b \<noteq> [] \<and> length (vb_snapshots b) \<le> vc_snapshots_per_batch c \<and> sum_list (map (ve_snapshot_size env) (vb_snapshots b)) \<le> vc_batch_max_bytes c"
proof -
  obtain gs where gs: "snapshot_groups env c snaps [] 0 = Inr gs" "map vb_snapshots batches = gs" using assms(1) by (auto simp: mdvm_batches_def rbind_def comp_def split: sum.splits)
  have "concat gs = snaps \<and> (\<forall>g \<in> set gs. g \<noteq> [] \<and> length g \<le> vc_snapshots_per_batch c \<and> sum_list (map (ve_snapshot_size env) g) \<le> vc_batch_max_bytes c)"
    using snapshot_groups_spec [OF gs(1) assms(2)] by simp
  then show "concat (map vb_snapshots batches) = snaps"
    "\<forall>b \<in> set batches. vb_snapshots b \<noteq> [] \<and> length (vb_snapshots b) \<le> vc_snapshots_per_batch c \<and> sum_list (map (ve_snapshot_size env) (vb_snapshots b)) \<le> vc_batch_max_bytes c"
    using gs(2) by auto
qed

section \<open>One attempt\<close>

lemma device_snapshots_meta [simp]: "device_snapshots env c mapper ids (s\<lparr>vs_meta := x\<rparr>) = device_snapshots env c mapper ids s"
  by (simp add: device_snapshots_def device_findings_def Let_def)

lemma baseline_affected: "replace_baseline env c owner cs s = Inr (t, aff) \<Longrightarrow> aff = remdups (map mc_device_id cs)"
  by (auto simp: replace_baseline_def Let_def rbind_def split: sum.splits)

lemma delta_affected: "apply_delta env c owner cs s = Inr (t, aff) \<Longrightarrow> aff = remdups (map mc_device_id cs)"
  by (auto simp: apply_delta_def Let_def rbind_def split: sum.splits if_splits)

text \<open>The changes an attempt reads: from the provider's full export, or from what changed since the watermark less the overlap.\<close>

definition read_changes :: "mdvm_env \<Rightarrow> mdvm_config \<Rightarrow> (mdvm_mode \<Rightarrow> datetime option \<Rightarrow> (string \<times> json) list list result) \<Rightarrow> datetime \<Rightarrow> sync_meta \<Rightarrow> mdvm_mode \<Rightarrow> mdvm_change list result" where
  "read_changes env c fetch started m md =
     rbind (fetch md (if md = BASELINE then None else map_option (\<lambda>w. w - vc_delta_overlap c) (sm_watermark m))) (\<lambda>raw.
     rbind (rmap_list (normalize_mdvm_record (ve_graph env) md started) raw) (\<lambda>normalized. Inr (concat_some normalized)))"

definition materialize :: "mdvm_env \<Rightarrow> mdvm_config \<Rightarrow> string \<Rightarrow> mdvm_mode \<Rightarrow> mdvm_change list \<Rightarrow> mdvm_state \<Rightarrow> (mdvm_state \<times> string list) result" where
  "materialize env c owner md changes s = (if md = BASELINE then replace_baseline env c owner changes s else apply_delta env c owner changes s)"

lemma prepare_spec:
  assumes "prepare_sync env c mapper fetch owner started s = (s2, res)"
  shows "vs_meta s2 = vs_meta s"
    "res = Inr (md, changes, affected, batches) \<Longrightarrow> affected = remdups (map mc_device_id changes) \<and> (md = BASELINE \<longleftrightarrow> baseline_due c started (vs_meta s))
      \<and> read_changes env c fetch started (vs_meta s) md = Inr changes \<and> materialize env c owner md changes s = Inr (s2, affected)
      \<and> (\<exists>mp snaps. mapper = Inr mp \<and> device_snapshots env c mp affected s2 = Inr snaps \<and> mdvm_batches env c md snaps = Inr batches)"
proof -
  show "vs_meta s2 = vs_meta s"
    using assms by (auto simp: prepare_sync_def Let_def dest: baseline_meta delta_meta split: sum.splits if_splits)
  show "affected = remdups (map mc_device_id changes) \<and> (md = BASELINE \<longleftrightarrow> baseline_due c started (vs_meta s))
      \<and> read_changes env c fetch started (vs_meta s) md = Inr changes \<and> materialize env c owner md changes s = Inr (s2, affected)
      \<and> (\<exists>mp snaps. mapper = Inr mp \<and> device_snapshots env c mp affected s2 = Inr snaps \<and> mdvm_batches env c md snaps = Inr batches)"
    if "res = Inr (md, changes, affected, batches)"
    using assms that by (auto simp: prepare_sync_def read_changes_def materialize_def Let_def rbind_def dest: baseline_affected delta_affected split: sum.splits if_splits)
qed

lemma meta_read:
  assumes "sm_watermark m' = sm_watermark m" "sm_last_baseline_at m' = sm_last_baseline_at m"
  shows "baseline_due c started m' = baseline_due c started m" "read_changes env c fetch started m' md = read_changes env c fetch started m md"
  using assms by (simp_all add: baseline_due_def read_changes_def)

text \<open>The row after an attempt that held the lease: given back, and with the old watermark unless everything was delivered.\<close>

lemma failure_meta: "sm_lease_owner (vs_meta s) = Some owner \<Longrightarrow> sm_lease_owner (vs_meta (sync_failure owner e s)) = None \<and> sm_watermark (vs_meta (sync_failure owner e s)) = sm_watermark (vs_meta s)
    \<and> sm_last_baseline_at (vs_meta (sync_failure owner e s)) = sm_last_baseline_at (vs_meta s)"
  by (simp add: sync_failure_def meta_failure_def)

lemma acquire_meta: "acquire_sync owner now lease s = (s', True) \<Longrightarrow> sm_lease_owner (vs_meta s') = Some owner \<and> sm_watermark (vs_meta s') = sm_watermark (vs_meta s)
    \<and> sm_last_baseline_at (vs_meta s') = sm_last_baseline_at (vs_meta s)"
  by (auto simp: acquire_sync_def meta_acquire_def split: if_splits)

section \<open>Properties\<close>

text \<open>C39: The latest change of a record wins. After a delta a record no change speaks of is as before; any other one is what its latest change says, absent when that fixed it, in whatever
  order the provider listed the changes. Two changes of one record at one time agree on the action, otherwise the delta is refused. Keys stay unique, every finding has its device, and the
  number of active findings stays within its ceiling.\<close>

theorem delta_latest_wins:
  assumes "mdvm_ok s" "apply_delta env c owner changes s = Inr (s', affected)"
  shows "mdvm_ok s' \<and> length (vs_findings s') \<le> vc_state_max_findings c \<and> set affected = mc_device_id ` set changes
    \<and> (if \<exists>ch \<in> set changes. mc_record_key ch = k
       then \<exists>ch \<in> set changes. mc_record_key ch = k \<and> active s' k = outcome_of ch
         \<and> (\<forall>other \<in> set changes. mc_record_key other = k \<longrightarrow> mc_observed_at other \<le> mc_observed_at ch \<and> (mc_observed_at other = mc_observed_at ch \<longrightarrow> mc_action other = mc_action ch))
       else active s' k = active s k)"
proof -
  let ?rank = "\<lambda>ch. (mc_observed_at ch, action_rank (mc_action ch))"
  let ?sorted = "sort_key ?rank changes" and ?P = "\<lambda>ch. mc_record_key ch = k"
  have s': "s' = fold apply_change ?sorted s" "affected = remdups (map mc_device_id changes)" "length (vs_findings s') \<le> vc_state_max_findings c" and free: "\<not> ambiguous [] changes"
    using assms(2) by (auto simp: apply_delta_def ensure_capacity_def Let_def rbind_def split: sum.splits if_splits)
  have ok: "mdvm_ok s'" unfolding s'(1) using assms(1) by (rule mdvm_ok_fold) (rule mdvm_ok_apply)
  show ?thesis
  proof (cases "\<exists>ch \<in> set changes. ?P ch")
    case True
    then have some: "filter ?P ?sorted \<noteq> []" by (auto simp: filter_empty_conv)
    note last = sorted_filter_last [OF sorted_sort_key some]
    let ?z = "last (filter ?P ?sorted)"
    have z: "?z \<in> set changes" "?P ?z" using last(1,2) by simp_all
    have "mc_observed_at other \<le> mc_observed_at ?z \<and> (mc_observed_at other = mc_observed_at ?z \<longrightarrow> mc_action other = mc_action ?z)" if "other \<in> set changes" "?P other" for other
    proof -
      have "?rank other \<le> ?rank ?z" using last(3) that by simp
      then show ?thesis using unambiguous [OF free that(1) z(1)] that(2) z(2) by (simp add: less_eq_prod_def) linarith
    qed
    moreover have "active s' k = outcome_of ?z" using some by (simp add: s'(1) active_fold)
    ultimately have "\<exists>ch \<in> set changes. mc_record_key ch = k \<and> active s' k = outcome_of ch
         \<and> (\<forall>other \<in> set changes. mc_record_key other = k \<longrightarrow> mc_observed_at other \<le> mc_observed_at ch \<and> (mc_observed_at other = mc_observed_at ch \<longrightarrow> mc_action other = mc_action ch))"
      using z by blast
    then show ?thesis using True ok s'(2,3) by simp
  next
    case False
    then show ?thesis using ok s'(2,3) by (auto simp: s'(1) active_fold filter_empty_conv)
  qed
qed

text \<open>C40: Delivery is lossless and bounded. The snapshots of the affected devices, taken batch after batch, carry for every known device, in numbered parts, exactly its active findings in key
  order, also when there are none; parts and batches keep the configured limits.\<close>

theorem snapshots_lossless:
  assumes "mdvm_ok s" "\<forall>d \<in> set (vs_devices s). strip (dv_device_id d) = dv_device_id d" "0 < vc_findings_per_snapshot c" "0 < vc_snapshots_per_batch c"
    "device_snapshots env c mapper ids s = Inr snaps" "mdvm_batches env c md snaps = Inr batches"
  shows "concat (map vb_snapshots batches) = snaps
    \<and> (\<forall>b \<in> set batches. vb_snapshots b \<noteq> [] \<and> length (vb_snapshots b) \<le> vc_snapshots_per_batch c \<and> sum_list (map (ve_snapshot_size env) (vb_snapshots b)) \<le> vc_batch_max_bytes c)
    \<and> (\<forall>p \<in> set snaps. ms_device_id p \<in> set ids \<and> length (ms_vulnerabilities p) \<le> vc_findings_per_snapshot c)
    \<and> (\<forall>d \<in> set (vs_devices s). dv_device_id d \<in> set ids \<longrightarrow>
         (let ps = filter (\<lambda>p. ms_device_id p = dv_device_id d) snaps in
          ps \<noteq> [] \<and> map ms_part_index ps = [1..<Suc (length ps)] \<and> (\<forall>p \<in> set ps. ms_part_total p = length ps)
          \<and> concat (map ms_vulnerabilities ps) = map fr_payload (filter (\<lambda>r. fr_device_id r = dv_device_id d) (sort_key fr_record_key (vs_findings s)))))"
proof -
  let ?sz = "vc_findings_per_snapshot c" and ?ds = "sort_key dv_device_id (filter (\<lambda>d. dv_device_id d \<in> set ids) (vs_devices s))"
  note cores = device_snapshots_core [OF assms(5,2)]
  have dist: "distinct (map dv_device_id ?ds)" using assms(1) by (simp add: mdvm_ok_def sort_key_distinct distinct_map_filter)
  have parts: "\<forall>p \<in> set snaps. ms_device_id p \<in> set ids \<and> length (ms_vulnerabilities p) \<le> ?sz"
  proof
    fix p assume "p \<in> set snaps"
    then have "core p \<in> set (concat (map (device_core ?sz s) ?ds))" using cores by (metis imageI set_map)
    then show "ms_device_id p \<in> set ids \<and> length (ms_vulnerabilities p) \<le> ?sz" by (auto simp: device_core_def core_def Let_def)
  qed
  have device: "let ps = filter (\<lambda>p. ms_device_id p = dv_device_id d) snaps in ps \<noteq> [] \<and> map ms_part_index ps = [1..<Suc (length ps)] \<and> (\<forall>p \<in> set ps. ms_part_total p = length ps)
      \<and> concat (map ms_vulnerabilities ps) = device_findings (dv_device_id d) s" if "d \<in> set (vs_devices s)" "dv_device_id d \<in> set ids" for d
  proof -
    let ?ps = "filter (\<lambda>p. ms_device_id p = dv_device_id d) snaps" and ?n = "part_count (length (device_findings (dv_device_id d) s)) ?sz"
    have "map core ?ps = filter (\<lambda>q. fst q = dv_device_id d) (map core snaps)" by (simp add: filter_map comp_def core_def)
    also have "\<dots> = device_core ?sz s d" unfolding cores using dist that by (intro filter_concat_one) (auto simp: device_core_def Let_def)
    finally have ps: "map core ?ps = device_core ?sz s d" .
    have len: "length ?ps = ?n" using arg_cong [OF ps, of length] by (simp add: device_core_def Let_def)
    have idx: "map ms_part_index ?ps = map (\<lambda>q. fst (snd q)) (map core ?ps)" "map ms_part_total ?ps = map (\<lambda>q. fst (snd (snd q))) (map core ?ps)"
      "map ms_vulnerabilities ?ps = map (\<lambda>q. snd (snd (snd q))) (map core ?ps)" by (simp_all add: core_def)
    have "0 < ?n" by (simp add: part_count_def)
    moreover have "map ms_part_index ?ps = [1..<Suc ?n]" unfolding idx(1) ps by (simp add: device_core_def Let_def comp_def map_Suc_upt)
    moreover have "set (map ms_part_total ?ps) \<subseteq> {?n}" unfolding idx(2) ps by (auto simp: device_core_def Let_def)
    moreover have "concat (map ms_vulnerabilities ?ps) = device_findings (dv_device_id d) s" unfolding idx(3) ps by (rule device_core_lossless [OF assms(3)])
    ultimately show ?thesis using len by (auto simp: Let_def)
  qed
  show ?thesis using batches_concat [OF assms(6,4)] parts device by (simp add: device_findings_def Let_def)
qed


definition mdvm_event :: "mdvm_op lease_event \<Rightarrow> mdvm_state \<Rightarrow> mdvm_state" where
  "mdvm_event ev s = (case ev of Acquire owner now lease \<Rightarrow> fst (acquire_sync owner now lease s) | Work owner op \<Rightarrow> (case mdvm_work owner op s of Inl e \<Rightarrow> s | Inr s' \<Rightarrow> s')
     | Fail owner e \<Rightarrow> sync_failure owner e s)"

lemma mdvm_event_happen: "mdvm_event = mdvm_lease.happen"
  by (intro ext) (simp add: mdvm_event_def split: lease_event.splits)

text \<open>An attempt whose lease was taken over is fenced. Whatever other attempts do afterwards, it can no longer replace or change the active findings, advance the watermark or release the
  lease.\<close>

theorem mdvm_stale_attempt_fenced:
  assumes "acquire_sync other now lease s = (s1, True)" "other \<noteq> owner" "\<forall>ev \<in> set evs. \<forall>t l. ev \<noteq> Acquire owner t l"
  shows "let s2 = fold mdvm_event evs s1 in (\<exists>e. replace_baseline env c owner changes s2 = Inl e) \<and> (\<exists>e. apply_delta env c owner changes s2 = Inl e)
    \<and> (\<exists>e. sync_success owner watermark t md n s2 = Inl e) \<and> sync_failure owner msg s2 = s2"
proof -
  let ?s2 = "fold mdvm_event evs s1"
  have "mdvm_holder s1 \<noteq> Some owner" using mdvm_lease.acquire_won [OF assms(1)] assms(2) by simp
  moreover have "\<forall>ev \<in> set evs. \<not> mdvm_lease.acquires owner ev" using assms(3) by (auto simp: mdvm_lease.acquires_def)
  ultimately have free: "(\<exists>e. mdvm_work owner op ?s2 = Inl e) \<and> sync_failure owner msg ?s2 = ?s2" for op msg
    unfolding mdvm_event_happen by (rule mdvm_lease.fenced_work)
  have "\<exists>e. replace_baseline env c owner changes ?s2 = Inl e" using free [of "Replace_baseline env c changes" msg] by (cases "replace_baseline env c owner changes ?s2") (auto simp: rbind_def)
  moreover have "\<exists>e. apply_delta env c owner changes ?s2 = Inl e" using free [of "Apply_delta env c changes" msg] by (cases "apply_delta env c owner changes ?s2") (auto simp: rbind_def)
  ultimately show ?thesis using free [of "Success watermark t md n" msg] by (simp add: Let_def)
qed

text \<open>A baseline forgets the devices it does not mention. Where the provider lists no vulnerability any more, a baseline attempt succeeds without sending anything, whatever was active before: the last
  report of every device the Analyzer has still shows the findings that are gone.\<close>

theorem baseline_clears_silently:
  assumes "baseline_due c started (vs_meta s)" "sm_lease_owner (vs_meta s) = None" "fetch BASELINE None = Inr []"
  shows "\<exists>s'. mdvm_sync_once env c (Inr mapper) fetch ingest owner started now (s, a) = ((s', a), Inr (Some (BASELINE, 0, 0, 0))) \<and> vs_findings s' = [] \<and> sm_watermark (vs_meta s') = Some started"
proof -
  let ?s1 = "s\<lparr>vs_meta := (vs_meta s)\<lparr>sm_lease_owner := Some owner, sm_lease_until := Some (started + max 900000000 (3 * vc_poll_time c)), sm_last_attempt_at := Some started\<rparr>\<rparr>"
  have due: "baseline_due c started (vs_meta ?s1)" using assms(1) by (simp add: baseline_due_def)
  have "prepare_sync env c (Inr mapper) fetch owner started ?s1 = (?s1\<lparr>vs_devices := [], vs_findings := []\<rparr>, Inr (BASELINE, [], [], []))"
    using due assms(3) by (simp add: prepare_sync_def replace_baseline_def assert_owner_def ensure_capacity_def rbind_def device_snapshots_def mdvm_batches_def)
  then show ?thesis
    using assms(2) by (simp add: mdvm_sync_once_def acquire_sync_def meta_acquire_def sync_success_def meta_success_def rbind_def)
qed

section \<open>Witnesses\<close>

definition mex_graph :: graph_env where
  "mex_graph = \<lparr>ge_sha256 = dfx_sha256, ge_fromisoformat = (\<lambda>_. None), ge_float = (\<lambda>_. None), ge_https = (\<lambda>_. False)\<rparr>"

definition mex_env :: mdvm_env where
  "mex_env = \<lparr>ve_graph = mex_graph, ve_dump_part = (\<lambda>tenant device t i n fs. device), ve_dump_batch = (\<lambda>tenant md ss. tenant), ve_finding_size = (\<lambda>_. 1), ve_snapshot_size = (\<lambda>_. 1)\<rparr>"

definition mex_config :: mdvm_config where
  "mex_config = \<lparr>vc_tenant_id = ''t'', vc_poll_time = 1, vc_baseline_refresh = 10, vc_delta_overlap = 1, vc_findings_per_snapshot = 2, vc_snapshots_per_batch = 2, vc_batch_max_bytes = 5,
     vc_state_max_findings = 3, vc_state_max_bytes = 5\<rparr>"

definition mex_raw :: "(string \<times> json) list" where
  "mex_raw = [(''cveId'', JStr ''CVE-2024-0001''), (''id'', JInt 7), (''deviceId'', JStr ''d1'')]"

definition mex_ch :: mdvm_change where
  "mex_ch = \<lparr>mc_record_key = dfx_sha256 (''7'' @ NUL), mc_action = UPSERT, mc_device_id = ''d1'', mc_device_name = ''d1'', mc_os_platform = ''Microsoft Defender device'', mc_os_version = None,
     mc_os_architecture = None, mc_observed_at = 100,
     mc_finding = \<lparr>mv_record_id = ''7'', mv_cve_id = ''CVE-2024-0001'', mv_software_vendor = ''unknown'', mv_software_name = ''unknown'', mv_software_version = ''unknown'', mv_severity = INFO,
       mv_cvss_score = None, mv_exploitability_level = None, mv_recommended_security_update = None, mv_recommended_security_update_id = None,
       mv_recommended_security_update_url = None, mv_recommendation_reference = None, mv_security_update_available = None, mv_first_seen_at = None, mv_last_seen_at = None,
       mv_last_event_at = None, mv_rbac_group_id = None, mv_rbac_group_name = None, mv_disk_paths = [], mv_registry_paths = [], mv_evidence_truncated = False\<rparr>\<rparr>"

definition mex_snap :: mdvm_snapshot where
  "mex_snap = \<lparr>ms_report_id = ''mdvm-report-d1'', ms_device_id = ''d1'', ms_host_id = ''mde:d1'', ms_device_name = ''d1'', ms_os_platform = ''Microsoft Defender device'', ms_os_version = None,
     ms_os_architecture = None, ms_observed_at = 100, ms_part_index = 1, ms_part_total = 1, ms_vulnerabilities = [mc_finding mex_ch]\<rparr>"

lemma mex_normal: "normalize_mdvm_record mex_graph BASELINE 100 mex_raw = Inr (Some mex_ch)"
proof -
  have texts: "strip ''CVE-2024-0001'' = ''CVE-2024-0001''" "strip ''d1'' = ''d1''" "upper ''CVE-2024-0001'' = ''CVE-2024-0001''" "is_cve ''CVE-2024-0001''" "int_str 7 = ''7''" "strip ''7'' = ''7''"
    "strip ''unknown'' = ''unknown''" by code_simp+
  have "ge_sha256 mex_graph = dfx_sha256" by (simp add: mex_graph_def)
  then show ?thesis
    by (simp add: normalize_mdvm_record_def mex_raw_def json_get_def graph_identifier_def texts optional_time_def optional_text_def text_or_def or_else_def cvss_of_def valid_mdvm_vulnerability_def
        valid_ident_short MAX_CORRELATION_IDENTIFIER_CHARS_def rbind_def Let_def mex_ch_def https_url_def path_list_def stripped_strings_def listed_more_def graph_severity_def lowered_def)
qed

definition mex_change :: "mdvm_action \<Rightarrow> datetime \<Rightarrow> mdvm_change" where
  "mex_change act t = \<lparr>mc_record_key = ''k'', mc_action = act, mc_device_id = ''d1'', mc_device_name = ''pc.local'', mc_os_platform = ''Windows'', mc_os_version = None, mc_os_architecture = None,
     mc_observed_at = t, mc_finding = hd (ms_vulnerabilities dfx_snapshot)\<rparr>"

definition mex_state :: mdvm_state where
  "mex_state = apply_change (mex_change UPSERT 5) (new_mdvm_state\<lparr>vs_meta := empty_meta\<lparr>sm_lease_owner := Some ''w''\<rparr>\<rparr>)"

lemma mex_state_ok: "mdvm_ok mex_state" "\<forall>d \<in> set (vs_devices mex_state). strip (dv_device_id d) = dv_device_id d" "active mex_state ''k'' \<noteq> None"
  by code_simp+

theorem delta_latest_wins_witness:
  "\<exists>s' affected. apply_delta mex_env mex_config ''w'' [mex_change FIXED 9, mex_change UPSERT 7] mex_state = Inr (s', affected) \<and> active s' ''k'' = None \<and> active mex_state ''k'' \<noteq> None"
proof -
  have "isl (apply_delta mex_env mex_config ''w'' [mex_change FIXED 9, mex_change UPSERT 7] mex_state) = False" by code_simp
  then obtain s' affected where run: "apply_delta mex_env mex_config ''w'' [mex_change FIXED 9, mex_change UPSERT 7] mex_state = Inr (s', affected)"
    by (cases "apply_delta mex_env mex_config ''w'' [mex_change FIXED 9, mex_change UPSERT 7] mex_state") auto
  have "active s' ''k'' = None" using delta_latest_wins [OF mex_state_ok(1) run, of "''k''"] by (auto simp: mex_change_def outcome_of_def split: if_splits)
  then show ?thesis using run mex_state_ok(3) by blast
qed

lemma mex_snapshots: "case device_snapshots mex_env mex_config [] [''d1''] mex_state of Inl _ \<Rightarrow> False | Inr snaps \<Rightarrow> \<not> isl (mdvm_batches mex_env mex_config DELTA snaps)"
  by code_simp

theorem snapshots_lossless_witness:
  "\<exists>snaps batches. device_snapshots mex_env mex_config [] [''d1''] mex_state = Inr snaps \<and> mdvm_batches mex_env mex_config DELTA snaps = Inr batches \<and> concat (map vb_snapshots batches) = snaps
     \<and> filter (\<lambda>p. ms_device_id p = ''d1'') snaps \<noteq> []"
proof -
  obtain snaps batches where run: "device_snapshots mex_env mex_config [] [''d1''] mex_state = Inr snaps" "mdvm_batches mex_env mex_config DELTA snaps = Inr batches"
    using mex_snapshots by (auto simp: isl_def split: sum.splits) (metis sum.exhaust)
  have c: "0 < vc_findings_per_snapshot mex_config" "0 < vc_snapshots_per_batch mex_config" by (simp_all add: mex_config_def)
  have "vs_devices mex_state \<noteq> [] \<and> (\<forall>d \<in> set (vs_devices mex_state). dv_device_id d = ''d1'')" by code_simp
  then show ?thesis using snapshots_lossless [OF mex_state_ok(1,2) c run] run by (cases "vs_devices mex_state") (auto simp: Let_def)
qed

theorem mdvm_stale_attempt_fenced_witness:
  "let s1 = fst (acquire_sync ''w2'' 10 5 (fst (acquire_sync ''w1'' 0 5 new_mdvm_state))); s2 = fold mdvm_event [Work ''w2'' (Success 10 11 BASELINE 0), Acquire ''w3'' 12 5] s1 in
     (\<exists>e. apply_delta mex_env mex_config ''w1'' [mex_change UPSERT 7] s2 = Inl e) \<and> (\<exists>e. sync_success ''w1'' 0 13 DELTA 1 s2 = Inl e)"
proof -
  let ?s = "fst (acquire_sync ''w1'' 0 5 new_mdvm_state)"
  have "acquire_sync ''w2'' 10 5 ?s = (fst (acquire_sync ''w2'' 10 5 ?s), True)" by code_simp
  from mdvm_stale_attempt_fenced [OF this, of "''w1''" "[Work ''w2'' (Success 10 11 BASELINE 0), Acquire ''w3'' 12 5]" mex_env mex_config "[mex_change UPSERT 7]" 0 13 DELTA 1]
  show ?thesis by (simp add: Let_def del: fold_simps)
qed

definition mex_uplink :: "mdvm_vulnerability_batch \<Rightarrow> mdvm_vulnerability_batch record_store \<times> mdvm_stores \<Rightarrow> (mdvm_vulnerability_batch record_store \<times> mdvm_stores) \<times> bool result" where
  "mex_uplink = mdvm_uplink dfx_sha256 (dfx_store (\<lambda>_ b. Some (vb_batch_id b))) (dfx_store (\<lambda>_ r. Some (ar_report_id r))) (dfx_store (\<lambda>_ d. Some (dx_report_id d)))
     (\<lambda>_. ((0, 0, False), \<lambda>_. (0, 0, False)))"

lemma mex_rest:
  "case replace_baseline mex_env mex_config ''w'' [mex_ch] (fst (acquire_sync ''w'' 100 900000000 new_mdvm_state)) of Inl _ \<Rightarrow> False
   | Inr (s2, affected) \<Rightarrow> affected = [''d1''] \<and> \<not> isl (sync_success ''w'' 100 101 BASELINE 1 s2)
       \<and> (case device_snapshots mex_env mex_config [] [''d1''] s2 of Inl _ \<Rightarrow> False
          | Inr snaps \<Rightarrow> snaps = [mex_snap] \<and> (case mdvm_batches mex_env mex_config BASELINE snaps of Inl _ \<Rightarrow> False | Inr bs \<Rightarrow> map vb_snapshots bs = [[mex_snap]]))"
  by code_simp

lemma mex_derived: "\<exists>rep det. derive_mdvm_snapshot dfx_sha256 mex_snap = Inr (rep, det)"
proof -
  have "length (mdvm_evidence item) \<le> 4096" for item by (simp add: mdvm_evidence_def)
  then show ?thesis
    by (simp add: derive_mdvm_snapshot_def mex_snap_def mex_ch_def mdvm_package_def mdvm_finding_def valid_package_def valid_vuln_def valid_coverage_def valid_detection_def valid_str_short valid_ident_short
        valid_opt_str_def valid_opt_ident_def rbind_def Let_def mdvm_asset_id_def dfx_sha256_def NUL_def MDVM_SOURCE_def MAX_WIRE_STRING_CHARS_def MAX_CORRELATION_IDENTIFIER_CHARS_def MAX_NESTED_LIST_ITEMS_def
        mdvm_references_def detail_def truthy_def startswith_def upper_def valid_strs_def)
qed

lemma mex_run:
  "\<exists>s' stores'. mdvm_sync_once mex_env mex_config (Inr []) (\<lambda>_ _. Inr [mex_raw]) mex_uplink ''w'' 100 101 (new_mdvm_state, empty_store, empty_store, empty_store)
     = ((s', stores'), Inr (Some (BASELINE, 1, 1, 1)))"
proof -
  let ?s1 = "fst (acquire_sync ''w'' 100 900000000 new_mdvm_state)"
  have inr: "(case x of Inl _ \<Rightarrow> False | Inr y \<Rightarrow> P y) \<Longrightarrow> \<exists>y. x = Inr y \<and> P y" for x :: "'x result" and P by (cases x) auto
  obtain s2 where one: "replace_baseline mex_env mex_config ''w'' [mex_ch] ?s1 = Inr (s2, [''d1''])" "\<not> isl (sync_success ''w'' 100 101 BASELINE 1 s2)"
    "case device_snapshots mex_env mex_config [] [''d1''] s2 of Inl _ \<Rightarrow> False
       | Inr snaps \<Rightarrow> snaps = [mex_snap] \<and> (case mdvm_batches mex_env mex_config BASELINE snaps of Inl _ \<Rightarrow> False | Inr bs \<Rightarrow> map vb_snapshots bs = [[mex_snap]])"
    using inr [OF mex_rest] by blast
  obtain bs where two: "device_snapshots mex_env mex_config [] [''d1''] s2 = Inr [mex_snap]" "mdvm_batches mex_env mex_config BASELINE [mex_snap] = Inr bs" "map vb_snapshots bs = [[mex_snap]]"
  proof -
    obtain snaps where sn: "device_snapshots mex_env mex_config [] [''d1''] s2 = Inr snaps" "snaps = [mex_snap]"
      "case mdvm_batches mex_env mex_config BASELINE snaps of Inl _ \<Rightarrow> False | Inr bs \<Rightarrow> map vb_snapshots bs = [[mex_snap]]" using inr [OF one(3)] by blast
    obtain bs where bs: "mdvm_batches mex_env mex_config BASELINE snaps = Inr bs" "map vb_snapshots bs = [[mex_snap]]" using inr [OF sn(3)] by (elim exE conjE) (rule that)
    show ?thesis by (rule that [OF sn(1) [unfolded sn(2)] bs(1) [unfolded sn(2)] bs(2)])
  qed
  obtain s3 where "sync_success ''w'' 100 101 BASELINE 1 s2 = Inr s3" using one(2) by (cases "sync_success ''w'' 100 101 BASELINE 1 s2") auto
  note rest = one(1) this two
  obtain b where b: "bs = [b]" "vb_snapshots b = [mex_snap]" using rest(5) by auto
  have env: "ve_graph mex_env = mex_graph" "baseline_due mex_config 100 (vs_meta ?s1)" "max 900000000 (3 * vc_poll_time mex_config) = 900000000"
    "acquire_sync ''w'' 100 900000000 new_mdvm_state = (?s1, True)"
    by (simp_all add: mex_env_def mex_config_def baseline_due_def acquire_sync_def meta_acquire_def new_mdvm_state_def empty_meta_def)
  have prep: "prepare_sync mex_env mex_config (Inr []) (\<lambda>_ _. Inr [mex_raw]) ''w'' 100 ?s1 = (s2, Inr (BASELINE, [mex_ch], [''d1''], [b]))"
    using rest(1,3,4) b env(1,2) mex_normal by (simp add: prepare_sync_def rbind_def)
  obtain rep det where "derive_mdvm_snapshot dfx_sha256 mex_snap = Inr (rep, det)" using mex_derived by blast
  then have "\<exists>st. mex_uplink b (empty_store, empty_store, empty_store) = (st, Inr True)"
    using b(2) by (simp add: mex_uplink_def mdvm_uplink_def ingest_mdvm_vulnerability_batch_def dfx_empty dfx_append append_once_def rbind_def settle_ack_def make_ack_def)
  then obtain st where up: "mex_uplink b (empty_store, empty_store, empty_store) = (st, Inr True)" by blast
  obtain s1 where s1: "acquire_sync ''w'' 100 900000000 new_mdvm_state = (s1, True)" using env(4) by blast
  show ?thesis using prep [unfolded s1 fst_conv] rest(2) env(3) s1 up by (cases st) (simp add: mdvm_sync_once_def)
qed


end
