(* ===== verification/Mde_Properties.thy ===== *)
theory Mde_Properties
  imports Mde_Sync Mdvm_Properties
begin

text \<open>
  Properties of the alert connector: of several rows of one alert the newest is kept, and a synchronisation advances its watermark only when every alert and incident it read is an alert of the
  Analyzer.
\<close>

section \<open>Duplicates\<close>

definition row_id :: "(string \<times> json) list \<Rightarrow> string option" where
  "row_id row = optional_text (json_get ''id'' row)"

text \<open>What the dictionary holds after the rows read so far: one row per identifier, of the highest rank.\<close>

definition newest :: "(string \<times> json) list list \<Rightarrow> (string \<times> (string \<times> json) list) list \<Rightarrow> bool" where
  "newest rows d = (distinct (map fst d) \<and> set (map fst d) = {i. \<exists>row \<in> set rows. row_id row = Some i}
     \<and> (\<forall>e \<in> set d. snd e \<in> set rows \<and> row_id (snd e) = Some (fst e) \<and> (\<forall>row \<in> set rows. row_id row = Some (fst e) \<longrightarrow> row_rank row \<le> row_rank (snd e))))"

lemma newest_same: "newest rows d \<Longrightarrow> row_id row = None \<Longrightarrow> newest (rows @ [row]) d"
  by (auto simp: newest_def)

lemma newest_kept:
  assumes "newest rows d" "row_id row = Some i" "map_of d i = Some current" "row_rank row \<le> row_rank current"
  shows "newest (rows @ [row]) d"
proof -
  have mem: "(i, current) \<in> set d" using assms(3) by (rule map_of_SomeD)
  then have i: "i \<in> set (map fst d)" by force
  have "\<forall>e \<in> set d. fst e = i \<longrightarrow> snd e = current" using assms(1) mem unfolding newest_def by (metis eq_key_imp_eq_value prod.collapse)
  then show ?thesis using assms(1,2,4) i unfolding newest_def by (auto simp: image_iff)
qed

lemma newest_update:
  assumes "newest rows d" "row_id row = Some i" "\<forall>current. map_of d i = Some current \<longrightarrow> row_rank current \<le> row_rank row"
  shows "newest (rows @ [row]) (AList.update i row d)"
proof -
  have dist: "distinct (map fst d)" using assms(1) by (simp add: newest_def)
  have mem: "(k, v) \<in> set (AList.update i row d) \<longleftrightarrow> (if k = i then v = row else (k, v) \<in> set d)" for k v
    using map_of_eq_Some_iff [OF distinct_update [OF dist, of i row], of k v] map_of_eq_Some_iff [OF dist, of k v] by (auto simp: update_conv')
  have top: "row_rank r \<le> row_rank row" if "r \<in> set rows" "row_id r = Some i" for r
  proof -
    have "i \<in> set (map fst d)" using assms(1) that by (auto simp: newest_def)
    then obtain current where cur: "(i, current) \<in> set d" by auto
    then have "row_rank r \<le> row_rank current" using assms(1) that by (force simp: newest_def)
    then show ?thesis using assms(3) cur dist by (metis map_of_is_SomeI order_trans)
  qed
  have keys: "set (map fst (AList.update i row d)) = insert i (set (map fst d))" by (simp add: dom_map_of_conv_image_fst [symmetric] update_conv')
  show ?thesis
    unfolding newest_def
  proof (intro conjI)
    show "distinct (map fst (AList.update i row d))" using dist by (rule distinct_update)
    show "set (map fst (AList.update i row d)) = {j. \<exists>r \<in> set (rows @ [row]). row_id r = Some j}" unfolding keys using assms(1,2) by (auto simp: newest_def)
    show "\<forall>e \<in> set (AList.update i row d). snd e \<in> set (rows @ [row]) \<and> row_id (snd e) = Some (fst e) \<and> (\<forall>r \<in> set (rows @ [row]). row_id r = Some (fst e) \<longrightarrow> row_rank r \<le> row_rank (snd e))"
    proof
      fix e assume "e \<in> set (AList.update i row d)"
      then have e: "if fst e = i then snd e = row else e \<in> set d" using mem [of "fst e" "snd e"] by (auto split: if_splits)
      then show "snd e \<in> set (rows @ [row]) \<and> row_id (snd e) = Some (fst e) \<and> (\<forall>r \<in> set (rows @ [row]). row_id r = Some (fst e) \<longrightarrow> row_rank r \<le> row_rank (snd e))"
        using assms(1,2) top by (cases "fst e = i") (auto simp: newest_def)
    qed
  qed
qed

lemma dedupe_newest: "newest rows d \<Longrightarrow> newest (rows @ more_rows) (foldl dedupe_step d more_rows)"
proof (induction more_rows arbitrary: rows d)
  case (Cons row more_rows)
  have "newest (rows @ [row]) (dedupe_step d row)"
  proof (cases "row_id row")
    case None
    then show ?thesis using newest_same [OF Cons.prems None] by (simp add: dedupe_step_def row_id_def)
  next
    case (Some i)
    then show ?thesis
      using newest_update [OF Cons.prems Some] newest_kept [OF Cons.prems Some]
      by (auto simp: dedupe_step_def row_id_def not_less split: option.splits)
  qed
  then show ?case using Cons.IH by fastforce
qed simp

section \<open>Delivery\<close>

definition mde_uplink :: "(string \<Rightarrow> string) \<Rightarrow> mde_security_batch store_config \<Rightarrow> alert store_config \<Rightarrow> (mde_security_batch \<Rightarrow> disk \<times> (nat \<Rightarrow> disk)) \<Rightarrow> mde_security_batch
    \<Rightarrow> mde_security_batch record_store \<times> alert record_store \<Rightarrow> (mde_security_batch record_store \<times> alert record_store) \<times> bool result" where
  "mde_uplink sha256 cm ca world b stores =
     (let (stores', answer) = ingest_mde_security_batch sha256 cm ca (fst (world b)) (snd (world b)) b stores in
      (stores', case answer of Inl e \<Rightarrow> Inl AnalyzerUpstreamError | Inr ack \<Rightarrow> Inr (ack_status ack = A_COMPLETE)))"

definition mde_stored :: "(string \<Rightarrow> string) \<Rightarrow> string \<Rightarrow> alert record_store \<Rightarrow> mde_alert list \<Rightarrow> mde_incident list \<Rightarrow> bool" where
  "mde_stored sha256 tenant s alerts incidents =
     ((\<forall>a \<in> set alerts. occurrence_stored (alert_from_mde_alert sha256 tenant) s a) \<and> (\<forall>i \<in> set incidents. occurrence_stored (alert_from_mde_incident sha256 tenant) s i))"

lemma occurrence_stored_append: "s_rows s' = s_rows s @ new \<Longrightarrow> occurrence_stored build s item \<Longrightarrow> occurrence_stored build s' item"
  by (auto simp: occurrence_stored_def row_ids_def split: sum.splits)

lemma mde_deliver_stored:
  assumes "id_column ca al_alert_id" "unbounded ca"
  shows "store_ok ca s \<Longrightarrow> distinct (row_ids al_alert_id s) \<Longrightarrow> deliver_all (mde_uplink sha256 cm ca world) batches (m, s) = ((m', s'), res)
    \<Longrightarrow> store_ok ca s' \<and> distinct (row_ids al_alert_id s') \<and> (\<exists>new. s_rows s' = s_rows s @ new) \<and> (res = Inr () \<longrightarrow> (\<forall>b \<in> set batches. mde_stored sha256 (mb_tenant_id b) s' (mb_alerts b) (mb_incidents b)))"
proof (induction batches arbitrary: m s)
  case (Cons b bs)
  obtain m1 s1 answer where run: "ingest_mde_security_batch sha256 cm ca (fst (world b)) (snd (world b)) b (m, s) = ((m1, s1), answer)" by (metis prod.collapse)
  have "budget_room ca fresh_budget s" using assms(2) by (simp add: budget_room_def unbounded_def)
  from mde_batch_stored [OF assms(1) Cons.prems(1,2) this run] obtain new where one: "store_ok ca s1" "distinct (row_ids al_alert_id s1)" "s_rows s1 = s_rows s @ new"
    "\<forall>ack. answer = Inr ack \<and> ack_status ack = A_COMPLETE \<longrightarrow> mde_stored sha256 (mb_tenant_id b) s1 (mb_alerts b) (mb_incidents b)" by (auto simp: mde_stored_def)
  have up: "mde_uplink sha256 cm ca world b (m, s) = ((m1, s1), case answer of Inl e \<Rightarrow> Inl AnalyzerUpstreamError | Inr ack \<Rightarrow> Inr (ack_status ack = A_COMPLETE))"
    by (simp add: mde_uplink_def run)
  show ?case
  proof (cases "\<exists>ack. answer = Inr ack \<and> ack_status ack = A_COMPLETE")
    case True
    then have "deliver_all (mde_uplink sha256 cm ca world) bs (m1, s1) = ((m', s'), res)" using Cons.prems(3) up by auto
    from Cons.IH [OF one(1,2) this] obtain new2 where IH: "store_ok ca s'" "distinct (row_ids al_alert_id s')" "s_rows s' = s_rows s1 @ new2"
      "res = Inr () \<longrightarrow> (\<forall>b \<in> set bs. mde_stored sha256 (mb_tenant_id b) s' (mb_alerts b) (mb_incidents b))" by blast
    have "mde_stored sha256 (mb_tenant_id b) s' (mb_alerts b) (mb_incidents b)" using True one(4) by (auto simp: mde_stored_def intro: occurrence_stored_append [OF IH(3)])
    then show ?thesis using IH one(3) by simp
  next
    case False
    then have "s' = s1" "\<exists>e. res = Inl e" using Cons.prems(3) up by (auto split: sum.splits)
    then show ?thesis using one(1-3) by auto
  qed
qed simp

text \<open>The chunks hold every item, in order.\<close>

lemma mde_batches_items:
  assumes "0 < dg_chunk_size c"
  shows "set alerts = (\<Union>b \<in> set (mde_batches env c since alerts incidents). set (mb_alerts b))" "set incidents = (\<Union>b \<in> set (mde_batches env c since alerts incidents). set (mb_incidents b))"
    "\<forall>b \<in> set (mde_batches env c since alerts incidents). mb_tenant_id b = dg_tenant_id c"
proof -
  let ?items = "map Inl alerts @ map Inr incidents" and ?n = "dg_chunk_size c"
  let ?k = "(length ?items + ?n - 1) div ?n"
  have "length ?items \<le> ?k * ?n" using assms mod_less_divisor [of ?n "length ?items + ?n - 1"] div_mult_mod_eq [of "length ?items + ?n - 1" ?n] by linarith
  then have "set (concat (map (\<lambda>i. take ?n (drop (i * ?n) ?items)) [0..<?k])) = set ?items" using take_pages [OF assms, of ?items ?k] by simp
  then have items: "(\<Union>i \<in> {0..<?k}. set (take ?n (drop (i * ?n) ?items))) = set ?items" by (simp only: set_concat set_map set_upt image_image)
  have parts: "set (mb_alerts (mde_batch env c since part)) = {a. Inl a \<in> set part}" "set (mb_incidents (mde_batch env c since part)) = {i. Inr i \<in> set part}" for part
    by (force simp: mde_batch_def Let_def split: sum.splits)+
  have "(\<Union>b \<in> set (mde_batches env c since alerts incidents). set (mb_alerts b)) = {a. Inl a \<in> (\<Union>i \<in> {0..<?k}. set (take ?n (drop (i * ?n) ?items)))}"
    "(\<Union>b \<in> set (mde_batches env c since alerts incidents). set (mb_incidents b)) = {a. Inr a \<in> (\<Union>i \<in> {0..<?k}. set (take ?n (drop (i * ?n) ?items)))}"
    by (auto simp: mde_batches_def Let_def parts)
  then show "set alerts = (\<Union>b \<in> set (mde_batches env c since alerts incidents). set (mb_alerts b))" "set incidents = (\<Union>b \<in> set (mde_batches env c since alerts incidents). set (mb_incidents b))"
    unfolding items by auto
  show "\<forall>b \<in> set (mde_batches env c since alerts incidents). mb_tenant_id b = dg_tenant_id c" by (auto simp: mde_batches_def mde_batch_def Let_def)
qed

section \<open>Properties\<close>

text \<open>Of the rows of one alert, listed on its own and embedded in incidents, exactly the newest is kept, whatever the order of the rows, and no alert with an identifier is lost.\<close>

theorem dedupe_keeps_newest:
  "distinct (map row_id (dedupe_alert_rows rows)) \<and> row_id ` set (dedupe_alert_rows rows) = {row_id row | row. row \<in> set rows \<and> row_id row \<noteq> None}
   \<and> (\<forall>kept \<in> set (dedupe_alert_rows rows). kept \<in> set rows \<and> (\<forall>row \<in> set rows. row_id row = row_id kept \<longrightarrow> row_rank row \<le> row_rank kept))"
proof -
  let ?d = "foldl dedupe_step [] rows"
  have new: "newest rows ?d" using dedupe_newest [of "[]" "[]" rows] by (simp add: newest_def)
  then have ids: "map row_id (dedupe_alert_rows rows) = map Some (map fst ?d)" by (simp add: dedupe_alert_rows_def newest_def)
  have "row_id ` set (dedupe_alert_rows rows) = Some ` set (map fst ?d)" using arg_cong [OF ids, of set] by (simp add: image_image)
  also have "\<dots> = {row_id row | row. row \<in> set rows \<and> row_id row \<noteq> None}" using new by (force simp: newest_def)
  finally have all: "row_id ` set (dedupe_alert_rows rows) = {row_id row | row. row \<in> set rows \<and> row_id row \<noteq> None}" .
  have "distinct (map fst ?d)" using new by (simp add: newest_def)
  then have dist: "distinct (map row_id (dedupe_alert_rows rows))" unfolding ids by (simp only: distinct_map inj_Some simp_thms)
  have "kept \<in> set rows \<and> (\<forall>row \<in> set rows. row_id row = row_id kept \<longrightarrow> row_rank row \<le> row_rank kept)" if kept: "kept \<in> set (dedupe_alert_rows rows)" for kept
  proof -
    obtain i where "(i, kept) \<in> set ?d" using kept by (auto simp: dedupe_alert_rows_def)
    then show ?thesis using new by (auto simp: newest_def)
  qed
  with dist all show ?thesis by blast
qed


section \<open>Witnesses\<close>

definition eex_env :: mde_env where
  "eex_env = \<lparr>de_graph = mex_graph\<lparr>ge_fromisoformat := (\<lambda>t. if t = ''c'' then Some 3 else Some 4)\<rparr>, de_dump = (\<lambda>tenant since as is. tenant)\<rparr>"

definition eex_config :: mde_config where
  "eex_config = \<lparr>dg_tenant_id = ''t'', dg_poll_time = 1, dg_initial_lookback = 9, dg_overlap = 1, dg_max_items = 9, dg_chunk_size = 2\<rparr>"

definition eex_raw :: "(string \<times> json) list" where
  "eex_raw = [(''id'', JStr ''a1''), (''lastUpdateDateTime'', JStr ''u''), (''title'', JStr ''T''), (''severity'', JStr ''high''), (''description'', JStr ''D''), (''status'', JStr ''new''),
     (''createdDateTime'', JStr ''c'')]"

lemma eex_texts: "strip ''a1'' = ''a1''" "strip ''u'' = ''u''" "strip ''T'' = ''T''" "strip ''high'' = ''high''" "lower ''high'' = ''high''" "strip ''D'' = ''D''" "strip ''new'' = ''new''" "strip ''c'' = ''c''"
  by code_simp+

lemma eex_normal: "normalize_alert (de_graph eex_env) [] eex_raw = Inr (hd (mb_alerts dfx_mde))"
  by (simp add: normalize_alert_def eex_raw_def json_get_def rows_of_def objects_def timestamp_of_def graph_text_def optional_timestamp_def tidy_text_def tidy_def optional_text_def eex_texts
      graph_severity_def lowered_def https_url_def string_list_def stripped_strings_def eex_env_def MAX_EVIDENCE_def rbind_def Let_def dfx_mde_def)

lemma eex_collect: "mde_collect eex_env eex_config (Inr []) (\<lambda>_. Inr [eex_raw]) (\<lambda>_. Inr []) since = Inr (mb_alerts dfx_mde, [])"
proof -
  have "dedupe_alert_rows [eex_raw] = [eex_raw]" by (simp add: dedupe_alert_rows_def dedupe_step_def optional_text_def json_get_def eex_raw_def eex_texts)
  moreover obtain x where "mb_alerts dfx_mde = [x]" "normalize_alert (de_graph eex_env) [] eex_raw = Inr x" using eex_normal by (simp add: dfx_mde_def)
  ultimately show ?thesis by (simp add: mde_collect_def embedded_alerts_def eex_config_def rbind_def)
qed

definition eex_uplink :: "mde_security_batch \<Rightarrow> mde_security_batch record_store \<times> alert record_store \<Rightarrow> (mde_security_batch record_store \<times> alert record_store) \<times> bool result" where
  "eex_uplink = mde_uplink dfx_sha256 (dfx_store (\<lambda>_ b. Some (mb_batch_id b))) (dfx_store (\<lambda>_ a. Some (al_alert_id a))) (\<lambda>_. ((0, 0, False), \<lambda>_. (0, 0, False)))"

lemma eex_up:
  assumes "mb_alerts b = mb_alerts dfx_mde" "mb_incidents b = []" "mb_tenant_id b = ''t''"
  shows "\<exists>m' s'. eex_uplink b (empty_store, empty_store) = ((m', s'), Inr True)"
proof -
  obtain a where a: "alert_from_mde_alert dfx_sha256 ''t'' (hd (mb_alerts dfx_mde)) = Inr a" using dfx_alert by blast
  have "derive_loop (dfx_store (\<lambda>_ a. Some (al_alert_id a))) (alert_from_mde_alert dfx_sha256 ''t'') (\<lambda>_. (0, 0, False)) 0 (mb_alerts dfx_mde) (fresh_budget, empty_store)
      = ((fresh_budget\<lparr>db_records := 1, db_bytes := 1\<rparr>, insert_record a 1 empty_store), None)"
    using a by (simp add: dfx_mde_def budget_append_def dfx_empty dfx_append rbind_def fresh_budget_def MAX_DERIVED_RECORDS_PER_INGEST_def MAX_DERIVED_BYTES_PER_INGEST_def Let_def)
      (simp add: dfx_store_def)
  moreover have "budget_outcome (fresh_budget\<lparr>db_records := 1, db_bytes := 1\<rparr>) [] = \<lparr>do_status = R_COMPLETE, do_records = 1, do_truncated = False, do_reason = None\<rparr>"
    "db_truncated (fresh_budget\<lparr>db_records := 1, db_bytes := 1\<rparr>) = False" by (simp_all add: budget_outcome_def fresh_budget_def truthy_def)
  ultimately show ?thesis
    using assms by (simp add: eex_uplink_def mde_uplink_def ingest_mde_security_batch_def store_mde_security_batch_def dfx_empty dfx_append settle_ack_def make_ack_def Let_def)
qed

lemma eex_run:
  "\<exists>s' stores'. mde_sync_once eex_env eex_config (Inr []) (\<lambda>_. Inr [eex_raw]) (\<lambda>_. Inr []) eex_uplink ''w'' 100 101 (new_mde_state, empty_store, empty_store) = ((s', stores'), Inr (Some (1, 0, 1)))"
proof -
  let ?b = "mde_batch eex_env eex_config 91 (map Inl (mb_alerts dfx_mde))"
  have len: "length (mb_alerts dfx_mde) = 1" by (simp add: dfx_mde_def)
  have bs: "mde_batches eex_env eex_config 91 (mb_alerts dfx_mde) [] = [?b]" using len by (simp add: mde_batches_def eex_config_def Let_def)
  have "mb_alerts ?b = mb_alerts dfx_mde" "mb_incidents ?b = []" "mb_tenant_id ?b = ''t''" by (simp_all add: mde_batch_def eex_config_def Let_def comp_def dfx_mde_def)
  from eex_up [OF this] obtain m' a' where up: "eex_uplink ?b (empty_store, empty_store) = ((m', a'), Inr True)" by blast
  have c: "dg_poll_time eex_config = 1" "dg_initial_lookback eex_config = 9" by (simp_all add: eex_config_def)
  show ?thesis
    using bs up len by (simp add: mde_sync_once_def mde_acquire_def new_mde_state_def mde_since_def eex_collect mde_success_def c)
qed


end
