(* ===== verification/Spec2Isabelle.thy ===== *)
theory Spec2Isabelle
  imports Version_Properties Job_Properties Scoring Predict_Properties Correlate_Properties Alert_Lifecycle Registry_Properties Schedule_Properties
    Ledger_Properties Lineage_Ids Store_Properties Cvss_Properties Detect_Properties Defender_Properties Report_Properties Mde_Properties
begin

text \<open>
  Verification of the Python services of kcatta: Form (\<open>src/form/src/kcatta_form\<close>), which schedules scans, runs them on targets and forwards telemetry, and the Analyzer
  (\<open>src/analyzer/src/analyzer\<close>), which stores telemetry and derives vulnerabilities, alerts and attack paths from it. Paths below are relative to these two directories.

  \<^bold>\<open>How the parts interact.\<close>
  A schedule of Form creates jobs in a durable repository; workers claim jobs under a lease, and direct operations take a lease on the target. A finished scan is an aggregate report, which
  Form splits into chunks whose identifiers carry their lineage. The Analyzer accepts each envelope through a durable ledger (submit, claim, settle), stores the raw record in an append-only
  store with retention, derives records under a budget (detection for reports, correlation for traces and guard events) and acknowledges the outcome. Read models collect the chunks of
  a report, merge alert occurrences with triage, and predict attack paths. Agents authenticate with certificates from a registry with rotation and revocation. Two connectors of Form poll
  Microsoft Defender and hand alerts, incidents and device snapshots to two further ingest routes.

  \<^bold>\<open>Shared theories.\<close>
  \<^item> \<open>Py_Prelude\<close>: exceptions as values (\<open>exn\<close>, \<open>'a result\<close>), Python strings, dictionaries as association lists in insertion order, sorting.
  \<^item> \<open>Strict_Model\<close>, \<open>Scan_Schemas\<close>, \<open>Scoring\<close>: the base of the wire models (\<open>schemas/common.py\<close>), the scan models (\<open>schemas/scan.py\<close>), severities and scores (\<open>scoring.py\<close>).
  \<^item> \<open>Sql_Table\<close>: the SQL statements of the stores as functions on lists of rows.
  \<^item> \<open>Clocked_System\<close>: the locales \<open>clocked_invariant\<close> and \<open>clocked_invariant2\<close>, invariants of systems whose steps carry a clock reading; interpreted on the job repository and the identity registry.
  \<^item> \<open>Simulation\<close>: the locale \<open>forward_simulation\<close>; interpreted on the ingest ledger.
  \<^item> \<open>Micros_Bounds\<close>: the error of the conversion to microseconds in binary64.

  \<^bold>\<open>Form.\<close>
  \<^item> Job repository (\<open>job_store.py\<close>): \<open>Job_Store\<close> has one function per transaction on the record \<open>repo\<close>; \<open>Job_Lifecycle\<close> the moves of a queue head; \<open>Job_System\<close> all
    sequences of operations; \<open>Job_Properties\<close> exclusion of targets, fencing of superseded leases, the lifecycle, well-formedness, the claim and completion round trip, the cancellation race, eviction.
  \<^item> Schedules (\<open>schedule_store.py\<close>, \<open>schedule_worker.py\<close>): \<open>Schedule_Store\<close>, with the locale \<open>keyed_store\<close> as the contract of its table, and \<open>Schedule_Properties\<close>: a tick is
    a sequence of creations on the job repository.
  \<^item> Agent identities (\<open>agent_identity_store.py\<close>, \<open>schemas/agent_identity.py\<close>): \<open>Agent_Registry\<close>, \<open>Registry_Laws\<close>, \<open>Registry_System\<close>, \<open>Registry_Properties\<close>: total reads,
    rotation, at most two accepted certificates, final revocation.
  \<^item> Chunking (\<open>telemetry_chunks.py\<close>): \<open>Telemetry_Chunks\<close>, \<open>Chunk_Properties\<close>: nothing is lost and both budgets are kept.
  \<^item> Defender connectors (\<open>mde.py\<close>, \<open>mdvm.py\<close>): \<open>Graph_Records\<close> reads provider records and maps hosts; \<open>Mdvm_Sync\<close> and \<open>Mde_Sync\<close> hold the two states, their transactions and one
    synchronisation each. \<open>Sync_Lease\<close> is the lease both share, as the locale \<open>sync_lease\<close> interpreted on both. \<open>Mdvm_Properties\<close> and \<open>Mde_Properties\<close>: the latest change of a finding
    wins, snapshots are lossless, and a watermark advances only after the Analyzer, in the model of its ingest routes, has stored everything.

  \<^bold>\<open>Analyzer.\<close>
  \<^item> Versions and advisories (\<open>detect/debversion.py\<close>, \<open>versioning.py\<close>, \<open>osv.py\<close>, \<open>cvss.py\<close>): \<open>Debian_Version\<close>, \<open>Version_Compare\<close>, \<open>Osv_Match\<close>, \<open>Cvss_Severity\<close>. The locales
    \<open>version_order\<close> and \<open>keyed_order\<close> of \<open>Version_Order\<close> are what the matcher needs of a comparator; they are interpreted for dpkg, SemVer and rpm (\<open>Version_Laws\<close>). \<open>Version_Properties\<close>
    decides the OSV predicate and shows where apk comparison is no order; \<open>Cvss_Properties\<close> that a severity is never understated.
  \<^item> Detection (\<open>detect/engine.py\<close>, \<open>limits.py\<close>, \<open>combine.py\<close>, \<open>coverage.py\<close>, \<open>matrix.py\<close>, \<open>kali.py\<close>, \<open>debian_tracker.py\<close>): \<open>Detect_Findings\<close>, \<open>Detect_Coverage\<close>, \<open>Kali_Tracker\<close>,
    with the laws of their loops in \<open>Detect_Laws\<close>, \<open>Coverage_Laws\<close>, \<open>Kali_Laws\<close>; \<open>Detect_Properties\<close>: the findings are exactly the affected pairs and a complete outcome means everything was checked.
  \<^item> Correlation (\<open>correlate/\<close>): \<open>Correlate_Limits\<close>, \<open>Correlate_Group\<close> (the bounded aggregation, locales \<open>severity_grouping\<close> and \<open>counted_grouping\<close>), \<open>Correlate_Trace\<close>,
    \<open>Correlate_Cross\<close> (locale \<open>compound_rule\<close>), \<open>Correlate_Guard\<close> with \<open>Guard_Laws\<close> (locale \<open>guard_rule\<close>, interpreted on the five rules), \<open>Correlate_Properties\<close>; the alert read model is \<open>Alert_Lifecycle\<close>.
  \<^item> Prediction (\<open>predict/\<close>): \<open>Predict_Graph\<close>, \<open>Predict_Engine\<close>, \<open>Predict_Laws\<close>, \<open>Predict_Paths\<close>, \<open>Predict_Properties\<close>: the chain ends saturated and every path is self-contained.
  \<^item> Record store (\<open>storage/sqlite.py\<close>, \<open>storage/lineage.py\<close>): \<open>Record_Store\<close>, \<open>Lineage_Ids\<close>, \<open>Store_Properties\<close>: retention, paging, reassembly of chunks.
  \<^item> Ingest (\<open>api/ingest_queue.py\<close>, \<open>api/ingest.py\<close>): \<open>Ingest_Ledger\<close> with \<open>Ledger_Properties\<close> (refinement of an abstract outbox), \<open>Derived_Budget\<close> with \<open>Budget_Laws\<close>, \<open>Auto_Detect\<close>,
    \<open>Ingest_Pipeline\<close>, \<open>Ingest_Properties\<close>: unique alerts, acknowledged means stored, replay without effect. \<open>Defender_Ingest\<close> and \<open>Defender_Properties\<close> are the two Defender routes.
  \<^item> Report detail (\<open>api/reports.py\<close>, \<open>api/report_projection_cache.py\<close>): \<open>Projection_Cache\<close> (locale \<open>fingerprinted\<close>, interpreted on the stores in \<open>Report_Properties\<close>), \<open>Report_Detail\<close>:
    no stale projection is served and the pages show everything once.

  \<^bold>\<open>Parameters.\<close> What is not source code of the repository is an argument: SHA-1 and SHA-256, C's \<open>pow\<close>, \<open>packaging.version\<close>, the text and byte size of a JSON dump, the parsing of a queued
  payload, \<open>datetime.fromisoformat\<close> and \<open>float\<close> of a text, \<open>urlsplit\<close>, the clock, random identifiers, what the disk answers to an append, the lookup in the advisory store, and for the connectors the
  provider's pages. Hypotheses on them are documented facts only (a digest has its fixed length, a field of a stored row is that of its record).

  \<^bold>\<open>Bounds and termination.\<close> No fuel is used. Loops are structural recursion or have a measure; the outer loop of the prediction is \<open>while_option\<close> and is proved to return, and the version loops
  that may raise return an exception value. Each limit constant of the source has its value here. Instants are integers of microseconds, except the ledger's, which are the rationals its
  doubles denote, with the rounding of every sum.

  \<^bold>\<open>Not modelled.\<close> Threads and sleeps (every transaction is serialised by \<open>BEGIN IMMEDIATE\<close> or a lock, so an execution is a sequence of operations), SQLite connections, pragmas and migration, HTTP
  routes and authentication, metrics, the OAuth and HTTP clients of the connectors, downloads and on-disk indexes of advisories, remote execution over SSH and WinRM, the certificate authority, the
  command lines, and the parts of the repository in other languages.
\<close>

end
